(* ===== verification/Prelude.thy ===== *)
theory Prelude
  imports Main "HOL-Library.Word" "HOL-Library.Monad_Syntax"
begin

text \<open>
  Shared vocabulary of the development: names for the machine types of the C code, the
  integer conversions the code performs implicitly, checked access to byte buffers, and
  the lemma collections and generic lemmas used by the components.

  Conventions used everywhere:
  \<^item> \<open>unsigned char\<close> is \<open>8 word\<close>, \<open>unsigned int\<close> is \<open>32 word\<close>, so that their arithmetic wraps;
  \<^item> a C \<open>int\<close> is kept as \<open>int\<close>, and the code's conversions between \<open>int\<close> and
    \<open>unsigned int\<close> are the functions \<open>int_of_u32\<close> and \<open>u32_of_int\<close>;
  \<^item> an operation whose C counterpart has undefined behaviour or a failing assertion
    returns \<open>None\<close>; the operations compose in the option monad;
  \<^item> a loop that may run forever returns an option of its own: the outer \<open>None\<close> is "never
    returns", an inner \<open>None\<close> is undefined behaviour.
\<close>

unbundle bit_operations_syntax

type_synonym u8 = "8 word"
type_synonym u16 = "16 word"
type_synonym u32 = "32 word"
type_synonym bytes = "u8 list"

text \<open>Collections: facts about frames (what an operation leaves alone), and invariants.\<close>

named_theorems frame "what an operation leaves unchanged"
named_theorems inv_intro "operations keep their component's invariant"

text \<open>Conversions between \<open>int\<close> and the unsigned types (two's complement, as gcc does).\<close>

definition int_of_u32 :: "u32 \<Rightarrow> int" where
  "int_of_u32 x = sint x"

definition u32_of_int :: "int \<Rightarrow> u32" where
  "u32_of_int i = word_of_int i"

definition u32_of_u8 :: "u8 \<Rightarrow> u32" where
  "u32_of_u8 b = ucast b"

definition u8_of_u32 :: "u32 \<Rightarrow> u8" where
  "u8_of_u32 x = ucast x"

lemma uint_u32_of_u8 [simp]: "uint (u32_of_u8 b) = uint b"
  by (simp add: u32_of_u8_def uint_up_ucast is_up)

lemma unat_u32_of_u8 [simp]: "unat (u32_of_u8 b) = unat b"
  by (simp only: unat_eq_nat_uint uint_u32_of_u8)

lemma u8_of_u32_of_u8 [simp]: "u8_of_u32 (u32_of_u8 b) = b"
  by (simp add: u32_of_u8_def u8_of_u32_def ucast_up_ucast_id is_up)

lemma int_of_u32_small:
  assumes "unat x < 2 ^ 31"
  shows "int_of_u32 x = int (unat x)"
proof -
  have "int (unat x) < int (2 ^ 31)" using assms by (simp only: of_nat_less_iff)
  then have "uint x < 2 ^ 31" by simp
  then have "signed_take_bit 31 (uint x) = uint x"
    using uint_nonnegative [of x] by (intro signed_take_bit_int_eq_self) linarith+
  moreover have "sint x = signed_take_bit (LENGTH(32) - Suc 0) (uint x)" by (rule sint_uint)
  ultimately have "sint x = uint x" by simp
  then show ?thesis by (simp add: int_of_u32_def)
qed

lemma unat_u8_less [simp]: "unat (b :: u8) < 256"
  using unsigned_less [of b, where ?'a = nat] by simp

text \<open>Checked buffers: reading or writing outside the buffer has no result.\<close>

definition rd :: "'a list \<Rightarrow> nat \<Rightarrow> 'a option" where
  "rd xs i = (if i < length xs then Some (xs ! i) else None)"

definition wr :: "'a list \<Rightarrow> nat \<Rightarrow> 'a \<Rightarrow> 'a list option" where
  "wr xs i v = (if i < length xs then Some (xs[i := v]) else None)"

lemma rd_eq_Some_iff: "rd xs i = Some v \<longleftrightarrow> i < length xs \<and> xs ! i = v"
  by (auto simp: rd_def)

lemma rd_in: "i < length xs \<Longrightarrow> rd xs i = Some (xs ! i)"
  by (simp add: rd_def)

lemma rd_out [simp]: "length xs \<le> i \<Longrightarrow> rd xs i = None"
  by (simp add: rd_def)

lemma wr_eq_Some_iff: "wr xs i v = Some ys \<longleftrightarrow> i < length xs \<and> ys = xs[i := v]"
  by (auto simp: wr_def)

lemma wr_in: "i < length xs \<Longrightarrow> wr xs i v = Some (xs[i := v])"
  by (simp add: wr_def)

lemma wr_out [simp]: "length xs \<le> i \<Longrightarrow> wr xs i v = None"
  by (simp add: wr_def)

text \<open>Option monad: inversion of a successful sequence.\<close>

lemmas bind_SomeD = Option.bind_eq_Some_conv [THEN iffD1]
lemmas opt_splits = option.split_asm if_split_asm

lemma ex_bool_simps [simp]: "\<exists>b. b" "\<exists>b. \<not> b"
  by blast+

lemma if_Some_None_eq [simp]: "((if b then Some x else None) = Some y) \<longleftrightarrow> b \<and> x = y"
  by simp

text \<open>\<open>ok_post m P\<close>: if \<open>m\<close> has a result, it satisfies \<open>P\<close>; rewriting it through the option monad
  computes weakest preconditions.\<close>

definition ok_post :: "'a option \<Rightarrow> ('a \<Rightarrow> bool) \<Rightarrow> bool" where
  "ok_post m P \<longleftrightarrow> (\<forall>a. m = Some a \<longrightarrow> P a)"

lemma ok_post_simps [simp]:
  "ok_post None P" "ok_post (Some a) P = P a"
  "ok_post (m \<bind> f) P = ok_post m (\<lambda>a. ok_post (f a) P)"
  "ok_post (if b then x else y) P = ((b \<longrightarrow> ok_post x P) \<and> (\<not> b \<longrightarrow> ok_post y P))"
  by (auto simp: ok_post_def bind_eq_Some_conv)

lemma ok_postI: "(\<And>a. m = Some a \<Longrightarrow> P a) \<Longrightarrow> ok_post m P"
  by (simp add: ok_post_def)

lemma ok_postD: "ok_post m P \<Longrightarrow> m = Some a \<Longrightarrow> P a"
  by (simp add: ok_post_def)

text \<open>A fallible operation folded over a list, stopping at the first failure.\<close>

fun foldM :: "('s \<Rightarrow> 'a \<Rightarrow> 's option) \<Rightarrow> 's \<Rightarrow> 'a list \<Rightarrow> 's option" where
  "foldM f s [] = Some s"
| "foldM f s (x # xs) = do { s \<leftarrow> f s x; foldM f s xs }"

lemma foldM_append: "foldM f s (xs @ ys) = do { s \<leftarrow> foldM f s xs; foldM f s ys }"
  by (induction xs arbitrary: s) (simp_all add: Option.bind_assoc)

lemma foldM_inv:
  assumes "\<And>s x s'. P s \<Longrightarrow> x \<in> set xs \<Longrightarrow> f s x = Some s' \<Longrightarrow> P s'" and "P s"
    and "foldM f s xs = Some s'"
  shows "P s'"
  using assms
proof (induction xs arbitrary: s)
  case Nil
  then show ?case by simp
next
  case (Cons x xs)
  from Cons.prems(3) obtain s1 where s1: "f s x = Some s1" "foldM f s1 xs = Some s'"
    by (cases "f s x") auto
  have "P s1" using Cons.prems(1) [OF Cons.prems(2) _ s1(1)] by simp
  moreover have "\<And>s x s'. P s \<Longrightarrow> x \<in> set xs \<Longrightarrow> f s x = Some s' \<Longrightarrow> P s'"
    using Cons.prems(1) by (meson list.set_intros(2))
  ultimately show ?case using Cons.IH s1(2) by blast
qed

text \<open>Sums of a machine-word quantity over a list.\<close>

lemma sum_list_update_word:
  fixes f :: "'a \<Rightarrow> 'w::len word"
  assumes "i < length xs"
  shows "sum_list (map f (xs[i := y])) = sum_list (map f xs) - f (xs ! i) + f y"
  using assms by (induction xs arbitrary: i) (auto simp: nth_Cons split: nat.splits)

text \<open>Signed division of C: truncation towards zero.\<close>

definition trunc_div :: "int \<Rightarrow> int \<Rightarrow> int" where
  "trunc_div a b = sgn a * sgn b * (\<bar>a\<bar> div \<bar>b\<bar>)"

end
