(* ===== verification/CFloat.thy ===== *)
theory CFloat
  imports Complex_Main Prelude "HOL-Library.Log_Nat"
begin

text \<open>
  IEEE-754 binary floating point as the C code uses it (\<open>float\<close> and \<open>double\<close>): the values
  are not-a-number, the two infinities, negative zero and the rational numbers (positive
  zero among them); each operation computes the exact rational result and rounds it to the
  format, to nearest with ties to even. The functions evaluate, and the format is an
  argument: \<open>b32\<close> is C's \<open>float\<close>, \<open>b64\<close> its \<open>double\<close>.
\<close>

datatype cflt = NaN | Inf bool | NegZero | Fin rat

record fmt =
  prec :: nat    \<comment> \<open>significant bits\<close>
  qmin :: int    \<comment> \<open>exponent of the smallest positive number\<close>
  emax :: int    \<comment> \<open>exponent of the largest binade\<close>

definition b32 :: fmt where "b32 = \<lparr>prec = 24, qmin = -149, emax = 127\<rparr>"
definition b64 :: fmt where "b64 = \<lparr>prec = 53, qmin = -1074, emax = 1023\<rparr>"

definition pow2 :: "int \<Rightarrow> rat" where
  "pow2 k = (if 0 \<le> k then 2 ^ nat k else 1 / 2 ^ nat (- k))"

text \<open>The binary exponent of a positive rational.\<close>

definition ilog2 :: "rat \<Rightarrow> int" where
  "ilog2 r = (let (a, b) = quotient_of r;
                  k = int (floorlog 2 (nat a)) - int (floorlog 2 (nat b))
              in if pow2 k \<le> r then k else k - 1)"

definition round_even :: "rat \<Rightarrow> int" where
  "round_even x = (let f = \<lfloor>x\<rfloor>; d = x - of_int f
     in if d < 1 / 2 then f else if d > 1 / 2 then f + 1 else if even f then f else f + 1)"

definition rnd :: "fmt \<Rightarrow> rat \<Rightarrow> cflt" where
  "rnd F r = (if r = 0 then Fin 0 else
     let q = max (ilog2 \<bar>r\<bar> - (int (prec F) - 1)) (qmin F);
         v = of_int (round_even (r / pow2 q)) * pow2 q
     in if pow2 (emax F + 1) \<le> \<bar>v\<bar> then Inf (r < 0)
        else if v = 0 then (if r < 0 then NegZero else Fin 0) else Fin v)"

fun cval :: "cflt \<Rightarrow> rat" where
  "cval (Fin r) = r"
| "cval _ = 0"

fun neg_sign :: "cflt \<Rightarrow> bool" where
  "neg_sign (Fin r) = (r < 0)"
| "neg_sign NegZero = True"
| "neg_sign (Inf s) = s"
| "neg_sign NaN = False"

fun is_fin :: "cflt \<Rightarrow> bool" where
  "is_fin (Fin _) = True"
| "is_fin NegZero = True"
| "is_fin _ = False"

definition signed_zero :: "bool \<Rightarrow> cflt" where
  "signed_zero s = (if s then NegZero else Fin 0)"

fun fneg :: "cflt \<Rightarrow> cflt" where
  "fneg NaN = NaN"
| "fneg (Inf s) = Inf (\<not> s)"
| "fneg NegZero = Fin 0"
| "fneg (Fin r) = (if r = 0 then NegZero else Fin (- r))"

fun fabs :: "cflt \<Rightarrow> cflt" where
  "fabs NaN = NaN"
| "fabs (Inf s) = Inf False"
| "fabs NegZero = Fin 0"
| "fabs (Fin r) = Fin \<bar>r\<bar>"

fun fadd :: "fmt \<Rightarrow> cflt \<Rightarrow> cflt \<Rightarrow> cflt" where
  "fadd F NaN y = NaN"
| "fadd F x NaN = NaN"
| "fadd F (Inf s) (Inf t) = (if s = t then Inf s else NaN)"
| "fadd F (Inf s) y = Inf s"
| "fadd F x (Inf t) = Inf t"
| "fadd F NegZero NegZero = NegZero"
| "fadd F x y = rnd F (cval x + cval y)"

definition fsub :: "fmt \<Rightarrow> cflt \<Rightarrow> cflt \<Rightarrow> cflt" where
  "fsub F x y = fadd F x (fneg y)"

definition fmul :: "fmt \<Rightarrow> cflt \<Rightarrow> cflt \<Rightarrow> cflt" where
  "fmul F x y = (let s = (neg_sign x \<noteq> neg_sign y) in
     if x = NaN \<or> y = NaN then NaN
     else if is_fin x \<and> is_fin y
     then (if cval x * cval y = 0 then signed_zero s else rnd F (cval x * cval y))
     else if is_fin x \<and> cval x = 0 \<or> is_fin y \<and> cval y = 0 then NaN
     else Inf s)"

definition fdiv :: "fmt \<Rightarrow> cflt \<Rightarrow> cflt \<Rightarrow> cflt" where
  "fdiv F x y = (let s = (neg_sign x \<noteq> neg_sign y) in
     if x = NaN \<or> y = NaN then NaN
     else if is_fin x \<and> is_fin y
     then (if cval y = 0 then (if cval x = 0 then NaN else Inf s)
           else if cval x = 0 then signed_zero s else rnd F (cval x / cval y))
     else if is_fin y then Inf s
     else if is_fin x then signed_zero s
     else NaN)"

text \<open>Comparisons; any comparison with a NaN is false.\<close>

fun flt_less :: "cflt \<Rightarrow> cflt \<Rightarrow> bool" where
  "flt_less NaN y = False"
| "flt_less x NaN = False"
| "flt_less (Inf s) (Inf t) = (s \<and> \<not> t)"
| "flt_less (Inf s) y = s"
| "flt_less x (Inf t) = (\<not> t)"
| "flt_less x y = (cval x < cval y)"

text \<open>Conversions: between the formats, from integers, and to integers (truncation; undefined
  in C outside the range of the target).\<close>

fun fcvt :: "fmt \<Rightarrow> cflt \<Rightarrow> cflt" where
  "fcvt F (Fin r) = rnd F r"
| "fcvt F x = x"

definition flt_of_int :: "fmt \<Rightarrow> int \<Rightarrow> cflt" where
  "flt_of_int F n = rnd F (of_int n)"

definition rat_trunc :: "rat \<Rightarrow> int" where
  "rat_trunc r = (if r < 0 then - \<lfloor>- r\<rfloor> else \<lfloor>r\<rfloor>)"

definition flt_to_range :: "int \<Rightarrow> int \<Rightarrow> cflt \<Rightarrow> int option" where
  "flt_to_range lo hi x =
     (if is_fin x \<and> lo \<le> rat_trunc (cval x) \<and> rat_trunc (cval x) \<le> hi
      then Some (rat_trunc (cval x)) else None)"

definition flt_to_int :: "cflt \<Rightarrow> int option" where
  "flt_to_int x = flt_to_range (- (2 ^ 31)) (2 ^ 31 - 1) x"

definition flt_to_u32 :: "cflt \<Rightarrow> u32 option" where
  "flt_to_u32 x = map_option word_of_int (flt_to_range 0 (2 ^ 32 - 1) x)"

subsection \<open>Powers of two and the binary exponent\<close>

lemma pow2_powi: "pow2 k = 2 powi k"
  by (simp add: pow2_def power_int_def inverse_eq_divide power_one_over)

lemma pow2_pos [simp]: "0 < pow2 k"
  by (simp add: pow2_def)

lemma pow2_add: "pow2 (a + b) = pow2 a * pow2 b"
  by (simp add: pow2_powi power_int_add)

lemma pow2_of_nat: "pow2 (int n) = 2 ^ n"
  by (simp add: pow2_def)

lemma pow2_mono: "a \<le> b \<Longrightarrow> pow2 a \<le> pow2 b"
  by (simp add: pow2_powi power_int_increasing)

lemma pow2_strict_mono: "a < b \<Longrightarrow> pow2 a < pow2 b"
  by (simp add: pow2_powi power_int_strict_increasing)

lemma pow2_less_iff [simp]: "pow2 a < pow2 b \<longleftrightarrow> a < b"
  using pow2_mono [of b a] pow2_strict_mono [of a b] by (cases "a < b") auto

lemma floorlog2_bounds:
  assumes "0 < n"
  shows "2 ^ (floorlog 2 n - 1) \<le> n" and "n < 2 ^ floorlog 2 n" and "0 < floorlog 2 n"
  using floorlog_bounds [of n 2] assms by (auto simp: floorlog_def)

lemma ilog2_bounds:
  assumes "0 < r"
  shows "pow2 (ilog2 r) \<le> r" and "r < pow2 (ilog2 r + 1)"
proof -
  obtain a b where q: "quotient_of r = (a, b)" by (cases "quotient_of r")
  have b: "0 < b" using quotient_of_denom_pos [OF q] .
  have r: "r = of_int a / of_int b" using quotient_of_div [OF q] .
  have a: "0 < a" using assms b by (simp add: r zero_less_divide_iff)
  define la where "la = floorlog 2 (nat a)"
  define lb where "lb = floorlog 2 (nat b)"
  define k where "k = int la - int lb"
  have na: "0 < nat a" and nb: "0 < nat b" using a b by auto
  note fa = floorlog2_bounds [OF na, folded la_def] and fb = floorlog2_bounds [OF nb, folded lb_def]
  have nat_le: "of_nat x = (of_int i :: rat)" if "x = nat i" "0 < i" for x i using that by simp
  have a1: "pow2 (int la - 1) \<le> of_int a"
  proof -
    have "pow2 (int la - 1) = of_nat (2 ^ (la - 1))" using fa(3) by (simp add: pow2_def nat_diff_distrib')
    also have "\<dots> \<le> of_nat (nat a)" using fa(1) by (simp only: of_nat_le_iff)
    finally show ?thesis using a by simp
  qed
  have a2: "of_int a < pow2 (int la)"
  proof -
    have "(of_nat (nat a) :: rat) < of_nat (2 ^ la)" using fa(2) by (simp only: of_nat_less_iff)
    then show ?thesis using a by (simp add: pow2_def)
  qed
  have b1: "pow2 (int lb - 1) \<le> of_int b"
  proof -
    have "pow2 (int lb - 1) = of_nat (2 ^ (lb - 1))" using fb(3) by (simp add: pow2_def nat_diff_distrib')
    also have "\<dots> \<le> of_nat (nat b)" using fb(1) by (simp only: of_nat_le_iff)
    finally show ?thesis using b by simp
  qed
  have b2: "of_int b < pow2 (int lb)"
  proof -
    have "(of_nat (nat b) :: rat) < of_nat (2 ^ lb)" using fb(2) by (simp only: of_nat_less_iff)
    then show ?thesis using b by (simp add: pow2_def)
  qed
  have bp: "(0 :: rat) < of_int b" using b by simp
  have lo: "pow2 (k - 1) \<le> r"
  proof -
    have "pow2 (k - 1) * of_int b \<le> pow2 (k - 1) * pow2 (int lb)" using b2 by simp
    also have "\<dots> = pow2 (int la - 1)" by (simp add: pow2_add [symmetric] k_def)
    finally have "pow2 (k - 1) * of_int b \<le> of_int a" using a1 by simp
    then show ?thesis using bp by (simp add: r field_simps)
  qed
  have hi: "r < pow2 (k + 1)"
  proof -
    have "of_int a < pow2 (int la)" by (rule a2)
    also have "\<dots> = pow2 (k + 1) * pow2 (int lb - 1)" by (simp add: pow2_add [symmetric] k_def)
    also have "\<dots> \<le> pow2 (k + 1) * of_int b" using b1 by simp
    finally show ?thesis using bp by (simp add: r field_simps)
  qed
  have "ilog2 r = (if pow2 k \<le> r then k else k - 1)"
    by (simp add: ilog2_def q Let_def k_def la_def lb_def)
  then show "pow2 (ilog2 r) \<le> r" and "r < pow2 (ilog2 r + 1)" using lo hi by auto
qed

lemma ilog2_less: "0 < r \<Longrightarrow> r < pow2 k \<Longrightarrow> ilog2 r < k"
  using ilog2_bounds(1) [of r] by (metis order.strict_trans1 pow2_less_iff)

lemma round_even_of_int [simp]: "round_even (of_int n) = n"
  by (simp add: round_even_def)

text \<open>Rounding does nothing to an integer that has no more bits than the format's significand.\<close>

lemma rnd_of_int_exact:
  assumes n: "\<bar>n\<bar> < 2 ^ prec F" and q: "qmin F \<le> 0" and e: "int (prec F) \<le> emax F + 1"
  shows "rnd F (of_int n) = Fin (of_int n)"
proof (cases "n = 0")
  case True
  then show ?thesis by (simp add: rnd_def)
next
  case False
  define k where "k = max (ilog2 \<bar>of_int n\<bar> - (int (prec F) - 1)) (qmin F)"
  have lt: "\<bar>of_int n\<bar> < pow2 (int (prec F))"
  proof -
    have "(of_int \<bar>n\<bar> :: rat) < of_int (2 ^ prec F)" using n by (simp only: of_int_less_iff)
    then show ?thesis by (simp add: pow2_of_nat)
  qed
  have "ilog2 \<bar>of_int n\<bar> < int (prec F)"
    using False lt by (intro ilog2_less) auto
  then have k: "k \<le> 0" using q by (simp add: k_def)
  have "of_int n / pow2 k = of_int (n * 2 ^ nat (- k))"
  proof (cases "k = 0")
    case True then show ?thesis by (simp add: pow2_def)
  next
    case False with k show ?thesis by (simp add: pow2_def)
  qed
  then have "round_even (of_int n / pow2 k) = n * 2 ^ nat (- k)" by (simp only: round_even_of_int)
  moreover have "of_int (n * 2 ^ nat (- k)) * pow2 k = (of_int n :: rat)"
    using k by (cases "k = 0") (auto simp: pow2_def)
  moreover have "\<bar>of_int n\<bar> < pow2 (emax F + 1)"
    using lt e pow2_mono [of "int (prec F)" "emax F + 1"] by linarith
  ultimately show ?thesis using False
    by (simp add: rnd_def Let_def k_def [symmetric] del: of_int_mult)
qed

lemma b32_simps [simp]: "prec b32 = 24" "qmin b32 = -149" "emax b32 = 127"
  and b64_simps [simp]: "prec b64 = 53" "qmin b64 = -1074" "emax b64 = 1023"
  by (simp_all add: b32_def b64_def)

lemma flt_of_int_b32: "\<bar>n\<bar> < 2 ^ 24 \<Longrightarrow> flt_of_int b32 n = Fin (of_int n)"
  unfolding flt_of_int_def by (rule rnd_of_int_exact) simp_all

lemma flt_of_int_b64: "\<bar>n\<bar> < 2 ^ 53 \<Longrightarrow> flt_of_int b64 n = Fin (of_int n)"
  unfolding flt_of_int_def by (rule rnd_of_int_exact) simp_all

lemma rat_trunc_of_int [simp]: "rat_trunc (of_int n) = n"
  by (simp add: rat_trunc_def flip: of_int_minus)


end
