(* ===== verification/ListC.thy ===== *)
theory ListC
  imports Prelude
begin

text \<open>
  \<open>src/list.c\<close>: the doubly linked list that carries the program's collections (preblobs,
  preference sections, device lists). The store is explicit: an address is a \<open>nat\<close> with 0
  for \<open>NULL\<close>, \<open>elems\<close> and \<open>lists\<close> hold the allocated list elements and list headers, a
  fresh address is \<open>brk\<close> and \<open>freed\<close> records the payloads handed to \<open>free\<close>, in order.
  Following a pointer that is \<open>NULL\<close> or dangling has no result, and neither has an
  assertion that fails. The \<open>seg\<close> predicate relates the store to the sequence of
  (address, payload) pairs; the lemmas show that every operation does to that sequence
  what its name says.
\<close>

type_synonym ptr = nat

record list_element =
  le_prev :: ptr
  le_next :: ptr
  le_payload :: ptr

record list_hdr =
  l_head :: ptr
  l_tail :: ptr

record lheap =
  elems :: "ptr \<rightharpoonup> list_element"
  lists :: "ptr \<rightharpoonup> list_hdr"
  brk :: ptr
  freed :: "ptr list"

record iterator =
  it_elem :: ptr
  it_parent :: ptr

definition assert_c :: "bool \<Rightarrow> unit option" where
  "assert_c b = (if b then Some () else None)"

definition empty_heap :: lheap where
  "empty_heap = \<lparr>elems = Map.empty, lists = Map.empty, brk = 1, freed = []\<rparr>"

subsection \<open>The operations\<close>

definition ltr_int_create_list :: "lheap \<Rightarrow> ptr \<times> lheap" where
  "ltr_int_create_list h =
     (brk h, h\<lparr>lists := (lists h)(brk h \<mapsto> \<lparr>l_head = 0, l_tail = 0\<rparr>), brk := brk h + 1\<rparr>)"

definition ltr_int_is_empty :: "lheap \<Rightarrow> ptr \<Rightarrow> bool option" where
  "ltr_int_is_empty h l = do {
     hdr \<leftarrow> lists h l;
     Some (l_head hdr = 0)
   }"

definition ltr_int_add_element :: "lheap \<Rightarrow> ptr \<Rightarrow> ptr \<Rightarrow> lheap option" where
  "ltr_int_add_element h pl payload = do {
     let new = brk h;
     let h = h\<lparr>elems := (elems h)(new \<mapsto> \<lparr>le_prev = 0, le_next = 0, le_payload = payload\<rparr>),
               brk := brk h + 1\<rparr>;
     _ \<leftarrow> assert_c (pl \<noteq> 0);
     hdr \<leftarrow> lists h pl;
     if l_head hdr = 0 then
       Some (h\<lparr>lists := (lists h)(pl \<mapsto> \<lparr>l_head = new, l_tail = new\<rparr>)\<rparr>)
     else do {
       _ \<leftarrow> assert_c (l_tail hdr \<noteq> 0);
       t \<leftarrow> elems h (l_tail hdr);
       Some (h\<lparr>elems := (elems h)(l_tail hdr \<mapsto> t\<lparr>le_next := new\<rparr>,
                 new \<mapsto> \<lparr>le_prev = l_tail hdr, le_next = 0, le_payload = payload\<rparr>),
               lists := (lists h)(pl \<mapsto> hdr\<lparr>l_tail := new\<rparr>)\<rparr>)
     }
   }"

definition ltr_int_init_iterator :: "lheap \<Rightarrow> ptr \<Rightarrow> iterator option" where
  "ltr_int_init_iterator h l = do {
     hdr \<leftarrow> lists h l;
     Some \<lparr>it_elem = l_head hdr, it_parent = l\<rparr>
   }"

definition ltr_int_init_rev_iterator :: "lheap \<Rightarrow> ptr \<Rightarrow> iterator option" where
  "ltr_int_init_rev_iterator h l = do {
     hdr \<leftarrow> lists h l;
     Some \<lparr>it_elem = l_tail hdr, it_parent = l\<rparr>
   }"

definition ltr_int_get_next :: "lheap \<Rightarrow> iterator \<Rightarrow> (ptr \<times> iterator) option" where
  "ltr_int_get_next h i = do {
     _ \<leftarrow> assert_c (it_parent i \<noteq> 0);
     if it_elem i = 0 then Some (0, i)
     else do {
       e \<leftarrow> elems h (it_elem i);
       Some (le_payload e, i\<lparr>it_elem := le_next e\<rparr>)
     }
   }"

definition ltr_int_get_prev :: "lheap \<Rightarrow> iterator \<Rightarrow> (ptr \<times> iterator) option" where
  "ltr_int_get_prev h i = do {
     _ \<leftarrow> assert_c (it_parent i \<noteq> 0);
     if it_elem i = 0 then Some (0, i)
     else do {
       e \<leftarrow> elems h (it_elem i);
       Some (le_payload e, i\<lparr>it_elem := le_prev e\<rparr>)
     }
   }"

definition ltr_int_get_current :: "lheap \<Rightarrow> iterator \<Rightarrow> ptr option" where
  "ltr_int_get_current h i = do {
     _ \<leftarrow> assert_c (it_parent i \<noteq> 0);
     if it_elem i = 0 then Some 0
     else do {
       e \<leftarrow> elems h (it_elem i);
       Some (le_payload e)
     }
   }"

text \<open>Writing one field of an element, and the unlinking at the end of \<open>ltr_int_delete_current\<close>.\<close>

definition set_next :: "lheap \<Rightarrow> ptr \<Rightarrow> ptr \<Rightarrow> lheap option" where
  "set_next h p v = do {
     e \<leftarrow> elems h p;
     Some (h\<lparr>elems := (elems h)(p \<mapsto> e\<lparr>le_next := v\<rparr>)\<rparr>)
   }"

definition set_prev :: "lheap \<Rightarrow> ptr \<Rightarrow> ptr \<Rightarrow> lheap option" where
  "set_prev h p v = do {
     e \<leftarrow> elems h p;
     Some (h\<lparr>elems := (elems h)(p \<mapsto> e\<lparr>le_prev := v\<rparr>)\<rparr>)
   }"

definition unlink_element :: "lheap \<Rightarrow> ptr \<Rightarrow> ptr \<Rightarrow> (ptr \<times> lheap) option" where
  "unlink_element h pl cur = do {
     c \<leftarrow> elems h cur;
     hdr \<leftarrow> lists h pl;
     let hdr = (if l_head hdr = cur then hdr\<lparr>l_head := le_next c\<rparr> else hdr);
     let hdr = (if l_tail hdr = cur then hdr\<lparr>l_tail := le_prev c\<rparr> else hdr);
     let h = h\<lparr>lists := (lists h)(pl \<mapsto> hdr)\<rparr>;
     let prev = le_prev c;
     let nxt = le_next c;
     h \<leftarrow> (if prev \<noteq> 0 then set_next h prev nxt else Some h);
     h \<leftarrow> (if nxt \<noteq> 0 then set_prev h nxt prev else Some h);
     Some (le_payload c, h\<lparr>elems := (elems h)(cur := None)\<rparr>)
   }"

definition ltr_int_delete_current :: "lheap \<Rightarrow> ptr \<Rightarrow> iterator \<Rightarrow> (ptr \<times> lheap) option" where
  "ltr_int_delete_current h pl i = do {
     _ \<leftarrow> assert_c (it_parent i \<noteq> 0);
     _ \<leftarrow> assert_c (it_parent i = pl);
     hdr \<leftarrow> lists h pl;
     empty \<leftarrow> ltr_int_is_empty h pl;
     if empty then Some (0, h)
     else do {
       cur \<leftarrow> (if it_elem i = 0 then Some (l_tail hdr)
              else if it_elem i = l_head hdr then Some (l_head hdr)
              else do { e \<leftarrow> elems h (it_elem i); Some (le_prev e) });
       if cur = 0 then Some (0, h) else unlink_element h pl cur
     }
   }"

text \<open>The loop of \<open>ltr_int_free_list\<close>; on a cyclic list it would use freed memory.\<close>

partial_function (option) free_elements :: "lheap \<Rightarrow> ptr \<Rightarrow> bool \<Rightarrow> lheap option" where
  "free_elements h l free_payload = do {
     hdr \<leftarrow> lists h l;
     if l_head hdr = 0 then Some h
     else do {
       e \<leftarrow> elems h (l_head hdr);
       let h = h\<lparr>lists := (lists h)(l \<mapsto> hdr\<lparr>l_head := le_next e\<rparr>)\<rparr>;
       let h = (if free_payload then h\<lparr>freed := freed h @ [le_payload e]\<rparr> else h);
       free_elements (h\<lparr>elems := (elems h)(l_head hdr := None)\<rparr>) l free_payload
     }
   }"

definition ltr_int_free_list :: "lheap \<Rightarrow> ptr \<Rightarrow> bool \<Rightarrow> lheap option" where
  "ltr_int_free_list h l free_payload = do {
     h \<leftarrow> free_elements h l free_payload;
     Some (h\<lparr>lists := (lists h)(l := None)\<rparr>)
   }"

text \<open>The traversal idiom \<open>while((p = ltr_int_get_next(&i)) != NULL)\<close>: the payloads it meets.\<close>

partial_function (option) walk :: "lheap \<Rightarrow> iterator \<Rightarrow> ptr list option" where
  "walk h i = do {
     (p, i) \<leftarrow> ltr_int_get_next h i;
     if p = 0 then Some []
     else do { ps \<leftarrow> walk h i; Some (p # ps) }
   }"

partial_function (option) walk_back :: "lheap \<Rightarrow> iterator \<Rightarrow> ptr list option" where
  "walk_back h i = do {
     (p, i) \<leftarrow> ltr_int_get_prev h i;
     if p = 0 then Some []
     else do { ps \<leftarrow> walk_back h i; Some (p # ps) }
   }"

text \<open>Filling the array of \<open>ltr_int_list2string_list\<close>, slot by slot.\<close>

fun fill_ids :: "ptr list \<Rightarrow> nat \<Rightarrow> ptr list \<Rightarrow> (nat \<times> ptr list) option" where
  "fill_ids ids j [] = Some (j, ids)"
| "fill_ids ids j (p # ps) = do {
     ids \<leftarrow> wr ids j p;
     fill_ids ids (j + 1) ps
   }"

definition ltr_int_list2string_list ::
  "lheap \<Rightarrow> ptr \<Rightarrow> (nat \<times> ptr list \<times> lheap) option" where
  "ltr_int_list2string_list h l = do {
     empty \<leftarrow> ltr_int_is_empty h l;
     n \<leftarrow> (if \<not> empty then do {
             i \<leftarrow> ltr_int_init_iterator h l;
             ps \<leftarrow> walk h i;
             Some (1 + length ps)
           } else Some 1);
     let ids = replicate n 0;
     i \<leftarrow> ltr_int_init_iterator h l;
     ps \<leftarrow> walk h i;
     (j, ids) \<leftarrow> fill_ids ids 0 ps;
     ids \<leftarrow> wr ids j 0;
     h \<leftarrow> ltr_int_free_list h l False;
     Some (j, ids, h)
   }"

text \<open>\<open>ltr_int_array_cleanup\<close>: free the strings up to the terminating \<open>NULL\<close>.\<close>

function array_cleanup_from :: "ptr list \<Rightarrow> nat \<Rightarrow> ptr list \<Rightarrow> ptr list option" where
  "array_cleanup_from ids i out =
     (case rd ids i of None \<Rightarrow> None
      | Some p \<Rightarrow> if p = 0 then Some out else array_cleanup_from ids (i + 1) (out @ [p]))"
  by pat_completeness auto
termination
  by (relation "measure (\<lambda>(ids, i, out). length ids - i)") (auto simp: rd_eq_Some_iff)

definition ltr_int_array_cleanup :: "lheap \<Rightarrow> ptr list \<Rightarrow> lheap option" where
  "ltr_int_array_cleanup h ids = do {
     ps \<leftarrow> array_cleanup_from ids 0 [];
     Some (h\<lparr>freed := freed h @ ps\<rparr>)
   }"

lemma empty_heap_simps [simp]: "0 < brk empty_heap" "freed empty_heap = []"
  by (simp_all add: empty_heap_def)

subsection \<open>The represented sequence\<close>

text \<open>\<open>seg E p c xs q e\<close>: from address \<open>c\<close>, whose predecessor is \<open>p\<close>, the \<open>next\<close> fields lead
  through the elements of \<open>xs\<close> to \<open>e\<close>; \<open>q\<close> is the last address of the segment (\<open>p\<close> if it is
  empty) and every \<open>prev\<close> field points one element back.\<close>

type_synonym cells = "(ptr \<times> ptr) list"

primrec seg :: "(ptr \<rightharpoonup> list_element) \<Rightarrow> ptr \<Rightarrow> ptr \<Rightarrow> cells \<Rightarrow> ptr \<Rightarrow> ptr \<Rightarrow> bool" where
  "seg E p c [] q e = (p = q \<and> c = e)"
| "seg E p c (x # xs) q e =
     (c = fst x \<and> c \<noteq> 0 \<and>
      (\<exists>n. E c = Some \<lparr>le_prev = p, le_next = n, le_payload = snd x\<rparr> \<and> seg E c n xs q e))"

definition dll :: "lheap \<Rightarrow> ptr \<Rightarrow> cells \<Rightarrow> bool" where
  "dll h l xs \<longleftrightarrow> l \<noteq> 0 \<and> distinct (map fst xs) \<and> 0 < brk h \<and> l < brk h \<and>
     (\<forall>a \<in> fst ` set xs. a < brk h) \<and>
     (\<exists>hd tl. lists h l = Some \<lparr>l_head = hd, l_tail = tl\<rparr> \<and> seg (elems h) 0 hd xs tl 0)"

lemma seg_append [simp]:
  "seg E p c (xs @ ys) q e = (\<exists>q' e'. seg E p c xs q' e' \<and> seg E q' e' ys q e)"
  by (induction xs arbitrary: p c) auto

lemma seg_upd [simp]: "a \<notin> fst ` set xs \<Longrightarrow> seg (E(a := v)) p c xs q e = seg E p c xs q e"
  by (induction xs arbitrary: p c) auto

lemma seg_head_zero: "seg E p 0 xs q e \<Longrightarrow> xs = [] \<and> p = q \<and> e = 0"
  by (cases xs) auto

lemma seg_nonempty_head: "seg E p c xs q 0 \<Longrightarrow> c = 0 \<longleftrightarrow> xs = []"
  by (cases xs) auto

lemma seg_last: "seg E p c xs q e \<Longrightarrow> xs \<noteq> [] \<Longrightarrow> q = fst (last xs) \<and> q \<noteq> 0"
  by (induction xs arbitrary: p c) auto

text \<open>Changing where a nonempty segment leads: only its last element is touched.\<close>

lemma seg_snoc_redirect:
  assumes "seg E p c (xs @ [(a, v)]) q e" and "distinct (map fst (xs @ [(a, v)]))" and "E a = Some c'"
  shows "seg (E(a \<mapsto> c'\<lparr>le_next := e'\<rparr>)) p c (xs @ [(a, v)]) q e'"
  using assms by auto

lemma create_dll:
  assumes "0 < brk h"
  shows "dll (snd (ltr_int_create_list h)) (fst (ltr_int_create_list h)) []"
  using assms by (simp add: ltr_int_create_list_def dll_def)

lemma dll_is_empty: "dll h l xs \<Longrightarrow> ltr_int_is_empty h l = Some (xs = [])"
  by (auto simp: dll_def ltr_int_is_empty_def dest: seg_nonempty_head)

lemma dll_add:
  assumes d: "dll h l xs"
  shows "\<exists>h'. ltr_int_add_element h l v = Some h' \<and> dll h' l (xs @ [(brk h, v)]) \<and>
    brk h' = brk h + 1 \<and> freed h' = freed h"
proof -
  obtain hd tl where l: "l \<noteq> 0" "l < brk h" "lists h l = Some \<lparr>l_head = hd, l_tail = tl\<rparr>"
    and s: "seg (elems h) 0 hd xs tl 0" and ds: "distinct (map fst xs)"
    and b: "0 < brk h" "\<forall>a \<in> fst ` set xs. a < brk h"
    using d unfolding dll_def by auto
  have new: "brk h \<notin> fst ` set xs" using b(2) by auto
  show ?thesis
  proof (cases xs rule: rev_cases)
    case Nil
    with s have "hd = 0" by simp
    then show ?thesis using l Nil b
      by (simp add: ltr_int_add_element_def assert_c_def dll_def Let_def)
  next
    case (snoc ys y)
    obtain a w where y: "y = (a, w)" by (cases y)
    from s snoc have hd: "hd \<noteq> 0" using seg_nonempty_head by fastforce
    from s snoc y have tl: "tl = a" "a \<noteq> 0" and
      E: "\<exists>p. elems h a = Some \<lparr>le_prev = p, le_next = 0, le_payload = w\<rparr>" by auto
    then obtain t where t: "elems h a = Some t" and tn: "le_next t = 0" by auto
    have ab: "a < brk h" using b(2) snoc y by auto
    let ?E = "(elems h)(a \<mapsto> t\<lparr>le_next := brk h\<rparr>,
                brk h \<mapsto> \<lparr>le_prev = a, le_next = 0, le_payload = v\<rparr>)"
    have "seg ((elems h)(a \<mapsto> t\<lparr>le_next := brk h\<rparr>)) 0 hd xs a (brk h)"
      using seg_snoc_redirect [of "elems h" 0 hd ys a w tl 0 t "brk h"] s ds t tl snoc y by simp
    then have sg: "seg ?E 0 hd xs a (brk h)" using new by simp
    then have sg2: "seg ?E 0 hd (xs @ [(brk h, v)]) (brk h) 0" using b(1) by auto
    have nb: "a \<noteq> brk h" using ab by simp
    define h' where "h' = h\<lparr>elems := ?E, brk := brk h + 1,
      lists := (lists h)(l \<mapsto> \<lparr>l_head = hd, l_tail = brk h\<rparr>)\<rparr>"
    have "ltr_int_add_element h l v = Some h'"
      using l hd tl t nb by (simp add: ltr_int_add_element_def assert_c_def h'_def fun_upd_twist Let_def)
    moreover have "dll h' l (xs @ [(brk h, v)])"
      using sg2 l ds new b unfolding dll_def h'_def by auto
    ultimately show ?thesis by (simp add: h'_def)
  qed
qed
subsection \<open>Traversal\<close>

lemma walk_seg:
  assumes "seg (elems h) p c xs q 0" and "l \<noteq> 0" and "0 \<notin> snd ` set xs"
  shows "walk h \<lparr>it_elem = c, it_parent = l\<rparr> = Some (map snd xs)"
  using assms
proof (induction xs arbitrary: p c)
  case Nil
  then show ?case
    by (subst walk.simps) (simp add: ltr_int_get_next_def assert_c_def)
next
  case (Cons x xs)
  then obtain n where n: "c = fst x" "c \<noteq> 0"
    "elems h c = Some \<lparr>le_prev = p, le_next = n, le_payload = snd x\<rparr>" "seg (elems h) c n xs q 0"
    by auto
  have "walk h \<lparr>it_elem = n, it_parent = l\<rparr> = Some (map snd xs)"
    using n Cons by auto
  moreover have "snd x \<noteq> 0" using Cons.prems(3) by force
  ultimately show ?case using n Cons.prems(2)
    by (subst walk.simps) (simp add: ltr_int_get_next_def assert_c_def)
qed

lemma walk_dll:
  assumes d: "dll h l xs" and z: "0 \<notin> snd ` set xs"
  shows "do { i \<leftarrow> ltr_int_init_iterator h l; walk h i } = Some (map snd xs)"
proof -
  obtain hd tl where l: "l \<noteq> 0" "lists h l = Some \<lparr>l_head = hd, l_tail = tl\<rparr>"
    and s: "seg (elems h) 0 hd xs tl 0"
    using d unfolding dll_def by auto
  show ?thesis using walk_seg [OF s l(1) z] l by (simp add: ltr_int_init_iterator_def)
qed

lemma walk_back_seg:
  assumes "seg (elems h) 0 c xs q e" and "l \<noteq> 0" and "0 \<notin> snd ` set xs"
  shows "walk_back h \<lparr>it_elem = q, it_parent = l\<rparr> = Some (rev (map snd xs))"
  using assms
proof (induction xs arbitrary: q e rule: rev_induct)
  case Nil
  then show ?case
    by (subst walk_back.simps) (simp add: ltr_int_get_prev_def assert_c_def)
next
  case (snoc x xs)
  then obtain p where s: "seg (elems h) 0 c xs p q" and n: "q = fst x" "q \<noteq> 0"
    "elems h q = Some \<lparr>le_prev = p, le_next = e, le_payload = snd x\<rparr>"
    by auto
  have "walk_back h \<lparr>it_elem = p, it_parent = l\<rparr> = Some (rev (map snd xs))"
    using s snoc by auto
  moreover have "snd x \<noteq> 0" using snoc.prems(3) by force
  ultimately show ?case using n snoc.prems(2)
    by (subst walk_back.simps) (simp add: ltr_int_get_prev_def assert_c_def)
qed

lemma walk_back_dll:
  assumes d: "dll h l xs" and z: "0 \<notin> snd ` set xs"
  shows "do { i \<leftarrow> ltr_int_init_rev_iterator h l; walk_back h i } = Some (rev (map snd xs))"
proof -
  obtain hd tl where l: "l \<noteq> 0" "lists h l = Some \<lparr>l_head = hd, l_tail = tl\<rparr>"
    and s: "seg (elems h) 0 hd xs tl 0"
    using d unfolding dll_def by auto
  show ?thesis using walk_back_seg [OF s l(1) z] l by (simp add: ltr_int_init_rev_iterator_def)
qed

subsection \<open>Deletion\<close>

lemma seg_set_prev:
  assumes "seg E p c xs q e" and "distinct (map fst xs)" and "xs \<noteq> []" and "E c = Some k"
  shows "seg (E(c \<mapsto> k\<lparr>le_prev := p'\<rparr>)) p' c xs q e"
  using assms by (cases xs) auto

lemma unlink_dll:
  assumes d: "dll h l (xs @ (a, v) # ys)"
  shows "\<exists>h'. unlink_element h l a = Some (v, h') \<and> dll h' l (xs @ ys) \<and>
    elems h' a = None \<and> freed h' = freed h"
proof -
  let ?all = "xs @ (a, v) # ys"
  obtain hd tl where l: "l \<noteq> 0" "l < brk h" "lists h l = Some \<lparr>l_head = hd, l_tail = tl\<rparr>"
    and s: "seg (elems h) 0 hd ?all tl 0" and ds: "distinct (map fst ?all)"
    and b: "0 < brk h" "\<forall>x \<in> fst ` set ?all. x < brk h"
    using d unfolding dll_def by auto
  from s obtain p n where sx: "seg (elems h) 0 hd xs p a" and a: "a \<noteq> 0"
    and E: "elems h a = Some \<lparr>le_prev = p, le_next = n, le_payload = v\<rparr>"
    and sy: "seg (elems h) a n ys tl 0"
    by auto
  have ax: "a \<notin> fst ` set xs" and ay: "a \<notin> fst ` set ys" and dx: "distinct (map fst xs)"
    and dy: "distinct (map fst ys)" and xy: "fst ` set xs \<inter> fst ` set ys = {}"
    using ds by auto
  have hda: "hd = a \<longleftrightarrow> xs = []" using sx ax by (cases xs) auto
  have tla: "tl = a \<longleftrightarrow> ys = []" using sy ay seg_last [OF sy]
    by (cases ys rule: rev_cases) auto
  have p0: "p = 0 \<longleftrightarrow> xs = []" using sx seg_last [OF sx] by (cases xs) auto
  have n0: "n = 0 \<longleftrightarrow> ys = []" using sy seg_nonempty_head by blast
  \<comment> \<open>the element before: its next field leads past the deleted one\<close>
  define E1 where "E1 = (if p \<noteq> 0 then (elems h)(p \<mapsto> (the (elems h p))\<lparr>le_next := n\<rparr>) else elems h)"
  have pe: "p \<noteq> 0 \<Longrightarrow> \<exists>k. elems h p = Some k"
    using sx p0 by (cases xs rule: rev_cases) auto
  have px: "xs \<noteq> [] \<Longrightarrow> p \<in> fst ` set xs" using seg_last [OF sx] by (auto simp: last_in_set)
  have s1: "seg E1 0 hd' xs p n" if "hd' = (if xs = [] then n else hd)" for hd'
  proof (cases xs rule: rev_cases)
    case Nil then show ?thesis using p0 that sx by simp
  next
    case (snoc zs z)
    obtain z1 z2 where z: "z = (z1, z2)" by (cases z)
    then have "p = z1" using sx snoc by auto
    moreover from p0 snoc have "p \<noteq> 0" by simp
    moreover from this obtain k where k: "elems h p = Some k" using pe by blast
    ultimately have "seg ((elems h)(p \<mapsto> k\<lparr>le_next := n\<rparr>)) 0 hd (zs @ [(p, z2)]) p n"
      using seg_snoc_redirect [of "elems h" 0 hd zs z1 z2 p a k n] snoc z sx dx by simp
    then show ?thesis using snoc z \<open>p = z1\<close> \<open>p \<noteq> 0\<close> k that by (simp add: E1_def)
  qed
  have pny: "xs \<noteq> [] \<Longrightarrow> p \<notin> fst ` set ys" using px xy by auto
  have sy1: "seg E1 a n ys tl 0" using sy pny p0 by (auto simp: E1_def)
  define E2 where "E2 = (if n \<noteq> 0 then E1(n \<mapsto> (the (E1 n))\<lparr>le_prev := p\<rparr>) else E1)"
  have ne: "n \<noteq> 0 \<Longrightarrow> \<exists>k. E1 n = Some k" using sy1 n0 by (cases ys) auto
  have s2: "seg E2 p n ys tl' 0" if "tl' = (if ys = [] then p else tl)" for tl'
  proof (cases "ys = []")
    case True then show ?thesis using n0 that by simp
  next
    case False
    then show ?thesis using seg_set_prev [OF sy1 dy False, of "the (E1 n)" p] n0 ne that
      by (auto simp: E2_def)
  qed
  have nny: "ys \<noteq> [] \<Longrightarrow> n \<in> fst ` set ys" using sy by (cases ys) auto
  have nx: "ys \<noteq> [] \<Longrightarrow> n \<notin> fst ` set xs" using nny xy by auto
  let ?hd = "if xs = [] then n else hd" and ?tl = "if ys = [] then p else tl"
  have s3: "seg E2 0 ?hd xs p n" using s1 [OF refl] nx n0 by (auto simp: E2_def)
  have "seg E2 0 ?hd (xs @ ys) ?tl 0" unfolding seg_append using s3 s2 [OF refl] by blast
  moreover have "a \<notin> fst ` set (xs @ ys)" using ax ay by auto
  ultimately have s4: "seg (E2(a := None)) 0 ?hd (xs @ ys) ?tl 0" by (metis seg_upd)
  define h' where "h' = h\<lparr>lists := (lists h)(l \<mapsto> \<lparr>l_head = ?hd, l_tail = ?tl\<rparr>), elems := E2(a := None)\<rparr>"
  have u1: "(if p \<noteq> 0 then set_next H p n else Some H) = Some (H\<lparr>elems := E1\<rparr>)"
    if "elems H = elems h" for H
    using pe that by (cases "p = 0") (auto simp: E1_def set_next_def)
  have u2: "(if n \<noteq> 0 then set_prev H n p else Some H) = Some (H\<lparr>elems := E2\<rparr>)"
    if "elems H = E1" for H
    using ne that by (cases "n = 0") (auto simp: E2_def set_prev_def)
  have "unlink_element h l a = Some (v, h')"
    unfolding unlink_element_def Let_def E l(3) Option.bind.simps list_element.simps list_hdr.simps
    by (subst u1, simp, simp only: Option.bind.simps, subst u2, simp)
       (simp add: h'_def hda tla)
  moreover have "dll h' l (xs @ ys)"
    unfolding dll_def h'_def using s4 l ds b by auto
  ultimately show ?thesis by (simp add: h'_def)
qed

text \<open>Where an iterator stands: at the first element of the rest of the list.\<close>

definition at_rest :: "ptr \<Rightarrow> cells \<Rightarrow> iterator" where
  "at_rest l ys = \<lparr>it_elem = (case ys of [] \<Rightarrow> 0 | y # _ \<Rightarrow> fst y), it_parent = l\<rparr>"

lemma seg_rest_head: "seg E p n ys q 0 \<Longrightarrow> it_elem (at_rest l ys) = n"
  by (cases ys) (auto simp: at_rest_def)

lemma init_iterator_dll: "dll h l xs \<Longrightarrow> ltr_int_init_iterator h l = Some (at_rest l xs)"
  by (auto simp: dll_def ltr_int_init_iterator_def at_rest_def split: list.split)

lemma get_next_dll:
  assumes "dll h l (xs @ (a, v) # ys)"
  shows "ltr_int_get_next h (at_rest l ((a, v) # ys)) = Some (v, at_rest l ys)"
proof -
  from assms obtain p n tl where "l \<noteq> 0" "a \<noteq> 0"
    "elems h a = Some \<lparr>le_prev = p, le_next = n, le_payload = v\<rparr>" "seg (elems h) a n ys tl 0"
    unfolding dll_def by auto
  moreover from this(4) have "it_elem (at_rest l ys) = n" by (rule seg_rest_head)
  ultimately show ?thesis by (simp add: ltr_int_get_next_def assert_c_def at_rest_def)
qed

lemma get_next_end: "l \<noteq> 0 \<Longrightarrow> ltr_int_get_next h (at_rest l []) = Some (0, at_rest l [])"
  by (simp add: ltr_int_get_next_def assert_c_def at_rest_def)

lemma delete_current_dll:
  assumes d: "dll h l (xs @ (a, v) # ys)"
  shows "\<exists>h'. ltr_int_delete_current h l (at_rest l ys) = Some (v, h') \<and> dll h' l (xs @ ys) \<and>
    elems h' a = None \<and> freed h' = freed h"
proof -
  obtain hd tl where l: "l \<noteq> 0" "lists h l = Some \<lparr>l_head = hd, l_tail = tl\<rparr>"
    and s: "seg (elems h) 0 hd (xs @ (a, v) # ys) tl 0"
    and ds: "distinct (map fst (xs @ (a, v) # ys))"
    using d unfolding dll_def by auto
  from s obtain p n where sx: "seg (elems h) 0 hd xs p a" and a: "a \<noteq> 0"
    and E: "elems h a = Some \<lparr>le_prev = p, le_next = n, le_payload = v\<rparr>"
    and sy: "seg (elems h) a n ys tl 0" by auto
  have hd_in: "hd \<in> fst ` set (xs @ [(a, v)])" using sx by (cases xs) auto
  have cur: "(if it_elem (at_rest l ys) = 0 then Some tl
      else if it_elem (at_rest l ys) = hd then Some hd
      else do { e \<leftarrow> elems h (it_elem (at_rest l ys)); Some (le_prev e) }) = Some a"
  proof (cases ys)
    case Nil
    then show ?thesis using sy by (simp add: at_rest_def)
  next
    case (Cons y zs)
    then have "fst y \<notin> fst ` set (xs @ [(a, v)])" using ds by auto
    with hd_in have 1: "fst y \<noteq> hd" by metis
    obtain m where 2: "fst y \<noteq> 0"
      "elems h (fst y) = Some \<lparr>le_prev = a, le_next = m, le_payload = snd y\<rparr>"
      using sy unfolding Cons seg.simps by blast
    have "it_elem (at_rest l ys) = fst y" using Cons by (simp add: at_rest_def)
    with 1 2 show ?thesis by simp
  qed
  obtain h' where u: "unlink_element h l a = Some (v, h')" "dll h' l (xs @ ys)"
    "elems h' a = None" "freed h' = freed h"
    using unlink_dll [OF d] by blast
  have p: "it_parent (at_rest l ys) = l" by (simp add: at_rest_def)
  have as: "assert_c (l \<noteq> 0) = Some ()" "assert_c (l = l) = Some ()"
    using l(1) by (simp_all add: assert_c_def)
  have "ltr_int_delete_current h l (at_rest l ys) = Some (v, h')"
    unfolding ltr_int_delete_current_def p as Option.bind.simps l(2) dll_is_empty [OF d]
      list_hdr.simps
    unfolding cur using a u(1) by simp
  then show ?thesis using u by blast
qed

subsection \<open>Freeing\<close>

lemma free_elements_seg:
  assumes "seg (elems h) p (l_head hdr) xs q 0" and "lists h l = Some hdr"
    and "distinct (map fst xs)"
  shows "\<exists>h'. free_elements h l b = Some h' \<and> elems h' = (elems h) |` (- fst ` set xs) \<and>
      (lists h')(l := None) = (lists h)(l := None) \<and> brk h' = brk h \<and>
      freed h' = freed h @ (if b then map snd xs else [])"
  using assms
proof (induction xs arbitrary: h p hdr)
  case Nil
  then show ?case
    by (subst free_elements.simps) (auto simp: restrict_map_def)
next
  case (Cons x xs)
  then obtain n where n: "l_head hdr = fst x" "fst x \<noteq> 0"
    "elems h (fst x) = Some \<lparr>le_prev = p, le_next = n, le_payload = snd x\<rparr>"
    "seg (elems h) (fst x) n xs q 0"
    by auto
  let ?h = "h\<lparr>lists := (lists h)(l \<mapsto> hdr\<lparr>l_head := n\<rparr>),
    freed := freed h @ (if b then [snd x] else []), elems := (elems h)(fst x := None)\<rparr>"
  have "fst x \<notin> fst ` set xs" using Cons.prems(3) by auto
  then have "seg (elems ?h) (fst x) (l_head (hdr\<lparr>l_head := n\<rparr>)) xs q 0" using n by simp
  moreover have "lists ?h l = Some (hdr\<lparr>l_head := n\<rparr>)" by simp
  moreover have "distinct (map fst xs)" using Cons.prems(3) by simp
  ultimately obtain h' where IH: "free_elements ?h l b = Some h'"
    "elems h' = (elems ?h) |` (- fst ` set xs)" "(lists h')(l := None) = (lists ?h)(l := None)"
    "brk h' = brk ?h" "freed h' = freed ?h @ (if b then map snd xs else [])"
    using Cons.IH [of ?h "fst x" "hdr\<lparr>l_head := n\<rparr>"] by blast
  have "free_elements h l b = free_elements ?h l b"
    using n Cons.prems(2) by (subst free_elements.simps) (auto simp: Let_def)
  moreover have "((elems h)(fst x := None)) |` (- fst ` set xs) = (elems h) |` (- fst ` set (x # xs))"
    by (auto simp: restrict_map_def fun_eq_iff)
  ultimately show ?case using IH by (intro exI [of _ h']) simp
qed

lemma free_list_dll:
  assumes "dll h l xs"
  shows "ltr_int_free_list h l b = Some (h\<lparr>elems := (elems h) |` (- fst ` set xs),
    lists := (lists h)(l := None), freed := freed h @ (if b then map snd xs else [])\<rparr>)"
proof -
  obtain hdr tl where "lists h l = Some hdr" "seg (elems h) 0 (l_head hdr) xs tl 0"
    "distinct (map fst xs)"
    using assms unfolding dll_def by (metis list_hdr.select_convs(1))
  from free_elements_seg [OF this(2,1,3), of b] obtain h' where
    "free_elements h l b = Some h'" "elems h' = (elems h) |` (- fst ` set xs)"
    "(lists h')(l := None) = (lists h)(l := None)" "brk h' = brk h"
    "freed h' = freed h @ (if b then map snd xs else [])" by blast
  then show ?thesis by (simp add: ltr_int_free_list_def)
qed

subsection \<open>Conversion to an array\<close>

lemma fill_ids_append:
  "fill_ids (ys @ replicate (length ps + n) z) (length ys) ps =
     Some (length ys + length ps, ys @ ps @ replicate n z)"
proof (induction ps arbitrary: ys)
  case Nil
  then show ?case by simp
next
  case (Cons p ps)
  have "wr (ys @ replicate (length (p # ps) + n) z) (length ys) p =
      Some ((ys @ [p]) @ replicate (length ps + n) z)"
    by (simp add: wr_def list_update_append)
  with Cons [of "ys @ [p]"] show ?case by simp
qed

lemma list2string_list_dll:
  assumes d: "dll h l xs" and z: "0 \<notin> snd ` set xs"
  shows "\<exists>h'. ltr_int_list2string_list h l = Some (length xs, map snd xs @ [0], h') \<and>
    lists h' l = None \<and> freed h' = freed h"
proof -
  note w = walk_dll [OF d z, unfolded init_iterator_dll [OF d], simplified]
  have f: "fill_ids (replicate (Suc (length xs)) 0) 0 (map snd xs) =
      Some (length xs, map snd xs @ [0])"
    using fill_ids_append [of "[]" "map snd xs" 1 0] by simp
  have cnt: "(if \<not> xs = [] then do {
             i \<leftarrow> ltr_int_init_iterator h l;
             ps \<leftarrow> walk h i;
             Some (1 + length ps)
           } else Some 1) = Some (Suc (length xs))"
    by (simp add: init_iterator_dll [OF d] w)
  have wr: "wr (map snd xs @ [0]) (length xs) 0 = Some (map snd xs @ [0])"
    by (simp add: wr_def list_update_append)
  have "ltr_int_list2string_list h l = Some (length xs, map snd xs @ [0],
      h\<lparr>elems := (elems h) |` (- fst ` set xs), lists := (lists h)(l := None), freed := freed h\<rparr>)"
    unfolding ltr_int_list2string_list_def dll_is_empty [OF d] Option.bind.simps
    unfolding cnt
    unfolding Option.bind.simps init_iterator_dll [OF d] w Let_def f
    by (simp add: wr free_list_dll [OF d])
  then show ?thesis by simp
qed

lemma array_cleanup_from_append:
  "0 \<notin> set ps \<Longrightarrow> array_cleanup_from (ys @ ps @ [0]) (length ys) out = Some (out @ ps)"
proof (induction ps arbitrary: ys out)
  case Nil
  then show ?case by (subst array_cleanup_from.simps) (simp add: rd_def)
next
  case (Cons p ps)
  then show ?case using Cons.IH [of "ys @ [p]" "out @ [p]"]
    by (subst array_cleanup_from.simps) (simp add: rd_def nth_append)
qed

subsection \<open>The list as a sequence of payloads\<close>

text \<open>What the components that keep a \<open>plist\<close> rely on: appending, and enumerating in order.\<close>

locale payload_seq =
  fixes rep :: "'s \<Rightarrow> 'p list \<Rightarrow> bool"
    and ok :: "'p \<Rightarrow> bool"
    and put :: "'s \<Rightarrow> 'p \<Rightarrow> 's option"
    and enum :: "'s \<Rightarrow> 'p list option"
  assumes put_rep: "rep s ps \<Longrightarrow> ok p \<Longrightarrow> \<exists>s'. put s p = Some s' \<and> rep s' (ps @ [p])"
    and enum_rep: "rep s ps \<Longrightarrow> enum s = Some ps"
begin

lemma puts_rep:
  "rep s ps \<Longrightarrow> \<forall>q \<in> set qs. ok q \<Longrightarrow> \<exists>s'. foldM put s qs = Some s' \<and> rep s' (ps @ qs)"
proof (induction qs arbitrary: s ps)
  case Nil
  then show ?case by simp
next
  case (Cons q qs)
  then obtain s' where s': "put s q = Some s'" "rep s' (ps @ [q])" using put_rep by fastforce
  with Cons.IH [OF s'(2)] Cons.prems(2) show ?case by simp
qed

lemma puts_enum:
  assumes "rep s []" and "\<forall>q \<in> set qs. ok q"
  shows "\<exists>s'. foldM put s qs = Some s' \<and> enum s' = Some qs"
  using puts_rep [OF assms] enum_rep by fastforce

end

definition list_rep :: "lheap \<times> ptr \<Rightarrow> ptr list \<Rightarrow> bool" where
  "list_rep s ps \<longleftrightarrow> 0 \<notin> set ps \<and> (\<exists>xs. dll (fst s) (snd s) xs \<and> map snd xs = ps)"

definition list_put :: "lheap \<times> ptr \<Rightarrow> ptr \<Rightarrow> (lheap \<times> ptr) option" where
  "list_put s p = map_option (\<lambda>h. (h, snd s)) (ltr_int_add_element (fst s) (snd s) p)"

definition list_enum :: "lheap \<times> ptr \<Rightarrow> ptr list option" where
  "list_enum s = do { i \<leftarrow> ltr_int_init_iterator (fst s) (snd s); walk (fst s) i }"

interpretation clist: payload_seq list_rep "\<lambda>p. p \<noteq> 0" list_put list_enum
proof
  fix s ps p
  assume r: "list_rep s ps" and p: "p \<noteq> (0 :: ptr)"
  then obtain xs where xs: "dll (fst s) (snd s) xs" "map snd xs = ps" "0 \<notin> set ps"
    by (auto simp: list_rep_def)
  from dll_add [OF xs(1), of p] obtain h' where
    "ltr_int_add_element (fst s) (snd s) p = Some h'" "dll h' (snd s) (xs @ [(brk (fst s), p)])"
    by blast
  with xs p show "\<exists>s'. list_put s p = Some s' \<and> list_rep s' (ps @ [p])"
    by (auto simp: list_put_def list_rep_def intro!: exI [of _ "xs @ [(brk (fst s), p)]"])
next
  fix s ps
  assume "list_rep s ps"
  then obtain xs where xs: "dll (fst s) (snd s) xs" "map snd xs = ps" "0 \<notin> set ps"
    by (auto simp: list_rep_def)
  have "0 \<notin> snd ` set xs" using xs(2,3) by (metis list.set_map)
  from walk_dll [OF xs(1) this] xs(2) show "list_enum s = Some ps"
    by (simp add: list_enum_def)
qed

definition build_list :: "lheap \<Rightarrow> ptr list \<Rightarrow> (lheap \<times> ptr) option" where
  "build_list h ps = (case ltr_int_create_list h of (l, h) \<Rightarrow> foldM list_put (h, l) ps)"

lemma build_list_rep:
  assumes "0 < brk h" and "0 \<notin> set ps"
  shows "\<exists>s. build_list h ps = Some s \<and> list_rep s ps"
proof -
  have "list_rep (snd (ltr_int_create_list h), fst (ltr_int_create_list h)) []"
    using create_dll [OF assms(1)] by (simp add: list_rep_def)
  moreover have "\<forall>p \<in> set ps. p \<noteq> 0" using assms(2) by metis
  ultimately show ?thesis using clist.puts_rep [of _ "[]" ps]
    by (simp add: build_list_def case_prod_beta)
qed

lemma foldM_put_freed:
  "foldM list_put s ps = Some s' \<Longrightarrow> list_rep s qs \<Longrightarrow> 0 \<notin> set ps \<Longrightarrow> freed (fst s') = freed (fst s)"
proof (induction ps arbitrary: s qs)
  case Nil
  then show ?case by simp
next
  case (Cons p ps)
  obtain xs where xs: "dll (fst s) (snd s) xs" using Cons.prems(2) by (auto simp: list_rep_def)
  from dll_add [OF xs, of p] obtain h' where
    h: "ltr_int_add_element (fst s) (snd s) p = Some h'" "freed h' = freed (fst s)" by blast
  have p: "p \<noteq> 0" using Cons.prems(3) by auto
  obtain s1 where s1: "list_put s p = Some s1" "list_rep s1 (qs @ [p])"
    using clist.put_rep [OF Cons.prems(2) p] by blast
  then have "fst s1 = h'" using h by (auto simp: list_put_def)
  moreover have "foldM list_put s1 ps = Some s'" using Cons.prems(1) s1 by simp
  ultimately show ?case using Cons.IH [OF _ s1(2)] Cons.prems(3) h by simp
qed

lemma build_list_freed:
  assumes "0 < brk h" and "0 \<notin> set ps" and "build_list h ps = Some s"
  shows "freed (fst s) = freed h"
proof -
  have "list_rep (snd (ltr_int_create_list h), fst (ltr_int_create_list h)) []"
    using create_dll [OF assms(1)] by (simp add: list_rep_def)
  then show ?thesis using foldM_put_freed assms(2,3)
    by (fastforce simp: build_list_def ltr_int_create_list_def)
qed

text \<open>\<open>n\<close> calls of \<open>ltr_int_get_next\<close>; the last one's payload and the iterator after it.\<close>

fun advance :: "lheap \<Rightarrow> iterator \<Rightarrow> ptr \<Rightarrow> nat \<Rightarrow> (ptr \<times> iterator) option" where
  "advance h i p 0 = Some (p, i)"
| "advance h i p (Suc n) = do { (p, i) \<leftarrow> ltr_int_get_next h i; advance h i p n }"

lemma advance_dll:
  "dll h l (xs @ ys) \<Longrightarrow> n < length ys \<Longrightarrow>
    advance h (at_rest l ys) p (Suc n) = Some (snd (ys ! n), at_rest l (drop (Suc n) ys))"
proof (induction n arbitrary: xs ys p)
  case 0
  then obtain y zs where "ys = y # zs" by (cases ys) auto
  with 0 show ?case using get_next_dll [of h l xs "fst y" "snd y" zs] by simp
next
  case (Suc n)
  then obtain y zs where y: "ys = y # zs" by (cases ys) auto
  with Suc.prems have "dll h l ((xs @ [y]) @ zs)" "n < length zs" by auto
  from Suc.IH [OF this] y Suc.prems show ?case
    using get_next_dll [of h l xs "fst y" "snd y" zs] by simp
qed

text \<open>A list filled with \<open>ltr_int_add_element\<close> from an empty list is enumerated by
  \<open>ltr_int_get_next\<close> in the order of insertion and by \<open>ltr_int_get_prev\<close> in the reverse
  order, for every sequence of non-NULL payloads and from every store.\<close>

theorem list_insert_enumerate:
  assumes "0 < brk h" and "0 \<notin> set ps"
  shows "\<exists>h' l. build_list h ps = Some (h', l) \<and>
    do { i \<leftarrow> ltr_int_init_iterator h' l; walk h' i } = Some ps \<and>
    do { i \<leftarrow> ltr_int_init_rev_iterator h' l; walk_back h' i } = Some (rev ps)"
proof -
  obtain h' l where b: "build_list h ps = Some (h', l)" "list_rep (h', l) ps"
    using build_list_rep [OF assms] by auto
  then obtain xs where "dll h' l xs" "map snd xs = ps" by (auto simp: list_rep_def)
  then show ?thesis using b(1) assms(2) walk_dll [of h' l xs] walk_back_dll [of h' l xs]
    by (auto simp del: Option.bind_eq_Some_conv)
qed

theorem list_insert_enumerate_witness:
  "\<exists>h' l. build_list empty_heap [5, 7, 9] = Some (h', l) \<and>
    do { i \<leftarrow> ltr_int_init_iterator h' l; walk h' i } = Some [5, 7, 9] \<and>
    do { i \<leftarrow> ltr_int_init_rev_iterator h' l; walk_back h' i } = Some [9, 7, 5]"
  using list_insert_enumerate [of empty_heap "[5, 7, 9]"] by simp



text \<open>\<open>ltr_int_list2string_list\<close> turns a list of strings into a NULL-terminated array of the
  same strings in the same order and returns their number, freeing the list but not the
  strings; \<open>ltr_int_array_cleanup\<close> on the array then frees each string exactly once.\<close>

theorem list2string_list_roundtrip:
  assumes "0 < brk h" and "0 \<notin> set ps"
  shows "\<exists>h1 l h2 h3. build_list h ps = Some (h1, l) \<and>
    ltr_int_list2string_list h1 l = Some (length ps, ps @ [0], h2) \<and> lists h2 l = None \<and>
    freed h2 = freed h \<and> ltr_int_array_cleanup h2 (ps @ [0]) = Some h3 \<and>
    freed h3 = freed h @ ps"
proof -
  obtain h1 l where b: "build_list h ps = Some (h1, l)" "list_rep (h1, l) ps"
    using build_list_rep [OF assms] by auto
  then obtain xs where xs: "dll h1 l xs" "map snd xs = ps" by (auto simp: list_rep_def)
  have z: "0 \<notin> snd ` set xs" using assms(2) xs(2) by (metis list.set_map)
  obtain h2 where "ltr_int_list2string_list h1 l = Some (length ps, ps @ [0], h2)"
    "lists h2 l = None" "freed h2 = freed h"
    using list2string_list_dll [OF xs(1) z] build_list_freed [OF assms b(1)] xs(2) by auto
  moreover have "array_cleanup_from (ps @ [0]) 0 [] = Some ps"
    using array_cleanup_from_append [OF assms(2), of "[]" "[]"] by simp
  ultimately show ?thesis using b(1) by (simp add: ltr_int_array_cleanup_def)
qed

theorem list2string_list_roundtrip_witness:
  "\<exists>h1 l h2 h3. build_list empty_heap [5, 7] = Some (h1, l) \<and>
    ltr_int_list2string_list h1 l = Some (2, [5, 7, 0], h2) \<and> lists h2 l = None \<and>
    freed h2 = [] \<and> ltr_int_array_cleanup h2 [5, 7, 0] = Some h3 \<and> freed h3 = [5, 7]"
  using list2string_list_roundtrip [of empty_heap "[5, 7]"]
  by (simp add: numeral_2_eq_2)

end
