(* ===== verification/CalTypes.thy ===== *)
theory CalTypes
  imports CFloat
begin

text \<open>
  \<open>src/cal.h\<close>: the data the camera drivers exchange with the tracking side. A coordinate is a
  \<open>float\<close> (\<open>cflt\<close> in the format \<open>b32\<close>); the blob array is the list of its allocated slots, so
  that a write past its end has no result.
\<close>

datatype ltr_request_t = CONTINUE | RUN | PAUSE | SHUTDOWN

record blob_type =
  bl_x :: cflt
  bl_y :: cflt
  bl_score :: u32

record bloblist_type =
  num_blobs :: u32
  expected_blobs :: u32
  blobs :: "blob_type list"

record frame_type =
  fr_bloblist :: bloblist_type
  fr_width :: u32
  fr_height :: u32
  fr_counter :: u32
  fr_bitmap :: "bytes option"

datatype cal_device_category_type =
  tir4_camera | webcam | wiimote | webcam_ft | tir | tir_open | mac_webcam | mac_webcam_ft

record cal_device_type =
  dev_category :: cal_device_category_type
  device_id :: string

record camera_control_block =
  ccb_device :: cal_device_type
  pixel_width :: u32
  pixel_height :: u32
  diag :: bool
  enable_IR_illuminator_LEDS :: bool

text \<open>The debug switches of \<open>utils.h\<close>: unknown until the environment has been looked at.\<close>

datatype dbg_flag_type = DBG_CHECK | DBG_ON | DBG_OFF

text \<open>The tracking states of \<open>linuxtrack.h\<close> and their numbers; errors are negative.\<close>

datatype linuxtrack_state_type =
  LINUXTRACK_OK | INITIALIZING | RUNNING | PAUSED | STOPPED |
  err_NOT_INITIALIZED | err_SYMBOL_LOOKUP | err_NO_CONFIG | err_NOT_FOUND | err_PROCESSING_FRAME

fun state_num :: "linuxtrack_state_type \<Rightarrow> int" where
  "state_num LINUXTRACK_OK = 0"
| "state_num INITIALIZING = 1"
| "state_num RUNNING = 2"
| "state_num PAUSED = 3"
| "state_num STOPPED = 4"
| "state_num err_NOT_INITIALIZED = - 1"
| "state_num err_SYMBOL_LOOKUP = - 2"
| "state_num err_NO_CONFIG = - 3"
| "state_num err_NOT_FOUND = - 4"
| "state_num err_PROCESSING_FRAME = - 5"

text \<open>\<open>ltlib.h\<close>: the number of blobs a frame has room for, and the floats of each when they are sent.\<close>

definition MAX_BLOBS :: u32 where "MAX_BLOBS = 10"
definition BLOB_ELEMENTS :: nat where "BLOB_ELEMENTS = 3"

end
