(* ===== verification/ImageProcess.thy ===== *)
theory ImageProcess
  imports CalTypes
begin

text \<open>
  \<open>src/image_process.c\<close>: from the stripes (horizontal runs of bright pixels) of a frame to its
  blobs. The static variables are the record \<open>imgst\<close>: the heap of \<open>preblob_t\<close> records, the
  list of finished preblobs, and the stripes of the current and of the next line, each with
  the preblob it belongs to. A stripe that touches several preblobs of the line above merges
  them, and \<open>free\<close>s all but one.

  \<^item> \<open>cap\<close> is the number of \<open>range\<close> slots allocated for a line (\<open>None\<close>: not allocated); \<open>cur\<close> and
    \<open>nxt\<close> are the used slots, their lengths are the C \<open>limit\<close> fields. A slot whose memory was
    freed and allocated anew holds \<open>stale_range\<close>: it coincides with every stripe and its
    preblob is \<open>NULL\<close>, so that whatever looks at it has no result.
  \<^item> The \<open>int\<close> totals of a preblob are kept as \<open>int\<close>. \<open>add_stripe_to_preblob\<close> adds an unsigned
    number to them (which wraps), \<open>merge_preblobs\<close> adds two \<open>int\<close>s (which must not overflow).
  \<^item> Pixels are written through \<open>put_pixel\<close>, which has no result outside the bitmap.
  \<^item> The list of preblobs is the sequence of its payloads, as \<open>ListC\<close> justifies.
  \<^item> Log messages and the debug dump of the bitmap to a file are left out.
\<close>

type_synonym pptr = nat

record preblob =
  pb_sum_x :: cflt
  pb_sum_y :: cflt
  pb_sum :: int
  pb_points :: int
  pb_added :: bool
  pb_matched :: bool

record range =
  r_x1 :: u32
  r_x2 :: u32
  r_pb :: pptr

record stripe_t =
  vline :: u32
  hstart :: u32
  hstop :: u32
  st_sum_x :: u32
  st_sum :: u32
  st_points :: u32

record image_t =
  im_w :: int
  im_h :: int
  im_bitmap :: "bytes option"
  im_ratio :: cflt

record imgst =
  pheap :: "pptr \<rightharpoonup> preblob"
  pbrk :: pptr
  preblobs :: "pptr list option"
  cur :: "range list"
  nxt :: "range list"
  cap :: "nat option"
  current_vline :: u32
  img_dbg_flag :: dbg_flag_type

definition img_init :: imgst where
  "img_init = \<lparr>pheap = Map.empty, pbrk = 1, preblobs = None, cur = [], nxt = [], cap = None,
               current_vline = - 2, img_dbg_flag = DBG_CHECK\<rparr>"

definition stale_range :: range where
  "stale_range = \<lparr>r_x1 = 0, r_x2 = 0x7FFFFFFF, r_pb = 0\<rparr>"

subsection \<open>Drawing\<close>

definition clip_coord :: "int \<Rightarrow> int \<Rightarrow> int \<Rightarrow> int" where
  "clip_coord coord lo hi = (let tmp = (if coord < lo then lo else coord) in if tmp > hi then hi else tmp)"

definition put_pixel :: "bytes \<Rightarrow> int \<Rightarrow> u8 \<Rightarrow> bytes option" where
  "put_pixel bm i v = (if 0 \<le> i then wr bm (nat i) v else None)"

text \<open>\<open>n\<close> pixels written from position \<open>i\<close> on, \<open>step\<close> apart.\<close>

fun put_pixels :: "bytes \<Rightarrow> int \<Rightarrow> int \<Rightarrow> nat \<Rightarrow> u8 \<Rightarrow> bytes option" where
  "put_pixels bm i step 0 v = Some bm"
| "put_pixels bm i step (Suc n) v = do { bm \<leftarrow> put_pixel bm i v; put_pixels bm (i + step) step n v }"

text \<open>An \<open>int\<close> divided by the \<open>float\<close> ratio and converted back to \<open>int\<close>.\<close>

definition div_ratio :: "int \<Rightarrow> cflt \<Rightarrow> int option" where
  "div_ratio x ratio = flt_to_int (fdiv b32 (flt_of_int b32 x) ratio)"

text \<open>The pointer is incremented before each write, so the pixels written are one to the right
  of the stripe.\<close>

definition draw_stripe :: "image_t \<Rightarrow> int \<Rightarrow> int \<Rightarrow> int \<Rightarrow> u8 \<Rightarrow> image_t option" where
  "draw_stripe img x y x_end color = do {
     x \<leftarrow> div_ratio x (im_ratio img);
     x_end \<leftarrow> div_ratio x_end (im_ratio img);
     let x = clip_coord x 0 (im_w img - 1);
     let y = clip_coord y 0 (im_h img - 1);
     let x_end = clip_coord x_end 0 (im_w img - 1);
     bm \<leftarrow> im_bitmap img;
     bm \<leftarrow> put_pixels bm (y * im_w img + x + 1) 1 (nat (x_end - x + 1)) color;
     Some (img\<lparr>im_bitmap := Some bm\<rparr>)
   }"

fun draw_rows :: "image_t \<Rightarrow> int \<Rightarrow> int \<Rightarrow> int \<Rightarrow> nat \<Rightarrow> image_t option" where
  "draw_rows img x1 x2 y 0 = Some img"
| "draw_rows img x1 x2 y (Suc n) = do { img \<leftarrow> draw_stripe img x1 y x2 0xFF; draw_rows img x1 x2 (y + 1) n }"

definition ltr_int_draw_square :: "image_t \<Rightarrow> int \<Rightarrow> int \<Rightarrow> int \<Rightarrow> image_t option" where
  "ltr_int_draw_square img x y sz = (if x < 0 \<or> y < 0 then None else do {
     xr \<leftarrow> div_ratio x (im_ratio img);
     let x1 = clip_coord (xr - sz) 0 (im_w img - 1);
     let y1 = clip_coord (y - sz) 0 (im_h img - 1);
     let x2 = clip_coord (xr + sz) 0 (im_w img - 1);
     let y2 = clip_coord (y + sz) 0 (im_h img - 1);
     draw_rows img x1 x2 y1 (nat (y2 - y1))
   })"

text \<open>The two vertical sides of the empty square.\<close>

fun draw_sides :: "image_t \<Rightarrow> int \<Rightarrow> int \<Rightarrow> nat \<Rightarrow> image_t option" where
  "draw_sides img p xd 0 = Some img"
| "draw_sides img p xd (Suc n) = do {
     bm \<leftarrow> im_bitmap img;
     bm \<leftarrow> put_pixel bm p 0xFF;
     bm \<leftarrow> put_pixel bm (p + xd) 0xFF;
     draw_sides (img\<lparr>im_bitmap := Some bm\<rparr>) (p + im_w img) xd n
   }"

definition ltr_int_draw_empty_square :: "image_t \<Rightarrow> int \<Rightarrow> int \<Rightarrow> int \<Rightarrow> int \<Rightarrow> image_t option" where
  "ltr_int_draw_empty_square img x1 y1 x2 y2 =
     (if x1 < 0 \<or> y1 < 0 \<or> x2 < x1 \<or> y2 < y1 then None else do {
     x1 \<leftarrow> div_ratio x1 (im_ratio img);
     x2 \<leftarrow> div_ratio x2 (im_ratio img);
     let x1 = clip_coord x1 0 (im_w img - 1);
     let y1 = clip_coord y1 0 (im_h img - 1);
     let x2 = clip_coord x2 0 (im_w img - 1);
     let y2 = clip_coord y2 0 (im_h img - 1);
     img \<leftarrow> draw_stripe img x1 y1 x2 0xFF;
     img \<leftarrow> draw_stripe img x1 y2 x2 0xFF;
     draw_sides img (y1 * im_w img + x1) (x2 - x1) (nat (y2 - y1 + 1))
   })"

definition ltr_int_draw_cross :: "image_t \<Rightarrow> int \<Rightarrow> int \<Rightarrow> int \<Rightarrow> image_t option" where
  "ltr_int_draw_cross img x y sz = do {
     let w = im_w img;
     let x_m = clip_coord (x - sz) 0 (w - 1);
     let x_p = clip_coord (x + sz) 0 (w - 1);
     let y_m = clip_coord (y - sz) 0 (im_h img - 1);
     let y_p = clip_coord (y + sz) 0 (im_h img - 1);
     let x = clip_coord x 0 (w - 1);
     let y = clip_coord y 0 (im_h img - 1);
     if x_m \<le> x_p \<or> y_m \<le> y_p then do {
       bm \<leftarrow> im_bitmap img;
       bm \<leftarrow> put_pixels bm (w * y + x_m) 1 (nat (x_p - x_m + 1)) 0xFF;
       bm \<leftarrow> put_pixels bm (w * y_m + x) w (nat (y_p - y_m + 1)) 0xFF;
       Some (img\<lparr>im_bitmap := Some bm\<rparr>)
     } else Some img
   }"

subsection \<open>Stripes to preblobs\<close>

definition stripe_in_range :: "stripe_t \<Rightarrow> range \<Rightarrow> bool" where
  "stripe_in_range s r =
     (int_of_u32 (hstart s) - 1 \<le> int_of_u32 (r_x2 r) \<and> hstop s + 1 \<ge> r_x1 r)"

definition int_add :: "int \<Rightarrow> int \<Rightarrow> int option" where
  "int_add a b = (if - (2 ^ 31) \<le> a + b \<and> a + b < 2 ^ 31 then Some (a + b) else None)"

definition merge_preblobs :: "imgst \<Rightarrow> pptr \<Rightarrow> pptr \<Rightarrow> imgst option" where
  "merge_preblobs s p1 p2 = do {
     b1 \<leftarrow> pheap s p1;
     b2 \<leftarrow> pheap s p2;
     sm \<leftarrow> int_add (pb_sum b1) (pb_sum b2);
     pts \<leftarrow> int_add (pb_points b1) (pb_points b2);
     Some (s\<lparr>pheap := (pheap s)(p1 \<mapsto> b1\<lparr>
       pb_sum_x := fadd b32 (pb_sum_x b1) (pb_sum_x b2),
       pb_sum_y := fadd b32 (pb_sum_y b1) (pb_sum_y b2),
       pb_sum := sm, pb_points := pts\<rparr>)\<rparr>)
   }"

definition stripe_x :: "stripe_t \<Rightarrow> cflt" where
  "stripe_x t = fadd b32 (fmul b32 (flt_of_int b32 (uint (st_sum t))) (flt_of_int b32 (uint (hstart t))))
                         (flt_of_int b32 (uint (st_sum_x t)))"

definition stripe_y :: "stripe_t \<Rightarrow> cflt" where
  "stripe_y t = fmul b32 (flt_of_int b32 (uint (st_sum t))) (flt_of_int b32 (uint (vline t)))"

definition add_stripe_to_preblob :: "imgst \<Rightarrow> pptr \<Rightarrow> stripe_t \<Rightarrow> imgst option" where
  "add_stripe_to_preblob s p t = do {
     b \<leftarrow> pheap s p;
     Some (s\<lparr>pheap := (pheap s)(p \<mapsto> b\<lparr>
       pb_sum_x := fadd b32 (pb_sum_x b) (stripe_x t),
       pb_sum_y := fadd b32 (pb_sum_y b) (stripe_y t),
       pb_sum := int_of_u32 (u32_of_int (pb_sum b) + st_sum t),
       pb_points := int_of_u32 (u32_of_int (pb_points b) + st_points t)\<rparr>)\<rparr>)
   }"

definition preblob_from_stripe :: "imgst \<Rightarrow> stripe_t \<Rightarrow> pptr \<times> imgst" where
  "preblob_from_stripe s t =
     (pbrk s, s\<lparr>pheap := (pheap s)(pbrk s \<mapsto>
        \<lparr>pb_sum_x = stripe_x t, pb_sum_y = stripe_y t,
         pb_sum = int_of_u32 (st_sum t), pb_points = int_of_u32 (st_points t),
         pb_added = False, pb_matched = True\<rparr>), pbrk := pbrk s + 1\<rparr>)"

text \<open>Appending a preblob to the list of finished ones, and the two loops of \<open>store_preblobs\<close>.\<close>

definition add_preblob :: "imgst \<Rightarrow> pptr \<Rightarrow> preblob \<Rightarrow> imgst" where
  "add_preblob s p b = s\<lparr>pheap := (pheap s)(p \<mapsto> b\<lparr>pb_added := True\<rparr>),
                         preblobs := map_option (\<lambda>l. l @ [p]) (preblobs s)\<rparr>"

definition store_current :: "imgst \<Rightarrow> range \<Rightarrow> imgst option" where
  "store_current s r = do {
     b \<leftarrow> pheap s (r_pb r);
     Some (if \<not> pb_matched b \<and> \<not> pb_added b then add_preblob s (r_pb r) b else s)
   }"

definition store_next :: "bool \<Rightarrow> imgst \<Rightarrow> range \<Rightarrow> imgst option" where
  "store_next all s r = do {
     b \<leftarrow> pheap s (r_pb r);
     let b = b\<lparr>pb_matched := False\<rparr>;
     let s = s\<lparr>pheap := (pheap s)(r_pb r \<mapsto> b)\<rparr>;
     Some (if all \<and> \<not> pb_added b then add_preblob s (r_pb r) b else s)
   }"

definition store_preblobs :: "imgst \<Rightarrow> bool \<Rightarrow> imgst option" where
  "store_preblobs s all = do {
     let s = (if preblobs s = None then s\<lparr>preblobs := Some []\<rparr> else s);
     s \<leftarrow> foldM store_current s (cur s);
     foldM (store_next all) s (nxt s)
   }"

text \<open>One round of the matching loop: \<open>rng\<close> is the index of the first range found, \<open>i\<close> the range
  looked at.\<close>

definition redirect :: "pptr \<Rightarrow> pptr \<Rightarrow> range list \<Rightarrow> range list" where
  "redirect merged p rs = map (\<lambda>r. if r_pb r = merged then r\<lparr>r_pb := p\<rparr> else r) rs"

definition match_range :: "stripe_t \<Rightarrow> nat option \<times> imgst \<Rightarrow> nat \<Rightarrow> (nat option \<times> imgst) option" where
  "match_range t rs i = (case rs of (rng, s) \<Rightarrow> do {
     r \<leftarrow> rd (cur s) i;
     if stripe_in_range t r then do {
       b \<leftarrow> pheap s (r_pb r);
       let s = s\<lparr>pheap := (pheap s)(r_pb r \<mapsto> b\<lparr>pb_matched := True\<rparr>)\<rparr>;
       (case rng of
          None \<Rightarrow> Some (Some i, s)
        | Some k \<Rightarrow> do {
            rk \<leftarrow> rd (cur s) k;
            if r_pb rk \<noteq> r_pb r then do {
              s \<leftarrow> merge_preblobs s (r_pb rk) (r_pb r);
              let merged = r_pb r;
              let s = s\<lparr>cur := redirect merged (r_pb rk) (cur s),
                        nxt := redirect merged (r_pb rk) (nxt s)\<rparr>;
              Some (Some k, s\<lparr>pheap := (pheap s)(merged := None)\<rparr>)
            } else Some (Some k, s)
          })
     } else Some (rng, s)
   })"

text \<open>The change of line at the head of \<open>ltr_int_add_stripe\<close>.\<close>

definition change_line :: "imgst \<Rightarrow> u32 \<Rightarrow> imgst option" where
  "change_line s v =
     (if current_vline s \<noteq> v then do {
        s \<leftarrow> (if current_vline s + 1 \<noteq> v then do {
                s \<leftarrow> store_preblobs s True;
                Some (s\<lparr>cur := [], nxt := []\<rparr>)
              } else do {
                s \<leftarrow> store_preblobs s False;
                Some (s\<lparr>cur := nxt s, nxt := []\<rparr>)
              });
        Some (s\<lparr>current_vline := v\<rparr>)
      } else Some s)"

text \<open>The rest of it: match the stripe, make or extend its preblob, append its range.\<close>

definition place_stripe :: "imgst \<Rightarrow> stripe_t \<Rightarrow> imgst option" where
  "place_stripe s t = do {
     (rng, s) \<leftarrow> foldM (match_range t) (None, s) [0..<length (cur s)];
     (pb, s) \<leftarrow> (case rng of
         None \<Rightarrow> Some (preblob_from_stripe s t)
       | Some k \<Rightarrow> do {
           rk \<leftarrow> rd (cur s) k;
           s \<leftarrow> add_stripe_to_preblob s (r_pb rk) t;
           Some (r_pb rk, s)
         });
     n \<leftarrow> cap s;
     if length (nxt s) < n
     then Some (s\<lparr>nxt := nxt s @ [\<lparr>r_x1 = hstart t, r_x2 = hstop t, r_pb = pb\<rparr>]\<rparr>)
     else None
   }"

definition ltr_int_add_stripe :: "imgst \<Rightarrow> stripe_t \<Rightarrow> image_t \<Rightarrow> (imgst \<times> image_t) option" where
  "ltr_int_add_stripe s t img = do {
     _ \<leftarrow> cap s;
     img \<leftarrow> (if im_bitmap img \<noteq> None
       then draw_stripe img (int_of_u32 (hstart t)) (int_of_u32 (vline t)) (int_of_u32 (hstop t)) 0x80
       else Some img);
     s \<leftarrow> change_line s (vline t);
     s \<leftarrow> place_stripe s t;
     Some (s, img)
   }"

subsection \<open>Buffers, scanning a bitmap, and the blobs\<close>

definition ltr_int_prepare_for_processing :: "imgst \<Rightarrow> int \<Rightarrow> int \<Rightarrow> dbg_flag_type \<Rightarrow> imgst" where
  "ltr_int_prepare_for_processing s w h dbg =
     (let s = (if cap s = None
               then s\<lparr>cap := Some (nat (trunc_div w 2 + 1)),
                      cur := replicate (length (cur s)) stale_range,
                      nxt := replicate (length (nxt s)) stale_range\<rparr>
               else s)
      in if img_dbg_flag s = DBG_CHECK then s\<lparr>img_dbg_flag := dbg\<rparr> else s)"

definition ltr_int_cleanup_after_processing :: "imgst \<Rightarrow> imgst" where
  "ltr_int_cleanup_after_processing s =
     (if cap s \<noteq> None
      then s\<lparr>cap := None, cur := replicate (length (cur s)) stale_range,
             nxt := replicate (length (nxt s)) stale_range\<rparr>
      else s)"

text \<open>The state of the scan: whether a stripe is open, the stripe, the image, and the static
  variables. \<open>scan_pixel\<close> is the body of the inner loop at \<open>(x, y)\<close>, \<open>scan_eol\<close> the end of a line.\<close>

record scan =
  in_stripe :: bool
  sc_stripe :: stripe_t
  sc_img :: image_t
  sc_st :: imgst

definition scan_close :: "scan \<Rightarrow> scan option" where
  "scan_close c =
     (if in_stripe c then do {
        let t = sc_stripe c;
        let t = t\<lparr>st_points := st_points t + 1\<rparr>;
        (s, img) \<leftarrow> ltr_int_add_stripe (sc_st c) t (sc_img c);
        Some (c\<lparr>in_stripe := False, sc_stripe := t, sc_img := img, sc_st := s\<rparr>)
      } else Some c)"

definition scan_pixel :: "int \<Rightarrow> scan \<Rightarrow> int \<Rightarrow> scan option" where
  "scan_pixel y c x = do {
     bm \<leftarrow> im_bitmap (sc_img c);
     v \<leftarrow> rd bm (nat (y * im_w (sc_img c) + x));
     if v \<noteq> 0 then
       (let t = sc_stripe c in
        if in_stripe c then
          Some (c\<lparr>sc_stripe := t\<lparr>st_points := st_points t + 1, hstop := u32_of_int x,
                   st_sum := st_sum t + u32_of_u8 v,
                   st_sum_x := st_sum_x t + u32_of_u8 v * (st_points t + 1)\<rparr>\<rparr>)
        else
          Some (c\<lparr>in_stripe := True,
                  sc_stripe := \<lparr>vline = u32_of_int y, hstart = u32_of_int x, hstop = u32_of_int x,
                                st_sum_x = 0, st_sum = u32_of_u8 v, st_points = 0\<rparr>\<rparr>))
     else scan_close c
   }"

definition scan_line :: "scan \<Rightarrow> int \<Rightarrow> scan option" where
  "scan_line c y = do {
     c \<leftarrow> foldM (scan_pixel y) c [0..im_w (sc_img c) - 1];
     scan_close c
   }"

definition ltr_int_to_stripes :: "imgst \<Rightarrow> image_t \<Rightarrow> stripe_t \<Rightarrow> (imgst \<times> image_t) option" where
  "ltr_int_to_stripes s img junk = do {
     c \<leftarrow> foldM scan_line \<lparr>in_stripe = False, sc_stripe = junk, sc_img = img, sc_st = s\<rparr> [0..im_h img - 1];
     Some (sc_st c, sc_img c)
   }"

text \<open>The loop over the finished preblobs in \<open>ltr_int_stripes_to_blobs\<close>.\<close>

record blobrun =
  bo_blt :: bloblist_type
  bo_img :: image_t
  bo_counter :: u32
  bo_valid :: u32

definition half_minus :: "int \<Rightarrow> cflt \<Rightarrow> cflt" where
  "half_minus n v = fcvt b32 (fsub b64 (fdiv b64 (flt_of_int b64 (n - 1)) (Fin 2)) v)"

definition emit_blob :: "u32 \<Rightarrow> preblob \<Rightarrow> blobrun \<Rightarrow> blobrun option" where
  "emit_blob num b o' = do {
     let img = bo_img o';
     let x = fdiv b32 (pb_sum_x b) (flt_of_int b32 (pb_sum b));
     let y = fdiv b32 (pb_sum_y b) (flt_of_int b32 (pb_sum b));
     let xr = fdiv b32 x (im_ratio img);
     img' \<leftarrow> (if im_bitmap img \<noteq> None then do {
         cx \<leftarrow> flt_to_int xr;
         cy \<leftarrow> flt_to_int y;
         sz \<leftarrow> flt_to_int (fdiv b64 (flt_of_int b64 (im_w img))
                   (if bo_counter o' < expected_blobs (bo_blt o') then Fin 50 else Fin 100));
         ltr_int_draw_cross img cx cy sz
       } else Some img);
     bs \<leftarrow> wr (blobs (bo_blt o')) (unat (bo_counter o'))
            \<lparr>bl_x = half_minus (im_w img) xr, bl_y = half_minus (im_h img) y,
             bl_score = u32_of_int (pb_points b)\<rparr>;
     Some (o'\<lparr>bo_blt := (bo_blt o')\<lparr>blobs := bs\<rparr>, bo_img := img'\<rparr>)
   }"

definition blob_step :: "(pptr \<rightharpoonup> preblob) \<Rightarrow> u32 \<Rightarrow> int \<Rightarrow> int \<Rightarrow> blobrun \<Rightarrow> pptr \<Rightarrow> blobrun option" where
  "blob_step H num min_pts max_pts o' p = do {
     b \<leftarrow> H p;
     if pb_points b < min_pts \<or> pb_points b > max_pts then Some o'
     else do {
       let o' = o'\<lparr>bo_valid := bo_valid o' + 1\<rparr>;
       o' \<leftarrow> (if bo_counter o' < num then emit_blob num b o' else Some o');
       Some (o'\<lparr>bo_counter := bo_counter o' + 1\<rparr>)
     }
   }"

text \<open>\<open>ltr_int_free_list\<close> with payloads: each payload must be allocated when it is freed.\<close>

definition free_preblob :: "(pptr \<rightharpoonup> preblob) \<Rightarrow> pptr \<Rightarrow> (pptr \<rightharpoonup> preblob) option" where
  "free_preblob H p = do { _ \<leftarrow> H p; Some (H(p := None)) }"

definition ltr_int_stripes_to_blobs ::
  "imgst \<Rightarrow> u32 \<Rightarrow> bloblist_type \<Rightarrow> int \<Rightarrow> int \<Rightarrow> image_t \<Rightarrow>
   (int \<times> imgst \<times> bloblist_type \<times> image_t) option" where
  "ltr_int_stripes_to_blobs s num blt min_pts max_pts img = do {
     s \<leftarrow> store_preblobs s True;
     let s = s\<lparr>cur := [], nxt := [], current_vline := - 2\<rparr>;
     (case preblobs s of
        None \<Rightarrow> Some (- 1, s, blt, img)
      | Some ps \<Rightarrow> do {
          o' \<leftarrow> foldM (blob_step (pheap s) num min_pts max_pts)
                 \<lparr>bo_blt = blt, bo_img = img, bo_counter = 0, bo_valid = 0\<rparr> ps;
          H \<leftarrow> foldM free_preblob (pheap s) ps;
          let n = (if bo_valid o' > num then num else bo_valid o');
          Some (0, s\<lparr>pheap := H, preblobs := None\<rparr>, (bo_blt o')\<lparr>num_blobs := n\<rparr>, bo_img o')
        })
   }"

subsection \<open>Totals over the preblob heap\<close>

definition tot :: "(preblob \<Rightarrow> int) \<Rightarrow> (pptr \<rightharpoonup> preblob) \<Rightarrow> int" where
  "tot f H = (\<Sum>p \<in> dom H. f (the (H p)))"

lemma tot_split:
  assumes "finite (dom H)" and "H p = Some b"
  shows "tot f H = f b + (\<Sum>q \<in> dom H - {p}. f (the (H q)))"
  using assms sum.remove [of "dom H" p "\<lambda>q. f (the (H q))"] by (simp add: tot_def domI)

lemma tot_upd:
  assumes "finite (dom H)" and "H p = Some b"
  shows "tot f (H(p \<mapsto> b')) = tot f H - f b + f b'"
proof -
  have "dom (H(p \<mapsto> b')) = dom H" using assms(2) by auto
  moreover have "(\<Sum>q \<in> dom H - {p}. f (the ((H(p \<mapsto> b')) q))) = (\<Sum>q \<in> dom H - {p}. f (the (H q)))"
    by (rule sum.cong) auto
  ultimately show ?thesis
    using tot_split [OF assms, of f] tot_split [of "H(p \<mapsto> b')" p b' f] assms(1) by simp
qed

lemma tot_new:
  assumes "finite (dom H)" and "H p = None"
  shows "tot f (H(p \<mapsto> b)) = tot f H + f b"
proof -
  have "(\<Sum>q \<in> dom H. f (the ((H(p \<mapsto> b)) q))) = tot f H"
    unfolding tot_def using assms(2) by (intro sum.cong) auto
  then show ?thesis using assms by (simp add: tot_def domIff)
qed

lemma tot_del:
  assumes "finite (dom H)" and "H p = Some b"
  shows "tot f (H(p := None)) = tot f H - f b"
proof -
  have "tot f (H(p := None)) = (\<Sum>q \<in> dom H - {p}. f (the (H q)))"
    unfolding tot_def by (intro sum.cong) auto
  then show ?thesis using tot_split [OF assms, of f] by simp
qed

lemma tot_ge_two:
  assumes "finite (dom H)" and "H p = Some b" and "H q = Some c" and "p \<noteq> q"
    and "\<And>r d. H r = Some d \<Longrightarrow> 0 \<le> f d"
  shows "f b + f c \<le> tot f H"
proof -
  have "f b + f c = (\<Sum>r \<in> {p, q}. f (the (H r)))" using assms by simp
  also have "\<dots> \<le> tot f H" unfolding tot_def using assms by (intro sum_mono2) auto
  finally show ?thesis .
qed

lemma tot_ge_one:
  assumes "finite (dom H)" and "H p = Some b" and "\<And>r d. H r = Some d \<Longrightarrow> 0 \<le> f d"
  shows "f b \<le> tot f H"
proof -
  have "f b = (\<Sum>r \<in> {p}. f (the (H r)))" using assms by simp
  also have "\<dots> \<le> tot f H" unfolding tot_def using assms by (intro sum_mono2) auto
  finally show ?thesis .
qed

text \<open>What a preblob weighs; the flags do not count.\<close>

definition mass :: "(pptr \<rightharpoonup> preblob) \<Rightarrow> pptr \<rightharpoonup> int \<times> int" where
  "mass H p = map_option (\<lambda>b. (pb_sum b, pb_points b)) (H p)"

lemma dom_mass: "dom (mass H) = dom H"
  by (auto simp: mass_def)

lemma tot_mass: "mass H = mass H' \<Longrightarrow> tot pb_sum H = tot pb_sum H' \<and> tot pb_points H = tot pb_points H'"
proof -
  assume m: "mass H = mass H'"
  then have d: "dom H = dom H'" using dom_mass by metis
  have "pb_sum (the (H p)) = pb_sum (the (H' p)) \<and> pb_points (the (H p)) = pb_points (the (H' p))"
    if "p \<in> dom H" for p
  proof -
    from that d obtain b b' where "H p = Some b" "H' p = Some b'" by blast
    with fun_cong [OF m, of p] show ?thesis by (simp add: mass_def)
  qed
  then show ?thesis unfolding tot_def d [symmetric] by (simp cong: sum.cong)
qed

subsection \<open>The invariant\<close>

definition done_list :: "imgst \<Rightarrow> pptr list" where
  "done_list s = (case preblobs s of None \<Rightarrow> [] | Some l \<Rightarrow> l)"

definition pbs :: "range list \<Rightarrow> pptr set" where
  "pbs rs = r_pb ` set rs"

definition matched_at :: "(pptr \<rightharpoonup> preblob) \<Rightarrow> pptr \<Rightarrow> bool" where
  "matched_at H p \<longleftrightarrow> (\<exists>b. H p = Some b \<and> pb_matched b)"

definition heap_ok :: "imgst \<Rightarrow> bool" where
  "heap_ok s \<longleftrightarrow> finite (dom (pheap s)) \<and> (\<forall>p \<in> dom (pheap s). p < pbrk s) \<and>
     distinct (done_list s) \<and> set (done_list s) \<subseteq> dom (pheap s) \<and>
     (\<forall>p b. pheap s p = Some b \<longrightarrow> pb_added b = (p \<in> set (done_list s)) \<and> 0 \<le> pb_sum b \<and> 0 \<le> pb_points b)"

text \<open>Between two stripes: every live preblob is finished or belongs to a range, no finished one
  belongs to a range, and the preblobs of the current line that have been matched are those
  that continue on the next line.\<close>

definition line_ok :: "imgst \<Rightarrow> bool" where
  "line_ok s \<longleftrightarrow> dom (pheap s) = set (done_list s) \<union> pbs (cur s) \<union> pbs (nxt s) \<and>
     set (done_list s) \<inter> (pbs (cur s) \<union> pbs (nxt s)) = {} \<and>
     (\<forall>p \<in> pbs (nxt s). matched_at (pheap s) p) \<and>
     (\<forall>p \<in> pbs (cur s). matched_at (pheap s) p \<longrightarrow> p \<in> pbs (nxt s))"

definition img_inv :: "imgst \<Rightarrow> int \<Rightarrow> int \<Rightarrow> bool" where
  "img_inv s S P \<longleftrightarrow> heap_ok s \<and> line_ok s \<and> tot pb_sum (pheap s) = S \<and> tot pb_points (pheap s) = P"

lemma pbs_simps [simp]: "pbs [] = {}" "pbs (r # rs) = insert (r_pb r) (pbs rs)" "pbs (rs @ qs) = pbs rs \<union> pbs qs"
  by (auto simp: pbs_def)

lemma img_init_inv: "img_inv img_init 0 0"
  by (simp add: img_inv_def heap_ok_def line_ok_def img_init_def done_list_def tot_def)

definition same_frame :: "imgst \<Rightarrow> imgst \<Rightarrow> bool" where
  "same_frame s s' \<longleftrightarrow> pbrk s' = pbrk s \<and> cur s' = cur s \<and> nxt s' = nxt s \<and> cap s' = cap s \<and>
     current_vline s' = current_vline s \<and> img_dbg_flag s' = img_dbg_flag s \<and>
     (preblobs s \<noteq> None \<longrightarrow> preblobs s' \<noteq> None)"

lemma same_frame_refl [simp]: "same_frame s s" by (simp add: same_frame_def)

lemma same_frame_trans: "same_frame a b \<Longrightarrow> same_frame b c \<Longrightarrow> same_frame a c"
  by (simp add: same_frame_def)

lemma add_preblob_ok:
  assumes ok: "heap_ok s" and b: "pheap s p = Some b" and na: "\<not> pb_added b" and pl: "preblobs s \<noteq> None"
  shows "heap_ok (add_preblob s p b)" and "mass (pheap (add_preblob s p b)) = mass (pheap s)"
    and "matched_at (pheap (add_preblob s p b)) = matched_at (pheap s)"
    and "set (done_list (add_preblob s p b)) = insert p (set (done_list s))"
    and "same_frame s (add_preblob s p b)"
proof -
  obtain l where l: "preblobs s = Some l" using pl by blast
  have dl: "done_list s = l" "done_list (add_preblob s p b) = l @ [p]"
    by (simp_all add: done_list_def l add_preblob_def)
  have np: "p \<notin> set l" using ok b na dl by (auto simp: heap_ok_def)
  have h: "pheap (add_preblob s p b) = (pheap s)(p \<mapsto> b\<lparr>pb_added := True\<rparr>)" and
    brk: "pbrk (add_preblob s p b) = pbrk s"
    by (simp_all add: add_preblob_def)
  have dm: "dom (pheap (add_preblob s p b)) = dom (pheap s)" using b by (auto simp: h)
  show "heap_ok (add_preblob s p b)"
    using ok b np unfolding heap_ok_def dm dl brk by (auto simp: h)
  show "mass (pheap (add_preblob s p b)) = mass (pheap s)"
    using b by (auto simp: h mass_def fun_eq_iff)
  show "matched_at (pheap (add_preblob s p b)) = matched_at (pheap s)"
    using b by (auto simp: h matched_at_def fun_eq_iff)
  show "set (done_list (add_preblob s p b)) = insert p (set (done_list s))" by (simp add: dl)
  show "same_frame s (add_preblob s p b)" by (simp add: same_frame_def add_preblob_def l)
qed

lemma store_current_ok:
  assumes ok: "heap_ok s" and r: "r_pb r \<in> dom (pheap s)" and pl: "preblobs s \<noteq> None"
  shows "\<exists>s'. store_current s r = Some s' \<and> heap_ok s' \<and> mass (pheap s') = mass (pheap s) \<and>
    matched_at (pheap s') = matched_at (pheap s) \<and> same_frame s s' \<and>
    set (done_list s') = set (done_list s) \<union> (if matched_at (pheap s) (r_pb r) then {} else {r_pb r})"
proof -
  obtain b where b: "pheap s (r_pb r) = Some b" using r by blast
  have m: "matched_at (pheap s) (r_pb r) = pb_matched b" by (simp add: matched_at_def b)
  show ?thesis
  proof (cases "\<not> pb_matched b \<and> \<not> pb_added b")
    case True
    with add_preblob_ok [OF ok b _ pl] b m show ?thesis by (simp add: store_current_def)
  next
    case False
    then have "\<not> pb_matched b \<Longrightarrow> r_pb r \<in> set (done_list s)" using ok b by (auto simp: heap_ok_def)
    with False ok b m show ?thesis by (auto simp: store_current_def)
  qed
qed

lemma store_current_fold:
  "heap_ok s \<Longrightarrow> pbs rs \<subseteq> dom (pheap s) \<Longrightarrow> preblobs s \<noteq> None \<Longrightarrow>
   \<exists>s'. foldM store_current s rs = Some s' \<and> heap_ok s' \<and> mass (pheap s') = mass (pheap s) \<and>
    matched_at (pheap s') = matched_at (pheap s) \<and> same_frame s s' \<and>
    set (done_list s') = set (done_list s) \<union> {p \<in> pbs rs. \<not> matched_at (pheap s) p}"
proof (induction rs arbitrary: s)
  case Nil
  then show ?case by simp
next
  case (Cons r rs)
  from store_current_ok [OF Cons.prems(1) _ Cons.prems(3), of r] Cons.prems(2)
  obtain s1 where s1: "store_current s r = Some s1" "heap_ok s1" "mass (pheap s1) = mass (pheap s)"
    "matched_at (pheap s1) = matched_at (pheap s)" "same_frame s s1"
    "set (done_list s1) = set (done_list s) \<union> (if matched_at (pheap s) (r_pb r) then {} else {r_pb r})"
    by auto
  have "pbs rs \<subseteq> dom (pheap s1)" using Cons.prems(2) s1(3) by (metis dom_mass insert_subset pbs_simps(2))
  moreover have "preblobs s1 \<noteq> None" using s1(5) Cons.prems(3) by (simp add: same_frame_def)
  ultimately obtain s2 where s2: "foldM store_current s1 rs = Some s2" "heap_ok s2"
    "mass (pheap s2) = mass (pheap s1)" "matched_at (pheap s2) = matched_at (pheap s1)" "same_frame s1 s2"
    "set (done_list s2) = set (done_list s1) \<union> {p \<in> pbs rs. \<not> matched_at (pheap s1) p}"
    using Cons.IH [OF s1(2)] by blast
  have "set (done_list s2) = set (done_list s) \<union> {p \<in> pbs (r # rs). \<not> matched_at (pheap s) p}"
    unfolding s2(6) s1(6) s1(4) by auto
  with s1 s2 same_frame_trans [OF s1(5) s2(5)] show ?case by simp
qed

lemma store_next_ok:
  assumes ok: "heap_ok s" and r: "r_pb r \<in> dom (pheap s)" and pl: "preblobs s \<noteq> None"
  shows "\<exists>s'. store_next all s r = Some s' \<and> heap_ok s' \<and> mass (pheap s') = mass (pheap s) \<and>
    (\<forall>p. matched_at (pheap s') p = (matched_at (pheap s) p \<and> p \<noteq> r_pb r)) \<and> same_frame s s' \<and>
    set (done_list s') = set (done_list s) \<union> (if all then {r_pb r} else {})"
proof -
  obtain b where b: "pheap s (r_pb r) = Some b" using r by blast
  let ?b = "b\<lparr>pb_matched := False\<rparr>"
  let ?s = "s\<lparr>pheap := (pheap s)(r_pb r \<mapsto> ?b)\<rparr>"
  have dm: "dom (pheap ?s) = dom (pheap s)" using b by auto
  have dl: "done_list ?s = done_list s" by (simp add: done_list_def)
  have ok1: "heap_ok ?s" using ok b unfolding heap_ok_def dm dl by auto
  have m1: "mass (pheap ?s) = mass (pheap s)" using b by (auto simp: mass_def fun_eq_iff)
  have mt: "matched_at (pheap ?s) p = (matched_at (pheap s) p \<and> p \<noteq> r_pb r)" for p
    by (auto simp: matched_at_def)
  have fr: "same_frame s ?s" by (simp add: same_frame_def)
  have b1: "pheap ?s (r_pb r) = Some ?b" and pl1: "preblobs ?s \<noteq> None" using pl by simp_all
  show ?thesis
  proof (cases "all \<and> \<not> pb_added ?b")
    case True
    then have e: "store_next all s r = Some (add_preblob ?s (r_pb r) ?b)"
      unfolding store_next_def b Option.bind.simps Let_def by (simp only: simp_thms if_True)
    note a = add_preblob_ok [OF ok1 b1 _ pl1]
    show ?thesis unfolding e
      using True a m1 mt dl same_frame_trans [OF fr a(5)] by auto
  next
    case False
    then have e: "store_next all s r = Some ?s"
      unfolding store_next_def b Option.bind.simps Let_def by (simp only: simp_thms if_False)
    have "all \<Longrightarrow> r_pb r \<in> set (done_list s)" using False ok b by (auto simp: heap_ok_def)
    then show ?thesis unfolding e using ok1 m1 mt fr dl by auto
  qed
qed

lemma store_next_fold:
  "heap_ok s \<Longrightarrow> pbs rs \<subseteq> dom (pheap s) \<Longrightarrow> preblobs s \<noteq> None \<Longrightarrow>
   \<exists>s'. foldM (store_next all) s rs = Some s' \<and> heap_ok s' \<and> mass (pheap s') = mass (pheap s) \<and>
    (\<forall>p. matched_at (pheap s') p = (matched_at (pheap s) p \<and> p \<notin> pbs rs)) \<and> same_frame s s' \<and>
    set (done_list s') = set (done_list s) \<union> (if all then pbs rs else {})"
proof (induction rs arbitrary: s)
  case Nil
  then show ?case by simp
next
  case (Cons r rs)
  from store_next_ok [OF Cons.prems(1) _ Cons.prems(3), of r all] Cons.prems(2)
  obtain s1 where s1: "store_next all s r = Some s1" "heap_ok s1" "mass (pheap s1) = mass (pheap s)"
    "\<forall>p. matched_at (pheap s1) p = (matched_at (pheap s) p \<and> p \<noteq> r_pb r)" "same_frame s s1"
    "set (done_list s1) = set (done_list s) \<union> (if all then {r_pb r} else {})"
    by auto
  have "pbs rs \<subseteq> dom (pheap s1)" using Cons.prems(2) s1(3) by (metis dom_mass insert_subset pbs_simps(2))
  moreover have "preblobs s1 \<noteq> None" using s1(5) Cons.prems(3) by (simp add: same_frame_def)
  ultimately obtain s2 where s2: "foldM (store_next all) s1 rs = Some s2" "heap_ok s2"
    "mass (pheap s2) = mass (pheap s1)"
    "\<forall>p. matched_at (pheap s2) p = (matched_at (pheap s1) p \<and> p \<notin> pbs rs)" "same_frame s1 s2"
    "set (done_list s2) = set (done_list s1) \<union> (if all then pbs rs else {})"
    using Cons.IH [OF s1(2)] by blast
  with s1 same_frame_trans [OF s1(5) s2(5)] show ?case by (auto simp: s2(1) s2(4) s1(4))
qed

text \<open>Storing: nothing is lost, what does not continue is finished.\<close>

lemma store_preblobs_ok:
  assumes ok: "heap_ok s" and ln: "line_ok s"
  shows "\<exists>s'. store_preblobs s all = Some s' \<and> heap_ok s' \<and> mass (pheap s') = mass (pheap s) \<and>
    pbrk s' = pbrk s \<and> cur s' = cur s \<and> nxt s' = nxt s \<and> cap s' = cap s \<and>
    current_vline s' = current_vline s \<and> img_dbg_flag s' = img_dbg_flag s \<and> preblobs s' \<noteq> None \<and>
    (\<forall>p \<in> pbs (nxt s). \<not> matched_at (pheap s') p) \<and>
    (if all then set (done_list s') = dom (pheap s')
     else dom (pheap s') = set (done_list s') \<union> pbs (nxt s) \<and> set (done_list s') \<inter> pbs (nxt s) = {})"
proof -
  let ?s = "if preblobs s = None then s\<lparr>preblobs := Some []\<rparr> else s"
  have h: "pheap ?s = pheap s" and dl: "done_list ?s = done_list s" and c: "cur ?s = cur s" and n: "nxt ?s = nxt s"
    by (auto simp: done_list_def)
  have ok0: "heap_ok ?s" using ok unfolding heap_ok_def h dl by simp
  have pl: "preblobs ?s \<noteq> None" by simp
  have sub: "pbs (cur s) \<subseteq> dom (pheap ?s)" "pbs (nxt s) \<subseteq> dom (pheap ?s)"
    using ln by (auto simp: line_ok_def)
  obtain s1 where s1: "foldM store_current ?s (cur s) = Some s1" "heap_ok s1"
    "mass (pheap s1) = mass (pheap s)" "matched_at (pheap s1) = matched_at (pheap s)" "same_frame ?s s1"
    "set (done_list s1) = set (done_list s) \<union> {p \<in> pbs (cur s). \<not> matched_at (pheap s) p}"
    using store_current_fold [OF ok0 sub(1) pl] unfolding h dl by blast
  have f1: "nxt s1 = nxt s" "cur s1 = cur s" and pl1: "preblobs s1 \<noteq> None"
    using s1(5) pl by (auto simp: same_frame_def split: if_splits)
  have sub2: "pbs (nxt s) \<subseteq> dom (pheap s1)" using sub(2) s1(3) unfolding h by (metis dom_mass)
  obtain s2 where s2: "foldM (store_next all) s1 (nxt s) = Some s2" "heap_ok s2"
    "mass (pheap s2) = mass (pheap s1)"
    "\<forall>p. matched_at (pheap s2) p = (matched_at (pheap s1) p \<and> p \<notin> pbs (nxt s))" "same_frame s1 s2"
    "set (done_list s2) = set (done_list s1) \<union> (if all then pbs (nxt s) else {})"
    using store_next_fold [OF s1(2) sub2 pl1, of all] by blast
  have e: "store_preblobs s all = Some s2"
    unfolding store_preblobs_def Let_def c s1(1) Option.bind.simps f1 s2(1) ..
  have fr: "same_frame ?s s2" by (rule same_frame_trans [OF s1(5) s2(5)])
  have dm: "dom (pheap s2) = dom (pheap s)" using s2(3) s1(3) by (metis dom_mass)
  have dd: "set (done_list s2) = set (done_list s) \<union> {p \<in> pbs (cur s). \<not> matched_at (pheap s) p} \<union>
     (if all then pbs (nxt s) else {})"
    unfolding s2(6) s1(6) ..
  have "if all then set (done_list s2) = dom (pheap s2)
     else dom (pheap s2) = set (done_list s2) \<union> pbs (nxt s) \<and> set (done_list s2) \<inter> pbs (nxt s) = {}"
    using ln unfolding dm dd line_ok_def by (cases all) auto
  moreover have "pbrk s2 = pbrk s \<and> cur s2 = cur s \<and> nxt s2 = nxt s \<and> cap s2 = cap s \<and>
    current_vline s2 = current_vline s \<and> img_dbg_flag s2 = img_dbg_flag s \<and> preblobs s2 \<noteq> None"
    using fr pl by (auto simp: same_frame_def split: if_splits)
  ultimately show ?thesis using e s2(2,3,4) s1(3) by simp
qed

lemma change_line_ok:
  assumes "img_inv s S P"
  shows "\<exists>s'. change_line s v = Some s' \<and> img_inv s' S P \<and> dom (pheap s') = dom (pheap s) \<and> cap s' = cap s \<and> current_vline s' = v \<and>
    length (nxt s') = (if current_vline s = v then length (nxt s) else 0)"
proof (cases "current_vline s = v")
  case True
  with assms show ?thesis by (simp add: change_line_def)
next
  case False
  have ok: "heap_ok s" "line_ok s" and t: "tot pb_sum (pheap s) = S" "tot pb_points (pheap s) = P"
    using assms by (auto simp: img_inv_def)
  let ?all = "current_vline s + 1 \<noteq> v"
  obtain s1 where e: "store_preblobs s ?all = Some s1" and ok1: "heap_ok s1"
    and m: "mass (pheap s1) = mass (pheap s)" and fr: "nxt s1 = nxt s" "cap s1 = cap s"
    and um: "\<forall>p \<in> pbs (nxt s). \<not> matched_at (pheap s1) p"
    and dd: "if ?all then set (done_list s1) = dom (pheap s1)
     else dom (pheap s1) = set (done_list s1) \<union> pbs (nxt s) \<and> set (done_list s1) \<inter> pbs (nxt s) = {}"
    using store_preblobs_ok [OF ok, of ?all] by blast
  have t1: "tot pb_sum (pheap s1) = S" "tot pb_points (pheap s1) = P" using tot_mass [OF m] t by auto
  have dm: "dom (pheap s1) = dom (pheap s)" using m by (metis dom_mass)
  show ?thesis
  proof (cases ?all)
    case True
    with e have e': "store_preblobs s True = Some s1" by simp
    let ?s = "s1\<lparr>cur := [], nxt := [], current_vline := v\<rparr>"
    have "change_line s v = Some ?s"
      unfolding change_line_def using False True by (simp add: e')
    moreover have "img_inv ?s S P"
      using ok1 dd True t1 by (auto simp: img_inv_def heap_ok_def line_ok_def done_list_def)
    ultimately show ?thesis using fr False dm by simp
  next
    case nall: False
    with e have e': "store_preblobs s False = Some s1" by simp
    let ?s = "s1\<lparr>cur := nxt s, nxt := [], current_vline := v\<rparr>"
    have "change_line s v = Some ?s"
      unfolding change_line_def using False nall fr by (simp add: e')
    moreover have "img_inv ?s S P"
      using ok1 dd nall t1 um by (auto simp: img_inv_def heap_ok_def line_ok_def done_list_def)
    ultimately show ?thesis using fr False dm by simp
  qed
qed


lemma tot_nonneg: "(\<And>r d. H r = Some d \<Longrightarrow> 0 \<le> f d) \<Longrightarrow> 0 \<le> tot f H"
  unfolding tot_def by (intro sum_nonneg) auto

subsection \<open>Matching a stripe\<close>

text \<open>During the matching loop: the preblob of the first range found is matched although it has no
  range on the next line yet; \<open>X\<close> is a preblob that has been marked and is about to be merged.\<close>

definition matching :: "pptr set \<Rightarrow> nat option \<Rightarrow> imgst \<Rightarrow> bool" where
  "matching X rng s \<longleftrightarrow> dom (pheap s) = set (done_list s) \<union> pbs (cur s) \<union> pbs (nxt s) \<and>
     set (done_list s) \<inter> (pbs (cur s) \<union> pbs (nxt s)) = {} \<and>
     (\<forall>p \<in> pbs (nxt s). matched_at (pheap s) p) \<and>
     (\<forall>p \<in> pbs (cur s). matched_at (pheap s) p \<longrightarrow>
        p \<in> pbs (nxt s) \<or> (\<exists>k. rng = Some k \<and> p = r_pb (cur s ! k)) \<or> p \<in> X) \<and>
     (\<forall>k. rng = Some k \<longrightarrow> k < length (cur s) \<and> matched_at (pheap s) (r_pb (cur s ! k)))"

definition match_inv :: "pptr set \<Rightarrow> imgst \<Rightarrow> int \<Rightarrow> int \<Rightarrow> nat option \<times> imgst \<Rightarrow> bool" where
  "match_inv X s0 S P x \<longleftrightarrow> heap_ok (snd x) \<and> matching X (fst x) (snd x) \<and>
     tot pb_sum (pheap (snd x)) = S \<and> tot pb_points (pheap (snd x)) = P \<and>
     cap (snd x) = cap s0 \<and> current_vline (snd x) = current_vline s0 \<and>
     length (cur (snd x)) = length (cur s0) \<and> length (nxt (snd x)) = length (nxt s0) \<and>
     card (dom (pheap (snd x))) \<le> card (dom (pheap s0))"

lemma length_redirect [simp]: "length (redirect m p rs) = length rs"
  by (simp add: redirect_def)

lemma pbs_redirect: "pbs (redirect m p rs) = (if m \<in> pbs rs then insert p (pbs rs - {m}) else pbs rs)"
proof (induction rs)
  case (Cons r rs)
  then show ?case by (auto simp: redirect_def)
qed (simp add: redirect_def)

lemma r_pb_redirect: "k < length rs \<Longrightarrow> r_pb (redirect m p rs ! k) = (if r_pb (rs ! k) = m then p else r_pb (rs ! k))"
  by (simp add: redirect_def)

lemma heap_ok_match:
  assumes "heap_ok s" and "pheap s p = Some b"
  shows "heap_ok (s\<lparr>pheap := (pheap s)(p \<mapsto> b\<lparr>pb_matched := True\<rparr>)\<rparr>)"
proof -
  have "dom ((pheap s)(p \<mapsto> b\<lparr>pb_matched := True\<rparr>)) = dom (pheap s)" using assms(2) by auto
  then show ?thesis using assms by (auto simp: heap_ok_def done_list_def)
qed

lemma mass_match:
  "pheap s p = Some b \<Longrightarrow> mass ((pheap s)(p \<mapsto> b\<lparr>pb_matched := True\<rparr>)) = mass (pheap s)"
  by (auto simp: mass_def fun_eq_iff)

lemma matched_at_upd: "matched_at (H(p \<mapsto> b)) q = (if q = p then pb_matched b else matched_at H q)"
  by (simp add: matched_at_def)

lemma matched_at_del: "matched_at (H(p := None)) q = (q \<noteq> p \<and> matched_at H q)"
  by (simp add: matched_at_def)

text \<open>Merging the preblob \<open>m\<close> into \<open>p\<close> and redirecting every range keeps the invariant.\<close>

lemma merge_ok:
  assumes inv: "match_inv {m} s0 S P (Some k, s)" and S: "S < 2 ^ 31" and P: "P < 2 ^ 31"
    and p: "r_pb (cur s ! k) = p" and m: "m \<in> pbs (cur s)" "m \<noteq> p" "matched_at (pheap s) m"
  shows "\<exists>s1. merge_preblobs s p m = Some s1 \<and> cur s1 = cur s \<and> nxt s1 = nxt s \<and>
    match_inv {} s0 S P (Some k, s1\<lparr>cur := redirect m p (cur s), nxt := redirect m p (nxt s),
                               pheap := (pheap s1)(m := None)\<rparr>)"
proof -
  have ok: "heap_ok s" and mt: "matching {m} (Some k) s" and t: "tot pb_sum (pheap s) = S" "tot pb_points (pheap s) = P"
    using inv by (auto simp: match_inv_def)
  have fin: "finite (dom (pheap s))" and pos: "\<And>r d. pheap s r = Some d \<Longrightarrow> 0 \<le> pb_sum d \<and> 0 \<le> pb_points d"
    using ok by (auto simp: heap_ok_def)
  have k: "k < length (cur s)" "matched_at (pheap s) p" using mt p by (auto simp: matching_def)
  have pc: "p \<in> pbs (cur s)" using k(1) p by (auto simp: pbs_def)
  obtain b where b: "pheap s p = Some b" and bm: "pb_matched b" using k(2) by (auto simp: matched_at_def)
  obtain c where c: "pheap s m = Some c" and cm: "pb_matched c" using m(3) by (auto simp: matched_at_def)
  have le: "pb_sum b + pb_sum c \<le> S" "pb_points b + pb_points c \<le> P"
    using tot_ge_two [OF fin b c, of pb_sum] tot_ge_two [OF fin b c, of pb_points] m(2) pos t by auto
  have ge: "0 \<le> pb_sum b" "0 \<le> pb_sum c" "0 \<le> pb_points b" "0 \<le> pb_points c" using pos b c by auto
  have ia: "int_add (pb_sum b) (pb_sum c) = Some (pb_sum b + pb_sum c)"
    "int_add (pb_points b) (pb_points c) = Some (pb_points b + pb_points c)"
    using le ge S P by (auto simp: int_add_def)
  define b' where "b' = b\<lparr>pb_sum_x := fadd b32 (pb_sum_x b) (pb_sum_x c),
       pb_sum_y := fadd b32 (pb_sum_y b) (pb_sum_y c),
       pb_sum := pb_sum b + pb_sum c, pb_points := pb_points b + pb_points c\<rparr>"
  have b': "pb_sum b' = pb_sum b + pb_sum c" "pb_points b' = pb_points b + pb_points c"
    "pb_added b' = pb_added b" "pb_matched b' = pb_matched b"
    by (simp_all add: b'_def)
  let ?s1 = "s\<lparr>pheap := (pheap s)(p \<mapsto> b')\<rparr>"
  let ?H = "((pheap s)(p \<mapsto> b'))(m := None)"
  let ?s2 = "?s1\<lparr>cur := redirect m p (cur s), nxt := redirect m p (nxt s), pheap := ?H\<rparr>"
  have e: "merge_preblobs s p m = Some ?s1"
    by (simp add: merge_preblobs_def b c ia b'_def)
  have nd: "m \<notin> set (done_list s)" using mt m(1) by (auto simp: matching_def)
  have dl: "done_list ?s2 = done_list s" by (simp add: done_list_def)
  have dm: "dom ?H = dom (pheap s) - {m}" using b by auto
  have "heap_ok ?s2"
    using ok b b' nd ge unfolding heap_ok_def dl by (auto simp: dm)
  moreover have "matching {} (Some k) ?s2"
    unfolding matching_def dl using mt m pc k p bm b'
    by (auto simp: matching_def dm pbs_redirect r_pb_redirect matched_at_upd matched_at_del nd split: if_splits)
  moreover have "tot pb_sum ?H = S"
    using tot_upd [OF fin b, of pb_sum b'] tot_del [of "(pheap s)(p \<mapsto> b')" m c pb_sum] fin c m(2) b' t by simp
  moreover have "tot pb_points ?H = P"
    using tot_upd [OF fin b, of pb_points b'] tot_del [of "(pheap s)(p \<mapsto> b')" m c pb_points] fin c m(2) b' t by simp
  moreover have "card (dom ?H) \<le> card (dom (pheap s))" unfolding dm using fin by (intro card_mono) auto
  ultimately have "match_inv {} s0 S P (Some k, ?s2)"
    using inv unfolding match_inv_def by simp
  with e show ?thesis by (intro exI [of _ ?s1]) simp
qed

lemma match_range_ok:
  assumes inv: "match_inv {} s0 S P (rng, s)" and S: "S < 2 ^ 31" and P: "P < 2 ^ 31" and i: "i < length (cur s)"
  shows "\<exists>x. match_range t (rng, s) i = Some x \<and> match_inv {} s0 S P x"
proof (cases "stripe_in_range t (cur s ! i)")
  case False
  with inv i show ?thesis by (simp add: match_range_def rd_def)
next
  case True
  let ?p = "r_pb (cur s ! i)"
  have ok: "heap_ok s" and mt: "matching {} rng s" using inv by (auto simp: match_inv_def)
  have pc: "?p \<in> pbs (cur s)" using i by (auto simp: pbs_def)
  then obtain b where b: "pheap s ?p = Some b" using mt by (auto simp: matching_def)
  let ?s = "s\<lparr>pheap := (pheap s)(?p \<mapsto> b\<lparr>pb_matched := True\<rparr>)\<rparr>"
  have dm: "dom (pheap ?s) = dom (pheap s)" using b by auto
  have dl: "done_list ?s = done_list s" by (simp add: done_list_def)
  have tt: "tot pb_sum (pheap ?s) = tot pb_sum (pheap s)" "tot pb_points (pheap ?s) = tot pb_points (pheap s)"
    using tot_mass [OF mass_match [OF b]] by simp_all
  have ma: "matched_at (pheap ?s) q = (q = ?p \<or> matched_at (pheap s) q)" for q
    by (simp add: matched_at_upd)
  have ok1: "heap_ok ?s" by (rule heap_ok_match [OF ok b])
  show ?thesis
  proof (cases rng)
    case None
    have "matching {} (Some i) ?s"
      using mt i None unfolding matching_def dl dm ma by auto
    then have "match_inv {} s0 S P (Some i, ?s)" using inv ok1 tt dm by (simp add: match_inv_def)
    moreover have "match_range t (rng, s) i = Some (Some i, ?s)"
      using True b i None by (simp add: match_range_def rd_def)
    ultimately show ?thesis by blast
  next
    case (Some k)
    have k: "k < length (cur s)" using mt Some by (auto simp: matching_def)
    show ?thesis
    proof (cases "r_pb (cur s ! k) = ?p")
      case same: True
      have "matching {} (Some k) ?s"
        using mt same Some unfolding matching_def dl dm ma by auto
      then have "match_inv {} s0 S P (Some k, ?s)" using inv ok1 tt dm by (simp add: match_inv_def)
      moreover have "match_range t (rng, s) i = Some (Some k, ?s)"
        using True b i Some same k by (simp add: match_range_def rd_def)
      ultimately show ?thesis by blast
    next
      case diff: False
      text \<open>Marking and merging: the marked preblob disappears at once.\<close>
      have mt1: "\<exists>s1. merge_preblobs ?s (r_pb (cur s ! k)) ?p = Some s1 \<and> cur s1 = cur ?s \<and> nxt s1 = nxt ?s \<and>
        match_inv {} s0 S P (Some k, s1\<lparr>cur := redirect ?p (r_pb (cur s ! k)) (cur ?s),
          nxt := redirect ?p (r_pb (cur s ! k)) (nxt ?s), pheap := (pheap s1)(?p := None)\<rparr>)"
      proof (rule merge_ok [OF _ S P])
        have "matching {?p} (Some k) ?s"
          using mt Some diff unfolding matching_def dl dm ma by auto
        then show "match_inv {?p} s0 S P (Some k, ?s)" using inv ok1 tt dm by (simp add: match_inv_def)
      qed (use pc diff b in \<open>auto simp: matched_at_def\<close>)
      then show ?thesis using True b i Some diff k by (auto simp: match_range_def rd_def Let_def)
    qed
  qed
qed


lemma match_fold_ok:
  assumes inv: "match_inv {} s0 S P (rng, s)" and S: "S < 2 ^ 31" and P: "P < 2 ^ 31"
    and js: "\<forall>i \<in> set js. i < length (cur s0)"
  shows "\<exists>x. foldM (match_range t) (rng, s) js = Some x \<and> match_inv {} s0 S P x"
  using inv js
proof (induction js arbitrary: rng s)
  case Nil
  then show ?case by simp
next
  case (Cons i js)
  have "i < length (cur s)" using Cons.prems by (simp add: match_inv_def)
  then obtain x where x: "match_range t (rng, s) i = Some x" "match_inv {} s0 S P x"
    using match_range_ok [OF Cons.prems(1) S P] by blast
  then obtain y where "foldM (match_range t) x js = Some y" "match_inv {} s0 S P y"
    using Cons.IH [of "fst x" "snd x"] Cons.prems(2) by auto
  with x show ?case by simp
qed

lemma int_u32_add:
  assumes "0 \<le> a" and "a + uint t < 2 ^ 31"
  shows "int_of_u32 (u32_of_int a + t) = a + uint (t :: u32)"
proof -
  have t0: "0 \<le> uint t" by simp
  have "a < 2 ^ 31" using assms(2) t0 by linarith
  then have a32: "a < 2 ^ 32" by simp
  have a: "uint (u32_of_int a) = a"
    using assms(1) a32 unfolding u32_of_int_def by (simp add: uint_word_of_int_eq take_bit_int_eq_self)
  have "a + uint t < 2 ^ 32" using assms(2) by simp
  then have u: "uint (u32_of_int a + t) = a + uint t"
    using a by (subst uint_add_lem [THEN iffD1]) simp_all
  have "0 \<le> a + uint t" using assms(1) t0 by linarith
  then have "unat (u32_of_int a + t) < 2 ^ 31"
    using u assms(2) by (simp only: unat_eq_nat_uint) (simp add: nat_less_iff)
  then have "int_of_u32 (u32_of_int a + t) = int (unat (u32_of_int a + t))" by (rule int_of_u32_small)
  then show ?thesis using u by simp
qed

lemma int_u32_small: "uint t < 2 ^ 31 \<Longrightarrow> int_of_u32 t = uint t"
  using int_u32_add [of 0 t] by (simp add: u32_of_int_def)

lemma place_stripe_ok:
  assumes inv: "img_inv s S P"
    and S: "S + uint (st_sum t) < 2 ^ 31" and P: "P + uint (st_points t) < 2 ^ 31"
    and cap: "cap s = Some n" "length (nxt s) < n"
  shows "\<exists>s'. place_stripe s t = Some s' \<and> img_inv s' (S + uint (st_sum t)) (P + uint (st_points t)) \<and>
    cap s' = cap s \<and> current_vline s' = current_vline s \<and> length (nxt s') = length (nxt s) + 1 \<and>
    card (dom (pheap s')) \<le> card (dom (pheap s)) + 1"
proof -
  have ge: "0 \<le> uint (st_sum t)" "0 \<le> uint (st_points t)" by simp_all
  have SP: "S < 2 ^ 31" "P < 2 ^ 31" using S P ge by linarith+
  have "match_inv {} s S P (None, s)"
    using inv unfolding match_inv_def img_inv_def line_ok_def matching_def by auto
  then obtain rng s1 where f: "foldM (match_range t) (None, s) [0..<length (cur s)] = Some (rng, s1)"
    and mi: "match_inv {} s S P (rng, s1)"
    using match_fold_ok [of s S P None s "[0..<length (cur s)]" t] SP by auto
  have ok: "heap_ok s1" and mt: "matching {} rng s1" and t1: "tot pb_sum (pheap s1) = S" "tot pb_points (pheap s1) = P"
    and fr: "cap s1 = cap s" "current_vline s1 = current_vline s" "length (nxt s1) = length (nxt s)"
      "card (dom (pheap s1)) \<le> card (dom (pheap s))"
    using mi by (auto simp: match_inv_def)
  have fin: "finite (dom (pheap s1))" and pos: "\<And>r d. pheap s1 r = Some d \<Longrightarrow> 0 \<le> pb_sum d \<and> 0 \<le> pb_points d"
    using ok by (auto simp: heap_ok_def)
  have n: "cap s1 = Some n" "length (nxt s1) < n" using cap fr by auto
  show ?thesis
  proof (cases rng)
    case None
    let ?b = "\<lparr>pb_sum_x = stripe_x t, pb_sum_y = stripe_y t, pb_sum = int_of_u32 (st_sum t),
      pb_points = int_of_u32 (st_points t), pb_added = False, pb_matched = True\<rparr>"
    let ?p = "pbrk s1"
    let ?s = "s1\<lparr>pheap := (pheap s1)(?p \<mapsto> ?b), pbrk := ?p + 1,
      nxt := nxt s1 @ [\<lparr>r_x1 = hstart t, r_x2 = hstop t, r_pb = ?p\<rparr>]\<rparr>"
    have new: "pheap s1 ?p = None" using ok unfolding heap_ok_def by (metis domIff less_irrefl)
    have nd: "?p \<notin> set (done_list s1)" "?p \<notin> pbs (cur s1)" "?p \<notin> pbs (nxt s1)"
      using new mt unfolding matching_def by (auto simp: domIff)
    have v: "int_of_u32 (st_sum t) = uint (st_sum t)" "int_of_u32 (st_points t) = uint (st_points t)"
      using S P tot_nonneg [of "pheap s1" pb_sum] tot_nonneg [of "pheap s1" pb_points] pos t1
      by (auto intro!: int_u32_small)
    have e: "place_stripe s t = Some ?s"
      by (simp add: place_stripe_def f None preblob_from_stripe_def n)
    have dl: "done_list ?s = done_list s1" by (simp add: done_list_def)
    have "heap_ok ?s" using ok nd v unfolding heap_ok_def dl by (auto simp: less_Suc_eq)
    moreover have "line_ok ?s"
      using mt None nd unfolding matching_def line_ok_def dl by (auto simp: matched_at_upd)
    ultimately have "img_inv ?s (S + uint (st_sum t)) (P + uint (st_points t))"
      using tot_new [OF fin new, of pb_sum ?b] tot_new [OF fin new, of pb_points ?b] t1 v
      by (simp add: img_inv_def)
    moreover have "card (dom (pheap ?s)) \<le> card (dom (pheap s)) + 1"
      using fr(4) card_insert_le_m1 fin by (simp add: card_insert_if)
    ultimately show ?thesis using e fr by simp
  next
    case (Some k)
    have k: "k < length (cur s1)" "matched_at (pheap s1) (r_pb (cur s1 ! k))"
      using mt Some by (auto simp: matching_def)
    let ?p = "r_pb (cur s1 ! k)"
    have pc: "?p \<in> pbs (cur s1)" using k(1) by (auto simp: pbs_def)
    obtain b where b: "pheap s1 ?p = Some b" and bm: "pb_matched b" using k(2) by (auto simp: matched_at_def)
    have le: "pb_sum b \<le> S" "pb_points b \<le> P"
      using tot_ge_one [OF fin b, of pb_sum] tot_ge_one [OF fin b, of pb_points] pos t1 by auto
    have v: "int_of_u32 (u32_of_int (pb_sum b) + st_sum t) = pb_sum b + uint (st_sum t)"
      "int_of_u32 (u32_of_int (pb_points b) + st_points t) = pb_points b + uint (st_points t)"
      using int_u32_add [of "pb_sum b" "st_sum t"] int_u32_add [of "pb_points b" "st_points t"] pos [OF b] le S P
      by simp_all
    define b' where "b' = b\<lparr>pb_sum_x := fadd b32 (pb_sum_x b) (stripe_x t),
       pb_sum_y := fadd b32 (pb_sum_y b) (stripe_y t),
       pb_sum := int_of_u32 (u32_of_int (pb_sum b) + st_sum t),
       pb_points := int_of_u32 (u32_of_int (pb_points b) + st_points t)\<rparr>"
    have b': "pb_sum b' = pb_sum b + uint (st_sum t)" "pb_points b' = pb_points b + uint (st_points t)"
      "pb_added b' = pb_added b" "pb_matched b' = pb_matched b"
      by (simp_all add: b'_def v)
    let ?s = "s1\<lparr>pheap := (pheap s1)(?p \<mapsto> b'),
      nxt := nxt s1 @ [\<lparr>r_x1 = hstart t, r_x2 = hstop t, r_pb = ?p\<rparr>]\<rparr>"
    have e: "place_stripe s t = Some ?s"
      by (simp add: place_stripe_def f Some rd_def k(1) add_stripe_to_preblob_def b n b'_def)
    have dl: "done_list ?s = done_list s1" by (simp add: done_list_def)
    have dm: "dom ((pheap s1)(?p \<mapsto> b')) = dom (pheap s1)" using b by auto
    have "heap_ok ?s" using ok b b' pos [OF b] unfolding heap_ok_def dl by (auto simp: dm)
    moreover have "line_ok ?s"
      using mt Some pc bm b' unfolding matching_def line_ok_def dl by (auto simp: matched_at_upd dm)
    ultimately have "img_inv ?s (S + uint (st_sum t)) (P + uint (st_points t))"
      using tot_upd [OF fin b, of pb_sum b'] tot_upd [OF fin b, of pb_points b'] t1 b'
      by (simp add: img_inv_def)
    moreover have "card (dom (pheap ?s)) \<le> card (dom (pheap s)) + 1"
    proof -
      have "dom (pheap ?s) = dom (pheap s1)" using b by auto
      then show ?thesis using fr(4) by (simp only:)
    qed
    ultimately show ?thesis using e fr by simp
  qed
qed

subsection \<open>Whole frames\<close>

text \<open>\<open>room n v k ts\<close>: no line of the stripe sequence has more than \<open>n\<close> stripes, when \<open>k\<close> are
  already on line \<open>v\<close>.\<close>

fun room :: "nat \<Rightarrow> u32 \<Rightarrow> nat \<Rightarrow> stripe_t list \<Rightarrow> bool" where
  "room n v k [] = True"
| "room n v k (t # ts) =
     (let k' = (if vline t = v then k + 1 else 1) in k' \<le> n \<and> room n (vline t) k' ts)"

definition add_stripes :: "imgst \<Rightarrow> stripe_t list \<Rightarrow> image_t \<Rightarrow> (imgst \<times> image_t) option" where
  "add_stripes s ts img = foldM (\<lambda>(s, img) t. ltr_int_add_stripe s t img) (s, img) ts"

definition sum_of :: "stripe_t list \<Rightarrow> int" where
  "sum_of ts = sum_list (map (\<lambda>t. uint (st_sum t)) ts)"

definition points_of :: "stripe_t list \<Rightarrow> int" where
  "points_of ts = sum_list (map (\<lambda>t. uint (st_points t)) ts)"

lemma sum_of_simps [simp]: "sum_of [] = 0" "sum_of (t # ts) = uint (st_sum t) + sum_of ts"
  by (simp_all add: sum_of_def)

lemma points_of_simps [simp]: "points_of [] = 0" "points_of (t # ts) = uint (st_points t) + points_of ts"
  by (simp_all add: points_of_def)

lemma sum_points_ge: "0 \<le> sum_of ts" "0 \<le> points_of ts"
  by (induction ts) simp_all

lemma add_stripe_ok:
  assumes inv: "img_inv s S P" and nb: "im_bitmap img = None" and cap: "cap s = Some n"
    and rm: "(if vline t = current_vline s then length (nxt s) + 1 else 1) \<le> n"
    and S: "S + uint (st_sum t) < 2 ^ 31" and P: "P + uint (st_points t) < 2 ^ 31"
  shows "\<exists>s'. ltr_int_add_stripe s t img = Some (s', img) \<and>
    img_inv s' (S + uint (st_sum t)) (P + uint (st_points t)) \<and> cap s' = Some n \<and>
    current_vline s' = vline t \<and>
    length (nxt s') = (if vline t = current_vline s then length (nxt s) + 1 else 1) \<and>
    card (dom (pheap s')) \<le> card (dom (pheap s)) + 1"
proof -
  obtain s1 where s1: "change_line s (vline t) = Some s1" "img_inv s1 S P" "cap s1 = cap s"
    "current_vline s1 = vline t"
    "length (nxt s1) = (if current_vline s = vline t then length (nxt s) else 0)"
    "dom (pheap s1) = dom (pheap s)"
    using change_line_ok [OF inv, of "vline t"] by blast
  have "length (nxt s1) < n" using rm s1(5) by (auto split: if_splits)
  then obtain s2 where s2: "place_stripe s1 t = Some s2"
    "img_inv s2 (S + uint (st_sum t)) (P + uint (st_points t))" "cap s2 = cap s1"
    "current_vline s2 = current_vline s1" "length (nxt s2) = length (nxt s1) + 1"
    "card (dom (pheap s2)) \<le> card (dom (pheap s1)) + 1"
    using place_stripe_ok [OF s1(2) S P, of n] s1(3) cap by auto
  with s1 cap nb show ?thesis by (auto simp: ltr_int_add_stripe_def)
qed

lemma add_stripes_ok:
  "img_inv s S P \<Longrightarrow> im_bitmap img = None \<Longrightarrow> cap s = Some n \<Longrightarrow> room n (current_vline s) (length (nxt s)) ts \<Longrightarrow>
   S + sum_of ts < 2 ^ 31 \<Longrightarrow> P + points_of ts < 2 ^ 31 \<Longrightarrow>
   \<exists>s'. add_stripes s ts img = Some (s', img) \<and> img_inv s' (S + sum_of ts) (P + points_of ts) \<and> cap s' = Some n \<and>
     card (dom (pheap s')) \<le> card (dom (pheap s)) + length ts"
proof (induction ts arbitrary: s S P)
  case Nil
  then show ?case by (simp add: add_stripes_def)
next
  case (Cons t ts)
  have "S + uint (st_sum t) < 2 ^ 31" "P + uint (st_points t) < 2 ^ 31"
    using Cons.prems(5,6) sum_points_ge [of ts] by simp_all
  moreover have "(if vline t = current_vline s then length (nxt s) + 1 else 1) \<le> n"
    using Cons.prems(4) by (simp add: Let_def)
  ultimately obtain s1 where s1: "ltr_int_add_stripe s t img = Some (s1, img)"
    "img_inv s1 (S + uint (st_sum t)) (P + uint (st_points t))" "cap s1 = Some n"
    "current_vline s1 = vline t" "length (nxt s1) = (if vline t = current_vline s then length (nxt s) + 1 else 1)"
    "card (dom (pheap s1)) \<le> card (dom (pheap s)) + 1"
    using add_stripe_ok [OF Cons.prems(1-3)] by blast
  have "room n (current_vline s1) (length (nxt s1)) ts"
    using Cons.prems(4) s1(4,5) by (simp add: Let_def)
  from Cons.IH [OF s1(2) Cons.prems(2) s1(3) this] Cons.prems(5,6) s1(1)
  s1(6) show ?case by (fastforce simp: add_stripes_def add.assoc)
qed

text \<open>The blob the code computes for a preblob, and the preblobs that pass the size filter.\<close>

definition blob_of :: "image_t \<Rightarrow> preblob \<Rightarrow> blob_type" where
  "blob_of img b =
     \<lparr>bl_x = half_minus (im_w img) (fdiv b32 (fdiv b32 (pb_sum_x b) (flt_of_int b32 (pb_sum b))) (im_ratio img)),
      bl_y = half_minus (im_h img) (fdiv b32 (pb_sum_y b) (flt_of_int b32 (pb_sum b))),
      bl_score = u32_of_int (pb_points b)\<rparr>"

definition eligible :: "(pptr \<rightharpoonup> preblob) \<Rightarrow> int \<Rightarrow> int \<Rightarrow> pptr list \<Rightarrow> preblob list" where
  "eligible H mn mx ps = filter (\<lambda>b. mn \<le> pb_points b \<and> pb_points b \<le> mx) (map (the \<circ> H) ps)"

lemma eligible_simps [simp]:
  "eligible H mn mx [] = []"
  "eligible H mn mx (p # ps) = (let b = the (H p) in
     if mn \<le> pb_points b \<and> pb_points b \<le> mx then b # eligible H mn mx ps else eligible H mn mx ps)"
  by (simp_all add: eligible_def Let_def)

lemma eligible_length: "length (eligible H mn mx ps) \<le> length ps"
  by (simp add: eligible_def order.trans [OF length_filter_le])

lemma wsuc: "unat (w :: u32) + 1 < 2 ^ 32 \<Longrightarrow> unat (w + 1) = unat w + 1"
  by (subst unat_add_lem [THEN iffD1]) simp_all

lemma blob_fold:
  assumes H: "set ps \<subseteq> dom H" and nb: "im_bitmap (bo_img o') = None"
    and cv: "bo_valid o' = bo_counter o'" and n: "unat (bo_counter o') + length ps < 2 ^ 32"
    and room: "unat num \<le> length (blobs (bo_blt o'))"
  shows "\<exists>o2. foldM (blob_step H num mn mx) o' ps = Some o2 \<and> bo_img o2 = bo_img o' \<and>
    bo_valid o2 = bo_counter o2 \<and>
    unat (bo_counter o2) = unat (bo_counter o') + length (eligible H mn mx ps) \<and>
    expected_blobs (bo_blt o2) = expected_blobs (bo_blt o') \<and>
    length (blobs (bo_blt o2)) = length (blobs (bo_blt o')) \<and>
    (\<forall>i. unat (bo_counter o') \<le> i \<and> i < min (unat num) (unat (bo_counter o2)) \<longrightarrow>
       blobs (bo_blt o2) ! i = blob_of (bo_img o') (eligible H mn mx ps ! (i - unat (bo_counter o')))) \<and>
    (\<forall>i. i < unat (bo_counter o') \<or> min (unat num) (unat (bo_counter o2)) \<le> i \<longrightarrow> blobs (bo_blt o2) ! i = blobs (bo_blt o') ! i)"
  using assms
proof (induction ps arbitrary: o')
  case Nil
  then show ?case by auto
next
  case (Cons p ps)
  obtain b where b: "H p = Some b" using Cons.prems(1) by auto
  let ?e = "mn \<le> pb_points b \<and> pb_points b \<le> mx"
  show ?case
  proof (cases ?e)
    case False
    then have "blob_step H num mn mx o' p = Some o'" using b by (auto simp: blob_step_def)
    with Cons.IH [of o'] Cons.prems b False show ?thesis by (auto simp: Let_def)
  next
    case True
    have c1: "unat (bo_counter o' + 1) = unat (bo_counter o') + 1"
      using Cons.prems(4) by (intro wsuc) simp
    show ?thesis
    proof (cases "bo_counter o' < num")
      case lt: True
      then have c: "unat (bo_counter o') < unat num" by (simp add: word_less_nat_alt)
      let ?o = "o'\<lparr>bo_blt := (bo_blt o')\<lparr>blobs := (blobs (bo_blt o'))[unat (bo_counter o') := blob_of (bo_img o') b]\<rparr>,
        bo_valid := bo_valid o' + 1, bo_counter := bo_counter o' + 1\<rparr>"
      have st: "blob_step H num mn mx o' p = Some ?o"
        using True b lt c Cons.prems(2,5)
        by (simp add: blob_step_def emit_blob_def wr_def blob_of_def Let_def)
      have IH: "\<exists>o2. foldM (blob_step H num mn mx) ?o ps = Some o2 \<and> bo_img o2 = bo_img o' \<and>
        bo_valid o2 = bo_counter o2 \<and>
        unat (bo_counter o2) = unat (bo_counter o' + 1) + length (eligible H mn mx ps) \<and>
        expected_blobs (bo_blt o2) = expected_blobs (bo_blt o') \<and>
        length (blobs (bo_blt o2)) = length (blobs (bo_blt o')) \<and>
        (\<forall>i. unat (bo_counter o' + 1) \<le> i \<and> i < min (unat num) (unat (bo_counter o2)) \<longrightarrow>
          blobs (bo_blt o2) ! i = blob_of (bo_img o') (eligible H mn mx ps ! (i - unat (bo_counter o' + 1)))) \<and>
        (\<forall>i. i < unat (bo_counter o' + 1) \<or> min (unat num) (unat (bo_counter o2)) \<le> i \<longrightarrow>
          blobs (bo_blt o2) ! i = blobs (bo_blt ?o) ! i)"
        using Cons.IH [of ?o] Cons.prems c1 by simp
      then obtain o2 where o2: "foldM (blob_step H num mn mx) ?o ps = Some o2" "bo_img o2 = bo_img o'"
        "bo_valid o2 = bo_counter o2"
        "unat (bo_counter o2) = unat (bo_counter o') + 1 + length (eligible H mn mx ps)"
        "expected_blobs (bo_blt o2) = expected_blobs (bo_blt o')"
        "length (blobs (bo_blt o2)) = length (blobs (bo_blt o'))"
        and o2a: "\<And>i. unat (bo_counter o') + 1 \<le> i \<Longrightarrow> i < min (unat num) (unat (bo_counter o2)) \<Longrightarrow>
          blobs (bo_blt o2) ! i = blob_of (bo_img o') (eligible H mn mx ps ! (i - (unat (bo_counter o') + 1)))"
        and o2b: "\<And>i. i < unat (bo_counter o') + 1 \<or> min (unat num) (unat (bo_counter o2)) \<le> i \<Longrightarrow>
          blobs (bo_blt o2) ! i = blobs (bo_blt ?o) ! i"
        unfolding c1 by blast
      have e: "eligible H mn mx (p # ps) = b # eligible H mn mx ps" using True b by simp
      have A: "blobs (bo_blt o2) ! i = blob_of (bo_img o') ((b # eligible H mn mx ps) ! (i - unat (bo_counter o')))"
        if i: "unat (bo_counter o') \<le> i" "i < min (unat num) (unat (bo_counter o2))" for i
      proof (cases "i = unat (bo_counter o')")
        case True
        with o2b [of i] c Cons.prems(5) show ?thesis by simp
      next
        case False
        with i obtain j where j: "i = unat (bo_counter o') + 1 + j"
          using less_eqE [of "unat (bo_counter o') + 1" i] by auto
        with o2a [of i] i show ?thesis by simp
      qed
      have B: "blobs (bo_blt o2) ! i = blobs (bo_blt o') ! i"
        if "i < unat (bo_counter o') \<or> min (unat num) (unat (bo_counter o2)) \<le> i" for i
        using o2b [of i] that c o2(4) by auto
      show ?thesis using st o2 e A B by (intro exI [of _ o2]) (auto simp del: eligible_simps)
    next
      case ge: False
      then have c: "unat num \<le> unat (bo_counter o')" by (simp add: word_less_nat_alt)
      let ?o = "o'\<lparr>bo_valid := bo_valid o' + 1, bo_counter := bo_counter o' + 1\<rparr>"
      have st: "blob_step H num mn mx o' p = Some ?o"
        using True b ge by (simp add: blob_step_def)
      have e: "eligible H mn mx (p # ps) = b # eligible H mn mx ps" using True b by simp
      from Cons.IH [of ?o] Cons.prems c1 st c e show ?thesis
        by (auto simp del: eligible_simps)
    qed
  qed
qed

lemma free_fold: "distinct ps \<Longrightarrow> set ps \<subseteq> dom H \<Longrightarrow>
  foldM free_preblob H ps = Some (H |` (- set ps))"
proof (induction ps arbitrary: H)
  case Nil
  then show ?case by simp
next
  case (Cons p ps)
  then obtain b where b: "H p = Some b" by auto
  from Cons.prems have "set ps \<subseteq> dom (H(p := None))" by auto
  then have "foldM free_preblob (H(p := None)) ps = Some ((H(p := None)) |` (- set ps))"
    by (rule Cons.IH [rotated]) (use Cons.prems(1) in simp)
  moreover have "free_preblob H p = Some (H(p := None))" using b by (simp add: free_preblob_def)
  moreover have "(H(p := None)) |` (- set ps) = H |` (- set (p # ps))"
    by (auto simp: restrict_map_def fun_eq_iff)
  ultimately show ?case by simp
qed


text \<open>What \<open>ltr_int_stripes_to_blobs\<close> does to a state that satisfies the invariant, without a
  bitmap to draw into.\<close>

lemma to_blobs_ok:
  assumes inv: "img_inv s S P" and nb: "im_bitmap img = None"
    and n: "card (dom (pheap s)) < 2 ^ 32" and rm: "unat num \<le> length (blobs blt)"
  shows "\<exists>s' blt' bs. ltr_int_stripes_to_blobs s num blt mn mx img = Some (0, s', blt', img) \<and>
    pheap s' = Map.empty \<and> preblobs s' = None \<and> cur s' = [] \<and> nxt s' = [] \<and>
    current_vline s' = - 2 \<and> cap s' = cap s \<and> img_inv s' 0 0 \<and>
    sum_list (map pb_sum bs) = S \<and> sum_list (map pb_points bs) = P \<and>
    length bs = card (dom (pheap s)) \<and> (\<forall>b \<in> set bs. 0 \<le> pb_points b) \<and>
    (let el = filter (\<lambda>b. mn \<le> pb_points b \<and> pb_points b \<le> mx) bs in
       unat (num_blobs blt') = min (unat num) (length el) \<and>
       length (blobs blt') = length (blobs blt) \<and>
       take (unat (num_blobs blt')) (blobs blt') = map (blob_of img) (take (unat num) el))"
proof -
  have ok: "heap_ok s" "line_ok s" and t: "tot pb_sum (pheap s) = S" "tot pb_points (pheap s) = P"
    using inv by (auto simp: img_inv_def)
  obtain s1 where e: "store_preblobs s True = Some s1" and ok1: "heap_ok s1"
    and m: "mass (pheap s1) = mass (pheap s)" and fr: "cap s1 = cap s" and pl: "preblobs s1 \<noteq> None"
    and dd: "set (done_list s1) = dom (pheap s1)"
    using store_preblobs_ok [OF ok, of True] by auto
  obtain ps where ps: "preblobs s1 = Some ps" using pl by blast
  have dl: "done_list s1 = ps" by (simp add: done_list_def ps)
  have ds: "distinct ps" and dm: "set ps = dom (pheap s1)" using ok1 dd dl by (auto simp: heap_ok_def)
  have t1: "tot pb_sum (pheap s1) = S" "tot pb_points (pheap s1) = P" using tot_mass [OF m] t by auto
  have lc: "length ps = card (dom (pheap s))" using ds dm m by (metis distinct_card dom_mass)
  then have len: "length ps < 2 ^ 32" using n by simp
  let ?o = "\<lparr>bo_blt = blt, bo_img = img, bo_counter = 0, bo_valid = 0\<rparr>"
  let ?el = "eligible (pheap s1) mn mx ps"
  obtain o2 where o2: "foldM (blob_step (pheap s1) num mn mx) ?o ps = Some o2" "bo_img o2 = img"
    "bo_valid o2 = bo_counter o2" "unat (bo_counter o2) = length ?el"
    "length (blobs (bo_blt o2)) = length (blobs blt)"
    and o2a: "\<forall>i. i < min (unat num) (unat (bo_counter o2)) \<longrightarrow> blobs (bo_blt o2) ! i = blob_of img (?el ! i)"
    using blob_fold [of ps "pheap s1" ?o num mn mx] dm nb len rm by auto
  have fr2: "foldM free_preblob (pheap s1) ps = Some Map.empty"
    using free_fold [OF ds, of "pheap s1"] dm by (simp add: restrict_map_def fun_eq_iff) (auto simp: domIff)
  let ?n = "if bo_valid o2 > num then num else bo_valid o2"
  have n2: "unat ?n = min (unat num) (length ?el)"
    using o2(3,4) by (auto simp: word_less_nat_alt)
  let ?s' = "s1\<lparr>cur := [], nxt := [], current_vline := - 2, pheap := Map.empty, preblobs := None\<rparr>"
  let ?blt = "(bo_blt o2)\<lparr>num_blobs := ?n\<rparr>"
  have run: "ltr_int_stripes_to_blobs s num blt mn mx img = Some (0, ?s', ?blt, img)"
    unfolding ltr_int_stripes_to_blobs_def e Option.bind.simps Let_def
    using o2 fr2 by (simp add: ps)
  let ?bs = "map (the \<circ> pheap s1) ps"
  have sums: "sum_list (map pb_sum ?bs) = S" "sum_list (map pb_points ?bs) = P"
    using t1 ds dm unfolding tot_def by (simp_all add: sum_list_distinct_conv_sum_set)
  have pos: "\<forall>b \<in> set ?bs. 0 \<le> pb_points b" "length ?bs = card (dom (pheap s))"
    using ok1 dm lc by (auto simp: heap_ok_def)
  have el: "?el = filter (\<lambda>b. mn \<le> pb_points b \<and> pb_points b \<le> mx) ?bs" by (simp add: eligible_def)
  have tk: "take (unat ?n) (blobs (bo_blt o2)) = map (blob_of img) (take (unat num) ?el)"
  proof (rule nth_equalityI)
    show "length (take (unat ?n) (blobs (bo_blt o2))) = length (map (blob_of img) (take (unat num) ?el))"
      unfolding length_take length_map n2 o2(5) using rm by simp
  next
    fix i assume "i < length (take (unat ?n) (blobs (bo_blt o2)))"
    then have i: "i < min (unat num) (length ?el)" unfolding length_take n2 by simp
    then show "take (unat ?n) (blobs (bo_blt o2)) ! i = map (blob_of img) (take (unat num) ?el) ! i"
      using o2a o2(4) unfolding n2 by simp
  qed
  have inv': "img_inv ?s' 0 0"
    using ok1 by (simp add: img_inv_def heap_ok_def line_ok_def done_list_def tot_def)
  show ?thesis
    using run inv' sums pos fr n2 o2(5) tk unfolding el
    by (intro exI [of _ ?s'] exI [of _ ?blt] exI [of _ ?bs]) (simp add: Let_def)
qed

text \<open>Between two frames: nothing live, and room for \<open>n\<close> stripes on a line.\<close>

definition frame_start :: "imgst \<Rightarrow> nat \<Rightarrow> bool" where
  "frame_start s n \<longleftrightarrow> img_inv s 0 0 \<and> pheap s = Map.empty \<and> cap s = Some n \<and> cur s = [] \<and> nxt s = []"

lemma frame_start_init: "frame_start (ltr_int_prepare_for_processing img_init w h dbg) (nat (trunc_div w 2 + 1))"
  by (auto simp: frame_start_def img_inv_def heap_ok_def line_ok_def ltr_int_prepare_for_processing_def
      img_init_def done_list_def tot_def)


lemma frame_ok:
  assumes fs: "frame_start s n" and nb: "im_bitmap img = None" and rm: "room n (current_vline s) 0 ts"
    and S: "sum_of ts < 2 ^ 31" and P: "points_of ts < 2 ^ 31" and len: "length ts < 2 ^ 32"
    and num: "unat num \<le> length (blobs blt)"
  shows "\<exists>s1 s2 blt' bs. add_stripes s ts img = Some (s1, img) \<and>
    ltr_int_stripes_to_blobs s1 num blt mn mx img = Some (0, s2, blt', img) \<and>
    frame_start s2 n \<and> pheap s2 = Map.empty \<and> preblobs s2 = None \<and> current_vline s2 = - 2 \<and>
    sum_list (map pb_sum bs) = sum_of ts \<and> sum_list (map pb_points bs) = points_of ts \<and>
    length bs \<le> length ts \<and> (\<forall>b \<in> set bs. 0 \<le> pb_points b) \<and>
    (let el = filter (\<lambda>b. mn \<le> pb_points b \<and> pb_points b \<le> mx) bs in
       unat (num_blobs blt') = min (unat num) (length el) \<and>
       length (blobs blt') = length (blobs blt) \<and>
       take (unat (num_blobs blt')) (blobs blt') = map (blob_of img) (take (unat num) el))"
proof -
  have i: "img_inv s 0 0" "cap s = Some n" "nxt s = []" and e: "pheap s = Map.empty"
    using fs by (auto simp: frame_start_def)
  obtain s1 where s1: "add_stripes s ts img = Some (s1, img)" "img_inv s1 (sum_of ts) (points_of ts)"
    "cap s1 = Some n" "card (dom (pheap s1)) \<le> length ts"
    using add_stripes_ok [OF i(1) nb i(2), of ts] rm S P i(3) e by auto
  have "card (dom (pheap s1)) < 2 ^ 32" using s1(4) len by linarith
  from to_blobs_ok [OF s1(2) nb this num, of mn mx] obtain s2 blt' bs where
    "ltr_int_stripes_to_blobs s1 num blt mn mx img = Some (0, s2, blt', img)" "pheap s2 = Map.empty"
    "preblobs s2 = None" "cur s2 = []" "nxt s2 = []" "current_vline s2 = - 2" "cap s2 = Some n" "img_inv s2 0 0"
    "sum_list (map pb_sum bs) = sum_of ts" "sum_list (map pb_points bs) = points_of ts"
    "length bs = card (dom (pheap s1))" "\<forall>b \<in> set bs. 0 \<le> pb_points b"
    "let el = filter (\<lambda>b. mn \<le> pb_points b \<and> pb_points b \<le> mx) bs in
       unat (num_blobs blt') = min (unat num) (length el) \<and>
       length (blobs blt') = length (blobs blt) \<and>
       take (unat (num_blobs blt')) (blobs blt') = map (blob_of img) (take (unat num) el)"
    unfolding s1(3) by blast
  moreover from this(11) s1(4) have "length bs \<le> length ts" by linarith
  ultimately show ?thesis using s1(1) unfolding frame_start_def by blast
qed

lemma member_le_sum_list_int:
  fixes xs :: "int list"
  shows "\<forall>x \<in> set xs. 0 \<le> x \<Longrightarrow> x \<in> set xs \<Longrightarrow> x \<le> sum_list xs"
proof (induction xs)
  case (Cons y ys)
  then show ?case using sum_list_nonneg [of ys] by force
qed simp

lemma uint_u32_of_int: "0 \<le> i \<Longrightarrow> i < 2 ^ 32 \<Longrightarrow> uint (u32_of_int i) = i"
  unfolding u32_of_int_def by (simp add: uint_word_of_int_eq take_bit_int_eq_self)

text \<open>A concrete frame for the witnesses: three stripes, the last two on one line and both touching
  the first one.\<close>

definition demo_stripes :: "stripe_t list" where
  "demo_stripes = [\<lparr>vline = 0, hstart = 0, hstop = 2, st_sum_x = 0, st_sum = 30, st_points = 3\<rparr>,
     \<lparr>vline = 1, hstart = 0, hstop = 0, st_sum_x = 0, st_sum = 9, st_points = 1\<rparr>,
     \<lparr>vline = 1, hstart = 2, hstop = 2, st_sum_x = 0, st_sum = 8, st_points = 1\<rparr>]"

definition demo_img :: image_t where
  "demo_img = \<lparr>im_w = 4, im_h = 2, im_bitmap = None, im_ratio = Fin 1\<rparr>"

definition demo_blt :: bloblist_type where
  "demo_blt = \<lparr>num_blobs = 0, expected_blobs = 3, blobs = replicate 3 \<lparr>bl_x = Fin 0, bl_y = Fin 0, bl_score = 0\<rparr>\<rparr>"

lemma demo_start: "frame_start (ltr_int_prepare_for_processing img_init 4 2 DBG_OFF) 3"
  using frame_start_init [of 4 2 DBG_OFF] by (simp add: trunc_div_def)

lemma demo_facts:
  "im_bitmap demo_img = None" "room 3 (- 2) 0 demo_stripes" "sum_of demo_stripes = 47" "points_of demo_stripes = 5"
  "length demo_stripes = 3" "length (blobs demo_blt) = 3"
  "current_vline (ltr_int_prepare_for_processing img_init w h dbg) = - 2"
  by (simp_all add: demo_img_def demo_stripes_def demo_blt_def ltr_int_prepare_for_processing_def img_init_def)

text \<open>C2: From a state between frames, any sequence of stripes that leaves room on every line and whose
  weights fit an \<open>int\<close> is accepted without a dangling pointer, an overflow or an overrun, and turned
  into blobs; the state is then again one between frames with every preblob freed, so the next frame
  can follow. Without a size filter and with enough slots, the scores of the blobs add up to the
  number of points of the stripes: no stripe is lost or counted twice.\<close>

theorem frame_conserves_points:
  assumes "frame_start s n" and "im_bitmap img = None" and "room n (current_vline s) 0 ts"
    and "sum_of ts < 2 ^ 31" and "points_of ts < 2 ^ 31" and "length ts < 2 ^ 32"
    and "length ts \<le> unat num" and "unat num \<le> length (blobs blt)"
  shows "\<exists>s1 s2 blt'. add_stripes s ts img = Some (s1, img) \<and>
    ltr_int_stripes_to_blobs s1 num blt 0 (2 ^ 31 - 1) img = Some (0, s2, blt', img) \<and>
    frame_start s2 n \<and> pheap s2 = Map.empty \<and> current_vline s2 = - 2 \<and>
    sum_list (map (\<lambda>b. uint (bl_score b)) (take (unat (num_blobs blt')) (blobs blt'))) = points_of ts"
proof -
  obtain s1 s2 blt' bs where r: "add_stripes s ts img = Some (s1, img)"
    "ltr_int_stripes_to_blobs s1 num blt 0 (2 ^ 31 - 1) img = Some (0, s2, blt', img)"
    "frame_start s2 n" "pheap s2 = Map.empty" "current_vline s2 = - 2"
    and bs: "sum_list (map pb_points bs) = points_of ts" "length bs \<le> length ts" "\<forall>b \<in> set bs. 0 \<le> pb_points b"
    and bl: "let el = filter (\<lambda>b. 0 \<le> pb_points b \<and> pb_points b \<le> 2 ^ 31 - 1) bs in
       unat (num_blobs blt') = min (unat num) (length el) \<and> length (blobs blt') = length (blobs blt) \<and>
       take (unat (num_blobs blt')) (blobs blt') = map (blob_of img) (take (unat num) el)"
    using frame_ok [OF assms(1-6,8), of 0 "2 ^ 31 - 1"] by blast
  have small: "0 \<le> pb_points b \<and> pb_points b \<le> 2 ^ 31 - 1" if "b \<in> set bs" for b
    using member_le_sum_list_int [of "map pb_points bs" "pb_points b"] that bs(1,3) assms(5) by auto
  then have "filter (\<lambda>b. 0 \<le> pb_points b \<and> pb_points b \<le> 2 ^ 31 - 1) bs = bs" by (simp add: filter_id_conv)
  then have "take (unat (num_blobs blt')) (blobs blt') = map (blob_of img) bs"
  proof -
    have "length bs \<le> unat num" using bs(2) assms(7) by simp
    moreover have "take (unat (num_blobs blt')) (blobs blt') = map (blob_of img) (take (unat num)
        (filter (\<lambda>b. 0 \<le> pb_points b \<and> pb_points b \<le> 2 ^ 31 - 1) bs))"
      using bl unfolding Let_def by blast
    ultimately show ?thesis using \<open>filter _ bs = bs\<close> by (simp only: take_all)
  qed
  moreover have "map (\<lambda>b. uint (bl_score (blob_of img b))) bs = map pb_points bs"
  proof (rule map_cong [OF refl])
    fix b assume "b \<in> set bs"
    from small [OF this] have "0 \<le> pb_points b" "pb_points b < 2 ^ 32" by simp_all
    then show "uint (bl_score (blob_of img b)) = pb_points b" by (simp add: blob_of_def uint_u32_of_int)
  qed
  ultimately have "sum_list (map (\<lambda>b. uint (bl_score b)) (take (unat (num_blobs blt')) (blobs blt'))) = points_of ts"
    using bs(1) by (simp only: map_map comp_def)
  with r show ?thesis by blast
qed

theorem frame_conserves_points_witness:
  "\<exists>s1 s2 blt'. add_stripes (ltr_int_prepare_for_processing img_init 4 2 DBG_OFF) demo_stripes demo_img = Some (s1, demo_img) \<and>
    ltr_int_stripes_to_blobs s1 3 demo_blt 0 (2 ^ 31 - 1) demo_img = Some (0, s2, blt', demo_img) \<and>
    frame_start s2 3 \<and> pheap s2 = Map.empty \<and> current_vline s2 = - 2 \<and>
    sum_list (map (\<lambda>b. uint (bl_score b)) (take (unat (num_blobs blt')) (blobs blt'))) = 5"
  using frame_conserves_points [of "ltr_int_prepare_for_processing img_init 4 2 DBG_OFF" 3 demo_img demo_stripes 3 demo_blt]
    demo_start demo_facts by simp

text \<open>\<open>ltr_int_stripes_to_blobs\<close> returns at most the requested number of blobs, exactly as many as there
  are preblobs within the size limits when fewer were found, and every blob returned has a score
  within the limits.\<close>

theorem blobs_within_limits:
  assumes "frame_start s n" and "im_bitmap img = None" and "room n (current_vline s) 0 ts"
    and "sum_of ts < 2 ^ 31" and "points_of ts < 2 ^ 31" and "length ts < 2 ^ 32"
    and "unat num \<le> length (blobs blt)"
  shows "\<exists>s1 s2 blt'. add_stripes s ts img = Some (s1, img) \<and>
    ltr_int_stripes_to_blobs s1 num blt mn mx img = Some (0, s2, blt', img) \<and>
    unat (num_blobs blt') \<le> min (unat num) (length ts) \<and>
    (\<forall>b \<in> set (take (unat (num_blobs blt')) (blobs blt')). mn \<le> uint (bl_score b) \<and> uint (bl_score b) \<le> mx)"
proof -
  obtain s1 s2 blt' bs where r: "add_stripes s ts img = Some (s1, img)"
    "ltr_int_stripes_to_blobs s1 num blt mn mx img = Some (0, s2, blt', img)"
    and bs: "sum_list (map pb_points bs) = points_of ts" "length bs \<le> length ts" "\<forall>b \<in> set bs. 0 \<le> pb_points b"
    and bl: "let el = filter (\<lambda>b. mn \<le> pb_points b \<and> pb_points b \<le> mx) bs in
       unat (num_blobs blt') = min (unat num) (length el) \<and> length (blobs blt') = length (blobs blt) \<and>
       take (unat (num_blobs blt')) (blobs blt') = map (blob_of img) (take (unat num) el)"
    using frame_ok [OF assms, of mn mx] by blast
  let ?el = "filter (\<lambda>b. mn \<le> pb_points b \<and> pb_points b \<le> mx) bs"
  have u: "uint (bl_score (blob_of img b)) = pb_points b" if "b \<in> set bs" for b
  proof -
    have "pb_points b \<le> sum_list (map pb_points bs)"
      using member_le_sum_list_int [of "map pb_points bs" "pb_points b"] that bs(3) by auto
    then show ?thesis using that bs(1,3) assms(5) by (simp add: blob_of_def uint_u32_of_int)
  qed
  have tk: "take (unat (num_blobs blt')) (blobs blt') = map (blob_of img) (take (unat num) ?el)"
    and nb: "unat (num_blobs blt') = min (unat num) (length ?el)"
    using bl unfolding Let_def by blast+
  have "\<forall>b \<in> set (take (unat (num_blobs blt')) (blobs blt')). mn \<le> uint (bl_score b) \<and> uint (bl_score b) \<le> mx"
    unfolding tk by (auto dest!: in_set_takeD simp: u)
  moreover have "length ?el \<le> length ts" using bs(2) length_filter_le order.trans by blast
  ultimately show ?thesis using r nb by auto
qed

theorem blobs_within_limits_witness:
  "\<exists>s1 s2 blt'. add_stripes (ltr_int_prepare_for_processing img_init 4 2 DBG_OFF) demo_stripes demo_img = Some (s1, demo_img) \<and>
    ltr_int_stripes_to_blobs s1 3 demo_blt 4 10 demo_img = Some (0, s2, blt', demo_img) \<and>
    unat (num_blobs blt') \<le> 3 \<and>
    (\<forall>b \<in> set (take (unat (num_blobs blt')) (blobs blt')). 4 \<le> uint (bl_score b) \<and> uint (bl_score b) \<le> 10)"
  using blobs_within_limits [of "ltr_int_prepare_for_processing img_init 4 2 DBG_OFF" 3 demo_img demo_stripes 3 demo_blt 4 10]
    demo_start demo_facts by simp

subsection \<open>Bounds of the drawing routines\<close>

lemma flt_int_exact:
  assumes "\<bar>x\<bar> < 2 ^ 24"
  shows "div_ratio x (Fin 1) = Some x"
proof -
  have f: "flt_of_int b32 x = Fin (of_int x)" by (rule flt_of_int_b32 [OF assms])
  have "fdiv b32 (Fin (of_int x)) (Fin 1) = Fin (of_int x)"
    using f by (simp add: fdiv_def Let_def signed_zero_def flt_of_int_def)
  moreover have "- (2 ^ 31) \<le> x \<and> x \<le> 2 ^ 31 - 1" using assms by auto
  ultimately show ?thesis using f by (simp add: div_ratio_def flt_to_int_def flt_to_range_def)
qed

lemma put_pixels_iff:
  "0 \<le> i \<Longrightarrow> 0 \<le> d \<Longrightarrow>
   put_pixels bm i d n v \<noteq> None \<longleftrightarrow> n = 0 \<or> i + (int n - 1) * d < int (length bm)"
proof (induction n arbitrary: bm i)
  case 0
  then show ?case by simp
next
  case (Suc n)
  show ?case
  proof (cases "i < int (length bm)")
    case True
    then have w: "put_pixel bm i v = Some (bm[nat i := v])"
      using Suc.prems by (simp add: put_pixel_def wr_def)
    have "i + d + (int n - 1) * d = i + int n * d" by (simp add: algebra_simps)
    then show ?thesis using Suc.IH [of "i + d" "bm[nat i := v]"] Suc.prems w True by auto
  next
    case False
    then have "put_pixel bm i v = None" using Suc.prems by (simp add: put_pixel_def wr_def)
    moreover have "\<not> i + int n * d < int (length bm)" using False Suc.prems by (simp add: not_less add_increasing2)
    ultimately show ?thesis by simp
  qed
qed

lemma put_pixels_length: "put_pixels bm i d n v = Some bm' \<Longrightarrow> length bm' = length bm"
  by (induction n arbitrary: bm i) (auto simp: put_pixel_def wr_def bind_eq_Some_conv split: if_splits)

lemma clip_coord_range: "lo \<le> hi \<Longrightarrow> lo \<le> clip_coord c lo hi \<and> clip_coord c lo hi \<le> hi"
  by (auto simp: clip_coord_def Let_def)

lemma clip_coord_mono: "c \<le> d \<Longrightarrow> clip_coord c lo hi \<le> clip_coord d lo hi"
  by (auto simp: clip_coord_def Let_def)

lemma clip_coord_id: "lo \<le> c \<Longrightarrow> c \<le> hi \<Longrightarrow> clip_coord c lo hi = c"
  by (auto simp: clip_coord_def Let_def)

text \<open>Drawing a stripe at ratio 1 writes outside the bitmap exactly when the stripe reaches the
  right edge of the last line: the pixels written are one to the right of those meant.\<close>

theorem draw_stripe_in_bounds_iff:
  assumes "im_ratio img = Fin 1" and "im_bitmap img = Some bm" and "int (length bm) = im_w img * im_h img"
    and "0 < im_w img" and "0 < im_h img" and "0 \<le> x" and "0 \<le> y" and "x \<le> x_end" and "x_end < 2 ^ 24"
  shows "draw_stripe img x y x_end c \<noteq> None \<longleftrightarrow> \<not> (im_h img - 1 \<le> y \<and> im_w img - 1 \<le> x_end)"
proof -
  let ?w = "im_w img" and ?h = "im_h img"
  let ?x = "clip_coord x 0 (?w - 1)" and ?y = "clip_coord y 0 (?h - 1)" and ?e = "clip_coord x_end 0 (?w - 1)"
  have xr: "0 \<le> ?x" "?x \<le> ?e" "?e \<le> ?w - 1" "0 \<le> ?y" "?y \<le> ?h - 1"
    using clip_coord_range [of 0 "?w - 1"] clip_coord_range [of 0 "?h - 1"] clip_coord_mono [OF assms(8)] assms(4,5)
    by auto
  have pos: "0 \<le> ?y * ?w + ?x + 1" using xr assms(4) by simp
  have xa: "\<bar>x\<bar> < 2 ^ 24" and xe: "\<bar>x_end\<bar> < 2 ^ 24" using assms(6,8,9) by linarith+
  have "draw_stripe img x y x_end c \<noteq> None \<longleftrightarrow>
      put_pixels bm (?y * ?w + ?x + 1) 1 (nat (?e - ?x + 1)) c \<noteq> None"
    unfolding draw_stripe_def Let_def assms(1,2) flt_int_exact [OF xa] flt_int_exact [OF xe]
      Option.bind.simps
    by (cases "put_pixels bm (?y * ?w + ?x + 1) 1 (nat (?e - ?x + 1)) c") simp_all
  also have "\<dots> \<longleftrightarrow> ?y * ?w + ?e + 1 < ?w * ?h"
    using put_pixels_iff [OF pos, of 1 bm "nat (?e - ?x + 1)" c] xr assms(3) by auto
  also have "\<dots> \<longleftrightarrow> \<not> (?y = ?h - 1 \<and> ?e = ?w - 1)"
  proof (cases "?y = ?h - 1")
    case True
    then have "?y * ?w = (?h - 1) * ?w" by simp
    also have "\<dots> = ?w * ?h - ?w" by (simp add: algebra_simps)
    finally have "?y * ?w = ?w * ?h - ?w" .
    then show ?thesis using xr True by auto
  next
    case False
    then have "?y \<le> ?h - 2" using xr by simp
    then have "?y * ?w \<le> (?h - 2) * ?w" using assms(4) by (intro mult_right_mono) auto
    also have "\<dots> = ?w * ?h - 2 * ?w" by (simp add: algebra_simps)
    finally show ?thesis using xr False assms(4) by auto
  qed
  also have "\<dots> \<longleftrightarrow> \<not> (?h - 1 \<le> y \<and> ?w - 1 \<le> x_end)"
    using assms(4-8) by (auto simp: clip_coord_def Let_def)
  finally show ?thesis .
qed

theorem draw_stripe_in_bounds_iff_witness:
  "draw_stripe \<lparr>im_w = 2, im_h = 1, im_bitmap = Some [0, 0], im_ratio = Fin 1\<rparr> 0 0 1 7 = None"
  using draw_stripe_in_bounds_iff [of "\<lparr>im_w = 2, im_h = 1, im_bitmap = Some [0, 0], im_ratio = Fin 1\<rparr>" "[0, 0]" 0 0 1 7]
  by simp

text \<open>Drawing a cross never writes outside the bitmap, wherever its centre is and whatever its
  size, and keeps the bitmap's length.\<close>

theorem draw_cross_in_bounds:
  assumes "im_bitmap img = Some bm" and "int (length bm) = im_w img * im_h img"
    and "0 < im_w img" and "0 < im_h img"
  shows "\<exists>bm'. ltr_int_draw_cross img x y sz = Some (img\<lparr>im_bitmap := Some bm'\<rparr>) \<and> length bm' = length bm"
proof -
  let ?w = "im_w img" and ?h = "im_h img"
  let ?xm = "clip_coord (x - sz) 0 (?w - 1)" and ?xp = "clip_coord (x + sz) 0 (?w - 1)"
  let ?ym = "clip_coord (y - sz) 0 (?h - 1)" and ?yp = "clip_coord (y + sz) 0 (?h - 1)"
  let ?x = "clip_coord x 0 (?w - 1)" and ?y = "clip_coord y 0 (?h - 1)"
  have r: "0 \<le> ?xm" "?xm \<le> ?w - 1" "?xp \<le> ?w - 1" "0 \<le> ?ym" "?ym \<le> ?h - 1" "?yp \<le> ?h - 1"
    "0 \<le> ?x" "?x \<le> ?w - 1" "0 \<le> ?y" "?y \<le> ?h - 1"
    using clip_coord_range [of 0 "?w - 1"] clip_coord_range [of 0 "?h - 1"] assms(3,4) by auto
  have wy: "?w * ?y \<le> ?w * (?h - 1)" "?w * ?yp \<le> ?w * (?h - 1)" using r assms(3) by (auto intro: mult_left_mono)
  have p1: "0 \<le> ?w * ?y + ?xm" and p2: "0 \<le> ?w * ?ym + ?x" using r assms(3) by simp_all
  have len: "?w * (?h - 1) + ?w = int (length bm)" using assms(2) by (simp add: algebra_simps)
  let ?n1 = "nat (?xp - ?xm + 1)" and ?n2 = "nat (?yp - ?ym + 1)"
  have "put_pixels bm (?w * ?y + ?xm) 1 ?n1 0xFF \<noteq> None"
  proof -
    have "?w * ?y + ?xp < int (length bm)" using wy r len by linarith
    then show ?thesis using put_pixels_iff [OF p1, of 1 bm ?n1 "0xFF"] by auto
  qed
  then obtain b1 where b1: "put_pixels bm (?w * ?y + ?xm) 1 ?n1 0xFF = Some b1" by blast
  have l1: "length b1 = length bm" by (rule put_pixels_length [OF b1])
  have "?w * ?ym + ?x + (int ?n2 - 1) * ?w < int (length b1)" if "?ym \<le> ?yp"
  proof -
    have "?w * ?ym + ?x + (int ?n2 - 1) * ?w = ?w * ?yp + ?x" using that by (simp add: algebra_simps)
    then show ?thesis using wy r len l1 by linarith
  qed
  then have "put_pixels b1 (?w * ?ym + ?x) ?w ?n2 0xFF \<noteq> None"
    using put_pixels_iff [OF p2, of ?w b1 ?n2 "0xFF"] assms(3) by (cases "?ym \<le> ?yp") auto
  then obtain b2 where b2: "put_pixels b1 (?w * ?ym + ?x) ?w ?n2 0xFF = Some b2" by blast
  have l2: "length b2 = length bm" using put_pixels_length [OF b2] l1 by simp
  show ?thesis
  proof (cases "?xm \<le> ?xp \<or> ?ym \<le> ?yp")
    case True
    then have "ltr_int_draw_cross img x y sz = Some (img\<lparr>im_bitmap := Some b2\<rparr>)"
      unfolding ltr_int_draw_cross_def Let_def assms(1) by (simp add: b1 b2)
    then show ?thesis using l2 by blast
  next
    case False
    then have "ltr_int_draw_cross img x y sz = Some img" by (simp add: ltr_int_draw_cross_def Let_def)
    moreover have "img = img\<lparr>im_bitmap := Some bm\<rparr>" using assms(1) by simp
    ultimately show ?thesis by metis
  qed
qed

theorem draw_cross_in_bounds_witness:
  "\<exists>bm'. ltr_int_draw_cross \<lparr>im_w = 2, im_h = 2, im_bitmap = Some [0, 0, 0, 0], im_ratio = Fin 1\<rparr> 9 1 5 =
      Some \<lparr>im_w = 2, im_h = 2, im_bitmap = Some bm', im_ratio = Fin 1\<rparr> \<and>
    length bm' = length [0 :: u8, 0, 0, 0]"
  using draw_cross_in_bounds [of "\<lparr>im_w = 2, im_h = 2, im_bitmap = Some [0, 0, 0, 0], im_ratio = Fin 1\<rparr>" "[0, 0, 0, 0]" 9 1 5]
  by simp

end
