(* ===== verification/UsbIfc.thy ===== *)
theory UsbIfc
  imports Prelude
begin

text \<open>
  \<open>src/usb_ifc.h\<close>: the interface to the USB layer, which is loaded at run time and is a parameter
  here. Every call is appended to a history, and what the device and the operating system
  answer is a function of the history before the call (\<open>usb_env\<close>), so an environment can be
  any deterministic or adversarial device. A received packet overwrites the front of the
  global buffer \<open>ltr_int_packet\<close>; as the interface documents, it is no longer than the size
  asked for, and the number of bytes transferred is always set.

  The remaining fields of \<open>usb_env\<close> are the other outside services the TrackIR code uses: the
  resource directory, the gzip library reading the firmware (its content, and whether a read
  error follows it), \<open>realloc\<close>, the fifo to the SmartNav4 button listener and the request
  poll of the run loop.
\<close>

datatype dev_found = NOT_TIR | TIR2 | TIR3 | TIR4 | TIR5 | TIR5V2 | SMARTNAV3 | SMARTNAV4 | NOT_PERMITTED dev_found

text \<open>The numeric values of the enumeration, which the code compares; \<open>NOT_PERMITTED\<close> is a flag or-ed
  to the device.\<close>

fun dev_num :: "dev_found \<Rightarrow> nat" where
  "dev_num NOT_TIR = 0"
| "dev_num TIR2 = 1"
| "dev_num TIR3 = 2"
| "dev_num TIR4 = 3"
| "dev_num TIR5 = 4"
| "dev_num TIR5V2 = 5"
| "dev_num SMARTNAV3 = 6"
| "dev_num SMARTNAV4 = 7"
| "dev_num (NOT_PERMITTED d) = 16384 + dev_num d"

datatype usb_io =
    InitUsb
  | FindTir
  | PrepareDevice nat nat
  | Send int bytes
  | Recv int nat int
  | FinishUsb int
  | Usleep nat
  | OpenFifo string
  | FifoSend int bytes
  | CloseFd int
  | PollRequest

record usb_env =
  u_init :: "usb_io list \<Rightarrow> bool"
  u_find :: "usb_io list \<Rightarrow> dev_found"
  u_prepare :: "usb_io list \<Rightarrow> bool"
  u_send :: "usb_io list \<Rightarrow> int \<Rightarrow> bytes \<Rightarrow> bool"
  u_recv :: "usb_io list \<Rightarrow> int \<Rightarrow> nat \<Rightarrow> int \<Rightarrow> bool \<times> bytes"
  u_resource :: "string \<Rightarrow> string \<Rightarrow> string option"
  u_gzfile :: "string \<Rightarrow> (bytes \<times> bool) option"
  u_realloc :: "nat \<Rightarrow> bool"
  u_fifo :: "usb_io list \<Rightarrow> string \<Rightarrow> int"
  u_request :: "usb_io list \<Rightarrow> bool"

record usbst =
  hist :: "usb_io list"
  ltr_int_packet :: bytes

definition TIR_PACKET_SIZE :: nat where "TIR_PACKET_SIZE = 16384"

definition log_io :: "usb_io \<Rightarrow> 'a usbst_scheme \<Rightarrow> 'a usbst_scheme" where
  "log_io e s = s\<lparr>hist := hist s @ [e]\<rparr>"

definition ltr_int_init_usb :: "usb_env \<Rightarrow> 'a usbst_scheme \<Rightarrow> bool \<times> 'a usbst_scheme" where
  "ltr_int_init_usb E s = (u_init E (hist s), log_io InitUsb s)"

definition ltr_int_find_tir :: "usb_env \<Rightarrow> 'a usbst_scheme \<Rightarrow> dev_found \<times> 'a usbst_scheme" where
  "ltr_int_find_tir E s = (u_find E (hist s), log_io FindTir s)"

definition ltr_int_prepare_device :: "usb_env \<Rightarrow> nat \<Rightarrow> nat \<Rightarrow> 'a usbst_scheme \<Rightarrow> bool \<times> 'a usbst_scheme" where
  "ltr_int_prepare_device E c i s = (u_prepare E (hist s), log_io (PrepareDevice c i) s)"

definition ltr_int_send_data :: "usb_env \<Rightarrow> int \<Rightarrow> bytes \<Rightarrow> 'a usbst_scheme \<Rightarrow> bool \<times> 'a usbst_scheme" where
  "ltr_int_send_data E ep d s = (u_send E (hist s) ep d, log_io (Send ep d) s)"

definition ltr_int_receive_data ::
  "usb_env \<Rightarrow> int \<Rightarrow> int \<Rightarrow> 'a usbst_scheme \<Rightarrow> bool \<times> nat \<times> 'a usbst_scheme" where
  "ltr_int_receive_data E ep timeout s =
     (let n = length (ltr_int_packet s);
          (ok, d) = u_recv E (hist s) ep n timeout;
          d = take n d
      in (ok, length d, (log_io (Recv ep n timeout) s)\<lparr>ltr_int_packet := d @ drop (length d) (ltr_int_packet s)\<rparr>))"

definition ltr_int_finish_usb :: "int \<Rightarrow> 'a usbst_scheme \<Rightarrow> 'a usbst_scheme" where
  "ltr_int_finish_usb i s = log_io (FinishUsb i) s"

definition ltr_int_usleep :: "nat \<Rightarrow> 'a usbst_scheme \<Rightarrow> 'a usbst_scheme" where
  "ltr_int_usleep n s = log_io (Usleep n) s"

definition ltr_int_got_new_request :: "usb_env \<Rightarrow> 'a usbst_scheme \<Rightarrow> bool \<times> 'a usbst_scheme" where
  "ltr_int_got_new_request E s = (u_request E (hist s), log_io PollRequest s)"

text \<open>Sequencing of steps whose results are ignored.\<close>

definition ign :: "('s \<Rightarrow> 'r \<times> 's) \<Rightarrow> 's \<Rightarrow> 's" where
  "ign f s = snd (f s)"

definition when_do :: "bool \<Rightarrow> ('s \<Rightarrow> 's) \<Rightarrow> 's \<Rightarrow> 's" where
  "when_do b f s = (if b then f s else s)"

definition steps :: "('s \<Rightarrow> 's) list \<Rightarrow> 's \<Rightarrow> 's" where
  "steps fs s = fold (\<lambda>f s. f s) fs s"

lemma steps_simps [simp]: "steps [] s = s" "steps (f # fs) s = steps fs (f s)"
  by (simp_all add: steps_def)

lemma steps_append [simp]: "steps (fs @ gs) s = steps gs (steps fs s)"
  by (simp add: steps_def)

lemma steps_inv: "(\<And>f s. f \<in> set fs \<Longrightarrow> P s \<Longrightarrow> P (f s)) \<Longrightarrow> P s \<Longrightarrow> P (steps fs s)"
  by (induction fs arbitrary: s) auto

lemma log_io_simps [simp]:
  "hist (log_io e s) = hist s @ [e]" "ltr_int_packet (log_io e s) = ltr_int_packet s"
  "usbst.more (log_io e s) = usbst.more s"
  by (simp_all add: log_io_def)

lemma receive_packet_length [simp]:
  "length (ltr_int_packet (snd (snd (ltr_int_receive_data E ep t s)))) = length (ltr_int_packet s)"
  by (simp add: ltr_int_receive_data_def Let_def split: prod.split)

end
