(* ===== verification/TirPrefs.thy ===== *)
theory TirPrefs
  imports Prelude
begin

text \<open>
  \<open>src/tir_driver_prefs.c\<close>: the TrackIR preferences, cached in static variables (the record
  \<open>tirprefs\<close>) and written through to the preference file. The preference file itself
  (\<open>pref.cpp\<close>, \<open>pref_global.c\<close>) is the parameter \<open>pref_env\<close>: its state is of an arbitrary type
  \<open>'db\<close> and its operations are functions of that state.
\<close>

record 'db pref_env =
  pe_section :: "'db \<Rightarrow> string option"
  pe_get_key :: "'db \<Rightarrow> string \<Rightarrow> string \<Rightarrow> string option"
  pe_get_key_int :: "'db \<Rightarrow> string \<Rightarrow> string \<Rightarrow> int option"
  pe_change_key :: "'db \<Rightarrow> string option \<Rightarrow> string \<Rightarrow> string \<Rightarrow> bool \<times> 'db"
  pe_change_key_int :: "'db \<Rightarrow> string option \<Rightarrow> string \<Rightarrow> int \<Rightarrow> bool \<times> 'db"

record tirprefs =
  max_blob :: int
  min_blob :: int
  status_bright :: int
  ir_bright :: int
  threshold :: int
  status :: bool
  grayscale :: bool

definition tirprefs_init :: tirprefs where
  "tirprefs_init = \<lparr>max_blob = 0, min_blob = 0, status_bright = 0, ir_bright = 0, threshold = 0,
                    status = False, grayscale = False\<rparr>"

definition max_blob_key :: string where "max_blob_key = ''Max-blob''"
definition min_blob_key :: string where "min_blob_key = ''Min-blob''"
definition status_bright_key :: string where "status_bright_key = ''Status-led-brightness''"
definition ir_bright_key :: string where "ir_bright_key = ''Ir-led-brightness''"
definition threshold_key :: string where "threshold_key = ''Threshold''"
definition status_key :: string where "status_key = ''Status-signals''"
definition grayscale_key :: string where "grayscale_key = ''Grayscale''"

text \<open>\<open>strcasecmp(a, b) == 0\<close> on ASCII strings.\<close>

definition lower_char :: "char \<Rightarrow> char" where
  "lower_char c = (let n = (of_char c :: nat) in if 65 \<le> n \<and> n \<le> 90 then char_of (n + 32) else c)"

definition strcaseeq :: "string \<Rightarrow> string \<Rightarrow> bool" where
  "strcaseeq a b \<longleftrightarrow> map lower_char a = map lower_char b"

definition key_int_or :: "'db pref_env \<Rightarrow> 'db \<Rightarrow> string \<Rightarrow> string \<Rightarrow> int \<Rightarrow> int" where
  "key_int_or E db dev key dflt = (case pe_get_key_int E db dev key of Some v \<Rightarrow> v | None \<Rightarrow> dflt)"

definition ltr_int_tir_init_prefs :: "'db pref_env \<Rightarrow> 'db \<Rightarrow> tirprefs \<Rightarrow> bool \<times> tirprefs" where
  "ltr_int_tir_init_prefs E db p =
     (case pe_section E db of
        None \<Rightarrow> (False, p)
      | Some dev \<Rightarrow>
          (True, p\<lparr>max_blob := key_int_or E db dev max_blob_key 1024,
                   min_blob := key_int_or E db dev min_blob_key 4,
                   status_bright := key_int_or E db dev status_bright_key 0,
                   ir_bright := key_int_or E db dev ir_bright_key 7,
                   threshold := key_int_or E db dev threshold_key 140,
                   status := (case pe_get_key E db dev status_key of
                                Some t \<Rightarrow> strcaseeq t ''On'' | None \<Rightarrow> True),
                   grayscale := (case pe_get_key E db dev grayscale_key of
                                Some t \<Rightarrow> strcaseeq t ''Yes'' | None \<Rightarrow> False)\<rparr>))"

definition clamp_lo :: "int \<Rightarrow> int \<Rightarrow> int" where
  "clamp_lo lo v = (if v < lo then lo else v)"

definition clamp_hi :: "int \<Rightarrow> int \<Rightarrow> int" where
  "clamp_hi hi v = (if v > hi then hi else v)"

definition ltr_int_tir_get_max_blob :: "tirprefs \<Rightarrow> int" where
  "ltr_int_tir_get_max_blob p = max_blob p"

definition ltr_int_tir_set_max_blob ::
  "'db pref_env \<Rightarrow> 'db \<Rightarrow> tirprefs \<Rightarrow> int \<Rightarrow> bool \<times> 'db \<times> tirprefs" where
  "ltr_int_tir_set_max_blob E db p val =
     (let val = clamp_lo 0 val; p = p\<lparr>max_blob := val\<rparr>;
          (r, db) = pe_change_key_int E db (pe_section E db) max_blob_key val in (r, db, p))"

definition ltr_int_tir_get_min_blob :: "tirprefs \<Rightarrow> int" where
  "ltr_int_tir_get_min_blob p = min_blob p"

definition ltr_int_tir_set_min_blob ::
  "'db pref_env \<Rightarrow> 'db \<Rightarrow> tirprefs \<Rightarrow> int \<Rightarrow> bool \<times> 'db \<times> tirprefs" where
  "ltr_int_tir_set_min_blob E db p val =
     (let val = clamp_lo 0 val; p = p\<lparr>min_blob := val\<rparr>;
          (r, db) = pe_change_key_int E db (pe_section E db) min_blob_key val in (r, db, p))"

definition ltr_int_tir_get_status_brightness :: "tirprefs \<Rightarrow> int" where
  "ltr_int_tir_get_status_brightness p = status_bright p"

definition ltr_int_tir_set_status_brightness ::
  "'db pref_env \<Rightarrow> 'db \<Rightarrow> tirprefs \<Rightarrow> int \<Rightarrow> bool \<times> 'db \<times> tirprefs" where
  "ltr_int_tir_set_status_brightness E db p val =
     (let val = clamp_hi 3 (clamp_lo 0 val); p = p\<lparr>status_bright := val\<rparr>;
          (r, db) = pe_change_key_int E db (pe_section E db) status_bright_key val in (r, db, p))"

definition ltr_int_tir_get_ir_brightness :: "tirprefs \<Rightarrow> int" where
  "ltr_int_tir_get_ir_brightness p = ir_bright p"

definition ltr_int_tir_set_ir_brightness ::
  "'db pref_env \<Rightarrow> 'db \<Rightarrow> tirprefs \<Rightarrow> int \<Rightarrow> bool \<times> 'db \<times> tirprefs" where
  "ltr_int_tir_set_ir_brightness E db p val =
     (let val = clamp_hi 7 (clamp_lo 5 val); p = p\<lparr>ir_bright := val\<rparr>;
          (r, db) = pe_change_key_int E db (pe_section E db) ir_bright_key val in (r, db, p))"

definition ltr_int_tir_get_threshold :: "tirprefs \<Rightarrow> int" where
  "ltr_int_tir_get_threshold p = threshold p"

definition ltr_int_tir_set_threshold ::
  "'db pref_env \<Rightarrow> 'db \<Rightarrow> tirprefs \<Rightarrow> int \<Rightarrow> bool \<times> 'db \<times> tirprefs" where
  "ltr_int_tir_set_threshold E db p val =
     (let val = clamp_hi 253 (clamp_lo 30 val); p = p\<lparr>threshold := val\<rparr>;
          (r, db) = pe_change_key_int E db (pe_section E db) threshold_key val in (r, db, p))"

definition ltr_int_tir_get_status_indication :: "tirprefs \<Rightarrow> bool" where
  "ltr_int_tir_get_status_indication p = status p"

definition ltr_int_tir_set_status_indication ::
  "'db pref_env \<Rightarrow> 'db \<Rightarrow> tirprefs \<Rightarrow> bool \<Rightarrow> bool \<times> 'db \<times> tirprefs" where
  "ltr_int_tir_set_status_indication E db p ind =
     (let res = (if ind then ''On'' else ''Off''); p = p\<lparr>status := ind\<rparr>;
          (r, db) = pe_change_key E db (pe_section E db) status_key res in (r, db, p))"

definition ltr_int_tir_set_use_grayscale ::
  "'db pref_env \<Rightarrow> 'db \<Rightarrow> tirprefs \<Rightarrow> bool \<Rightarrow> bool \<times> 'db \<times> tirprefs" where
  "ltr_int_tir_set_use_grayscale E db p gs =
     (let res = (if gs then ''Yes'' else ''No''); p = p\<lparr>grayscale := gs\<rparr>;
          (r, db) = pe_change_key E db (pe_section E db) grayscale_key res in (r, db, p))"

definition ltr_int_tir_get_use_grayscale :: "tirprefs \<Rightarrow> bool" where
  "ltr_int_tir_get_use_grayscale p = grayscale p"


subsection \<open>Properties\<close>

text \<open>The ranges the setters enforce, and one call of any of the setters.\<close>

definition prefs_in_range :: "tirprefs \<Rightarrow> bool" where
  "prefs_in_range p \<longleftrightarrow> 0 \<le> max_blob p \<and> 0 \<le> min_blob p \<and> status_bright p \<in> {0..3} \<and>
     ir_bright p \<in> {5..7} \<and> threshold p \<in> {30..253}"

inductive pref_set :: "'db pref_env \<Rightarrow> 'db \<times> tirprefs \<Rightarrow> 'db \<times> tirprefs \<Rightarrow> bool" for E where
  max_blob: "ltr_int_tir_set_max_blob E db p v = (r, x) \<Longrightarrow> pref_set E (db, p) x"
| min_blob: "ltr_int_tir_set_min_blob E db p v = (r, x) \<Longrightarrow> pref_set E (db, p) x"
| status_brightness: "ltr_int_tir_set_status_brightness E db p v = (r, x) \<Longrightarrow> pref_set E (db, p) x"
| ir_brightness: "ltr_int_tir_set_ir_brightness E db p v = (r, x) \<Longrightarrow> pref_set E (db, p) x"
| threshold: "ltr_int_tir_set_threshold E db p v = (r, x) \<Longrightarrow> pref_set E (db, p) x"
| status_indication: "ltr_int_tir_set_status_indication E db p b = (r, x) \<Longrightarrow> pref_set E (db, p) x"
| use_grayscale: "ltr_int_tir_set_use_grayscale E db p b = (r, x) \<Longrightarrow> pref_set E (db, p) x"

lemmas tir_setter_defs = ltr_int_tir_set_max_blob_def ltr_int_tir_set_min_blob_def
  ltr_int_tir_set_status_brightness_def ltr_int_tir_set_ir_brightness_def ltr_int_tir_set_threshold_def
  ltr_int_tir_set_status_indication_def ltr_int_tir_set_use_grayscale_def

lemma clamp_range:
  "lo \<le> clamp_lo lo v" "lo \<le> hi \<Longrightarrow> clamp_hi hi (clamp_lo lo v) \<in> {lo..hi}"
  "v \<in> {lo..hi} \<Longrightarrow> clamp_hi hi (clamp_lo lo v) = v"
  by (auto simp: clamp_lo_def clamp_hi_def)

lemma pref_set_in_range: "pref_set E x y \<Longrightarrow> prefs_in_range (snd x) \<Longrightarrow> prefs_in_range (snd y)"
  by (induction rule: pref_set.induct)
    (auto simp: tir_setter_defs prefs_in_range_def clamp_lo_def clamp_hi_def Let_def split: prod.splits)

text \<open>Whatever values the setters of the TrackIR preferences are called with, and in whatever order, the
  cached preferences stay in the ranges the devices accept: blob limits not negative, status
  brightness 0 to 3, infrared brightness 5 to 7, threshold 30 to 253.\<close>

theorem setters_keep_ranges:
  assumes "(pref_set E)\<^sup>*\<^sup>* (db, p) (db', p')" and "prefs_in_range p"
  shows "prefs_in_range p'"
proof -
  have "prefs_in_range (snd y)" if "(pref_set E)\<^sup>*\<^sup>* x y" "prefs_in_range (snd x)" for x y
    using that by (induction rule: rtranclp_induct) (auto dest: pref_set_in_range)
  from this [OF assms(1)] assms(2) show ?thesis by simp
qed

definition empty_pref_env :: "(string \<times> string) list pref_env" where
  "empty_pref_env = \<lparr>pe_section = (\<lambda>_. Some ''TrackIR''), pe_get_key = (\<lambda>db _ k. map_of db k),
     pe_get_key_int = (\<lambda>_ _ _. None), pe_change_key = (\<lambda>db _ k v. (True, (k, v) # db)),
     pe_change_key_int = (\<lambda>db _ _ _. (True, db))\<rparr>"

theorem setters_keep_ranges_witness:
  "prefs_in_range (snd (snd (ltr_int_tir_set_threshold empty_pref_env []
     (snd (ltr_int_tir_init_prefs empty_pref_env [] tirprefs_init)) 1000)))"
proof -
  let ?p = "snd (ltr_int_tir_init_prefs empty_pref_env [] tirprefs_init)"
  have i: "prefs_in_range ?p"
    by (simp add: empty_pref_env_def ltr_int_tir_init_prefs_def key_int_or_def prefs_in_range_def)
  obtain db' p' r where x: "ltr_int_tir_set_threshold empty_pref_env [] ?p 1000 = (r, db', p')"
    by (cases "ltr_int_tir_set_threshold empty_pref_env [] ?p 1000")
  then have "(pref_set empty_pref_env)\<^sup>*\<^sup>* ([], ?p) (db', p')" by (intro r_into_rtranclp pref_set.threshold)
  from setters_keep_ranges [OF this i] x show ?thesis by simp
qed

text \<open>Loading the preferences does no clamping: a stored value outside the range is taken as it is.\<close>

lemma init_prefs_not_clamped:
  assumes "pe_section E db = Some dev" and "pe_get_key_int E db dev ir_bright_key = Some v"
  shows "ltr_int_tir_get_ir_brightness (snd (ltr_int_tir_init_prefs E db p)) = v"
  using assms by (simp add: ltr_int_tir_init_prefs_def key_int_or_def ltr_int_tir_get_ir_brightness_def)

end
