(* ===== verification/TirHw.thy ===== *)
theory TirHw
  imports UsbIfc TirPrefs CFloat
begin

text \<open>
  \<open>src/tir_hw.c\<close>: the protocol spoken to the TrackIR and SmartNav cameras. The static variables
  are the record \<open>hwst\<close>, which extends the USB state (\<open>UsbIfc\<close>) with the device found, its
  endpoints, its set of handlers (\<open>tir_iface\<close>) and the fifo to the button listener. The
  \<open>static\<close> prefs of \<open>tir_driver_prefs.c\<close> that the handlers read are an argument.

  A handler that only sends returns its result and the new state; one that can fail an assertion,
  or wait for ever for a device that never stops sending, returns an option. Log messages
  are left out.
\<close>

datatype tir_interface = tir2 | tir3 | tir4 | tir5 | smartnav4 | smartnav3

record hwst = usbst +
  ir_on :: bool
  hw_device :: dev_found
  tir_iface :: "tir_interface option"
  sn4_pipe :: int
  cfg_in_ep :: int
  ltr_int_data_in_ep :: int
  out_ep :: int

record tir_status_t =
  fw_loaded :: bool
  cfg_flag :: nat
  fw_cksum :: u32

record firmware_t =
  firmware :: bytes
  fw_sum :: u32

record tir_info =
  ti_width :: u32
  ti_height :: u32
  ti_hf :: cflt
  ti_dev_type :: dev_found

definition hwst_init :: hwst where
  "hwst_init = \<lparr>hist = [], ltr_int_packet = replicate TIR_PACKET_SIZE 0, ir_on = True, hw_device = NOT_TIR,
     tir_iface = None, sn4_pipe = - 1, cfg_in_ep = 0, ltr_int_data_in_ep = 0, out_ep = 0\<rparr>"

subsection \<open>Constants\<close>

definition TIR_LED_RED :: u8 where "TIR_LED_RED = 0x10"
definition TIR_LED_GREEN :: u8 where "TIR_LED_GREEN = 0x20"
definition TIR_LED_BLUE :: u8 where "TIR_LED_BLUE = 0x40"
definition TIR_LED_IR :: u8 where "TIR_LED_IR = 0x80"

definition TIR_CONFIGURATION :: nat where "TIR_CONFIGURATION = 1"
definition TIR_INTERFACE :: nat where "TIR_INTERFACE = 0"
definition TIR_OUT_EP :: int where "TIR_OUT_EP = 0x01"
definition TIR3_OUT_EP :: int where "TIR3_OUT_EP = 0x02"
definition TIR_IN_EP :: int where "TIR_IN_EP = 0x82"
definition SN4_OUT_EP :: int where "SN4_OUT_EP = 0x02"
definition SN4_DATA_EP :: int where "SN4_DATA_EP = 0x86"
definition SN4_CFG_EP :: int where "SN4_CFG_EP = 0x84"
definition FW_SIZE_INCREMENT :: nat where "FW_SIZE_INCREMENT = 50000"

definition Video_off :: bytes where "Video_off = [0x14, 0x01]"
definition Video_on :: bytes where "Video_on = [0x14, 0x00]"
definition Fifo_flush :: bytes where "Fifo_flush = [0x12]"
definition Camera_stop :: bytes where "Camera_stop = [0x13]"
definition Fpga_init :: bytes where "Fpga_init = [0x1b]"
definition Cfg_reload :: bytes where "Cfg_reload = [0x20]"
definition Get_status :: bytes where "Get_status = [0x1d]"
definition Get_conf :: bytes where "Get_conf = [0x17]"
definition Precision_mode :: bytes where "Precision_mode = [0x19, 0x03, 0x10, 0x00, 0x05]"
definition Set_ir_brightness :: bytes where "Set_ir_brightness = [0x10, 0x00, 0x02, 0x00, 0xA0]"
definition SN4_normal_mode :: bytes where "SN4_normal_mode = [0x19, 0x03, 0x0F, 0x00, 0x00]"
definition SN4_grayscale_mode :: bytes where "SN4_grayscale_mode = [0x19, 0x03, 0x0F, 0x00, 0x04]"
definition unk_1 :: bytes where "unk_1 = [0x17, 0x01]"
definition unk_2 :: bytes where "unk_2 = [0x12, 0x01]"
definition unk_3 :: bytes where "unk_3 = [0x13, 0x01]"
definition unk_4 :: bytes where "unk_4 = [0x19, 0x15, 0x10, 0x40, 0x00]"
definition unk_5 :: bytes where "unk_5 = [0x23, 0x40, 0x1c, 0x5e, 0x00, 0x00]"
definition unk_6 :: bytes where "unk_6 = [0x23, 0x40, 0x1d, 0x01, 0x00, 0x00]"
definition unk_7 :: bytes where "unk_7 = [0x19, 0x05, 0x10, 0x10, 0x00]"
definition unk_8 :: bytes where "unk_8 = [0x19, 0x03, 0x03, 0x00, 0x00]"
definition unk_9 :: bytes where "unk_9 = [0x19, 0x04, 0x0F, 0x00, 0x0F]"
definition unk_a :: bytes where "unk_a = [0x19, 0x14, 0x10, 0x00, 0x01]"
definition unk_b :: bytes where "unk_b = [0x23, 0x90, 0x0B, 0x00, 0x01, 0x3C]"
definition unk_c :: bytes where "unk_c = [0x23, 0x90, 0xF0, 0x32, 0x01, 0x3C]"
definition unk_d :: bytes where "unk_d = [0x19, 0x14, 0x10, 0x00, 0x00]"
definition unk_e :: bytes where "unk_e = [0x1F, 0x20]"

definition sn4_pipe_name :: string where "sn4_pipe_name = ''ltr_sn4.pipe''"

text \<open>Sending to the device's output endpoint; \<open>tell\<close> ignores the result.\<close>

definition send_out :: "usb_env \<Rightarrow> bytes \<Rightarrow> 'a hwst_scheme \<Rightarrow> bool \<times> 'a hwst_scheme" where
  "send_out E d s = ltr_int_send_data E (out_ep s) d s"

definition tell :: "usb_env \<Rightarrow> bytes \<Rightarrow> 'a hwst_scheme \<Rightarrow> 'a hwst_scheme" where
  "tell E d = ign (send_out E d)"

definition hear :: "usb_env \<Rightarrow> int \<Rightarrow> 'a hwst_scheme \<Rightarrow> bool \<times> nat \<times> 'a hwst_scheme" where
  "hear E timeout s = ltr_int_receive_data E (cfg_in_ep s) timeout s"

definition hear_ign :: "usb_env \<Rightarrow> int \<Rightarrow> 'a hwst_scheme \<Rightarrow> 'a hwst_scheme" where
  "hear_ign E timeout s = snd (snd (hear E timeout s))"

subsection \<open>The fifo to the SmartNav4 button listener\<close>

definition ltr_int_open_sn4_pipe :: "usb_env \<Rightarrow> 'a hwst_scheme \<Rightarrow> bool \<times> 'a hwst_scheme" where
  "ltr_int_open_sn4_pipe E s =
     (if sn4_pipe s > 0 then (True, s)
      else (let fd = u_fifo E (hist s) sn4_pipe_name;
                s = (log_io (OpenFifo sn4_pipe_name) s)\<lparr>sn4_pipe := fd\<rparr>
            in (sn4_pipe s > 0, s)))"

definition ltr_int_send_sn4_data :: "usb_env \<Rightarrow> bytes \<Rightarrow> 'a hwst_scheme \<Rightarrow> 'a hwst_scheme" where
  "ltr_int_send_sn4_data E data s =
     (let s = (if sn4_pipe s \<le> 0 then snd (ltr_int_open_sn4_pipe E s) else s)
      in if sn4_pipe s \<le> 0 then s else log_io (FifoSend (sn4_pipe s) data) s)"

definition ltr_int_close_sn4_pipe :: "'a hwst_scheme \<Rightarrow> 'a hwst_scheme" where
  "ltr_int_close_sn4_pipe s =
     (if sn4_pipe s \<le> 0 then s else (log_io (CloseFd (sn4_pipe s)) s)\<lparr>sn4_pipe := - 1\<rparr>)"

subsection \<open>Firmware, status and configuration\<close>

definition cksum_byte :: "u32 \<Rightarrow> u8 \<Rightarrow> u32" where
  "cksum_byte cksum b = (let byte = u32_of_u8 b; cksum = cksum + byte; byte = push_bit 4 byte in cksum XOR byte)"

definition cksum_firmware :: "bytes \<Rightarrow> u32" where
  "cksum_firmware fw = foldl cksum_byte 0 fw AND 0xffff"

text \<open>The loop of \<open>read_status_tir\<close>, \<open>n\<close> attempts left; the result \<open>None\<close> is the inner \<open>return false\<close>.\<close>

fun request_status :: "usb_env \<Rightarrow> nat \<Rightarrow> 'a hwst_scheme \<Rightarrow> bool \<times> 'a hwst_scheme" where
  "request_status E 0 s = (True, s)"
| "request_status E (Suc n) s =
     (let (ok, s) = send_out E Get_status s in
      if \<not> ok then (False, s)
      else (let (ok, t, s) = hear E 1000 s in
        if \<not> ok then (False, s)
        else if t > 2 \<and> rd (ltr_int_packet s) 0 = Some 0x07 \<and> rd (ltr_int_packet s) 1 = Some 0x20 then (True, s)
        else request_status E n (ltr_int_usleep 10000 s)))"

definition read_status_tir ::
  "usb_env \<Rightarrow> tir_status_t \<Rightarrow> 'a hwst_scheme \<Rightarrow> (bool \<times> tir_status_t \<times> 'a hwst_scheme) option" where
  "read_status_tir E st s =
     (let (ok, s) = request_status E 20 s in
      if \<not> ok then Some (False, st, s)
      else do {
        p3 \<leftarrow> rd (ltr_int_packet s) 3;
        p4 \<leftarrow> rd (ltr_int_packet s) 4;
        p5 \<leftarrow> rd (ltr_int_packet s) 5;
        p6 \<leftarrow> rd (ltr_int_packet s) 6;
        Some (True, \<lparr>fw_loaded = (p3 = 1), cfg_flag = unat p6,
                     fw_cksum = push_bit 8 (u32_of_u8 p4) + u32_of_u8 p5\<rparr>, s)
      })"

fun wait_rom_tir3 :: "usb_env \<Rightarrow> nat \<Rightarrow> 'a hwst_scheme \<Rightarrow> bool \<times> 'a hwst_scheme" where
  "wait_rom_tir3 E 0 s = (True, s)"
| "wait_rom_tir3 E (Suc n) s =
     (let (ok, t, s) = hear E 1000 s in
      if \<not> ok then (False, s)
      else if rd (ltr_int_packet s) 0 = Some 0x09 \<and> rd (ltr_int_packet s) 1 = Some 0x40 then (True, s)
      else wait_rom_tir3 E n (ltr_int_usleep 10000 s))"

definition read_rom_data_tir3 :: "usb_env \<Rightarrow> 'a hwst_scheme \<Rightarrow> bool \<times> 'a hwst_scheme" where
  "read_rom_data_tir3 E s =
     (let (ok, s) = send_out E unk_1 s in
      if \<not> ok then (False, s) else wait_rom_tir3 E 20 (ltr_int_usleep 6000 s))"

text \<open>The idiom \<open>do receive while(t > 0)\<close>: reads until nothing arrives, for ever if the device never
  falls silent.\<close>

partial_function (option) flush_packets :: "usb_env \<Rightarrow> 'a hwst_scheme \<Rightarrow> 'a hwst_scheme option" where
  "flush_packets E s =
     (let (ok, t, s) = hear E 100 s in if t > 0 then flush_packets E s else Some s)"

fun request_conf :: "usb_env \<Rightarrow> nat \<Rightarrow> 'a hwst_scheme \<Rightarrow> bool \<times> 'a hwst_scheme" where
  "request_conf E 0 s = (True, s)"
| "request_conf E (Suc n) s =
     (let (ok, s) = send_out E Get_conf s in
      if \<not> ok then (False, s)
      else (let (ok, t, s) = hear E 500 s in
        if \<not> ok then (False, s)
        else if t > 2 \<and> rd (ltr_int_packet s) 1 = Some 0x40 then (True, s)
        else request_conf E n (ltr_int_usleep 10000 s)))"

definition read_rom_data_tir :: "usb_env \<Rightarrow> 'a hwst_scheme \<Rightarrow> (bool \<times> 'a hwst_scheme) option" where
  "read_rom_data_tir E s = do {
     s \<leftarrow> flush_packets E s;
     Some (request_conf E 10 s)
   }"

definition ltr_int_find_firmware :: "usb_env \<Rightarrow> dev_found \<Rightarrow> string option" where
  "ltr_int_find_firmware E dev =
     (case dev of
        TIR4 \<Rightarrow> u_resource E ''tir_firmware'' ''tir4.fw.gz''
      | TIR5 \<Rightarrow> u_resource E ''tir_firmware'' ''tir5.fw.gz''
      | TIR5V2 \<Rightarrow> u_resource E ''tir_firmware'' ''tir5v2.fw.gz''
      | SMARTNAV4 \<Rightarrow> u_resource E ''tir_firmware'' ''sn4.fw.gz''
      | _ \<Rightarrow> None)"

text \<open>The reading loop of \<open>load_firmware\<close>: \<open>rest\<close> is what the gzip stream still holds, \<open>err\<close> whether a
  read error follows it, \<open>buf\<close> what has been read, \<open>tsize\<close> the size of the buffer. A failing
  \<open>gzread\<close> returns -1, which the code stores in an unsigned variable and adds to the size: the
  next pointer is far outside the buffer, so this has no result. The inner \<open>None\<close> is the failed
  \<open>realloc\<close>.\<close>

function gz_loop :: "usb_env \<Rightarrow> bytes \<Rightarrow> bool \<Rightarrow> bytes \<Rightarrow> nat \<Rightarrow> bytes option option" where
  "gz_loop E rest err buf tsize =
     (if length rest < FW_SIZE_INCREMENT then (if err then None else Some (Some (buf @ rest)))
      else if u_realloc E (tsize + FW_SIZE_INCREMENT)
      then gz_loop E (drop FW_SIZE_INCREMENT rest) err (buf @ take FW_SIZE_INCREMENT rest) (tsize + FW_SIZE_INCREMENT)
      else Some None)"
  by pat_completeness auto
termination
  by (relation "measure (\<lambda>(E, rest, err, buf, tsize). length rest)") (auto simp: FW_SIZE_INCREMENT_def)

text \<open>\<open>Some None\<close> is the \<open>return false\<close>. A \<open>NULL\<close> path would be handed to \<open>gzopen\<close>.\<close>

definition load_firmware :: "usb_env \<Rightarrow> 'a hwst_scheme \<Rightarrow> firmware_t option option" where
  "load_firmware E s = do {
     path \<leftarrow> ltr_int_find_firmware E (hw_device s);
     (case u_gzfile E path of
        None \<Rightarrow> Some None
      | Some (content, err) \<Rightarrow> do {
          r \<leftarrow> gz_loop E content err [] FW_SIZE_INCREMENT;
          Some (map_option (\<lambda>fw. \<lparr>firmware = fw, fw_sum = cksum_firmware fw\<rparr>) r)
        })
   }"

function upload_chunks :: "usb_env \<Rightarrow> bytes \<Rightarrow> 'a hwst_scheme \<Rightarrow> bool \<times> 'a hwst_scheme" where
  "upload_chunks E fw s =
     (if fw = [] then (True, s)
      else (let len = (if length fw > 60 then 60 else length fw);
                (ok, s) = send_out E ([0x1c, of_nat len] @ take len fw) s
            in if \<not> ok then (False, s) else upload_chunks E (drop len fw) s))"
  by pat_completeness auto
termination
  by (relation "measure (\<lambda>(E, fw, s). length fw)") auto

definition upload_firmware :: "usb_env \<Rightarrow> firmware_t \<Rightarrow> 'a hwst_scheme \<Rightarrow> bool \<times> 'a hwst_scheme" where
  "upload_firmware E fw s =
     (let (ok, s) = send_out E Fpga_init s in
      if \<not> ok then (False, s) else upload_chunks E (firmware fw) s)"

subsection \<open>LEDs, threshold and exposure\<close>

definition wiggle_leds_tir :: "usb_env \<Rightarrow> u8 \<Rightarrow> u8 \<Rightarrow> 'a hwst_scheme \<Rightarrow> bool \<times> 'a hwst_scheme" where
  "wiggle_leds_tir E leds msk s =
     (let (ok, s) = send_out E [0x10, leds, msk] s in
      if \<not> ok then (False, s) else (True, ltr_int_usleep 2000 s))"

definition turn_led_off_tir :: "usb_env \<Rightarrow> u8 \<Rightarrow> 'a hwst_scheme \<Rightarrow> bool \<times> 'a hwst_scheme" where
  "turn_led_off_tir E leds s = (let leds = leds AND 0xf0 in wiggle_leds_tir E 0 leds s)"

definition turn_led_on_tir :: "usb_env \<Rightarrow> u8 \<Rightarrow> 'a hwst_scheme \<Rightarrow> bool \<times> 'a hwst_scheme" where
  "turn_led_on_tir E leds s = (let leds = leds AND 0xf0 in wiggle_leds_tir E leds leds s)"

definition led_off :: "usb_env \<Rightarrow> u8 \<Rightarrow> 'a hwst_scheme \<Rightarrow> 'a hwst_scheme" where
  "led_off E l = ign (turn_led_off_tir E l)"

definition led_on :: "usb_env \<Rightarrow> u8 \<Rightarrow> 'a hwst_scheme \<Rightarrow> 'a hwst_scheme" where
  "led_on E l = ign (turn_led_on_tir E l)"

definition flush_fifo_tir :: "usb_env \<Rightarrow> 'a hwst_scheme \<Rightarrow> bool \<times> 'a hwst_scheme" where
  "flush_fifo_tir E s =
     (let s = (if hw_device s = TIR5 \<or> hw_device s = TIR5V2 then ltr_int_usleep 100000 s else s)
      in send_out E Fifo_flush s)"

definition ltr_int_set_threshold_tir :: "usb_env \<Rightarrow> u32 \<Rightarrow> 'a hwst_scheme \<Rightarrow> bool \<times> 'a hwst_scheme" where
  "ltr_int_set_threshold_tir E val s =
     (let val = (if val > 253 then 253 else val);
          (val, n) = (if dev_num (hw_device s) > dev_num TIR2
                      then (if val < 30 then 30 else val, 4)
                      else (if val < 40 then 40 else val, 4 - 1))
      in send_out E (take n [0x15, u8_of_u32 val, 0x01, 0x00]) s)"

definition switch_green :: "usb_env \<Rightarrow> bool \<Rightarrow> 'a hwst_scheme \<Rightarrow> 'a hwst_scheme" where
  "switch_green E state = (if state then led_on E TIR_LED_GREEN else led_off E TIR_LED_GREEN)"

definition switch_blue :: "usb_env \<Rightarrow> bool \<Rightarrow> 'a hwst_scheme \<Rightarrow> 'a hwst_scheme" where
  "switch_blue E state = (if state then led_on E TIR_LED_BLUE else led_off E TIR_LED_BLUE)"

definition switch_red :: "usb_env \<Rightarrow> bool \<Rightarrow> 'a hwst_scheme \<Rightarrow> 'a hwst_scheme" where
  "switch_red E state = (if state then led_on E TIR_LED_RED else led_off E TIR_LED_RED)"

definition set_status_led_tir5 :: "usb_env \<Rightarrow> tirprefs \<Rightarrow> bool \<Rightarrow> 'a hwst_scheme \<Rightarrow> bool \<times> 'a hwst_scheme" where
  "set_status_led_tir5 E P running s =
     send_out E [0x19, 0x04, 0x10, word_of_int (ltr_int_tir_get_status_brightness P),
                 if running then 0x22 else 0x33] s"

definition set_status_led_tir4 :: "usb_env \<Rightarrow> bool \<Rightarrow> 'a hwst_scheme \<Rightarrow> bool \<times> 'a hwst_scheme" where
  "set_status_led_tir4 E running s =
     (True, if running then steps [switch_red E False, switch_green E True] s
            else steps [switch_green E False, switch_red E True] s)"

definition set_status_led_sn4 :: "usb_env \<Rightarrow> bool \<Rightarrow> 'a hwst_scheme \<Rightarrow> bool \<times> 'a hwst_scheme" where
  "set_status_led_sn4 E running s =
     (True, if running then steps [switch_red E False, switch_green E True] s
            else steps [switch_green E False, switch_red E True] s)"

definition set_status_led_sn3 :: "usb_env \<Rightarrow> bool \<Rightarrow> 'a hwst_scheme \<Rightarrow> bool \<times> 'a hwst_scheme" where
  "set_status_led_sn3 E running s =
     (True, if running then switch_green E True s else switch_green E False s)"

definition set_status_led_tir ::
  "usb_env \<Rightarrow> tirprefs \<Rightarrow> bool \<Rightarrow> 'a hwst_scheme \<Rightarrow> (bool \<times> 'a hwst_scheme) option" where
  "set_status_led_tir E P running s = do {
     i \<leftarrow> tir_iface s;
     if ltr_int_tir_get_status_indication P then
       Some (case i of
          tir5 \<Rightarrow> set_status_led_tir5 E P running s
        | smartnav4 \<Rightarrow> set_status_led_sn4 E running s
        | smartnav3 \<Rightarrow> set_status_led_sn3 E running s
        | _ \<Rightarrow> set_status_led_tir4 E running s)
     else Some (True, s)
   }"

definition control_status_led_tir ::
  "usb_env \<Rightarrow> tirprefs \<Rightarrow> bool \<Rightarrow> bool \<Rightarrow> 'a hwst_scheme \<Rightarrow> bool \<times> 'a hwst_scheme" where
  "control_status_led_tir E P status1 status2 s =
     send_out E [0x19, 0x04, 0x10, word_of_int (ltr_int_tir_get_status_brightness P),
                 (if status1 then 0x20 else 0) OR (if status2 then 0x02 else 0)] s"

definition turn_off_status_led_tir5 :: "usb_env \<Rightarrow> 'a hwst_scheme \<Rightarrow> bool \<times> 'a hwst_scheme" where
  "turn_off_status_led_tir5 E s = send_out E [0x19, 0x04, 0x10, 0x00, 0x00] s"

definition control_ir_led_tir :: "usb_env \<Rightarrow> tirprefs \<Rightarrow> bool \<Rightarrow> 'a hwst_scheme \<Rightarrow> bool \<times> 'a hwst_scheme" where
  "control_ir_led_tir E P ir s =
     send_out E [0x19, 0x09, 0x10, if ir then word_of_int (ltr_int_tir_get_ir_brightness P) else 0,
                 if ir then 0x01 else 0] s"

definition set_exposure :: "usb_env \<Rightarrow> u32 \<Rightarrow> 'a hwst_scheme \<Rightarrow> bool \<times> 'a hwst_scheme" where
  "set_exposure E expo s =
     (let (ok, s) = send_out E [0x23, 0x42, 0x08, u8_of_u32 (drop_bit 8 expo), 0x00, 0x00] s in
      if \<not> ok then (False, s)
      else send_out E [0x23, 0x42, 0x10, u8_of_u32 (expo AND 0xFF), 0x00, 0x00] s)"

subsection \<open>Stopping and starting the cameras\<close>

definition stop_camera_tir2 :: "usb_env \<Rightarrow> 'a hwst_scheme \<Rightarrow> bool \<times> 'a hwst_scheme" where
  "stop_camera_tir2 E s = (True, steps [
     led_off E TIR_LED_RED, ltr_int_usleep 70000,
     led_off E TIR_LED_GREEN, ltr_int_usleep 70000,
     led_off E TIR_LED_BLUE, ltr_int_usleep 70000,
     led_off E TIR_LED_IR, ltr_int_usleep 70000,
     tell E Camera_stop, ltr_int_usleep 70000,
     led_off E TIR_LED_IR] s)"

definition stop_camera_tir3 :: "usb_env \<Rightarrow> 'a hwst_scheme \<Rightarrow> bool \<times> 'a hwst_scheme" where
  "stop_camera_tir3 E s = (True, steps [
     tell E Video_off, ltr_int_usleep 2000,
     tell E Video_off, ltr_int_usleep 2000,
     led_off E TIR_LED_IR, ltr_int_usleep 2000,
     ign (flush_fifo_tir E), ltr_int_usleep 2000,
     tell E Camera_stop, ltr_int_usleep 2000,
     led_off E TIR_LED_RED, ltr_int_usleep 2000,
     led_off E TIR_LED_GREEN, ltr_int_usleep 2000,
     led_off E TIR_LED_BLUE, ltr_int_usleep 50000] s)"

definition stop_camera_tir4 :: "usb_env \<Rightarrow> 'a hwst_scheme \<Rightarrow> bool \<times> 'a hwst_scheme" where
  "stop_camera_tir4 E s = (True, steps [
     tell E Video_off,
     ign (flush_fifo_tir E),
     led_off E TIR_LED_IR,
     led_off E TIR_LED_RED,
     led_off E TIR_LED_GREEN,
     led_off E TIR_LED_BLUE,
     tell E Camera_stop,
     ltr_int_usleep 50000] s)"

definition stop_camera_tir5 :: "usb_env \<Rightarrow> tirprefs \<Rightarrow> 'a hwst_scheme \<Rightarrow> bool \<times> 'a hwst_scheme" where
  "stop_camera_tir5 E P s = (True, steps [
     ign (turn_off_status_led_tir5 E),
     ign (control_ir_led_tir E P False), ltr_int_usleep 50000,
     tell E Video_off, ltr_int_usleep 50000,
     tell E Video_off, ltr_int_usleep 50000,
     tell E Video_off, ltr_int_usleep 50000,
     tell E Video_off, ltr_int_usleep 50000,
     tell E Video_off, ltr_int_usleep 50000,
     tell E unk_2,
     tell E unk_3,
     tell E Video_off, ltr_int_usleep 50000,
     tell E Video_off, ltr_int_usleep 50000,
     tell E Video_off, ltr_int_usleep 50000,
     tell E Video_off, ltr_int_usleep 50000,
     tell E Video_off, ltr_int_usleep 50000,
     ign (flush_fifo_tir E),
     tell E Camera_stop,
     ign (turn_off_status_led_tir5 E), ltr_int_usleep 50000,
     ign (turn_off_status_led_tir5 E),
     ign (control_ir_led_tir E P False),
     led_off E TIR_LED_IR] s)"

definition stop_camera_sn4 :: "usb_env \<Rightarrow> 'a hwst_scheme \<Rightarrow> bool \<times> 'a hwst_scheme" where
  "stop_camera_sn4 E s = (True, steps [
     tell E Video_off,
     led_off E TIR_LED_IR,
     led_off E TIR_LED_RED,
     led_off E TIR_LED_GREEN,
     led_off E TIR_LED_BLUE,
     tell E Camera_stop,
     ltr_int_usleep 50000] s)"

definition stop_camera_sn3 :: "usb_env \<Rightarrow> 'a hwst_scheme \<Rightarrow> bool \<times> 'a hwst_scheme" where
  "stop_camera_sn3 E s = (True, steps [
     tell E Video_off,
     tell E Fifo_flush,
     led_off E TIR_LED_GREEN,
     led_off E TIR_LED_IR,
     led_off E TIR_LED_RED,
     led_off E TIR_LED_BLUE,
     tell E Camera_stop] s)"

definition stop_camera_tir :: "usb_env \<Rightarrow> tirprefs \<Rightarrow> 'a hwst_scheme \<Rightarrow> (bool \<times> 'a hwst_scheme) option" where
  "stop_camera_tir E P s = do {
     i \<leftarrow> tir_iface s;
     Some (case i of
        tir2 \<Rightarrow> stop_camera_tir2 E s
      | tir3 \<Rightarrow> stop_camera_tir3 E s
      | tir4 \<Rightarrow> stop_camera_tir4 E s
      | tir5 \<Rightarrow> stop_camera_tir5 E P s
      | smartnav4 \<Rightarrow> stop_camera_sn4 E s
      | smartnav3 \<Rightarrow> stop_camera_sn3 E s)
   }"

definition start_camera_tir2 :: "usb_env \<Rightarrow> tirprefs \<Rightarrow> 'a hwst_scheme \<Rightarrow> bool \<times> 'a hwst_scheme" where
  "start_camera_tir2 E P s = (True, steps [
     tell E Video_on, ltr_int_usleep 120000,
     when_do (ir_on s) (steps [led_on E TIR_LED_IR, ltr_int_usleep 64000]),
     ign (flush_fifo_tir E), ltr_int_usleep 64000,
     when_do (ltr_int_tir_get_status_indication P)
       (steps [ign (set_status_led_tir4 E True), ltr_int_usleep 64000]),
     when_do (ir_on s) (steps [led_on E TIR_LED_IR, ltr_int_usleep 64000])] s)"

definition start_camera_tir3 :: "usb_env \<Rightarrow> tirprefs \<Rightarrow> 'a hwst_scheme \<Rightarrow> bool \<times> 'a hwst_scheme" where
  "start_camera_tir3 E P s = (True, steps [
     ign (flush_fifo_tir E), ltr_int_usleep 2000,
     tell E Camera_stop, ltr_int_usleep 2000,
     when_do (ir_on s) (steps [led_on E TIR_LED_IR, ltr_int_usleep 2000]),
     tell E Video_on, ltr_int_usleep 2000,
     when_do (ltr_int_tir_get_status_indication P)
       (steps [ign (set_status_led_tir4 E True), ltr_int_usleep 2000])] s)"

definition start_camera_tir4 :: "usb_env \<Rightarrow> tirprefs \<Rightarrow> 'a hwst_scheme \<Rightarrow> (bool \<times> 'a hwst_scheme) option" where
  "start_camera_tir4 E P s = do {
     (_, s) \<leftarrow> stop_camera_tir E P s;
     Some (True, steps [
       tell E Video_on,
       when_do (ir_on s) (led_on E TIR_LED_IR),
       ign (flush_fifo_tir E),
       when_do (ltr_int_tir_get_status_indication P) (ign (set_status_led_tir4 E True))] s)
   }"

definition start_camera_tir5 :: "usb_env \<Rightarrow> tirprefs \<Rightarrow> 'a hwst_scheme \<Rightarrow> (bool \<times> 'a hwst_scheme) option" where
  "start_camera_tir5 E P s = do {
     (_, s) \<leftarrow> stop_camera_tir E P s;
     Some (True, steps [
       tell E Video_on,
       (if ir_on s then ign (control_ir_led_tir E P True) else ign (control_ir_led_tir E P False)),
       when_do (ltr_int_tir_get_status_indication P) (ign (set_status_led_tir5 E P True))] s)
   }"

definition start_camera_sn4 :: "usb_env \<Rightarrow> tirprefs \<Rightarrow> 'a hwst_scheme \<Rightarrow> bool \<times> 'a hwst_scheme" where
  "start_camera_sn4 E P s = (True, steps [
     (if ltr_int_tir_get_use_grayscale P then tell E SN4_grayscale_mode else tell E SN4_normal_mode),
     tell E Video_on,
     when_do (ir_on s) (led_on E TIR_LED_IR),
     when_do (ltr_int_tir_get_status_indication P) (ign (set_status_led_tir4 E True))] s)"

definition start_camera_sn3 :: "usb_env \<Rightarrow> 'a hwst_scheme \<Rightarrow> bool \<times> 'a hwst_scheme" where
  "start_camera_sn3 E s = (True, steps [
     tell E Video_on,
     tell E Fifo_flush,
     led_on E TIR_LED_GREEN,
     when_do (ir_on s) (led_on E TIR_LED_IR),
     led_on E TIR_LED_BLUE] s)"

definition start_camera_tir :: "usb_env \<Rightarrow> tirprefs \<Rightarrow> 'a hwst_scheme \<Rightarrow> (bool \<times> 'a hwst_scheme) option" where
  "start_camera_tir E P s = do {
     i \<leftarrow> tir_iface s;
     (case i of
        tir2 \<Rightarrow> Some (start_camera_tir2 E P s)
      | tir3 \<Rightarrow> Some (start_camera_tir3 E P s)
      | tir4 \<Rightarrow> start_camera_tir4 E P s
      | tir5 \<Rightarrow> start_camera_tir5 E P s
      | smartnav4 \<Rightarrow> Some (start_camera_sn4 E P s)
      | smartnav3 \<Rightarrow> Some (start_camera_sn3 E s))
   }"

subsection \<open>Initialisation\<close>

definition init_camera_tir2 ::
  "usb_env \<Rightarrow> bool \<Rightarrow> bool \<Rightarrow> 'a hwst_scheme \<Rightarrow> (bool \<times> 'a hwst_scheme) option" where
  "init_camera_tir2 E force_fw_load p_ir_on s =
     (let s = steps [
        ir_on_update (\<lambda>_. p_ir_on),
        led_off E TIR_LED_IR, ltr_int_usleep 2000,
        led_off E TIR_LED_RED, ltr_int_usleep 2000,
        led_off E TIR_LED_GREEN, ltr_int_usleep 2000,
        led_off E TIR_LED_BLUE, ltr_int_usleep 2000,
        tell E Video_off, ltr_int_usleep 2000,
        led_off E TIR_LED_IR, ltr_int_usleep 2000,
        led_off E TIR_LED_RED, ltr_int_usleep 2000,
        led_off E TIR_LED_GREEN, ltr_int_usleep 2000,
        led_off E TIR_LED_BLUE, ltr_int_usleep 2000,
        hear_ign E 100, hear_ign E 100, hear_ign E 100] s;
        (ok, s) = read_rom_data_tir3 E s
      in if \<not> ok then Some (False, s)
         else Some (True, steps [ltr_int_usleep 70000, ign (ltr_int_set_threshold_tir E 0x8c), ltr_int_usleep 2000] s))"

definition init_camera_tir3 ::
  "usb_env \<Rightarrow> tirprefs \<Rightarrow> bool \<Rightarrow> bool \<Rightarrow> 'a hwst_scheme \<Rightarrow> (bool \<times> 'a hwst_scheme) option" where
  "init_camera_tir3 E P force_fw_load p_ir_on s = do {
     (ok, s) \<leftarrow> stop_camera_tir E P (s\<lparr>ir_on := p_ir_on\<rparr>);
     if \<not> ok then Some (False, s)
     else (let s = steps [hear_ign E 100, hear_ign E 100, hear_ign E 100] s;
               (ok, s) = read_rom_data_tir3 E s
           in if \<not> ok then Some (False, s)
              else Some (True, steps [
                ltr_int_usleep 70000,
                ign (ltr_int_set_threshold_tir E 0x8c), ltr_int_usleep 70000,
                tell E unk_5, ltr_int_usleep 2000,
                tell E unk_6, ltr_int_usleep 2000,
                ign (ltr_int_set_threshold_tir E 0xd0), ltr_int_usleep 2000,
                tell E unk_8, ltr_int_usleep 2000] s))
   }"

text \<open>\<open>while(status.cfg_flag != 2)\<close> of the configuration reload: asks until the flag is 2 or asking fails.\<close>

partial_function (option) wait_cfg ::
  "usb_env \<Rightarrow> tir_status_t \<Rightarrow> 'a hwst_scheme \<Rightarrow> (bool \<times> tir_status_t \<times> 'a hwst_scheme) option" where
  "wait_cfg E st s =
     (if cfg_flag st = 2 then Some (True, st, s)
      else do {
        (ok, st, s) \<leftarrow> read_status_tir E st s;
        if \<not> ok then Some (False, st, s) else wait_cfg E st s
      })"

text \<open>The variable \<open>status\<close> is uninitialised at first: \<open>st0\<close> is whatever it holds.\<close>

definition is_tir5 :: "'a hwst_scheme \<Rightarrow> bool" where
  "is_tir5 s \<longleftrightarrow> hw_device s = TIR5 \<or> hw_device s = TIR5V2"

definition configure_tir4 ::
  "usb_env \<Rightarrow> tir_status_t \<Rightarrow> 'a hwst_scheme \<Rightarrow> (bool \<times> 'a hwst_scheme) option" where
  "configure_tir4 E st s =
     (if cfg_flag st = 1 then do {
        (ok, st, s) \<leftarrow> wait_cfg E st (tell E Cfg_reload s);
        if \<not> ok then Some (False, s)
        else Some (True, steps [
          when_do (is_tir5 s) (steps [tell E Set_ir_brightness, ign (set_exposure E 0x18F)]),
          ign (ltr_int_set_threshold_tir E 0x82)] s)
      }
      else if cfg_flag st \<noteq> 2 then Some (False, s)
      else Some (True, s))"

definition init_camera_tir4 ::
  "usb_env \<Rightarrow> tirprefs \<Rightarrow> tir_status_t \<Rightarrow> bool \<Rightarrow> bool \<Rightarrow> 'a hwst_scheme \<Rightarrow> (bool \<times> 'a hwst_scheme) option" where
  "init_camera_tir4 E P st0 force_fw_load p_ir_on s = do {
     (ok, s) \<leftarrow> stop_camera_tir E P (s\<lparr>ir_on := p_ir_on\<rparr>);
     if \<not> ok then Some (False, s) else do {
     s \<leftarrow> flush_packets E s;
     (ok, s) \<leftarrow> read_rom_data_tir E s;
     if \<not> ok then Some (False, s) else do {
     (ok, st, s) \<leftarrow> read_status_tir E st0 s;
     if \<not> ok then Some (False, s) else do {
     fw \<leftarrow> load_firmware E s;
     (case fw of None \<Rightarrow> Some (False, s) | Some fw \<Rightarrow> do {
       let s = when_do (force_fw_load \<or> \<not> fw_loaded st \<or> fw_cksum st \<noteq> fw_sum fw) (ign (upload_firmware E fw)) s;
       (ok, st, s) \<leftarrow> read_status_tir E st s;
       if \<not> ok then Some (False, s)
       else if fw_cksum st \<noteq> fw_sum fw then Some (False, s)
       else do {
         (ok, s) \<leftarrow> configure_tir4 E st s;
         if \<not> ok then Some (False, s)
         else Some (True, when_do (is_tir5 s) (tell E Precision_mode) s)
       }
     })
     }}}
   }"

definition init_camera_tir5 ::
  "usb_env \<Rightarrow> tirprefs \<Rightarrow> tir_status_t \<Rightarrow> bool \<Rightarrow> bool \<Rightarrow> 'a hwst_scheme \<Rightarrow> (bool \<times> 'a hwst_scheme) option" where
  "init_camera_tir5 E P st0 force_fw_load p_ir_on s = do {
     (_, s) \<leftarrow> stop_camera_tir E P (s\<lparr>ir_on := p_ir_on\<rparr>);
     (_, s) \<leftarrow> read_rom_data_tir E s;
     let s = steps [
       ign (control_ir_led_tir E P True),
       ign (flush_fifo_tir E),
       ign (set_exposure E 0x18F)] s;
     (_, st, s) \<leftarrow> read_status_tir E st0 s;
     fw \<leftarrow> load_firmware E s;
     (case fw of None \<Rightarrow> Some (False, s) | Some fw \<Rightarrow> do {
       let s = steps [
         ign (upload_firmware E fw),
         tell E unk_7,
         ign (flush_fifo_tir E),
         tell E Camera_stop] s;
       (_, st, s) \<leftarrow> read_status_tir E st s;
       Some (True, steps [
         tell E Cfg_reload,
         ign (ltr_int_set_threshold_tir E 0x96),
         ign (set_exposure E 0x18F),
         ign (control_ir_led_tir E P True),
         ign (control_status_led_tir E P False False),
         ign (control_status_led_tir E P False False),
         tell E Precision_mode,
         ign (control_status_led_tir E P False False),
         ign (control_ir_led_tir E P True),
         ign (ltr_int_set_threshold_tir E 0x76),
         ign (set_exposure E 0x15E),
         ign (control_status_led_tir E P False False),
         tell E Precision_mode,
         ign (flush_fifo_tir E),
         tell E Camera_stop,
         ign (control_ir_led_tir E P True),
         tell E Video_on] s)
     })
   }"

definition configure_sn4 ::
  "usb_env \<Rightarrow> firmware_t \<Rightarrow> tir_status_t \<Rightarrow> 'a hwst_scheme \<Rightarrow> (bool \<times> 'a hwst_scheme) option" where
  "configure_sn4 E fw st s = do {
     let s = steps [ign (upload_firmware E fw), tell E unk_7, tell E unk_e] s;
     s \<leftarrow> flush_packets E s;
     (ok, st, s) \<leftarrow> read_status_tir E st s;
     if \<not> ok then Some (False, s)
     else if fw_cksum st \<noteq> fw_sum fw then Some (False, s)
     else if cfg_flag st = 1 then do {
       (ok, st, s) \<leftarrow> wait_cfg E st (tell E Cfg_reload s);
       if \<not> ok then Some (False, s)
       else Some (True, steps [tell E unk_9, tell E unk_a, tell E unk_b, tell E unk_c, tell E unk_d,
                               ign (ltr_int_set_threshold_tir E 0x78)] s)
     }
     else if cfg_flag st \<noteq> 2 then Some (False, s)
     else Some (True, s)
   }"

definition init_camera_sn4 ::
  "usb_env \<Rightarrow> tirprefs \<Rightarrow> tir_status_t \<Rightarrow> bool \<Rightarrow> bool \<Rightarrow> 'a hwst_scheme \<Rightarrow> (bool \<times> 'a hwst_scheme) option" where
  "init_camera_sn4 E P st0 force_fw_load p_ir_on s = do {
     (ok, s) \<leftarrow> stop_camera_tir E P (s\<lparr>ir_on := p_ir_on\<rparr>);
     if \<not> ok then Some (False, s) else do {
     s \<leftarrow> flush_packets E s;
     let s = steps [hear_ign E 100, hear_ign E 100] s;
     (ok, s) \<leftarrow> read_rom_data_tir E s;
     if \<not> ok then Some (False, s) else do {
     s \<leftarrow> flush_packets E s;
     (ok, st, s) \<leftarrow> read_status_tir E st0 s;
     if \<not> ok then Some (False, s) else do {
     fw \<leftarrow> load_firmware E s;
     (case fw of None \<Rightarrow> Some (False, s) | Some fw \<Rightarrow> do {
       (ok, s) \<leftarrow> (if force_fw_load \<or> \<not> fw_loaded st \<or> fw_cksum st \<noteq> fw_sum fw
                  then configure_sn4 E fw st s else Some (True, s));
       if \<not> ok then Some (False, s)
       else Some (True, snd (ltr_int_open_sn4_pipe E s))
     })
     }}}
   }"

definition init_camera_sn3 ::
  "usb_env \<Rightarrow> tirprefs \<Rightarrow> bool \<Rightarrow> bool \<Rightarrow> 'a hwst_scheme \<Rightarrow> (bool \<times> 'a hwst_scheme) option" where
  "init_camera_sn3 E P force_fw_load p_ir_on s = do {
     (ok, s) \<leftarrow> stop_camera_tir E P (s\<lparr>ir_on := p_ir_on\<rparr>);
     if \<not> ok then Some (False, s)
     else read_rom_data_tir E (steps [hear_ign E 100, hear_ign E 100, hear_ign E 100] s)
   }"

definition init_camera_tir ::
  "usb_env \<Rightarrow> tirprefs \<Rightarrow> tir_status_t \<Rightarrow> bool \<Rightarrow> bool \<Rightarrow> 'a hwst_scheme \<Rightarrow> (bool \<times> 'a hwst_scheme) option" where
  "init_camera_tir E P st0 force_fw_load p_ir_on s = do {
     i \<leftarrow> tir_iface s;
     (case i of
        tir2 \<Rightarrow> init_camera_tir2 E force_fw_load p_ir_on s
      | tir3 \<Rightarrow> init_camera_tir3 E P force_fw_load p_ir_on s
      | tir4 \<Rightarrow> init_camera_tir4 E P st0 force_fw_load p_ir_on s
      | tir5 \<Rightarrow> init_camera_tir5 E P st0 force_fw_load p_ir_on s
      | smartnav4 \<Rightarrow> init_camera_sn4 E P st0 force_fw_load p_ir_on s
      | smartnav3 \<Rightarrow> init_camera_sn3 E P force_fw_load p_ir_on s)
   }"

subsection \<open>Opening, pausing, resuming and closing\<close>

definition ltr_int_open_tir ::
  "usb_env \<Rightarrow> tirprefs \<Rightarrow> tir_status_t \<Rightarrow> bool \<Rightarrow> bool \<Rightarrow> 'a hwst_scheme \<Rightarrow> (bool \<times> 'a hwst_scheme) option" where
  "ltr_int_open_tir E P st0 force_fw_load switch_ir_on s =
     (let (ok, s) = ltr_int_init_usb E s in
      if \<not> ok then Some (False, s)
      else (let (dev, s) = ltr_int_find_tir E s; s = s\<lparr>hw_device := dev\<rparr> in
      if dev = NOT_TIR then Some (False, s)
      else (let s = (if dev_num dev \<le> dev_num TIR3 \<or> dev = SMARTNAV3
                     then s\<lparr>cfg_in_ep := TIR_IN_EP, ltr_int_data_in_ep := TIR_IN_EP, out_ep := TIR3_OUT_EP\<rparr>
                     else if dev = SMARTNAV4
                     then s\<lparr>cfg_in_ep := SN4_CFG_EP, ltr_int_data_in_ep := SN4_DATA_EP, out_ep := SN4_OUT_EP\<rparr>
                     else s\<lparr>cfg_in_ep := TIR_IN_EP, ltr_int_data_in_ep := TIR_IN_EP, out_ep := TIR_OUT_EP\<rparr>);
                (ok, s) = ltr_int_prepare_device E TIR_CONFIGURATION TIR_INTERFACE s
      in if \<not> ok then Some (False, s)
      else (case (case dev of
               TIR2 \<Rightarrow> Some tir2 | TIR3 \<Rightarrow> Some tir3 | TIR4 \<Rightarrow> Some tir4
             | TIR5 \<Rightarrow> Some tir5 | TIR5V2 \<Rightarrow> Some tir5
             | SMARTNAV4 \<Rightarrow> Some smartnav4 | SMARTNAV3 \<Rightarrow> Some smartnav3 | _ \<Rightarrow> None) of
          None \<Rightarrow> Some (False, s)
        | Some i \<Rightarrow> do {
            (ok, s) \<leftarrow> init_camera_tir E P st0 force_fw_load switch_ir_on (s\<lparr>tir_iface := Some i\<rparr>);
            if \<not> ok then Some (False, s)
            else do {
              (_, s) \<leftarrow> start_camera_tir E P s;
              Some (True, s)
            }
          }))))"

definition ltr_int_pause_tir :: "usb_env \<Rightarrow> tirprefs \<Rightarrow> 'a hwst_scheme \<Rightarrow> (bool \<times> 'a hwst_scheme) option" where
  "ltr_int_pause_tir E P s = do {
     (res, s) \<leftarrow> stop_camera_tir E P s;
     (_, s) \<leftarrow> set_status_led_tir E P False s;
     Some (res, s)
   }"

definition ltr_int_resume_tir :: "usb_env \<Rightarrow> tirprefs \<Rightarrow> 'a hwst_scheme \<Rightarrow> (bool \<times> 'a hwst_scheme) option" where
  "ltr_int_resume_tir E P s = do {
     (res, s) \<leftarrow> start_camera_tir E P s;
     (_, s) \<leftarrow> set_status_led_tir E P True s;
     Some (res, s)
   }"

definition close_camera_tir2 :: "usb_env \<Rightarrow> tirprefs \<Rightarrow> 'a hwst_scheme \<Rightarrow> (bool \<times> 'a hwst_scheme) option" where
  "close_camera_tir2 E P s = do {
     (_, s) \<leftarrow> stop_camera_tir E P s;
     Some (True, steps [
       ltr_int_usleep 25000,
       led_off E TIR_LED_RED, ltr_int_usleep 2000,
       led_off E TIR_LED_GREEN, ltr_int_usleep 2000,
       led_off E TIR_LED_BLUE, ltr_int_usleep 2000,
       led_off E TIR_LED_IR, ltr_int_usleep 2000,
       ltr_int_finish_usb (int TIR_INTERFACE)] s)
   }"

definition close_camera_tir3 :: "usb_env \<Rightarrow> tirprefs \<Rightarrow> 'a hwst_scheme \<Rightarrow> (bool \<times> 'a hwst_scheme) option" where
  "close_camera_tir3 E P s = do {
     (_, s) \<leftarrow> stop_camera_tir E P s;
     Some (True, steps [
       tell E unk_4, ltr_int_usleep 25000,
       led_off E TIR_LED_RED, ltr_int_usleep 2000,
       led_off E TIR_LED_GREEN, ltr_int_usleep 2000,
       led_off E TIR_LED_BLUE, ltr_int_usleep 2000,
       ltr_int_finish_usb (int TIR_INTERFACE)] s)
   }"

definition close_camera_tir4 :: "usb_env \<Rightarrow> tirprefs \<Rightarrow> 'a hwst_scheme \<Rightarrow> (bool \<times> 'a hwst_scheme) option" where
  "close_camera_tir4 E P s = do {
     (_, s) \<leftarrow> stop_camera_tir E P s;
     Some (True, ltr_int_finish_usb (int TIR_INTERFACE) s)
   }"

definition close_camera_tir5 :: "usb_env \<Rightarrow> tirprefs \<Rightarrow> 'a hwst_scheme \<Rightarrow> (bool \<times> 'a hwst_scheme) option" where
  "close_camera_tir5 E P s = do {
     (_, s) \<leftarrow> stop_camera_tir E P s;
     Some (True, steps [
       ign (ltr_int_set_threshold_tir E 0x96),
       ign (set_exposure E 0x18F),
       ign (control_ir_led_tir E P True),
       ign (control_status_led_tir E P False False),
       ign (control_status_led_tir E P False False),
       tell E Precision_mode,
       led_off E TIR_LED_IR,
       tell E Fpga_init,
       ltr_int_finish_usb (int TIR_INTERFACE)] s)
   }"

definition close_camera_sn4 :: "usb_env \<Rightarrow> tirprefs \<Rightarrow> 'a hwst_scheme \<Rightarrow> (bool \<times> 'a hwst_scheme) option" where
  "close_camera_sn4 E P s = do {
     (_, s) \<leftarrow> stop_camera_tir E P s;
     Some (True, (ltr_int_close_sn4_pipe (ltr_int_finish_usb (int TIR_INTERFACE) s))\<lparr>sn4_pipe := - 1\<rparr>)
   }"

definition ltr_int_close_tir :: "usb_env \<Rightarrow> tirprefs \<Rightarrow> 'a hwst_scheme \<Rightarrow> (bool \<times> 'a hwst_scheme) option" where
  "ltr_int_close_tir E P s = do {
     i \<leftarrow> tir_iface s;
     (case i of
        tir2 \<Rightarrow> close_camera_tir2 E P s
      | tir3 \<Rightarrow> close_camera_tir3 E P s
      | tir4 \<Rightarrow> close_camera_tir4 E P s
      | tir5 \<Rightarrow> close_camera_tir5 E P s
      | smartnav4 \<Rightarrow> close_camera_sn4 E P s
      | smartnav3 \<Rightarrow> close_camera_tir4 E P s)
   }"

definition get_tir2_info :: tir_info where
  "get_tir2_info = \<lparr>ti_width = 256, ti_height = 256, ti_hf = Fin 1, ti_dev_type = TIR2\<rparr>"

definition get_tir3_info :: tir_info where
  "get_tir3_info = \<lparr>ti_width = 440, ti_height = 314, ti_hf = Fin 1, ti_dev_type = TIR3\<rparr>"

definition get_tir4_info :: tir_info where
  "get_tir4_info = \<lparr>ti_width = 400, ti_height = 300, ti_hf = Fin 2, ti_dev_type = TIR4\<rparr>"

definition get_tir5_info :: tir_info where
  "get_tir5_info = \<lparr>ti_width = 640, ti_height = 480, ti_hf = Fin 1, ti_dev_type = TIR5\<rparr>"

definition get_sn4_info :: tir_info where
  "get_sn4_info = \<lparr>ti_width = 640, ti_height = 480, ti_hf = Fin 2, ti_dev_type = SMARTNAV4\<rparr>"

definition get_sn3_info :: tir_info where
  "get_sn3_info = \<lparr>ti_width = 400, ti_height = 300, ti_hf = Fin 2, ti_dev_type = SMARTNAV3\<rparr>"

definition ltr_int_get_tir_info :: "'a hwst_scheme \<Rightarrow> tir_info option" where
  "ltr_int_get_tir_info s = do {
     i \<leftarrow> tir_iface s;
     Some (case i of
        tir2 \<Rightarrow> get_tir2_info
      | tir3 \<Rightarrow> get_tir3_info
      | tir4 \<Rightarrow> get_tir4_info
      | tir5 \<Rightarrow> get_tir5_info
      | smartnav4 \<Rightarrow> get_sn4_info
      | smartnav3 \<Rightarrow> get_sn3_info)
   }"

subsection \<open>What the camera is told: an abstract camera\<close>

text \<open>The meaning of the commands as their names and functions give it: the four LEDs of a mask, the
  video and the camera as a whole, and for the TrackIR 5 the infrared and status LED controls. \<open>cam\<close> is the camera that
  has received everything that was sent, from a state \<open>c0\<close> on; \<open>received\<close> is the one that has received the packets
  whose transfer succeeded.\<close>

record camera =
  c_led :: "nat \<Rightarrow> bool"
  c_video :: bool
  c_stopped :: bool
  c_ir5 :: u8
  c_status5 :: u8

definition cam_cmd :: "bytes \<Rightarrow> camera \<Rightarrow> camera" where
  "cam_cmd d c =
     (if d = Video_on then c\<lparr>c_video := True, c_stopped := False\<rparr>
      else if d = Video_off then c\<lparr>c_video := False\<rparr>
      else if d = Camera_stop then c\<lparr>c_stopped := True\<rparr>
      else if length d = 3 \<and> d ! 0 = 0x10
      then c\<lparr>c_led := (\<lambda>n. if bit (d ! 2) n then bit (d ! 1) n else c_led c n)\<rparr>
      else if length d = 5 \<and> take 3 d = [0x19, 0x09, 0x10] then c\<lparr>c_ir5 := d ! 4\<rparr>
      else if length d = 5 \<and> take 3 d = [0x19, 0x04, 0x10] then c\<lparr>c_status5 := d ! 4\<rparr>
      else c)"

fun cam_io :: "camera \<Rightarrow> usb_io \<Rightarrow> camera" where
  "cam_io c (Send ep d) = cam_cmd d c"
| "cam_io c _ = c"

definition cam :: "camera \<Rightarrow> 'a hwst_scheme \<Rightarrow> camera" where
  "cam c0 s = foldl cam_io c0 (hist s)"

fun receive :: "usb_env \<Rightarrow> usb_io list \<Rightarrow> usb_io list \<Rightarrow> camera \<Rightarrow> camera" where
  "receive E h [] c = c"
| "receive E h (Send ep d # es) c = receive E (h @ [Send ep d]) es (if u_send E h ep d then cam_cmd d c else c)"
| "receive E h (e # es) c = receive E (h @ [e]) es c"

definition received :: "usb_env \<Rightarrow> camera \<Rightarrow> 'a hwst_scheme \<Rightarrow> camera" where
  "received E c0 s = receive E [] (hist s) c0"

lemma receive_all: "(\<And>h ep d. u_send E h ep d) \<Longrightarrow> receive E h es c = foldl cam_io c es"
  by (induction E h es c rule: receive.induct) simp_all

lemma received_all: "(\<And>h ep d. u_send E h ep d) \<Longrightarrow> received E c0 s = cam c0 s"
  by (simp add: received_def cam_def receive_all)

lemma cam_log [simp]: "cam c0 (log_io e s) = cam_io (cam c0 s) e"
  by (simp add: cam_def)

lemma cam_more [simp]:
  "cam c0 (sn4_pipe_update f s) = cam c0 s" "cam c0 (ir_on_update g s) = cam c0 s" "cam c0 (tir_iface_update k s) = cam c0 s"
  "cam c0 (hw_device_update m s) = cam c0 s" "cam c0 (ltr_int_packet_update q s) = cam c0 s"
  by (simp_all add: cam_def)

text \<open>The part of the state that names the device; sending and receiving leave it alone.\<close>

definition dev_cfg :: "'a hwst_scheme \<Rightarrow> dev_found \<times> tir_interface option \<times> int \<times> int \<times> int \<times> bool \<times> nat" where
  "dev_cfg s = (hw_device s, tir_iface s, out_ep s, cfg_in_ep s, ltr_int_data_in_ep s, ir_on s, length (ltr_int_packet s))"

lemma dev_cfg_D:
  "dev_cfg s = dev_cfg s' \<Longrightarrow> hw_device s = hw_device s' \<and> tir_iface s = tir_iface s' \<and> out_ep s = out_ep s' \<and>
     cfg_in_ep s = cfg_in_ep s' \<and> ltr_int_data_in_ep s = ltr_int_data_in_ep s' \<and> ir_on s = ir_on s' \<and>
     length (ltr_int_packet s) = length (ltr_int_packet s')"
  by (simp add: dev_cfg_def)

lemma dev_cfg_log [simp, frame]: "dev_cfg (log_io e s) = dev_cfg s"
  by (simp add: dev_cfg_def log_io_def)

lemma dev_cfg_usleep [simp, frame]: "dev_cfg (ltr_int_usleep n s) = dev_cfg s"
  by (simp add: ltr_int_usleep_def)

lemma dev_cfg_finish [simp, frame]: "dev_cfg (ltr_int_finish_usb i s) = dev_cfg s"
  by (simp add: ltr_int_finish_usb_def)

lemma dev_cfg_send [simp, frame]: "dev_cfg (snd (send_out E d s)) = dev_cfg s"
  by (simp add: send_out_def ltr_int_send_data_def)

lemma dev_cfg_tell [simp, frame]: "dev_cfg (tell E d s) = dev_cfg s"
  by (simp add: tell_def ign_def)

lemma dev_cfg_hear [simp, frame]: "dev_cfg (snd (snd (hear E t s))) = dev_cfg s"
  by (simp add: hear_def ltr_int_receive_data_def Let_def dev_cfg_def log_io_def split: prod.split)

lemma dev_cfg_hear_ign [simp, frame]: "dev_cfg (hear_ign E t s) = dev_cfg s"
  by (simp add: hear_ign_def)

lemma dev_cfg_wiggle [simp, frame]: "dev_cfg (snd (wiggle_leds_tir E l m s)) = dev_cfg s"
  by (simp add: wiggle_leds_tir_def case_prod_beta Let_def)

lemma dev_cfg_led [simp, frame]: "dev_cfg (led_on E l s) = dev_cfg s" "dev_cfg (led_off E l s) = dev_cfg s"
  by (simp_all add: led_on_def led_off_def ign_def turn_led_on_tir_def turn_led_off_tir_def Let_def)

lemma dev_cfg_switch [simp, frame]:
  "dev_cfg (switch_red E b s) = dev_cfg s" "dev_cfg (switch_green E b s) = dev_cfg s" "dev_cfg (switch_blue E b s) = dev_cfg s"
  by (simp_all add: switch_red_def switch_green_def switch_blue_def)

lemma dev_cfg_flush_fifo [simp, frame]: "dev_cfg (ign (flush_fifo_tir E) s) = dev_cfg s"
  by (simp add: ign_def flush_fifo_tir_def Let_def)

lemma dev_cfg_threshold [simp, frame]: "dev_cfg (ign (ltr_int_set_threshold_tir E v) s) = dev_cfg s"
  by (simp add: ign_def ltr_int_set_threshold_tir_def Let_def split: prod.split)

lemma dev_cfg_exposure [simp, frame]: "dev_cfg (ign (set_exposure E v) s) = dev_cfg s"
  by (simp add: ign_def set_exposure_def case_prod_beta Let_def)

lemma dev_cfg_status_leds [simp, frame]:
  "dev_cfg (ign (set_status_led_tir5 E P b) s) = dev_cfg s"
  "dev_cfg (ign (set_status_led_tir4 E b) s) = dev_cfg s"
  "dev_cfg (ign (control_status_led_tir E P b c) s) = dev_cfg s"
  "dev_cfg (ign (turn_off_status_led_tir5 E) s) = dev_cfg s"
  "dev_cfg (ign (control_ir_led_tir E P b) s) = dev_cfg s"
  by (simp_all add: ign_def set_status_led_tir5_def set_status_led_tir4_def control_status_led_tir_def
      turn_off_status_led_tir5_def control_ir_led_tir_def)

lemma dev_cfg_when [simp, frame]: "(\<And>s. dev_cfg (f s) = dev_cfg s) \<Longrightarrow> dev_cfg (when_do b f s) = dev_cfg s"
  by (simp add: when_do_def)

text \<open>How each step changes the abstract camera.\<close>

lemma cam_cmd_simps [simp]:
  "cam_cmd Video_on c = c\<lparr>c_video := True, c_stopped := False\<rparr>" "cam_cmd Video_off c = c\<lparr>c_video := False\<rparr>"
  "cam_cmd Camera_stop c = c\<lparr>c_stopped := True\<rparr>" "cam_cmd Fifo_flush c = c" "cam_cmd Fpga_init c = c"
  "cam_cmd unk_2 c = c" "cam_cmd unk_3 c = c" "cam_cmd unk_4 c = c" "cam_cmd Cfg_reload c = c"
  "cam_cmd Precision_mode c = c" "cam_cmd SN4_normal_mode c = c" "cam_cmd SN4_grayscale_mode c = c"
  by (simp_all add: cam_cmd_def Video_on_def Video_off_def Camera_stop_def Fifo_flush_def Fpga_init_def
      unk_2_def unk_3_def unk_4_def Cfg_reload_def Precision_mode_def SN4_normal_mode_def SN4_grayscale_mode_def)

definition set_leds :: "u8 \<Rightarrow> bool \<Rightarrow> camera \<Rightarrow> camera" where
  "set_leds l b c = c\<lparr>c_led := (\<lambda>n. if bit (l AND 0xf0) n then b else c_led c n)\<rparr>"

lemma set_leds_simps [simp]:
  "c_led (set_leds l b c) n = (if bit (l AND 0xf0) n then b else c_led c n)"
  "c_video (set_leds l b c) = c_video c" "c_stopped (set_leds l b c) = c_stopped c" "c_ir5 (set_leds l b c) = c_ir5 c" "c_status5 (set_leds l b c) = c_status5 c"
  by (simp_all add: set_leds_def)

lemma cam_send [simp]: "cam c0 (snd (send_out E d s)) = cam_cmd d (cam c0 s)"
  by (simp add: send_out_def ltr_int_send_data_def)

lemma cam_tell [simp]: "cam c0 (tell E d s) = cam_cmd d (cam c0 s)"
  by (simp add: tell_def ign_def)

lemma cam_usleep [simp]: "cam c0 (ltr_int_usleep n s) = cam c0 s"
  by (simp add: ltr_int_usleep_def)

lemma cam_finish [simp]: "cam c0 (ltr_int_finish_usb n s) = cam c0 s"
  by (simp add: ltr_int_finish_usb_def)

lemma cam_wiggle: "cam c0 (snd (wiggle_leds_tir E l m s)) = cam_cmd [0x10, l, m] (cam c0 s)"
  by (simp add: wiggle_leds_tir_def case_prod_beta Let_def)

lemma cam_led [simp]:
  "cam c0 (led_on E l s) = set_leds l True (cam c0 s)" "cam c0 (led_off E l s) = set_leds l False (cam c0 s)"
  by (auto simp: led_on_def led_off_def ign_def turn_led_on_tir_def turn_led_off_tir_def Let_def cam_wiggle
      cam_cmd_def set_leds_def Video_on_def Video_off_def Camera_stop_def fun_eq_iff bit_and_iff)

lemma cam_flush_fifo [simp]: "cam c0 (ign (flush_fifo_tir E) s) = cam c0 s"
  by (simp add: ign_def flush_fifo_tir_def Let_def)

lemma cam_tir5 [simp]:
  "cam c0 (ign (set_status_led_tir5 E P b) s) = (cam c0 s)\<lparr>c_status5 := if b then 0x22 else 0x33\<rparr>"
  "cam c0 (ign (turn_off_status_led_tir5 E) s) = (cam c0 s)\<lparr>c_status5 := 0\<rparr>"
  "cam c0 (ign (control_ir_led_tir E P b) s) = (cam c0 s)\<lparr>c_ir5 := if b then 1 else 0\<rparr>"
  by (simp_all add: ign_def set_status_led_tir5_def turn_off_status_led_tir5_def control_ir_led_tir_def
      cam_cmd_def Video_on_def Video_off_def Camera_stop_def)

lemma cam_status4 [simp]:
  "cam c0 (ign (set_status_led_tir4 E b) s) =
     (if b then set_leds TIR_LED_GREEN True (set_leds TIR_LED_RED False (cam c0 s))
      else set_leds TIR_LED_RED True (set_leds TIR_LED_GREEN False (cam c0 s)))"
  by (simp add: ign_def set_status_led_tir4_def switch_red_def switch_green_def)

lemma cam_when [simp]: "cam c0 (when_do b f s) = (if b then cam c0 (f s) else cam c0 s)"
  by (simp add: when_do_def)

lemma led_bits [simp]:
  "bit (TIR_LED_RED AND 0xf0) n = (n = 4)" "bit (TIR_LED_GREEN AND 0xf0) n = (n = 5)"
  "bit (TIR_LED_BLUE AND 0xf0) n = (n = 6)" "bit (TIR_LED_IR AND 0xf0) n = (n = 7)"
proof -
  have p: "bit ((2 :: u8) ^ k) n = (n = k)" if "k < 8" for k
    using that by (auto simp: bit_exp_iff possible_bit_word)
  show "bit (TIR_LED_RED AND 0xf0) n = (n = 4)" "bit (TIR_LED_GREEN AND 0xf0) n = (n = 5)"
    "bit (TIR_LED_BLUE AND 0xf0) n = (n = 6)" "bit (TIR_LED_IR AND 0xf0) n = (n = 7)"
    using p [of 4] p [of 5] p [of 6] p [of 7]
    by (simp_all add: TIR_LED_RED_def TIR_LED_GREEN_def TIR_LED_BLUE_def TIR_LED_IR_def)
qed

text \<open>A camera that is dark: no LED lit, and stopped. A camera that streams has its video on and is not stopped.\<close>

definition dark :: "camera \<Rightarrow> bool" where
  "dark c \<longleftrightarrow> (\<forall>n \<in> {4..7}. \<not> c_led c n) \<and> c_stopped c"

definition streaming :: "camera \<Rightarrow> bool" where
  "streaming c \<longleftrightarrow> c_video c \<and> \<not> c_stopped c"

lemma atLeast4: "{4..7 :: nat} = {4, 5, 6, 7}" by auto

lemma stop_camera_dark:
  assumes "tir_iface s = Some i"
  shows "\<exists>s'. stop_camera_tir E P s = Some (True, s') \<and> dev_cfg s' = dev_cfg s \<and>
    c_stopped (cam c0 s') \<and> (i \<noteq> tir2 \<longrightarrow> \<not> c_video (cam c0 s')) \<and> \<not> c_led (cam c0 s') 7 \<and> (i \<noteq> tir5 \<longrightarrow> dark (cam c0 s')) \<and>
    (i = tir5 \<longrightarrow> c_ir5 (cam c0 s') = 0 \<and> c_status5 (cam c0 s') = 0)"
  using assms
  by (cases i) (simp_all add: stop_camera_tir_def stop_camera_tir2_def stop_camera_tir3_def stop_camera_tir4_def
      stop_camera_tir5_def stop_camera_sn4_def stop_camera_sn3_def dark_def atLeast4)

lemma start_camera_runs:
  assumes "tir_iface s = Some i"
  shows "\<exists>s'. start_camera_tir E P s = Some (True, s') \<and> dev_cfg s' = dev_cfg s \<and> streaming (cam c0 s') \<and>
    (if i = tir5 then c_ir5 (cam c0 s') = (if ir_on s then 1 else 0) else ir_on s \<longrightarrow> c_led (cam c0 s') 7) \<and>
    (i = tir4 \<longrightarrow> c_led (cam c0 s') 7 = ir_on s \<and>
       (c_led (cam c0 s') 5 = ltr_int_tir_get_status_indication P) \<and> \<not> c_led (cam c0 s') 4)"
proof -
  obtain s1 where s1: "stop_camera_tir E P s = Some (True, s1)" "dev_cfg s1 = dev_cfg s"
    "\<not> c_led (cam c0 s1) 7" "i \<noteq> tir5 \<longrightarrow> dark (cam c0 s1)"
    using stop_camera_dark [OF assms] by blast
  have ir: "ir_on s1 = ir_on s" using dev_cfg_D [OF s1(2)] by simp
  show ?thesis
    using assms s1 ir
    by (cases i) (auto simp: start_camera_tir_def start_camera_tir2_def start_camera_tir3_def start_camera_tir4_def
        start_camera_tir5_def start_camera_sn4_def start_camera_sn3_def dark_def streaming_def atLeast4)
qed

text \<open>C3: A camera that is stopped goes dark (\<open>tir_hw.c\<close>). Whatever the camera was doing, if the transfers succeed, then after stopping it
  it has been stopped and its infrared light is off; every camera but a TrackIR 2, which is only stopped, has its video
  switched off; a TrackIR 5 has its infrared and its status light switched off by their own controls, every other camera all
  four LEDs; and the device and its endpoints are those from before.\<close>

theorem stop_camera_leaves_dark:
  assumes "tir_iface s = Some i" "\<And>h ep d. u_send E h ep d"
  shows "\<exists>s'. stop_camera_tir E P s = Some (True, s') \<and> dev_cfg s' = dev_cfg s \<and>
    c_stopped (received E c0 s') \<and> (i \<noteq> tir2 \<longrightarrow> \<not> c_video (received E c0 s')) \<and> \<not> c_led (received E c0 s') 7 \<and>
    (if i = tir5 then c_ir5 (received E c0 s') = 0 \<and> c_status5 (received E c0 s') = 0
     else \<forall>n \<in> {4..7}. \<not> c_led (received E c0 s') n)"
  using stop_camera_dark [OF assms(1), of E P c0] by (auto simp: received_all [OF assms(2)] dark_def)

definition demo_hw :: hwst where
  "demo_hw = hwst_init\<lparr>hw_device := TIR4, tir_iface := Some tir4, out_ep := 1, cfg_in_ep := 0x82\<rparr>"

lemma demo_hw_iface: "tir_iface demo_hw = Some tir4" "hw_device demo_hw = TIR4" "ir_on demo_hw" "hist demo_hw = []" "out_ep demo_hw = 1"
  by (simp_all add: demo_hw_def hwst_init_def)

text \<open>An environment for the witnesses: every packet is accepted, reads return one status packet.\<close>

definition demo_env :: "bytes \<Rightarrow> usb_env" where
  "demo_env fw = \<lparr>u_init = (\<lambda>_. True), u_find = (\<lambda>_. TIR4), u_prepare = (\<lambda>_. True), u_send = (\<lambda>_ _ _. True),
     u_recv = (\<lambda>h _ _ t. (True, if t = 100 then [] else [0x07, 0x40, 0, 1, 0, 0, 2])),
     u_resource = (\<lambda>d f. Some f), u_gzfile = (\<lambda>_. Some (fw, False)), u_realloc = (\<lambda>_. True),
     u_fifo = (\<lambda>_ _. 5), u_request = (\<lambda>_. False)\<rparr>"

definition demo_cam :: camera where
  "demo_cam = \<lparr>c_led = (\<lambda>_. True), c_video = True, c_stopped = False, c_ir5 = 1, c_status5 = 0x22\<rparr>"

theorem stop_camera_leaves_dark_witness:
  "\<exists>s'. stop_camera_tir (demo_env []) tirprefs_init demo_hw = Some (True, s') \<and> \<not> c_stopped (received (demo_env []) demo_cam demo_hw) \<and>
     c_stopped (received (demo_env []) demo_cam s') \<and> \<not> c_video (received (demo_env []) demo_cam s') \<and> \<not> c_led (received (demo_env []) demo_cam s') 5"
proof -
  have u: "u_send (demo_env []) h ep d" for h ep d by (simp add: demo_env_def)
  have "\<not> c_stopped (received (demo_env []) demo_cam demo_hw)" by (simp add: received_def demo_hw_iface demo_cam_def)
  then show ?thesis using stop_camera_leaves_dark [OF demo_hw_iface(1) u, of tirprefs_init demo_cam] by auto
qed

lemma set_status_ok:
  assumes "tir_iface s = Some i"
  shows "\<exists>x. set_status_led_tir E P b s = Some x \<and> dev_cfg (snd x) = dev_cfg s \<and>
    c_video (cam c0 (snd x)) = c_video (cam c0 s) \<and> c_stopped (cam c0 (snd x)) = c_stopped (cam c0 s) \<and> c_led (cam c0 (snd x)) 7 = c_led (cam c0 s) 7 \<and>
    c_ir5 (cam c0 (snd x)) = c_ir5 (cam c0 s)"
proof -
  note t = dev_cfg_status_leds [unfolded ign_def] cam_tir5 [unfolded ign_def] cam_status4 [unfolded ign_def]
  have "set_status_led_tir E P b s \<noteq> None" using assms
    by (simp only: set_status_led_tir_def Option.bind.simps split: if_split) simp
  then obtain x where x: "set_status_led_tir E P b s = Some x" by blast
  then have "dev_cfg (snd x) = dev_cfg s \<and>
    c_video (cam c0 (snd x)) = c_video (cam c0 s) \<and> c_stopped (cam c0 (snd x)) = c_stopped (cam c0 s) \<and> c_led (cam c0 (snd x)) 7 = c_led (cam c0 s) 7 \<and>
    c_ir5 (cam c0 (snd x)) = c_ir5 (cam c0 s)"
    using assms
    by (cases i) (auto simp: set_status_led_tir_def t set_status_led_sn4_def set_status_led_sn3_def
        switch_red_def switch_green_def split: if_splits)
  with x show ?thesis by blast
qed

text \<open>Pausing and then resuming brings the camera back to streaming: after a pause nothing streams and
  the infrared light is off, after the resume the video is on and the infrared light is lit
  if it was asked for when the camera was initialised.\<close>

theorem pause_resume_cycle:
  assumes "tir_iface s = Some i"
  shows "\<exists>s1 s2. ltr_int_pause_tir E P s = Some (True, s1) \<and> c_stopped (cam c0 s1) \<and>
    (if i = tir5 then c_ir5 (cam c0 s1) = 0 else \<not> c_led (cam c0 s1) 7) \<and>
    ltr_int_resume_tir E P s1 = Some (True, s2) \<and> streaming (cam c0 s2) \<and>
    (ir_on s \<longrightarrow> (if i = tir5 then c_ir5 (cam c0 s2) = 1 else c_led (cam c0 s2) 7)) \<and> dev_cfg s2 = dev_cfg s"
proof -
  obtain t1 where t1: "stop_camera_tir E P s = Some (True, t1)" "dev_cfg t1 = dev_cfg s"
    "c_stopped (cam c0 t1)" "\<not> c_led (cam c0 t1) 7" "i = tir5 \<longrightarrow> c_ir5 (cam c0 t1) = 0"
    using stop_camera_dark [OF assms] by blast
  have i1: "tir_iface t1 = Some i" using dev_cfg_D [OF t1(2)] assms by simp
  obtain x where x: "set_status_led_tir E P False t1 = Some x" "dev_cfg (snd x) = dev_cfg t1"
    "c_stopped (cam c0 (snd x)) = c_stopped (cam c0 t1)" "c_led (cam c0 (snd x)) 7 = c_led (cam c0 t1) 7"
    "c_ir5 (cam c0 (snd x)) = c_ir5 (cam c0 t1)"
    using set_status_ok [OF i1] by blast
  have p: "ltr_int_pause_tir E P s = Some (True, snd x)"
    by (simp add: ltr_int_pause_tir_def t1(1) x(1) case_prod_beta)
  have d: "dev_cfg (snd x) = dev_cfg s" using x(2) t1(2) by simp
  have i2: "tir_iface (snd x) = Some i" and ir: "ir_on (snd x) = ir_on s" using dev_cfg_D [OF d] assms by simp_all
  obtain t2 where t2: "start_camera_tir E P (snd x) = Some (True, t2)" "dev_cfg t2 = dev_cfg (snd x)"
    "streaming (cam c0 t2)"
    "if i = tir5 then c_ir5 (cam c0 t2) = (if ir_on (snd x) then 1 else 0) else ir_on (snd x) \<longrightarrow> c_led (cam c0 t2) 7"
    using start_camera_runs [OF i2] by blast
  have i3: "tir_iface t2 = Some i" using dev_cfg_D [OF t2(2)] i2 by simp
  obtain y where y: "set_status_led_tir E P True t2 = Some y" "dev_cfg (snd y) = dev_cfg t2"
    "c_video (cam c0 (snd y)) = c_video (cam c0 t2)" "c_stopped (cam c0 (snd y)) = c_stopped (cam c0 t2)" "c_led (cam c0 (snd y)) 7 = c_led (cam c0 t2) 7"
    "c_ir5 (cam c0 (snd y)) = c_ir5 (cam c0 t2)"
    using set_status_ok [OF i3] by blast
  have r: "ltr_int_resume_tir E P (snd x) = Some (True, snd y)"
    by (simp add: ltr_int_resume_tir_def t2(1) y(1) case_prod_beta)
  show ?thesis
  proof (intro exI conjI)
    show "ltr_int_pause_tir E P s = Some (True, snd x)" by (rule p)
    show "ltr_int_resume_tir E P (snd x) = Some (True, snd y)" by (rule r)
  qed (use x y t1 t2 d ir in \<open>auto simp: streaming_def split: if_splits\<close>)
qed

theorem pause_resume_cycle_witness:
  "\<exists>s1 s2. ltr_int_pause_tir (demo_env []) tirprefs_init demo_hw = Some (True, s1) \<and> c_stopped (cam demo_cam s1) \<and>
    ltr_int_resume_tir (demo_env []) tirprefs_init s1 = Some (True, s2) \<and> streaming (cam demo_cam s2) \<and> c_led (cam demo_cam s2) 7"
proof -
  obtain s1 s2 where "ltr_int_pause_tir (demo_env []) tirprefs_init demo_hw = Some (True, s1)" "c_stopped (cam demo_cam s1)"
    "ltr_int_resume_tir (demo_env []) tirprefs_init s1 = Some (True, s2)" "streaming (cam demo_cam s2)" "c_led (cam demo_cam s2) 7"
    using pause_resume_cycle [OF demo_hw_iface(1), of "demo_env []" tirprefs_init demo_cam] demo_hw_iface(3) by auto
  then show ?thesis by blast
qed

subsection \<open>Firmware\<close>

lemma gz_loop_ok:
  "(\<And>n. u_realloc E n) \<Longrightarrow> gz_loop E rest False buf ts = Some (Some (buf @ rest))"
proof (induction "length rest" arbitrary: rest buf ts rule: less_induct)
  case less
  show ?case
  proof (cases "length rest < FW_SIZE_INCREMENT")
    case True
    then show ?thesis by simp
  next
    case False
    then have "length (drop FW_SIZE_INCREMENT rest) < length rest" by (simp add: FW_SIZE_INCREMENT_def)
    from less.hyps [OF this less.prems] False less.prems show ?thesis
      by (subst gz_loop.simps) simp
  qed
qed

text \<open>Loading firmware reads the whole file, however long it is and whatever its length modulo the
  chunk size, as long as memory does not run out, and pairs it with its checksum.\<close>

theorem load_firmware_complete:
  assumes "ltr_int_find_firmware E (hw_device s) = Some path" and "u_gzfile E path = Some (content, False)"
    and "\<And>n. u_realloc E n"
  shows "load_firmware E s = Some (Some \<lparr>firmware = content, fw_sum = cksum_firmware content\<rparr>)"
  by (simp only: load_firmware_def assms(1,2) Option.bind.simps option.case prod.case
      gz_loop_ok [OF assms(3)] option.map append_Nil)

theorem load_firmware_complete_witness:
  "load_firmware (demo_env (replicate 50001 7)) demo_hw =
     Some (Some \<lparr>firmware = replicate 50001 7, fw_sum = cksum_firmware (replicate 50001 7)\<rparr>)"
proof (rule load_firmware_complete)
  show "ltr_int_find_firmware (demo_env (replicate 50001 7)) (hw_device demo_hw) = Some ''tir4.fw.gz''"
    by (simp only: ltr_int_find_firmware_def demo_hw_iface dev_found.case) (simp add: demo_env_def)
  show "u_gzfile (demo_env (replicate 50001 7)) ''tir4.fw.gz'' = Some (replicate 50001 7, False)"
    by (simp only: demo_env_def usb_env.simps)
  show "u_realloc (demo_env (replicate 50001 7)) n" for n by (simp only: demo_env_def usb_env.simps)
qed

text \<open>The chunks of an upload.\<close>

definition fw_packet :: "bytes \<Rightarrow> bytes" where
  "fw_packet c = [0x1c, of_nat (length c)] @ c"

lemma upload_chunks_trace:
  "upload_chunks E fw s = (ok, s') \<Longrightarrow>
   \<exists>cs rest. hist s' = hist s @ map (\<lambda>c. Send (out_ep s) (fw_packet c)) cs \<and> fw = concat cs @ rest \<and>
     (\<forall>c \<in> set cs. c \<noteq> [] \<and> length c \<le> 60) \<and> (ok \<longrightarrow> rest = []) \<and> dev_cfg s' = dev_cfg s"
proof (induction E fw s arbitrary: ok s' rule: upload_chunks.induct)
  case (1 E fw s)
  show ?case
  proof (cases "fw = []")
    case True
    with 1(2) show ?thesis by (auto intro: exI [of _ "[]"])
  next
    case False
    let ?n = "if length fw > 60 then 60 else length fw"
    let ?p = "fw_packet (take ?n fw)"
    have p: "[0x1c, of_nat ?n] @ take ?n fw = ?p" by (simp add: fw_packet_def)
    obtain o1 s1 where s1: "send_out E ?p s = (o1, s1)" by (cases "send_out E ?p s")
    have h1: "hist s1 = hist s @ [Send (out_ep s) ?p]" and e1: "out_ep s1 = out_ep s" and d1: "dev_cfg s1 = dev_cfg s"
      using s1 dev_cfg_send [of E ?p s] by (auto simp: send_out_def ltr_int_send_data_def log_io_def)
    have c: "take ?n fw \<noteq> []" "length (take ?n fw) \<le> 60" using False by auto
    show ?thesis
    proof (cases o1)
      case False
      with \<open>fw \<noteq> []\<close> 1(2) s1 p have "ok = False" "s' = s1"
        by (simp_all add: Let_def split: if_splits)
      with h1 c d1 show ?thesis
        by (intro exI [of _ "[take ?n fw]"] exI [of _ "drop ?n fw"]) simp
    next
      case True
      with \<open>fw \<noteq> []\<close> 1(2) s1 p have r: "upload_chunks E (drop ?n fw) s1 = (ok, s')"
        by (simp add: Let_def split: if_splits)
      have "\<exists>cs rest. hist s' = hist s1 @ map (\<lambda>c. Send (out_ep s1) (fw_packet c)) cs \<and>
        drop ?n fw = concat cs @ rest \<and> (\<forall>c \<in> set cs. c \<noteq> [] \<and> length c \<le> 60) \<and> (ok \<longrightarrow> rest = []) \<and>
        dev_cfg s' = dev_cfg s1"
        by (rule "1.IH" [OF \<open>fw \<noteq> []\<close> refl refl _ _ r]) (use s1 p True in simp_all)
      then obtain cs rest where "hist s' = hist s1 @ map (\<lambda>c. Send (out_ep s1) (fw_packet c)) cs"
        "drop ?n fw = concat cs @ rest" "\<forall>c \<in> set cs. c \<noteq> [] \<and> length c \<le> 60" "ok \<longrightarrow> rest = []" "dev_cfg s' = dev_cfg s1"
        by blast
      moreover from this(2) have "fw = concat (take ?n fw # cs) @ rest"
        using append_take_drop_id [of ?n fw] by (metis append.assoc concat.simps(2))
      ultimately show ?thesis using h1 e1 c d1
        by (intro exI [of _ "take ?n fw # cs"] exI [of _ rest]) simp
    qed
  qed
qed

text \<open>C4: A successful firmware upload sends the initialisation command and then packets of at most 62
  bytes, each with a command byte, the length of its payload and 1 to 60 bytes of payload; the
  payloads, put together, are the firmware, byte for byte. When a packet is refused, what was
  sent is a prefix of it.\<close>

theorem upload_firmware_roundtrip:
  assumes "upload_firmware E fw s = (ok, s')" and "u_send E (hist s) (out_ep s) Fpga_init"
  shows "\<exists>cs rest. hist s' = hist s @ Send (out_ep s) Fpga_init # map (\<lambda>c. Send (out_ep s) (0x1c # of_nat (length c) # c)) cs \<and>
    firmware fw = concat cs @ rest \<and> (\<forall>c \<in> set cs. 1 \<le> length c \<and> length c \<le> 60) \<and> (ok \<longrightarrow> rest = [])"
proof -
  let ?s = "log_io (Send (out_ep s) Fpga_init) s"
  have "upload_chunks E (firmware fw) ?s = (ok, s')"
    using assms by (simp add: upload_firmware_def send_out_def ltr_int_send_data_def)
  from upload_chunks_trace [OF this] obtain cs rest where
    "hist s' = hist ?s @ map (\<lambda>c. Send (out_ep ?s) (fw_packet c)) cs" "firmware fw = concat cs @ rest"
    "\<forall>c \<in> set cs. c \<noteq> [] \<and> length c \<le> 60" "ok \<longrightarrow> rest = []" by blast
  moreover have "out_ep ?s = out_ep s" by (simp add: log_io_def)
  ultimately show ?thesis
    by (intro exI [of _ cs] exI [of _ rest]) (auto simp: fw_packet_def Suc_le_eq)
qed

theorem upload_firmware_roundtrip_witness:
  "\<exists>cs rest. hist (snd (upload_firmware (demo_env []) \<lparr>firmware = replicate 61 9, fw_sum = 0\<rparr> demo_hw)) =
      Send 1 Fpga_init # map (\<lambda>c. Send 1 (0x1c # of_nat (length c) # c)) cs \<and>
    replicate 61 9 = concat cs @ rest \<and> (\<forall>c \<in> set cs. 1 \<le> length c \<and> length c \<le> 60)"
proof -
  have u: "u_send (demo_env []) (hist demo_hw) (out_ep demo_hw) Fpga_init" by (simp add: demo_env_def)
  show ?thesis
    using upload_firmware_roundtrip [OF surjective_pairing u, of "\<lparr>firmware = replicate 61 9, fw_sum = 0\<rparr>"]
    by (simp add: demo_hw_iface) blast
qed

subsection \<open>Threshold, status and initialisation\<close>

text \<open>Whatever threshold is asked for, the camera is sent one in its supported range: 30 to 253 in a
  four byte packet, or 40 to 253 in a three byte packet for the TrackIR 2; values inside the
  range are sent unchanged.\<close>

theorem set_threshold_clamped:
  "hist (snd (ltr_int_set_threshold_tir E val s)) = hist s @ [Send (out_ep s)
     (if dev_num (hw_device s) > dev_num TIR2
      then [0x15, of_nat (max 30 (min (unat val) 253)), 0x01, 0x00]
      else [0x15, of_nat (max 40 (min (unat val) 253)), 0x01])]"
proof -
  have c: "u8_of_u32 (if w < of_nat k then of_nat k else w) = of_nat (max k (unat w))"
    if "k < 256" "unat w < 256" for k and w :: u32
  proof -
    have k: "unat (of_nat k :: u32) = k" using that(1) by (simp add: unat_of_nat take_bit_nat_eq_self)
    have 1: "u8_of_u32 (of_nat k) = of_nat k"
      using that(1) by (simp add: u8_of_u32_def unsigned_of_nat take_bit_nat_eq_self)
    have 2: "u8_of_u32 w = of_nat (unat w)" for w :: u32
      by (simp add: u8_of_u32_def)
    show ?thesis
    proof (cases "unat w < k")
      case True
      then show ?thesis using 1 k by (simp only: word_less_nat_alt if_True max_def) simp
    next
      case False
      then show ?thesis using 2 [of w] k by (simp only: word_less_nat_alt if_False max_def) simp
    qed
  qed
  define v where "v = (if val > 253 then 253 else val)"
  have v: "unat v = min (unat val) 253" by (auto simp: v_def word_less_nat_alt)
  have small: "30 < (256 :: nat)" "40 < (256 :: nat)" and vl: "unat v < 256" using v by simp_all
  have c30: "u8_of_u32 (if v < 30 then 30 else v) = of_nat (max 30 (min (unat val) 253))"
    using c [OF small(1) vl] by (simp only: of_nat_numeral v)
  have c40: "u8_of_u32 (if v < 40 then 40 else v) = of_nat (max 40 (min (unat val) 253))"
    using c [OF small(2) vl] by (simp only: of_nat_numeral v)
  have h: "hist (snd (send_out E d s)) = hist s @ [Send (out_ep s) d]" for d
    by (simp add: send_out_def ltr_int_send_data_def)
  show ?thesis
    unfolding ltr_int_set_threshold_tir_def Let_def v_def [symmetric]
    by (cases "dev_num (hw_device s) > dev_num TIR2")
      (simp_all only: if_True if_False prod.case h c30 c40, simp_all)
qed

lemma packet_sends [simp, frame]:
  "ltr_int_packet (snd (send_out E d s)) = ltr_int_packet s"
  "ltr_int_packet (tell E d s) = ltr_int_packet s"
  "ltr_int_packet (ltr_int_usleep n s) = ltr_int_packet s"
  "ltr_int_packet (ltr_int_finish_usb i s) = ltr_int_packet s"
  by (simp_all add: send_out_def ltr_int_send_data_def tell_def ign_def ltr_int_usleep_def ltr_int_finish_usb_def)

lemma packet_settings [simp, frame]:
  "ltr_int_packet (ign (ltr_int_set_threshold_tir E v) s) = ltr_int_packet s"
  "ltr_int_packet (ign (set_exposure E w) s) = ltr_int_packet s"
  by (simp_all add: ign_def ltr_int_set_threshold_tir_def set_exposure_def case_prod_beta Let_def)

text \<open>\<open>grows s s'\<close>: the device kept its identity and the history was only extended.\<close>

definition grows :: "'a hwst_scheme \<Rightarrow> 'a hwst_scheme \<Rightarrow> bool" where
  "grows s s' \<longleftrightarrow> dev_cfg s' = dev_cfg s \<and> (\<exists>tr. hist s' = hist s @ tr)"

lemma grows_refl [simp]: "grows s s" by (simp add: grows_def)

lemma grows_trans [trans]: "grows a b \<Longrightarrow> grows b c \<Longrightarrow> grows a c"
  by (auto simp: grows_def)

lemma grows_log [simp]: "grows s (log_io e s)" by (simp add: grows_def)

lemma grows_send [simp]: "grows s (snd (send_out E d s))"
  by (simp add: send_out_def ltr_int_send_data_def)

lemma grows_tell [simp]: "grows s (tell E d s)"
  by (simp add: tell_def ign_def)

lemma grows_usleep [simp]: "grows s (ltr_int_usleep n s)"
  by (simp add: ltr_int_usleep_def)

lemma grows_hear [simp]: "grows s (snd (snd (hear E t s)))"
  by (simp add: grows_def) (simp add: hear_def ltr_int_receive_data_def Let_def log_io_def split: prod.split)

lemma grows_hear_ign [simp]: "grows s (hear_ign E t s)"
  by (simp add: hear_ign_def)

lemma grows_leds [simp]: "grows s (led_off E l s)" "grows s (led_on E l s)"
  by (simp_all add: grows_def led_off_def led_on_def ign_def turn_led_off_tir_def turn_led_on_tir_def
      wiggle_leds_tir_def send_out_def ltr_int_send_data_def ltr_int_usleep_def Let_def)

lemma grows_ign [simp]:
  "grows s (ign (flush_fifo_tir E) s)" "grows s (ign (ltr_int_set_threshold_tir E v) s)"
  "grows s (ign (set_exposure E w) s)" "grows s (ign (control_ir_led_tir E P b) s)"
  "grows s (ign (control_status_led_tir E P b c) s)" "grows s (ign (turn_off_status_led_tir5 E) s)"
  "grows s (ign (set_status_led_tir5 E P b) s)" "grows s (ign (set_status_led_tir4 E b) s)"
  by (auto simp: grows_def ign_def flush_fifo_tir_def ltr_int_set_threshold_tir_def set_exposure_def control_ir_led_tir_def
      control_status_led_tir_def turn_off_status_led_tir5_def set_status_led_tir5_def set_status_led_tir4_def
      switch_red_def switch_green_def led_off_def led_on_def turn_led_off_tir_def turn_led_on_tir_def
      wiggle_leds_tir_def send_out_def ltr_int_send_data_def ltr_int_usleep_def Let_def dev_cfg_def log_io_def)

lemma grows_steps: "(\<And>f s. f \<in> set fs \<Longrightarrow> grows s (f s)) \<Longrightarrow> grows s (steps fs s)"
  by (induction fs arbitrary: s) (auto intro: grows_trans)

lemma grows_when [simp]: "(\<And>s. grows s (f s)) \<Longrightarrow> grows s (when_do b f s)"
  by (simp add: when_do_def)

lemma grows_flush:
  assumes "flush_packets E s = Some s'"
  shows "grows s s'"
proof (rule flush_packets.raw_induct [OF _ assms, where P = "\<lambda>_. grows"])
  fix rec and E :: usb_env and s s' :: "'a hwst_scheme"
  assume IH: "\<And>E s s'. rec E s = Some s' \<Longrightarrow> grows s s'"
    and eq: "(let (ok, t, s) = hear E 100 s in if 0 < t then rec E s else Some s) = Some s'"
  obtain ok t s1 where h: "hear E 100 s = (ok, t, s1)" by (cases "hear E 100 s")
  have g: "grows s s1" using grows_hear [of s E 100] h by simp
  show "grows s s'"
  proof (cases "t > 0")
    case True
    with eq h have "rec E s1 = Some s'" by simp
    from IH [OF this] g show ?thesis by (rule grows_trans [rotated])
  next
    case False
    with eq h g show ?thesis by simp
  qed
qed

lemma grows_request_status: "grows s (snd (request_status E n s))"
proof (induction n arbitrary: s)
  case (Suc n)
  obtain ok s1 where a: "send_out E Get_status s = (ok, s1)" by (cases "send_out E Get_status s")
  obtain ok2 t s2 where b: "hear E 1000 s1 = (ok2, t, s2)" by (cases "hear E 1000 s1")
  have g: "grows s s1" "grows s1 s2" using grows_send [of s E Get_status] grows_hear [of s1 E 1000] a b by simp_all
  moreover have "grows s2 (snd (request_status E n (ltr_int_usleep 10000 s2)))"
    using Suc.IH [of "ltr_int_usleep 10000 s2"] grows_usleep grows_trans by blast
  ultimately show ?case using a b by (auto intro: grows_trans)
qed simp

lemma grows_request_conf: "grows s (snd (request_conf E n s))"
proof (induction n arbitrary: s)
  case (Suc n)
  obtain ok s1 where a: "send_out E Get_conf s = (ok, s1)" by (cases "send_out E Get_conf s")
  obtain ok2 t s2 where b: "hear E 500 s1 = (ok2, t, s2)" by (cases "hear E 500 s1")
  have g: "grows s s1" "grows s1 s2" using grows_send [of s E Get_conf] grows_hear [of s1 E 500] a b by simp_all
  moreover have "grows s2 (snd (request_conf E n (ltr_int_usleep 10000 s2)))"
    using Suc.IH [of "ltr_int_usleep 10000 s2"] grows_usleep grows_trans by blast
  ultimately show ?case using a b by (auto intro: grows_trans)
qed simp

lemma grows_wait_rom3: "grows s (snd (wait_rom_tir3 E n s))"
proof (induction n arbitrary: s)
  case (Suc n)
  obtain ok2 t s2 where b: "hear E 1000 s = (ok2, t, s2)" by (cases "hear E 1000 s")
  have g: "grows s s2" using grows_hear [of s E 1000] b by simp
  moreover have "grows s2 (snd (wait_rom_tir3 E n (ltr_int_usleep 10000 s2)))"
    using Suc.IH [of "ltr_int_usleep 10000 s2"] grows_usleep grows_trans by blast
  ultimately show ?case using b by (auto intro: grows_trans)
qed simp

lemma grows_read_rom3: "grows s (snd (read_rom_data_tir3 E s))"
proof -
  obtain ok s1 where a: "send_out E unk_1 s = (ok, s1)" by (cases "send_out E unk_1 s")
  have "grows s s1" using grows_send [of s E unk_1] a by simp
  moreover have "grows s1 (snd (wait_rom_tir3 E 20 (ltr_int_usleep 6000 s1)))"
    using grows_wait_rom3 grows_usleep grows_trans by blast
  ultimately show ?thesis using a by (auto simp: read_rom_data_tir3_def intro: grows_trans)
qed

lemma grows_read_rom:
  assumes "read_rom_data_tir E s = Some (ok, s')"
  shows "grows s s'"
proof -
  obtain s1 where "flush_packets E s = Some s1" "request_conf E 10 s1 = (ok, s')"
    using assms by (auto simp: read_rom_data_tir_def bind_eq_Some_conv)
  then show ?thesis using grows_flush [of E s s1] grows_request_conf [of s1 E 10] by (auto intro: grows_trans)
qed

lemma read_status_grows:
  assumes "read_status_tir E st s = Some (ok, st', s')"
  shows "grows s s' \<and> (ok \<longrightarrow> (\<exists>p6. rd (ltr_int_packet s') 6 = Some p6 \<and> cfg_flag st' = unat p6))"
proof -
  obtain k s1 where k: "request_status E 20 s = (k, s1)" by (cases "request_status E 20 s")
  then have "grows s s1" using grows_request_status [of s E 20] by simp
  with assms k show ?thesis
    by (cases k) (auto simp: read_status_tir_def bind_eq_Some_conv)
qed

definition cfg_done :: "tir_status_t \<Rightarrow> 'a hwst_scheme \<Rightarrow> bool \<times> tir_status_t \<times> 'a hwst_scheme \<Rightarrow> bool" where
  "cfg_done st s x \<longleftrightarrow> grows s (snd (snd x)) \<and>
     (fst x \<longrightarrow> (cfg_flag st = 2 \<and> snd (snd x) = s) \<or>
        (\<exists>p6. rd (ltr_int_packet (snd (snd x))) 6 = Some p6 \<and> unat p6 = 2))"

lemma wait_cfg_ok:
  assumes "wait_cfg E st s = Some x"
  shows "cfg_done st s x"
proof (rule wait_cfg.raw_induct [OF _ assms, where P = "\<lambda>_. cfg_done"])
  fix rec and E :: usb_env and st and s :: "'a hwst_scheme" and x
  assume IH: "\<And>E st s x. rec E st s = Some x \<Longrightarrow> cfg_done st s x"
    and eq: "(if cfg_flag st = 2 then Some (True, st, s)
      else read_status_tir E st s \<bind> (\<lambda>(ok, st, s). if \<not> ok then Some (False, st, s) else rec E st s)) = Some x"
  show "cfg_done st s x"
  proof (cases "cfg_flag st = 2")
    case True
    with eq show ?thesis by (auto simp: cfg_done_def)
  next
    case False
    with eq obtain ok st1 s1 where r: "read_status_tir E st s = Some (ok, st1, s1)"
      and c: "(if \<not> ok then Some (False, st1, s1) else rec E st1 s1) = Some x"
      by (cases "read_status_tir E st s") auto
    note g = read_status_grows [OF r]
    show ?thesis
    proof (cases ok)
      case False
      with c g show ?thesis by (auto simp: cfg_done_def)
    next
      case True
      with c have "cfg_done st1 s1 x" by (auto intro: IH)
      with g True show ?thesis by (auto simp: cfg_done_def intro: grows_trans)
    qed
  qed
qed

text \<open>The tail of the TrackIR 4 initialisation.\<close>

lemma configure_ok:
  assumes "configure_tir4 E st s = Some (True, s')" and "rd (ltr_int_packet s) 6 = Some p6" and "cfg_flag st = unat p6"
  shows "grows s s' \<and> (\<exists>q. rd (ltr_int_packet s') 6 = Some q \<and> unat q = 2)"
proof (cases "cfg_flag st = 1")
  case True
  let ?tail = "\<lambda>s. steps [when_do (is_tir5 s) (steps [tell E Set_ir_brightness, ign (set_exposure E 0x18F)]),
          ign (ltr_int_set_threshold_tir E 0x82)] s"
  from assms(1) True obtain st1 s1 where w: "wait_cfg E st (tell E Cfg_reload s) = Some (True, st1, s1)"
    and s': "s' = ?tail s1"
    by (auto simp: configure_tir4_def bind_eq_Some_conv split: if_splits)
  have d: "cfg_done st (tell E Cfg_reload s) (True, st1, s1)" by (rule wait_cfg_ok [OF w])
  have p: "ltr_int_packet s' = ltr_int_packet s1" by (simp add: s' when_do_def)
  have "grows u (steps [tell E Set_ir_brightness, ign (set_exposure E 0x18F)] u)" for u :: "'a hwst_scheme"
    by (rule grows_steps) auto
  then have "grows s1 s'" unfolding s' by (intro grows_steps) auto
  moreover have "grows (tell E Cfg_reload s) s1" using d by (simp add: cfg_done_def)
  moreover have "grows s (tell E Cfg_reload s)" by (rule grows_tell)
  ultimately have "grows s s'" by (blast intro: grows_trans)
  moreover have "\<exists>q. rd (ltr_int_packet s1) 6 = Some q \<and> unat q = 2" using d True by (auto simp: cfg_done_def)
  ultimately show ?thesis using p by simp
next
  case False
  with assms show ?thesis by (auto simp: configure_tir4_def split: if_splits)
qed

lemma configure_reload:
  assumes "configure_tir4 E st s = Some (True, s')"
  shows "cfg_flag st = 2 \<and> s' = s \<or> cfg_flag st = 1 \<and> grows (tell E Cfg_reload s) s'"
proof (cases "cfg_flag st = 1")
  case True
  with assms obtain st1 s1 where w: "wait_cfg E st (tell E Cfg_reload s) = Some (True, st1, s1)"
    and s': "s' = steps [when_do (is_tir5 s1) (steps [tell E Set_ir_brightness, ign (set_exposure E 0x18F)]),
          ign (ltr_int_set_threshold_tir E 0x82)] s1"
    by (auto simp: configure_tir4_def bind_eq_Some_conv split: if_splits)
  have "grows u (steps [tell E Set_ir_brightness, ign (set_exposure E 0x18F)] u)" for u :: "'a hwst_scheme"
    by (rule grows_steps) auto
  then have "grows s1 s'" unfolding s' by (intro grows_steps) auto
  then show ?thesis using wait_cfg_ok [OF w] True by (auto simp: cfg_done_def intro: grows_trans)
qed (use assms in \<open>auto simp: configure_tir4_def split: if_splits\<close>)

lemma grows_stop:
  assumes "stop_camera_tir E P s = Some (ok, s')"
  shows "grows s s'"
proof -
  obtain i where "tir_iface s = Some i" using assms by (auto simp: stop_camera_tir_def bind_eq_Some_conv)
  with assms show ?thesis
    by (cases i) (auto simp: stop_camera_tir_def stop_camera_tir2_def stop_camera_tir3_def stop_camera_tir4_def
      stop_camera_tir5_def stop_camera_sn4_def stop_camera_sn3_def simp del: steps_simps intro!: grows_steps)
qed

lemma grows_upload: "grows s (ign (upload_firmware E fw) s)"
proof -
  obtain ok s1 where a: "send_out E Fpga_init s = (ok, s1)" by (cases "send_out E Fpga_init s")
  have g: "grows s s1" using grows_send [of s E Fpga_init] a by simp
  obtain ok2 s2 where b: "upload_chunks E (firmware fw) s1 = (ok2, s2)" by (cases "upload_chunks E (firmware fw) s1")
  have "grows s1 s2" using upload_chunks_trace [OF b] by (auto simp: grows_def)
  with a b g show ?thesis by (auto simp: ign_def upload_firmware_def intro: grows_trans)
qed

lemma grows_stepsI: "grows s t \<Longrightarrow> list_all (\<lambda>f. \<forall>u. grows u (f u)) fs \<Longrightarrow> grows s (steps fs t)"
  by (rule grows_trans, assumption, rule grows_steps) (simp add: list_all_iff)

lemma init_tir4_parts:
  assumes "init_camera_tir4 E P st0 force p_ir s = Some (True, s')"
  shows "\<exists>t3 st1 t4 fw t5 st t6. grows (s\<lparr>ir_on := p_ir\<rparr>) t3 \<and> read_status_tir E st0 t3 = Some (True, st1, t4) \<and>
    load_firmware E t4 = Some (Some fw) \<and>
    t5 = (if force \<or> \<not> fw_loaded st1 \<or> fw_cksum st1 \<noteq> fw_sum fw then snd (upload_firmware E fw t4) else t4) \<and>
    read_status_tir E st1 t5 = Some (True, st, t6) \<and> fw_cksum st = fw_sum fw \<and>
    (cfg_flag st = 2 \<and> s' = (if is_tir5 t6 then tell E Precision_mode t6 else t6) \<or>
     cfg_flag st = 1 \<and> (\<exists>tr. hist s' = hist t6 @ Send (out_ep t6) Cfg_reload # tr)) \<and>
    (\<exists>q. rd (ltr_int_packet s') 6 = Some q \<and> unat q = 2) \<and> grows (s\<lparr>ir_on := p_ir\<rparr>) s'"
proof -
  obtain t1 where t1: "stop_camera_tir E P (s\<lparr>ir_on := p_ir\<rparr>) = Some (True, t1)"
    using assms by (auto simp: init_camera_tir4_def bind_eq_Some_conv split: if_splits)
  then obtain t2 where t2: "flush_packets E t1 = Some t2"
    using assms by (auto simp: init_camera_tir4_def bind_eq_Some_conv split: if_splits)
  then obtain t3 where t3: "read_rom_data_tir E t2 = Some (True, t3)"
    using assms t1 by (auto simp: init_camera_tir4_def bind_eq_Some_conv split: if_splits)
  then obtain st1 t4 where t4: "read_status_tir E st0 t3 = Some (True, st1, t4)"
    using assms t1 t2 by (auto simp: init_camera_tir4_def bind_eq_Some_conv split: if_splits)
  then obtain fw where fw: "load_firmware E t4 = Some (Some fw)"
    using assms t1 t2 t3 by (auto simp: init_camera_tir4_def bind_eq_Some_conv split: if_splits option.splits)
  let ?t5 = "when_do (force \<or> \<not> fw_loaded st1 \<or> fw_cksum st1 \<noteq> fw_sum fw) (ign (upload_firmware E fw)) t4"
  from assms t1 t2 t3 t4 fw obtain st t6 where t6: "read_status_tir E st1 ?t5 = Some (True, st, t6)"
    and ck: "fw_cksum st = fw_sum fw"
    and r: "do { (ok, s) \<leftarrow> configure_tir4 E st t6; if \<not> ok then Some (False, s)
         else Some (True, when_do (is_tir5 s) (tell E Precision_mode) s) } = Some (True, s')"
    by (auto simp: init_camera_tir4_def bind_eq_Some_conv Let_def split: if_splits)
  from r obtain t7 where t7: "configure_tir4 E st t6 = Some (True, t7)"
    and s': "s' = when_do (is_tir5 t7) (tell E Precision_mode) t7"
    by (auto simp: bind_eq_Some_conv split: if_splits)
  obtain p6 where p6: "rd (ltr_int_packet t6) 6 = Some p6" "cfg_flag st = unat p6"
    using read_status_grows [OF t6] by auto
  obtain q where q: "grows t6 t7" "rd (ltr_int_packet t7) 6 = Some q" "unat q = 2"
    using configure_ok [OF t7 p6] by blast
  have g: "grows t7 s'" unfolding s' by simp
  have "grows (s\<lparr>ir_on := p_ir\<rparr>) t1" by (rule grows_stop [OF t1])
  also have "grows t1 t2" by (rule grows_flush [OF t2])
  also have "grows t2 t3" by (rule grows_read_rom [OF t3])
  finally have g3: "grows (s\<lparr>ir_on := p_ir\<rparr>) t3" .
  also have "grows t3 t4" using read_status_grows [OF t4] by simp
  also have "grows t4 ?t5" by (intro grows_when grows_upload)
  also have "grows ?t5 t6" using read_status_grows [OF t6] by simp
  also note q(1)
  also note g
  finally have gs: "grows (s\<lparr>ir_on := p_ir\<rparr>) s'" .
  have h: "hist (tell E Cfg_reload t6) = hist t6 @ [Send (out_ep t6) Cfg_reload]"
    by (simp add: tell_def ign_def send_out_def ltr_int_send_data_def)
  have c: "cfg_flag st = 2 \<and> s' = (if is_tir5 t6 then tell E Precision_mode t6 else t6) \<or>
     cfg_flag st = 1 \<and> (\<exists>tr. hist s' = hist t6 @ Send (out_ep t6) Cfg_reload # tr)"
    using configure_reload [OF t7]
  proof
    assume "cfg_flag st = 2 \<and> t7 = t6" then show ?thesis by (simp add: s' when_do_def)
  next
    assume "cfg_flag st = 1 \<and> grows (tell E Cfg_reload t6) t7"
    then show ?thesis using grows_trans [of "tell E Cfg_reload t6" t7 s'] g h by (auto simp: grows_def)
  qed
  have p: "ltr_int_packet s' = ltr_int_packet t7" by (simp add: s' when_do_def)
  have t5: "?t5 = (if force \<or> \<not> fw_loaded st1 \<or> fw_cksum st1 \<noteq> fw_sum fw then snd (upload_firmware E fw t4) else t4)"
    by (simp add: when_do_def ign_def)
  show ?thesis using g3 t4 fw t6 [unfolded t5] ck c q(2,3) gs unfolding p by blast
qed

text \<open>C5: The initialisation of a TrackIR 4 ends with the right firmware (\<open>tir_hw.c\<close>). When it reports success, then, whatever the camera answered:
  the firmware file was read, and uploaded if it was asked for or the first status did not show it loaded with the file's check sum;
  the status after that shows the file's check sum, and either that the configuration is loaded (flag 2), and
  nothing but the precision mode was sent after it, or that it is not (flag 1), and the command to reload it was sent next; and in the packet received last
  the flag is 2.\<close>

theorem init_camera_tir4_verified:
  assumes "init_camera_tir4 E P st0 force p_ir s = Some (True, s')"
  shows "\<exists>t3 st1 t4 fw t5 st t6. grows (s\<lparr>ir_on := p_ir\<rparr>) t3 \<and> read_status_tir E st0 t3 = Some (True, st1, t4) \<and>
    load_firmware E t4 = Some (Some fw) \<and>
    t5 = (if force \<or> \<not> fw_loaded st1 \<or> fw_cksum st1 \<noteq> fw_sum fw then snd (upload_firmware E fw t4) else t4) \<and>
    read_status_tir E st1 t5 = Some (True, st, t6) \<and> fw_cksum st = fw_sum fw \<and>
    (cfg_flag st = 2 \<and> s' = (if is_tir5 t6 then tell E Precision_mode t6 else t6) \<or>
     cfg_flag st = 1 \<and> (\<exists>tr. hist s' = hist t6 @ Send (out_ep t6) Cfg_reload # tr)) \<and>
    (\<exists>q. rd (ltr_int_packet s') 6 = Some q \<and> unat q = 2) \<and> ir_on s' = p_ir"
proof -
  have "ir_on s' = p_ir" if "grows (s\<lparr>ir_on := p_ir\<rparr>) s'"
    using that dev_cfg_D [of s' "s\<lparr>ir_on := p_ir\<rparr>"] by (simp add: grows_def)
  with init_tir4_parts [OF assms] show ?thesis by blast
qed

text \<open>A camera that answers: its status carries checksum 0 and flag 2.\<close>

definition answering_env :: "bytes \<Rightarrow> usb_env" where
  "answering_env fw = (demo_env fw)\<lparr>u_recv := (\<lambda>h _ _ t. (True,
     if t = 100 then []
     else if last h = Send 1 Get_status then [0x07, 0x20, 0, 1, 0, 0, 2] else [0x14, 0x40, 0]))\<rparr>"

lemma answer_hear:
  assumes "6 < length (ltr_int_packet s)" and "hist s \<noteq> []"
  shows "hear (answering_env fw) t s = (True,
    if t = 100 then 0 else if last (hist s) = Send 1 Get_status then 7 else 3,
    (log_io (Recv (cfg_in_ep s) (length (ltr_int_packet s)) t) s)\<lparr>ltr_int_packet :=
      (if t = 100 then [] else if last (hist s) = Send 1 Get_status then [0x07, 0x20, 0, 1, 0, 0, 2] else [0x14, 0x40, 0]) @
      drop (if t = 100 then 0 else if last (hist s) = Send 1 Get_status then 7 else 3) (ltr_int_packet s)\<rparr>)"
  using assms by (simp add: hear_def ltr_int_receive_data_def answering_env_def Let_def eval_nat_numeral)

lemma answer_send: "send_out (answering_env fw) d s = (True, log_io (Send (out_ep s) d) s)"
  by (simp add: send_out_def ltr_int_send_data_def answering_env_def demo_env_def)

lemma answer_flush:
  assumes "6 < length (ltr_int_packet s)" and "hist s \<noteq> []"
  shows "\<exists>s'. flush_packets (answering_env fw) s = Some s' \<and> grows s s' \<and> hist s' \<noteq> []"
  by (subst flush_packets.simps) (simp add: answer_hear [OF assms] grows_def dev_cfg_def log_io_def)

lemma answer_conf:
  assumes "6 < length (ltr_int_packet s)" and "out_ep s = 1"
  shows "fst (request_conf (answering_env fw) (Suc n) s)"
proof -
  let ?s = "log_io (Send 1 Get_conf) s"
  have "6 < length (ltr_int_packet ?s)" "hist ?s \<noteq> []" using assms by simp_all
  note h = answer_hear [OF this, of fw 500]
  show ?thesis using assms(2) h by (simp add: answer_send rd_def Get_conf_def Get_status_def)
qed

lemma answer_status:
  assumes "6 < length (ltr_int_packet s)" and "out_ep s = 1"
  shows "\<exists>s'. read_status_tir (answering_env fw) st s = Some (True, \<lparr>fw_loaded = True, cfg_flag = 2, fw_cksum = 0\<rparr>, s')"
proof -
  let ?s = "log_io (Send 1 Get_status) s"
  have "6 < length (ltr_int_packet ?s)" "hist ?s \<noteq> []" using assms by simp_all
  note h = answer_hear [OF this, of fw 1000]
  obtain m where m: "(20 :: nat) = Suc m" by (metis num.distinct(1) numeral_eq_iff old.nat.exhaust zero_neq_numeral)
  have "\<exists>s'. request_status (answering_env fw) 20 s = (True, s') \<and>
      take 7 (ltr_int_packet s') = [0x07, 0x20, 0, 1, 0, 0, 2]"
    unfolding m using assms(2) h by (simp add: answer_send rd_def)
  then obtain s' where s': "request_status (answering_env fw) 20 s = (True, s')"
    "take 7 (ltr_int_packet s') = [0x07, 0x20, 0, 1, 0, 0, 2]" by blast
  have l: "6 < length (ltr_int_packet s')" using arg_cong [OF s'(2), of length] by simp
  have "ltr_int_packet s' ! i = [0x07, 0x20, 0, 1, 0, 0, 2] ! i" if "i < 7" for i
    using nth_take [OF that, of "ltr_int_packet s'"] s'(2) by simp
  from this [of 3] this [of 4] this [of 5] this [of 6] l s'(1) show ?thesis
    by (simp add: read_status_tir_def rd_def u32_of_u8_def)
qed

definition junk_status :: tir_status_t where
  "junk_status = \<lparr>fw_loaded = False, cfg_flag = 0, fw_cksum = 5\<rparr>"


lemma grows_out: "grows s s' \<Longrightarrow> out_ep s' = out_ep s \<and> length (ltr_int_packet s') = length (ltr_int_packet s) \<and> hw_device s' = hw_device s"
  by (auto simp: grows_def dev_cfg_def)

lemma answer_load: "hw_device s = TIR4 \<Longrightarrow> load_firmware (answering_env []) s = Some (Some \<lparr>firmware = [], fw_sum = 0\<rparr>)"
  by (simp add: load_firmware_def ltr_int_find_firmware_def answering_env_def demo_env_def FW_SIZE_INCREMENT_def cksum_firmware_def)

lemma answer_init:
  assumes "tir_iface s = Some tir4" and "hw_device s = TIR4" and "out_ep s = 1" and "6 < length (ltr_int_packet s)"
  shows "\<exists>s'. init_camera_tir4 (answering_env []) P st0 False p_ir s = Some (True, s')"
proof -
  let ?E = "answering_env []"
  have "tir_iface (s\<lparr>ir_on := p_ir\<rparr>) = Some tir4" using assms(1) by simp
  then obtain t1 where t1: "stop_camera_tir ?E P (s\<lparr>ir_on := p_ir\<rparr>) = Some (True, t1)" using stop_camera_dark by blast
  have g1: "grows (s\<lparr>ir_on := p_ir\<rparr>) t1" by (rule grows_stop [OF t1])
  have l1: "6 < length (ltr_int_packet t1)" "out_ep t1 = 1" "hw_device t1 = TIR4" using grows_out [OF g1] assms by simp_all
  have n1: "hist t1 \<noteq> []" using t1 assms(1)
    by (auto simp: stop_camera_tir_def stop_camera_tir4_def ltr_int_usleep_def)
  obtain t2 where t2: "flush_packets ?E t1 = Some t2" "grows t1 t2" "hist t2 \<noteq> []" using answer_flush [OF l1(1) n1] by blast
  have l2: "6 < length (ltr_int_packet t2)" "out_ep t2 = 1" "hw_device t2 = TIR4" using grows_out [OF t2(2)] l1 by simp_all
  obtain t2' where t2': "flush_packets ?E t2 = Some t2'" "grows t2 t2'" using answer_flush [OF l2(1) t2(3)] by blast
  have l2': "6 < length (ltr_int_packet t2')" "out_ep t2' = 1" using grows_out [OF t2'(2)] l2 by simp_all
  obtain m where m: "(10 :: nat) = Suc m" by (metis num.distinct(1) numeral_eq_iff old.nat.exhaust zero_neq_numeral)
  obtain t3 where t3: "read_rom_data_tir ?E t2 = Some (True, t3)"
    using answer_conf [OF l2', of "[]" m] t2'(1) unfolding read_rom_data_tir_def m by (metis Option.bind.simps(2) prod.collapse)
  have l3: "6 < length (ltr_int_packet t3)" "out_ep t3 = 1" "hw_device t3 = TIR4"
    using grows_out [OF grows_read_rom [OF t3]] l2 by simp_all
  obtain t4 where t4: "read_status_tir ?E st0 t3 = Some (True, \<lparr>fw_loaded = True, cfg_flag = 2, fw_cksum = 0\<rparr>, t4)"
    using answer_status [OF l3(1,2)] by blast
  have l4: "6 < length (ltr_int_packet t4)" "out_ep t4 = 1" "hw_device t4 = TIR4"
    using grows_out [OF read_status_grows [OF t4, THEN conjunct1]] l3 by simp_all
  note fw = answer_load [OF l4(3)]
  obtain t5 where t5: "read_status_tir ?E \<lparr>fw_loaded = True, cfg_flag = 2, fw_cksum = 0\<rparr> t4 =
      Some (True, \<lparr>fw_loaded = True, cfg_flag = 2, fw_cksum = 0\<rparr>, t5)"
    using answer_status [OF l4(1,2)] by blast
  show ?thesis
    unfolding init_camera_tir4_def t1 Option.bind.simps prod.case Let_def t2(1) t3 t4 fw option.case
    by (simp add: t5 when_do_def configure_tir4_def)
qed

theorem init_camera_tir4_verified_witness:
  "\<exists>s' (t3 :: hwst) t4 (t6 :: hwst) st1 (fw :: firmware_t) (st :: tir_status_t).
     init_camera_tir4 (answering_env []) tirprefs_init junk_status False False demo_hw = Some (True, s') \<and>
     read_status_tir (answering_env []) junk_status t3 = Some (True, st1, t4) \<and> load_firmware (answering_env []) t4 = Some (Some fw) \<and>
     fw_cksum st = fw_sum fw \<and> (cfg_flag st = 2 \<or> (\<exists>tr. hist s' = hist t6 @ Send (out_ep t6) Cfg_reload # tr)) \<and>
     (\<exists>q. rd (ltr_int_packet s') 6 = Some q \<and> unat q = 2)"
proof -
  have "6 < length (ltr_int_packet demo_hw)" by (simp add: demo_hw_def hwst_init_def TIR_PACKET_SIZE_def)
  then obtain s' where s': "init_camera_tir4 (answering_env []) tirprefs_init junk_status False False demo_hw = Some (True, s')"
    using answer_init [of demo_hw tirprefs_init junk_status False] demo_hw_iface by auto
  from init_camera_tir4_verified [OF this] s' show ?thesis by blast
qed

lemma grows_init4:
  assumes "init_camera_tir4 E P st0 force b s = Some (True, s')"
  shows "grows (s\<lparr>ir_on := b\<rparr>) s'"
proof -
  from init_tir4_parts [OF assms] show ?thesis by blast
qed

lemma grows_init5:
  assumes "init_camera_tir5 E P st0 force b s = Some (True, s')"
  shows "grows (s\<lparr>ir_on := b\<rparr>) s'"
proof -
  let ?fs = "[ign (control_ir_led_tir E P True), ign (flush_fifo_tir E), ign (set_exposure E 0x18F)]"
  from assms obtain ok1 t1 where t1: "stop_camera_tir E P (s\<lparr>ir_on := b\<rparr>) = Some (ok1, t1)"
    by (auto simp: init_camera_tir5_def bind_eq_Some_conv)
  with assms obtain ok2 t2 where t2: "read_rom_data_tir E t1 = Some (ok2, t2)"
    by (auto simp: init_camera_tir5_def bind_eq_Some_conv)
  with assms t1 obtain ok3 st t3 where t3: "read_status_tir E st0 (steps ?fs t2) = Some (ok3, st, t3)"
    by (auto simp: init_camera_tir5_def bind_eq_Some_conv Let_def)
  with assms t1 t2 obtain fw where fw: "load_firmware E t3 = Some (Some fw)"
    by (auto simp: init_camera_tir5_def bind_eq_Some_conv Let_def split: option.splits)
  let ?gs = "[ign (upload_firmware E fw), tell E unk_7, ign (flush_fifo_tir E), tell E Camera_stop]"
  let ?hs = "[tell E Cfg_reload, ign (ltr_int_set_threshold_tir E 0x96), ign (set_exposure E 0x18F),
         ign (control_ir_led_tir E P True), ign (control_status_led_tir E P False False),
         ign (control_status_led_tir E P False False), tell E Precision_mode,
         ign (control_status_led_tir E P False False), ign (control_ir_led_tir E P True),
         ign (ltr_int_set_threshold_tir E 0x76), ign (set_exposure E 0x15E),
         ign (control_status_led_tir E P False False), tell E Precision_mode, ign (flush_fifo_tir E),
         tell E Camera_stop, ign (control_ir_led_tir E P True), tell E Video_on]"
  from assms t1 t2 t3 fw obtain ok4 st4 t4 where t4: "read_status_tir E st (steps ?gs t3) = Some (ok4, st4, t4)"
    and s': "s' = steps ?hs t4"
    by (auto simp: init_camera_tir5_def bind_eq_Some_conv Let_def simp del: steps_simps)
  have "grows (s\<lparr>ir_on := b\<rparr>) t1" by (rule grows_stop [OF t1])
  also have "grows t1 t2" by (rule grows_read_rom [OF t2])
  also have "grows t2 (steps ?fs t2)" by (rule grows_steps) auto
  also have "grows (steps ?fs t2) t3" using read_status_grows [OF t3] by simp
  also have "grows t3 (steps ?gs t3)" by (rule grows_steps) (auto simp: grows_upload)
  also have "grows (steps ?gs t3) t4" using read_status_grows [OF t4] by simp
  also have "grows t4 s'" unfolding s' by (rule grows_steps) auto
  finally show ?thesis .
qed

lemma grows_open_pipe: "grows s (snd (ltr_int_open_sn4_pipe E s))"
  by (auto simp: ltr_int_open_sn4_pipe_def grows_def dev_cfg_def log_io_def Let_def)

lemma grows_configure_sn4:
  assumes "configure_sn4 E fw st s = Some (True, s')"
  shows "grows s s'"
proof -
  let ?fs = "[ign (upload_firmware E fw), tell E unk_7, tell E unk_e]"
  let ?gs = "[tell E unk_9, tell E unk_a, tell E unk_b, tell E unk_c, tell E unk_d, ign (ltr_int_set_threshold_tir E 0x78)]"
  from assms obtain t1 where t1: "flush_packets E (steps ?fs s) = Some t1"
    by (auto simp: configure_sn4_def bind_eq_Some_conv Let_def simp del: steps_simps)
  with assms obtain st2 t2 where t2: "read_status_tir E st t1 = Some (True, st2, t2)"
    by (auto simp: configure_sn4_def bind_eq_Some_conv Let_def split: if_splits simp del: steps_simps)
  have "grows s (steps ?fs s)" by (rule grows_steps) (auto simp: grows_upload)
  also have "grows (steps ?fs s) t1" by (rule grows_flush [OF t1])
  also have "grows t1 t2" using read_status_grows [OF t2] by simp
  finally have g: "grows s t2" .
  show ?thesis
  proof (cases "cfg_flag st2 = 1")
    case True
    with assms t1 t2 obtain st3 t3 where t3: "wait_cfg E st2 (tell E Cfg_reload t2) = Some (True, st3, t3)"
      and s': "s' = steps ?gs t3"
      by (auto simp: configure_sn4_def bind_eq_Some_conv Let_def split: if_splits simp del: steps_simps)
    have "grows (tell E Cfg_reload t2) t3" using wait_cfg_ok [OF t3] by (simp add: cfg_done_def)
    moreover have "grows t2 (tell E Cfg_reload t2)" by simp
    moreover have "grows t3 s'" unfolding s' by (rule grows_steps) auto
    ultimately show ?thesis using g grows_trans by blast
  next
    case False
    with assms t1 t2 have "s' = t2"
      by (auto simp: configure_sn4_def bind_eq_Some_conv Let_def split: if_splits simp del: steps_simps)
    with g show ?thesis by simp
  qed
qed

lemma grows_init_sn4:
  assumes "init_camera_sn4 E P st0 force b s = Some (True, s')"
  shows "grows (s\<lparr>ir_on := b\<rparr>) s'"
proof -
  let ?fs = "[hear_ign E 100, hear_ign E 100]"
  from assms obtain t1 where t1: "stop_camera_tir E P (s\<lparr>ir_on := b\<rparr>) = Some (True, t1)"
    by (auto simp: init_camera_sn4_def bind_eq_Some_conv split: if_splits)
  with assms obtain t2 where t2: "flush_packets E t1 = Some t2"
    by (auto simp: init_camera_sn4_def bind_eq_Some_conv)
  with assms t1 obtain t3 where t3: "read_rom_data_tir E (steps ?fs t2) = Some (True, t3)"
    by (auto simp: init_camera_sn4_def bind_eq_Some_conv Let_def split: if_splits simp del: steps_simps)
  with assms t1 t2 obtain t4 where t4: "flush_packets E t3 = Some t4"
    by (auto simp: init_camera_sn4_def bind_eq_Some_conv Let_def simp del: steps_simps)
  with assms t1 t2 t3 obtain st t5 where t5: "read_status_tir E st0 t4 = Some (True, st, t5)"
    by (auto simp: init_camera_sn4_def bind_eq_Some_conv Let_def split: if_splits simp del: steps_simps)
  with assms t1 t2 t3 t4 obtain fw where fw: "load_firmware E t5 = Some (Some fw)"
    by (auto simp: init_camera_sn4_def bind_eq_Some_conv Let_def split: if_splits option.splits simp del: steps_simps)
  have "init_camera_sn4 E P st0 force b s = do {
       (ok, s) \<leftarrow> (if force \<or> \<not> fw_loaded st \<or> fw_cksum st \<noteq> fw_sum fw
                  then configure_sn4 E fw st t5 else Some (True, t5));
       if \<not> ok then Some (False, s)
       else Some (True, snd (ltr_int_open_sn4_pipe E s))
     }"
    unfolding init_camera_sn4_def t1 Option.bind.simps prod.case Let_def t2 t3 t4 t5 fw option.case
    by (simp only: not_True_eq_False if_False)
  with assms obtain t6 where "(if force \<or> \<not> fw_loaded st \<or> fw_cksum st \<noteq> fw_sum fw
                  then configure_sn4 E fw st t5 else Some (True, t5)) = Some (True, t6)"
    and s': "s' = snd (ltr_int_open_sn4_pipe E t6)"
    by (cases "if force \<or> \<not> fw_loaded st \<or> fw_cksum st \<noteq> fw_sum fw
                  then configure_sn4 E fw st t5 else Some (True, t5)") (auto split: if_split_asm)
  then have g6: "grows t5 t6" by (auto intro: grows_configure_sn4 split: if_splits)
  have "grows (s\<lparr>ir_on := b\<rparr>) t1" by (rule grows_stop [OF t1])
  also have "grows t1 t2" by (rule grows_flush [OF t2])
  also have "grows t2 (steps ?fs t2)" by (rule grows_steps) auto
  also have "grows (steps ?fs t2) t3" by (rule grows_read_rom [OF t3])
  also have "grows t3 t4" by (rule grows_flush [OF t4])
  also have "grows t4 t5" using read_status_grows [OF t5] by simp
  also note g6
  also have "grows t6 s'" unfolding s' by (rule grows_open_pipe)
  finally show ?thesis .
qed

lemma grows_init:
  assumes "init_camera_tir E P st0 force b s = Some (True, s')"
  shows "grows (s\<lparr>ir_on := b\<rparr>) s'"
proof -
  let ?s = "s\<lparr>ir_on := b\<rparr>"
  obtain i where i: "tir_iface s = Some i" using assms by (auto simp: init_camera_tir_def bind_eq_Some_conv)
  show ?thesis
  proof (cases i)
    case tir2
    let ?fs = "[led_off E TIR_LED_IR, ltr_int_usleep 2000, led_off E TIR_LED_RED, ltr_int_usleep 2000,
        led_off E TIR_LED_GREEN, ltr_int_usleep 2000, led_off E TIR_LED_BLUE, ltr_int_usleep 2000,
        tell E Video_off, ltr_int_usleep 2000, led_off E TIR_LED_IR, ltr_int_usleep 2000,
        led_off E TIR_LED_RED, ltr_int_usleep 2000, led_off E TIR_LED_GREEN, ltr_int_usleep 2000,
        led_off E TIR_LED_BLUE, ltr_int_usleep 2000, hear_ign E 100, hear_ign E 100, hear_ign E 100]"
    have "init_camera_tir2 E force b s = Some (True, s')" using assms i tir2 by (simp add: init_camera_tir_def)
    then obtain t where t: "read_rom_data_tir3 E (steps ?fs ?s) = (True, t)"
      and s': "s' = steps [ltr_int_usleep 70000, ign (ltr_int_set_threshold_tir E 0x8c), ltr_int_usleep 2000] t"
      by (auto simp: init_camera_tir2_def Let_def split: prod.splits if_splits)
    have "grows ?s (steps ?fs ?s)" by (rule grows_steps) auto
    also have "grows (steps ?fs ?s) t" using grows_read_rom3 [of "steps ?fs ?s" E] unfolding t by simp
    also have "grows t s'" unfolding s' by (rule grows_steps) auto
    finally show ?thesis .
  next
    case tir3
    let ?fs = "[hear_ign E 100, hear_ign E 100, hear_ign E 100]"
    have "init_camera_tir3 E P force b s = Some (True, s')" using assms i tir3 by (simp add: init_camera_tir_def)
    then obtain t1 t where t1: "stop_camera_tir E P ?s = Some (True, t1)" and t: "read_rom_data_tir3 E (steps ?fs t1) = (True, t)"
      and s': "s' = steps [ltr_int_usleep 70000,
                ign (ltr_int_set_threshold_tir E 0x8c), ltr_int_usleep 70000,
                tell E unk_5, ltr_int_usleep 2000,
                tell E unk_6, ltr_int_usleep 2000,
                ign (ltr_int_set_threshold_tir E 0xd0), ltr_int_usleep 2000,
                tell E unk_8, ltr_int_usleep 2000] t"
      by (auto simp: init_camera_tir3_def Let_def bind_eq_Some_conv split: prod.splits if_splits)
    have "grows ?s t1" by (rule grows_stop [OF t1])
    also have "grows t1 (steps ?fs t1)" by (rule grows_steps) auto
    also have "grows (steps ?fs t1) t" using grows_read_rom3 [of "steps ?fs t1" E] unfolding t by simp
    also have "grows t s'" unfolding s' by (rule grows_steps) auto
    finally show ?thesis .
  next
    case tir4
    have "init_camera_tir4 E P st0 force b s = Some (True, s')" using assms i tir4 by (simp add: init_camera_tir_def)
    then show ?thesis by (rule grows_init4)
  next
    case tir5
    have "init_camera_tir5 E P st0 force b s = Some (True, s')" using assms i tir5 by (simp add: init_camera_tir_def)
    then show ?thesis by (rule grows_init5)
  next
    case smartnav4
    have "init_camera_sn4 E P st0 force b s = Some (True, s')" using assms i smartnav4 by (simp add: init_camera_tir_def)
    then show ?thesis by (rule grows_init_sn4)
  next
    case smartnav3
    let ?fs = "[hear_ign E 100, hear_ign E 100, hear_ign E 100]"
    have "init_camera_sn3 E P force b s = Some (True, s')" using assms i smartnav3 by (simp add: init_camera_tir_def)
    then obtain t1 where t1: "stop_camera_tir E P ?s = Some (True, t1)" and t: "read_rom_data_tir E (steps ?fs t1) = Some (True, s')"
      by (auto simp: init_camera_sn3_def bind_eq_Some_conv split: if_splits)
    have "grows ?s t1" by (rule grows_stop [OF t1])
    also have "grows t1 (steps ?fs t1)" by (rule grows_steps) auto
    also have "grows (steps ?fs t1) s'" by (rule grows_read_rom [OF t])
    finally show ?thesis .
  qed
qed

text \<open>Which handlers belong to a device, and where it listens and talks.\<close>

fun iface_of :: "dev_found \<Rightarrow> tir_interface option" where
  "iface_of TIR2 = Some tir2"
| "iface_of TIR3 = Some tir3"
| "iface_of TIR4 = Some tir4"
| "iface_of TIR5 = Some tir5"
| "iface_of TIR5V2 = Some tir5"
| "iface_of SMARTNAV4 = Some smartnav4"
| "iface_of SMARTNAV3 = Some smartnav3"
| "iface_of _ = None"

definition eps_of :: "dev_found \<Rightarrow> int \<times> int \<times> int" where
  "eps_of d = (if d \<in> {TIR2, TIR3, SMARTNAV3} then (0x82, 0x82, 0x02)
     else if d = SMARTNAV4 then (0x84, 0x86, 0x02) else (0x82, 0x82, 0x01))"

lemma open_tir_ok:
  assumes "ltr_int_open_tir E P st0 force b s = Some (True, s')"
  shows "\<exists>i. iface_of (hw_device s') = Some i \<and> tir_iface s' = Some i \<and>
    (cfg_in_ep s', ltr_int_data_in_ep s', out_ep s') = eps_of (hw_device s') \<and>
    hw_device s' = u_find E (hist s @ [InitUsb]) \<and> ir_on s' = b \<and> streaming (cam c0 s')"
proof -
  let ?d = "u_find E (hist s @ [InitUsb])"
  let ?s1 = "(log_io FindTir (log_io InitUsb s))\<lparr>hw_device := ?d\<rparr>"
  let ?s2 = "if dev_num ?d \<le> dev_num TIR3 \<or> ?d = SMARTNAV3
                     then ?s1\<lparr>cfg_in_ep := TIR_IN_EP, ltr_int_data_in_ep := TIR_IN_EP, out_ep := TIR3_OUT_EP\<rparr>
                     else if ?d = SMARTNAV4
                     then ?s1\<lparr>cfg_in_ep := SN4_CFG_EP, ltr_int_data_in_ep := SN4_DATA_EP, out_ep := SN4_OUT_EP\<rparr>
                     else ?s1\<lparr>cfg_in_ep := TIR_IN_EP, ltr_int_data_in_ep := TIR_IN_EP, out_ep := TIR_OUT_EP\<rparr>"
  let ?s3 = "log_io (PrepareDevice TIR_CONFIGURATION TIR_INTERFACE) ?s2"
  have i: "(case ?d of
               TIR2 \<Rightarrow> Some tir2 | TIR3 \<Rightarrow> Some tir3 | TIR4 \<Rightarrow> Some tir4
             | TIR5 \<Rightarrow> Some tir5 | TIR5V2 \<Rightarrow> Some tir5
             | SMARTNAV4 \<Rightarrow> Some smartnav4 | SMARTNAV3 \<Rightarrow> Some smartnav3 | _ \<Rightarrow> None) = iface_of ?d"
    by (cases ?d) simp_all
  have nd: "?d \<noteq> NOT_TIR" using assms
    by (auto simp: ltr_int_open_tir_def ltr_int_init_usb_def ltr_int_find_tir_def split: if_splits)
  from assms obtain j t where j: "iface_of ?d = Some j"
    and t: "init_camera_tir E P st0 force b (?s3\<lparr>tir_iface := Some j\<rparr>) = Some (True, t)"
    and st: "\<exists>r. start_camera_tir E P t = Some (r, s')"
    unfolding ltr_int_open_tir_def ltr_int_init_usb_def ltr_int_find_tir_def ltr_int_prepare_device_def i [symmetric]
    by (auto simp: Let_def bind_eq_Some_conv log_io_def split: if_splits option.splits)
  have g: "grows (?s3\<lparr>tir_iface := Some j, ir_on := b\<rparr>) t" using grows_init [OF t] by simp
  then have "tir_iface t = Some j" using dev_cfg_D by (fastforce simp: grows_def)
  from start_camera_runs [OF this] obtain u where
    "start_camera_tir E P t = Some (True, u)" "dev_cfg u = dev_cfg t" "streaming (cam c0 u)" by blast
  with st have v: "dev_cfg s' = dev_cfg t" "streaming (cam c0 s')" by auto
  have d: "dev_cfg s' = dev_cfg (?s3\<lparr>tir_iface := Some j, ir_on := b\<rparr>)" using v(1) g by (simp add: grows_def)
  have eps: "(cfg_in_ep ?s3, ltr_int_data_in_ep ?s3, out_ep ?s3) = eps_of ?d" "hw_device ?s3 = ?d"
    using nd j by (cases ?d; simp add: eps_of_def log_io_def TIR_IN_EP_def TIR3_OUT_EP_def SN4_CFG_EP_def
        SN4_DATA_EP_def SN4_OUT_EP_def TIR_OUT_EP_def)+
  from dev_cfg_D [OF d] eps j v(2) show ?thesis by simp
qed

text \<open>When opening the camera reports success, a device the code supports was found, the handlers and
  the three endpoints (configuration, data, output) are those of that device, the infrared
  light setting is the one asked for, and the camera has been told to stream.\<close>

theorem open_tir_success:
  assumes "ltr_int_open_tir E P st0 force b s = Some (True, s')"
  shows "\<exists>i. iface_of (hw_device s') = Some i \<and> tir_iface s' = Some i \<and>
    (cfg_in_ep s', ltr_int_data_in_ep s', out_ep s') = eps_of (hw_device s') \<and>
    hw_device s' = u_find E (hist s @ [InitUsb]) \<and> ir_on s' = b \<and> streaming (cam c0 s')"
  using assms by (rule open_tir_ok)

lemma answer_open:
  assumes "6 < length (ltr_int_packet s)"
  shows "\<exists>s'. ltr_int_open_tir (answering_env []) P st0 False b s = Some (True, s')"
proof -
  let ?s = "s\<lparr>hw_device := TIR4, cfg_in_ep := TIR_IN_EP, ltr_int_data_in_ep := TIR_IN_EP, out_ep := TIR_OUT_EP,
     hist := hist s @ [InitUsb, FindTir, PrepareDevice 1 0], tir_iface := Some tir4\<rparr>"
  have "tir_iface ?s = Some tir4" "hw_device ?s = TIR4" "out_ep ?s = 1" "6 < length (ltr_int_packet ?s)"
    using assms by (simp_all add: TIR_OUT_EP_def)
  from answer_init [OF this, of P st0 b] obtain t
    where t: "init_camera_tir4 (answering_env []) P st0 False b ?s = Some (True, t)" by blast
  have "grows (?s\<lparr>ir_on := b\<rparr>) t" by (rule grows_init4 [OF t])
  then have "tir_iface t = Some tir4" using dev_cfg_D by (fastforce simp: grows_def)
  then obtain u where u: "start_camera_tir (answering_env []) P t = Some (True, u)" using start_camera_runs by blast
  have "ltr_int_open_tir (answering_env []) P st0 False b s = Some (True, u)"
    using t u
    by (simp add: ltr_int_open_tir_def ltr_int_init_usb_def ltr_int_find_tir_def ltr_int_prepare_device_def
        answering_env_def demo_env_def init_camera_tir_def TIR_CONFIGURATION_def TIR_INTERFACE_def log_io_def Let_def)
  then show ?thesis ..
qed

lemma hwst_init_packet: "6 < length (ltr_int_packet hwst_init)"
  by (simp add: hwst_init_def TIR_PACKET_SIZE_def)

theorem open_tir_success_witness:
  "\<exists>s' i. ltr_int_open_tir (answering_env []) tirprefs_init junk_status False True hwst_init = Some (True, s') \<and>
    iface_of (hw_device s') = Some i \<and> tir_iface s' = Some i \<and> ir_on s' \<and> streaming (cam demo_cam s')"
proof -
  obtain s' where s': "ltr_int_open_tir (answering_env []) tirprefs_init junk_status False True hwst_init = Some (True, s')"
    using answer_open [OF hwst_init_packet] by blast
  from open_tir_success [OF this] s' show ?thesis by blast
qed

lemma request_status_bounded: "\<exists>tr. hist (snd (request_status E n s)) = hist s @ tr \<and> length tr \<le> 3 * n"
proof (induction n arbitrary: s)
  case (Suc n)
  obtain ok s1 where a: "send_out E Get_status s = (ok, s1)" by (cases "send_out E Get_status s")
  obtain ok2 t s2 where b: "hear E 1000 s1 = (ok2, t, s2)" by (cases "hear E 1000 s1")
  have h1: "hist s1 = hist s @ [Send (out_ep s) Get_status]"
    using a by (auto simp: send_out_def ltr_int_send_data_def)
  have h2: "hist s2 = hist s1 @ [Recv (cfg_in_ep s1) (length (ltr_int_packet s1)) 1000]"
    using b by (auto simp: hear_def ltr_int_receive_data_def Let_def log_io_def split: prod.splits)
  obtain tr where "hist (snd (request_status E n (ltr_int_usleep 10000 s2))) = hist (ltr_int_usleep 10000 s2) @ tr"
    "length tr \<le> 3 * n" using Suc.IH by blast
  then show ?case using a b h1 h2 by (auto simp: ltr_int_usleep_def)
qed simp

text \<open>C6: Reading the status always comes back, whatever the camera does, after at most twenty requests (60
  interactions with the device, its waits included), and it never reads outside the packet
  buffer.\<close>

theorem read_status_bounded:
  assumes "7 \<le> length (ltr_int_packet s)"
  shows "\<exists>ok st' s' tr. read_status_tir E st s = Some (ok, st', s') \<and> hist s' = hist s @ tr \<and> length tr \<le> 60 \<and>
    dev_cfg s' = dev_cfg s"
proof -
  obtain ok s1 where r: "request_status E 20 s = (ok, s1)" by (cases "request_status E 20 s")
  obtain tr where tr: "hist s1 = hist s @ tr" "length tr \<le> 60" using request_status_bounded [of E 20 s] r by auto
  have g: "dev_cfg s1 = dev_cfg s" using grows_request_status [of s E 20] r by (simp add: grows_def)
  then have l: "7 \<le> length (ltr_int_packet s1)" using dev_cfg_D [OF g] assms by simp
  then show ?thesis using r tr g by (cases ok) (simp_all add: read_status_tir_def rd_def)
qed

theorem read_status_bounded_witness:
  "\<exists>ok st' s' tr. read_status_tir (demo_env []) junk_status demo_hw = Some (ok, st', s') \<and> hist s' = hist demo_hw @ tr \<and>
    length tr \<le> 60 \<and> dev_cfg s' = dev_cfg demo_hw"
proof -
  have "7 \<le> length (ltr_int_packet demo_hw)" by (simp add: demo_hw_def hwst_init_def TIR_PACKET_SIZE_def)
  then show ?thesis by (rule read_status_bounded)
qed

lemma request_status_silent:
  assumes "\<And>h ep d. u_send E h ep d" and "\<And>h ep n t. u_recv E h ep n t = (True, [])"
  shows "\<exists>s'. request_status E n s = (True, s') \<and> ltr_int_packet s' = ltr_int_packet s"
proof (induction n arbitrary: s)
  case (Suc n)
  have "send_out E Get_status s = (True, log_io (Send (out_ep s) Get_status) s)" for s :: "'a hwst_scheme"
    using assms(1) by (simp add: send_out_def ltr_int_send_data_def)
  moreover have "\<exists>s'. hear E 1000 s = (True, 0, s') \<and> ltr_int_packet s' = ltr_int_packet s" for s :: "'a hwst_scheme"
    using assms(2) by (simp add: hear_def ltr_int_receive_data_def Let_def)
  ultimately obtain s2 where s2: "send_out E Get_status s = (True, log_io (Send (out_ep s) Get_status) s)"
    "hear E 1000 (log_io (Send (out_ep s) Get_status) s) = (True, 0, s2)" "ltr_int_packet s2 = ltr_int_packet s"
    by (metis log_io_simps(2))
  from Suc.IH [of "ltr_int_usleep 10000 s2"] s2 show ?case by simp
qed simp

text \<open>A silent camera: after twenty timeouts the status reported as read is what an earlier packet
  left in the buffer.\<close>

theorem read_status_stale:
  assumes "\<And>h ep d. u_send E h ep d" and "\<And>h ep n t. u_recv E h ep n t = (True, [])"
    and "7 \<le> length (ltr_int_packet s)"
  shows "\<exists>s'. read_status_tir E st s = Some (True, \<lparr>fw_loaded = (ltr_int_packet s ! 3 = 1),
    cfg_flag = unat (ltr_int_packet s ! 6),
    fw_cksum = push_bit 8 (u32_of_u8 (ltr_int_packet s ! 4)) + u32_of_u8 (ltr_int_packet s ! 5)\<rparr>, s')"
proof -
  obtain s1 where s1: "request_status E 20 s = (True, s1)" "ltr_int_packet s1 = ltr_int_packet s"
    using request_status_silent [OF assms(1,2)] by blast
  then show ?thesis using assms(3) by (simp add: read_status_tir_def rd_def)
qed

end
