(* ===== verification/TirImg.thy ===== *)
theory TirImg
  imports TirHw ImageProcess
begin

text \<open>
  \<open>src/tir_img.c\<close>: from the packets of a camera to stripes. The state \<open>tirimg\<close> extends the
  hardware state (the code shares the packet buffer, the data endpoint and the button fifo
  with it) with the statics of the file: the packet number and line counters, the parser's
  position \<open>rb_ptr\<close> in the \<open>rb_size\<close> bytes received, the packet in progress
  (\<open>pk_type\<close>, \<open>None\<close> when none; \<open>pk_limit\<close>, \<open>pk_size\<close>), the image in progress and the image
  processor's statics. Sizes and positions are \<open>nat\<close>; the remaining payload \<open>ps\<close> is an
  unsigned 32 bit number because the code lets it wrap.

  Reading a byte of the packet buffer beyond its end has no result. A loop with an unknown
  number of rounds is a \<open>function\<close> with its termination proof, or, for \<open>process_packet\<close> and
  \<open>ltr_int_read_blobs_tir\<close>, which can run for ever, a \<open>partial_function\<close> over its loop body.
\<close>

record tirimg = hwst +
  pkt_no :: u32
  p_img :: image_t
  current_line :: u32
  im_device :: dev_found
  prev_btns :: u8
  pk_type :: "nat option"
  pk_limit :: nat
  pk_size :: nat
  rb_size :: nat
  rb_ptr :: nat
  im_st :: imgst

text \<open>Handing a stripe to the image processor. The result of \<open>ltr_int_add_stripe\<close> is always true.\<close>

definition put_stripe :: "tirimg \<Rightarrow> stripe_t \<Rightarrow> tirimg option" where
  "put_stripe s t = do {
     (is', im) \<leftarrow> ltr_int_add_stripe (im_st s) t (p_img s);
     Some (s\<lparr>im_st := is', p_img := im\<rparr>)
   }"

text \<open>\<open>(unsigned int)(sum * (sum - 1) / 2.0)\<close>: the product wraps, the division is one of doubles.\<close>

definition run_sum_x :: "u32 \<Rightarrow> u32 option" where
  "run_sum_x sm = flt_to_u32 (fdiv b64 (flt_of_int b64 (uint (sm * (sm - 1)))) (Fin 2))"

definition or_if :: "bool \<Rightarrow> u32 \<Rightarrow> u32 \<Rightarrow> u32" where
  "or_if b m x = (if b then x OR m else x)"

definition flag :: "u8 \<Rightarrow> u8 \<Rightarrow> bool" where
  "flag rest m \<longleftrightarrow> rest AND m \<noteq> 0"

definition plain_stripe :: "u32 \<Rightarrow> u32 \<Rightarrow> u32 \<Rightarrow> stripe_t option" where
  "plain_stripe v h1 h2 = do {
     let sm = h2 - h1 + 1;
     sx \<leftarrow> run_sum_x sm;
     Some \<lparr>vline = v, hstart = h1, hstop = h2, st_sum_x = sx, st_sum = sm, st_points = sm\<rparr>
   }"

subsection \<open>Decoding one stripe at position \<open>p\<close>\<close>

definition stripe_tir2 :: "bytes \<Rightarrow> nat \<Rightarrow> stripe_t option" where
  "stripe_tir2 d p = do {
     b0 \<leftarrow> rd d p; b1 \<leftarrow> rd d (p + 1); b2 \<leftarrow> rd d (p + 2);
     plain_stripe (u32_of_u8 b0) (u32_of_u8 b1) (u32_of_u8 b2)
   }"

definition stripe_sn4 :: "bytes \<Rightarrow> nat \<Rightarrow> stripe_t option" where
  "stripe_sn4 d p = do {
     b0 \<leftarrow> rd d p; b1 \<leftarrow> rd d (p + 1); b2 \<leftarrow> rd d (p + 2); rest \<leftarrow> rd d (p + 3);
     let hs = or_if (flag rest 0x40) 0x400 (or_if (flag rest 0x08) 0x200 (or_if (flag rest 0x01) 0x100 (u32_of_u8 b2)));
     let h0 = or_if (flag rest 0x80) 0x400 (or_if (flag rest 0x10) 0x200 (or_if (flag rest 0x02) 0x100 (u32_of_u8 b1)));
     let v = or_if (flag rest 0x20) 0x200 (or_if (flag rest 0x04) 0x100 (u32_of_u8 b0));
     plain_stripe v h0 hs
   }"

definition stripe_tir4 :: "bytes \<Rightarrow> nat \<Rightarrow> stripe_t option" where
  "stripe_tir4 d p = do {
     b0 \<leftarrow> rd d p; b1 \<leftarrow> rd d (p + 1); b2 \<leftarrow> rd d (p + 2); rest \<leftarrow> rd d (p + 3);
     let v = or_if (flag rest 0x20) 0x100 (u32_of_u8 b0);
     let h0 = or_if (flag rest 0x10) 0x200 (or_if (flag rest 0x80) 0x100 (u32_of_u8 b1));
     let hs = or_if (flag rest 0x08) 0x200 (or_if (flag rest 0x40) 0x100 (u32_of_u8 b2));
     plain_stripe v h0 hs
   }"

definition stripe_tir5 :: "bytes \<Rightarrow> nat \<Rightarrow> stripe_t option" where
  "stripe_tir5 d p = do {
     b0 \<leftarrow> rd d p; b1 \<leftarrow> rd d (p + 1); b2 \<leftarrow> rd d (p + 2); b3 \<leftarrow> rd d (p + 3);
     b4 \<leftarrow> rd d (p + 4); b5 \<leftarrow> rd d (p + 5); b6 \<leftarrow> rd d (p + 6); b7 \<leftarrow> rd d (p + 7);
     let h0 = push_bit 2 (u32_of_u8 b0) OR drop_bit 6 (u32_of_u8 b1);
     let v = push_bit 3 (u32_of_u8 b1 AND 0x3F) OR drop_bit 5 (u32_of_u8 b2 AND 0xE0);
     let pts = push_bit 5 (u32_of_u8 b2 AND 0x1F) OR drop_bit 3 (u32_of_u8 b3);
     let hs = pts + h0 - 1;
     let sx = push_bit 17 (u32_of_u8 b3 AND 7) OR push_bit 9 (u32_of_u8 b4) OR
              push_bit 1 (u32_of_u8 b5) OR drop_bit 7 (u32_of_u8 b6);
     let sm = push_bit 8 (u32_of_u8 b6 AND 0x7F) OR u32_of_u8 b7;
     Some \<lparr>vline = v, hstart = h0, hstop = hs, st_sum_x = sx, st_sum = sm, st_points = pts\<rparr>
   }"

text \<open>The four \<open>process_stripe\<close> functions with a fixed record size: decode and hand over.\<close>

definition process_stripe_tir2 :: "tirimg \<Rightarrow> nat \<Rightarrow> tirimg option" where
  "process_stripe_tir2 s p = do { t \<leftarrow> stripe_tir2 (ltr_int_packet s) p; put_stripe s t }"

definition process_stripe_sn4 :: "tirimg \<Rightarrow> nat \<Rightarrow> tirimg option" where
  "process_stripe_sn4 s p = do { t \<leftarrow> stripe_sn4 (ltr_int_packet s) p; put_stripe s t }"

definition process_stripe_tir4 :: "tirimg \<Rightarrow> nat \<Rightarrow> tirimg option" where
  "process_stripe_tir4 s p = do { t \<leftarrow> stripe_tir4 (ltr_int_packet s) p; put_stripe s t }"

definition process_stripe_tir5 :: "tirimg \<Rightarrow> nat \<Rightarrow> tirimg option" where
  "process_stripe_tir5 s p = do { t \<leftarrow> stripe_tir5 (ltr_int_packet s) p; put_stripe s t }"

text \<open>The greyscale packets of the SmartNav4: the pixels of a stripe up to a zero byte. The byte is
  read before the position is compared with the size.\<close>

function sn4gr_pixels ::
  "bytes \<Rightarrow> nat \<Rightarrow> nat \<Rightarrow> nat \<Rightarrow> nat \<Rightarrow> u32 \<Rightarrow> u32 \<Rightarrow> (nat \<times> nat \<times> u32 \<times> u32) option" where
  "sn4gr_pixels d p sz i j sm sx =
     (case rd d (p + i) of
        None \<Rightarrow> None
      | Some b \<Rightarrow>
          if b \<noteq> 0 \<and> i < sz
          then sn4gr_pixels d p sz (i + 1) (j + 1) (sm + u32_of_u8 b) (sx + of_nat j * u32_of_u8 b)
          else Some (i, j, sm, sx))"
  by pat_completeness auto
termination
  by (relation "measure (\<lambda>(d, p, sz, i, j, sm, sx). sz - i)") auto

declare sn4gr_pixels.simps [simp del]

lemma sn4gr_pixels_mono: "sn4gr_pixels d p sz i j sm sx = Some (i', r) \<Longrightarrow> i \<le> i'"
proof (induction d p sz i j sm sx arbitrary: i' r rule: sn4gr_pixels.induct)
  case (1 d p sz i j sm sx)
  from "1.prems" obtain b where b: "rd d (p + i) = Some b"
    by (cases "rd d (p + i)") (simp_all add: sn4gr_pixels.simps [of d p sz i])
  show ?case
  proof (cases "b \<noteq> 0 \<and> i < sz")
    case True
    with "1.prems" b have "sn4gr_pixels d p sz (i + 1) (j + 1) (sm + u32_of_u8 b) (sx + of_nat j * u32_of_u8 b) = Some (i', r)"
      by (subst (asm) sn4gr_pixels.simps) simp
    from "1.IH" [OF b True this] show ?thesis by simp
  next
    case False
    with "1.prems" b show ?thesis by (subst (asm) sn4gr_pixels.simps) auto
  qed
qed

function sn4gr_loop :: "nat \<Rightarrow> nat \<Rightarrow> nat \<Rightarrow> u32 \<Rightarrow> tirimg \<Rightarrow> tirimg option" where
  "sn4gr_loop p sz i last_vline s =
     (if i < sz - 4 then do {
        let d = ltr_int_packet s;
        b0 \<leftarrow> rd d (p + i); b1 \<leftarrow> rd d (p + i + 1); rest \<leftarrow> rd d (p + i + 2);
        let h0 = or_if (flag rest 0x02) 0x200 (or_if (flag rest 0x01) 0x100 (u32_of_u8 b0));
        let v = or_if (flag rest 0x04) 0x100 (u32_of_u8 b1);
        if v < last_vline then Some s
        else do {
          (i', j, sm, sx) \<leftarrow> sn4gr_pixels d p sz (i + 3) 1 0 0;
          let pts = of_nat (j - 1);
          b \<leftarrow> rd d (p + i');
          if b = 0 then do {
            s \<leftarrow> put_stripe s \<lparr>vline = v, hstart = h0, hstop = h0 + pts - 1, st_sum_x = sx, st_sum = sm, st_points = pts\<rparr>;
            sn4gr_loop p sz (i' + 1) v s
          } else Some s
        }
      } else Some s)"
  by pat_completeness auto
termination
  by (relation "measure (\<lambda>(p, sz, i, l, s). sz - i)") (auto dest!: sn4gr_pixels_mono)

definition process_stripe_sn4gr :: "tirimg \<Rightarrow> nat \<Rightarrow> nat \<Rightarrow> (bool \<times> tirimg) option" where
  "process_stripe_sn4gr s p sz =
     (if sz < 4 then Some (False, s)
      else do { s \<leftarrow> sn4gr_loop p sz 0 0 s; Some (True, s) })"

subsection \<open>Frame boundaries and packet headers\<close>

definition is_next_frame_tir :: "tirimg \<Rightarrow> nat \<Rightarrow> (bool \<times> tirimg) option" where
  "is_next_frame_tir s p = do {
     b0 \<leftarrow> rd (ltr_int_packet s) p;
     b3 \<leftarrow> rd (ltr_int_packet s) (p + 3);
     let v = or_if (flag b3 0x20) 0x100 (u32_of_u8 b0);
     Some (v < current_line s, s\<lparr>current_line := v\<rparr>)
   }"

definition is_next_frame_tir2 :: "tirimg \<Rightarrow> nat \<Rightarrow> (bool \<times> tirimg) option" where
  "is_next_frame_tir2 s p = do {
     b0 \<leftarrow> rd (ltr_int_packet s) p;
     let v = u32_of_u8 b0;
     Some (v < current_line s, s\<lparr>current_line := v\<rparr>)
   }"

definition check_paket_header_tir5 :: "bytes \<Rightarrow> nat \<Rightarrow> bool option" where
  "check_paket_header_tir5 d p = do {
     b0 \<leftarrow> rd d p; b1 \<leftarrow> rd d (p + 1); b2 \<leftarrow> rd d (p + 2); b3 \<leftarrow> rd d (p + 3);
     Some ((b0 XOR b1 XOR b2 XOR b3) = 0xAA)
   }"

definition check_paket_header_sn4 :: "bytes \<Rightarrow> nat \<Rightarrow> bool option" where
  "check_paket_header_sn4 d p = do {
     csum \<leftarrow> foldM (\<lambda>csum i. do { b \<leftarrow> rd d (p + i); Some (csum XOR b) }) 0 [0..<8];
     Some (csum = 0xAA)
   }"

text \<open>A big-endian 32 bit number at position \<open>p\<close>.\<close>

definition be32 :: "bytes \<Rightarrow> nat \<Rightarrow> u32 option" where
  "be32 d p = do {
     b0 \<leftarrow> rd d p; b1 \<leftarrow> rd d (p + 1); b2 \<leftarrow> rd d (p + 2); b3 \<leftarrow> rd d (p + 3);
     let ps = u32_of_u8 b0;
     let ps = push_bit 8 ps + u32_of_u8 b1;
     let ps = push_bit 8 ps + u32_of_u8 b2;
     Some (push_bit 8 ps + u32_of_u8 b3)
   }"

subsection \<open>One packet\<close>

text \<open>The loops over the payload. \<open>ps\<close> counts it down and wraps when the payload is not a multiple of the
  record size; the reads then run on until the end of the buffer.\<close>

lemma put_stripe_packet: "put_stripe s t = Some s' \<Longrightarrow> ltr_int_packet s' = ltr_int_packet s"
  by (auto simp: put_stripe_def bind_eq_Some_conv)

lemma process_stripe_packet:
  "process_stripe_tir5 s p = Some s' \<Longrightarrow> ltr_int_packet s' = ltr_int_packet s \<and> p < length (ltr_int_packet s)"
  "process_stripe_tir4 s p = Some s' \<Longrightarrow> ltr_int_packet s' = ltr_int_packet s \<and> p < length (ltr_int_packet s)"
  "process_stripe_sn4 s p = Some s' \<Longrightarrow> ltr_int_packet s' = ltr_int_packet s \<and> p < length (ltr_int_packet s)"
  by (auto simp: process_stripe_tir5_def process_stripe_tir4_def process_stripe_sn4_def stripe_tir5_def stripe_tir4_def
      stripe_sn4_def bind_eq_Some_conv rd_eq_Some_iff dest: put_stripe_packet)

function tir5_loop :: "u8 \<Rightarrow> u32 \<Rightarrow> tirimg \<Rightarrow> tirimg option" where
  "tir5_loop type ps s =
     (if ps > 0 then
        (if type = 0 then do {
           s' \<leftarrow> process_stripe_tir4 s (rb_ptr s);
           tir5_loop type (ps - 4) (s'\<lparr>rb_ptr := rb_ptr s + 4\<rparr>)
         } else do {
           s' \<leftarrow> process_stripe_tir5 s (rb_ptr s);
           tir5_loop type (ps - 8) (s'\<lparr>rb_ptr := rb_ptr s + 8\<rparr>)
         })
      else Some s)"
  by pat_completeness auto
termination
  by (relation "measure (\<lambda>(type, ps, s). length (ltr_int_packet s) - rb_ptr s)") (auto dest: process_stripe_packet)

definition process_packet_tir5 :: "tirimg \<Rightarrow> nat \<Rightarrow> nat \<Rightarrow> (bool \<times> tirimg) option" where
  "process_packet_tir5 s pktsize limit = do {
     let d = ltr_int_packet s;
     type \<leftarrow> rd d (rb_ptr s + 2);
     if type = 0 \<or> type = 5 then
       (if limit < 4 then Some (False, s) else do {
          ok \<leftarrow> check_paket_header_tir5 d (rb_ptr s);
          if \<not> ok then Some (False, s) else do {
            ps \<leftarrow> be32 d (limit - 4);
            if ps \<noteq> of_nat pktsize - 8 then Some (False, s) else do {
              n \<leftarrow> rd d (rb_ptr s);
              s \<leftarrow> tir5_loop type ps (s\<lparr>pkt_no := u32_of_u8 n, rb_ptr := rb_ptr s + 4\<rparr>);
              Some (True, s)
            }
          }
        })
     else Some (False, s)
   }"

function sn4_loop :: "u32 \<Rightarrow> tirimg \<Rightarrow> tirimg option" where
  "sn4_loop ps s =
     (if ps > 0 then do {
        s' \<leftarrow> process_stripe_sn4 s (rb_ptr s);
        sn4_loop (ps - 4) (s'\<lparr>rb_ptr := rb_ptr s + 4\<rparr>)
      } else Some s)"
  by pat_completeness auto
termination
  by (relation "measure (\<lambda>(ps, s). length (ltr_int_packet s) - rb_ptr s)") (auto dest: process_stripe_packet)

text \<open>The button event: the buttons and a time stamp, which is left out.\<close>

definition sn4_buttons :: "usb_env \<Rightarrow> tirimg \<Rightarrow> u8 \<Rightarrow> tirimg" where
  "sn4_buttons E s btns =
     (if btns \<noteq> prev_btns s then ltr_int_send_sn4_data E [btns] (s\<lparr>prev_btns := btns\<rparr>) else s)"

definition process_packet_sn4 :: "usb_env \<Rightarrow> tirimg \<Rightarrow> nat \<Rightarrow> nat \<Rightarrow> (bool \<times> tirimg) option" where
  "process_packet_sn4 E s pktsize limit = do {
     let d = ltr_int_packet s;
     btns \<leftarrow> rd d (rb_ptr s);
     type \<leftarrow> rd d (rb_ptr s + 1);
     if limit < 12 then Some (False, s\<lparr>rb_ptr := rb_ptr s + limit\<rparr>) else do {
       ok \<leftarrow> check_paket_header_sn4 d (rb_ptr s);
       if \<not> ok then Some (False, s\<lparr>rb_ptr := rb_ptr s + limit\<rparr>) else do {
         ps \<leftarrow> be32 d (limit - 4);
         if ps \<noteq> of_nat pktsize - 4 then Some (False, s\<lparr>rb_ptr := rb_ptr s + limit\<rparr>) else do {
           let s = sn4_buttons E s btns;
           let ps = ps - 8;
           if type = 4 then
             (if ps > 8 then do {
                let ps = ps - 4;
                let s = s\<lparr>rb_ptr := rb_ptr s + (4 + 8)\<rparr>;
                (have, s) \<leftarrow> process_stripe_sn4gr s (rb_ptr s) (unat ps);
                Some (have, s\<lparr>rb_ptr := rb_ptr s + limit\<rparr>)
              } else Some (False, s\<lparr>rb_ptr := rb_ptr s + limit\<rparr>))
           else if type = 0 then do {
             n \<leftarrow> be32 d (rb_ptr s + 4);
             s \<leftarrow> sn4_loop ps (s\<lparr>pkt_no := n, rb_ptr := rb_ptr s + 8\<rparr>);
             Some (True, s\<lparr>rb_ptr := rb_ptr s + 4\<rparr>)
           }
           else Some (False, s\<lparr>rb_ptr := rb_ptr s + limit\<rparr>)
         }
       }
     }
   }"

text \<open>The do-while loops of the TrackIR 4 and TrackIR 2 packets. The end of a round: past the limit the
  loop stops, and a 0x3E byte packet has two more bytes.\<close>

definition past_limit :: "nat \<Rightarrow> nat \<Rightarrow> tirimg \<Rightarrow> tirimg" where
  "past_limit pktsize limit s =
     (if limit \<le> rb_ptr s \<and> pktsize = 0x3E then s\<lparr>rb_ptr := rb_ptr s + 2\<rparr> else s)"

function process_packet_tir4 :: "tirimg \<Rightarrow> nat \<Rightarrow> nat \<Rightarrow> (bool \<times> tirimg) option" where
  "process_packet_tir4 s pktsize limit = do {
     let d = ltr_int_packet s;
     let p = rb_ptr s;
     b0 \<leftarrow> rd d p; b1 \<leftarrow> rd d (p + 1); b2 \<leftarrow> rd d (p + 2); b3 \<leftarrow> rd d (p + 3);
     if b0 = 0 \<and> b1 = 0 \<and> b2 = 0 \<and> b3 = 0 then
       Some (True, past_limit pktsize limit (s\<lparr>current_line := 0, rb_ptr := p + 4\<rparr>))
     else do {
       (next', s1) \<leftarrow> is_next_frame_tir s p;
       if next' then Some (True, past_limit pktsize limit s1)
       else do {
         s2 \<leftarrow> process_stripe_tir4 s1 p;
         let s3 = s2\<lparr>rb_ptr := p + 4\<rparr>;
         if limit \<le> p + 4 then Some (False, past_limit pktsize limit s3)
         else process_packet_tir4 s3 pktsize limit
       }
     }
   }"
  by pat_completeness auto
termination
  by (relation "measure (\<lambda>(s, n, limit). limit - rb_ptr s)") auto

function process_packet_tir2 :: "tirimg \<Rightarrow> nat \<Rightarrow> nat \<Rightarrow> (bool \<times> tirimg) option" where
  "process_packet_tir2 s pktsize limit = do {
     let d = ltr_int_packet s;
     let p = rb_ptr s;
     b0 \<leftarrow> rd d p; b1 \<leftarrow> rd d (p + 1); b2 \<leftarrow> rd d (p + 2);
     if b0 = 0 \<and> b1 = 0 \<and> b2 = 0 then
       Some (True, past_limit pktsize limit (s\<lparr>current_line := 0, rb_ptr := p + 3\<rparr>))
     else do {
       (next', s1) \<leftarrow> is_next_frame_tir2 s p;
       if next' then Some (True, past_limit pktsize limit s1)
       else do {
         s2 \<leftarrow> process_stripe_tir2 s1 p;
         let s3 = s2\<lparr>rb_ptr := p + 3\<rparr>;
         if limit \<le> p + 3 then Some (False, past_limit pktsize limit s3)
         else process_packet_tir2 s3 pktsize limit
       }
     }
   }"
  by pat_completeness auto
termination
  by (relation "measure (\<lambda>(s, n, limit). limit - rb_ptr s)") auto

subsection \<open>The packet dispatcher\<close>

text \<open>Reading the packet type when none is in progress; \<open>None\<close> inside is the unknown type.\<close>

definition packet_head :: "tirimg \<Rightarrow> (tirimg option) option" where
  "packet_head s =
     (if pk_type s \<noteq> None then Some (Some s) else do {
        let d = ltr_int_packet s;
     let p = rb_ptr s;
        t \<leftarrow> rd d (p + 1);
        len \<leftarrow> rd d p;
        let s = s\<lparr>pk_type := Some (unat t)\<rparr>;
        if t = 0x20 \<or> t = 0x40 \<or> t = 0x1C then
          Some (Some (s\<lparr>pk_size := unat len, pk_limit := p + unat len, rb_ptr := p + 2\<rparr>))
        else if t = 0x10 then do {
          k \<leftarrow> rd d (p + 2);
          if k = 0 \<or> k = 5 then Some (Some (s\<lparr>pk_size := rb_size s, pk_limit := p + rb_size s\<rparr>))
          else Some (Some (s\<lparr>pk_size := unat len, pk_limit := p + unat len\<rparr>))
        }
        else if t = 0x00 \<or> t = 0x04 then
          Some (Some (s\<lparr>pk_size := rb_size s, pk_limit := p + rb_size s\<rparr>))
        else Some None
      })"

text \<open>The switch on the packet type.\<close>

definition dispatch_packet :: "usb_env \<Rightarrow> nat \<Rightarrow> tirimg \<Rightarrow> (bool \<times> tirimg) option" where
  "dispatch_packet E t s =
     (if t = 0x20 \<or> t = 0x40 then Some (False, s\<lparr>rb_ptr := pk_limit s, pk_type := None\<rparr>)
      else if t = 0x10 then do {
        (have, s') \<leftarrow> process_packet_tir5 s (pk_size s) (pk_limit s);
        Some (have, s'\<lparr>rb_ptr := pk_limit s, pk_type := None\<rparr>)
      }
      else if t = 0x1C then do {
        (have, s') \<leftarrow> (if im_device s = TIR2 then process_packet_tir2 s (pk_size s) (pk_limit s)
                      else process_packet_tir4 s (pk_size s) (pk_limit s));
        Some (have, if pk_limit s \<le> rb_ptr s' then s'\<lparr>pk_type := None\<rparr> else s')
      }
      else if t = 0x04 \<or> t = 0x00 then do {
        (have, s') \<leftarrow> process_packet_sn4 E s (pk_size s) (pk_limit s);
        Some (have, s'\<lparr>rb_ptr := pk_limit s, pk_type := None\<rparr>)
      }
      else Some (False, s\<lparr>pk_type := None\<rparr>))"

text \<open>One round of the loop: \<open>Inl r\<close> when it returns \<open>r\<close>, \<open>Inr\<close> when it goes round again.\<close>

definition packet_round :: "usb_env \<Rightarrow> tirimg \<Rightarrow> (bool \<times> tirimg + tirimg) option" where
  "packet_round E s =
     (if rb_size s \<le> rb_ptr s then Some (Inl (False, s)) else do {
        h \<leftarrow> packet_head s;
        (case h of
           None \<Rightarrow> Some (Inl (False, s\<lparr>pk_type := None, rb_ptr := rb_size s\<rparr>))
         | Some s \<Rightarrow>
           if rb_size s < pk_limit s then Some (Inl (False, s))
           else do {
             (have, s) \<leftarrow> dispatch_packet E (the (pk_type s)) s;
             Some (if have then Inl (True, s) else Inr s)
           })
      })"

partial_function (option) process_packet :: "usb_env \<Rightarrow> tirimg \<Rightarrow> (bool \<times> tirimg) option" where
  "process_packet E s = do {
     r \<leftarrow> packet_round E s;
     (case r of Inl x \<Rightarrow> Some x | Inr s \<Rightarrow> process_packet E s)
   }"

text \<open>Reading packets until a frame is complete, the transfer fails or a request arrives.\<close>

partial_function (option) read_frame :: "usb_env \<Rightarrow> tirimg \<Rightarrow> (bool option \<times> tirimg) option" where
  "read_frame E s = do {
     let (ok, s) =
       (if rb_size s \<le> rb_ptr s
        then (let (ok, n, s) = ltr_int_receive_data E (ltr_int_data_in_ep s) 1000 (s\<lparr>rb_ptr := 0\<rparr>)
              in (ok, s\<lparr>rb_size := n\<rparr>))
        else (True, s));
     if \<not> ok then Some (None, s)
     else do {
       (have, s) \<leftarrow> process_packet E s;
       if have then Some (Some True, s)
       else (let (req, s) = ltr_int_got_new_request E s
             in if req then Some (Some False, s) else read_frame E s)
     }
   }"

definition ltr_int_read_blobs_tir ::
  "usb_env \<Rightarrow> tirimg \<Rightarrow> bloblist_type \<Rightarrow> int \<Rightarrow> int \<Rightarrow> image_t \<Rightarrow> tir_info \<Rightarrow> (int \<times> tirimg \<times> bloblist_type) option" where
  "ltr_int_read_blobs_tir E s blt mn mx img info = do {
     (r, s) \<leftarrow> read_frame E (s\<lparr>im_device := ti_dev_type info, p_img := img\<rparr>);
     (case r of
        None \<Rightarrow> Some (- 1, s, blt)
      | Some False \<Rightarrow> Some (0, s, blt)
      | Some True \<Rightarrow> do {
          (res, is', blt, im) \<leftarrow> ltr_int_stripes_to_blobs (im_st s) MAX_BLOBS blt mn mx (p_img s);
          Some (res, s\<lparr>im_st := is', p_img := im\<rparr>, blt)
        })
   }"

declare tir5_loop.simps [simp del] sn4_loop.simps [simp del] sn4gr_loop.simps [simp del]
  process_packet_tir4.simps [simp del] process_packet_tir2.simps [simp del]

subsection \<open>Decoding\<close>

lemma bit_u32_of_u8: "bit (u32_of_u8 b) n = bit b n"
  by (auto simp: u32_of_u8_def bit_ucast_iff possible_bit_word dest: bit_imp_le_length)

text \<open>The eight bytes of a record as one big-endian 64 bit word.\<close>

definition be64 :: "u8 list \<Rightarrow> 64 word" where
  "be64 bs = foldl (\<lambda>w b. push_bit 8 w OR ucast b) 0 bs"

lemma bit_be64:
  "bit (be64 [b0, b1, b2, b3, b4, b5, b6, b7]) n =
     (n < 64 \<and> (if n < 8 then bit b7 n else if n < 16 then bit b6 (n - 8) else if n < 24 then bit b5 (n - 16)
      else if n < 32 then bit b4 (n - 24) else if n < 40 then bit b3 (n - 32) else if n < 48 then bit b2 (n - 40)
      else if n < 56 then bit b1 (n - 48) else bit b0 (n - 56)))"
  by (auto simp: be64_def bit_or_iff bit_push_bit_iff bit_ucast_iff possible_bit_word not_less
      dest: bit_imp_le_length)

lemma small_bits: "bit (b :: u8) n \<Longrightarrow> n < 8"
  using bit_imp_le_length by fastforce

lemma le8_cases: "(n :: nat) < 8 \<Longrightarrow> n = 0 \<or> n = 1 \<or> n = 2 \<or> n = 3 \<or> n = 4 \<or> n = 5 \<or> n = 6 \<or> n = 7"
  by arith

text \<open>C8: The TrackIR 5 record is five bit fields of its 64 bit big-endian word: 10 bits start, 9 bits line,
  10 bits length, 20 bits weighted sum and 15 bits sum, and the end is start plus length minus one.\<close>

theorem tir5_fields:
  assumes "p + 8 \<le> length d"
  shows "\<exists>t. stripe_tir5 d p = Some t \<and> (let w = be64 (take 8 (drop p d)) in
    hstart t = ucast (drop_bit 54 w) \<and>
    vline t = ucast (drop_bit 45 w AND mask 9) \<and>
    st_points t = ucast (drop_bit 35 w AND mask 10) \<and>
    st_sum_x t = ucast (drop_bit 15 w AND mask 20) \<and>
    st_sum t = ucast (w AND mask 15) \<and>
    hstop t = st_points t + hstart t - 1)"
proof -
  let ?b = "\<lambda>i. d ! (p + i)"
  have tk: "take 8 (drop p d) = [?b 0, ?b 1, ?b 2, ?b 3, ?b 4, ?b 5, ?b 6, ?b 7]"
    using assms by (intro nth_equalityI) (auto simp: less_Suc_eq_0_disj eval_nat_numeral)
  have r: "rd d (p + i) = Some (?b i)" if "i < 8" for i using that assms by (simp add: rd_def)
  have r0: "rd d p = Some (?b 0)" using r [of 0] by simp
  have f1: "push_bit 2 (u32_of_u8 b0) OR drop_bit 6 (u32_of_u8 b1) = ucast (drop_bit 54 (be64 [b0, b1, b2, b3, b4, b5, b6, b7]))"
    for b0 b1 b2 b3 b4 b5 b6 b7
    by (rule bit_word_eqI)
      (auto simp: bit_or_iff bit_push_bit_iff bit_drop_bit_eq bit_ucast_iff bit_u32_of_u8 bit_be64 possible_bit_word
        dest: small_bits)
  have m: "(0x3F :: u32) = mask 6" "(0xE0 :: u32) = push_bit 5 (mask 3)" "(0x1F :: u32) = mask 5" "(7 :: u32) = mask 3"
    "(0x7F :: u32) = mask 7"
    by (simp_all add: mask_eq_exp_minus_1 push_bit_eq_mult)
  note bits = bit_or_iff bit_and_iff bit_mask_iff bit_push_bit_iff bit_drop_bit_eq bit_ucast_iff bit_u32_of_u8 bit_be64
    possible_bit_word
  have f2: "push_bit 3 (u32_of_u8 b1 AND 0x3F) OR drop_bit 5 (u32_of_u8 b2 AND 0xE0) =
      ucast (drop_bit 45 (be64 [b0, b1, b2, b3, b4, b5, b6, b7]) AND mask 9)" for b0 b1 b2 b3 b4 b5 b6 b7
    unfolding m by (rule bit_word_eqI) (auto simp: bits dest: small_bits)
  have f3: "push_bit 5 (u32_of_u8 b2 AND 0x1F) OR drop_bit 3 (u32_of_u8 b3) =
      ucast (drop_bit 35 (be64 [b0, b1, b2, b3, b4, b5, b6, b7]) AND mask 10)" for b0 b1 b2 b3 b4 b5 b6 b7
    unfolding m by (rule bit_word_eqI) (auto simp: bits dest: small_bits)
  have f4: "push_bit 17 (u32_of_u8 b3 AND 7) OR push_bit 9 (u32_of_u8 b4) OR push_bit 1 (u32_of_u8 b5) OR drop_bit 7 (u32_of_u8 b6) =
      ucast (drop_bit 15 (be64 [b0, b1, b2, b3, b4, b5, b6, b7]) AND mask 20)" for b0 b1 b2 b3 b4 b5 b6 b7
    unfolding m by (rule bit_word_eqI) (simp only: bits, auto simp: bits dest: small_bits)
  have f5: "push_bit 8 (u32_of_u8 b6 AND 0x7F) OR u32_of_u8 b7 =
      ucast (be64 [b0, b1, b2, b3, b4, b5, b6, b7] AND mask 15)" for b0 b1 b2 b3 b4 b5 b6 b7
    unfolding m by (rule bit_word_eqI) (auto simp: bits dest: small_bits)
  show ?thesis
    unfolding stripe_tir5_def tk Let_def f1 [symmetric, of "?b 0" "?b 1"] f2 [symmetric] f3 [symmetric] f4 [symmetric] f5 [symmetric]
    using r0 r [of 1] r [of 2] r [of 3] r [of 4] r [of 5] r [of 6] r [of 7] by simp
qed

text \<open>The triangular number computed in floating point is the integer one.\<close>

lemma even_uint: "even (uint (w :: u32)) = even w"
  using bit_uint_iff [of w 0] by (simp add: bit_0)

lemma run_sum_x_eq: "run_sum_x sm = Some (drop_bit 1 (sm * (sm - 1)))"
proof -
  let ?w = "sm * (sm - 1)"
  let ?n = "uint ?w"
  have n: "0 \<le> ?n" "?n < 2 ^ 32" using uint_lt2p [of ?w] by simp_all
  have f: "flt_of_int b64 ?n = Fin (of_int ?n)" using n by (intro flt_of_int_b64) simp
  have "even ?w"
  proof (cases "even sm")
    case False
    have "sm = (sm - 1) + 1" by simp
    then have "even (sm - 1)" using False by (metis even_plus_one_iff)
    then show ?thesis by simp
  qed simp
  then have ev: "even ?n" by (simp only: even_uint)
  define k where "k = ?n div 2"
  have k: "?n = 2 * k" "0 \<le> k" "k < 2 ^ 31" using ev n by (simp_all add: k_def)
  have "fdiv b64 (Fin (of_int ?n)) (Fin 2) = Fin (of_int k)"
  proof (cases "k = 0")
    case True
    then show ?thesis using k(1) by (simp add: fdiv_def Let_def signed_zero_def)
  next
    case False
    have "rnd b64 (of_int k) = Fin (of_int k)"
      using k(2,3) flt_of_int_b64 [of k] by (simp add: flt_of_int_def)
    then show ?thesis using k False by (simp add: fdiv_def Let_def)
  qed
  moreover have "flt_to_u32 (Fin (of_int k)) = Some (word_of_int k)"
    using k by (simp add: flt_to_u32_def flt_to_range_def)
  moreover have "word_of_int k = drop_bit 1 ?w"
  proof -
    have "drop_bit 1 ?w = ?w div 2" by (simp add: drop_bit_eq_div)
    then have "uint (drop_bit 1 ?w) = k" by (simp only: k_def uint_div) simp
    then show ?thesis by (metis word_of_int_uint)
  qed
  ultimately show ?thesis by (simp add: run_sum_x_def f)
qed

text \<open>The records of the TrackIR 2, the TrackIR 4 and the SmartNav4 decode whenever they lie in the
  buffer, to lines and columns within the sensor's coding range (8, 9 and 10 bit lines, 8, 10
  and 11 bit columns), with the length end - start + 1 as both points and weight and the
  triangular number of the length as weighted sum.\<close>

theorem plain_records_decode:
  assumes "p + 4 \<le> length d"
  shows "\<exists>t2 t4 tn. stripe_tir2 d p = Some t2 \<and> stripe_tir4 d p = Some t4 \<and> stripe_sn4 d p = Some tn \<and>
    uint (vline t2) < 2 ^ 8 \<and> uint (hstart t2) < 2 ^ 8 \<and> uint (hstop t2) < 2 ^ 8 \<and>
    uint (vline t4) < 2 ^ 9 \<and> uint (hstart t4) < 2 ^ 10 \<and> uint (hstop t4) < 2 ^ 10 \<and>
    uint (vline tn) < 2 ^ 10 \<and> uint (hstart tn) < 2 ^ 11 \<and> uint (hstop tn) < 2 ^ 11 \<and>
    (\<forall>t \<in> {t2, t4, tn}. st_points t = hstop t - hstart t + 1 \<and> st_sum t = st_points t \<and>
       st_sum_x t = drop_bit 1 (st_sum t * (st_sum t - 1)))"
proof -
  have r: "rd d (p + i) = Some (d ! (p + i))" if "i < 4" for i using that assms by (simp add: rd_def)
  have r0: "rd d p = Some (d ! p)" using r [of 0] by simp
  have b: "uint (u32_of_u8 x) < 2 ^ k" if "8 \<le> k" for x k
  proof -
    have "uint x < 2 ^ 8" using uint_lt2p [of x] by simp
    also have "\<dots> \<le> (2 :: int) ^ k" using that by (intro power_increasing) auto
    finally show ?thesis by simp
  qed
  have o: "uint (or_if c m x) < 2 ^ k" if "uint x < 2 ^ k" "uint m < 2 ^ k" for c m x k
    using that OR_upper [of "uint x" k "uint m"] by (simp add: or_if_def uint_or)
  have o9: "uint (or_if c m x) < 512" if "uint x < 512" "uint m < 512" for c m x using o [of x 9 m c] that by simp
  have o10: "uint (or_if c m x) < 1024" if "uint x < 1024" "uint m < 1024" for c m x using o [of x 10 m c] that by simp
  have o11: "uint (or_if c m x) < 2048" if "uint x < 2048" "uint m < 2048" for c m x using o [of x 11 m c] that by simp
  have b': "uint (u32_of_u8 x) < 256" "uint (u32_of_u8 x) < 512" "uint (u32_of_u8 x) < 1024" "uint (u32_of_u8 x) < 2048" for x
    using b [of 8 x] b [of 9 x] b [of 10 x] b [of 11 x] by simp_all
  show ?thesis
    using r0 r [of 1] r [of 2] r [of 3] b' (1)
    by (simp add: stripe_tir2_def stripe_tir4_def stripe_sn4_def plain_stripe_def run_sum_x_eq Let_def del: uint_u32_of_u8)
      (intro conjI o9 o10 o11 b'; simp)
qed

theorem plain_records_decode_witness:
  "\<exists>t2 t4 tn. stripe_tir2 [7, 10, 12, 0x20] 0 = Some t2 \<and> stripe_tir4 [7, 10, 12, 0x20] 0 = Some t4 \<and>
    stripe_sn4 [7, 10, 12, 0x20] 0 = Some tn \<and> uint (vline t4) < 512 \<and> st_points t4 = hstop t4 - hstart t4 + 1"
  using plain_records_decode [of 0 "[7, 10, 12, 0x20]"] by auto

theorem tir5_fields_witness:
  "\<exists>t. stripe_tir5 [1, 2, 3, 4, 5, 6, 7, 8] 0 = Some t \<and> hstop t = st_points t + hstart t - 1"
  using tir5_fields [of 0 "[1, 2, 3, 4, 5, 6, 7, 8]"] by (auto simp: Let_def)

subsection \<open>The payload loops\<close>

text \<open>Consecutive records of eight bytes, handed over in order.\<close>

fun put_tir5 :: "tirimg \<Rightarrow> nat \<Rightarrow> nat \<Rightarrow> tirimg option" where
  "put_tir5 s p 0 = Some s"
| "put_tir5 s p (Suc n) = do { s \<leftarrow> process_stripe_tir5 s p; put_tir5 s (p + 8) n }"

lemma process_stripe_ptr:
  "process_stripe_tir5 s p = Some s' \<Longrightarrow> rb_ptr s' = rb_ptr s"
  by (auto simp: process_stripe_tir5_def put_stripe_def bind_eq_Some_conv)

lemma process_stripe_set_ptr:
  "process_stripe_tir5 (s\<lparr>rb_ptr := q\<rparr>) p = map_option (\<lambda>s. s\<lparr>rb_ptr := q\<rparr>) (process_stripe_tir5 s p)"
proof (cases "stripe_tir5 (ltr_int_packet s) p")
  case None
  then show ?thesis by (simp add: process_stripe_tir5_def)
next
  case (Some t)
  then show ?thesis
    by (cases "ltr_int_add_stripe (im_st s) t (p_img s)") (auto simp: process_stripe_tir5_def put_stripe_def)
qed

lemma put_tir5_set_ptr: "put_tir5 (s\<lparr>rb_ptr := q\<rparr>) p n = map_option (\<lambda>s. s\<lparr>rb_ptr := q\<rparr>) (put_tir5 s p n)"
proof (induction n arbitrary: s p)
  case (Suc n)
  show ?case
    by (cases "process_stripe_tir5 s p") (simp_all add: process_stripe_set_ptr Suc.IH)
qed simp

text \<open>A TrackIR 5 payload of n records is processed record by record, from the current position, in
  order and exactly once each, and leaves the position just after the last one.\<close>

theorem tir5_payload_processed:
  assumes "type \<noteq> 0" and "8 * n < 2 ^ 32"
  shows "tir5_loop type (of_nat (8 * n)) s =
    map_option (\<lambda>s'. s'\<lparr>rb_ptr := rb_ptr s + 8 * n\<rparr>) (put_tir5 s (rb_ptr s) n)"
  using assms(2)
proof (induction n arbitrary: s)
  case 0
  then show ?case by (simp add: tir5_loop.simps)
next
  case (Suc n)
  have u: "unat (of_nat (8 * Suc n) :: u32) = 8 * Suc n" using Suc.prems by (subst unat_of_nat) (simp add: take_bit_nat_eq_self del: of_nat_mult of_nat_Suc)
  then have pos: "(0 :: u32) < of_nat (8 * Suc n)" by (simp add: word_less_nat_alt)
  have dec: "(of_nat (8 * Suc n) :: u32) - 8 = of_nat (8 * n)" by simp
  show ?case
  proof (cases "process_stripe_tir5 s (rb_ptr s)")
    case None
    then show ?thesis using pos assms(1) by (subst tir5_loop.simps) simp
  next
    case (Some s1)
    have "tir5_loop type (of_nat (8 * Suc n)) s = tir5_loop type (of_nat (8 * n)) (s1\<lparr>rb_ptr := rb_ptr s + 8\<rparr>)"
      using pos assms(1) Some dec by (subst tir5_loop.simps) (simp del: of_nat_mult of_nat_Suc)
    also have "\<dots> = map_option (\<lambda>s'. s'\<lparr>rb_ptr := rb_ptr s + 8 + 8 * n\<rparr>)
        (put_tir5 (s1\<lparr>rb_ptr := rb_ptr s + 8\<rparr>) (rb_ptr s + 8) n)"
      using Suc.IH [of "s1\<lparr>rb_ptr := rb_ptr s + 8\<rparr>"] Suc.prems by simp
    also have "\<dots> = map_option (\<lambda>s'. s'\<lparr>rb_ptr := rb_ptr s + 8 * Suc n\<rparr>) (put_tir5 s (rb_ptr s) (Suc n))"
      using Some by (simp add: put_tir5_set_ptr option.map_comp comp_def add.assoc)
    finally show ?thesis .
  qed
qed

text \<open>A TrackIR 5 payload whose announced size is not a multiple of the record size never ends
  regularly: the countdown passes zero, wraps, and the loop runs off the end of the packet buffer.\<close>

theorem tir5_payload_overrun:
  assumes "type \<noteq> 0" and "unat ps mod 8 \<noteq> 0"
  shows "tir5_loop type ps s = None"
  using assms(2)
proof (induction "length (ltr_int_packet s) - rb_ptr s" arbitrary: s ps rule: less_induct)
  case less
  have pos: "0 < ps" using less.prems by (auto simp: word_gt_0)
  show ?case
  proof (cases "process_stripe_tir5 s (rb_ptr s)")
    case None
    then show ?thesis using pos assms(1) by (subst tir5_loop.simps) simp
  next
    case (Some s1)
    note p = process_stripe_packet(1) [OF Some]
    have "unat (ps - 8) mod 8 = unat ps mod 8"
    proof (cases "8 \<le> unat ps")
      case True
      then have "unat (ps - 8) = unat ps - 8" by (simp add: unat_sub_if_size)
      then show ?thesis using le_mod_geq [of 8 "unat ps"] True by simp
    next
      case False
      then have "unat (ps - 8) = unat ps + 8 * 536870911" by (simp add: unat_sub_if_size word_size)
      then show ?thesis by (simp only: mod_mult_self2)
    qed
    then have m: "unat (ps - 8) mod 8 \<noteq> 0" using less.prems by simp
    have "tir5_loop type (ps - 8) (s1\<lparr>rb_ptr := rb_ptr s + 8\<rparr>) = None"
      by (rule less.hyps [OF _ m]) (use p in \<open>simp, arith\<close>)
    then show ?thesis using pos assms(1) Some by (subst tir5_loop.simps) simp
  qed
qed

definition demo_tirimg :: "bytes \<Rightarrow> nat \<Rightarrow> nat option \<Rightarrow> nat \<Rightarrow> tirimg" where
  "demo_tirimg pkt n ty lm = \<lparr>hist = [], ltr_int_packet = pkt, ir_on = True, hw_device = TIR5, tir_iface = Some tir5,
     sn4_pipe = - 1, cfg_in_ep = 0x82, ltr_int_data_in_ep = 0x82, out_ep = 1, pkt_no = 0,
     p_img = \<lparr>im_w = 640, im_h = 480, im_bitmap = None, im_ratio = Fin 1\<rparr>,
     current_line = 0, im_device = TIR5, prev_btns = 3, pk_type = ty, pk_limit = lm, pk_size = 0,
     rb_size = n, rb_ptr = 0, im_st = ltr_int_prepare_for_processing img_init 640 480 DBG_OFF\<rparr>"

theorem tir5_payload_processed_witness:
  "tir5_loop 5 24 (demo_tirimg (replicate 32 1) 32 None 0) =
     map_option (\<lambda>s'. s'\<lparr>rb_ptr := 24\<rparr>) (put_tir5 (demo_tirimg (replicate 32 1) 32 None 0) 0 3)"
  using tir5_payload_processed [of 5 3 "demo_tirimg (replicate 32 1) 32 None 0"] by (simp add: demo_tirimg_def)

theorem tir5_payload_overrun_witness:
  "tir5_loop 5 9 (demo_tirimg (replicate 32 1) 32 None 0) = None"
  by (rule tir5_payload_overrun) simp_all

subsection \<open>The dispatcher\<close>

lemma process_packet_diverges:
  assumes "I s" and step: "\<And>s. I s \<Longrightarrow> \<exists>s'. packet_round E s = Some (Inr s') \<and> I s'"
  shows "process_packet E s = None"
proof (rule ccontr)
  assume "process_packet E s \<noteq> None"
  then obtain y where y: "process_packet E s = Some y" by blast
  have "E = E \<longrightarrow> \<not> I s"
  proof (rule process_packet.raw_induct [OF _ y, where P = "\<lambda>F s y. F = E \<longrightarrow> \<not> I s"])
    fix rec F t y
    assume IH: "\<And>F t y. rec F t = Some y \<Longrightarrow> F = E \<longrightarrow> \<not> I t"
      and eq: "packet_round F t \<bind> (\<lambda>r. case r of Inl x \<Rightarrow> Some x | Inr s \<Rightarrow> rec F s) = Some y"
    show "F = E \<longrightarrow> \<not> I t"
    proof (intro impI notI)
      assume "F = E" "I t"
      then obtain t' where "packet_round E t = Some (Inr t')" "I t'" using step by blast
      with eq IH [of E t' y] \<open>F = E\<close> show False by simp
    qed
  qed
  with assms(1) show False by simp
qed

text \<open>A zero length byte in a status or device information packet stops the driver for good: the round
  leaves the parser where it was, and \<open>process_packet\<close> never returns.\<close>

theorem zero_length_packet_hangs:
  assumes "pk_type s = None" and "rb_ptr s < rb_size s" and "rb_ptr s + 1 < length (ltr_int_packet s)"
    and "ltr_int_packet s ! rb_ptr s = 0" and "ltr_int_packet s ! (rb_ptr s + 1) = 0x20"
  shows "packet_round E s = Some (Inr (s\<lparr>pk_size := 0, pk_limit := rb_ptr s\<rparr>)) \<and> process_packet E s = None"
proof -
  let ?I = "\<lambda>s. pk_type s = None \<and> rb_ptr s < rb_size s \<and> rb_ptr s + 1 < length (ltr_int_packet s) \<and>
    ltr_int_packet s ! rb_ptr s = 0 \<and> ltr_int_packet s ! (rb_ptr s + 1) = 0x20"
  have step: "packet_round E s = Some (Inr (s\<lparr>pk_size := 0, pk_limit := rb_ptr s\<rparr>))" if "?I s" for s
    using that by (simp add: packet_round_def packet_head_def dispatch_packet_def rd_def Let_def)
  have "process_packet E s = None"
    by (rule process_packet_diverges [of ?I]) (use assms step in auto)
  then show ?thesis using step [of s] assms by simp
qed

theorem zero_length_packet_hangs_witness:
  "process_packet (demo_env []) (demo_tirimg [0, 0x20, 0, 0] 4 None 0) = None"
  using zero_length_packet_hangs [of "demo_tirimg [0, 0x20, 0, 0] 4 None 0" "demo_env []"] by (simp add: demo_tirimg_def)

lemma read_frame_diverges:
  assumes "I s" and step: "\<And>s. I s \<Longrightarrow> rb_ptr s < rb_size s \<and>
      (\<exists>s'. process_packet E s = Some (False, s') \<and> \<not> u_request E (hist s') \<and> I (log_io PollRequest s'))"
  shows "read_frame E s = None"
proof (rule ccontr)
  assume "read_frame E s \<noteq> None"
  then obtain y where y: "read_frame E s = Some y" by blast
  have "E = E \<longrightarrow> \<not> I s"
  proof (rule read_frame.raw_induct [OF _ y, where P = "\<lambda>F s y. F = E \<longrightarrow> \<not> I s"])
    fix rec F t y
    assume IH: "\<And>F t y. rec F t = Some y \<Longrightarrow> F = E \<longrightarrow> \<not> I t"
      and eq: "(let (ok, s) =
       (if rb_size t \<le> rb_ptr t
        then (let (ok, n, s) = ltr_int_receive_data F (ltr_int_data_in_ep t) 1000 (t\<lparr>rb_ptr := 0\<rparr>)
              in (ok, s\<lparr>rb_size := n\<rparr>))
        else (True, t)) in
     if \<not> ok then Some (None, s)
     else process_packet F s \<bind> (\<lambda>(have, s). if have then Some (Some True, s)
       else (let (req, s) = ltr_int_got_new_request F s in if req then Some (Some False, s) else rec F s))) = Some y"
    show "F = E \<longrightarrow> \<not> I t"
    proof (intro impI notI)
      assume F: "F = E" and "I t"
      from step [OF \<open>I t\<close>] obtain t' where t': "rb_ptr t < rb_size t" "process_packet E t = Some (False, t')"
        "\<not> u_request E (hist t')" "I (log_io PollRequest t')" by blast
      then have "rec E (log_io PollRequest t') = Some y"
        using eq F by (simp add: ltr_int_got_new_request_def)
      with IH [of E "log_io PollRequest t'" y] t'(4) show False by simp
    qed
  qed
  with assms(1) show False by simp
qed

text \<open>A packet whose length byte points past the data received is never abandoned: the parser keeps its
  type and limit, reports no frame without looking at the camera again, and so, as long as no
  request arrives, \<open>ltr_int_read_blobs_tir\<close> spins for ever.\<close>

theorem truncated_packet_blocks:
  assumes "pk_type s = Some t" and "rb_ptr s < rb_size s" and "rb_size s < pk_limit s" and "\<And>h. \<not> u_request E h"
  shows "process_packet E s = Some (False, s) \<and> read_frame E s = None"
proof -
  have pp: "process_packet E s = Some (False, s)"
    if "pk_type s = Some t" "rb_ptr s < rb_size s" "rb_size s < pk_limit s" for s
    using that by (subst process_packet.simps) (simp add: packet_round_def packet_head_def)
  let ?I = "\<lambda>s. pk_type s = Some t \<and> rb_ptr s < rb_size s \<and> rb_size s < pk_limit s"
  have "read_frame E s = None"
    by (rule read_frame_diverges [of ?I]) (use assms pp in \<open>auto simp: log_io_def\<close>)
  then show ?thesis using pp assms by blast
qed

theorem truncated_packet_blocks_witness:
  "process_packet (demo_env []) (demo_tirimg [9, 0x1C, 0, 0] 4 (Some 0x1C) 9) =
     Some (False, demo_tirimg [9, 0x1C, 0, 0] 4 (Some 0x1C) 9) \<and>
   read_frame (demo_env []) (demo_tirimg [9, 0x1C, 0, 0] 4 (Some 0x1C) 9) = None"
  by (rule truncated_packet_blocks) (simp_all add: demo_tirimg_def demo_env_def)

lemma past_limit_ptr: "rb_ptr s \<le> rb_ptr (past_limit n l s)"
  by (simp add: past_limit_def)

lemma put_stripe_frame: "put_stripe s t = Some s' \<Longrightarrow> rb_ptr s' = rb_ptr s \<and> rb_size s' = rb_size s"
  by (auto simp: put_stripe_def bind_eq_Some_conv)

lemma tir4_false_ptr:
  "process_packet_tir4 s n l = Some (False, s') \<Longrightarrow> l \<le> rb_ptr s' \<and> rb_ptr s < rb_ptr s'"
proof (induction "l - rb_ptr s" arbitrary: s rule: less_induct)
  case less
  from less.prems obtain s1 s2 where s1: "is_next_frame_tir s (rb_ptr s) = Some (False, s1)"
    and s2: "process_stripe_tir4 s1 (rb_ptr s) = Some s2"
    and r: "(if l \<le> rb_ptr s + 4 then Some (False, past_limit n l (s2\<lparr>rb_ptr := rb_ptr s + 4\<rparr>))
         else process_packet_tir4 (s2\<lparr>rb_ptr := rb_ptr s + 4\<rparr>) n l) = Some (False, s')"
    by (subst (asm) process_packet_tir4.simps) (auto simp: bind_eq_Some_conv Let_def split: if_splits)
  show ?case
  proof (cases "l \<le> rb_ptr s + 4")
    case True
    with r have "s' = past_limit n l (s2\<lparr>rb_ptr := rb_ptr s + 4\<rparr>)" by simp
    then show ?thesis using True by (simp add: past_limit_def)
  next
    case False
    let ?t = "s2\<lparr>rb_ptr := rb_ptr s + 4\<rparr>"
    have "l - rb_ptr ?t < l - rb_ptr s" using False by simp
    moreover have "process_packet_tir4 ?t n l = Some (False, s')" using r False by simp
    ultimately have "l \<le> rb_ptr s' \<and> rb_ptr ?t < rb_ptr s'" by (rule less.hyps)
    then show ?thesis by simp
  qed
qed

lemma tir2_false_ptr:
  "process_packet_tir2 s n l = Some (False, s') \<Longrightarrow> l \<le> rb_ptr s' \<and> rb_ptr s < rb_ptr s'"
proof (induction "l - rb_ptr s" arbitrary: s rule: less_induct)
  case less
  from less.prems obtain s1 s2 where s1: "is_next_frame_tir2 s (rb_ptr s) = Some (False, s1)"
    and s2: "process_stripe_tir2 s1 (rb_ptr s) = Some s2"
    and r: "(if l \<le> rb_ptr s + 3 then Some (False, past_limit n l (s2\<lparr>rb_ptr := rb_ptr s + 3\<rparr>))
         else process_packet_tir2 (s2\<lparr>rb_ptr := rb_ptr s + 3\<rparr>) n l) = Some (False, s')"
    by (subst (asm) process_packet_tir2.simps) (auto simp: bind_eq_Some_conv Let_def split: if_splits)
  show ?case
  proof (cases "l \<le> rb_ptr s + 3")
    case True
    with r have "s' = past_limit n l (s2\<lparr>rb_ptr := rb_ptr s + 3\<rparr>)" by simp
    then show ?thesis using True by (simp add: past_limit_def)
  next
    case False
    let ?t = "s2\<lparr>rb_ptr := rb_ptr s + 3\<rparr>"
    have "l - rb_ptr ?t < l - rb_ptr s" using False by simp
    moreover have "process_packet_tir2 ?t n l = Some (False, s')" using r False by simp
    ultimately have "l \<le> rb_ptr s' \<and> rb_ptr ?t < rb_ptr s'" by (rule less.hyps)
    then show ?thesis by simp
  qed
qed

lemma dispatch_false:
  assumes "dispatch_packet E t s = Some (False, s')" and "t \<in> {0x20, 0x40, 0x1C, 0x10, 0x00, 0x04}"
    and "t \<noteq> 0x1C \<Longrightarrow> q < pk_limit s" and "q \<le> rb_ptr s"
  shows "q < rb_ptr s' \<and> pk_type s' = None"
proof (cases "t = 0x1C")
  case True
  then obtain s1 where s1: "(if im_device s = TIR2 then process_packet_tir2 s (pk_size s) (pk_limit s)
        else process_packet_tir4 s (pk_size s) (pk_limit s)) = Some (False, s1)"
    and s': "s' = (if pk_limit s \<le> rb_ptr s1 then s1\<lparr>pk_type := None\<rparr> else s1)"
    using assms(1) by (auto simp: dispatch_packet_def bind_eq_Some_conv)
  then have "pk_limit s \<le> rb_ptr s1 \<and> rb_ptr s < rb_ptr s1"
    using tir2_false_ptr [of s "pk_size s" "pk_limit s" s1] tir4_false_ptr [of s "pk_size s" "pk_limit s" s1]
    by (cases "im_device s = TIR2") simp_all
  then show ?thesis using s' assms(4) by simp
next
  case False
  with assms(3) have q: "q < pk_limit s" by simp
  from False assms(1,2) have "rb_ptr s' = pk_limit s \<and> pk_type s' = None"
    by (auto simp: dispatch_packet_def bind_eq_Some_conv)
  with q show ?thesis by simp
qed

text \<open>Apart from zero length bytes the parser always makes progress: a round that goes on has consumed
  at least one byte and left no packet in progress (and the position it was given lay within
  the data received), so the rounds on one transfer are bounded by its length.\<close>

theorem packet_round_progress:
  assumes "packet_round E s = Some (Inr s')"
    and "pk_type s = None \<or> pk_type s = Some 0x1C"
    and "pk_type s = None \<longrightarrow> ltr_int_packet s ! rb_ptr s \<noteq> 0"
  shows "rb_ptr s < rb_ptr s' \<and> pk_type s' = None \<and> rb_ptr s < rb_size s"
proof -
  have sz: "rb_ptr s < rb_size s" using assms(1) by (auto simp: packet_round_def split: if_splits)
  from assms(1) sz obtain s1 where h: "packet_head s = Some (Some s1)"
    and lm: "pk_limit s1 \<le> rb_size s1"
    by (auto simp: packet_round_def bind_eq_Some_conv split: option.splits if_splits)
  have len: "0 < unat (ltr_int_packet s ! rb_ptr s)" if "pk_type s = None"
    using assms(3) that by (simp add: unat_gt_0)
  have h1: "rb_ptr s \<le> rb_ptr s1" "pk_type s1 \<noteq> None"
    "the (pk_type s1) \<noteq> 0x1C \<Longrightarrow> rb_ptr s < pk_limit s1"
    "the (pk_type s1) \<in> {0x20, 0x40, 0x1C, 0x10, 0x00, 0x04}"
    using h assms(2) sz len
    by (auto simp: packet_head_def bind_eq_Some_conv Let_def rd_eq_Some_iff split: if_splits)
  from assms(1) sz h lm have d: "dispatch_packet E (the (pk_type s1)) s1 = Some (False, s')"
    by (auto simp: packet_round_def bind_eq_Some_conv split: if_splits)
  from dispatch_false [OF d h1(4,3,1)] sz show ?thesis by simp
qed

theorem packet_round_progress_witness:
  "\<exists>s'. packet_round (demo_env []) (demo_tirimg [3, 0x20, 9, 9] 4 None 0) = Some (Inr s') \<and> 0 < rb_ptr s' \<and> pk_type s' = None"
proof -
  have "\<exists>s'. packet_round (demo_env []) (demo_tirimg [3, 0x20, 9, 9] 4 None 0) = Some (Inr s')"
    by (simp add: packet_round_def packet_head_def dispatch_packet_def rd_def Let_def demo_tirimg_def)
  then obtain s' where s': "packet_round (demo_env []) (demo_tirimg [3, 0x20, 9, 9] 4 None 0) = Some (Inr s')" ..
  from packet_round_progress [OF s'] have "0 < rb_ptr s' \<and> pk_type s' = None" by (simp add: demo_tirimg_def)
  with s' show ?thesis by blast
qed

text \<open>Only the packet buffer, the image and the processor's statics matter to a stripe.\<close>

lemma process_stripe_tir5_cong:
  assumes "\<And>s is im. f (s\<lparr>im_st := is, p_img := im\<rparr>) = (f s)\<lparr>im_st := is, p_img := im\<rparr>"
    and "\<And>s. ltr_int_packet (f s) = ltr_int_packet s \<and> im_st (f s) = im_st s \<and> p_img (f s) = p_img s"
  shows "process_stripe_tir5 (f s) p = map_option f (process_stripe_tir5 s p)"
proof (cases "stripe_tir5 (ltr_int_packet s) p")
  case None
  then show ?thesis using assms(2) by (simp add: process_stripe_tir5_def)
next
  case (Some t)
  then show ?thesis using assms
    by (cases "ltr_int_add_stripe (im_st s) t (p_img s)") (auto simp: process_stripe_tir5_def put_stripe_def)
qed

lemma put_tir5_cong:
  assumes "\<And>s is im. f (s\<lparr>im_st := is, p_img := im\<rparr>) = (f s)\<lparr>im_st := is, p_img := im\<rparr>"
    and "\<And>s. ltr_int_packet (f s) = ltr_int_packet s \<and> im_st (f s) = im_st s \<and> p_img (f s) = p_img s"
  shows "put_tir5 (f s) p n = map_option f (put_tir5 s p n)"
proof (induction n arbitrary: s p)
  case (Suc n)
  show ?case
    by (cases "process_stripe_tir5 s p") (simp_all add: process_stripe_tir5_cong [of f, OF assms] Suc.IH)
qed simp

text \<open>C7: A well formed TrackIR 5 packet (right header check sum, announced size matching the data
  received) of n records makes one call of \<open>process_packet\<close> report a frame after handing over
  exactly its n records in order, and consumes the packet.\<close>

theorem tir5_packet_complete:
  assumes "pk_type s = None" and "rb_ptr s = 0" and "rb_size s = 8 * n + 8"
    and len: "rb_size s \<le> length (ltr_int_packet s)" and "rb_size s < 2 ^ 32"
    and ty: "ltr_int_packet s ! 1 = 0x10" "ltr_int_packet s ! 2 = 5"
    and ck: "check_paket_header_tir5 (ltr_int_packet s) 0 = Some True"
    and ps: "be32 (ltr_int_packet s) (8 * n + 4) = Some (of_nat (8 * n))"
    and put: "put_tir5 s 4 n = Some s'"
  shows "\<exists>s''. process_packet E s = Some (True, s'') \<and> im_st s'' = im_st s' \<and> p_img s'' = p_img s' \<and>
    rb_ptr s'' = rb_size s \<and> pk_type s'' = None"
proof -
  let ?d = "ltr_int_packet s"
  have r: "rd ?d 0 = Some (?d ! 0)" "rd ?d 1 = Some 0x10" "rd ?d 2 = Some 5"
  proof -
    have "2 < length ?d" using len assms(3) by simp
    then show "rd ?d 0 = Some (?d ! 0)" "rd ?d 1 = Some 0x10" "rd ?d 2 = Some 5" using ty by (auto simp: rd_def)
  qed
  let ?h = "s\<lparr>pk_type := Some 0x10, pk_size := rb_size s, pk_limit := rb_size s\<rparr>"
  have r2: "rd ?d (Suc (Suc 0)) = Some 5" using r(3) by (simp only: numeral_2_eq_2)
  have h: "packet_head s = Some (Some ?h)"
    using assms(1,2) r r2 by (simp add: packet_head_def Let_def)
  let ?f = "\<lambda>s :: tirimg. s\<lparr>pk_type := Some 0x10, pk_size := 8 * n + 8, pk_limit := 8 * n + 8, pkt_no := u32_of_u8 (?d ! 0), rb_ptr := 4\<rparr>"
  have st: "?h\<lparr>pkt_no := u32_of_u8 (?d ! 0), rb_ptr := rb_ptr ?h + 4\<rparr> = ?f s" using assms(2,3) by simp
  have "put_tir5 (?f s) 4 n = map_option ?f (put_tir5 s 4 n)" by (rule put_tir5_cong) simp_all
  then have pf: "put_tir5 (?f s) 4 n = Some (?f s')" using put by simp
  have lp: "tir5_loop 5 (of_nat (8 * n)) (?f s) = Some ((?f s')\<lparr>rb_ptr := 4 + 8 * n\<rparr>)"
    using tir5_payload_processed [of 5 n "?f s"] assms(3,5) pf by simp
  have pz: "(of_nat (8 * n) :: u32) = of_nat (rb_size s) - 8" using assms(3) by simp
  have pk: "process_packet_tir5 ?h (rb_size s) (rb_size s) = Some (True, (?f s')\<lparr>rb_ptr := 4 + 8 * n\<rparr>)"
  proof -
    have a: "rb_ptr ?h = 0" "ltr_int_packet ?h = ?d" "\<not> rb_size s < 4" "rb_size s - 4 = 8 * n + 4"
      using assms(2,3) by simp_all
    have q: "rd ?d (rb_ptr ?h + 2) = Some 5" "rd ?d (rb_ptr ?h) = Some (?d ! 0)" using r r2 a by simp_all
    show ?thesis
      unfolding process_packet_tir5_def Let_def a(2) q Option.bind.simps a(3,4) st ps pz [symmetric] lp
      using a(1,3) ck by simp
  qed
  have "dispatch_packet E 0x10 ?h = Some (True, (?f s')\<lparr>rb_ptr := rb_size s, pk_type := None\<rparr>)"
    using pk by (simp add: dispatch_packet_def)
  then have "packet_round E s = Some (Inl (True, (?f s')\<lparr>rb_ptr := rb_size s, pk_type := None\<rparr>))"
    using h assms(2,3) by (simp add: packet_round_def)
  then have "process_packet E s = Some (True, (?f s')\<lparr>rb_ptr := rb_size s, pk_type := None\<rparr>)"
    by (subst process_packet.simps) simp
  then show ?thesis by simp
qed

lemma demo_put:
  assumes "stripe_tir5 pkt p = Some t" and "uint (st_sum t) < 2 ^ 31" and "uint (st_points t) < 2 ^ 31"
  shows "\<exists>s'. put_tir5 (demo_tirimg pkt n ty lm) p 1 = Some s'"
proof -
  let ?s = "demo_tirimg pkt n ty lm"
  have i: "img_inv (im_st ?s) 0 0" "cap (im_st ?s) = Some 321" "nxt (im_st ?s) = []"
    using frame_start_init [of 640 480 DBG_OFF] by (simp_all add: demo_tirimg_def frame_start_def trunc_div_def)
  have nb: "im_bitmap (p_img ?s) = None" by (simp add: demo_tirimg_def)
  have rm: "(if vline t = current_vline (im_st ?s) then length (nxt (im_st ?s)) + 1 else 1) \<le> (321 :: nat)" using i(3) by simp
  have "\<exists>x. ltr_int_add_stripe (im_st ?s) t (p_img ?s) = Some x"
    using add_stripe_ok [OF i(1) nb i(2) rm] assms(2,3) by auto
  then obtain x where "ltr_int_add_stripe (im_st ?s) t (p_img ?s) = Some x" ..
  moreover have "ltr_int_packet ?s = pkt" by (simp add: demo_tirimg_def)
  ultimately show ?thesis using assms(1)
    by (cases x) (simp add: process_stripe_tir5_def put_stripe_def)
qed

theorem tir5_packet_complete_witness:
  "\<exists>s''. process_packet (demo_env []) (demo_tirimg [0, 0x10, 5, 0xBF, 0, 0, 0, 8, 0, 0, 0, 0, 0, 0, 0, 8] 16 None 0) = Some (True, s'') \<and>
    rb_ptr s'' = 16"
proof -
  let ?p = "[0, 0x10, 5, 0xBF, 0, 0, 0, 8, 0, 0, 0, 0, 0, 0, 0, 8] :: bytes"
  let ?s = "demo_tirimg ?p 16 None 0"
  have "\<exists>t. stripe_tir5 ?p 4 = Some t \<and> uint (st_sum t) < 2 ^ 31 \<and> uint (st_points t) < 2 ^ 31"
    by (simp add: stripe_tir5_def rd_def u32_of_u8_def Let_def)
  then obtain s' where s': "put_tir5 ?s 4 1 = Some s'" using demo_put by blast
  have "\<exists>s''. process_packet (demo_env []) ?s = Some (True, s'') \<and> im_st s'' = im_st s' \<and> p_img s'' = p_img s' \<and>
    rb_ptr s'' = rb_size ?s \<and> pk_type s'' = None"
  proof (rule tir5_packet_complete)
    show "put_tir5 ?s 4 1 = Some s'" by (rule s')
  qed (simp_all add: demo_tirimg_def check_paket_header_tir5_def be32_def rd_def u32_of_u8_def)
  then show ?thesis by (auto simp: demo_tirimg_def)
qed


subsection \<open>What reading a frame does to the device\<close>

text \<open>Reading only listens: nothing is sent to the device. \<open>core\<close> is the part of the state that says so.\<close>

fun is_send :: "usb_io \<Rightarrow> bool" where
  "is_send (Send ep d) = True"
| "is_send _ = False"

definition core :: "'a hwst_scheme \<Rightarrow> bytes list \<times> (dev_found \<times> tir_interface option \<times> int \<times> int \<times> int \<times> bool \<times> nat)" where
  "core s = (map (\<lambda>e. case e of Send ep d \<Rightarrow> d | _ \<Rightarrow> []) (filter is_send (hist s)), dev_cfg s)"

lemma core_log: "\<not> is_send e \<Longrightarrow> core (log_io e s) = core s"
  by (simp add: core_def log_io_def dev_cfg_def)

lemma core_upd [simp]:
  "core (rb_ptr_update f s) = core s" "core (rb_size_update f s) = core s" "core (pk_type_update g s) = core s"
  "core (pk_limit_update f s) = core s" "core (pk_size_update f s) = core s" "core (pkt_no_update h s) = core s"
  "core (current_line_update h s) = core s" "core (prev_btns_update k s) = core s" "core (p_img_update l s) = core s"
  "core (im_st_update m s) = core s" "core (sn4_pipe_update n s') = core s'" "core (im_device_update q s) = core s"
  by (simp_all add: core_def dev_cfg_def)

lemma core_put: "put_stripe s t = Some s' \<Longrightarrow> core s' = core s"
  by (auto simp: put_stripe_def bind_eq_Some_conv)

lemma core_stripes:
  "process_stripe_tir2 s p = Some s' \<Longrightarrow> core s' = core s"
  "process_stripe_tir4 s p = Some s' \<Longrightarrow> core s' = core s"
  "process_stripe_tir5 s p = Some s' \<Longrightarrow> core s' = core s"
  "process_stripe_sn4 s p = Some s' \<Longrightarrow> core s' = core s"
  by (auto simp: process_stripe_tir2_def process_stripe_tir4_def process_stripe_tir5_def process_stripe_sn4_def
      bind_eq_Some_conv dest: core_put)

lemma core_next_frame:
  "is_next_frame_tir s p = Some (b, s') \<Longrightarrow> core s' = core s"
  "is_next_frame_tir2 s p = Some (b, s') \<Longrightarrow> core s' = core s"
  by (auto simp: is_next_frame_tir_def is_next_frame_tir2_def bind_eq_Some_conv Let_def)

lemma core_past [simp]: "core (past_limit n l s) = core s"
  by (simp add: past_limit_def)

lemma core_tir5_loop: "tir5_loop type ps s = Some s' \<Longrightarrow> core s' = core s"
proof (induction type ps s rule: tir5_loop.induct)
  case (1 type ps s)
  from "1.prems" show ?case
    by (subst (asm) tir5_loop.simps) (fastforce simp: bind_eq_Some_conv split: if_splits dest: core_stripes "1.IH")
qed

lemma core_sn4_loop: "sn4_loop ps s = Some s' \<Longrightarrow> core s' = core s"
proof (induction ps s rule: sn4_loop.induct)
  case (1 ps s)
  from "1.prems" show ?case
    by (subst (asm) sn4_loop.simps) (fastforce simp: bind_eq_Some_conv split: if_splits dest: core_stripes "1.IH")
qed

lemma core_sn4gr_loop: "sn4gr_loop p sz i l s = Some s' \<Longrightarrow> core s' = core s"
proof (induction "sz - i" arbitrary: i l s rule: less_induct)
  case less
  show ?case
  proof (cases "i < sz - 4")
    case True
    let ?d = "ltr_int_packet s"
    from less.prems True obtain b0 b1 r where
      b: "rd ?d (p + i) = Some b0" "rd ?d (p + i + 1) = Some b1" "rd ?d (p + i + 2) = Some r"
      by (subst (asm) sn4gr_loop.simps) (auto simp: bind_eq_Some_conv Let_def)
    define h v where "h = or_if (flag r 0x02) 0x200 (or_if (flag r 0x01) 0x100 (u32_of_u8 b0))"
      and "v = or_if (flag r 0x04) 0x100 (u32_of_u8 b1)"
    show ?thesis
    proof (cases "v < l")
      case True
      with \<open>i < sz - 4\<close> less.prems b v_def show ?thesis by (subst (asm) sn4gr_loop.simps) (simp add: Let_def)
    next
      case False
      with \<open>i < sz - 4\<close> less.prems b v_def obtain i' j sm sx c where
        x: "sn4gr_pixels ?d p sz (i + 3) 1 0 0 = Some (i', j, sm, sx)" and c: "rd ?d (p + i') = Some c"
        by (subst (asm) sn4gr_loop.simps) (auto simp: Let_def bind_eq_Some_conv)
      from sn4gr_pixels_mono [OF x] have i': "i + 3 \<le> i'" .
      show ?thesis
      proof (cases "c = 0")
        case True
        with \<open>i < sz - 4\<close> less.prems b v_def x c False obtain s1 t where "put_stripe s t = Some s1"
          "sn4gr_loop p sz (i' + 1) v s1 = Some s'"
          by (subst (asm) sn4gr_loop.simps) (auto simp: Let_def bind_eq_Some_conv)
        moreover have "sz - (i' + 1) < sz - i" using \<open>i < sz - 4\<close> i' by arith
        ultimately show ?thesis using less.hyps [of "i' + 1" v s1] core_put by metis
      next
        case c0: False
        with \<open>i < sz - 4\<close> less.prems b v_def x c False show ?thesis
          by (subst (asm) sn4gr_loop.simps) (simp add: Let_def)
      qed
    qed
  next
    case False
    with less.prems show ?thesis by (subst (asm) sn4gr_loop.simps) simp
  qed
qed

lemma core_tir5_packet: "process_packet_tir5 s n l = Some (b, s') \<Longrightarrow> core s' = core s"
  by (auto simp: process_packet_tir5_def bind_eq_Some_conv Let_def split: if_splits dest!: core_tir5_loop)

lemma core_fifo: "core (ltr_int_send_sn4_data E d s) = core s"
  by (simp add: ltr_int_send_sn4_data_def ltr_int_open_sn4_pipe_def Let_def core_log)

lemma core_buttons [simp]: "core (sn4_buttons E s b) = core s"
  by (simp add: sn4_buttons_def core_fifo)

lemma core_sn4_packet_post: "ok_post (process_packet_sn4 E s n l) (\<lambda>x. core (snd x) = core s)"
proof -
  have g: "core (snd a) = core t" if "process_stripe_sn4gr t p z = Some a" for a and t :: tirimg and p z
    using that core_sn4gr_loop by (auto simp: process_stripe_sn4gr_def bind_eq_Some_conv split: if_splits)
  show ?thesis
    unfolding process_packet_sn4_def Let_def ok_post_simps case_prod_beta
    by (intro ok_postI conjI impI) (auto dest!: g core_sn4_loop)
qed

lemma core_sn4_packet: "process_packet_sn4 E s n l = Some (b, s') \<Longrightarrow> core s' = core s"
  by (drule ok_postD [OF core_sn4_packet_post]) simp

lemma core_tir4_packet_post: "ok_post (process_packet_tir4 s n l) (\<lambda>x. core (snd x) = core s)"
proof (induction "l - rb_ptr s" arbitrary: s rule: less_induct)
  case less
  let ?p = "rb_ptr s"
  have step: "core (snd x) = core s"
    if "process_packet_tir4 (s2\<lparr>rb_ptr := ?p + 4\<rparr>) n l = Some x" "\<not> l \<le> ?p + 4" "core s2 = core s" for s2 x
    using ok_postD [OF less.hyps [of "s2\<lparr>rb_ptr := ?p + 4\<rparr>"] that(1)] that by simp
  have nx: "core (snd a) = core s" if "is_next_frame_tir s ?p = Some a" for a
    using that core_next_frame by (cases a) simp
  have st: "core s2 = core s" if "is_next_frame_tir s ?p = Some a" "process_stripe_tir4 (snd a) ?p = Some s2" for a s2
    using core_stripes that nx by metis
  show ?case
    unfolding process_packet_tir4.simps [of s n l] Let_def ok_post_simps case_prod_beta
    by (intro ok_postI conjI impI) (simp_all add: nx st step [OF _ _ st])
qed

lemma core_tir4_packet: "process_packet_tir4 s n l = Some (b, s') \<Longrightarrow> core s' = core s"
  by (drule ok_postD [OF core_tir4_packet_post]) simp

lemma core_tir2_packet_post: "ok_post (process_packet_tir2 s n l) (\<lambda>x. core (snd x) = core s)"
proof (induction "l - rb_ptr s" arbitrary: s rule: less_induct)
  case less
  let ?p = "rb_ptr s"
  have step: "core (snd x) = core s"
    if "process_packet_tir2 (s2\<lparr>rb_ptr := ?p + 3\<rparr>) n l = Some x" "\<not> l \<le> ?p + 3" "core s2 = core s" for s2 x
    using ok_postD [OF less.hyps [of "s2\<lparr>rb_ptr := ?p + 3\<rparr>"] that(1)] that by simp
  have nx: "core (snd a) = core s" if "is_next_frame_tir2 s ?p = Some a" for a
    using that core_next_frame by (cases a) simp
  have st: "core s2 = core s" if "is_next_frame_tir2 s ?p = Some a" "process_stripe_tir2 (snd a) ?p = Some s2" for a s2
    using core_stripes that nx by metis
  show ?case
    unfolding process_packet_tir2.simps [of s n l] Let_def ok_post_simps case_prod_beta
    by (intro ok_postI conjI impI) (simp_all add: nx st step [OF _ _ st])
qed

lemma core_tir2_packet: "process_packet_tir2 s n l = Some (b, s') \<Longrightarrow> core s' = core s"
  by (drule ok_postD [OF core_tir2_packet_post]) simp

lemmas packet_posts = core_tir5_packet core_sn4_packet core_tir4_packet core_tir2_packet

lemma core_dispatch: "dispatch_packet E t s = Some (b, s') \<Longrightarrow> core s' = core s"
proof -
  have a: "ok_post (process_packet_tir5 s n l) (\<lambda>x. core (snd x) = core s)" for n l
    by (rule ok_postI) (metis core_tir5_packet prod.collapse)
  have "ok_post (dispatch_packet E t s) (\<lambda>x. core (snd x) = core s)"
    by (simp add: dispatch_packet_def case_prod_beta a core_sn4_packet_post core_tir4_packet_post core_tir2_packet_post
        if_distrib [of core])
  then show "dispatch_packet E t s = Some (b, s') \<Longrightarrow> core s' = core s" by (drule_tac ok_postD) auto
qed

lemma core_head_post: "ok_post (packet_head s) (\<lambda>h. case h of None \<Rightarrow> True | Some s' \<Rightarrow> core s' = core s)"
  unfolding packet_head_def Let_def ok_post_simps
  by (intro ok_postI conjI impI) (simp_all only: option.case core_upd)

lemma core_head: "packet_head s = Some (Some s') \<Longrightarrow> core s' = core s"
  by (drule ok_postD [OF core_head_post]) simp

definition round_state :: "(bool \<times> tirimg) + tirimg \<Rightarrow> tirimg" where
  "round_state r = (case r of Inl x \<Rightarrow> snd x | Inr s \<Rightarrow> s)"

lemma core_round: "packet_round E s = Some r \<Longrightarrow> core (round_state r) = core s"
  by (auto simp: packet_round_def bind_eq_Some_conv round_state_def split: if_splits option.splits
      dest!: core_head core_dispatch)

lemma core_packet:
  assumes "process_packet E s = Some x"
  shows "core (snd x) = core s"
proof (rule process_packet.raw_induct [OF _ assms, where P = "\<lambda>_ s x. core (snd x) = core s"])
  fix rec E s x
  assume IH: "\<And>E s x. rec E s = Some x \<Longrightarrow> core (snd x) = core s"
    and eq: "packet_round E s \<bind> (\<lambda>r. case r of Inl x \<Rightarrow> Some x | Inr s \<Rightarrow> rec E s) = Some x"
  from eq obtain r where r: "packet_round E s = Some r" and k: "(case r of Inl x \<Rightarrow> Some x | Inr s \<Rightarrow> rec E s) = Some x"
    by (auto simp: bind_eq_Some_conv)
  from core_round [OF r] k show "core (snd x) = core s"
    by (cases r) (auto simp: round_state_def dest!: IH)
qed

lemma core_receive: "core (snd (snd (ltr_int_receive_data E ep t s))) = core s"
  by (simp add: ltr_int_receive_data_def core_def dev_cfg_def Let_def log_io_def case_prod_beta)

lemma core_read_frame:
  assumes "read_frame E s = Some x"
  shows "core (snd x) = core s"
proof (rule read_frame.raw_induct [OF _ assms, where P = "\<lambda>_ s x. core (snd x) = core s"])
  fix rec E s x
  assume IH: "\<And>E s x. rec E s = Some x \<Longrightarrow> core (snd x) = core s"
    and eq: "(let (ok, s) =
       (if rb_size s \<le> rb_ptr s
        then (let (ok, n, s) = ltr_int_receive_data E (ltr_int_data_in_ep s) 1000 (s\<lparr>rb_ptr := 0\<rparr>)
              in (ok, s\<lparr>rb_size := n\<rparr>))
        else (True, s)) in
     if \<not> ok then Some (None, s)
     else process_packet E s \<bind> (\<lambda>(have, s). if have then Some (Some True, s)
       else (let (req, s) = ltr_int_got_new_request E s in if req then Some (Some False, s) else rec E s))) = Some x"
  define y where "y = (if rb_size s \<le> rb_ptr s
        then (let (ok, n, s) = ltr_int_receive_data E (ltr_int_data_in_ep s) 1000 (s\<lparr>rb_ptr := 0\<rparr>)
              in (ok, s\<lparr>rb_size := n\<rparr>))
        else (True, s))"
  have y: "core (snd y) = core s"
    using core_receive [of E "ltr_int_data_in_ep s" 1000 "s\<lparr>rb_ptr := 0\<rparr>"] by (simp add: y_def case_prod_beta Let_def)
  obtain ok s1 where ys: "y = (ok, s1)" by (cases y)
  note eq' = eq [folded y_def, unfolded ys Let_def prod.case]
  show "core (snd x) = core s"
  proof (cases ok)
    case False
    with eq' ys y show ?thesis by auto
  next
    case True
    with eq' obtain r where r: "process_packet E s1 = Some r"
      by (auto simp: bind_eq_Some_conv)
    obtain h s2 where hs: "r = (h, s2)" by (cases r)
    with r have p: "process_packet E s1 = Some (h, s2)" by simp
    have k: "(if h then Some (Some True, s2) else (let (req, s) = ltr_int_got_new_request E s2 in
        if req then Some (Some False, s) else rec E s)) = Some x"
      using eq' True p by (cases h) (simp_all add: Let_def)
    have c2: "core s2 = core s" using core_packet [OF p] y ys by simp
    have c3: "core (log_io PollRequest s2) = core s" using c2 by (simp add: core_log)
    show ?thesis using k c2 c3
      by (auto simp: ltr_int_got_new_request_def split: if_splits dest!: IH)
  qed
qed

lemma core_read_blobs:
  assumes "ltr_int_read_blobs_tir E s bl mn mx img info = Some (r, s', bl')"
  shows "core s' = core s"
proof -
  from assms obtain x where x: "read_frame E (s\<lparr>im_device := ti_dev_type info, p_img := img\<rparr>) = Some x"
    and "core s' = core (snd x)"
    by (auto simp: ltr_int_read_blobs_tir_def bind_eq_Some_conv split: option.splits bool.splits)
  with core_read_frame [OF x] show ?thesis by simp
qed

end
