(* ===== verification/TirDriver.thy ===== *)
theory TirDriver
  imports TirImg
begin

text \<open>
  \<open>src/tir_driver.c\<close>: the TrackIR driver as the run loop sees it (\<open>ltr_int_tracker_*\<close>), which puts the
  camera protocol (\<open>TirHw\<close>), the image decoding (\<open>TirImg\<close>), the preferences (\<open>TirPrefs\<close>) and the image
  processor (\<open>ImageProcess\<close>) together. The state of all of them is the record \<open>tirdrv\<close>; what surrounds
  the driver (the device, the preference file, the debug switches of the environment, the loader of
  the USB library) is the parameter \<open>drv_env\<close>. The function pointers into the USB library are taken
  to be there whenever the driver uses them: the protocol property of the run loop (theory
  \<open>RunLoop\<close>) shows that it calls the driver between a successful initialisation and the close only.
\<close>

record 'db tirdrv =
  td_img :: tirimg
  td_prefs :: tirprefs
  td_db :: 'db
  last_threshold :: int
  libhandle :: "string option"

record 'db drv_env =
  de_usb :: usb_env
  de_pref :: "'db pref_env"
  de_model_active :: "'db \<Rightarrow> bool"
  de_dbg :: "char \<Rightarrow> dbg_flag_type"
  de_load :: "string \<Rightarrow> bool"

definition usb_lib :: "'db drv_env \<Rightarrow> string" where
  "usb_lib E = (if de_dbg E CHR ''f'' = DBG_ON then ''libfakeusb'' else ''libltusb1'')"

text \<open>The variable \<open>status\<close> of the camera's initialisation is uninitialised: \<open>st0\<close> is what it holds.\<close>

definition ltr_int_tracker_init ::
  "'db drv_env \<Rightarrow> tir_status_t \<Rightarrow> camera_control_block \<Rightarrow> 'db tirdrv \<Rightarrow> (int \<times> camera_control_block \<times> 'db tirdrv) option" where
  "ltr_int_tracker_init E st0 ccb s =
     (if \<not> (dev_category (ccb_device ccb) = tir \<or> dev_category (ccb_device ccb) = tir_open) then None
      else (let s = s\<lparr>last_threshold := - 1\<rparr> in
      if \<not> de_load E (usb_lib E) then Some (- 1, ccb, s\<lparr>libhandle := None\<rparr>)
      else (let (ok, p) = ltr_int_tir_init_prefs (de_pref E) (td_db s) (td_prefs s);
                s = s\<lparr>libhandle := Some (usb_lib E), td_prefs := p\<rparr> in
      if \<not> ok then Some (- 1, ccb, s)
      else do {
        (ok, im) \<leftarrow> ltr_int_open_tir (de_usb E) (td_prefs s) st0 False (\<not> de_model_active E (td_db s)) (td_img s);
        if ok then do {
          info \<leftarrow> ltr_int_get_tir_info im;
          let ccb = ccb\<lparr>pixel_width := ti_width info, pixel_height := ti_height info\<rparr>;
          let im = im\<lparr>im_st := ltr_int_prepare_for_processing (im_st im) (int_of_u32 (pixel_width ccb))
                                 (int_of_u32 (pixel_height ccb)) (de_dbg E CHR ''p'')\<rparr>;
          Some (0, ccb, s\<lparr>td_img := im\<rparr>)
        }
        else Some (- 1, ccb, s\<lparr>td_img := im\<rparr>)
      })))"

text \<open>The threshold is sent only when the preference differs from the value sent last.\<close>

definition send_threshold :: "'db drv_env \<Rightarrow> 'db tirdrv \<Rightarrow> 'db tirdrv" where
  "send_threshold E s =
     (let tmp_thr = ltr_int_tir_get_threshold (td_prefs s) in
      if last_threshold s \<noteq> tmp_thr
      then s\<lparr>last_threshold := tmp_thr,
             td_img := snd (ltr_int_set_threshold_tir (de_usb E) (u32_of_int tmp_thr) (td_img s))\<rparr>
      else s)"

definition ltr_int_tracker_get_frame ::
  "'db drv_env \<Rightarrow> frame_type \<Rightarrow> 'db tirdrv \<Rightarrow> (int \<times> bool \<times> frame_type \<times> 'db tirdrv) option" where
  "ltr_int_tracker_get_frame E f s = do {
     info \<leftarrow> ltr_int_get_tir_info (td_img s);
     let f = f\<lparr>fr_width := ti_width info, fr_height := ti_height info\<rparr>;
     let img = \<lparr>im_w = int_of_u32 (ti_width info), im_h = int_of_u32 (ti_height info), im_bitmap = fr_bitmap f, im_ratio = ti_hf info\<rparr>;
     let s = send_threshold E s;
     (res, im, bl) \<leftarrow> ltr_int_read_blobs_tir (de_usb E) (td_img s) (fr_bloblist f)
                        (ltr_int_tir_get_min_blob (td_prefs s)) (ltr_int_tir_get_max_blob (td_prefs s)) img info;
     Some (res, True, f\<lparr>fr_bloblist := bl, fr_bitmap := im_bitmap (p_img im)\<rparr>, s\<lparr>td_img := im\<rparr>)
   }"

definition ltr_int_tracker_pause :: "'db drv_env \<Rightarrow> 'db tirdrv \<Rightarrow> (int \<times> 'db tirdrv) option" where
  "ltr_int_tracker_pause E s = do {
     (ok, im) \<leftarrow> ltr_int_pause_tir (de_usb E) (td_prefs s) (td_img s);
     Some (if ok then 0 else - 1, s\<lparr>td_img := im\<rparr>)
   }"

definition ltr_int_tracker_resume :: "'db drv_env \<Rightarrow> 'db tirdrv \<Rightarrow> (int \<times> 'db tirdrv) option" where
  "ltr_int_tracker_resume E s = do {
     (ok, im) \<leftarrow> ltr_int_resume_tir (de_usb E) (td_prefs s) (td_img s);
     Some (if ok then 0 else - 1, s\<lparr>td_img := im\<rparr>)
   }"

text \<open>Unloading a library that is not loaded would hand \<open>NULL\<close> to \<open>dlclose\<close>.\<close>

definition ltr_int_tracker_close :: "'db drv_env \<Rightarrow> 'db tirdrv \<Rightarrow> (int \<times> 'db tirdrv) option" where
  "ltr_int_tracker_close E s = do {
     (ok, im) \<leftarrow> ltr_int_close_tir (de_usb E) (td_prefs s) (td_img s);
     _ \<leftarrow> libhandle s;
     Some (if ok then 0 else - 1,
           s\<lparr>td_img := im\<lparr>im_st := ltr_int_cleanup_after_processing (im_st im)\<rparr>, libhandle := None\<rparr>)
   }"

text \<open>The probe of the GUI: which camera there is, whether the user may open it and whether its firmware
  is installed. \<open>Inl 0\<close> is the early \<open>return 0\<close>, where neither flag is set.\<close>

fun permitted :: "dev_found \<Rightarrow> dev_found \<times> bool" where
  "permitted (NOT_PERMITTED d) = (d, False)"
| "permitted d = (d, True)"

definition ltr_int_tir_found ::
  "'db drv_env \<Rightarrow> 'db tirdrv \<Rightarrow> (int + dev_found \<times> bool \<times> bool) \<times> 'db tirdrv" where
  "ltr_int_tir_found E s =
     (if \<not> de_load E (usb_lib E) then (Inl 0, s\<lparr>libhandle := None\<rparr>)
      else (let s = s\<lparr>libhandle := Some (usb_lib E)\<rparr>;
                (ok, im) = ltr_int_init_usb (de_usb E) (td_img s) in
      if \<not> ok then (Inl 0, s\<lparr>td_img := im\<rparr>)
      else (let (dev, im) = ltr_int_find_tir (de_usb E) im;
                (dev, have_permissions) = permitted dev;
                have_firmware = (if dev_num dev < dev_num TIR4 \<or> dev = SMARTNAV3 then True
                                 else ltr_int_find_firmware (de_usb E) dev \<noteq> None);
                im = ltr_int_finish_usb (- 1) im
            in (Inr (dev, have_firmware, have_permissions), s\<lparr>td_img := im, libhandle := None\<rparr>))))"


subsection \<open>Properties\<close>

text \<open>The packets sent to the device so far.\<close>

definition sent :: "'a hwst_scheme \<Rightarrow> bytes list" where
  "sent s = fst (core s)"

lemma sent_core: "core s' = core s \<Longrightarrow> sent s' = sent s"
  by (simp add: sent_def)

lemma sent_threshold:
  "\<exists>d. sent (snd (ltr_int_set_threshold_tir E v s)) = sent s @ [d] \<and> length d \<in> {3, 4} \<and> d ! 0 = 0x15"
proof -
  have "sent (snd (send_out E d s)) = sent s @ [d]" for d
    by (simp add: sent_def core_def send_out_def ltr_int_send_data_def log_io_def)
  then show ?thesis by (simp add: ltr_int_set_threshold_tir_def Let_def)
qed

lemma iface_threshold: "tir_iface (snd (ltr_int_set_threshold_tir E v s)) = tir_iface s"
  using dev_cfg_threshold [of E v s] by (auto simp: ign_def dest: dev_cfg_D)

text \<open>C9: Getting a frame only listens to the camera, except that one threshold packet is sent when the
  threshold preference differs from the value sent last; the value counts as sent whether or not
  the packet got through, so a lost threshold is not repeated by the following frames. The
  frame's size is that of the device.\<close>

theorem get_frame_sends_threshold_once:
  assumes "ltr_int_tracker_get_frame E f s = Some (r, acquired, f', s')"
  shows "(if last_threshold s = ltr_int_tir_get_threshold (td_prefs s) then sent (td_img s') = sent (td_img s)
          else \<exists>d. sent (td_img s') = sent (td_img s) @ [d] \<and> length d \<in> {3, 4} \<and> d ! 0 = 0x15) \<and>
    last_threshold s' = ltr_int_tir_get_threshold (td_prefs s') \<and> acquired \<and> td_prefs s' = td_prefs s \<and>
    (\<exists>info. ltr_int_get_tir_info (td_img s) = Some info \<and> fr_width f' = ti_width info \<and> fr_height f' = ti_height info)"
proof -
  let ?s = "send_threshold E s"
  from assms obtain info im bl img where i: "ltr_int_get_tir_info (td_img s) = Some info"
    and b: "ltr_int_read_blobs_tir (de_usb E) (td_img ?s) (fr_bloblist f)
      (ltr_int_tir_get_min_blob (td_prefs ?s)) (ltr_int_tir_get_max_blob (td_prefs ?s)) img info = Some (r, im, bl)"
    and s': "s' = ?s\<lparr>td_img := im\<rparr>" "acquired" "fr_width f' = ti_width info" "fr_height f' = ti_height info"
    by (auto simp: ltr_int_tracker_get_frame_def bind_eq_Some_conv Let_def)
  have "sent im = sent (td_img ?s)" by (rule sent_core [OF core_read_blobs [OF b]])
  moreover obtain d where "sent (snd (ltr_int_set_threshold_tir (de_usb E) (u32_of_int (ltr_int_tir_get_threshold (td_prefs s))) (td_img s))) =
      sent (td_img s) @ [d]" "length d \<in> {3, 4}" "d ! 0 = 0x15"
    using sent_threshold by blast
  ultimately show ?thesis using i s' by (auto simp: send_threshold_def Let_def)
qed

text \<open>A driver for the witnesses: a TrackIR 4 that answers each read with one packet ending a frame.\<close>

definition demo_drv_env :: "bytes \<Rightarrow> (string \<times> string) list drv_env" where
  "demo_drv_env pkt = \<lparr>de_usb = (demo_env [])\<lparr>u_recv := \<lambda>_ _ _ _. (True, pkt)\<rparr>, de_pref = empty_pref_env,
     de_model_active = (\<lambda>_. False), de_dbg = (\<lambda>_. DBG_OFF), de_load = (\<lambda>_. True)\<rparr>"

definition demo_drv :: "(string \<times> string) list tirdrv" where
  "demo_drv = \<lparr>td_img = (demo_tirimg (replicate 64 0) 0 None 0)\<lparr>tir_iface := Some tir4, hw_device := TIR4\<rparr>,
     td_prefs = tirprefs_init\<lparr>threshold := 140\<rparr>, td_db = [], last_threshold = - 1, libhandle = Some ''libltusb1''\<rparr>"

definition demo_frame :: frame_type where
  "demo_frame = \<lparr>fr_bloblist = \<lparr>num_blobs = 10, expected_blobs = 3, blobs = replicate 10 \<lparr>bl_x = Fin 0, bl_y = Fin 0, bl_score = 0\<rparr>\<rparr>,
     fr_width = 0, fr_height = 0, fr_counter = 0, fr_bitmap = None\<rparr>"


lemma demo_get_frame:
  "\<exists>f' s'. ltr_int_tracker_get_frame (demo_drv_env [6, 0x1C, 0, 0, 0, 0]) demo_frame demo_drv = Some (0, True, f', s')"
proof -
  let ?E = "demo_drv_env [6, 0x1C, 0, 0, 0, 0]"
  let ?U = "de_usb ?E"
  let ?im = "td_img (send_threshold ?E demo_drv)"
  have im: "rb_ptr ?im = 0" "rb_size ?im = 0" "pk_type ?im = None" "length (ltr_int_packet ?im) = 64"
    "im_st ?im = ltr_int_prepare_for_processing img_init 640 480 DBG_OFF" "td_img demo_drv = (demo_tirimg (replicate 64 0) 0 None 0)\<lparr>tir_iface := Some tir4, hw_device := TIR4\<rparr>"
    by (simp_all add: send_threshold_def demo_drv_def demo_tirimg_def ltr_int_set_threshold_tir_def send_out_def
        ltr_int_send_data_def log_io_def Let_def case_prod_beta)
  have info: "ltr_int_get_tir_info (td_img demo_drv) = Some get_tir4_info"
    by (simp add: demo_drv_def demo_tirimg_def ltr_int_get_tir_info_def)
  let ?img = "\<lparr>im_w = int_of_u32 400, im_h = int_of_u32 300, im_bitmap = None, im_ratio = Fin 2\<rparr>"
  let ?s0 = "?im\<lparr>im_device := TIR4, p_img := ?img, rb_ptr := 0\<rparr>"
  obtain s1 where r: "ltr_int_receive_data ?U (ltr_int_data_in_ep ?im) 1000 ?s0 = (True, 6, s1)"
    and s1: "ltr_int_packet s1 = [6, 0x1C, 0, 0, 0, 0] @ drop 6 (ltr_int_packet ?im)" "pk_type s1 = None" "rb_ptr s1 = 0"
      "im_device s1 = TIR4" "im_st s1 = im_st ?im" "p_img s1 = ?img"
    using im by (simp add: ltr_int_receive_data_def demo_drv_env_def demo_env_def Let_def log_io_def case_prod_beta)
  let ?s2 = "s1\<lparr>rb_size := 6\<rparr>"
  have rd: "rd (ltr_int_packet s1) 0 = Some 6" "rd (ltr_int_packet s1) (Suc 0) = Some 0x1C" "rd (ltr_int_packet s1) 2 = Some 0"
    "rd (ltr_int_packet s1) (Suc (Suc 0)) = Some 0" "rd (ltr_int_packet s1) 3 = Some 0" "rd (ltr_int_packet s1) 4 = Some 0" "rd (ltr_int_packet s1) 5 = Some 0"
    unfolding s1(1) by (simp_all add: rd_def)
  let ?h = "?s2\<lparr>pk_type := Some 0x1C, pk_size := 6, pk_limit := 6, rb_ptr := 2\<rparr>"
  have hd: "packet_head ?s2 = Some (Some ?h)"
    using s1 rd by (simp add: packet_head_def Let_def)
  have "\<exists>s3. process_packet_tir4 ?h 6 6 = Some (True, s3) \<and> im_st s3 = im_st ?im \<and> p_img s3 = ?img"
    using s1 rd by (subst process_packet_tir4.simps) (simp add: Let_def past_limit_def)
  then obtain s3 where t: "process_packet_tir4 ?h 6 6 = Some (True, s3)" and s3: "im_st s3 = im_st ?im" "p_img s3 = ?img" by blast
  have "\<exists>s4. dispatch_packet ?U 0x1C ?h = Some (True, s4) \<and> im_st s4 = im_st ?im \<and> p_img s4 = ?img"
    using t s1 s3 by (simp add: dispatch_packet_def)
  then obtain s4 where d: "dispatch_packet ?U 0x1C ?h = Some (True, s4)" and s4: "im_st s4 = im_st ?im" "p_img s4 = ?img" by blast
  have "packet_round ?U ?s2 = Some (Inl (True, s4))" using hd d s1 by (simp add: packet_round_def)
  then have pp: "process_packet ?U ?s2 = Some (True, s4)" by (subst process_packet.simps) simp
  have rf: "read_frame ?U (?im\<lparr>im_device := TIR4, p_img := ?img\<rparr>) = Some (Some True, s4)"
    using im r pp by (subst read_frame.simps) simp
  have fs: "frame_start (im_st s4) 321"
    unfolding s4 im using frame_start_init [of 640 480 DBG_OFF] by (simp add: trunc_div_def)
  let ?mn = "ltr_int_tir_get_min_blob (td_prefs (send_threshold ?E demo_drv))"
  let ?mx = "ltr_int_tir_get_max_blob (td_prefs (send_threshold ?E demo_drv))"
  have nb: "im_bitmap ?img = None" "fr_bitmap demo_frame = None" by (simp_all add: demo_frame_def)
  have bl: "unat MAX_BLOBS \<le> length (blobs (fr_bloblist demo_frame))" by (simp add: MAX_BLOBS_def demo_frame_def)
  obtain s5 blt' where "ltr_int_stripes_to_blobs (im_st s4) MAX_BLOBS (fr_bloblist demo_frame) ?mn ?mx ?img = Some (0, s5, blt', ?img)"
    using frame_ok [OF fs nb(1) _ _ _ _ bl, of "[]" ?mn ?mx] by (auto simp: add_stripes_def)
  then show ?thesis
    using info rf s4 nb(2)
    by (simp add: ltr_int_tracker_get_frame_def ltr_int_read_blobs_tir_def get_tir4_info_def)
qed

theorem get_frame_sends_threshold_once_witness:
  "\<exists>f' s' d. ltr_int_tracker_get_frame (demo_drv_env [6, 0x1C, 0, 0, 0, 0]) demo_frame demo_drv = Some (0, True, f', s') \<and>
    sent (td_img s') = sent (td_img demo_drv) @ [d] \<and> last_threshold s' = 140"
proof -
  obtain f' s' where r: "ltr_int_tracker_get_frame (demo_drv_env [6, 0x1C, 0, 0, 0, 0]) demo_frame demo_drv = Some (0, True, f', s')"
    using demo_get_frame by blast
  from get_frame_sends_threshold_once [OF r] have
    "\<exists>d. sent (td_img s') = sent (td_img demo_drv) @ [d] \<and> last_threshold s' = 140"
    by (auto simp: demo_drv_def ltr_int_tir_get_threshold_def)
  with r show ?thesis by blast
qed


lemma tracker_init_parts:
  assumes "ltr_int_tracker_init E st0 ccb s = Some (0, ccb', s')"
  obtains im info p where
    "ltr_int_open_tir (de_usb E) p st0 False (\<not> de_model_active E (td_db s)) (td_img s) = Some (True, im)"
    "ltr_int_get_tir_info im = Some info"
    "ccb' = ccb\<lparr>pixel_width := ti_width info, pixel_height := ti_height info\<rparr>"
    "s' = s\<lparr>last_threshold := - 1, libhandle := Some (usb_lib E), td_prefs := p,
       td_img := im\<lparr>im_st := ltr_int_prepare_for_processing (im_st im) (int_of_u32 (ti_width info))
         (int_of_u32 (ti_height info)) (de_dbg E CHR ''p'')\<rparr>\<rparr>"
  using assms by (auto simp: ltr_int_tracker_init_def bind_eq_Some_conv Let_def split: if_splits prod.splits)

text \<open>When the driver's initialisation reports success, the USB library is loaded, the picture size
  announced to the run loop is that of the device found, the image processor has its line buffers,
  the threshold will be sent with the first frame and the camera has been told to stream, with
  its infrared light on unless the active model brings its own.\<close>

theorem tracker_init_success:
  assumes "ltr_int_tracker_init E st0 ccb s = Some (0, ccb', s')"
  shows "\<exists>info. ltr_int_get_tir_info (td_img s') = Some info \<and>
    pixel_width ccb' = ti_width info \<and> pixel_height ccb' = ti_height info \<and> ccb_device ccb' = ccb_device ccb \<and>
    iface_of (hw_device (td_img s')) = tir_iface (td_img s') \<and> cap (im_st (td_img s')) \<noteq> None \<and>
    libhandle s' = Some (usb_lib E) \<and> last_threshold s' = - 1 \<and> streaming (cam c0 (td_img s')) \<and>
    ir_on (td_img s') = (\<not> de_model_active E (td_db s))"
proof -
  from assms obtain im info p where o: "ltr_int_open_tir (de_usb E) p st0 False (\<not> de_model_active E (td_db s)) (td_img s) = Some (True, im)"
    and i: "ltr_int_get_tir_info im = Some info"
    and r: "ccb' = ccb\<lparr>pixel_width := ti_width info, pixel_height := ti_height info\<rparr>"
      "s' = s\<lparr>last_threshold := - 1, libhandle := Some (usb_lib E), td_prefs := p,
         td_img := im\<lparr>im_st := ltr_int_prepare_for_processing (im_st im) (int_of_u32 (ti_width info))
           (int_of_u32 (ti_height info)) (de_dbg E CHR ''p'')\<rparr>\<rparr>"
    by (rule tracker_init_parts)
  have ti: "ltr_int_get_tir_info (im\<lparr>im_st := x\<rparr>) = ltr_int_get_tir_info im" for x
    by (simp add: ltr_int_get_tir_info_def)
  have "cam c0 (im\<lparr>im_st := x\<rparr>) = cam c0 im" for x by (simp add: cam_def)
  then show ?thesis using open_tir_ok [OF o, of c0] i r
    by (auto simp: ti ltr_int_prepare_for_processing_def Let_def)
qed

definition demo_ccb :: camera_control_block where
  "demo_ccb = \<lparr>ccb_device = \<lparr>dev_category = tir, device_id = ''TrackIR''\<rparr>, pixel_width = 0, pixel_height = 0, diag = False,
     enable_IR_illuminator_LEDS = False\<rparr>"

lemma demo_init:
  "\<exists>ccb' s'. ltr_int_tracker_init ((demo_drv_env [])\<lparr>de_usb := answering_env []\<rparr>) junk_status demo_ccb demo_drv = Some (0, ccb', s')"
proof -
  have l: "6 < length (ltr_int_packet (td_img demo_drv))" by (simp add: demo_drv_def demo_tirimg_def)
  obtain p where p: "ltr_int_tir_init_prefs empty_pref_env (td_db demo_drv) (td_prefs demo_drv) = (True, p)"
    by (simp add: ltr_int_tir_init_prefs_def empty_pref_env_def)
  obtain im where o: "ltr_int_open_tir (answering_env []) p junk_status False True (td_img demo_drv) = Some (True, im)"
    using answer_open [OF l] by blast
  then obtain i where "tir_iface im = Some i" using open_tir_ok by blast
  then obtain info where i: "ltr_int_get_tir_info im = Some info" by (simp add: ltr_int_get_tir_info_def)
  show ?thesis
    using o i p by (simp add: ltr_int_tracker_init_def demo_ccb_def demo_drv_env_def usb_lib_def demo_drv_def)
qed

theorem tracker_init_success_witness:
  "\<exists>ccb' s'. ltr_int_tracker_init ((demo_drv_env [])\<lparr>de_usb := answering_env []\<rparr>) junk_status demo_ccb demo_drv = Some (0, ccb', s') \<and>
    streaming (cam demo_cam (td_img s')) \<and> last_threshold s' = - 1 \<and> libhandle s' = Some ''libltusb1''"
proof -
  let ?E = "(demo_drv_env [])\<lparr>de_usb := answering_env []\<rparr>"
  obtain ccb' s' where r: "ltr_int_tracker_init ?E junk_status demo_ccb demo_drv = Some (0, ccb', s')"
    using demo_init by blast
  from tracker_init_success [OF r] r show ?thesis by (auto simp: usb_lib_def demo_drv_env_def)
qed

text \<open>An initialisation that fails always reports -1, leaves the control block alone and does not prepare
  the image processor. It does not give back what it took, though: the USB library stays loaded
  unless loading it was what failed.\<close>

theorem tracker_init_failure:
  assumes "ltr_int_tracker_init E st0 ccb s = Some (r, ccb', s')" and "r \<noteq> 0"
  shows "r = - 1 \<and> ccb' = ccb \<and> (libhandle s' = (if de_load E (usb_lib E) then Some (usb_lib E) else None)) \<and>
    last_threshold s' = - 1"
  using assms by (auto simp: ltr_int_tracker_init_def bind_eq_Some_conv Let_def split: if_splits prod.splits)

theorem tracker_init_failure_witness:
  "\<exists>ccb' s'. ltr_int_tracker_init ((demo_drv_env [])\<lparr>de_usb := (demo_env [])\<lparr>u_init := \<lambda>_. False\<rparr>\<rparr>) junk_status demo_ccb demo_drv =
     Some (- 1, ccb', s') \<and> libhandle s' = Some ''libltusb1''"
proof -
  let ?E = "(demo_drv_env [])\<lparr>de_usb := (demo_env [])\<lparr>u_init := \<lambda>_. False\<rparr>\<rparr>"
  obtain ccb' s' where r: "ltr_int_tracker_init ?E junk_status demo_ccb demo_drv = Some (- 1, ccb', s')"
    by (simp add: ltr_int_tracker_init_def demo_ccb_def demo_drv_env_def demo_drv_def ltr_int_open_tir_def
        ltr_int_init_usb_def demo_env_def ltr_int_tir_init_prefs_def empty_pref_env_def)
  from tracker_init_failure [OF r] r show ?thesis by (auto simp: usb_lib_def demo_drv_env_def)
qed

text \<open>The probe of the configuration program sends nothing to the camera; it reports the device the USB
  layer found with the permission flag taken off, and firmware as missing exactly for the devices
  that need one for which no file is installed. It unloads the library again, unless the USB
  initialisation failed.\<close>

theorem tir_found_report:
  assumes "ltr_int_tir_found E s = (x, s')" and "u_find (de_usb E) (hist (td_img s) @ [InitUsb]) = (if permitted_flag then d else NOT_PERMITTED d)"
    and "\<And>e. d \<noteq> NOT_PERMITTED e"
  shows "sent (td_img s') = sent (td_img s) \<and>
    (case x of
       Inr (dev, fw, perm) \<Rightarrow> dev = d \<and> perm = permitted_flag \<and> libhandle s' = None \<and>
         fw = (d \<in> {NOT_TIR, TIR2, TIR3, SMARTNAV3} \<or> ltr_int_find_firmware (de_usb E) d \<noteq> None)
     | Inl r \<Rightarrow> r = 0 \<and> (libhandle s' \<noteq> None \<longleftrightarrow> de_load E (usb_lib E)))"
proof -
  have p: "permitted (if permitted_flag then d else NOT_PERMITTED d) = (d, permitted_flag)"
    using assms(3) by (cases d) auto
  have c: "sent (log_io e t) = sent t" if "\<not> is_send e" for e and t :: tirimg
    using core_log [OF that] by (rule sent_core)
  have h: "hist (log_io e t) = hist t @ [e]" for e and t :: tirimg by (simp add: log_io_def)
  have n: "(dev_num d < dev_num TIR4 \<or> d = SMARTNAV3) = (d \<in> {NOT_TIR, TIR2, TIR3, SMARTNAV3})"
    using assms(3) by (cases d) auto
  show ?thesis
    using assms(1,2) p n
    by (auto simp: ltr_int_tir_found_def ltr_int_init_usb_def ltr_int_find_tir_def ltr_int_finish_usb_def Let_def c
        h split: if_splits prod.splits)
qed

theorem tir_found_report_witness:
  "\<exists>s'. ltr_int_tir_found (demo_drv_env []) demo_drv = (Inr (TIR4, True, True), s') \<and> libhandle s' = None \<and>
    sent (td_img s') = sent (td_img demo_drv)"
proof -
  obtain s' where r: "ltr_int_tir_found (demo_drv_env []) demo_drv = (Inr (TIR4, True, True), s')"
    by (simp add: ltr_int_tir_found_def demo_drv_env_def demo_env_def ltr_int_init_usb_def ltr_int_find_tir_def ltr_int_find_firmware_def)
  from tir_found_report [OF r, of True TIR4] r show ?thesis by (simp add: demo_drv_env_def demo_env_def)
qed

end
