(* ===== verification/RunLoop.thy ===== *)
theory RunLoop
  imports CalTypes
begin

text \<open>
  \<open>src/cal.c\<close> and \<open>src/runloop.c\<close>: the camera abstraction layer, its run loop, and the requests
  (suspend, wake up, shut down) that another thread makes of it. The tracking thread runs
  \<open>ltr_int_cal_run\<close>, which loads the driver and calls \<open>ltr_int_rl_run\<close>; the controlling thread calls
  \<open>ltr_int_cal_suspend\<close>, \<open>_wakeup\<close> and \<open>_shutdown\<close>.

  Both threads are program counters over one shared state (the statics of the two files), and a
  step is one access to that state, so the interleavings the code allows are those of the
  relation \<open>rl_step\<close>. The mutex \<open>state_mx\<close> has an owner; a thread that waits on \<open>state_cv\<close> sleeps until
  it is woken, by a broadcast or spuriously. The tracker and the frame callback are a parameter
  (\<open>loop_env\<close>) over a state of any type \<open>'d\<close>; \<open>calls\<close> records the calls the loop makes of them.
\<close>

datatype thread = Tracker | Controller

datatype tcall = CInit bool | CFrame | CCallback | CPause | CResume | CClose

text \<open>Where the tracking thread is: in \<open>ltr_int_cal_run\<close>, in \<open>ltr_int_rl_run\<close> before the loop, at the top of the
  loop, in the \<open>RUNNING\<close> and the \<open>PAUSED\<close> branch, and after the loop. \<open>Stuck\<close> is a failed assertion.\<close>

datatype rl_pc =
    CalRun | LoadLib string | ChkRequest | SetRun | SetRunFlag | RlRun | Prep
  | Top
  | RLock | RGet | RClear ltr_request_t | RFlag ltr_request_t | RUnlock ltr_request_t | RAct ltr_request_t
  | PLock | PTest | PSleep | PGet | PClear ltr_request_t | PFlag ltr_request_t | PReset ltr_request_t
  | PUnlock ltr_request_t | PAct ltr_request_t
  | Close | Unload int | Done int | Stuck

text \<open>Where the controlling thread is in the request it makes.\<close>

datatype ctl_pc = CIdle | CReq ltr_request_t | CFlag | CCheck | CLock | CSet | CUnlock

record 'd rlst =
  iface :: bool
  request :: ltr_request_t
  cal_device_state :: linuxtrack_state_type
  new_request_received :: bool
  announced :: "linuxtrack_state_type list"
  state_mx :: "thread option"
  change_flag :: bool
  woken :: bool
  rl_ccb :: camera_control_block
  rl_frame :: frame_type
  frame_blobs_alloc :: bool
  counter :: u32
  dev :: 'd
  calls :: "tcall list"
  pc :: rl_pc
  cpc :: ctl_pc
  cret :: int

record 'd loop_env =
  le_load :: "string \<Rightarrow> bool"
  le_init :: "camera_control_block \<Rightarrow> 'd \<Rightarrow> (int \<times> camera_control_block \<times> 'd) option"
  le_frame :: "camera_control_block \<Rightarrow> frame_type \<Rightarrow> 'd \<Rightarrow> (int \<times> bool \<times> frame_type \<times> 'd) option"
  le_pause :: "'d \<Rightarrow> (int \<times> 'd) option"
  le_resume :: "'d \<Rightarrow> (int \<times> 'd) option"
  le_close :: "'d \<Rightarrow> (int \<times> 'd) option"
  le_cbk :: "camera_control_block \<Rightarrow> frame_type \<Rightarrow> 'd \<Rightarrow> int \<times> 'd"
  le_single :: "'d \<Rightarrow> bool"
  le_malloc :: "blob_type list"

subsection \<open>cal.c\<close>

text \<open>The status callback is told of each new state; \<open>announced\<close> is what it was told.\<close>

definition ltr_int_cal_set_state :: "linuxtrack_state_type \<Rightarrow> 'd rlst \<Rightarrow> 'd rlst" where
  "ltr_int_cal_set_state new s = s\<lparr>cal_device_state := new, announced := announced s @ [new]\<rparr>"

definition ltr_int_cal_get_state :: "'d rlst \<Rightarrow> linuxtrack_state_type" where
  "ltr_int_cal_get_state s = cal_device_state s"

definition ltr_int_got_new_request :: "'d rlst \<Rightarrow> bool" where
  "ltr_int_got_new_request s = new_request_received s"

text \<open>\<open>ltr_int_change_state\<close> and \<open>ltr_int_get_state_request\<close> are two and three accesses; whole, they are these.\<close>

definition ltr_int_change_state :: "ltr_request_t \<Rightarrow> 'd rlst \<Rightarrow> 'd rlst" where
  "ltr_int_change_state r s = (s\<lparr>request := r\<rparr>)\<lparr>new_request_received := True\<rparr>"

definition ltr_int_get_state_request :: "'d rlst \<Rightarrow> ltr_request_t \<times> 'd rlst" where
  "ltr_int_get_state_request s =
     (let res = request s in (res, (s\<lparr>request := CONTINUE\<rparr>)\<lparr>new_request_received := False\<rparr>))"

definition ltr_int_frame_free :: "'d rlst \<Rightarrow> 'd rlst option" where
  "ltr_int_frame_free s = (if frame_blobs_alloc s then Some (s\<lparr>frame_blobs_alloc := False\<rparr>) else None)"

fun driver_lib :: "cal_device_category_type \<Rightarrow> string option" where
  "driver_lib tir = Some ''libtir''"
| "driver_lib tir4_camera = Some ''libtir4''"
| "driver_lib webcam = Some ''libwc''"
| "driver_lib mac_webcam = Some ''libmacwc''"
| "driver_lib webcam_ft = Some ''libft''"
| "driver_lib mac_webcam_ft = Some ''libmacwc''"
| "driver_lib wiimote = Some ''libmacwii''"
| "driver_lib tir_open = None"

subsection \<open>The tracking thread\<close>

definition call :: "tcall \<Rightarrow> 'd rlst \<Rightarrow> 'd rlst" where
  "call c s = s\<lparr>calls := calls s @ [c]\<rparr>"

definition goto :: "rl_pc \<Rightarrow> 'd rlst \<Rightarrow> 'd rlst" where
  "goto p s = s\<lparr>pc := p\<rparr>"

text \<open>\<open>ltr_int_cal_run\<close> up to the call of the driver.\<close>

fun cal_run_step :: "'d loop_env \<Rightarrow> 'd rlst \<Rightarrow> rl_pc \<Rightarrow> 'd rlst option" where
  "cal_run_step E s CalRun =
     (case driver_lib (dev_category (ccb_device (rl_ccb s))) of
        None \<Rightarrow> Some (goto Stuck (ltr_int_cal_set_state INITIALIZING s))
      | Some l \<Rightarrow> Some (goto (LoadLib l) (ltr_int_cal_set_state INITIALIZING s)))"
| "cal_run_step E s (LoadLib l) =
     (if le_load E l then Some (goto ChkRequest (s\<lparr>iface := True\<rparr>)) else Some (goto (Done (- 1)) s))"
| "cal_run_step E s ChkRequest = Some (goto (if request s \<noteq> PAUSE then SetRun else RlRun) s)"
| "cal_run_step E s SetRun = Some (goto SetRunFlag (s\<lparr>request := RUN\<rparr>))"
| "cal_run_step E s SetRunFlag = Some (goto RlRun (s\<lparr>new_request_received := True\<rparr>))"
| "cal_run_step E s (Unload r) = Some (goto (Done r) (s\<lparr>iface := False\<rparr>))"
| "cal_run_step E s p = None"

text \<open>\<open>ltr_int_rl_run\<close> before the loop.\<close>

fun rl_start_step :: "'d loop_env \<Rightarrow> 'd rlst \<Rightarrow> rl_pc \<Rightarrow> 'd rlst option" where
  "rl_start_step E s RlRun = do {
     let s = ltr_int_cal_set_state INITIALIZING s;
     (r, ccb, d) \<leftarrow> le_init E (rl_ccb s) (dev s);
     let s = call (CInit (r = 0)) (s\<lparr>rl_ccb := ccb, dev := d\<rparr>);
     Some (if r \<noteq> 0 then goto (Unload (- 1)) (ltr_int_cal_set_state err_NOT_INITIALIZED s) else goto Prep s)
   }"
| "rl_start_step E s Prep =
     (let bl = \<lparr>num_blobs = MAX_BLOBS, expected_blobs = (if le_single E (dev s) then 1 else 3), blobs = le_malloc E\<rparr>
      in Some (goto Top (ltr_int_cal_set_state RUNNING
           (s\<lparr>rl_frame := (rl_frame s)\<lparr>fr_bloblist := bl, fr_bitmap := None\<rparr>, frame_blobs_alloc := True, counter := 0\<rparr>))))"
| "rl_start_step E s p = None"

text \<open>Getting a frame and handing it to the callback.\<close>

definition frame_step :: "'d loop_env \<Rightarrow> 'd rlst \<Rightarrow> 'd rlst option" where
  "frame_step E s = do {
     (retval, acquired, f, d) \<leftarrow> le_frame E (rl_ccb s) (rl_frame s) (dev s);
     let s = call CFrame (s\<lparr>rl_frame := f, dev := d\<rparr>);
     if retval = - 1 then Some (goto Close (ltr_int_cal_set_state err_PROCESSING_FRAME s))
     else if acquired then do {
       let s = s\<lparr>counter := counter s + 1, rl_frame := (rl_frame s)\<lparr>fr_counter := counter s + 1\<rparr>\<rparr>;
       let (rv, d) = le_cbk E (rl_ccb s) (rl_frame s) (dev s);
       let s = call CCallback (s\<lparr>dev := d\<rparr>);
       Some (if rv < 0 then goto Close (ltr_int_cal_set_state err_PROCESSING_FRAME s) else goto Top s)
     }
     else Some (goto Top s)
   }"

text \<open>The \<open>RUNNING\<close> branch.\<close>

fun running_step :: "'d loop_env \<Rightarrow> 'd rlst \<Rightarrow> rl_pc \<Rightarrow> 'd rlst option" where
  "running_step E s RLock = (if state_mx s = None then Some (goto RGet (s\<lparr>state_mx := Some Tracker\<rparr>)) else None)"
| "running_step E s RGet = Some (goto (RClear (request s)) s)"
| "running_step E s (RClear r) = Some (goto (RFlag r) (s\<lparr>request := CONTINUE\<rparr>))"
| "running_step E s (RFlag r) = Some (goto (RUnlock r) (s\<lparr>new_request_received := False\<rparr>))"
| "running_step E s (RUnlock r) = Some (goto (RAct r) (s\<lparr>state_mx := None\<rparr>))"
| "running_step E s (RAct r) =
     (case r of
        PAUSE \<Rightarrow> do {
          let s = ltr_int_cal_set_state PAUSED s;
          (_, d) \<leftarrow> le_pause E (dev s);
          Some (goto Top (call CPause (s\<lparr>dev := d\<rparr>)))
        }
      | SHUTDOWN \<Rightarrow> Some (goto Close s)
      | _ \<Rightarrow> frame_step E s)"
| "running_step E s p = None"

text \<open>The \<open>PAUSED\<close> branch. Waiting releases the mutex; a woken thread takes it again before it goes on.\<close>

fun paused_step :: "'d loop_env \<Rightarrow> 'd rlst \<Rightarrow> rl_pc \<Rightarrow> 'd rlst option" where
  "paused_step E s PLock = (if state_mx s = None then Some (goto PTest (s\<lparr>state_mx := Some Tracker\<rparr>)) else None)"
| "paused_step E s PTest =
     (if change_flag s then Some (goto PGet s) else Some (goto PSleep (s\<lparr>state_mx := None, woken := False\<rparr>)))"
| "paused_step E s PSleep =
     (if woken s \<and> state_mx s = None then Some (goto PTest (s\<lparr>state_mx := Some Tracker\<rparr>)) else None)"
| "paused_step E s PGet = Some (goto (PClear (request s)) s)"
| "paused_step E s (PClear r) = Some (goto (PFlag r) (s\<lparr>request := CONTINUE\<rparr>))"
| "paused_step E s (PFlag r) = Some (goto (PReset r) (s\<lparr>new_request_received := False\<rparr>))"
| "paused_step E s (PReset r) = Some (goto (PUnlock r) (s\<lparr>change_flag := False\<rparr>))"
| "paused_step E s (PUnlock r) = Some (goto (PAct r) (s\<lparr>state_mx := None\<rparr>))"
| "paused_step E s (PAct r) =
     (case r of
        RUN \<Rightarrow> do {
          (_, d) \<leftarrow> le_resume E (dev s);
          Some (goto Top (ltr_int_cal_set_state RUNNING (call CResume (s\<lparr>dev := d\<rparr>))))
        }
      | SHUTDOWN \<Rightarrow> do {
          (_, d) \<leftarrow> le_resume E (dev s);
          Some (goto Close (call CResume (s\<lparr>dev := d\<rparr>)))
        }
      | _ \<Rightarrow> Some (goto Top s))"
| "paused_step E s p = None"

definition top_step :: "'d rlst \<Rightarrow> 'd rlst option" where
  "top_step s = Some (goto (case ltr_int_cal_get_state s of RUNNING \<Rightarrow> RLock | PAUSED \<Rightarrow> PLock | _ \<Rightarrow> Stuck) s)"

definition close_step :: "'d loop_env \<Rightarrow> 'd rlst \<Rightarrow> 'd rlst option" where
  "close_step E s = do {
     (_, d) \<leftarrow> le_close E (dev s);
     s \<leftarrow> ltr_int_frame_free (call CClose (s\<lparr>dev := d\<rparr>));
     Some (goto (Unload 0) (ltr_int_cal_set_state STOPPED s))
   }"

text \<open>The next step of the tracking thread, when it can make one.\<close>

definition rl_next :: "'d loop_env \<Rightarrow> 'd rlst \<Rightarrow> 'd rlst option" where
  "rl_next E s =
     (case pc s of
        CalRun \<Rightarrow> cal_run_step E s (pc s) | LoadLib _ \<Rightarrow> cal_run_step E s (pc s) | ChkRequest \<Rightarrow> cal_run_step E s (pc s)
      | SetRun \<Rightarrow> cal_run_step E s (pc s) | SetRunFlag \<Rightarrow> cal_run_step E s (pc s) | Unload _ \<Rightarrow> cal_run_step E s (pc s)
      | RlRun \<Rightarrow> rl_start_step E s (pc s) | Prep \<Rightarrow> rl_start_step E s (pc s)
      | Top \<Rightarrow> top_step s
      | RLock \<Rightarrow> running_step E s (pc s) | RGet \<Rightarrow> running_step E s (pc s) | RClear _ \<Rightarrow> running_step E s (pc s)
      | RFlag _ \<Rightarrow> running_step E s (pc s) | RUnlock _ \<Rightarrow> running_step E s (pc s) | RAct _ \<Rightarrow> running_step E s (pc s)
      | Close \<Rightarrow> close_step E s
      | Done _ \<Rightarrow> None | Stuck \<Rightarrow> None
      | _ \<Rightarrow> paused_step E s (pc s))"

subsection \<open>The controlling thread\<close>

text \<open>A request: \<open>ltr_int_change_state\<close>, the test that a driver is loaded, and \<open>signal_request\<close>.\<close>

definition ctl_next :: "'d rlst \<Rightarrow> 'd rlst option" where
  "ctl_next s =
     (case cpc s of
        CIdle \<Rightarrow> None
      | CReq r \<Rightarrow> Some (s\<lparr>request := r, cpc := CFlag\<rparr>)
      | CFlag \<Rightarrow> Some (s\<lparr>new_request_received := True, cpc := CCheck\<rparr>)
      | CCheck \<Rightarrow> Some (if iface s then s\<lparr>cpc := CLock\<rparr> else s\<lparr>cpc := CIdle, cret := - 1\<rparr>)
      | CLock \<Rightarrow> (if state_mx s = None then Some (s\<lparr>state_mx := Some Controller, cpc := CSet\<rparr>) else None)
      | CSet \<Rightarrow> Some (s\<lparr>change_flag := True, woken := True, cpc := CUnlock\<rparr>)
      | CUnlock \<Rightarrow> Some (s\<lparr>state_mx := None, cpc := CIdle, cret := 0\<rparr>))"

fun ltr_int_cal_shutdown :: "'d rlst \<Rightarrow> 'd rlst" where
  "ltr_int_cal_shutdown s = s\<lparr>cpc := CReq SHUTDOWN\<rparr>"

fun ltr_int_cal_suspend :: "'d rlst \<Rightarrow> 'd rlst" where
  "ltr_int_cal_suspend s = s\<lparr>cpc := CReq PAUSE\<rparr>"

fun ltr_int_cal_wakeup :: "'d rlst \<Rightarrow> 'd rlst" where
  "ltr_int_cal_wakeup s = s\<lparr>cpc := CReq RUN\<rparr>"

inductive rl_step :: "'d loop_env \<Rightarrow> 'd rlst \<Rightarrow> 'd rlst \<Rightarrow> bool" for E where
  tracking: "rl_next E s = Some s' \<Longrightarrow> rl_step E s s'"
| controlling: "ctl_next s = Some s' \<Longrightarrow> rl_step E s s'"
| shutdown: "cpc s = CIdle \<Longrightarrow> rl_step E s (ltr_int_cal_shutdown s)"
| suspend: "cpc s = CIdle \<Longrightarrow> rl_step E s (ltr_int_cal_suspend s)"
| wakeup: "cpc s = CIdle \<Longrightarrow> rl_step E s (ltr_int_cal_wakeup s)"
| spurious: "pc s = PSleep \<Longrightarrow> rl_step E s (s\<lparr>woken := True\<rparr>)"

inductive_cases rl_stepE: "rl_step E s s'"

definition rl_init :: "camera_control_block \<Rightarrow> frame_type \<Rightarrow> 'd \<Rightarrow> 'd rlst" where
  "rl_init ccb f d = \<lparr>iface = False, request = RUN, cal_device_state = STOPPED, new_request_received = False,
     announced = [], state_mx = None, change_flag = False, woken = False, rl_ccb = ccb, rl_frame = f,
     frame_blobs_alloc = False, counter = 0, dev = d, calls = [], pc = CalRun, cpc = CIdle, cret = 0\<rparr>"

definition rl_reachable :: "'d loop_env \<Rightarrow> camera_control_block \<Rightarrow> frame_type \<Rightarrow> 'd \<Rightarrow> 'd rlst \<Rightarrow> bool" where
  "rl_reachable E ccb f d = (rl_step E)\<^sup>*\<^sup>* (rl_init ccb f d)"

text \<open>The tracking thread on its own for \<open>n\<close> steps, or until it can make none.\<close>

fun rl_run :: "'d loop_env \<Rightarrow> nat \<Rightarrow> 'd rlst \<Rightarrow> 'd rlst" where
  "rl_run E 0 s = s"
| "rl_run E (Suc n) s = (case rl_next E s of None \<Rightarrow> s | Some s' \<Rightarrow> rl_run E n s')"


subsection \<open>The protocol between the run loop and the driver\<close>

text \<open>What a driver may rely on: it is initialised once; if that succeeds, frames are asked for and
  handed on while it is not paused, pause and resume alternate, and it is closed once, when it is
  not paused, after which it is called no more.\<close>

datatype phase = Fresh | Failed | Active | Suspended | Closed

fun protocol :: "phase \<Rightarrow> tcall \<Rightarrow> phase option" where
  "protocol Fresh (CInit ok) = Some (if ok then Active else Failed)"
| "protocol Active CFrame = Some Active"
| "protocol Active CCallback = Some Active"
| "protocol Active CPause = Some Suspended"
| "protocol Suspended CResume = Some Active"
| "protocol Active CClose = Some Closed"
| "protocol _ _ = None"

definition phase_after :: "tcall list \<Rightarrow> phase option" where
  "phase_after cs = foldM protocol Fresh cs"

lemma phase_after_simps [simp]:
  "phase_after [] = Some Fresh" "phase_after (cs @ [c]) = phase_after cs \<bind> (\<lambda>p. protocol p c)"
  by (simp_all add: phase_after_def foldM_append)

text \<open>What is true of the state at each point of the tracking thread.\<close>

fun pc_phase :: "rl_pc \<Rightarrow> linuxtrack_state_type \<Rightarrow> phase set" where
  "pc_phase Top st = (if st = PAUSED then {Suspended} else {Active})"
| "pc_phase Prep st = {Active}"
| "pc_phase RLock st = {Active}" | "pc_phase RGet st = {Active}" | "pc_phase (RClear r) st = {Active}"
| "pc_phase (RFlag r) st = {Active}" | "pc_phase (RUnlock r) st = {Active}" | "pc_phase (RAct r) st = {Active}"
| "pc_phase PLock st = {Suspended}" | "pc_phase PTest st = {Suspended}" | "pc_phase PSleep st = {Suspended}"
| "pc_phase PGet st = {Suspended}" | "pc_phase (PClear r) st = {Suspended}" | "pc_phase (PFlag r) st = {Suspended}"
| "pc_phase (PReset r) st = {Suspended}" | "pc_phase (PUnlock r) st = {Suspended}" | "pc_phase (PAct r) st = {Suspended}"
| "pc_phase Close st = {Active}"
| "pc_phase (Unload r) st = (if r = 0 then {Closed} else {Failed})"
| "pc_phase (Done r) st = (if r = 0 then {Closed} else {Fresh, Failed})"
| "pc_phase p st = {Fresh}"

fun pc_state :: "rl_pc \<Rightarrow> linuxtrack_state_type set" where
  "pc_state Top = {RUNNING, PAUSED}"
| "pc_state RLock = {RUNNING}" | "pc_state RGet = {RUNNING}" | "pc_state (RClear r) = {RUNNING}"
| "pc_state (RFlag r) = {RUNNING}" | "pc_state (RUnlock r) = {RUNNING}" | "pc_state (RAct r) = {RUNNING}"
| "pc_state PLock = {PAUSED}" | "pc_state PTest = {PAUSED}" | "pc_state PSleep = {PAUSED}"
| "pc_state PGet = {PAUSED}" | "pc_state (PClear r) = {PAUSED}" | "pc_state (PFlag r) = {PAUSED}"
| "pc_state (PReset r) = {PAUSED}" | "pc_state (PUnlock r) = {PAUSED}" | "pc_state (PAct r) = {PAUSED}"
| "pc_state Close = {RUNNING, PAUSED, err_PROCESSING_FRAME}"
| "pc_state (Unload r) = (if r = 0 then {STOPPED} else {err_NOT_INITIALIZED})"
| "pc_state (Done r) = (if r = 0 then {STOPPED} else {err_NOT_INITIALIZED, INITIALIZING})"
| "pc_state CalRun = UNIV"
| "pc_state p = {INITIALIZING}"

fun pc_locked :: "rl_pc \<Rightarrow> bool" where
  "pc_locked RGet = True" | "pc_locked (RClear r) = True" | "pc_locked (RFlag r) = True" | "pc_locked (RUnlock r) = True"
| "pc_locked PTest = True" | "pc_locked PGet = True" | "pc_locked (PClear r) = True" | "pc_locked (PFlag r) = True"
| "pc_locked (PReset r) = True" | "pc_locked (PUnlock r) = True"
| "pc_locked p = False"

fun pc_blobs :: "rl_pc \<Rightarrow> bool" where
  "pc_blobs CalRun = False" | "pc_blobs (LoadLib l) = False" | "pc_blobs ChkRequest = False" | "pc_blobs SetRun = False"
| "pc_blobs SetRunFlag = False" | "pc_blobs RlRun = False" | "pc_blobs Prep = False" | "pc_blobs (Unload r) = False"
| "pc_blobs (Done r) = False" | "pc_blobs Stuck = False" | "pc_blobs p = True"

fun ctl_locked :: "ctl_pc \<Rightarrow> bool" where
  "ctl_locked CSet = True" | "ctl_locked CUnlock = True" | "ctl_locked c = False"

definition phase_in :: "tcall list \<Rightarrow> phase set \<Rightarrow> bool" where
  "phase_in cs S \<longleftrightarrow> (\<exists>p \<in> S. phase_after cs = Some p)"

lemma phase_in_step:
  "phase_in [] {Fresh}"
  "phase_in cs {Fresh} \<Longrightarrow> phase_in (cs @ [CInit True]) {Active}"
  "phase_in cs {Fresh} \<Longrightarrow> phase_in (cs @ [CInit False]) {Failed}"
  "phase_in cs {Active} \<Longrightarrow> phase_in (cs @ [CFrame]) {Active}"
  "phase_in cs {Active} \<Longrightarrow> phase_in (cs @ [CFrame, CCallback]) {Active}"
  "phase_in cs {Active} \<Longrightarrow> phase_in (cs @ [CPause]) {Suspended}"
  "phase_in cs {Suspended} \<Longrightarrow> phase_in (cs @ [CResume]) {Active}"
  "phase_in cs {Active} \<Longrightarrow> phase_in (cs @ [CClose]) {Closed}"
  using phase_after_simps(2) [of "cs @ [CFrame]" CCallback]
  by (auto simp: phase_in_def simp del: append_assoc) (simp add: phase_after_def foldM_append)

lemma phase_in_mono: "phase_in cs {Fresh} \<Longrightarrow> phase_in cs {Fresh, Failed}" "phase_in cs {Failed} \<Longrightarrow> phase_in cs {Fresh, Failed}"
  by (auto simp: phase_in_def)

definition rl_inv :: "camera_control_block \<Rightarrow> 'd rlst \<Rightarrow> bool" where
  "rl_inv ccb s \<longleftrightarrow>
     phase_in (calls s) (pc_phase (pc s) (cal_device_state s)) \<and>
     cal_device_state s \<in> pc_state (pc s) \<and>
     \<not> (pc_locked (pc s) \<and> ctl_locked (cpc s)) \<and>
     state_mx s = (if pc_locked (pc s) then Some Tracker else if ctl_locked (cpc s) then Some Controller else None) \<and>
     frame_blobs_alloc s = pc_blobs (pc s) \<and>
     (pc s = CalRun \<longrightarrow> rl_ccb s = ccb) \<and>
     (pc s = Stuck \<longrightarrow> driver_lib (dev_category (ccb_device ccb)) = None)"

lemmas rl_thread_defs = rl_next_def goto_def call_def ltr_int_cal_set_state_def ltr_int_cal_get_state_def
  top_step_def close_step_def ltr_int_frame_free_def frame_step_def

lemma ok_post_cases [simp]:
  "ok_post (case x of None \<Rightarrow> a | Some y \<Rightarrow> b y) P = ((x = None \<longrightarrow> ok_post a P) \<and> (\<forall>y. x = Some y \<longrightarrow> ok_post (b y) P))"
  by (cases x) simp_all

lemma frame_step_inv:
  assumes "rl_inv ccb s" and "pc s = RAct r"
  shows "ok_post (frame_step E s) (rl_inv ccb)"
  using assms unfolding frame_step_def Let_def ok_post_simps case_prod_beta
  by (intro ok_postI conjI impI)
    (simp_all add: rl_inv_def goto_def call_def ltr_int_cal_set_state_def phase_in_step)

lemma rl_next_inv_post:
  assumes "rl_inv ccb s"
  shows "ok_post (rl_next E s) (rl_inv ccb)"
proof -
  note simps = rl_inv_def goto_def call_def ltr_int_cal_set_state_def ltr_int_cal_get_state_def
    top_step_def close_step_def ltr_int_frame_free_def phase_in_step phase_in_mono
  show ?thesis
  proof (cases "pc s")
    case CalRun
    with assms show ?thesis by (simp add: rl_next_def simps)
  next
    case RlRun
    have "ok_post (rl_start_step E s RlRun) (rl_inv ccb)"
      unfolding rl_start_step.simps Let_def ok_post_simps case_prod_beta
      by (intro ok_postI) (use assms RlRun in \<open>simp add: simps\<close>)
    then show ?thesis by (simp add: rl_next_def RlRun)
  next
    case Top
    with assms show ?thesis by (cases "cal_device_state s") (simp_all add: rl_next_def simps)
  next
    case (RAct r)
    with assms frame_step_inv [OF assms RAct] show ?thesis
      by (cases r) (auto intro!: ok_postI simp: rl_next_def simps Let_def case_prod_beta)
  next
    case (PAct r)
    with assms show ?thesis
      by (cases r) (auto intro!: ok_postI simp: rl_next_def simps Let_def case_prod_beta)
  next
    case Close
    have "ok_post (close_step E s) (rl_inv ccb)"
      unfolding close_step_def Let_def ok_post_simps case_prod_beta
      by (intro ok_postI) (use assms Close in \<open>auto simp: simps\<close>)
    then show ?thesis by (simp add: rl_next_def Close)
  qed (use assms in \<open>simp_all add: rl_next_def simps split: if_splits\<close>)
qed

lemma rl_next_inv: "rl_next E s = Some s' \<Longrightarrow> rl_inv ccb s \<Longrightarrow> rl_inv ccb s'"
  by (rule ok_postD [OF rl_next_inv_post])

lemma ctl_next_inv:
  assumes "ctl_next s = Some s'" and "rl_inv ccb s"
  shows "rl_inv ccb s'"
proof -
  have "ok_post (ctl_next s) (rl_inv ccb)"
    using assms(2) by (cases "cpc s") (simp_all add: rl_inv_def ctl_next_def split: if_splits)
  from ok_postD [OF this assms(1)] show ?thesis .
qed

lemma rl_step_inv: "rl_step E s s' \<Longrightarrow> rl_inv ccb s \<Longrightarrow> rl_inv ccb s'"
  by (erule rl_step.cases) (simp_all add: rl_next_inv ctl_next_inv, simp_all add: rl_inv_def)

lemma rl_reachable_inv:
  assumes "rl_reachable E ccb f d s"
  shows "rl_inv ccb s"
  using assms unfolding rl_reachable_def
proof (induction rule: rtranclp_induct)
  case base
  show ?case by (simp add: rl_inv_def rl_init_def phase_in_step)
next
  case (step y z)
  then show ?case using rl_step_inv by blast
qed


text \<open>C10: In every interleaving of the tracking thread with the requests of another thread, the run loop keeps
  the protocol with the driver: one initialisation, frames only while it runs, pause and resume in
  alternation, exactly one close, and no call after that. The loop's own assertions hold (for a
  device category it supports), the mutex has the owner it should have, and when the thread has
  finished with 0 the driver was closed, the state shown is \<open>STOPPED\<close> and the blob buffer is freed.\<close>

theorem run_loop_protocol:
  assumes "rl_reachable E ccb f d s"
  shows "phase_after (calls s) \<noteq> None \<and>
    (pc s = Stuck \<longrightarrow> driver_lib (dev_category (ccb_device ccb)) = None) \<and>
    \<not> (pc_locked (pc s) \<and> ctl_locked (cpc s)) \<and>
    (pc s = Done 0 \<longrightarrow> phase_after (calls s) = Some Closed \<and> cal_device_state s = STOPPED \<and> \<not> frame_blobs_alloc s)"
proof -
  have i: "rl_inv ccb s" by (rule rl_reachable_inv [OF assms])
  then have "phase_after (calls s) \<noteq> None" by (auto simp: rl_inv_def phase_in_def)
  moreover from i have "pc s = Done 0 \<longrightarrow> phase_after (calls s) = Some Closed \<and> cal_device_state s = STOPPED \<and> \<not> frame_blobs_alloc s"
    by (auto simp: rl_inv_def phase_in_def)
  ultimately show ?thesis using i by (simp add: rl_inv_def)
qed

text \<open>A driver for the witnesses: it always answers and counts its frames.\<close>

definition demo_loop_env :: "nat loop_env" where
  "demo_loop_env = \<lparr>le_load = (\<lambda>_. True), le_init = (\<lambda>ccb n. Some (0, ccb, n)),
     le_frame = (\<lambda>ccb f n. Some (0, True, f, n + 1)), le_pause = (\<lambda>n. Some (0, n)), le_resume = (\<lambda>n. Some (0, n)),
     le_close = (\<lambda>n. Some (0, n)), le_cbk = (\<lambda>ccb f n. (0, n)), le_single = (\<lambda>_. True),
     le_malloc = replicate 10 \<lparr>bl_x = Fin 0, bl_y = Fin 0, bl_score = 0\<rparr>\<rparr>"

definition demo_loop_ccb :: camera_control_block where
  "demo_loop_ccb = \<lparr>ccb_device = \<lparr>dev_category = tir, device_id = ''TrackIR''\<rparr>, pixel_width = 0, pixel_height = 0, diag = False,
     enable_IR_illuminator_LEDS = False\<rparr>"

definition demo_loop_frame :: frame_type where
  "demo_loop_frame = \<lparr>fr_bloblist = \<lparr>num_blobs = 0, expected_blobs = 0, blobs = []\<rparr>, fr_width = 0, fr_height = 0,
     fr_counter = 0, fr_bitmap = None\<rparr>"

abbreviation demo_loop :: "nat rlst" where
  "demo_loop \<equiv> rl_init demo_loop_ccb demo_loop_frame 0"

lemma rl_run_steps: "(rl_step E)\<^sup>*\<^sup>* s (rl_run E n s)"
proof (induction n arbitrary: s)
  case (Suc n)
  show ?case
  proof (cases "rl_next E s")
    case (Some s')
    then have "rl_step E s s'" by (rule rl_step.tracking)
    with Suc.IH [of s'] Some show ?thesis by (simp add: converse_rtranclp_into_rtranclp)
  qed simp
qed simp

lemma rl_run_add: "rl_run E (m + n) s = rl_run E n (rl_run E m s)"
proof (induction m arbitrary: s)
  case (Suc m)
  have stop: "rl_next E s = None \<Longrightarrow> rl_run E n s = s" by (cases n) simp_all
  show ?case using Suc.IH stop by (cases "rl_next E s") simp_all
qed simp

theorem run_loop_protocol_witness:
  "calls (rl_run demo_loop_env 21 demo_loop) = [CInit True, CFrame, CCallback, CFrame, CCallback] \<and>
   phase_after (calls (rl_run demo_loop_env 21 demo_loop)) \<noteq> None"
proof -
  have r: "rl_reachable demo_loop_env demo_loop_ccb demo_loop_frame 0 (rl_run demo_loop_env 21 demo_loop)"
    unfolding rl_reachable_def by (rule rl_run_steps)
  have c: "calls (rl_run demo_loop_env 21 demo_loop) = [CInit True, CFrame, CCallback, CFrame, CCallback]"
    by code_simp
  show ?thesis using run_loop_protocol [OF r] c by blast
qed


subsection \<open>What becomes of a request\<close>

text \<open>A schedule: which thread makes the next step; one that cannot move is passed over.\<close>

fun rl_sched :: "'d loop_env \<Rightarrow> thread list \<Rightarrow> 'd rlst \<Rightarrow> 'd rlst" where
  "rl_sched E [] s = s"
| "rl_sched E (Tracker # ts) s = rl_sched E ts (case rl_next E s of None \<Rightarrow> s | Some s' \<Rightarrow> s')"
| "rl_sched E (Controller # ts) s = rl_sched E ts (case ctl_next s of None \<Rightarrow> s | Some s' \<Rightarrow> s')"

lemma rl_sched_steps: "(rl_step E)\<^sup>*\<^sup>* s (rl_sched E ts s)"
proof (induction E ts s rule: rl_sched.induct)
  case (2 E ts s)
  then show ?case by (cases "rl_next E s") (auto intro: converse_rtranclp_into_rtranclp rl_step.tracking)
next
  case (3 E ts s)
  then show ?case by (cases "ctl_next s") (auto intro: converse_rtranclp_into_rtranclp rl_step.controlling)
qed simp

lemma step_top:
  "pc s = Top \<Longrightarrow> cal_device_state s = RUNNING \<Longrightarrow> rl_next E s = Some (s\<lparr>pc := RLock\<rparr>)"
  "pc s = Top \<Longrightarrow> cal_device_state s = PAUSED \<Longrightarrow> rl_next E s = Some (s\<lparr>pc := PLock\<rparr>)"
  by (simp_all add: rl_next_def top_step_def ltr_int_cal_get_state_def goto_def)

lemma take_running_request:
  assumes "pc s = RLock" and "state_mx s = None"
  shows "rl_run E 5 s = s\<lparr>pc := RAct (request s), request := CONTINUE, new_request_received := False\<rparr>"
  using assms by (simp add: eval_nat_numeral rl_next_def goto_def)

lemma take_paused_request:
  assumes "pc s = PTest" and "change_flag s" and "state_mx s = Some Tracker"
  shows "rl_run E 6 s = s\<lparr>pc := PAct (request s), request := CONTINUE, new_request_received := False, change_flag := False, state_mx := None\<rparr>"
  using assms by (simp add: eval_nat_numeral rl_next_def goto_def)

lemma closing:
  assumes "pc s = Close" and "frame_blobs_alloc s" and "le_close E (dev s) = Some (r, d)"
  shows "rl_run E 2 s = s\<lparr>pc := Done 0, dev := d, calls := calls s @ [CClose], frame_blobs_alloc := False,
    cal_device_state := STOPPED, announced := announced s @ [STOPPED], iface := False\<rparr>"
  using assms by (simp add: eval_nat_numeral rl_next_def close_step_def goto_def call_def ltr_int_frame_free_def ltr_int_cal_set_state_def)


lemma shutdown_runs:
  assumes "pc s = Top" and "request s = SHUTDOWN" and "state_mx s = None" and "frame_blobs_alloc s"
    and "cal_device_state s = RUNNING \<or> cal_device_state s = PAUSED \<and> change_flag s"
    and total: "cal_device_state s = RUNNING \<Longrightarrow> le_close E (dev s) \<noteq> None"
      "cal_device_state s = PAUSED \<Longrightarrow> \<exists>r d. le_resume E (dev s) = Some (r, d) \<and> le_close E d \<noteq> None"
  shows "let s' = rl_run E (if cal_device_state s = RUNNING then 9 else 11) s in
    pc s' = Done 0 \<and> cal_device_state s' = STOPPED \<and> \<not> iface s' \<and> \<not> frame_blobs_alloc s' \<and>
    calls s' = calls s @ (if cal_device_state s = RUNNING then [CClose] else [CResume, CClose])"
proof (cases "cal_device_state s = RUNNING")
  case True
  let ?t = "s\<lparr>pc := RAct SHUTDOWN, request := CONTINUE, new_request_received := False\<rparr>"
  obtain r d where cl: "le_close E (dev s) = Some (r, d)" using total(1) [OF True] by auto
  have "rl_run E (1 + 5) s = rl_run E 5 (s\<lparr>pc := RLock\<rparr>)"
    unfolding rl_run_add using step_top(1) [OF assms(1) True, of E] by simp
  also have "\<dots> = ?t" using take_running_request [of "s\<lparr>pc := RLock\<rparr>" E] assms(2,3) by simp
  finally have a: "rl_run E (1 + 5) s = ?t" .
  have b: "rl_run E 1 ?t = ?t\<lparr>pc := Close\<rparr>" by (simp add: rl_next_def goto_def)
  have "rl_run E (((1 + 5) + 1) + 2) s = rl_run E 2 (?t\<lparr>pc := Close\<rparr>)" unfolding rl_run_add [of _ "1 + 5 + 1" 2] rl_run_add [of _ "1 + 5" 1] a b ..
  also have "\<dots> = (?t\<lparr>pc := Close\<rparr>)\<lparr>pc := Done 0, dev := d, calls := calls s @ [CClose], frame_blobs_alloc := False,
      cal_device_state := STOPPED, announced := announced s @ [STOPPED], iface := False\<rparr>"
    using closing [of "?t\<lparr>pc := Close\<rparr>" E r d] assms(4) cl by simp
  finally show ?thesis using True by simp
next
  case False
  then have P: "cal_device_state s = PAUSED" "change_flag s" using assms(5) by simp_all
  let ?q = "s\<lparr>pc := PTest, state_mx := Some Tracker\<rparr>"
  let ?t = "s\<lparr>pc := PAct SHUTDOWN, request := CONTINUE, new_request_received := False, change_flag := False\<rparr>"
  obtain r d r' d' where re: "le_resume E (dev s) = Some (r, d)" and cl: "le_close E d = Some (r', d')"
    using total(2) [OF P(1)] by auto
  have "rl_run E 2 s = ?q"
    using step_top(2) [OF assms(1) P(1), of E] assms(3) by (simp add: eval_nat_numeral rl_next_def goto_def)
  moreover have "rl_run E 6 ?q = ?t"
    using take_paused_request [of ?q E] assms(2,3) P(2) by simp
  moreover have "rl_run E 1 ?t = ?t\<lparr>pc := Close, dev := d, calls := calls s @ [CResume]\<rparr>"
    using re by (simp add: rl_next_def goto_def call_def)
  ultimately have "rl_run E (((2 + 6) + 1) + 2) s = rl_run E 2 (?t\<lparr>pc := Close, dev := d, calls := calls s @ [CResume]\<rparr>)"
    unfolding rl_run_add by simp
  moreover note closing [of "?t\<lparr>pc := Close, dev := d, calls := calls s @ [CResume]\<rparr>" E r' d']
  ultimately show ?thesis using assms(4) cl False by simp
qed

text \<open>C11: A shut down request that is there when the loop next looks is obeyed: within eleven steps of its own
  the tracking thread has resumed the tracker if it was paused, closed it, freed the blobs, shown
  \<open>STOPPED\<close>, unloaded the driver and returned 0. While paused the loop looks once \<open>change_flag\<close> is set,
  which the request does last.\<close>

theorem shutdown_obeyed:
  assumes "pc s = Top" and "request s = SHUTDOWN" and "state_mx s = None" and "frame_blobs_alloc s"
    and "cal_device_state s = RUNNING \<or> cal_device_state s = PAUSED \<and> change_flag s"
    and total: "cal_device_state s = RUNNING \<Longrightarrow> le_close E (dev s) \<noteq> None"
      "cal_device_state s = PAUSED \<Longrightarrow> \<exists>r d. le_resume E (dev s) = Some (r, d) \<and> le_close E d \<noteq> None"
  shows "let s' = rl_run E (if cal_device_state s = RUNNING then 9 else 11) s in
    pc s' = Done 0 \<and> cal_device_state s' = STOPPED \<and> \<not> iface s' \<and> \<not> frame_blobs_alloc s' \<and>
    calls s' = calls s @ (if cal_device_state s = RUNNING then [CClose] else [CResume, CClose])"
  using assms by (rule shutdown_runs)

theorem shutdown_obeyed_witness:
  "let s' = rl_run demo_loop_env 9 (rl_sched demo_loop_env (replicate 7 Controller) (ltr_int_cal_shutdown (rl_run demo_loop_env 14 demo_loop))) in
   pc s' = Done 0 \<and> cal_device_state s' = STOPPED \<and> calls s' = [CInit True, CFrame, CCallback, CClose]"
proof -
  let ?s = "rl_sched demo_loop_env (replicate 7 Controller) (ltr_int_cal_shutdown (rl_run demo_loop_env 14 demo_loop))"
  have "pc ?s = Top" "request ?s = SHUTDOWN" "state_mx ?s = None" "frame_blobs_alloc ?s" "cal_device_state ?s = RUNNING"
    "calls ?s = [CInit True, CFrame, CCallback]"
    by code_simp+
  moreover have "le_close demo_loop_env d \<noteq> None" "\<exists>r d'. le_resume demo_loop_env d = Some (r, d') \<and> le_close demo_loop_env d' \<noteq> None" for d
    by (simp_all add: demo_loop_env_def)
  ultimately show ?thesis using shutdown_obeyed [of ?s demo_loop_env] by (simp only: Let_def simp_thms if_True append.simps)
qed

text \<open>A whole life: start up, a shut down request, and the end.\<close>

lemma start_up:
  assumes "driver_lib (dev_category (ccb_device ccb)) = Some l" and "le_load E l"
    and "le_init E ccb d = Some (0, ccb', d')"
  shows "let s = rl_run E 7 (rl_init ccb f d) in
    pc s = Top \<and> cal_device_state s = RUNNING \<and> state_mx s = None \<and> frame_blobs_alloc s \<and> iface s \<and> cpc s = CIdle \<and> dev s = d'"
  using assms by (simp add: eval_nat_numeral rl_next_def rl_init_def goto_def call_def ltr_int_cal_set_state_def Let_def)

lemma shutdown_cycle:
  assumes "driver_lib (dev_category (ccb_device ccb)) = Some l" and "le_load E l"
    and "le_init E ccb d = Some (0, ccb', d')" and "le_close E d' \<noteq> None"
  shows "\<exists>s. rl_reachable E ccb f d s \<and> pc s = Done 0"
proof -
  let ?a = "rl_run E 7 (rl_init ccb f d)"
  let ?b = "rl_sched E (replicate 6 Controller) (ltr_int_cal_shutdown ?a)"
  note a = start_up [OF assms(1-3), of f, unfolded Let_def]
  have b: "pc ?b = Top" "request ?b = SHUTDOWN" "state_mx ?b = None" "frame_blobs_alloc ?b" "cal_device_state ?b = RUNNING" "dev ?b = d'"
    using a by (simp_all add: eval_nat_numeral ctl_next_def)
  have "pc (rl_run E 9 ?b) = Done 0"
    using shutdown_runs [OF b(1-4) disjI1 [OF b(5)]] b(5,6) assms(4) by (simp add: Let_def)
  moreover have "rl_step E ?a (ltr_int_cal_shutdown ?a)" using a by (intro rl_step.shutdown) simp
  then have "rl_reachable E ccb f d (rl_run E 9 ?b)" unfolding rl_reachable_def
    by (meson rl_run_steps rl_sched_steps rtranclp.rtrancl_into_rtrancl rtranclp_trans)
  ultimately show ?thesis by blast
qed

text \<open>With no request pending and a tracker that keeps delivering, the loop goes on for ever.\<close>

definition looping :: "'d rlst \<Rightarrow> bool" where
  "looping s \<longleftrightarrow> cal_device_state s = RUNNING \<and> state_mx s = (if pc_locked (pc s) then Some Tracker else None) \<and>
     request s = CONTINUE \<and>
     pc s \<in> {Top, RLock, RGet, RClear CONTINUE, RFlag CONTINUE, RUnlock CONTINUE, RAct CONTINUE}"

definition delivering :: "'d loop_env \<Rightarrow> bool" where
  "delivering E \<longleftrightarrow> (\<forall>ccb f d. (\<exists>r a f' d'. le_frame E ccb f d = Some (r, a, f', d') \<and> r \<noteq> - 1) \<and> fst (le_cbk E ccb f d) \<ge> 0)"

lemma looping_step:
  assumes "delivering E" and "looping s"
  shows "\<exists>s'. rl_next E s = Some s' \<and> looping s'"
proof (cases "pc s = RAct CONTINUE")
  case True
  obtain r a f' d' where fr: "le_frame E (rl_ccb s) (rl_frame s) (dev s) = Some (r, a, f', d')" "r \<noteq> - 1"
    using assms(1) unfolding delivering_def by blast
  have cb: "\<not> fst (le_cbk E ccb f d) < 0" for ccb f d
    using assms(1) unfolding delivering_def by (metis not_less)
  have st: "cal_device_state s = RUNNING" "state_mx s = None" "request s = CONTINUE"
    using assms(2) True by (simp_all add: looping_def)
  have "\<exists>s'. frame_step E s = Some s' \<and> pc s' = Top \<and> cal_device_state s' = cal_device_state s \<and> state_mx s' = state_mx s \<and>
      request s' = request s"
    using fr cb by (cases a) (simp_all add: frame_step_def goto_def call_def case_prod_beta Let_def)
  then show ?thesis using True st by (auto simp: rl_next_def looping_def)
next
  case False
  with assms(2) consider "pc s = Top" | "pc s = RLock" | "pc s = RGet" | "pc s = RClear CONTINUE" | "pc s = RFlag CONTINUE" |
      "pc s = RUnlock CONTINUE"
    unfolding looping_def by blast
  then show ?thesis
    using assms(2)
    by cases (simp_all add: looping_def rl_next_def top_step_def ltr_int_cal_get_state_def goto_def)
qed

lemma looping_run: "delivering E \<Longrightarrow> looping s \<Longrightarrow> looping (rl_run E n s)"
proof (induction n arbitrary: s)
  case (Suc n)
  from looping_step [OF Suc.prems] show ?case using Suc.IH [OF Suc.prems(1)] by auto
qed simp

text \<open>A request can be lost. \<open>ltr_int_change_state\<close> writes \<open>request\<close> without the mutex under which the loop
  reads and clears it, so a shut down that is written between the loop's read and its clearing
  disappears: \<open>ltr_int_cal_shutdown\<close> returns 0, no request is left, and if nobody asks again and the
  camera keeps delivering, the tracking thread never returns.\<close>

theorem shutdown_request_lost:
  assumes "pc s = RClear CONTINUE" and "cpc s = CReq SHUTDOWN" and "iface s"
    and "cal_device_state s = RUNNING" and "state_mx s = Some Tracker" and "delivering E"
  shows "\<exists>s'. (rl_step E)\<^sup>*\<^sup>* s s' \<and> cpc s' = CIdle \<and> cret s' = 0 \<and> request s' = CONTINUE \<and>
    cal_device_state s' = RUNNING \<and> (\<forall>n. pc (rl_run E n s') \<noteq> Close \<and> (\<forall>r. pc (rl_run E n s') \<noteq> Done r))"
proof -
  let ?s = "rl_sched E [Controller, Tracker, Controller, Controller, Tracker, Tracker, Controller, Controller, Controller] s"
  have e: "?s = s\<lparr>pc := RAct CONTINUE, cpc := CIdle, cret := 0, request := CONTINUE, new_request_received := False,
      state_mx := None, change_flag := True, woken := True\<rparr>"
    using assms(1-5) by (simp add: ctl_next_def rl_next_def goto_def)
  then have "looping ?s" using assms(4) by (simp add: looping_def)
  then have "looping (rl_run E n ?s)" for n by (rule looping_run [OF assms(6)])
  then have "pc (rl_run E n ?s) \<noteq> Close \<and> (\<forall>r. pc (rl_run E n ?s) \<noteq> Done r)" for n
    unfolding looping_def by (metis (no_types, lifting) insertE rl_pc.distinct rl_pc.simps singletonD)
  moreover have "(rl_step E)\<^sup>*\<^sup>* s ?s" by (rule rl_sched_steps)
  ultimately show ?thesis using e assms(4) by (intro exI [of _ ?s]) simp
qed

theorem shutdown_request_lost_witness:
  "\<exists>s'. rl_reachable demo_loop_env demo_loop_ccb demo_loop_frame 0 s' \<and> cpc s' = CIdle \<and> request s' = CONTINUE \<and>
     (\<forall>n. pc (rl_run demo_loop_env n s') \<noteq> Close)"
proof -
  let ?s = "ltr_int_cal_shutdown (rl_run demo_loop_env 17 demo_loop)"
  have a: "pc ?s = RClear CONTINUE" "cpc ?s = CReq SHUTDOWN" "iface ?s" "cal_device_state ?s = RUNNING" "state_mx ?s = Some Tracker"
    by code_simp+
  have c: "cpc (rl_run demo_loop_env 17 demo_loop) = CIdle" by code_simp
  have "delivering demo_loop_env" by (simp add: delivering_def demo_loop_env_def)
  from shutdown_request_lost [OF a this] obtain s' where s': "(rl_step demo_loop_env)\<^sup>*\<^sup>* ?s s'" "cpc s' = CIdle" "request s' = CONTINUE"
    "\<forall>n. pc (rl_run demo_loop_env n s') \<noteq> Close" by blast
  have "(rl_step demo_loop_env)\<^sup>*\<^sup>* demo_loop ?s"
    using rl_run_steps rl_step.shutdown [OF c] by (rule rtranclp.rtrancl_into_rtrancl)
  with s' show ?thesis unfolding rl_reachable_def by (meson rtranclp_trans)
qed


subsection \<open>What a driver must promise\<close>

text \<open>A driver with a notion of being open that a successful initialisation establishes and the other
  operations keep. The run loop then calls it only while it is open.\<close>

fun drv_live :: "rl_pc \<Rightarrow> bool" where
  "drv_live Prep = True" | "drv_live p = pc_blobs p"

locale driver =
  fixes E :: "'d loop_env" and opened :: "'d \<Rightarrow> bool"
  assumes init_opens: "le_init E ccb d = Some (0, ccb', d') \<Longrightarrow> opened d'"
    and frame_keeps: "opened d \<Longrightarrow> le_frame E ccb f d = Some (r, a, f', d') \<Longrightarrow> opened d'"
    and cbk_keeps: "opened d \<Longrightarrow> opened (snd (le_cbk E ccb f d))"
    and pause_keeps: "opened d \<Longrightarrow> le_pause E d = Some (r, d') \<Longrightarrow> opened d'"
    and resume_keeps: "opened d \<Longrightarrow> le_resume E d = Some (r, d') \<Longrightarrow> opened d'"
begin

definition live_inv :: "'d rlst \<Rightarrow> bool" where
  "live_inv s \<longleftrightarrow> (drv_live (pc s) \<longrightarrow> opened (dev s))"

lemma frame_live:
  assumes "opened (dev s)"
  shows "ok_post (frame_step E s) live_inv"
proof -
  have k: "opened (snd (snd (snd a)))" if "le_frame E (rl_ccb s) (rl_frame s) (dev s) = Some a" for a
    using frame_keeps [OF assms, of _ _ "fst a" "fst (snd a)" "fst (snd (snd a))" "snd (snd (snd a))"] that by simp
  have "opened (snd (le_cbk E ccb f (snd (snd (snd a)))))" if "le_frame E (rl_ccb s) (rl_frame s) (dev s) = Some a" for a ccb f
    using cbk_keeps [OF k [OF that]] .
  with k show ?thesis
    unfolding frame_step_def Let_def ok_post_simps case_prod_beta
    by (intro ok_postI conjI impI) (simp_all add: live_inv_def goto_def call_def ltr_int_cal_set_state_def)
qed

lemma next_live:
  assumes "live_inv s"
  shows "ok_post (rl_next E s) live_inv"
proof -
  note simps = live_inv_def goto_def call_def ltr_int_cal_set_state_def ltr_int_cal_get_state_def
    top_step_def close_step_def ltr_int_frame_free_def
  show ?thesis
  proof (cases "pc s")
    case CalRun
    then show ?thesis by (simp add: rl_next_def simps)
  next
    case RlRun
    have "ok_post (rl_start_step E s RlRun) live_inv"
      unfolding rl_start_step.simps Let_def ok_post_simps case_prod_beta
      by (intro ok_postI) (auto simp: simps dest: init_opens)
    then show ?thesis by (simp add: rl_next_def RlRun)
  next
    case Top
    with assms show ?thesis by (cases "cal_device_state s") (simp_all add: rl_next_def simps)
  next
    case (RAct r)
    with assms have "opened (dev s)" by (simp add: live_inv_def)
    from frame_live [OF this] pause_keeps [OF this] RAct assms show ?thesis
      by (cases r) (auto intro!: ok_postI simp: rl_next_def simps Let_def case_prod_beta)
  next
    case (PAct r)
    with assms have "opened (dev s)" by (simp add: live_inv_def)
    from resume_keeps [OF this] PAct assms show ?thesis
      by (cases r) (auto intro!: ok_postI simp: rl_next_def simps Let_def case_prod_beta)
  next
    case Close
    have "ok_post (close_step E s) live_inv"
      unfolding close_step_def Let_def ok_post_simps case_prod_beta
      by (intro ok_postI) (auto simp: simps)
    then show ?thesis by (simp add: rl_next_def Close)
  qed (use assms in \<open>simp_all add: rl_next_def simps split: if_splits\<close>)
qed

lemma ctl_live: "live_inv s \<Longrightarrow> ok_post (ctl_next s) live_inv"
  by (cases "cpc s") (simp_all add: ctl_next_def live_inv_def)

lemma step_live: "rl_step E s s' \<Longrightarrow> live_inv s \<Longrightarrow> live_inv s'"
  by (erule rl_step.cases) (auto dest: ok_postD [OF next_live] ok_postD [OF ctl_live], simp_all add: live_inv_def)

lemma opened_when_live:
  assumes "rl_reachable E ccb f d s" and "drv_live (pc s)"
  shows "opened (dev s)"
proof -
  from assms(1) have "live_inv s" unfolding rl_reachable_def
    by (induction rule: rtranclp_induct) (auto intro: step_live, simp add: live_inv_def rl_init_def)
  with assms(2) show ?thesis by (simp add: live_inv_def)
qed

end


text \<open>A driver that also promises in what state closing leaves the device: when the tracking thread has
  returned 0, the device is in that state.\<close>

locale closing_driver = driver +
  fixes closed :: "'a \<Rightarrow> bool"
  assumes close_closes: "opened d \<Longrightarrow> le_close E d = Some (r, d') \<Longrightarrow> closed d'"
begin

definition closed_inv :: "'a rlst \<Rightarrow> bool" where
  "closed_inv s \<longleftrightarrow> live_inv s \<and> (pc s \<in> {Unload 0, Done 0} \<longrightarrow> closed (dev s))"

lemma next_closed:
  assumes "closed_inv s"
  shows "ok_post (rl_next E s) (\<lambda>s'. pc s' \<in> {Unload 0, Done 0} \<longrightarrow> closed (dev s'))"
proof -
  note simps = goto_def call_def ltr_int_cal_set_state_def ltr_int_cal_get_state_def
    top_step_def close_step_def ltr_int_frame_free_def
  show ?thesis
  proof (cases "pc s")
    case CalRun
    then show ?thesis by (simp add: rl_next_def simps)
  next
    case RlRun
    have "ok_post (rl_start_step E s RlRun) (\<lambda>s'. pc s' \<in> {Unload 0, Done 0} \<longrightarrow> closed (dev s'))"
      unfolding rl_start_step.simps Let_def ok_post_simps case_prod_beta
      by (intro ok_postI) (auto simp: simps)
    then show ?thesis by (simp add: rl_next_def RlRun)
  next
    case Top
    then show ?thesis by (cases "cal_device_state s") (simp_all add: rl_next_def simps)
  next
    case (RAct r)
    have "ok_post (frame_step E s) (\<lambda>s'. pc s' \<in> {Unload 0, Done 0} \<longrightarrow> closed (dev s'))"
      unfolding frame_step_def Let_def ok_post_simps case_prod_beta
      by (intro ok_postI conjI impI) (simp_all add: simps split: if_splits)
    with RAct show ?thesis
      by (cases r) (auto intro!: ok_postI simp: rl_next_def simps Let_def case_prod_beta)
  next
    case (PAct r)
    then show ?thesis
      by (cases r) (auto intro!: ok_postI simp: rl_next_def simps Let_def case_prod_beta)
  next
    case Close
    with assms have o: "opened (dev s)" by (simp add: closed_inv_def live_inv_def)
    have "closed (snd a)" if "le_close E (dev s) = Some a" for a
      using close_closes [OF o, of "fst a" "snd a"] that by simp
    then have "ok_post (close_step E s) (\<lambda>s'. pc s' \<in> {Unload 0, Done 0} \<longrightarrow> closed (dev s'))"
      unfolding close_step_def Let_def ok_post_simps case_prod_beta
      by (intro ok_postI) (auto simp: simps)
    then show ?thesis by (simp add: rl_next_def Close)
  qed (use assms in \<open>simp_all add: rl_next_def simps closed_inv_def split: if_splits\<close>)
qed

lemma step_closed: "rl_step E s s' \<Longrightarrow> closed_inv s \<Longrightarrow> closed_inv s'"
proof -
  assume st: "rl_step E s s'" and inv: "closed_inv s"
  have "live_inv s'" using step_live [OF st] inv by (simp add: closed_inv_def)
  moreover from st have "pc s' \<in> {Unload 0, Done 0} \<longrightarrow> closed (dev s')"
  proof cases
    case tracking
    from ok_postD [OF next_closed [OF inv] this] show ?thesis .
  next
    case controlling
    have "ok_post (ctl_next s) (\<lambda>s'. pc s' = pc s \<and> dev s' = dev s)"
      by (cases "cpc s") (simp_all add: ctl_next_def)
    from ok_postD [OF this controlling] inv show ?thesis by (simp add: closed_inv_def)
  qed (use inv in \<open>simp_all add: closed_inv_def\<close>)
  ultimately show "closed_inv s'" by (simp add: closed_inv_def)
qed

lemma closed_when_done:
  assumes "rl_reachable E ccb f d s" and "pc s = Done 0"
  shows "closed (dev s)"
proof -
  from assms(1) have "closed_inv s" unfolding rl_reachable_def
    by (induction rule: rtranclp_induct) (auto intro: step_closed, simp add: closed_inv_def live_inv_def rl_init_def)
  with assms(2) show ?thesis by (simp add: closed_inv_def)
qed

end

end
