(* ===== verification/TirLoop.thy ===== *)
theory TirLoop
  imports TirDriver RunLoop
begin

text \<open>
  The run loop (\<open>RunLoop\<close>) with the TrackIR driver (\<open>TirDriver\<close>) in it, as \<open>libtir\<close> links them. The
  frame callback (\<open>tracking.c\<close>) stays a parameter with a state of its own. The driver keeps the
  promises of the locale \<open>driver\<close>; so the loop never calls it with its handlers unset, where its
  assertions would fail, and closing it always comes back, with the video switched off.
\<close>

definition tir_loop_env ::
  "'db drv_env \<Rightarrow> tir_status_t \<Rightarrow> (string \<Rightarrow> bool) \<Rightarrow> (camera_control_block \<Rightarrow> frame_type \<Rightarrow> 'c \<Rightarrow> int \<times> 'c) \<Rightarrow>
   ('db \<Rightarrow> bool) \<Rightarrow> blob_type list \<Rightarrow> ('db tirdrv \<times> 'c) loop_env" where
  "tir_loop_env E st0 ld cbk single mem = \<lparr>le_load = ld,
     le_init = (\<lambda>ccb (d, c). map_option (\<lambda>(r, ccb, d). (r, ccb, (d, c))) (ltr_int_tracker_init E st0 ccb d)),
     le_frame = (\<lambda>ccb f (d, c). map_option (\<lambda>(r, a, f, d). (r, a, f, (d, c))) (ltr_int_tracker_get_frame E f d)),
     le_pause = (\<lambda>(d, c). map_option (\<lambda>(r, d). (r, (d, c))) (ltr_int_tracker_pause E d)),
     le_resume = (\<lambda>(d, c). map_option (\<lambda>(r, d). (r, (d, c))) (ltr_int_tracker_resume E d)),
     le_close = (\<lambda>(d, c). map_option (\<lambda>(r, d). (r, (d, c))) (ltr_int_tracker_close E d)),
     le_cbk = (\<lambda>ccb f (d, c). (case cbk ccb f c of (r, c) \<Rightarrow> (r, (d, c)))),
     le_single = (\<lambda>(d, c). single (td_db d)), le_malloc = mem\<rparr>"

definition tir_opened :: "'db tirdrv \<times> 'c \<Rightarrow> bool" where
  "tir_opened x \<longleftrightarrow> tir_iface (td_img (fst x)) \<noteq> None \<and> libhandle (fst x) \<noteq> None"

subsection \<open>The driver keeps its promises\<close>

lemma iface_core: "core s' = core s \<Longrightarrow> tir_iface s' = tir_iface s"
  by (auto simp: core_def dest: dev_cfg_D)

lemma get_frame_iface:
  assumes "ltr_int_tracker_get_frame E f s = Some (r, a, f', s')"
  shows "tir_iface (td_img s') = tir_iface (td_img s) \<and> libhandle s' = libhandle s"
proof -
  let ?s = "send_threshold E s"
  from assms obtain info im bl img where
    b: "ltr_int_read_blobs_tir (de_usb E) (td_img ?s) (fr_bloblist f)
      (ltr_int_tir_get_min_blob (td_prefs ?s)) (ltr_int_tir_get_max_blob (td_prefs ?s)) img info = Some (r, im, bl)"
    and s': "s' = ?s\<lparr>td_img := im\<rparr>"
    by (auto simp: ltr_int_tracker_get_frame_def bind_eq_Some_conv Let_def)
  have "tir_iface im = tir_iface (td_img ?s)" by (rule iface_core [OF core_read_blobs [OF b]])
  then show ?thesis using s' by (simp add: send_threshold_def Let_def iface_threshold)
qed

lemma pause_ok:
  assumes "tir_iface (td_img s) = Some i"
  shows "\<exists>s'. ltr_int_tracker_pause E s = Some (0, s') \<and> tir_iface (td_img s') = Some i \<and> libhandle s' = libhandle s"
proof -
  obtain t where t: "stop_camera_tir (de_usb E) (td_prefs s) (td_img s) = Some (True, t)" "dev_cfg t = dev_cfg (td_img s)"
    using stop_camera_dark [OF assms] by blast
  have i: "tir_iface t = Some i" using dev_cfg_D [OF t(2)] assms by simp
  obtain x where x: "set_status_led_tir (de_usb E) (td_prefs s) False t = Some x" "dev_cfg (snd x) = dev_cfg t"
    using set_status_ok [OF i] by blast
  show ?thesis using t(1) x(1) dev_cfg_D [OF x(2)] i
    by (cases x) (simp add: ltr_int_tracker_pause_def ltr_int_pause_tir_def)
qed

lemma resume_ok:
  assumes "tir_iface (td_img s) = Some i"
  shows "\<exists>s'. ltr_int_tracker_resume E s = Some (0, s') \<and> tir_iface (td_img s') = Some i \<and> libhandle s' = libhandle s"
proof -
  obtain t where t: "start_camera_tir (de_usb E) (td_prefs s) (td_img s) = Some (True, t)" "dev_cfg t = dev_cfg (td_img s)"
    using start_camera_runs [OF assms] by blast
  have i: "tir_iface t = Some i" using dev_cfg_D [OF t(2)] assms by simp
  obtain x where x: "set_status_led_tir (de_usb E) (td_prefs s) True t = Some x" "dev_cfg (snd x) = dev_cfg t"
    using set_status_ok [OF i] by blast
  show ?thesis using t(1) x(1) dev_cfg_D [OF x(2)] i
    by (cases x) (simp add: ltr_int_tracker_resume_def ltr_int_resume_tir_def)
qed

text \<open>Closing: after the stop, nothing that is sent starts the camera or switches its video on again.\<close>

definition halted :: "bool \<Rightarrow> camera \<Rightarrow> bool" where
  "halted v c \<longleftrightarrow> c_stopped c \<and> (v \<longrightarrow> \<not> c_video c)"

lemma halted_cmd: "d \<noteq> Video_on \<Longrightarrow> halted v c \<Longrightarrow> halted v (cam_cmd d c)"
  by (simp add: cam_cmd_def halted_def)

lemma halted_leds [simp]: "halted v (set_leds l b c) = halted v c" "halted v (c\<lparr>c_ir5 := x\<rparr>) = halted v c"
  by (simp_all add: halted_def set_leds_def)

lemma halted_settings:
  "halted v (cam k0 s) \<Longrightarrow> halted v (cam k0 (ign (ltr_int_set_threshold_tir E x) s))"
  "halted v (cam k0 s) \<Longrightarrow> halted v (cam k0 (ign (set_exposure E w) s))"
  "halted v (cam k0 s) \<Longrightarrow> halted v (cam k0 (ign (control_status_led_tir E P a b) s))"
  by (simp_all add: ign_def ltr_int_set_threshold_tir_def set_exposure_def control_status_led_tir_def Let_def case_prod_beta
      Video_on_def halted_cmd)

lemma cam_pipe: "cam k0 (ltr_int_close_sn4_pipe s) = cam k0 s"
  by (simp add: ltr_int_close_sn4_pipe_def)

lemma close_pipe_iface: "tir_iface (ltr_int_close_sn4_pipe s) = tir_iface s"
  by (simp add: ltr_int_close_sn4_pipe_def log_io_def)

lemma dev_cfg_iface: "dev_cfg s' = dev_cfg s \<Longrightarrow> tir_iface s' = tir_iface s"
  by (auto dest: dev_cfg_D)

lemma close_tir_ok:
  assumes "tir_iface s = Some i"
  shows "\<exists>s'. ltr_int_close_tir E P s = Some (True, s') \<and> tir_iface s' = Some i \<and> (\<forall>k0. halted (i \<noteq> tir2) (cam k0 s'))"
proof -
  obtain t where t: "stop_camera_tir E P s = Some (True, t)" using stop_camera_dark [OF assms] by blast
  have h: "halted (i \<noteq> tir2) (cam k0 t)" and d: "dev_cfg t = dev_cfg s" for k0
    using stop_camera_dark [OF assms, of E P k0] t by (auto simp: halted_def)
  have i: "tir_iface t = Some i" using dev_cfg_iface [OF d] assms by simp
  have f: "dev_cfg x = dev_cfg t \<Longrightarrow> tir_iface x = Some i" for x using dev_cfg_iface i by metis
  show ?thesis using assms t h
    by (cases i; simp add: ltr_int_close_tir_def close_camera_tir2_def close_camera_tir3_def close_camera_tir4_def
        close_camera_tir5_def close_camera_sn4_def cam_pipe close_pipe_iface f halted_settings)
qed

lemma close_ok:
  assumes "tir_iface (td_img s) = Some i" and "libhandle s \<noteq> None"
  shows "\<exists>s'. ltr_int_tracker_close E s = Some (0, s') \<and> tir_iface (td_img s') = Some i \<and>
    (\<forall>k0. halted (i \<noteq> tir2) (cam k0 (td_img s'))) \<and> libhandle s' = None \<and> cap (im_st (td_img s')) = None"
proof -
  obtain t where t: "ltr_int_close_tir (de_usb E) (td_prefs s) (td_img s) = Some (True, t)" "tir_iface t = Some i"
    "\<And>k0. halted (i \<noteq> tir2) (cam k0 t)"
    using close_tir_ok [OF assms(1)] by blast
  have "cam k0 (t\<lparr>im_st := x\<rparr>) = cam k0 t" for x k0 by (simp add: cam_def)
  then show ?thesis using t assms(2)
    by (auto simp: ltr_int_tracker_close_def ltr_int_cleanup_after_processing_def)
qed

lemma init_opened:
  assumes "ltr_int_tracker_init E st0 ccb s = Some (0, ccb', s')"
  shows "tir_iface (td_img s') \<noteq> None \<and> libhandle s' \<noteq> None"
proof (rule tracker_init_parts [OF assms])
  fix im info p
  assume "ltr_int_open_tir (de_usb E) p st0 False (\<not> de_model_active E (td_db s)) (td_img s) = Some (True, im)"
  from open_tir_ok [OF this] obtain i where i: "tir_iface im = Some i" by blast
  assume "s' = s\<lparr>last_threshold := - 1, libhandle := Some (usb_lib E), td_prefs := p,
       td_img := im\<lparr>im_st := ltr_int_prepare_for_processing (im_st im) (int_of_u32 (ti_width info))
         (int_of_u32 (ti_height info)) (de_dbg E CHR ''p'')\<rparr>\<rparr>"
  then show ?thesis using i by simp
qed

definition tir_closed :: "'db tirdrv \<times> 'c \<Rightarrow> bool" where
  "tir_closed x \<longleftrightarrow> (\<forall>k0. halted (tir_iface (td_img (fst x)) \<noteq> Some tir2) (cam k0 (td_img (fst x)))) \<and> libhandle (fst x) = None \<and> cap (im_st (td_img (fst x))) = None"

interpretation tir_drv: closing_driver "tir_loop_env E st0 ld cbk single mem" tir_opened tir_closed
proof unfold_locales
  fix ccb ccb' f f' and d d' :: "'a tirdrv \<times> 'b" and r a
  show "le_init (tir_loop_env E st0 ld cbk single mem) ccb d = Some (0, ccb', d') \<Longrightarrow> tir_opened d'"
    by (auto simp: tir_loop_env_def tir_opened_def dest: init_opened split: prod.splits)
  show "tir_opened d \<Longrightarrow> le_frame (tir_loop_env E st0 ld cbk single mem) ccb f d = Some (r, a, f', d') \<Longrightarrow> tir_opened d'"
    by (auto simp: tir_loop_env_def tir_opened_def dest: get_frame_iface split: prod.splits)
  show "tir_opened d \<Longrightarrow> tir_opened (snd (le_cbk (tir_loop_env E st0 ld cbk single mem) ccb f d))"
    by (auto simp: tir_loop_env_def tir_opened_def split: prod.splits)
  show "tir_opened d \<Longrightarrow> le_pause (tir_loop_env E st0 ld cbk single mem) d = Some (r, d') \<Longrightarrow> tir_opened d'"
    using pause_ok [of "fst d" _ E] by (auto simp: tir_loop_env_def tir_opened_def split: prod.splits)
  show "tir_opened d \<Longrightarrow> le_resume (tir_loop_env E st0 ld cbk single mem) d = Some (r, d') \<Longrightarrow> tir_opened d'"
    using resume_ok [of "fst d" _ E] by (auto simp: tir_loop_env_def tir_opened_def split: prod.splits)
  show "tir_opened d \<Longrightarrow> le_close (tir_loop_env E st0 ld cbk single mem) d = Some (r, d') \<Longrightarrow> tir_closed d'"
    using close_ok [of "fst d" _ E] by (auto simp: tir_loop_env_def tir_opened_def tir_closed_def split: prod.splits)
qed

subsection \<open>The run loop and the TrackIR driver\<close>

text \<open>Run by the loop, the TrackIR driver is never called in a state where one of its assertions could
  fail: whenever the loop is about to pause, resume or close it, that call comes back, with
  success, however the requests of the other thread are interleaved and whatever the camera does.\<close>

theorem tir_calls_succeed:
  assumes "rl_reachable (tir_loop_env E st0 ld cbk single mem) ccb f (d0, c0) s"
  shows "(pc s = RAct PAUSE \<longrightarrow> (\<exists>d'. ltr_int_tracker_pause E (fst (dev s)) = Some (0, d'))) \<and>
    (\<forall>r. pc s = PAct r \<longrightarrow> (\<exists>d'. ltr_int_tracker_resume E (fst (dev s)) = Some (0, d'))) \<and>
    (pc s = Close \<longrightarrow> (\<exists>d'. ltr_int_tracker_close E (fst (dev s)) = Some (0, d')))"
proof -
  have "\<exists>i. tir_iface (td_img (fst (dev s))) = Some i \<and> libhandle (fst (dev s)) \<noteq> None" if "drv_live (pc s)"
    using tir_drv.opened_when_live [OF assms that] by (auto simp: tir_opened_def)
  moreover have "drv_live (RAct PAUSE)" "drv_live (PAct r)" "drv_live Close" for r by simp_all
  ultimately show ?thesis using pause_ok resume_ok close_ok by metis
qed

definition demo_tir_loop_env :: "((string \<times> string) list tirdrv \<times> unit) loop_env" where
  "demo_tir_loop_env = tir_loop_env ((demo_drv_env [])\<lparr>de_usb := answering_env []\<rparr>) junk_status (\<lambda>_. True)
     (\<lambda>ccb f c. (0, c)) (\<lambda>_. True) (blobs (fr_bloblist demo_frame))"

lemma demo_tir_init:
  "\<exists>ccb' d'. le_init demo_tir_loop_env demo_ccb (demo_drv, ()) = Some (0, ccb', d') \<and> tir_opened d'"
proof -
  let ?E = "(demo_drv_env [])\<lparr>de_usb := answering_env []\<rparr>"
  obtain ccb' s' where r: "ltr_int_tracker_init ?E junk_status demo_ccb demo_drv = Some (0, ccb', s')"
    using demo_init by blast
  then have "le_init demo_tir_loop_env demo_ccb (demo_drv, ()) = Some (0, ccb', (s', ()))"
    by (simp add: demo_tir_loop_env_def tir_loop_env_def)
  then show ?thesis using tir_drv.init_opens unfolding demo_tir_loop_env_def by blast
qed

lemma demo_tir_cycle: "\<exists>s. rl_reachable demo_tir_loop_env demo_ccb demo_frame (demo_drv, ()) s \<and> pc s = Done 0"
proof -
  obtain ccb' d' where d': "le_init demo_tir_loop_env demo_ccb (demo_drv, ()) = Some (0, ccb', d')" "tir_opened d'"
    using demo_tir_init by blast
  have c: "le_close demo_tir_loop_env d' \<noteq> None"
    using d'(2) close_ok by (fastforce simp: tir_opened_def demo_tir_loop_env_def tir_loop_env_def split: prod.splits)
  have l: "driver_lib (dev_category (ccb_device demo_ccb)) = Some ''libtir''" by (simp add: demo_ccb_def)
  have m: "le_load demo_tir_loop_env ''libtir''" by (simp add: demo_tir_loop_env_def tir_loop_env_def)
  show ?thesis by (rule shutdown_cycle [OF l m d'(1) c])
qed

theorem tir_calls_succeed_witness:
  "\<exists>s. rl_reachable demo_tir_loop_env demo_ccb demo_frame (demo_drv, ()) s \<and> pc s = Done 0 \<and>
    (pc s = Close \<longrightarrow> (\<exists>d'. ltr_int_tracker_close ((demo_drv_env [])\<lparr>de_usb := answering_env []\<rparr>) (fst (dev s)) = Some (0, d')))"
proof -
  obtain s where s: "rl_reachable demo_tir_loop_env demo_ccb demo_frame (demo_drv, ()) s" "pc s = Done 0"
    using demo_tir_cycle by blast
  from tir_calls_succeed [OF s(1) [unfolded demo_tir_loop_env_def]] s show ?thesis by blast
qed

text \<open>C12: When the tracking thread of a TrackIR returns 0 the camera is stopped (\<open>runloop.c\<close>, \<open>tir_driver.c\<close>, \<open>tir_hw.c\<close>). Whatever the camera was doing
  and however the requests of the other thread came, if the transfers to the camera succeed, it has received the command to stop,
  and, if it is not a TrackIR 2, the one to switch its video off, and nothing that starts it after them; whether or not they succeed,
  the USB library is unloaded and the buffers of the image processing are freed.\<close>

theorem tir_loop_leaves_camera_stopped:
  assumes "rl_reachable (tir_loop_env E st0 ld cbk single mem) ccb f (d0, c0) s" and "pc s = Done 0"
  shows "libhandle (fst (dev s)) = None \<and> cap (im_st (td_img (fst (dev s)))) = None \<and>
    ((\<forall>h ep d. u_send (de_usb E) h ep d) \<longrightarrow> c_stopped (received (de_usb E) k0 (td_img (fst (dev s)))) \<and>
       (tir_iface (td_img (fst (dev s))) \<noteq> Some tir2 \<longrightarrow> \<not> c_video (received (de_usb E) k0 (td_img (fst (dev s))))))"
  using tir_drv.closed_when_done [OF assms] by (auto simp: tir_closed_def halted_def received_all)

theorem tir_loop_leaves_camera_stopped_witness:
  "\<exists>s. rl_reachable demo_tir_loop_env demo_ccb demo_frame (demo_drv, ()) s \<and> pc s = Done 0 \<and>
    c_stopped (received (answering_env []) demo_cam (td_img (fst (dev s)))) \<and> libhandle (fst (dev s)) = None"
proof -
  obtain s where s: "rl_reachable demo_tir_loop_env demo_ccb demo_frame (demo_drv, ()) s" "pc s = Done 0"
    using demo_tir_cycle by blast
  have "u_send (answering_env []) h ep d" for h ep d by (simp add: answering_env_def demo_env_def)
  with tir_loop_leaves_camera_stopped [OF s(1) [unfolded demo_tir_loop_env_def] s(2), of demo_cam] s show ?thesis by auto
qed

end
