(* ===== verification/ComProc.thy ===== *)
theory ComProc
  imports CalTypes
begin

text \<open>
  \<open>src/com_proc.c\<close>: the memory that the tracker and a helper process (the Wii remote server, the face
  tracker) share. The mapped structure is the record \<open>comm_struct\<close>, the static \<open>last_val\<close> of the
  reading process is passed separately. Each operation runs under the semaphore of the mapping, so it
  is one step here; the three that the code leaves unlocked (\<open>haveNewBlobs\<close> and the frame flag)
  touch single words. An array access outside its bounds, and the overflow of the \<open>int\<close> frame
  counter, have no result.
\<close>

datatype command_t = STOP | SLEEP | WAKEUP

record comm_struct =
  cs_command :: command_t
  cs_threshold :: int
  cs_min_blob :: int
  cs_max_blob :: int
  exp_filt_factor :: cflt
  opt_level :: int
  wii_indication :: int
  frame_filled :: bool
  frame_counter :: int
  cs_num_blobs :: int
  cs_blobs :: "blob_type list"
  cs_frame :: bytes

definition INT_MAX :: int where "INT_MAX = 2 ^ 31 - 1"

subsection \<open>Settings\<close>

definition ltr_int_getCommand :: "comm_struct \<Rightarrow> command_t" where
  "ltr_int_getCommand cs = cs_command cs"
definition ltr_int_setCommand :: "comm_struct \<Rightarrow> command_t \<Rightarrow> comm_struct" where
  "ltr_int_setCommand cs cmd = cs\<lparr>cs_command := cmd\<rparr>"

definition ltr_int_getThreshold :: "comm_struct \<Rightarrow> int" where
  "ltr_int_getThreshold cs = cs_threshold cs"
definition ltr_int_setThreshold :: "comm_struct \<Rightarrow> int \<Rightarrow> comm_struct" where
  "ltr_int_setThreshold cs thr = cs\<lparr>cs_threshold := thr\<rparr>"

definition ltr_int_getMinBlob :: "comm_struct \<Rightarrow> int" where
  "ltr_int_getMinBlob cs = cs_min_blob cs"
definition ltr_int_setMinBlob :: "comm_struct \<Rightarrow> int \<Rightarrow> comm_struct" where
  "ltr_int_setMinBlob cs pix = cs\<lparr>cs_min_blob := pix\<rparr>"

definition ltr_int_getMaxBlob :: "comm_struct \<Rightarrow> int" where
  "ltr_int_getMaxBlob cs = cs_max_blob cs"
definition ltr_int_setMaxBlob :: "comm_struct \<Rightarrow> int \<Rightarrow> comm_struct" where
  "ltr_int_setMaxBlob cs pix = cs\<lparr>cs_max_blob := pix\<rparr>"

definition ltr_int_getWiiIndication :: "comm_struct \<Rightarrow> int" where
  "ltr_int_getWiiIndication cs = wii_indication cs"
definition ltr_int_setWiiIndication :: "comm_struct \<Rightarrow> int \<Rightarrow> comm_struct" where
  "ltr_int_setWiiIndication cs i = cs\<lparr>wii_indication := i\<rparr>"

definition ltr_int_getOptLevel :: "comm_struct \<Rightarrow> int" where
  "ltr_int_getOptLevel cs = opt_level cs"
definition ltr_int_setOptLevel :: "comm_struct \<Rightarrow> int \<Rightarrow> comm_struct" where
  "ltr_int_setOptLevel cs l = cs\<lparr>opt_level := l\<rparr>"

definition ltr_int_getEff :: "comm_struct \<Rightarrow> cflt" where
  "ltr_int_getEff cs = exp_filt_factor cs"
definition ltr_int_setEff :: "comm_struct \<Rightarrow> cflt \<Rightarrow> comm_struct" where
  "ltr_int_setEff cs e = cs\<lparr>exp_filt_factor := e\<rparr>"

definition ltr_int_getFrameFlag :: "comm_struct \<Rightarrow> bool" where
  "ltr_int_getFrameFlag cs = frame_filled cs"
definition ltr_int_setFrameFlag :: "comm_struct \<Rightarrow> comm_struct" where
  "ltr_int_setFrameFlag cs = cs\<lparr>frame_filled := True\<rparr>"
definition ltr_int_resetFrameFlag :: "comm_struct \<Rightarrow> comm_struct" where
  "ltr_int_resetFrameFlag cs = cs\<lparr>frame_filled := False\<rparr>"

definition ltr_int_getFramePtr :: "comm_struct \<Rightarrow> bytes" where
  "ltr_int_getFramePtr cs = cs_frame cs"

subsection \<open>Blobs\<close>

text \<open>The copying loop, from index \<open>i\<close> on for \<open>n\<close> blobs.\<close>

fun copy_blobs :: "blob_type list \<Rightarrow> blob_type list \<Rightarrow> nat \<Rightarrow> nat \<Rightarrow> blob_type list option" where
  "copy_blobs dst src i 0 = Some dst"
| "copy_blobs dst src i (Suc n) = do {
     b \<leftarrow> rd src i;
     dst \<leftarrow> wr dst i b;
     copy_blobs dst src (i + 1) n
   }"

definition ltr_int_setBlobs :: "comm_struct \<Rightarrow> blob_type list \<Rightarrow> int \<Rightarrow> comm_struct option" where
  "ltr_int_setBlobs cs b num = do {
     let n = (if num < int (unat MAX_BLOBS) then num else int (unat MAX_BLOBS));
     bl \<leftarrow> copy_blobs (cs_blobs cs) b 0 (nat n);
     if frame_counter cs = INT_MAX then None
     else Some (cs\<lparr>cs_blobs := bl, cs_num_blobs := n, frame_counter := frame_counter cs + 1\<rparr>)
   }"

definition ltr_int_haveNewBlobs :: "comm_struct \<Rightarrow> int \<Rightarrow> bool \<times> int" where
  "ltr_int_haveNewBlobs cs last_val =
     (if frame_counter cs \<noteq> last_val then (True, frame_counter cs) else (False, last_val))"

text \<open>The result, the caller's array and the new \<open>last_val\<close>.\<close>

definition ltr_int_getBlobs :: "comm_struct \<Rightarrow> blob_type list \<Rightarrow> int \<Rightarrow> (int \<times> blob_type list \<times> int) option" where
  "ltr_int_getBlobs cs b num = do {
     let n = (if cs_num_blobs cs > num then num else cs_num_blobs cs);
     b \<leftarrow> copy_blobs b (cs_blobs cs) 0 (nat n);
     Some (cs_num_blobs cs, b, frame_counter cs)
   }"

subsection \<open>The channel it implements\<close>

text \<open>What the two sides mean by it: a register that holds the blobs of the last frame and the frame's
  number. The reader knows the number of the frame it saw last.\<close>

record blob_chan =
  ch_frame :: int
  ch_blobs :: "blob_type list"

definition ch_publish :: "blob_type list \<Rightarrow> blob_chan \<Rightarrow> blob_chan" where
  "ch_publish bs c = \<lparr>ch_frame = ch_frame c + 1, ch_blobs = take 10 bs\<rparr>"

definition ch_abs :: "comm_struct \<Rightarrow> blob_chan" where
  "ch_abs cs = \<lparr>ch_frame = frame_counter cs, ch_blobs = take (nat (cs_num_blobs cs)) (cs_blobs cs)\<rparr>"

definition cs_wf :: "comm_struct \<Rightarrow> bool" where
  "cs_wf cs \<longleftrightarrow> length (cs_blobs cs) = 10 \<and> 0 \<le> cs_num_blobs cs \<and> cs_num_blobs cs \<le> 10"

lemma copy_blobs_ok:
  "i + n \<le> length src \<Longrightarrow> i + n \<le> length dst \<Longrightarrow>
   copy_blobs dst src i n = Some (take i dst @ take n (drop i src) @ drop (i + n) dst)"
proof (induction n arbitrary: dst i)
  case (Suc n)
  then have i: "i < length src" "i < length dst" by simp_all
  have "copy_blobs dst src i (Suc n) = copy_blobs (dst[i := src ! i]) src (i + 1) n"
    using i by (simp add: rd_in wr_in)
  also have "\<dots> = Some (take (i + 1) (dst[i := src ! i]) @ take n (drop (i + 1) src) @ drop (i + 1 + n) (dst[i := src ! i]))"
    using Suc by simp
  finally show ?case
    using i by (simp add: take_Suc_conv_app_nth drop_update_cancel Cons_nth_drop_Suc [symmetric])
qed simp

lemma copy_blobs_out: "length src < i + n \<or> length dst < i + n \<Longrightarrow> 0 < n \<Longrightarrow> copy_blobs dst src i n = None"
proof (induction n arbitrary: dst i)
  case (Suc n)
  show ?case
  proof (cases "n = 0")
    case True
    with Suc.prems show ?thesis by (auto simp: rd_def wr_def)
  next
    case False
    have "copy_blobs (dst[i := b]) src (i + 1) n = None" for b
      using Suc.prems False by (intro Suc.IH) auto
    then show ?thesis by (auto simp: wr_def bind_eq_None_conv)
  qed
qed simp

lemma MAX_BLOBS_10 [simp]: "unat MAX_BLOBS = 10"
  by (simp add: MAX_BLOBS_def)

text \<open>C13: The shared memory implements the register of blobs: publishing \<open>n\<close> blobs replaces what it holds by
  the first ten of them and advances the frame number, and reading delivers what it holds, as far
  as the caller's array reaches, and leaves the rest of the array alone. A reader is told of new
  blobs exactly when the register's frame number is not the one it saw last. The structure stays
  well formed and no access leaves its array.\<close>

theorem blob_channel_refinement:
  assumes "cs_wf cs" and "length bs = n" and "frame_counter cs < INT_MAX" and "0 \<le> num" and "nat num \<le> length buf"
  shows "\<exists>cs'. ltr_int_setBlobs cs bs (int n) = Some cs' \<and> cs_wf cs' \<and> ch_abs cs' = ch_publish bs (ch_abs cs) \<and>
    ltr_int_getBlobs cs' buf num =
      Some (int (length (ch_blobs (ch_abs cs'))),
            take (nat num) (ch_blobs (ch_abs cs')) @ drop (min (nat num) (length (ch_blobs (ch_abs cs')))) buf,
            ch_frame (ch_abs cs')) \<and>
    fst (ltr_int_haveNewBlobs cs' last_val) = (ch_frame (ch_abs cs') \<noteq> last_val)"
proof -
  let ?m = "min n 10"
  have n: "(if int n < int (unat MAX_BLOBS) then int n else int (unat MAX_BLOBS)) = int ?m" by simp
  have l: "length (cs_blobs cs) = 10" using assms(1) by (simp add: cs_wf_def)
  have c: "copy_blobs (cs_blobs cs) bs 0 ?m = Some (take ?m bs @ drop ?m (cs_blobs cs))"
    using copy_blobs_ok [of 0 ?m bs "cs_blobs cs"] assms(2) l by simp
  obtain cs' where s: "ltr_int_setBlobs cs bs (int n) = Some cs'"
    and cs': "cs_blobs cs' = take ?m bs @ drop ?m (cs_blobs cs)" "cs_num_blobs cs' = int ?m" "frame_counter cs' = frame_counter cs + 1"
    unfolding ltr_int_setBlobs_def n using c assms(3) by simp
  have wf: "cs_wf cs'" using assms(2) l by (simp add: cs_wf_def cs')
  have bl: "take ?m bs = take 10 bs" using assms(2) by (simp add: min_def)
  have a: "ch_abs cs' = ch_publish bs (ch_abs cs)"
    using assms(2) bl by (simp add: ch_abs_def ch_publish_def cs')
  let ?k = "min (nat num) ?m"
  have k: "nat (if int ?m > num then num else int ?m) = ?k" using assms(4) by auto
  have "copy_blobs buf (cs_blobs cs') 0 ?k = Some (take ?k (cs_blobs cs') @ drop ?k buf)"
    using copy_blobs_ok [of 0 ?k "cs_blobs cs'" buf] assms(2,5) l by (simp add: cs')
  moreover have "take ?k (cs_blobs cs') = take (nat num) (take 10 bs)"
    using assms(2) bl by (simp add: min_def cs')
  ultimately have g: "ltr_int_getBlobs cs' buf num = Some (int ?m, take (nat num) (take 10 bs) @ drop ?k buf, frame_counter cs + 1)"
    by (simp only: ltr_int_getBlobs_def Let_def cs'(2,3) k Option.bind.simps)
  have len: "length (take 10 bs) = ?m" using assms(2) by simp
  show ?thesis
  proof (intro exI conjI)
    show "ltr_int_getBlobs cs' buf num = Some (int (length (ch_blobs (ch_abs cs'))),
            take (nat num) (ch_blobs (ch_abs cs')) @ drop (min (nat num) (length (ch_blobs (ch_abs cs')))) buf, ch_frame (ch_abs cs'))"
      using g unfolding a ch_publish_def blob_chan.select_convs len by (simp add: ch_abs_def)
    show "fst (ltr_int_haveNewBlobs cs' last_val) = (ch_frame (ch_abs cs') \<noteq> last_val)"
      by (simp add: ltr_int_haveNewBlobs_def ch_abs_def)
  qed (rule s wf a)+
qed

definition demo_blob :: "int \<Rightarrow> blob_type" where
  "demo_blob k = \<lparr>bl_x = Fin (of_int k), bl_y = Fin 0, bl_score = word_of_int k\<rparr>"

definition demo_cs :: comm_struct where
  "demo_cs = \<lparr>cs_command = WAKEUP, cs_threshold = 140, cs_min_blob = 4, cs_max_blob = 1024, exp_filt_factor = Fin 0,
     opt_level = 0, wii_indication = 0, frame_filled = False, frame_counter = 7, cs_num_blobs = 0,
     cs_blobs = replicate 10 (demo_blob 0), cs_frame = []\<rparr>"

theorem blob_channel_refinement_witness:
  "\<exists>cs'. ltr_int_setBlobs demo_cs [demo_blob 1, demo_blob 2, demo_blob 3] 3 = Some cs' \<and>
     ltr_int_getBlobs cs' [demo_blob 9, demo_blob 9] 2 = Some (3, [demo_blob 1, demo_blob 2], 8)"
proof -
  have w: "cs_wf demo_cs" "frame_counter demo_cs < INT_MAX" "ch_frame (ch_abs demo_cs) = 7"
    by (simp_all add: cs_wf_def demo_cs_def INT_MAX_def ch_abs_def)
  have l: "length [demo_blob 1, demo_blob 2, demo_blob 3] = 3" by simp
  from blob_channel_refinement [OF w(1) l w(2), of 2 "[demo_blob 9, demo_blob 9]" 7] w(3)
  show ?thesis by (auto simp: ch_publish_def eval_nat_numeral)
qed

text \<open>\<open>getBlobs\<close> returns how many blobs there are, not how many it copied, so a caller with a smaller
  array must not take the result as the length of what it got.\<close>

lemma getBlobs_returns_more:
  assumes "cs_wf cs" and "0 \<le> num" and "num < cs_num_blobs cs" and "nat num \<le> length buf"
  shows "\<exists>buf'. ltr_int_getBlobs cs buf num = Some (cs_num_blobs cs, buf', frame_counter cs) \<and>
    drop (nat num) buf' = drop (nat num) buf"
  using assms copy_blobs_ok [of 0 "nat num" "cs_blobs cs" buf]
  by (auto simp: ltr_int_getBlobs_def cs_wf_def)

end
