(* ===== verification/OsModel.thy ===== *)
theory OsModel
  imports Prelude
begin

text \<open>
  The POSIX calls that the interprocess code (\<open>src/ipc_utils.c\<close>) uses: a directory of names, inodes with
  their contents, the open file descriptors of every process, and the record locks of \<open>lockf\<close> over
  whole files. As POSIX defines them, such a lock belongs to a process, and closing any descriptor
  of the file by that process releases it. Every call takes one tick of \<open>sys_clock\<close>; \<open>os_fails\<close> decides
  whether it fails for a reason outside the model (permissions, memory, a signal), and \<open>os_sleep\<close> is
  what the other processes do while one sleeps, \<open>os_tmpname\<close> the name \<open>mkstemp\<close> makes of a template.
\<close>

type_synonym pid = nat
type_synonym ino = nat

datatype node = RegFile bytes | FifoFile | DirFile

record ofile =
  of_pid :: pid
  of_fd :: int
  of_ino :: ino
  of_rd :: bool

record os =
  dir :: "string \<Rightarrow> ino option"
  inodes :: "ino \<Rightarrow> node option"
  next_ino :: ino
  fdt :: "ofile list"
  lck :: "ino \<Rightarrow> pid option"
  sys_clock :: nat

record os_env =
  os_fails :: "nat \<Rightarrow> bool"
  os_sleep :: "os \<Rightarrow> os"
  os_tmpname :: "os \<Rightarrow> string \<Rightarrow> string"

definition tick :: "os \<Rightarrow> os" where
  "tick w = w\<lparr>sys_clock := Suc (sys_clock w)\<rparr>"

definition fails :: "os_env \<Rightarrow> os \<Rightarrow> bool" where
  "fails E w = os_fails E (sys_clock w)"

text \<open>The descriptors of a process, the lowest free one, and the file behind a descriptor.\<close>

definition fds_of :: "pid \<Rightarrow> os \<Rightarrow> int list" where
  "fds_of p w = map of_fd (filter (\<lambda>f. of_pid f = p) (fdt w))"

definition lowest_fd :: "pid \<Rightarrow> os \<Rightarrow> int" where
  "lowest_fd p w = int (hd (filter (\<lambda>n. int n \<notin> set (fds_of p w)) [0..<Suc (length (fds_of p w))]))"

definition ofile_at :: "pid \<Rightarrow> int \<Rightarrow> os \<Rightarrow> ofile option" where
  "ofile_at p fd w = find (\<lambda>f. of_pid f = p \<and> of_fd f = fd) (fdt w)"

definition new_fd :: "pid \<Rightarrow> ino \<Rightarrow> bool \<Rightarrow> os \<Rightarrow> int \<times> os" where
  "new_fd p i r w = (lowest_fd p w, w\<lparr>fdt := \<lparr>of_pid = p, of_fd = lowest_fd p w, of_ino = i, of_rd = r\<rparr> # fdt w\<rparr>)"

definition add_node :: "string \<Rightarrow> node \<Rightarrow> os \<Rightarrow> os" where
  "add_node path n w = w\<lparr>dir := (dir w)(path \<mapsto> next_ino w), inodes := (inodes w)(next_ino w \<mapsto> n), next_ino := Suc (next_ino w)\<rparr>"

text \<open>\<open>open\<close> for reading and writing, creating the file.\<close>

definition sys_open_rw :: "os_env \<Rightarrow> pid \<Rightarrow> string \<Rightarrow> os \<Rightarrow> int \<times> os" where
  "sys_open_rw E p path w =
     (if fails E w then (- 1, tick w)
      else case dir w path of
        None \<Rightarrow> new_fd p (next_ino w) True (add_node path (RegFile []) (tick w))
      | Some i \<Rightarrow> if inodes w i = Some DirFile then (- 1, tick w) else new_fd p i True (tick w))"

text \<open>\<open>open\<close> of an existing file, non-blocking, for reading or for writing; a fifo opened for writing
  needs a reader (\<open>ENXIO\<close>, the flag of the result).\<close>

definition sys_open_rd :: "os_env \<Rightarrow> pid \<Rightarrow> string \<Rightarrow> os \<Rightarrow> int \<times> os" where
  "sys_open_rd E p path w =
     (if fails E w then (- 1, tick w)
      else case dir w path of
        None \<Rightarrow> (- 1, tick w)
      | Some i \<Rightarrow> new_fd p i True (tick w))"

definition has_reader :: "ino \<Rightarrow> os \<Rightarrow> bool" where
  "has_reader i w = list_ex (\<lambda>f. of_ino f = i \<and> of_rd f) (fdt w)"

definition sys_open_wr :: "os_env \<Rightarrow> pid \<Rightarrow> string \<Rightarrow> os \<Rightarrow> int \<times> bool \<times> os" where
  "sys_open_wr E p path w =
     (if fails E w then (- 1, False, tick w)
      else case dir w path of
        None \<Rightarrow> (- 1, False, tick w)
      | Some i \<Rightarrow> if inodes w i = Some FifoFile \<and> \<not> has_reader i w then (- 1, True, tick w)
          else (case new_fd p i False (tick w) of (fd, w) \<Rightarrow> (fd, False, w)))"

definition sys_close :: "pid \<Rightarrow> int \<Rightarrow> os \<Rightarrow> os" where
  "sys_close p fd w = (case ofile_at p fd w of
     None \<Rightarrow> tick w
   | Some f \<Rightarrow> (tick w)\<lparr>fdt := filter (\<lambda>g. \<not> (of_pid g = p \<and> of_fd g = fd)) (fdt w),
       lck := (if lck w (of_ino f) = Some p then (lck w)(of_ino f := None) else lck w)\<rparr>)"

text \<open>\<open>lockf\<close>: try to lock, test, unlock; waiting for a lock has no result while another process holds it.\<close>

definition free_for :: "pid \<Rightarrow> ino \<Rightarrow> os \<Rightarrow> bool" where
  "free_for p i w = (lck w i = None \<or> lck w i = Some p)"

definition sys_tlock :: "os_env \<Rightarrow> pid \<Rightarrow> int \<Rightarrow> os \<Rightarrow> bool \<times> os" where
  "sys_tlock E p fd w = (case ofile_at p fd w of
     None \<Rightarrow> (False, tick w)
   | Some f \<Rightarrow> if fails E w \<or> \<not> free_for p (of_ino f) w then (False, tick w)
       else (True, (tick w)\<lparr>lck := (lck w)(of_ino f \<mapsto> p)\<rparr>))"

definition sys_testlock :: "os_env \<Rightarrow> pid \<Rightarrow> int \<Rightarrow> os \<Rightarrow> bool \<times> os" where
  "sys_testlock E p fd w = (case ofile_at p fd w of
     None \<Rightarrow> (False, tick w)
   | Some f \<Rightarrow> (\<not> fails E w \<and> free_for p (of_ino f) w, tick w))"

definition sys_ulock :: "os_env \<Rightarrow> pid \<Rightarrow> int \<Rightarrow> os \<Rightarrow> bool \<times> os" where
  "sys_ulock E p fd w = (case ofile_at p fd w of
     None \<Rightarrow> (False, tick w)
   | Some f \<Rightarrow> if fails E w then (False, tick w)
       else (True, (tick w)\<lparr>lck := (if lck w (of_ino f) = Some p then (lck w)(of_ino f := None) else lck w)\<rparr>))"

definition sys_lock :: "os_env \<Rightarrow> pid \<Rightarrow> int \<Rightarrow> os \<Rightarrow> (bool \<times> os) option" where
  "sys_lock E p fd w = (case ofile_at p fd w of
     None \<Rightarrow> Some (False, tick w)
   | Some f \<Rightarrow> if fails E w then Some (False, tick w)
       else if free_for p (of_ino f) w then Some (True, (tick w)\<lparr>lck := (lck w)(of_ino f \<mapsto> p)\<rparr>)
       else None)"

text \<open>Names: \<open>stat\<close>, removing a name (the inode lives on while it is open or mapped), \<open>mkfifo\<close>.\<close>

definition sys_stat :: "os_env \<Rightarrow> string \<Rightarrow> os \<Rightarrow> node option \<times> os" where
  "sys_stat E path w = (if fails E w then None else (case dir w path of None \<Rightarrow> None | Some i \<Rightarrow> inodes w i), tick w)"

definition sys_remove :: "os_env \<Rightarrow> string \<Rightarrow> os \<Rightarrow> bool \<times> os" where
  "sys_remove E path w =
     (if fails E w \<or> dir w path = None then (False, tick w)
      else (True, (tick w)\<lparr>dir := (dir w)(path := None)\<rparr>))"

definition sys_mkfifo :: "os_env \<Rightarrow> string \<Rightarrow> os \<Rightarrow> bool \<times> os" where
  "sys_mkfifo E path w =
     (if fails E w \<or> dir w path \<noteq> None then (False, tick w) else (True, add_node path FifoFile (tick w)))"

text \<open>\<open>mkstemp\<close>: a new file under a name of the system's choice.\<close>

definition sys_mkstemp :: "os_env \<Rightarrow> pid \<Rightarrow> string \<Rightarrow> os \<Rightarrow> int \<times> string \<times> os" where
  "sys_mkstemp E p template w =
     (let name = os_tmpname E w template in
      if fails E w \<or> dir w name \<noteq> None then (- 1, template, tick w)
      else case new_fd p (next_ino w) True (add_node name (RegFile []) (tick w)) of (fd, w) \<Rightarrow> (fd, name, w))"

text \<open>\<open>ftruncate\<close> (its length is a signed 64-bit number), and \<open>mmap\<close> of a file, whose pages are the file's bytes; \<open>fstat\<close> gives the length.\<close>

definition sys_fstat :: "os_env \<Rightarrow> pid \<Rightarrow> int \<Rightarrow> os \<Rightarrow> nat option \<times> os" where
  "sys_fstat E p fd w =
     (if fails E w then None
      else (case ofile_at p fd w of None \<Rightarrow> None
            | Some f \<Rightarrow> (case inodes w (of_ino f) of Some (RegFile bs) \<Rightarrow> Some (length bs) | _ \<Rightarrow> None)),
      tick w)"

definition sys_ftruncate :: "os_env \<Rightarrow> pid \<Rightarrow> int \<Rightarrow> nat \<Rightarrow> os \<Rightarrow> bool \<times> os" where
  "sys_ftruncate E p fd n w =
     (if fails E w then (False, tick w)
      else case ofile_at p fd w of None \<Rightarrow> (False, tick w)
      | Some f \<Rightarrow> (case inodes w (of_ino f) of
          Some (RegFile bs) \<Rightarrow> if n \<ge> 2 ^ 63 then (False, tick w) else (True, (tick w)\<lparr>inodes := (inodes w)(of_ino f \<mapsto> RegFile (take n bs @ replicate (n - length bs) 0))\<rparr>)
        | _ \<Rightarrow> (False, tick w)))"

definition sys_mmap :: "os_env \<Rightarrow> pid \<Rightarrow> int \<Rightarrow> os \<Rightarrow> ino option \<times> os" where
  "sys_mmap E p fd w =
     (if fails E w then None else map_option of_ino (ofile_at p fd w), tick w)"

subsection \<open>What every process can rely on\<close>

text \<open>Names: no two name the same file, and none the next free inode.\<close>

definition names_ok :: "os \<Rightarrow> bool" where
  "names_ok w \<longleftrightarrow> (\<forall>n i. dir w n = Some i \<longrightarrow> i < next_ino w) \<and>
     (\<forall>n m i. dir w n = Some i \<longrightarrow> dir w m = Some i \<longrightarrow> n = m)"

lemma tick_simps [simp]:
  "dir (tick w) = dir w" "inodes (tick w) = inodes w" "next_ino (tick w) = next_ino w"
  "fdt (tick w) = fdt w" "lck (tick w) = lck w" "ofile_at p fd (tick w) = ofile_at p fd w"
  "fds_of p (tick w) = fds_of p w" "lowest_fd p (tick w) = lowest_fd p w" "names_ok (tick w) = names_ok w"
  by (simp_all add: names_ok_def tick_def ofile_at_def fds_of_def lowest_fd_def)

lemma lowest_fd_free: "0 \<le> lowest_fd p w" "lowest_fd p w \<notin> set (fds_of p w)"
proof -
  let ?xs = "fds_of p w" and ?P = "\<lambda>n. int n \<notin> set (fds_of p w)"
  have "\<exists>n \<in> {0..<Suc (length ?xs)}. ?P n"
  proof (rule ccontr)
    assume "\<not> ?thesis"
    then have "int ` {0..<Suc (length ?xs)} \<subseteq> set ?xs" by auto
    then have "card (int ` {0..<Suc (length ?xs)}) \<le> card (set ?xs)" by (intro card_mono) auto
    moreover have "card (int ` {0..<Suc (length ?xs)}) = Suc (length ?xs)" by (simp add: card_image)
    ultimately show False using card_length [of ?xs] by simp
  qed
  then have "filter ?P [0..<Suc (length ?xs)] \<noteq> []" by (simp add: filter_empty_conv del: upt_Suc)
  then have "hd (filter ?P [0..<Suc (length ?xs)]) \<in> set (filter ?P [0..<Suc (length ?xs)])" by (rule hd_in_set)
  then have "?P (hd (filter ?P [0..<Suc (length ?xs)]))" by (simp del: upt_Suc)
  then show "lowest_fd p w \<notin> set ?xs" by (simp add: lowest_fd_def)
qed (simp add: lowest_fd_def)

lemma ofile_at_Some: "ofile_at p fd w = Some f \<Longrightarrow> f \<in> set (fdt w) \<and> of_pid f = p \<and> of_fd f = fd"
  by (auto simp: ofile_at_def find_Some_iff)

lemma ofile_at_lowest: "ofile_at p (lowest_fd p w) w = None"
  using lowest_fd_free(2) [of p w] unfolding ofile_at_def find_None_iff fds_of_def by force

lemma new_fd_ofile:
  "new_fd p i r w = (fd, w') \<Longrightarrow>
   0 \<le> fd \<and> ofile_at p fd w' = Some \<lparr>of_pid = p, of_fd = fd, of_ino = i, of_rd = r\<rparr> \<and>
   dir w' = dir w \<and> inodes w' = inodes w \<and> next_ino w' = next_ino w \<and> lck w' = lck w \<and> ofile_at p fd w = None \<and>
   (\<forall>q g. (q, g) \<noteq> (p, fd) \<longrightarrow> ofile_at q g w' = ofile_at q g w)"
  using lowest_fd_free(1) [of p w] ofile_at_lowest [of p w] by (auto simp: new_fd_def ofile_at_def)

lemma add_node_simps [simp]:
  "dir (add_node n x w) = (dir w)(n \<mapsto> next_ino w)" "next_ino (add_node n x w) = Suc (next_ino w)"
  "inodes (add_node n x w) = (inodes w)(next_ino w \<mapsto> x)"
  "fdt (add_node n x w) = fdt w" "lck (add_node n x w) = lck w" "ofile_at p fd (add_node n x w) = ofile_at p fd w"
  "fds_of p (add_node n x w) = fds_of p w"
  by (simp_all add: add_node_def ofile_at_def fds_of_def)

lemma names_ok_add: "names_ok w \<Longrightarrow> names_ok (add_node n x w)"
  by (auto simp: names_ok_def) (metis less_irrefl less_Suc_eq)+

end
