(* ===== verification/IpcUtils.thy ===== *)
theory IpcUtils
  imports OsModel
begin

text \<open>
  \<open>src/ipc_utils.c\<close>: semaphores made of file locks, the test for a running server, fifos, and shared
  memory files. Every function takes the calling process and the operating system's state. A
  \<open>semaphore_p\<close> is the descriptor it holds, or \<open>None\<close> for the null pointer; dereferencing that one has no
  result, and neither has waiting for a lock that another process holds. Allocation does not fail
  (\<open>ltr_int_my_malloc\<close> aborts the program).
\<close>

type_synonym semaphore_p = "int option"

subsection \<open>Semaphores\<close>

definition ltr_int_semaphoreFromFd :: "int \<Rightarrow> semaphore_p" where
  "ltr_int_semaphoreFromFd fd = Some fd"

definition ltr_int_createSemaphore :: "os_env \<Rightarrow> pid \<Rightarrow> string option \<Rightarrow> os \<Rightarrow> semaphore_p \<times> os" where
  "ltr_int_createSemaphore E p fname w = (case fname of
     None \<Rightarrow> (None, w)
   | Some n \<Rightarrow> (case sys_open_rw E p n w of (fd, w) \<Rightarrow>
       if fd = - 1 then (None, w) else (ltr_int_semaphoreFromFd fd, w)))"

definition ltr_int_lockSemaphore :: "os_env \<Rightarrow> pid \<Rightarrow> semaphore_p \<Rightarrow> os \<Rightarrow> (bool \<times> os) option" where
  "ltr_int_lockSemaphore E p sem w = (case sem of None \<Rightarrow> Some (False, w) | Some fd \<Rightarrow> sys_lock E p fd w)"

definition ltr_int_tryLockSemaphore :: "os_env \<Rightarrow> pid \<Rightarrow> semaphore_p \<Rightarrow> os \<Rightarrow> bool \<times> os" where
  "ltr_int_tryLockSemaphore E p sem w = (case sem of None \<Rightarrow> (False, w) | Some fd \<Rightarrow> sys_tlock E p fd w)"

definition ltr_int_testLockSemaphore :: "os_env \<Rightarrow> pid \<Rightarrow> semaphore_p \<Rightarrow> os \<Rightarrow> bool \<times> os" where
  "ltr_int_testLockSemaphore E p sem w = (case sem of None \<Rightarrow> (False, w) | Some fd \<Rightarrow> sys_testlock E p fd w)"

definition ltr_int_unlockSemaphore :: "os_env \<Rightarrow> pid \<Rightarrow> semaphore_p \<Rightarrow> os \<Rightarrow> bool \<times> os" where
  "ltr_int_unlockSemaphore E p sem w = (case sem of None \<Rightarrow> (False, w) | Some fd \<Rightarrow> sys_ulock E p fd w)"

definition ltr_int_closeSemaphore :: "pid \<Rightarrow> semaphore_p \<Rightarrow> os \<Rightarrow> os option" where
  "ltr_int_closeSemaphore p sem w = (case sem of None \<Rightarrow> None | Some fd \<Rightarrow> Some (sys_close p fd w))"

subsection \<open>Is a server running?\<close>

text \<open>\<open>D\<close> is \<open>ltr_int_get_default_file_name\<close>, \<open>psem\<close> the caller's variable when it passes one. The result is
  the code's: an error, not running, running.\<close>

definition ltr_int_server_running_already ::
  "os_env \<Rightarrow> (string \<Rightarrow> string option) \<Rightarrow> pid \<Rightarrow> string \<Rightarrow> bool \<Rightarrow> semaphore_p option \<Rightarrow> bool \<Rightarrow> os \<Rightarrow>
   (int \<times> semaphore_p option \<times> os) option" where
  "ltr_int_server_running_already E D p lockName isAbsolute psem should_lock w =
     (case (if isAbsolute then Some lockName else D lockName) of
        None \<Rightarrow> Some (- 1, psem, w)
      | Some lockFile \<Rightarrow> (case ltr_int_createSemaphore E p (Some lockFile) w of
          (None, w) \<Rightarrow> Some (- 1, psem, w)
        | (pfSem, w) \<Rightarrow>
            (case (if should_lock then ltr_int_tryLockSemaphore E p pfSem w else ltr_int_testLockSemaphore E p pfSem w) of
               (lock_result, w) \<Rightarrow>
                 let result = (if \<not> lock_result then 1 else 0) in
                 if psem \<noteq> None then Some (result, Some pfSem, w)
                 else do { w \<leftarrow> ltr_int_closeSemaphore p pfSem w; Some (result, None, w) })))"

subsection \<open>Fifos\<close>

definition ltr_int_make_fifo :: "os_env \<Rightarrow> string \<Rightarrow> os \<Rightarrow> bool \<times> os" where
  "ltr_int_make_fifo E name w = (case sys_stat E name w of
     (Some FifoFile, w) \<Rightarrow> (True, w)
   | (Some _, w) \<Rightarrow> (case sys_remove E name w of (ok, w) \<Rightarrow>
       if \<not> ok then (False, w) else sys_mkfifo E name w)
   | (None, w) \<Rightarrow> sys_mkfifo E name w)"

definition lock_name :: "string \<Rightarrow> string" where
  "lock_name name = name @ ''.lock''"

definition ltr_int_is_fifo_locked :: "os_env \<Rightarrow> (string \<Rightarrow> string option) \<Rightarrow> pid \<Rightarrow> string \<Rightarrow> os \<Rightarrow> (bool \<times> os) option" where
  "ltr_int_is_fifo_locked E D p name w = do {
     (res, _, w) \<leftarrow> ltr_int_server_running_already E D p (lock_name name) True None False w;
     Some (res \<noteq> 0, w)
   }"

definition ltr_int_open_fifo_exclusive ::
  "os_env \<Rightarrow> (string \<Rightarrow> string option) \<Rightarrow> pid \<Rightarrow> string \<Rightarrow> semaphore_p \<Rightarrow> os \<Rightarrow> (int \<times> semaphore_p \<times> os) option" where
  "ltr_int_open_fifo_exclusive E D p name lock_sem w = do {
     (res, ps, w) \<leftarrow> ltr_int_server_running_already E D p (lock_name name) True (Some lock_sem) True w;
     let lock_sem = the ps;
     if res \<noteq> 0 then Some (- 1, lock_sem, w)
     else case ltr_int_make_fifo E name w of (ok, w) \<Rightarrow>
       if \<not> ok then do {
         w \<leftarrow> ltr_int_closeSemaphore p lock_sem (snd (ltr_int_unlockSemaphore E p lock_sem w));
         Some (- 1, lock_sem, w)
       }
       else case sys_open_rd E p name w of (fifo, w) \<Rightarrow>
         if fifo > 0 then Some (fifo, lock_sem, w) else Some (- 1, lock_sem, w)
   }"

text \<open>The attempts to open a fifo for writing; \<open>timeout\<close> is what is left of them.\<close>

fun open_wr_loop :: "os_env \<Rightarrow> pid \<Rightarrow> string \<Rightarrow> bool \<Rightarrow> nat \<Rightarrow> os \<Rightarrow> int \<times> os" where
  "open_wr_loop E p name waitForOpen 0 w = (- 1, w)"
| "open_wr_loop E p name waitForOpen (Suc timeout) w =
     (case sys_open_wr E p name w of (fifo, enxio, w) \<Rightarrow>
        if fifo < 0 then
          (if \<not> enxio then (- 1, w)
           else if \<not> waitForOpen then (- 1, w)
           else open_wr_loop E p name waitForOpen timeout (os_sleep E w))
        else (fifo, w))"

definition ltr_int_open_fifo_for_writing :: "os_env \<Rightarrow> pid \<Rightarrow> string \<Rightarrow> bool \<Rightarrow> os \<Rightarrow> int \<times> os" where
  "ltr_int_open_fifo_for_writing E p name waitForOpen w =
     (case ltr_int_make_fifo E name w of (ok, w) \<Rightarrow>
        if \<not> ok then (- 1, w) else open_wr_loop E p name waitForOpen 3 w)"

text \<open>The search for a fifo nobody else has: from number \<open>i\<close> on, \<open>n\<close> of them; \<open>T\<close> is the template.\<close>

fun unique_loop ::
  "os_env \<Rightarrow> (string \<Rightarrow> string option) \<Rightarrow> pid \<Rightarrow> (nat \<Rightarrow> string) \<Rightarrow> nat \<Rightarrow> nat \<Rightarrow> int \<Rightarrow> semaphore_p \<Rightarrow> os \<Rightarrow>
   (string option \<times> nat \<times> int \<times> semaphore_p \<times> os) option" where
  "unique_loop E D p T i 0 fifo lock_sem w = Some (None, i, fifo, lock_sem, w)"
| "unique_loop E D p T i (Suc n) fifo lock_sem w = do {
     (fifo, lock_sem, w) \<leftarrow> ltr_int_open_fifo_exclusive E D p (T i) lock_sem w;
     if fifo > 0 then Some (Some (T i), i, fifo, lock_sem, w)
     else unique_loop E D p T (i + 1) n fifo lock_sem w
   }"

definition ltr_int_open_unique_fifo ::
  "os_env \<Rightarrow> (string \<Rightarrow> string option) \<Rightarrow> pid \<Rightarrow> (nat \<Rightarrow> string) \<Rightarrow> nat \<Rightarrow> semaphore_p \<Rightarrow> os \<Rightarrow>
   (string option \<times> nat \<times> int \<times> semaphore_p \<times> os) option" where
  "ltr_int_open_unique_fifo E D p T max_fifos lock_sem w = unique_loop E D p T 0 max_fifos (- 1) lock_sem w"

text \<open>Sending and receiving; \<open>res\<close> and \<open>err\<close> are what \<open>write\<close> or \<open>read\<close> returned and \<open>errno\<close>.\<close>

definition ltr_int_fifo_send :: "int \<Rightarrow> int \<Rightarrow> int \<Rightarrow> int" where
  "ltr_int_fifo_send fifo res err = (if fifo \<le> 0 then - 1 else if res < 0 then - err else 0)"

definition ltr_int_fifo_receive :: "int \<Rightarrow> int \<Rightarrow> int" where
  "ltr_int_fifo_receive num_read err = (if num_read > 0 then num_read else if num_read < 0 then - err else 0)"

text \<open>The result and the hang-up flag; \<open>fds\<close> and \<open>revents_hup\<close> are what \<open>poll\<close> returned.\<close>

definition ltr_int_pipe_poll :: "int \<Rightarrow> bool \<Rightarrow> int \<times> bool" where
  "ltr_int_pipe_poll fds revents_hup =
     (if fds > 0 then (if revents_hup then (- 1, True) else (fds, False))
      else if fds < 0 then (- 1, False) else (0, False))"

subsection \<open>Shared memory files\<close>

datatype mapping = Unmapped | MapFailed | Mapped ino

record mmap_s =
  mm_fname :: "string option"
  mm_size :: nat
  mm_data :: mapping
  mm_sem :: semaphore_p
  mm_lock_sem :: semaphore_p

definition mmap_init :: mmap_s where
  "mmap_init = \<lparr>mm_fname = None, mm_size = 0, mm_data = Unmapped, mm_sem = None, mm_lock_sem = None\<rparr>"

definition ltr_int_mmap :: "os_env \<Rightarrow> pid \<Rightarrow> int \<Rightarrow> nat \<Rightarrow> mmap_s \<Rightarrow> os \<Rightarrow> bool \<times> mmap_s \<times> os" where
  "ltr_int_mmap E p fd tmp_size m w =
     (case sys_fstat E p fd w of (st_size, w) \<Rightarrow>
      case (if st_size = Some tmp_size then (True, w) else sys_ftruncate E p fd tmp_size w) of (ok, w) \<Rightarrow>
      if \<not> ok then (False, m, sys_close p fd w)
      else case sys_mmap E p fd w of
          (None, w) \<Rightarrow> (False, m\<lparr>mm_data := MapFailed\<rparr>, sys_close p fd w)
        | (Some i, w) \<Rightarrow> (True, m\<lparr>mm_data := Mapped i\<rparr>, w))"

definition ltr_int_mmap_file :: "os_env \<Rightarrow> pid \<Rightarrow> string \<Rightarrow> nat \<Rightarrow> mmap_s \<Rightarrow> os \<Rightarrow> bool \<times> mmap_s \<times> os" where
  "ltr_int_mmap_file E p fname tmp_size m w =
     (case sys_open_rw E p fname w of (fd, w) \<Rightarrow>
      if fd < 0 then (False, m, w)
      else case ltr_int_mmap E p fd tmp_size m w of (ok, m, w) \<Rightarrow>
        if \<not> ok then (False, m, sys_close p fd w)
        else (True, m\<lparr>mm_fname := Some fname, mm_size := tmp_size, mm_sem := ltr_int_semaphoreFromFd fd, mm_lock_sem := None\<rparr>, w))"

definition mmapped_file_name :: string where "mmapped_file_name = ''/tmp/ltr_mmapXXXXXX''"

definition ltr_int_open_tmp_file :: "os_env \<Rightarrow> pid \<Rightarrow> string \<Rightarrow> os \<Rightarrow> int \<times> string \<times> os" where
  "ltr_int_open_tmp_file E p fname w = sys_mkstemp E p fname w"

definition ltr_int_close_tmp_file :: "os_env \<Rightarrow> pid \<Rightarrow> string \<Rightarrow> int \<Rightarrow> os \<Rightarrow> os" where
  "ltr_int_close_tmp_file E p fname fd w = snd (sys_remove E fname (sys_close p fd w))"

definition ltr_int_mmap_file_exclusive :: "os_env \<Rightarrow> pid \<Rightarrow> nat \<Rightarrow> mmap_s \<Rightarrow> os \<Rightarrow> bool \<times> mmap_s \<times> os" where
  "ltr_int_mmap_file_exclusive E p tmp_size m w =
     (case ltr_int_open_tmp_file E p mmapped_file_name w of (fd, file_name, w) \<Rightarrow>
      if fd < 0 then (False, m, w)
      else case ltr_int_mmap E p fd tmp_size m w of (ok, m, w) \<Rightarrow>
        if \<not> ok then (False, m, ltr_int_close_tmp_file E p file_name fd w)
        else (True, m\<lparr>mm_fname := Some file_name, mm_size := tmp_size, mm_sem := ltr_int_semaphoreFromFd fd, mm_lock_sem := None\<rparr>, w))"

text \<open>\<open>munmap\<close> of the address a failed \<open>mmap\<close> returned is an error; the name is removed in any case.\<close>

definition ltr_int_unmap_file :: "os_env \<Rightarrow> pid \<Rightarrow> mmap_s \<Rightarrow> os \<Rightarrow> (bool \<times> mmap_s \<times> os) option" where
  "ltr_int_unmap_file E p m w =
     (if mm_data m = Unmapped then Some (True, m, w)
      else do {
        w \<leftarrow> ltr_int_closeSemaphore p (mm_sem m) w;
        w \<leftarrow> (if mm_lock_sem m \<noteq> None then ltr_int_closeSemaphore p (mm_lock_sem m) w else Some w);
        let res = (mm_data m \<noteq> MapFailed);
        let w = (case mm_fname m of None \<Rightarrow> tick w | Some n \<Rightarrow> snd (sys_remove E n w));
        Some (res, m\<lparr>mm_data := Unmapped, mm_size := 0, mm_fname := None\<rparr>, w)
      })"


subsection \<open>Mutual exclusion\<close>

text \<open>What the processes do to the system, one call at a time: every function of this theory is a sequence of such calls. A process that
  waits for a lock changes nothing.\<close>

datatype sys_act =
    OpenRw string | OpenRd string | OpenWr string | Close int | TryLock int | WaitLock int | TestLock int | Unlock int
  | Stat string | Remove string | MkFifo string | MkStemp string | FStat int | FTruncate int nat | MMap int

fun sys_do :: "os_env \<Rightarrow> pid \<Rightarrow> sys_act \<Rightarrow> os \<Rightarrow> os" where
  "sys_do E q (OpenRw n) w = snd (sys_open_rw E q n w)"
| "sys_do E q (OpenRd n) w = snd (sys_open_rd E q n w)"
| "sys_do E q (OpenWr n) w = snd (snd (sys_open_wr E q n w))"
| "sys_do E q (Close fd) w = sys_close q fd w"
| "sys_do E q (TryLock fd) w = snd (sys_tlock E q fd w)"
| "sys_do E q (WaitLock fd) w = (case sys_lock E q fd w of None \<Rightarrow> w | Some (_, w') \<Rightarrow> w')"
| "sys_do E q (TestLock fd) w = snd (sys_testlock E q fd w)"
| "sys_do E q (Unlock fd) w = snd (sys_ulock E q fd w)"
| "sys_do E q (Stat n) w = snd (sys_stat E n w)"
| "sys_do E q (Remove n) w = snd (sys_remove E n w)"
| "sys_do E q (MkFifo n) w = snd (sys_mkfifo E n w)"
| "sys_do E q (MkStemp n) w = snd (snd (sys_mkstemp E q n w))"
| "sys_do E q (FStat fd) w = snd (sys_fstat E q fd w)"
| "sys_do E q (FTruncate fd k) w = snd (sys_ftruncate E q fd k w)"
| "sys_do E q (MMap fd) w = snd (sys_mmap E q fd w)"

fun sys_run :: "os_env \<Rightarrow> (pid \<times> sys_act) list \<Rightarrow> os \<Rightarrow> os" where
  "sys_run E [] w = w"
| "sys_run E ((q, a) # as) w = sys_run E as (sys_do E q a w)"

text \<open>The calls that make a process \<open>p\<close> lose the lock of a file: it closes or unlocks a descriptor of the file, whichever one (as POSIX
  defines it), or somebody removes the name.\<close>

definition refers_to :: "os \<Rightarrow> pid \<Rightarrow> int \<Rightarrow> string \<Rightarrow> bool" where
  "refers_to w p fd n \<longleftrightarrow> (case ofile_at p fd w of None \<Rightarrow> False | Some f \<Rightarrow> dir w n = Some (of_ino f))"

fun gives_up :: "pid \<Rightarrow> string \<Rightarrow> pid \<Rightarrow> sys_act \<Rightarrow> os \<Rightarrow> bool" where
  "gives_up p n q (Close fd) w = (q = p \<and> refers_to w p fd n)"
| "gives_up p n q (Unlock fd) w = (q = p \<and> refers_to w p fd n)"
| "gives_up p n q (Remove m) w = (m = n)"
| "gives_up p n q _ w = False"

fun keeps_lock :: "os_env \<Rightarrow> pid \<Rightarrow> string \<Rightarrow> (pid \<times> sys_act) list \<Rightarrow> os \<Rightarrow> bool" where
  "keeps_lock E p n [] w = True"
| "keeps_lock E p n ((q, a) # as) w = (\<not> gives_up p n q a w \<and> keeps_lock E p n as (sys_do E q a w))"

definition locked_by :: "os \<Rightarrow> string \<Rightarrow> pid \<Rightarrow> bool" where
  "locked_by w n p \<longleftrightarrow> (\<exists>i. dir w n = Some i \<and> lck w i = Some p)"

lemma locked_by_tick [simp]: "locked_by (tick w) n p = locked_by w n p"
  by (simp add: locked_by_def)

lemma locked_by_lck [simp]:
  "dir w n = Some i \<Longrightarrow> locked_by (w\<lparr>lck := L\<rparr>) n p \<longleftrightarrow> L i = Some p"
  by (simp add: locked_by_def)

lemma locked_by_new_fd: "new_fd q i r v = (fd, w) \<Longrightarrow> locked_by w n p = locked_by v n p"
  using new_fd_ofile [of q i r v fd w] by (simp add: locked_by_def)

lemma locked_by_add: "locked_by w n p \<Longrightarrow> dir w m = None \<Longrightarrow> locked_by (add_node m x w) n p"
  by (auto simp: locked_by_def)

lemma sys_do_keeps:
  assumes "locked_by w n p" "\<not> gives_up p n q a w"
  shows "locked_by (sys_do E q a w) n p"
proof -
  obtain i where i: "dir w n = Some i" "lck w i = Some p" using assms(1) by (auto simp: locked_by_def)
  have nf: "locked_by (snd (new_fd q j r v)) n p = locked_by v n p" for j r v
    using locked_by_new_fd [of q j r v _ "snd (new_fd q j r v)"] by (metis prod.collapse)
  show ?thesis
  proof (cases a)
    case (OpenRw m)
    have "dir w m = None \<Longrightarrow> locked_by (add_node m (RegFile []) (tick w)) n p" using locked_by_add [of "tick w" n p m] assms(1) by simp
    then show ?thesis using assms(1) OpenRw by (auto simp: sys_open_rw_def nf split: option.splits)
  next
    case (OpenRd m) then show ?thesis using assms(1) by (auto simp: sys_open_rd_def nf split: option.splits)
  next
    case (OpenWr m)
    then show ?thesis using assms(1) locked_by_new_fd [of q _ False "tick w" _ _ n p]
      by (auto simp: sys_open_wr_def split: option.splits prod.splits)
  next
    case (Close fd)
    then have "ofile_at q fd w = Some f \<Longrightarrow> lck w (of_ino f) = Some q \<Longrightarrow> of_ino f \<noteq> i" for f
      using i assms(2) by (auto simp: refers_to_def)
    then show ?thesis using i Close by (auto simp: locked_by_def sys_close_def split: option.splits)
  next
    case (Unlock fd)
    then have "ofile_at q fd w = Some f \<Longrightarrow> lck w (of_ino f) = Some q \<Longrightarrow> of_ino f \<noteq> i" for f
      using i assms(2) by (auto simp: refers_to_def)
    then show ?thesis using i Unlock by (auto simp: locked_by_def sys_ulock_def split: option.splits)
  next
    case (TryLock fd) then show ?thesis using i by (auto simp: locked_by_def sys_tlock_def free_for_def split: option.splits)
  next
    case (WaitLock fd) then show ?thesis using i by (auto simp: locked_by_def sys_lock_def free_for_def split: option.splits)
  next
    case (TestLock fd) then show ?thesis using assms(1) by (auto simp: sys_testlock_def split: option.splits)
  next
    case (Remove m) then show ?thesis using i assms(2) by (auto simp: locked_by_def sys_remove_def)
  next
    case (MkFifo m)
    then show ?thesis using assms(1) locked_by_add [of "tick w" n p m] by (auto simp: sys_mkfifo_def)
  next
    case (MkStemp t)
    have "dir w m = None \<Longrightarrow> locked_by (add_node m (RegFile []) (tick w)) n p" for m using locked_by_add [of "tick w" n p m] assms(1) by simp
    then show ?thesis using MkStemp assms(1) locked_by_new_fd [of q _ True _ _ _ n p]
      by (auto simp: sys_mkstemp_def Let_def split: prod.splits)
  qed (use assms(1) i in \<open>auto simp: sys_stat_def sys_fstat_def sys_ftruncate_def sys_mmap_def locked_by_def split: option.splits node.splits\<close>)
qed

lemma sys_run_keeps: "locked_by w n p \<Longrightarrow> keeps_lock E p n as w \<Longrightarrow> locked_by (sys_run E as w) n p"
  by (induction as arbitrary: w) (auto simp: sys_do_keeps)

text \<open>The semaphore that \<open>ltr_int_createSemaphore\<close> makes is a descriptor of the file of that name.\<close>

lemma createSemaphore_cases:
  assumes "ltr_int_createSemaphore E p (Some n) w = (sem, w')"
  obtains "sem = None" "w' = tick w"
  | fd f where "sem = Some fd" "ofile_at p fd w' = Some f" "dir w' n = Some (of_ino f)" "lck w' = lck w" "\<And>i. dir w n = Some i \<Longrightarrow> of_ino f = i"
proof (cases "sem = None")
  case True
  have "lowest_fd p v \<noteq> - 1" for v using lowest_fd_free(1) [of p v] by auto
  then show ?thesis using True assms that(1)
    by (auto simp: ltr_int_createSemaphore_def sys_open_rw_def new_fd_def ltr_int_semaphoreFromFd_def Let_def
        split: if_splits option.splits prod.splits)
next
  case False
  then obtain fd where fd: "sem = Some fd" "fd \<noteq> - 1" "sys_open_rw E p n w = (fd, w')"
    using assms by (auto simp: ltr_int_createSemaphore_def ltr_int_semaphoreFromFd_def split: prod.splits if_splits)
  show ?thesis
  proof (cases "dir w n")
    case None
    then have v: "new_fd p (next_ino w) True (add_node n (RegFile []) (tick w)) = (fd, w')"
      using fd by (auto simp: sys_open_rw_def split: if_splits)
    show ?thesis using new_fd_ofile [OF v] None by (intro that(2) [OF fd(1)]) auto
  next
    case (Some i)
    then have v: "new_fd p i True (tick w) = (fd, w')"
      using fd by (auto simp: sys_open_rw_def split: if_splits)
    show ?thesis using new_fd_ofile [OF v] Some by (intro that(2) [OF fd(1)]) auto
  qed
qed

lemma make_fifo_keeps: "n \<noteq> m \<Longrightarrow> locked_by w n p \<Longrightarrow> locked_by (snd (ltr_int_make_fifo E m w)) n p"
proof -
  assume n: "n \<noteq> m" and l: "locked_by w n p"
  have f: "locked_by v n p \<Longrightarrow> locked_by (snd (sys_mkfifo E m v)) n p" "locked_by v n p \<Longrightarrow> locked_by (snd (sys_remove E m v)) n p" for v
    using sys_do_keeps [of v n p 0 "MkFifo m" E] sys_do_keeps [of v n p 0 "Remove m" E] n by simp_all
  obtain st v where s: "sys_stat E m w = (st, v)" "v = tick w" by (simp add: sys_stat_def)
  obtain ok u where r: "sys_remove E m v = (ok, u)" by (meson surj_pair)
  have "locked_by v n p" "locked_by u n p" using f(2) [of v] r s l by simp_all
  then show ?thesis using f(1) s r by (simp add: ltr_int_make_fifo_def split: option.splits node.splits)
qed

lemma exclusive_locks:
  assumes "ltr_int_open_fifo_exclusive E D p n s w = Some (fd, sem, w')" "0 < fd"
  shows "locked_by w' (lock_name n) p"
proof -
  have nm: "lock_name n \<noteq> n" by (simp add: lock_name_def)
  obtain sm v where c: "ltr_int_createSemaphore E p (Some (lock_name n)) w = (sm, v)" by (meson surj_pair)
  then show ?thesis
  proof (cases rule: createSemaphore_cases)
    case 1
    then show ?thesis using assms c by (simp add: ltr_int_open_fifo_exclusive_def ltr_int_server_running_already_def)
  next
    case (2 g f)
    obtain ok u where t: "ltr_int_tryLockSemaphore E p (Some g) v = (ok, u)" by (meson surj_pair)
    have ok: "ok" using assms c 2(1) t
      by (auto simp: ltr_int_open_fifo_exclusive_def ltr_int_server_running_already_def Let_def split: if_splits)
    then have "locked_by u (lock_name n) p"
      using t 2 by (auto simp: ltr_int_tryLockSemaphore_def sys_tlock_def locked_by_def split: if_splits)
    then have m: "locked_by (snd (ltr_int_make_fifo E n u)) (lock_name n) p" using make_fifo_keeps [OF nm] by blast
    obtain k x where mf: "ltr_int_make_fifo E n u = (k, x)" by (meson surj_pair)
    have "k" using assms c 2(1) t ok mf
      by (auto simp: ltr_int_open_fifo_exclusive_def ltr_int_server_running_already_def Let_def bind_eq_Some_conv split: if_splits)
    then have "w' = sys_do E p (OpenRd n) x" using assms c 2(1) t ok mf
      by (auto simp: ltr_int_open_fifo_exclusive_def ltr_int_server_running_already_def Let_def split: prod.splits if_splits)
    then show ?thesis using sys_do_keeps [of x "lock_name n" p p "OpenRd n" E] m mf by simp
  qed
qed

lemma locked_refuses:
  assumes "locked_by w n p" "q \<noteq> p" "refers_to w q g n"
  shows "ltr_int_tryLockSemaphore E q (Some g) w = (False, tick w)" "ltr_int_testLockSemaphore E q (Some g) w = (False, tick w)"
  using assms by (auto simp: locked_by_def refers_to_def ltr_int_tryLockSemaphore_def ltr_int_testLockSemaphore_def sys_tlock_def sys_testlock_def
      free_for_def split: option.splits)

lemma locked_create:
  assumes "locked_by w n p" "q \<noteq> p" "ltr_int_createSemaphore E q (Some n) w = (sem, v)" "sem = Some g"
  shows "refers_to v q g n" "locked_by v n p"
  using assms by (cases rule: createSemaphore_cases [OF assms(3)]; fastforce simp: locked_by_def refers_to_def)+

text \<open>C14: A fifo that was opened exclusively stays so (\<open>ipc_utils.c\<close>). Once \<open>ltr_int_open_fifo_exclusive\<close> has given a fifo to a process,
  then after any interleaving of system calls by all processes, with any failures, in which that process neither closes nor unlocks a
  descriptor of the lock file and nobody removes its name, every other process is refused: its attempts to lock or test any descriptor
  of the lock file fail, \<open>ltr_int_open_fifo_exclusive\<close> gives it no fifo, and \<open>ltr_int_is_fifo_locked\<close> tells it that the fifo is taken; and
  the first process has the lock still after that.\<close>

theorem locked_fifo_stays_exclusive:
  assumes "ltr_int_open_fifo_exclusive E D p n s w0 = Some (fd, sem, w1)" "0 < fd" "keeps_lock E p (lock_name n) calls w1"
    "w = sys_run E calls w1" "q \<noteq> p"
  shows "(\<forall>g. refers_to w q g (lock_name n) \<longrightarrow>
      ltr_int_tryLockSemaphore E q (Some g) w = (False, tick w) \<and> ltr_int_testLockSemaphore E q (Some g) w = (False, tick w)) \<and>
    (\<exists>sem' w'. ltr_int_open_fifo_exclusive E D q n s' w = Some (- 1, sem', w') \<and> locked_by w' (lock_name n) p) \<and>
    (\<exists>w'. ltr_int_is_fifo_locked E D q n w = Some (True, w') \<and> locked_by w' (lock_name n) p)"
proof -
  have l: "locked_by w (lock_name n) p" unfolding assms(4) by (rule sys_run_keeps [OF exclusive_locks [OF assms(1,2)] assms(3)])
  obtain sm v where c: "ltr_int_createSemaphore E q (Some (lock_name n)) w = (sm, v)" by (meson surj_pair)
  have "(\<exists>sem' w'. ltr_int_open_fifo_exclusive E D q n s' w = Some (- 1, sem', w') \<and> locked_by w' (lock_name n) p) \<and>
    (\<exists>w'. ltr_int_is_fifo_locked E D q n w = Some (True, w') \<and> locked_by w' (lock_name n) p)"
  proof (cases sm)
    case None
    then have "v = tick w" using c by (cases rule: createSemaphore_cases [OF c]) auto
    then show ?thesis using l c None
      by (simp add: ltr_int_open_fifo_exclusive_def ltr_int_is_fifo_locked_def ltr_int_server_running_already_def)
  next
    case (Some g)
    note lc = locked_create [OF l assms(5) c Some]
    note r = locked_refuses [OF lc(2) assms(5) lc(1), of E]
    have "locked_by (sys_close q g (tick v)) (lock_name n) p"
      using sys_do_keeps [of "tick v" "lock_name n" p q "Close g" E] lc(2) assms(5) by simp
    then show ?thesis using lc(2) c Some r
      by (simp add: ltr_int_open_fifo_exclusive_def ltr_int_is_fifo_locked_def ltr_int_server_running_already_def ltr_int_closeSemaphore_def)
  qed
  then show ?thesis using locked_refuses [OF l assms(5)] by blast
qed

definition calm :: os_env where
  "calm = \<lparr>os_fails = (\<lambda>_. False), os_sleep = id, os_tmpname = (\<lambda>w t. t)\<rparr>"

definition os_empty :: os where
  "os_empty = \<lparr>dir = Map.empty, inodes = Map.empty, next_ino = 0, fdt = [], lck = Map.empty, sys_clock = 0\<rparr>"

lemma calm_simps [simp]: "fails calm w = False" "os_sleep calm w = w"
  by (simp_all add: calm_def fails_def)

theorem locked_fifo_stays_exclusive_witness:
  "\<exists>sem w1 sem' w'. ltr_int_open_fifo_exclusive calm Some 1 ''a'' None os_empty = Some (1, Some sem, w1) \<and>
     ltr_int_open_fifo_exclusive calm Some 2 ''a'' None (sys_run calm [(2, OpenRw ''a.lock''), (2, TryLock 0), (2, Unlock 0), (2, Close 0)] w1) =
       Some (- 1, sem', w') \<and> locked_by w' ''a.lock'' 1"
proof -
  have h: "ltr_int_open_fifo_exclusive calm Some 1 ''a'' None os_empty =
    Some (1, Some 0, snd (snd (the (ltr_int_open_fifo_exclusive calm Some 1 ''a'' None os_empty))))"
    by (simp add: ltr_int_open_fifo_exclusive_def ltr_int_server_running_already_def ltr_int_createSemaphore_def sys_open_rw_def
        ltr_int_semaphoreFromFd_def ltr_int_tryLockSemaphore_def sys_tlock_def ltr_int_make_fifo_def sys_stat_def sys_mkfifo_def sys_open_rd_def
        new_fd_def lowest_fd_def fds_of_def add_node_def tick_def os_empty_def ofile_at_def free_for_def lock_name_def)
  define w1 where "w1 = snd (snd (the (ltr_int_open_fifo_exclusive calm Some 1 ''a'' None os_empty)))"
  have o: "ltr_int_open_fifo_exclusive calm Some 1 ''a'' None os_empty = Some (1, Some 0, w1)" unfolding w1_def by (rule h)
  have n: "lock_name ''a'' = ''a.lock''" by (simp add: lock_name_def)
  from locked_fifo_stays_exclusive [OF o, of "[(2, OpenRw ''a.lock''), (2, TryLock 0), (2, Unlock 0), (2, Close 0)]" _ 2 None] show ?thesis
    using o unfolding n by auto
qed

text \<open>The process must keep its descriptors: POSIX drops the lock when the process closes \<^emph>\<open>any\<close> descriptor of the file,
  so a process that asks \<open>ltr_int_is_fifo_locked\<close> about the fifo it has locked itself is told that the
  fifo is free, and has lost its lock.\<close>

lemma own_probe_loses_lock:
  assumes "dir w (lock_name n) = Some i" "lck w i = Some p" "inodes w i \<noteq> Some DirFile" "\<And>v. \<not> fails E v"
  obtains w' where "ltr_int_is_fifo_locked E D p n w = Some (False, w')" "lck w' i = None"
proof -
  obtain fd v where v: "new_fd p i True (tick w) = (fd, v)" by (meson surj_pair)
  note nf = new_fd_ofile [OF v]
  then have "ltr_int_createSemaphore E p (Some (lock_name n)) w = (Some fd, v)"
    using assms v by (simp add: ltr_int_createSemaphore_def sys_open_rw_def ltr_int_semaphoreFromFd_def)
  moreover have "ltr_int_testLockSemaphore E p (Some fd) v = (True, tick v)"
    using assms nf by (simp add: ltr_int_testLockSemaphore_def sys_testlock_def free_for_def)
  ultimately have "ltr_int_is_fifo_locked E D p n w = Some (False, sys_close p fd (tick v))"
    by (simp add: ltr_int_is_fifo_locked_def ltr_int_server_running_already_def ltr_int_closeSemaphore_def)
  moreover have "lck (sys_close p fd (tick v)) i = None"
    using assms nf by (simp add: sys_close_def)
  ultimately show ?thesis by (rule that)
qed


subsection \<open>Fifos\<close>

text \<open>What the attempts on busy fifos leave alone.\<close>

definition same_files :: "os \<Rightarrow> os \<Rightarrow> bool" where
  "same_files w w' \<longleftrightarrow> dir w' = dir w \<and> inodes w' = inodes w \<and> next_ino w' = next_ino w \<and> lck w' = lck w"

definition lock_busy :: "os \<Rightarrow> pid \<Rightarrow> string \<Rightarrow> bool" where
  "lock_busy w p n \<longleftrightarrow> (\<exists>i q. dir w (lock_name n) = Some i \<and> inodes w i \<noteq> Some DirFile \<and> lck w i = Some q \<and> q \<noteq> p)"

definition lock_available :: "os \<Rightarrow> pid \<Rightarrow> string \<Rightarrow> bool" where
  "lock_available w p n \<longleftrightarrow> (case dir w (lock_name n) of None \<Rightarrow> lck w (next_ino w) = None
     | Some i \<Rightarrow> inodes w i \<noteq> Some DirFile \<and> free_for p i w)"

definition fifo_possible :: "os \<Rightarrow> string \<Rightarrow> bool" where
  "fifo_possible w n \<longleftrightarrow> (case dir w n of None \<Rightarrow> True | Some i \<Rightarrow> inodes w i = Some FifoFile)"

lemma fds_of_new_fd: "new_fd p i r w = (fd, w') \<Longrightarrow> length (fds_of p w') = Suc (length (fds_of p w))"
  by (auto simp: new_fd_def fds_of_def)

lemma new_fd_keeps: "new_fd p i r w = (fd, w') \<Longrightarrow> ofile_at p g w = Some f \<Longrightarrow> ofile_at p g w' = Some f"
  using new_fd_ofile [of p i r w fd w'] by (cases "g = fd") auto

lemma open_exclusive_busy:
  assumes nf: "\<And>v. \<not> fails E v" and b: "lock_busy w p n"
  obtains fd w' where "ltr_int_open_fifo_exclusive E D p n s w = Some (- 1, Some fd, w')" "same_files w w'"
    "length (fds_of p w') = Suc (length (fds_of p w))" "\<forall>g f. ofile_at p g w = Some f \<longrightarrow> ofile_at p g w' = Some f"
proof -
  obtain i q where i: "dir w (lock_name n) = Some i" "inodes w i \<noteq> Some DirFile" "lck w i = Some q" "q \<noteq> p"
    using b by (auto simp: lock_busy_def)
  obtain fd v where v: "new_fd p i True (tick w) = (fd, v)" by (meson surj_pair)
  note N = new_fd_ofile [OF v]
  have c: "ltr_int_createSemaphore E p (Some (lock_name n)) w = (Some fd, v)"
    using nf i N v by (simp add: ltr_int_createSemaphore_def sys_open_rw_def ltr_int_semaphoreFromFd_def)
  have t: "ltr_int_tryLockSemaphore E p (Some fd) v = (False, tick v)"
    using i N by (simp add: ltr_int_tryLockSemaphore_def sys_tlock_def free_for_def)
  have "ltr_int_open_fifo_exclusive E D p n s w = Some (- 1, Some fd, tick v)"
    by (simp add: ltr_int_open_fifo_exclusive_def ltr_int_server_running_already_def c t)
  moreover have "same_files w (tick v)" using N by (simp add: same_files_def)
  moreover have "length (fds_of p (tick v)) = Suc (length (fds_of p w))" using fds_of_new_fd [OF v] by simp
  moreover have "\<forall>g f. ofile_at p g w = Some f \<longrightarrow> ofile_at p g (tick v) = Some f"
    using new_fd_keeps [OF v] by simp
  ultimately show ?thesis by (rule that)
qed

lemma create_available:
  assumes nf: "\<And>v. \<not> fails E v" and a: "lock_available w p n"
  obtains fd v i where "ltr_int_createSemaphore E p (Some (lock_name n)) w = (Some fd, v)"
    "ofile_at p fd v = Some \<lparr>of_pid = p, of_fd = fd, of_ino = i, of_rd = True\<rparr>" "dir v (lock_name n) = Some i" "free_for p i v"
    "length (fds_of p v) = Suc (length (fds_of p w))" "\<forall>g f. ofile_at p g w = Some f \<longrightarrow> ofile_at p g v = Some f"
    "\<forall>m. m \<noteq> lock_name n \<longrightarrow> dir v m = dir w m" "\<forall>j. j < next_ino w \<longrightarrow> inodes v j = inodes w j" "next_ino w \<le> next_ino v"
proof (cases "dir w (lock_name n)")
  case None
  obtain fd v where v: "new_fd p (next_ino w) True (add_node (lock_name n) (RegFile []) (tick w)) = (fd, v)" by (meson surj_pair)
  note N = new_fd_ofile [OF v]
  have "ltr_int_createSemaphore E p (Some (lock_name n)) w = (Some fd, v)"
    using nf None N v by (simp add: ltr_int_createSemaphore_def sys_open_rw_def ltr_int_semaphoreFromFd_def)
  then show ?thesis
    by (rule that [where i = "next_ino w"])
      (use N None a fds_of_new_fd [OF v] new_fd_keeps [OF v] in \<open>auto simp: lock_available_def free_for_def\<close>)
next
  case (Some i)
  obtain fd v where v: "new_fd p i True (tick w) = (fd, v)" by (meson surj_pair)
  note N = new_fd_ofile [OF v]
  have "ltr_int_createSemaphore E p (Some (lock_name n)) w = (Some fd, v)"
    using nf Some N v a by (simp add: ltr_int_createSemaphore_def sys_open_rw_def ltr_int_semaphoreFromFd_def lock_available_def)
  then show ?thesis
    by (rule that [where i = i])
      (use N Some a fds_of_new_fd [OF v] new_fd_keeps [OF v] in \<open>auto simp: lock_available_def free_for_def\<close>)
qed

lemma make_fifo_ok:
  assumes nf: "\<And>v. \<not> fails E v" and "fifo_possible w n"
  obtains w' i where "ltr_int_make_fifo E n w = (True, w')" "dir w' n = Some i" "inodes w' i = Some FifoFile"
    "fdt w' = fdt w" "lck w' = lck w" "\<forall>m. m \<noteq> n \<longrightarrow> dir w' m = dir w m"
proof (cases "dir w n")
  case None
  with nf have "ltr_int_make_fifo E n w = (True, add_node n FifoFile (tick (tick w)))"
    by (simp add: ltr_int_make_fifo_def sys_stat_def sys_mkfifo_def)
  then show ?thesis by (rule that [where i = "next_ino w"]) simp_all
next
  case (Some i)
  with assms have "ltr_int_make_fifo E n w = (True, tick w)" "inodes w i = Some FifoFile"
    by (auto simp: ltr_int_make_fifo_def sys_stat_def fifo_possible_def)
  with Some show ?thesis by (intro that [of "tick w" i]) simp_all
qed

definition fifo_taken :: "os \<Rightarrow> pid \<Rightarrow> string \<Rightarrow> int \<Rightarrow> bool" where
  "fifo_taken w p n fd \<longleftrightarrow> 0 < fd \<and> (\<exists>i. dir w (lock_name n) = Some i \<and> lck w i = Some p) \<and>
     (\<exists>f. ofile_at p fd w = Some f \<and> dir w n = Some (of_ino f) \<and> inodes w (of_ino f) = Some FifoFile)"

lemma open_exclusive_available:
  assumes nf: "\<And>v. \<not> fails E v" and a: "lock_available w p n" and fp: "fifo_possible w n"
    and bound: "\<And>m i. dir w m = Some i \<Longrightarrow> i < next_ino w" and std: "ofile_at p 0 w \<noteq> None"
  obtains fd sem w' where "ltr_int_open_fifo_exclusive E D p n s w = Some (fd, Some sem, w')" "fifo_taken w' p n fd"
    "length (fds_of p w') = length (fds_of p w) + 2"
proof -
  have nm: "n \<noteq> lock_name n" by (simp add: lock_name_def)
  obtain sem v i where c: "ltr_int_createSemaphore E p (Some (lock_name n)) w = (Some sem, v)"
    "ofile_at p sem v = Some \<lparr>of_pid = p, of_fd = sem, of_ino = i, of_rd = True\<rparr>" "dir v (lock_name n) = Some i" "free_for p i v"
    "length (fds_of p v) = Suc (length (fds_of p w))" "\<forall>g f. ofile_at p g w = Some f \<longrightarrow> ofile_at p g v = Some f"
    "\<forall>m. m \<noteq> lock_name n \<longrightarrow> dir v m = dir w m" "\<forall>j. j < next_ino w \<longrightarrow> inodes v j = inodes w j" "next_ino w \<le> next_ino v"
    by (rule create_available [OF nf a])
  define u where "u = (tick v)\<lparr>lck := (lck v)(i \<mapsto> p)\<rparr>"
  have t: "ltr_int_tryLockSemaphore E p (Some sem) v = (True, u)"
    using nf c by (simp add: ltr_int_tryLockSemaphore_def sys_tlock_def u_def)
  have U: "dir u = dir v" "inodes u = inodes v" "fdt u = fdt v" "lck u i = Some p" by (simp_all add: u_def)
  have "fifo_possible u n"
    using fp c(7) nm bound c(8) by (auto simp: fifo_possible_def U split: option.splits)
  obtain x j where m: "ltr_int_make_fifo E n u = (True, x)" "dir x n = Some j" "inodes x j = Some FifoFile"
    "fdt x = fdt u" "lck x = lck u" "\<forall>m. m \<noteq> n \<longrightarrow> dir x m = dir u m"
    by (rule make_fifo_ok [OF nf \<open>fifo_possible u n\<close>])
  obtain fd y where y: "new_fd p j True (tick x) = (fd, y)" by (meson surj_pair)
  note N = new_fd_ofile [OF y]
  have fx: "ofile_at p g x = ofile_at p g v" for g by (simp add: ofile_at_def m U)
  have "fd \<noteq> 0" using N std c(6) fx by fastforce
  with N have fd: "0 < fd" by linarith
  have o: "sys_open_rd E p n x = (fd, y)" using nf m(2) y by (simp add: sys_open_rd_def)
  have "ltr_int_open_fifo_exclusive E D p n s w = Some (fd, Some sem, y)"
    using fd by (simp add: ltr_int_open_fifo_exclusive_def ltr_int_server_running_already_def c(1) t m(1) o)
  moreover have "fifo_taken y p n fd"
    using fd N m c(3) nm U by (simp add: fifo_taken_def)
  moreover have "length (fds_of p y) = length (fds_of p w) + 2"
    using fds_of_new_fd [OF y] c(5) by (simp add: fds_of_def m U)
  ultimately show ?thesis by (rule that)
qed

lemma busy_same: "same_files w w' \<Longrightarrow> lock_busy w' p n = lock_busy w p n"
  "same_files w w' \<Longrightarrow> lock_available w' p n = lock_available w p n"
  "same_files w w' \<Longrightarrow> fifo_possible w' n = fifo_possible w n"
  unfolding same_files_def lock_busy_def lock_available_def fifo_possible_def free_for_def by (clarsimp cong: option.case_cong)+

lemma unique_loop_ok:
  assumes nf: "\<And>v. \<not> fails E v"
  shows "\<lbrakk>\<And>j. j < k \<Longrightarrow> lock_busy w p (T (i + j)); lock_available w p (T (i + k)); fifo_possible w (T (i + k));
    \<And>m j. dir w m = Some j \<Longrightarrow> j < next_ino w; ofile_at p 0 w \<noteq> None; k < n\<rbrakk> \<Longrightarrow>
    \<exists>fd sem w'. unique_loop E D p T i n f s w = Some (Some (T (i + k)), i + k, fd, Some sem, w') \<and>
      fifo_taken w' p (T (i + k)) fd \<and> length (fds_of p w') = length (fds_of p w) + k + 2"
proof (induction k arbitrary: i n f s w)
  case 0
  from 0(6) obtain n' where n: "n = Suc n'" by (cases n) auto
  obtain fd sem w' where o: "ltr_int_open_fifo_exclusive E D p (T i) s w = Some (fd, Some sem, w')" "fifo_taken w' p (T i) fd"
    "length (fds_of p w') = length (fds_of p w) + 2"
    by (rule open_exclusive_available [OF nf, of w p "T i" D s]) (use 0 in auto)
  moreover have "0 < fd" using o(2) by (simp add: fifo_taken_def)
  ultimately show ?case by (simp add: n)
next
  case (Suc k)
  from Suc.prems(6) obtain n' where n: "n = Suc n'" by (cases n) auto
  have "lock_busy w p (T i)" using Suc.prems(1) [of 0] by simp
  obtain fd v where o: "ltr_int_open_fifo_exclusive E D p (T i) s w = Some (- 1, Some fd, v)" "same_files w v"
    "length (fds_of p v) = Suc (length (fds_of p w))" "\<forall>g f. ofile_at p g w = Some f \<longrightarrow> ofile_at p g v = Some f"
    by (rule open_exclusive_busy [OF nf \<open>lock_busy w p (T i)\<close>, of D s])
  have "\<exists>fd' sem w'. unique_loop E D p T (i + 1) n' (- 1) (Some fd) v = Some (Some (T (i + 1 + k)), i + 1 + k, fd', Some sem, w') \<and>
      fifo_taken w' p (T (i + 1 + k)) fd' \<and> length (fds_of p w') = length (fds_of p v) + k + 2"
  proof (rule Suc.IH)
    show "lock_busy v p (T (i + 1 + j))" if "j < k" for j
      using Suc.prems(1) [of "Suc j"] that busy_same(1) [OF o(2)] by simp
    show "lock_available v p (T (i + 1 + k))" "fifo_possible v (T (i + 1 + k))"
      using Suc.prems(2,3) busy_same(2,3) [OF o(2)] by simp_all
    show "j < next_ino v" if "dir v m = Some j" for m j
      using that Suc.prems(4) o(2) by (simp add: same_files_def)
    show "ofile_at p 0 v \<noteq> None" using Suc.prems(5) o(4) by auto
    show "k < n'" using Suc.prems(6) n by simp
  qed
  then show ?case using o(1,3) by (simp add: n)
qed

text \<open>When the system calls succeed, \<open>ltr_int_open_unique_fifo\<close> takes the first fifo of its template
  whose lock no other process holds: it returns its name and number, the process holds its lock and
  has a descriptor of a file that is a fifo of that name. Each number it passes over costs the
  process one descriptor that nothing closes.\<close>

theorem open_unique_fifo_first_free:
  assumes "\<And>v. \<not> fails E v" and "names_ok w" and "ofile_at p 0 w \<noteq> None"
    and "\<And>j. j < k \<Longrightarrow> lock_busy w p (T j)" and "lock_available w p (T k)" and "fifo_possible w (T k)" and "k < max_fifos"
  shows "\<exists>fd sem w'. ltr_int_open_unique_fifo E D p T max_fifos s w = Some (Some (T k), k, fd, Some sem, w') \<and>
    fifo_taken w' p (T k) fd \<and> length (fds_of p w') = length (fds_of p w) + k + 2"
  unfolding ltr_int_open_unique_fifo_def
  using unique_loop_ok [OF assms(1), where i = 0 and k = k and n = max_fifos] assms(2-) by (simp add: names_ok_def)

definition two_fifos :: os where
  "two_fifos = \<lparr>dir = [''a.lock'' \<mapsto> 0], inodes = [0 \<mapsto> RegFile []], next_ino = 1,
     fdt = [\<lparr>of_pid = 1, of_fd = 0, of_ino = 0, of_rd = True\<rparr>, \<lparr>of_pid = 2, of_fd = 0, of_ino = 0, of_rd = True\<rparr>],
     lck = [0 \<mapsto> 1], sys_clock = 0\<rparr>"

theorem open_unique_fifo_first_free_witness:
  "\<exists>fd sem w'. ltr_int_open_unique_fifo calm (\<lambda>_. None) 2 (\<lambda>j. if j = 0 then ''a'' else ''b'') 99 None two_fifos =
      Some (Some ''b'', 1, fd, Some sem, w') \<and> length (fds_of 2 w') = 4"
proof -
  have "names_ok two_fifos" by (simp add: names_ok_def two_fifos_def)
  moreover have "ofile_at 2 0 two_fifos \<noteq> None" by (simp add: ofile_at_def two_fifos_def)
  moreover have "lock_busy two_fifos 2 ''a''" by (simp add: lock_busy_def two_fifos_def lock_name_def)
  moreover have "lock_available two_fifos 2 ''b''" by (simp add: lock_available_def two_fifos_def lock_name_def)
  moreover have "fifo_possible two_fifos ''b''" by (simp add: fifo_possible_def two_fifos_def)
  ultimately show ?thesis
    using open_unique_fifo_first_free [of calm two_fifos 2 1 "\<lambda>j. if j = 0 then ''a'' else ''b''" 99 "\<lambda>_. None" None]
    by (auto simp: fds_of_def two_fifos_def)
qed

end
