(* ===== verification/Ltlib.thy ===== *)
theory Ltlib
  imports IpcUtils CalTypes
begin

text \<open>
  \<open>src/ltlib.c\<close>: the client library an application links. \<open>ltr_comm\<close> is the structure it shares with its
  server process, the slave; both sides change it under the lock of the mapping, so an operation of
  the client is one step on it. The state of the client is the record \<open>ltlib\<close>, the shared structure
  is kept beside it. \<open>uint8_t\<close> flags are booleans, \<open>int8_t state\<close> is the number of a
  \<open>linuxtrack_state_type\<close>.
\<close>

datatype ltr_cmd = RUN_CMD | PAUSE_CMD | STOP_CMD | FRAMES_CMD | NOP_CMD

record linuxtrack_pose_t =
  pitch :: cflt
  yaw :: cflt
  roll :: cflt
  tx :: cflt
  ty :: cflt
  tz :: cflt
  counter :: u32
  resolution_x :: u32
  resolution_y :: u32
  raw_pitch :: cflt
  raw_yaw :: cflt
  raw_roll :: cflt
  raw_tx :: cflt
  raw_ty :: cflt
  raw_tz :: cflt
  pose_status :: u8

record linuxtrack_abs_pose_t =
  abs_yaw :: cflt
  abs_pitch :: cflt
  abs_roll :: cflt
  abs_tx :: cflt
  abs_ty :: cflt
  abs_tz :: cflt

record linuxtrack_full_pose_t =
  fp_pose :: linuxtrack_pose_t
  fp_abs_pose :: linuxtrack_abs_pose_t
  fp_blobs :: u32
  blob_list :: "cflt list"

record ltr_comm =
  com_cmd :: ltr_cmd
  com_recenter :: bool
  com_notify :: bool
  com_state :: int
  full_pose :: linuxtrack_full_pose_t
  dead_man_button :: u8
  preparing_start :: bool

record ltlib =
  mmm :: mmap_s
  lt_initialized :: bool
  notify_pipe :: int

definition zero_pose :: linuxtrack_pose_t where
  "zero_pose = \<lparr>pitch = Fin 0, yaw = Fin 0, roll = Fin 0, tx = Fin 0, ty = Fin 0, tz = Fin 0, counter = 0,
     resolution_x = 0, resolution_y = 0, raw_pitch = Fin 0, raw_yaw = Fin 0, raw_roll = Fin 0,
     raw_tx = Fin 0, raw_ty = Fin 0, raw_tz = Fin 0, pose_status = 0\<rparr>"

definition zero_abs_pose :: linuxtrack_abs_pose_t where
  "zero_abs_pose = \<lparr>abs_yaw = Fin 0, abs_pitch = Fin 0, abs_roll = Fin 0, abs_tx = Fin 0, abs_ty = Fin 0, abs_tz = Fin 0\<rparr>"

definition zero_comm :: ltr_comm where
  "zero_comm = \<lparr>com_cmd = RUN_CMD, com_recenter = False, com_notify = False, com_state = 0,
     full_pose = \<lparr>fp_pose = zero_pose, fp_abs_pose = zero_abs_pose, fp_blobs = 0,
       blob_list = replicate (BLOB_ELEMENTS * unat MAX_BLOBS) (Fin 0)\<rparr>,
     dead_man_button = 0, preparing_start = False\<rparr>"

definition ltlib_init :: ltlib where
  "ltlib_init = \<lparr>mmm = mmap_init, lt_initialized = False, notify_pipe = - 1\<rparr>"

text \<open>\<open>com\<close> is \<open>mmm.data\<close>; the guard all functions of the interface start with.\<close>

definition connected :: "ltlib \<Rightarrow> bool" where
  "connected s \<longleftrightarrow> lt_initialized s \<and> mm_data (mmm s) \<noteq> Unmapped"

subsection \<open>Commands\<close>

definition send_cmd :: "ltr_cmd \<Rightarrow> ltlib \<Rightarrow> ltr_comm \<Rightarrow> linuxtrack_state_type \<times> ltr_comm" where
  "send_cmd c s com = (if \<not> connected s then (err_NOT_INITIALIZED, com) else (LINUXTRACK_OK, com\<lparr>com_cmd := c\<rparr>))"

definition ltr_suspend :: "ltlib \<Rightarrow> ltr_comm \<Rightarrow> linuxtrack_state_type \<times> ltr_comm" where
  "ltr_suspend = send_cmd PAUSE_CMD"

definition ltr_wakeup :: "ltlib \<Rightarrow> ltr_comm \<Rightarrow> linuxtrack_state_type \<times> ltr_comm" where
  "ltr_wakeup = send_cmd RUN_CMD"

definition ltr_request_frames :: "ltlib \<Rightarrow> ltr_comm \<Rightarrow> linuxtrack_state_type \<times> ltr_comm" where
  "ltr_request_frames = send_cmd FRAMES_CMD"

definition ltr_recenter :: "ltlib \<Rightarrow> ltr_comm \<Rightarrow> linuxtrack_state_type \<times> ltr_comm" where
  "ltr_recenter s com = (if \<not> connected s then (err_NOT_INITIALIZED, com) else (LINUXTRACK_OK, com\<lparr>com_recenter := True\<rparr>))"

definition ltr_notification_on :: "ltlib \<Rightarrow> ltr_comm \<Rightarrow> linuxtrack_state_type \<times> ltr_comm" where
  "ltr_notification_on s com = (if \<not> connected s then (err_NOT_INITIALIZED, com) else (LINUXTRACK_OK, com\<lparr>com_notify := True\<rparr>))"

definition ltr_get_notify_pipe :: "ltlib \<Rightarrow> int" where
  "ltr_get_notify_pipe s = notify_pipe s"

definition ltr_shutdown ::
  "os_env \<Rightarrow> pid \<Rightarrow> ltlib \<Rightarrow> ltr_comm \<Rightarrow> os \<Rightarrow> (linuxtrack_state_type \<times> ltlib \<times> ltr_comm \<times> os) option" where
  "ltr_shutdown E p s com w =
     (if \<not> connected s then Some (err_NOT_INITIALIZED, s, com, w)
      else do {
        let com = com\<lparr>com_cmd := STOP_CMD\<rparr>;
        (_, m, w) \<leftarrow> ltr_int_unmap_file E p (mmm s) w;
        Some (LINUXTRACK_OK, s\<lparr>lt_initialized := False, mmm := m\<rparr>, com, w)
      })"

text \<open>The result is a state number.\<close>

definition ltr_get_tracking_state :: "ltlib \<Rightarrow> ltr_comm \<Rightarrow> int" where
  "ltr_get_tracking_state s com =
     (if \<not> connected s then state_num err_NOT_INITIALIZED
      else if preparing_start com then state_num INITIALIZING
      else com_state com)"

subsection \<open>Start\<close>

text \<open>What becomes of the server process: it runs, its \<open>execv\<close> failed (the child then marks the shared
  state and leaves), or \<open>fork\<close> itself failed, which \<open>ltr_int_fork_child\<close> does not tell its caller.\<close>

datatype fork_result = ServerRuns | ExecFailed | ForkFailed

record lt_env =
  lt_os :: os_env
  lt_app_path :: "string \<Rightarrow> string"
  lt_fork :: fork_result
  lt_pipe :: "(int \<times> int) option"

definition ltr_int_sanitize_name :: "string \<Rightarrow> string" where
  "ltr_int_sanitize_name name = takeWhile (\<lambda>c. c \<notin> set [CHR 0x0D, CHR 0x0A]) name"

text \<open>The arguments of the server: path, section, name of the shared file, process, and the two ends of
  the notification pipe.\<close>

type_synonym server_args = "string \<times> string \<times> string option \<times> pid \<times> int \<times> int"

definition make_mmap :: "os_env \<Rightarrow> pid \<Rightarrow> ltlib \<Rightarrow> os \<Rightarrow> int \<times> ltlib \<times> os" where
  "make_mmap E p s w =
     (case ltr_int_mmap_file_exclusive E p 40 (mmm s) w of (ok, m, w) \<Rightarrow>
        (if \<not> ok then - 1 else 0, s\<lparr>mmm := m\<rparr>, w))"

definition ltr_int_init_helper ::
  "lt_env \<Rightarrow> pid \<Rightarrow> string option \<Rightarrow> bool \<Rightarrow> ltlib \<Rightarrow> ltr_comm \<Rightarrow> os \<Rightarrow>
   string option \<times> server_args option \<times> ltlib \<times> ltr_comm \<times> os" where
  "ltr_int_init_helper E p cust_section standalone s com w =
     (if lt_initialized s then (mm_fname (mmm s), None, s, com, w)
      else case make_mmap (lt_os E) p s w of (res, s, w) \<Rightarrow>
        if res \<noteq> 0 then (None, None, s, com, w)
        else
          let com = zero_comm\<lparr>com_state := state_num INITIALIZING, preparing_start := True\<rparr>;
              s = s\<lparr>lt_initialized := True\<rparr>;
              fd = (case lt_pipe E of None \<Rightarrow> (- 1, - 1) | Some fd \<Rightarrow> fd);
              server = lt_app_path E ''/ltr_server1'';
              section = ltr_int_sanitize_name (case cust_section of None \<Rightarrow> ''Default'' | Some n \<Rightarrow> n);
              args = (server, section, mm_fname (mmm s), p, fst fd, snd fd);
              com = (if standalone \<and> lt_fork E = ExecFailed then com\<lparr>com_state := state_num err_NOT_INITIALIZED\<rparr> else com);
              w = (if standalone then sys_close p (snd fd) w else w);
              s = (if standalone then s\<lparr>notify_pipe := fst fd\<rparr> else s);
              com = snd (ltr_wakeup s com)
          in (mm_fname (mmm s), if standalone then Some args else None, s, com, w))"

definition ltr_init ::
  "lt_env \<Rightarrow> pid \<Rightarrow> string option \<Rightarrow> ltlib \<Rightarrow> ltr_comm \<Rightarrow> os \<Rightarrow> int \<times> server_args option \<times> ltlib \<times> ltr_comm \<times> os" where
  "ltr_init E p cust_section s com w =
     (case ltr_int_init_helper E p cust_section True s com w of (name, args, s, com, w) \<Rightarrow>
        (if name \<noteq> None then ltr_get_tracking_state s com else state_num INITIALIZING, args, s, com, w))"

subsection \<open>Poses\<close>

text \<open>The output variables of \<open>ltr_get_pose\<close> and \<open>ltr_get_abs_pose\<close>.\<close>

record pose_out =
  o_heading :: cflt
  o_pitch :: cflt
  o_roll :: cflt
  o_tx :: cflt
  o_ty :: cflt
  o_tz :: cflt
  o_counter :: u32

definition zero_out :: pose_out where
  "zero_out = \<lparr>o_heading = Fin 0, o_pitch = Fin 0, o_roll = Fin 0, o_tx = Fin 0, o_ty = Fin 0, o_tz = Fin 0, o_counter = 0\<rparr>"

definition ltr_get_pose :: "ltlib \<Rightarrow> ltr_comm \<Rightarrow> pose_out \<Rightarrow> int \<times> pose_out" where
  "ltr_get_pose s com out =
     (if \<not> connected s then (0, out)
      else if com_state com \<ge> state_num LINUXTRACK_OK then
        let p = fp_pose (full_pose com);
            passed_counter = o_counter out;
            out = \<lparr>o_heading = yaw p, o_pitch = pitch p, o_roll = roll p, o_tx = tx p, o_ty = ty p, o_tz = tz p,
              o_counter = counter p\<rparr>
        in (if passed_counter \<noteq> o_counter out then 1 else 0, out)
      else (0, zero_out))"

definition ltr_get_abs_pose :: "ltlib \<Rightarrow> ltr_comm \<Rightarrow> pose_out \<Rightarrow> int \<times> pose_out" where
  "ltr_get_abs_pose s com out =
     (if \<not> connected s then (0, out)
      else if com_state com \<ge> state_num LINUXTRACK_OK then
        let p = fp_abs_pose (full_pose com);
            passed_counter = o_counter out;
            out = \<lparr>o_heading = abs_yaw p, o_pitch = abs_pitch p, o_roll = abs_roll p, o_tx = abs_tx p, o_ty = abs_ty p, o_tz = abs_tz p,
              o_counter = counter (fp_pose (full_pose com))\<rparr>
        in (if passed_counter \<noteq> o_counter out then 1 else 0, out)
      else (0, zero_out))"

text \<open>Copying of the blobs: float by float from index \<open>i\<close> on, \<open>n\<close> of them.\<close>

fun copy_floats :: "cflt list \<Rightarrow> cflt list \<Rightarrow> nat \<Rightarrow> nat \<Rightarrow> cflt list option" where
  "copy_floats dst src i 0 = Some dst"
| "copy_floats dst src i (Suc n) = do {
     b \<leftarrow> rd src i;
     dst \<leftarrow> wr dst i b;
     copy_floats dst src (i + 1) n
   }"

text \<open>The result, the pose, the caller's array and \<open>blobs_read\<close>.\<close>

definition ltr_get_pose_full ::
  "ltlib \<Rightarrow> ltr_comm \<Rightarrow> linuxtrack_pose_t \<Rightarrow> cflt list \<Rightarrow> int \<Rightarrow> int \<Rightarrow>
   (int \<times> linuxtrack_pose_t \<times> cflt list \<times> int) option" where
  "ltr_get_pose_full s com pose bl n_blobs blobs_read =
     (if \<not> connected s then Some (0, pose, bl, blobs_read)
      else if com_state com \<ge> state_num LINUXTRACK_OK then do {
        let prev_counter = counter pose;
        let pose = fp_pose (full_pose com);
        let avail = int_of_u32 (fp_blobs (full_pose com));
        let blobs_read = (if n_blobs < avail then n_blobs else avail);
        bl \<leftarrow> copy_floats bl (blob_list (full_pose com)) 0 (nat (blobs_read * int BLOB_ELEMENTS));
        Some (if prev_counter \<noteq> counter pose then 1 else 0, pose, bl, blobs_read)
      }
      else Some (0, zero_pose, bl, 0))"

subsection \<open>Explanations\<close>

definition ltr_explain :: "linuxtrack_state_type \<Rightarrow> string option" where
  "ltr_explain status = (case status of
     INITIALIZING \<Rightarrow> Some ''Linuxtrack is initializing.''
   | RUNNING \<Rightarrow> Some ''Linuxtrack is running.''
   | PAUSED \<Rightarrow> Some ''Linuxtrack is paused.''
   | STOPPED \<Rightarrow> Some ''Linuxtrack is stopped.''
   | err_NOT_INITIALIZED \<Rightarrow> Some ''Linuxtrack function was called without proper initialization.''
   | err_SYMBOL_LOOKUP \<Rightarrow> Some ''Internal error (symbol lookup). Please file an issue at Linuxtrack project page.''
   | err_NO_CONFIG \<Rightarrow> Some ''Linuxtrack config not found. If you have Linuxtrack, run ltr_gui and set it up first.''
   | err_NOT_FOUND \<Rightarrow> Some (''Linuxtrack was removed or relocated. If you relocated it,'' @ [CHR 0x0A] @
       ''run ltr_gui from the new location, save preferences and try again.'')
   | err_PROCESSING_FRAME \<Rightarrow> Some ''Internal error (frame processing). Please file an issue at Linuxtrack project page.''
   | _ \<Rightarrow> None)"


definition ltr_wait :: "int \<Rightarrow> bool \<Rightarrow> int" where
  "ltr_wait fds revents_hup = fst (ltr_int_pipe_poll fds revents_hup)"

subsection \<open>Reading the blobs\<close>

lemma copy_floats_ok:
  "i + n \<le> length src \<Longrightarrow> i + n \<le> length dst \<Longrightarrow>
   copy_floats dst src i n = Some (take i dst @ take n (drop i src) @ drop (i + n) dst)"
proof (induction n arbitrary: dst i)
  case (Suc n)
  then have i: "i < length src" "i < length dst" by simp_all
  have "copy_floats dst src i (Suc n) = copy_floats (dst[i := src ! i]) src (i + 1) n"
    using i by (simp add: rd_in wr_in)
  also have "\<dots> = Some (take (i + 1) (dst[i := src ! i]) @ take n (drop (i + 1) src) @ drop (i + 1 + n) (dst[i := src ! i]))"
    using Suc by simp
  finally show ?case
    using i by (simp add: take_Suc_conv_app_nth drop_update_cancel Cons_nth_drop_Suc [symmetric])
qed simp

lemma copy_floats_out: "length src < i + n \<or> length dst < i + n \<Longrightarrow> 0 < n \<Longrightarrow> copy_floats dst src i n = None"
proof (induction n arbitrary: dst i)
  case (Suc n)
  show ?case
  proof (cases "n = 0")
    case True
    with Suc.prems show ?thesis by (auto simp: rd_def wr_def)
  next
    case False
    have "copy_floats (dst[i := b]) src (i + 1) n = None" for b
      using Suc.prems False by (intro Suc.IH) auto
    then show ?thesis by (auto simp: wr_def bind_eq_None_conv)
  qed
qed simp

text \<open>\<open>ltr_get_pose_full\<close> on a connected client whose state is no error: it delivers the pose, the
  smaller of the caller's and the server's number of blobs, the coordinates of that many blobs from the
  front of the array, leaves the rest of the caller's array alone, and flags exactly a change of
  the counter; it stays inside both arrays if and only if that many blobs fit into both.\<close>

theorem pose_full_copies_blobs:
  assumes "connected s" and "0 \<le> com_state com" and "k = min n_blobs (int_of_u32 (fp_blobs (full_pose com)))"
  shows "ltr_get_pose_full s com pose bl n_blobs br =
    (if k \<le> 0 \<or> 3 * nat k \<le> length (blob_list (full_pose com)) \<and> 3 * nat k \<le> length bl
     then Some (if counter pose \<noteq> counter (fp_pose (full_pose com)) then 1 else 0, fp_pose (full_pose com),
       take (3 * nat k) (blob_list (full_pose com)) @ drop (3 * nat k) bl, k)
     else None)"
proof -
  let ?src = "blob_list (full_pose com)"
  have k: "(if n_blobs < int_of_u32 (fp_blobs (full_pose com)) then n_blobs else int_of_u32 (fp_blobs (full_pose com))) = k"
    using assms(3) by (simp add: min_def)
  have n: "nat (k * int BLOB_ELEMENTS) = 3 * nat k" by (simp add: BLOB_ELEMENTS_def nat_mult_distrib)
  have "copy_floats bl ?src 0 (3 * nat k) =
      (if k \<le> 0 \<or> 3 * nat k \<le> length ?src \<and> 3 * nat k \<le> length bl then Some (take (3 * nat k) ?src @ drop (3 * nat k) bl) else None)"
    using copy_floats_ok [of 0 "3 * nat k" ?src bl] copy_floats_out [of ?src 0 "3 * nat k" bl] by (cases "k \<le> 0") auto
  then show ?thesis
    using assms(1,2) by (simp add: ltr_get_pose_full_def k n Let_def)
qed

definition running_client :: ltlib where
  "running_client = ltlib_init\<lparr>lt_initialized := True, mmm := mmap_init\<lparr>mm_data := Mapped 9\<rparr>\<rparr>"

definition two_blobs :: ltr_comm where
  "two_blobs = zero_comm\<lparr>com_state := 2, full_pose := (full_pose zero_comm)\<lparr>fp_blobs := 2,
     blob_list := [Fin 1, Fin 2, Fin 3, Fin 4, Fin 5, Fin 6]\<rparr>\<rparr>"

theorem pose_full_copies_blobs_witness:
  "ltr_get_pose_full running_client two_blobs zero_pose [Fin 9, Fin 9, Fin 9, Fin 9] 1 0 =
     Some (0, zero_pose, [Fin 1, Fin 2, Fin 3, Fin 9], 1)"
  using pose_full_copies_blobs [of running_client two_blobs 1 1 zero_pose "[Fin 9, Fin 9, Fin 9, Fin 9]" 0]
  by (simp add: connected_def running_client_def two_blobs_def zero_comm_def zero_pose_def int_of_u32_def)

subsection \<open>A server that does not start\<close>

text \<open>What an application can do while it waits.\<close>

datatype client_call = CallSuspend | CallWakeup | CallRecenter | CallNotificationOn | CallRequestFrames

fun client_do :: "ltlib \<Rightarrow> ltr_comm \<Rightarrow> client_call \<Rightarrow> ltr_comm" where
  "client_do s com CallSuspend = snd (ltr_suspend s com)"
| "client_do s com CallWakeup = snd (ltr_wakeup s com)"
| "client_do s com CallRecenter = snd (ltr_recenter s com)"
| "client_do s com CallNotificationOn = snd (ltr_notification_on s com)"
| "client_do s com CallRequestFrames = snd (ltr_request_frames s com)"

lemma client_do_state: "com_state (client_do s com c) = com_state com" "preparing_start (client_do s com c) = preparing_start com"
  by (cases c; simp add: ltr_suspend_def ltr_wakeup_def ltr_recenter_def ltr_notification_on_def ltr_request_frames_def send_cmd_def)+

lemma client_fold_state:
  "com_state (fold (\<lambda>c com. client_do s com c) cs com) = com_state com"
  "preparing_start (fold (\<lambda>c com. client_do s com c) cs com) = preparing_start com"
  by (induction cs arbitrary: com) (simp_all add: client_do_state)

text \<open>When the server program cannot be executed, the child leaves the error state in the shared
  structure, but no application sees it: \<open>ltr_init\<close> reports \<open>INITIALIZING\<close>, and so does
  \<open>ltr_get_tracking_state\<close> after any sequence of calls the application makes, and another \<open>ltr_init\<close>.\<close>

theorem failed_start_unreported:
  assumes "lt_fork E = ExecFailed" and "\<not> lt_initialized s"
    and "ltr_int_mmap_file_exclusive (lt_os E) p 40 (mmm s) w = (True, m, w1)" and "mm_data m \<noteq> Unmapped" and "mm_fname m \<noteq> None"
  shows "\<exists>args s' com' w'. ltr_init E p sec s com w = (state_num INITIALIZING, args, s', com', w') \<and>
    (\<forall>cs. let com'' = fold (\<lambda>c com. client_do s' com c) cs com' in
       com_state com'' = state_num err_NOT_INITIALIZED \<and> ltr_get_tracking_state s' com'' = state_num INITIALIZING \<and>
       fst (ltr_init E p sec s' com'' w') = state_num INITIALIZING)"
proof -
  define s' where "s' = s\<lparr>mmm := m, lt_initialized := True, notify_pipe := fst (case lt_pipe E of None \<Rightarrow> (- 1, - 1) | Some fd \<Rightarrow> fd)\<rparr>"
  have c: "connected s'" "lt_initialized s'" "mm_fname (mmm s') \<noteq> None" using assms(4,5) by (simp_all add: connected_def s'_def)
  obtain args com' w' where i: "ltr_int_init_helper E p sec True s com w = (mm_fname m, args, s', com', w')"
    and st: "com_state com' = state_num err_NOT_INITIALIZED" "preparing_start com'"
    using assms by (simp add: ltr_int_init_helper_def make_mmap_def s'_def ltr_wakeup_def send_cmd_def connected_def Let_def)
  have g: "ltr_get_tracking_state s' x = state_num INITIALIZING" if "preparing_start x" for x
    using c(1) that by (simp add: ltr_get_tracking_state_def)
  have "ltr_init E p sec s com w = (state_num INITIALIZING, args, s', com', w')"
    using i assms(5) g st(2) by (simp add: ltr_init_def)
  moreover have "fst (ltr_init E p sec s' x w') = state_num INITIALIZING" if "preparing_start x" for x
    using c(2,3) g [OF that] by (simp add: ltr_init_def ltr_int_init_helper_def)
  ultimately show ?thesis using st g by (auto simp: client_fold_state Let_def)
qed

theorem failed_start_unreported_witness:
  "\<exists>args s' com' w'. ltr_init \<lparr>lt_os = calm, lt_app_path = id, lt_fork = ExecFailed, lt_pipe = None\<rparr> 1 None ltlib_init zero_comm os_empty =
      (state_num INITIALIZING, args, s', com', w') \<and> com_state com' = - 1 \<and>
      ltr_get_tracking_state s' (client_do s' com' CallWakeup) = state_num INITIALIZING"
proof -
  let ?E = "\<lparr>lt_os = calm, lt_app_path = id, lt_fork = ExecFailed, lt_pipe = None\<rparr>"
  obtain m w1 where m: "ltr_int_mmap_file_exclusive calm 1 40 mmap_init os_empty = (True, m, w1)" "mm_data m \<noteq> Unmapped" "mm_fname m \<noteq> None"
    by (simp add: ltr_int_mmap_file_exclusive_def ltr_int_open_tmp_file_def sys_mkstemp_def os_empty_def new_fd_def lowest_fd_def
        fds_of_def Let_def ltr_int_mmap_def sys_fstat_def sys_ftruncate_def sys_mmap_def ofile_at_def add_node_def tick_def)
  from failed_start_unreported [of ?E ltlib_init 1 os_empty m w1 None zero_comm] m obtain args s' com' w' where
    r: "ltr_init ?E 1 None ltlib_init zero_comm os_empty = (state_num INITIALIZING, args, s', com', w')"
    and a: "\<forall>cs. let com'' = fold (\<lambda>c com. client_do s' com c) cs com' in
       com_state com'' = state_num err_NOT_INITIALIZED \<and> ltr_get_tracking_state s' com'' = state_num INITIALIZING \<and>
       fst (ltr_init ?E 1 None s' com'' w') = state_num INITIALIZING"
    by (auto simp: ltlib_init_def)
  from a [rule_format, of "[]"] a [rule_format, of "[CallWakeup]"] r show ?thesis by (auto simp: Let_def)
qed

end
