(* ===== verification/Frames.thy ===== *)
theory Frames
  imports Ltlib
begin

text \<open>
  The camera picture on its way to an application: \<open>publish_frame\<close> of \<open>src/ltlib_int.c\<close> writes it to a shared
  file with three buffers, \<open>ltr_get_frame\<close> of \<open>src/ltlib.c\<close> reads it in the application. The file starts with
  three 32-bit numbers: the index of the buffer that is complete, the width and the height. Bytes of
  a mapping are bytes of the inode; an access outside the mapping or past the end of the file has no
  result. A pointer to a picture is a place in a mapping, a buffer of somebody else, or null. The
  callback and start-up functions of \<open>src/ltlib_int.c\<close> are here too.
\<close>

definition FRAME_BUFFERS :: int where "FRAME_BUFFERS = 3"
definition extra_data :: nat where "extra_data = 12"

subsection \<open>Access to mapped files\<close>

definition mem_read :: "os \<Rightarrow> mmap_s \<Rightarrow> nat \<Rightarrow> nat \<Rightarrow> bytes option" where
  "mem_read w m off n = (case mm_data m of
     Mapped i \<Rightarrow> (case inodes w i of
         Some (RegFile bs) \<Rightarrow> if off + n \<le> mm_size m \<and> off + n \<le> length bs then Some (take n (drop off bs)) else None
       | _ \<Rightarrow> None)
   | _ \<Rightarrow> None)"

definition mem_write :: "os \<Rightarrow> mmap_s \<Rightarrow> nat \<Rightarrow> bytes \<Rightarrow> os option" where
  "mem_write w m off d = (case mm_data m of
     Mapped i \<Rightarrow> (case inodes w i of
         Some (RegFile bs) \<Rightarrow> if off + length d \<le> mm_size m \<and> off + length d \<le> length bs
           then Some (w\<lparr>inodes := (inodes w)(i \<mapsto> RegFile (take off bs @ d @ drop (off + length d) bs))\<rparr>) else None
       | _ \<Rightarrow> None)
   | _ \<Rightarrow> None)"

text \<open>A \<open>uint32_t\<close> in memory is little endian, as on the machines the program runs on.\<close>

definition le32 :: "bytes \<Rightarrow> u32" where
  "le32 d = (case d of [a, b, c, e] \<Rightarrow> u32_of_u8 a OR push_bit 8 (u32_of_u8 b) OR push_bit 16 (u32_of_u8 c) OR push_bit 24 (u32_of_u8 e)
     | _ \<Rightarrow> 0)"

definition to_le32 :: "u32 \<Rightarrow> bytes" where
  "to_le32 x = map (\<lambda>k. u8_of_u32 (drop_bit (8 * k) x)) [0, 1, 2, 3]"

definition rd32 :: "os \<Rightarrow> mmap_s \<Rightarrow> nat \<Rightarrow> u32 option" where
  "rd32 w m k = map_option le32 (mem_read w m (4 * k) 4)"

definition wr32 :: "os \<Rightarrow> mmap_s \<Rightarrow> nat \<Rightarrow> u32 \<Rightarrow> os option" where
  "wr32 w m k x = mem_write w m (4 * k) (to_le32 x)"

text \<open>A byte count computed in an \<open>int\<close> and passed as \<open>size_t\<close>: a negative one becomes huge.\<close>

definition size_of_int :: "int \<Rightarrow> nat" where
  "size_of_int i = nat (i mod 2 ^ 64)"

subsection \<open>The server side: \<open>publish_frame\<close>\<close>

datatype bm_ptr = BmNull | BmMapped ino nat | BmOther bytes

record pframe =
  pf_width :: u32
  pf_height :: u32
  pf_bitmap :: bm_ptr

record pubst =
  publish_frames :: bool
  active_frame :: int
  current_w :: u32
  current_h :: u32
  pub_mmap :: mmap_s
  data_size :: int

definition pub_init :: pubst where
  "pub_init = \<lparr>publish_frames = True, active_frame = 0, current_w = 0, current_h = 0, pub_mmap = mmap_init, data_size = 0\<rparr>"

definition inc_frame_index :: "int \<Rightarrow> int" where
  "inc_frame_index current = (let n = current + 1 in sgn n * (\<bar>n\<bar> mod FRAME_BUFFERS))"

definition frames_file :: string where "frames_file = ''frames.dat''"

text \<open>The bytes a picture pointer refers to: those of a mapping must lie in the current one.\<close>

definition bm_bytes :: "os \<Rightarrow> mmap_s \<Rightarrow> bm_ptr \<Rightarrow> nat \<Rightarrow> bytes option" where
  "bm_bytes w m p n = (case p of
     BmNull \<Rightarrow> None
   | BmMapped i off \<Rightarrow> if mm_data m = Mapped i then mem_read w m off n else None
   | BmOther bs \<Rightarrow> if n \<le> length bs then Some (take n bs) else None)"

text \<open>The new size: remap when the picture has grown. The result says whether \<open>publish_frame\<close> goes on.\<close>

definition pub_resize ::
  "os_env \<Rightarrow> (string \<Rightarrow> string) \<Rightarrow> pid \<Rightarrow> pframe \<Rightarrow> pubst \<Rightarrow> os \<Rightarrow> (bool \<times> pubst \<times> os) option" where
  "pub_resize E D p f s w =
     (if pf_width f \<noteq> current_w s \<or> pf_height f \<noteq> current_h s then do {
        let s = s\<lparr>active_frame := 0\<rparr>;
        (ok, s, w) \<leftarrow>
          (if pf_width f * pf_height f > current_w s * current_h s then do {
             (_, m, w) \<leftarrow> ltr_int_unmap_file E p (pub_mmap s) w;
             let s = s\<lparr>pub_mmap := m, data_size := int_of_u32 (word_of_int FRAME_BUFFERS * pf_width f * pf_height f + of_nat extra_data)\<rparr>;
             case ltr_int_mmap_file E p (D frames_file) (size_of_int (data_size s)) (pub_mmap s) w of
               (ok, m, w) \<Rightarrow> Some (ok, s\<lparr>pub_mmap := m\<rparr>, w)
           } else Some (True, s, w));
        if \<not> ok then Some (False, s, w)
        else do {
          let s = s\<lparr>current_w := pf_width f, current_h := pf_height f\<rparr>;
          w \<leftarrow> mem_write w (pub_mmap s) 0 [0];
          Some (True, s, w)
        }
      } else Some (True, s, w))"

text \<open>The three cases of the picture: drawn into the current buffer, none yet, drawn elsewhere.\<close>

definition pub_store :: "mmap_s \<Rightarrow> ino \<Rightarrow> nat \<Rightarrow> int \<Rightarrow> pframe \<Rightarrow> pubst \<Rightarrow> os \<Rightarrow> (pframe \<times> pubst \<times> os) option" where
  "pub_store m i n current_index f s w =
     (let current_buf = extra_data + nat current_index * n in
      if pf_bitmap f = BmMapped i current_buf then do {
        let next_buf = extra_data + nat (inc_frame_index current_index) * n;
        w \<leftarrow> wr32 w m 0 (word_of_int current_index);
        w \<leftarrow> mem_write w m next_buf (replicate n 0);
        Some (f\<lparr>pf_bitmap := BmMapped i next_buf\<rparr>, s, w)
      }
      else if pf_bitmap f = BmNull then do {
        w \<leftarrow> wr32 w m 0 0;
        w \<leftarrow> mem_write w m extra_data (replicate n 0);
        w \<leftarrow> mem_write w m (extra_data + n) (replicate n 0);
        Some (f\<lparr>pf_bitmap := BmMapped i (extra_data + n)\<rparr>, s, w)
      }
      else do {
        d \<leftarrow> bm_bytes w m (pf_bitmap f) (unat (current_w s * current_h s));
        w \<leftarrow> mem_write w m current_buf d;
        w \<leftarrow> wr32 w m 0 (word_of_int current_index);
        Some (f, s, w)
      })"

definition publish_frame ::
  "os_env \<Rightarrow> (string \<Rightarrow> string) \<Rightarrow> pid \<Rightarrow> pframe \<Rightarrow> pubst \<Rightarrow> os \<Rightarrow> (pframe \<times> pubst \<times> os) option" where
  "publish_frame E D p f s w = do {
     (go, s, w) \<leftarrow> pub_resize E D p f s w;
     if \<not> go then Some (f, s, w)
     else do {
       let m = pub_mmap s;
       i \<leftarrow> (case mm_data m of Mapped i \<Rightarrow> Some i | _ \<Rightarrow> None);
       flag \<leftarrow> rd32 w m 0;
       let current_index = inc_frame_index (int_of_u32 flag);
       _ \<leftarrow> (if int_of_u32 flag = 2 ^ 31 - 1 \<or> current_index < 0 then None else Some ());
       w \<leftarrow> wr32 w m 1 (pf_width f);
       w \<leftarrow> wr32 w m 2 (pf_height f);
       pub_store m i (unat (pf_width f * pf_height f)) current_index f s w
     }
   }"

definition ltr_int_publish_frames_cmd :: "pubst \<Rightarrow> pubst" where
  "ltr_int_publish_frames_cmd s = s\<lparr>publish_frames := True\<rparr>"

subsection \<open>The client side: \<open>ltr_get_frame\<close>\<close>

text \<open>\<open>mmap\<close> is the client's own mapping of the file; the results are the return value, the two sizes and the
  caller's buffer. The product of the sizes is one of \<open>int\<close>s.\<close>

definition get_frame_map ::
  "os_env \<Rightarrow> (string \<Rightarrow> string) \<Rightarrow> pid \<Rightarrow> u32 \<Rightarrow> u32 \<Rightarrow> mmap_s \<Rightarrow> os \<Rightarrow> (bool \<times> mmap_s \<times> os) option" where
  "get_frame_map E D p p_w p_h m w =
     (if unat (p_w * p_h) > mm_size m then do {
        (_, m, w) \<leftarrow> ltr_int_unmap_file E p m w;
        let sz = unat (word_of_int FRAME_BUFFERS * p_w * p_h) + extra_data;
        Some (ltr_int_mmap_file E p (D frames_file) (size_of_int (int_of_u32 (of_nat sz))) m w)
      } else Some (True, m, w))"

definition ltr_get_frame ::
  "os_env \<Rightarrow> (string \<Rightarrow> string) \<Rightarrow> pid \<Rightarrow> ltlib \<Rightarrow> ltr_comm \<Rightarrow> int \<Rightarrow> int \<Rightarrow> bytes \<Rightarrow> mmap_s \<Rightarrow> os \<Rightarrow>
   (int \<times> int \<times> int \<times> bytes \<times> mmap_s \<times> os) option" where
  "ltr_get_frame E D p s com req_width req_height buffer m w =
     (if \<not> connected s then Some (0, req_width, req_height, buffer, m, w)
      else if com_state com < state_num LINUXTRACK_OK then Some (0, req_width, req_height, buffer, m, w)
      else do {
        let p_w = resolution_x (fp_pose (full_pose com));
        let p_h = resolution_y (fp_pose (full_pose com));
        (ok, m, w) \<leftarrow> get_frame_map E D p p_w p_h m w;
        if \<not> ok then Some (0, req_width, req_height, buffer, m, w)
        else if mm_data m = Unmapped then Some (0, req_width, req_height, buffer, m, w)
        else do {
          rw \<leftarrow> rd32 w m 1;
          rh \<leftarrow> rd32 w m 2;
          flag \<leftarrow> rd32 w m 0;
          let req_width = int_of_u32 rw;
          let req_height = int_of_u32 rh;
          let prod = req_width * req_height;
          if prod < - (2 ^ 31) \<or> 2 ^ 31 \<le> prod then None
          else do {
            let frame_size = u32_of_int prod;
            if p_w * p_h < frame_size then Some (0, req_width, req_height, buffer, m, w)
            else if length buffer < unat frame_size then Some (0, req_width, req_height, buffer, m, w)
            else do {
              d \<leftarrow> mem_read w m (extra_data + unat (flag * frame_size)) (unat frame_size);
              Some (1, req_width, req_height, d @ drop (unat frame_size) buffer, m, w)
            }
          }
        }
      })"


subsection \<open>Writing to and reading from a mapped file\<close>

definition splice :: "bytes \<Rightarrow> nat \<Rightarrow> bytes \<Rightarrow> bytes" where
  "splice bs off d = take off bs @ d @ drop (off + length d) bs"

definition set_bytes :: "os \<Rightarrow> ino \<Rightarrow> bytes \<Rightarrow> os" where
  "set_bytes w i bs = w\<lparr>inodes := (inodes w)(i \<mapsto> RegFile bs)\<rparr>"

text \<open>The mapping \<open>m\<close> shows the whole of inode \<open>i\<close>, whose bytes are \<open>bs\<close>.\<close>

definition maps :: "os \<Rightarrow> mmap_s \<Rightarrow> ino \<Rightarrow> bytes \<Rightarrow> bool" where
  "maps w m i bs \<longleftrightarrow> mm_data m = Mapped i \<and> mm_size m = length bs \<and> inodes w i = Some (RegFile bs)"

lemma length_splice [simp]: "off + length d \<le> length bs \<Longrightarrow> length (splice bs off d) = length bs"
  by (simp add: splice_def)

lemma splice_same: "off + length d \<le> length bs \<Longrightarrow> take (length d) (drop off (splice bs off d)) = d"
  by (simp add: splice_def)

lemma splice_other:
  assumes "off + length d \<le> length bs" and "o2 + n \<le> off \<or> off + length d \<le> o2"
  shows "take n (drop o2 (splice bs off d)) = take n (drop o2 bs)"
proof (rule nth_equalityI)
  show "length (take n (drop o2 (splice bs off d))) = length (take n (drop o2 bs))"
    using assms(1) by simp
  fix k assume "k < length (take n (drop o2 (splice bs off d)))"
  then show "take n (drop o2 (splice bs off d)) ! k = take n (drop o2 bs) ! k"
    using assms by (auto simp: splice_def nth_append)
qed

lemma mem_write_maps:
  "maps w m i bs \<Longrightarrow> off + length d \<le> length bs \<Longrightarrow> mem_write w m off d = Some (set_bytes w i (splice bs off d))"
  by (simp add: mem_write_def maps_def set_bytes_def splice_def)

lemma mem_read_maps: "maps w m i bs \<Longrightarrow> off + n \<le> length bs \<Longrightarrow> mem_read w m off n = Some (take n (drop off bs))"
  by (simp add: mem_read_def maps_def)

lemma maps_set_bytes: "maps w m i bs \<Longrightarrow> length bs' = length bs \<Longrightarrow> maps (set_bytes w i bs') m i bs'"
  by (simp add: maps_def set_bytes_def)

lemma set_bytes_set_bytes [simp]: "set_bytes (set_bytes w i b) i b' = set_bytes w i b'"
  by (simp add: set_bytes_def)

lemma length_to_le32 [simp]: "length (to_le32 x) = 4"
  by (simp add: to_le32_def)

lemma le32_to_le32 [simp]: "le32 (to_le32 x) = x"
  by (rule bit_word_eqI)
    (auto simp: le32_def to_le32_def bit_simps u8_of_u32_def u32_of_u8_def bit_ucast_iff
      intro: ccontr dest: bit_imp_le_length)

text \<open>The contents of the file: header and three buffers of \<open>n\<close> bytes.\<close>

definition hdr :: "bytes \<Rightarrow> nat \<Rightarrow> u32" where
  "hdr bs k = le32 (take 4 (drop (4 * k) bs))"

definition buf :: "nat \<Rightarrow> bytes \<Rightarrow> nat \<Rightarrow> bytes" where
  "buf n bs k = take n (drop (12 + k * n) bs)"

lemma hdr_splice:
  assumes "k < 3" "length bs = 12 + 3 * n"
  shows "j < 3 \<Longrightarrow> hdr (splice bs (4 * j) (to_le32 x)) k = (if k = j then x else hdr bs k)"
    and "length d = n \<Longrightarrow> j < 3 \<Longrightarrow> hdr (splice bs (12 + j * n) d) k = hdr bs k"
proof -
  assume j: "j < 3"
  show "hdr (splice bs (4 * j) (to_le32 x)) k = (if k = j then x else hdr bs k)"
  proof (cases "k = j")
    case True
    then show ?thesis using splice_same [of "4 * j" "to_le32 x" bs] j assms(2) by (simp add: hdr_def)
  next
    case False
    then have "4 * k + 4 \<le> 4 * j \<or> 4 * j + 4 \<le> 4 * k" by linarith
    then show ?thesis using splice_other [of "4 * j" "to_le32 x" bs "4 * k" 4] False j assms(2) by (simp add: hdr_def)
  qed
next
  assume d: "length d = n" "j < 3"
  then have "j * n \<le> 2 * n" by simp
  then show "hdr (splice bs (12 + j * n) d) k = hdr bs k"
    using splice_other [of "12 + j * n" d bs "4 * k" 4] d assms by (simp add: hdr_def)
qed

lemma buf_splice:
  assumes "k < 3" "length bs = 12 + 3 * n"
  shows "j < 3 \<Longrightarrow> buf n (splice bs (4 * j) (to_le32 x)) k = buf n bs k"
    and "length d = n \<Longrightarrow> j < 3 \<Longrightarrow> buf n (splice bs (12 + j * n) d) k = (if k = j then d else buf n bs k)"
proof -
  assume j: "j < 3"
  then show "buf n (splice bs (4 * j) (to_le32 x)) k = buf n bs k"
    using splice_other [of "4 * j" "to_le32 x" bs "12 + k * n" n] assms by (simp add: buf_def)
next
  assume d: "length d = n" "j < 3"
  then have j: "j * n \<le> 2 * n" by simp
  show "buf n (splice bs (12 + j * n) d) k = (if k = j then d else buf n bs k)"
  proof (cases "k = j")
    case True
    then show ?thesis using splice_same [of "12 + j * n" d bs] d j assms(2) by (simp add: buf_def)
  next
    case False
    then have "k + 1 \<le> j \<or> j + 1 \<le> k" by linarith
    then have "(k + 1) * n \<le> j * n \<or> (j + 1) * n \<le> k * n" using mult_le_mono1 by blast
    then have "12 + k * n + n \<le> 12 + j * n \<or> 12 + j * n + length d \<le> 12 + k * n" using d by auto
    then show ?thesis using splice_other [of "12 + j * n" d bs "12 + k * n" n] False d j assms by (simp add: buf_def)
  qed
qed


subsection \<open>Publishing and reading at a fixed size\<close>

text \<open>The server is set up for pictures of \<open>n\<close> bytes and the size of \<open>f\<close>; buffer \<open>unat (hdr bs 0)\<close> is the
  one on show.\<close>

definition pub_ready :: "os \<Rightarrow> pubst \<Rightarrow> pframe \<Rightarrow> ino \<Rightarrow> bytes \<Rightarrow> nat \<Rightarrow> bool" where
  "pub_ready w s f i bs n \<longleftrightarrow> maps w (pub_mmap s) i bs \<and> length bs = 12 + 3 * n \<and> n = unat (pf_width f * pf_height f) \<and>
     current_w s = pf_width f \<and> current_h s = pf_height f \<and> unat (hdr bs 0) < 3"

text \<open>The buffer the next picture will be shown from.\<close>

definition next_slot :: "bytes \<Rightarrow> nat \<Rightarrow> nat" where
  "next_slot bs n = 12 + ((unat (hdr bs 0) + 1) mod 3) * n"

lemma wr32_maps: "maps w m i bs \<Longrightarrow> 12 \<le> length bs \<Longrightarrow> j < 3 \<Longrightarrow>
    wr32 w m j x = Some (set_bytes w i (splice bs (4 * j) (to_le32 x)))"
  by (simp add: wr32_def mem_write_maps)

lemma rd32_maps: "maps w m i bs \<Longrightarrow> 12 \<le> length bs \<Longrightarrow> j < 3 \<Longrightarrow> rd32 w m j = Some (hdr bs j)"
  by (simp add: rd32_def mem_read_maps hdr_def)

lemma mem_write_buf:
  assumes "maps w m i bs" "length bs = 12 + 3 * n" "j < 3" "length d = n"
  shows "mem_write w m (12 + j * n) d = Some (set_bytes w i (splice bs (12 + j * n) d))"
proof (rule mem_write_maps [OF assms(1)])
  have "j * n \<le> 2 * n" using assms(3) by simp
  with assms show "12 + j * n + length d \<le> length bs" by simp
qed

lemma length_splice32 [simp]: "12 \<le> length bs \<Longrightarrow> j < 3 \<Longrightarrow> length (splice bs (4 * j) (to_le32 x)) = length bs"
  by simp

lemma length_splice_buf [simp]: "length bs = 12 + 3 * n \<Longrightarrow> j < 3 \<Longrightarrow> length d = n \<Longrightarrow> length (splice bs (12 + j * n) d) = 12 + 3 * n"
  using mult_le_mono1 [of j 2 n] by simp

lemma flag_int: "unat x < 3 \<Longrightarrow> int_of_u32 x = int (unat x)"
  by (rule int_of_u32_small) simp

lemma inc_index: "inc_frame_index (int k) = int ((k + 1) mod 3)"
  by (simp add: inc_frame_index_def FRAME_BUFFERS_def Let_def zmod_int add.commute)

text \<open>One picture: what is on show afterwards, and the place for the next one.\<close>

definition picture :: "os \<Rightarrow> pubst \<Rightarrow> pframe \<Rightarrow> nat \<Rightarrow> bytes \<Rightarrow> bool" where
  "picture w s f n d \<longleftrightarrow> (if pf_bitmap f = BmNull then d = replicate n 0
     else bm_bytes w (pub_mmap s) (pf_bitmap f) n = Some d)"

definition bitmap_ok :: "pframe \<Rightarrow> ino \<Rightarrow> bytes \<Rightarrow> nat \<Rightarrow> bool" where
  "bitmap_ok f i bs n \<longleftrightarrow> (case pf_bitmap f of BmNull \<Rightarrow> True | BmOther d \<Rightarrow> n \<le> length d
     | BmMapped j off \<Rightarrow> j = i \<and> off = next_slot bs n)"

lemma unat_index: "c < 3 \<Longrightarrow> unat (word_of_int (int c) :: u32) = c"
  by (simp add: unat_of_nat)

text \<open>The three cases of \<open>pub_store\<close>: the new contents show the picture and keep the header.\<close>

definition stored :: "bytes \<Rightarrow> bytes \<Rightarrow> nat \<Rightarrow> nat \<Rightarrow> bytes \<Rightarrow> bool" where
  "stored bs bs' n c d \<longleftrightarrow> length bs' = 12 + 3 * n \<and> hdr bs' 1 = hdr bs 1 \<and> hdr bs' 2 = hdr bs 2 \<and>
     unat (hdr bs' 0) = c \<and> buf n bs' c = d"

lemma store_mapped:
  assumes M: "maps w m i bs" and L: "length bs = 12 + 3 * n" and c: "c < 3" and p: "pf_bitmap f = BmMapped i (12 + c * n)"
  shows "\<exists>bs'. pub_store m i n (int c) f s w =
      Some (f\<lparr>pf_bitmap := BmMapped i (12 + ((c + 1) mod 3) * n)\<rparr>, s, set_bytes w i bs') \<and> stored bs bs' n c (buf n bs c)"
proof -
  define e where "e = Suc c mod 3"
  have e: "e < 3" "c \<noteq> e" using c by (simp_all add: e_def, presburger)
  define b3 where "b3 = splice bs (4 * 0) (to_le32 (word_of_int (int c)))"
  define b4 where "b4 = splice b3 (12 + e * n) (replicate n 0)"
  have l3: "length b3 = 12 + 3 * n" using L by (simp add: b3_def)
  then have l4: "length b4 = 12 + 3 * n" using e length_splice_buf [of b3 n e "replicate n 0"] by (simp add: b4_def)
  have w3: "wr32 w m 0 (word_of_int (int c)) = Some (set_bytes w i b3)"
    using wr32_maps [OF M, of 0] L by (simp add: b3_def)
  have M3: "maps (set_bytes w i b3) m i b3" using maps_set_bytes [OF M] l3 L by simp
  have w4: "mem_write (set_bytes w i b3) m (12 + e * n) (replicate n 0) = Some (set_bytes w i b4)"
    using mem_write_buf [OF M3 l3 e(1), of "replicate n 0"] by (simp add: b4_def)
  have h4: "hdr b4 j = (if j = 0 then word_of_int (int c) else hdr bs j)" if "j < 3" for j
    using that hdr_splice(1) [of j bs n 0] hdr_splice(2) [of j b3 n "replicate n 0" e] L l3 e by (simp add: b3_def b4_def)
  have u4: "buf n b4 c = buf n bs c"
    using buf_splice(1) [of c bs n 0] buf_splice(2) [of c b3 n "replicate n 0" e] L l3 e c by (simp add: b3_def b4_def)
  have "pub_store m i n (int c) f s w = Some (f\<lparr>pf_bitmap := BmMapped i (12 + e * n)\<rparr>, s, set_bytes w i b4)"
    using p by (simp add: pub_store_def extra_data_def inc_index e_def [symmetric] w3 [simplified] w4)
  then show ?thesis using l4 h4 u4 unat_index [OF c] by (auto simp: stored_def e_def)
qed

lemma store_null:
  assumes M: "maps w m i bs" and L: "length bs = 12 + 3 * n" and p: "pf_bitmap f = BmNull"
  shows "\<exists>bs'. pub_store m i n ci f s w = Some (f\<lparr>pf_bitmap := BmMapped i (12 + n)\<rparr>, s, set_bytes w i bs') \<and>
    stored bs bs' n 0 (replicate n 0)"
proof -
  define b3 where "b3 = splice bs (4 * 0) (to_le32 0)"
  define b4 where "b4 = splice b3 (12 + 0 * n) (replicate n 0)"
  define b5 where "b5 = splice b4 (12 + 1 * n) (replicate n 0)"
  have l3: "length b3 = 12 + 3 * n" using L by (simp add: b3_def)
  then have l4: "length b4 = 12 + 3 * n" using length_splice_buf [of b3 n 0 "replicate n 0"] by (simp add: b4_def)
  then have l5: "length b5 = 12 + 3 * n" using length_splice_buf [of b4 n 1 "replicate n 0"] by (simp add: b5_def)
  have w3: "wr32 w m 0 0 = Some (set_bytes w i b3)"
    using wr32_maps [OF M, of 0] L by (simp add: b3_def)
  have M3: "maps (set_bytes w i b3) m i b3" using maps_set_bytes [OF M] l3 L by simp
  have w4: "mem_write (set_bytes w i b3) m 12 (replicate n 0) = Some (set_bytes w i b4)"
    using mem_write_buf [OF M3 l3, of 0 "replicate n 0"] by (simp add: b4_def)
  have M4: "maps (set_bytes w i b4) m i b4" using maps_set_bytes [OF M] l4 L by simp
  have w5: "mem_write (set_bytes w i b4) m (12 + n) (replicate n 0) = Some (set_bytes w i b5)"
    using mem_write_buf [OF M4 l4, of 1 "replicate n 0"] by (simp add: b5_def)
  have h5: "hdr b5 j = (if j = 0 then 0 else hdr bs j)" if "j < 3" for j
    using that hdr_splice(1) [of j bs n 0] hdr_splice(2) [of j b3 n "replicate n 0" 0] hdr_splice(2) [of j b4 n "replicate n 0" 1] L l3 l4
    by (simp add: b3_def b4_def b5_def)
  have u5: "buf n b5 0 = replicate n 0"
    using buf_splice(2) [of 0 b3 n "replicate n 0" 0] buf_splice(2) [of 0 b4 n "replicate n 0" 1] l3 l4 by (simp add: b4_def b5_def)
  have "pub_store m i n ci f s w = Some (f\<lparr>pf_bitmap := BmMapped i (12 + n)\<rparr>, s, set_bytes w i b5)"
    using p by (simp add: pub_store_def extra_data_def w3 w4 w5)
  then show ?thesis using l5 h5 u5 by (auto simp: stored_def)
qed

lemma store_other:
  assumes M: "maps w m i bs" and L: "length bs = 12 + 3 * n" and c: "c < 3"
    and p: "pf_bitmap f = BmOther dd" "n \<le> length dd" and n: "unat (current_w s * current_h s) = n"
  shows "\<exists>bs'. pub_store m i n (int c) f s w = Some (f, s, set_bytes w i bs') \<and> stored bs bs' n c (take n dd)"
proof -
  let ?d = "take n dd"
  have d: "length ?d = n" using p by simp
  define b3 where "b3 = splice bs (12 + c * n) ?d"
  define b4 where "b4 = splice b3 (4 * 0) (to_le32 (word_of_int (int c)))"
  have l3: "length b3 = 12 + 3 * n" using L c d length_splice_buf [of bs n c ?d] by (simp add: b3_def)
  then have l4: "length b4 = 12 + 3 * n" by (simp add: b4_def)
  have w3: "mem_write w m (12 + c * n) ?d = Some (set_bytes w i b3)"
    using mem_write_buf [OF M L c d] by (simp add: b3_def)
  have M3: "maps (set_bytes w i b3) m i b3" using maps_set_bytes [OF M] l3 L by simp
  have w4: "wr32 (set_bytes w i b3) m 0 (word_of_int (int c)) = Some (set_bytes w i b4)"
    using wr32_maps [OF M3, of 0] l3 by (simp add: b4_def)
  have h4: "hdr b4 j = (if j = 0 then word_of_int (int c) else hdr bs j)" if "j < 3" for j
    using that hdr_splice(1) [of j b3 n 0] hdr_splice(2) [of j bs n ?d c] L l3 c d by (simp add: b3_def b4_def)
  have u4: "buf n b4 c = ?d"
    using buf_splice(1) [of c b3 n 0] buf_splice(2) [of c bs n ?d c] L l3 c d by (simp add: b3_def b4_def)
  have "pub_store m i n (int c) f s w = Some (f, s, set_bytes w i b4)"
    using p by (simp add: pub_store_def extra_data_def bm_bytes_def n w3 w4 [simplified])
  then show ?thesis using l4 h4 u4 unat_index [OF c] by (auto simp: stored_def)
qed

lemma publish_ready:
  assumes R: "pub_ready w s f i bs n" and B: "bitmap_ok f i bs n" and P: "picture w s f n d"
  obtains f' bs' where "publish_frame E D p f s w = Some (f', s, set_bytes w i bs')"
    "pub_ready (set_bytes w i bs') s f' i bs' n" "bitmap_ok f' i bs' n" "hdr bs' 1 = pf_width f" "hdr bs' 2 = pf_height f"
    "buf n bs' (unat (hdr bs' 0)) = d" "pf_width f' = pf_width f" "pf_height f' = pf_height f"
    "(\<exists>off. pf_bitmap f' = BmMapped i off) \<or> (\<exists>dd. pf_bitmap f = BmOther dd)"
proof -
  note result = that
  let ?m = "pub_mmap s"
  define k where "k = unat (hdr bs 0)"
  define c where "c = (k + 1) mod 3"
  define e where "e = (c + 1) mod 3"
  have M: "maps w ?m i bs" and L: "length bs = 12 + 3 * n" and N: "n = unat (pf_width f * pf_height f)"
    and C: "current_w s = pf_width f" "current_h s = pf_height f" and K: "k < 3"
    using R by (auto simp: pub_ready_def k_def)
  have L12: "12 \<le> length bs" using L by simp
  have c3: "c < 3" and e3: "e < 3" and ce: "c \<noteq> e" by (simp_all add: c_def e_def, presburger)
  have fl: "int_of_u32 (hdr bs 0) = int k" using K by (simp add: k_def flag_int)
  have ic: "inc_frame_index (int k) = int c" "inc_frame_index (int c) = int e" by (simp_all add: inc_index c_def e_def)
  define b1 where "b1 = splice bs (4 * 1) (to_le32 (pf_width f))"
  define b2 where "b2 = splice b1 (4 * 2) (to_le32 (pf_height f))"
  have l1: "length b1 = 12 + 3 * n" and l2: "length b2 = 12 + 3 * n"
    using L by (simp_all add: b1_def b2_def)
  have w1: "wr32 w ?m 1 (pf_width f) = Some (set_bytes w i b1)"
    unfolding b1_def by (rule wr32_maps [OF M L12]) simp
  have M1: "maps (set_bytes w i b1) ?m i b1" using maps_set_bytes [OF M] l1 L by simp
  have w2: "wr32 (set_bytes w i b1) ?m 2 (pf_height f) = Some (set_bytes w i b2)"
    using wr32_maps [OF M1, of 2] l1 by (simp add: b2_def)
  have M2: "maps (set_bytes w i b2) ?m i b2" using maps_set_bytes [OF M] l2 L by simp
  have h2: "hdr b2 j = (if j = 2 then pf_height f else if j = 1 then pf_width f else hdr bs j)" if "j < 3" for j
    using that l1 L hdr_splice(1) [of j b1 n 2] hdr_splice(1) [of j bs n 1] by (simp add: b1_def b2_def)
  have u2: "buf n b2 j = buf n bs j" if "j < 3" for j
    using that l1 L buf_splice(1) [of j b1 n 2] buf_splice(1) [of j bs n 1] by (simp add: b1_def b2_def)
  have start: "publish_frame E D p f s w = pub_store ?m i n (int c) f s (set_bytes w i b2)"
  proof -
    have d: "mm_data ?m = Mapped i" using M by (simp add: maps_def)
    have r: "pub_resize E D p f s w = Some (True, s, w)" by (simp add: pub_resize_def C)
    show ?thesis using K
      unfolding publish_frame_def r by (simp add: d rd32_maps [OF M L12] fl ic w1 [unfolded One_nat_def] w2 N Let_def)
  qed
  have fin: thesis if st: "pub_store ?m i n (int c) f s (set_bytes w i b2) = Some (f', s, set_bytes w i bs')"
    and sd: "stored b2 bs' n v d" "v < 3" and fb: "pf_bitmap f' = BmMapped i (12 + ((v + 1) mod 3) * n) \<or> f' = f \<and> (\<exists>dd. pf_bitmap f = BmOther dd)"
    and same: "pf_width f' = pf_width f" "pf_height f' = pf_height f" for f' bs' v
  proof (rule result)
    show "publish_frame E D p f s w = Some (f', s, set_bytes w i bs')" using start st by simp
    show "pub_ready (set_bytes w i bs') s f' i bs' n"
      using maps_set_bytes [OF M] sd L N C same by (simp add: pub_ready_def stored_def)
    show "bitmap_ok f' i bs' n" using fb sd B by (auto simp: bitmap_ok_def next_slot_def stored_def)
    show "hdr bs' 1 = pf_width f" "hdr bs' 2 = pf_height f" using sd h2 by (simp_all add: stored_def)
    show "buf n bs' (unat (hdr bs' 0)) = d" using sd by (simp add: stored_def)
    show "(\<exists>off. pf_bitmap f' = BmMapped i off) \<or> (\<exists>dd. pf_bitmap f = BmOther dd)" using fb by auto
  qed (rule same)+
  show ?thesis
  proof (cases "pf_bitmap f")
    case (BmMapped j off)
    then have p: "pf_bitmap f = BmMapped i (12 + c * n)" using B by (simp add: bitmap_ok_def next_slot_def k_def c_def)
    have "buf n b2 c = d" using P p M L c3 u2 mult_le_mono1 [of c 2 n]
      by (auto simp: picture_def bm_bytes_def maps_def mem_read_def buf_def split: if_splits)
    moreover obtain bs' where "pub_store ?m i n (int c) f s (set_bytes w i b2) =
        Some (f\<lparr>pf_bitmap := BmMapped i (12 + ((c + 1) mod 3) * n)\<rparr>, s, set_bytes w i bs')" "stored b2 bs' n c (buf n b2 c)"
      using store_mapped [OF M2 l2 c3 p, of s, unfolded set_bytes_set_bytes] by blast
    ultimately show ?thesis using c3
      by (intro fin [where f' = "f\<lparr>pf_bitmap := BmMapped i (12 + ((c + 1) mod 3) * n)\<rparr>" and v = c]) simp_all
  next
    case BmNull
    then have "replicate n 0 = d" using P by (simp add: picture_def)
    moreover obtain bs' where "pub_store ?m i n (int c) f s (set_bytes w i b2) = Some (f\<lparr>pf_bitmap := BmMapped i (12 + n)\<rparr>, s, set_bytes w i bs')"
      "stored b2 bs' n 0 (replicate n 0)"
      using store_null [OF M2 l2 BmNull, of "int c" s, unfolded set_bytes_set_bytes] by blast
    ultimately show ?thesis by (intro fin [where f' = "f\<lparr>pf_bitmap := BmMapped i (12 + n)\<rparr>" and v = 0]) simp_all
  next
    case (BmOther dd)
    then have d: "take n dd = d" "n \<le> length dd" using P B by (auto simp: picture_def bm_bytes_def bitmap_ok_def)
    obtain bs' where "pub_store ?m i n (int c) f s (set_bytes w i b2) = Some (f, s, set_bytes w i bs')" "stored b2 bs' n c (take n dd)"
      using store_other [OF M2 l2 c3 BmOther d(2), of s] C N by auto
    with d c3 BmOther show ?thesis by (intro fin [where f' = f and v = c]) simp_all
  qed
qed


subsection \<open>Mapping a file\<close>

lemma mmap_opened:
  assumes nf: "\<And>v. \<not> fails E v" and o: "ofile_at p fd w = Some f" and i: "inodes w (of_ino f) = Some (RegFile bs)" and sz: "sz < 2 ^ 63"
  obtains m' w' bs' where "ltr_int_mmap E p fd sz m w = (True, m\<lparr>mm_data := Mapped (of_ino f)\<rparr>, w')" "w' = tick (tick w) \<or> w' = tick (tick (set_bytes (tick w) (of_ino f) bs'))"
    "bs' = take sz bs @ replicate (sz - length bs) 0" "inodes w' = (inodes w)(of_ino f \<mapsto> RegFile bs')" "dir w' = dir w" "next_ino w' = next_ino w"
    "lck w' = lck w" "fdt w' = fdt w"
proof -
  note result = that
  show ?thesis
  proof (cases "length bs = sz")
    case True
    then have "bs = take sz bs @ replicate (sz - length bs) 0" by simp
    moreover have "ltr_int_mmap E p fd sz m w = (True, m\<lparr>mm_data := Mapped (of_ino f)\<rparr>, tick (tick w))"
      using nf o i True by (simp add: ltr_int_mmap_def sys_fstat_def sys_mmap_def)
    ultimately show ?thesis using i by (intro result [of "tick (tick w)" bs]) (auto simp: fun_upd_idem)
  next
    case False
    let ?bs' = "take sz bs @ replicate (sz - length bs) 0"
    have "ltr_int_mmap E p fd sz m w = (True, m\<lparr>mm_data := Mapped (of_ino f)\<rparr>, tick (tick (set_bytes (tick w) (of_ino f) ?bs')))"
      using nf o i False sz by (simp add: ltr_int_mmap_def sys_fstat_def sys_mmap_def sys_ftruncate_def set_bytes_def tick_def ofile_at_def)
    then show ?thesis by (intro result [of "tick (tick (set_bytes (tick w) (of_ino f) ?bs'))" ?bs']) (auto simp: set_bytes_def)
  qed
qed

text \<open>What \<open>ltr_int_mmap_file\<close> does when nothing fails: \<open>mapped_file w n sz w' m' i bs'\<close>.\<close>

definition mapped_file :: "os \<Rightarrow> string \<Rightarrow> nat \<Rightarrow> os \<Rightarrow> mmap_s \<Rightarrow> ino \<Rightarrow> bytes \<Rightarrow> bool" where
  "mapped_file w n sz w' m' i bs' \<longleftrightarrow>
     maps w' m' i bs' \<and> length bs' = sz \<and> mm_fname m' = Some n \<and> mm_sem m' \<noteq> None \<and> mm_lock_sem m' = None \<and>
     dir w' = (dir w)(n \<mapsto> i) \<and> (\<forall>j. j \<noteq> i \<longrightarrow> inodes w' j = inodes w j) \<and>
     (case dir w n of None \<Rightarrow> i = next_ino w \<and> bs' = replicate sz 0 \<and> next_ino w' = Suc i
      | Some j \<Rightarrow> i = j \<and> next_ino w' = next_ino w \<and> (\<forall>bs. inodes w j = Some (RegFile bs) \<longrightarrow> bs' = take sz bs @ replicate (sz - length bs) 0))"

lemma mmap_file_ok:
  assumes nf: "\<And>v. \<not> fails E v" and reg: "\<And>i. dir w n = Some i \<Longrightarrow> \<exists>bs. inodes w i = Some (RegFile bs)" and sz: "sz < 2 ^ 63"
  shows "\<exists>m' w' i bs'. ltr_int_mmap_file E p n sz m w = (True, m', w') \<and> mapped_file w n sz w' m' i bs'"
proof -
  have main: "\<exists>m' w' bs'. ltr_int_mmap_file E p n sz m w = (True, m', w') \<and> maps w' m' i bs' \<and> mm_fname m' = Some n \<and> mm_sem m' \<noteq> None \<and>
      mm_lock_sem m' = None \<and> bs' = take sz bs @ replicate (sz - length bs) 0 \<and> dir w' = dir u \<and> next_ino w' = next_ino u \<and> (\<forall>j. j \<noteq> i \<longrightarrow> inodes w' j = inodes u j)"
    if op: "sys_open_rw E p n w = new_fd p i True u" and u: "inodes u i = Some (RegFile bs)" for i u bs
  proof -
    obtain fd v where v: "new_fd p i True u = (fd, v)" by (meson surj_pair)
    note N = new_fd_ofile [OF v]
    have iv: "inodes v i = Some (RegFile bs)" using N u by simp
    obtain w' bs' where w': "ltr_int_mmap E p fd sz m v = (True, m\<lparr>mm_data := Mapped i\<rparr>, w')"
      "bs' = take sz bs @ replicate (sz - length bs) 0" "inodes w' = (inodes v)(i \<mapsto> RegFile bs')" "dir w' = dir v" "next_ino w' = next_ino v"
      using mmap_opened [OF nf, of p fd v _ bs sz m] N iv sz by (metis ofile.select_convs(3))
    have "ltr_int_mmap_file E p n sz m w =
        (True, m\<lparr>mm_data := Mapped i, mm_fname := Some n, mm_size := sz, mm_sem := Some fd, mm_lock_sem := None\<rparr>, w')"
      using op v N w'(1) by (simp add: ltr_int_mmap_file_def ltr_int_semaphoreFromFd_def)
    moreover have "length bs' = sz" using w'(2) by simp
    ultimately show ?thesis using w' N by (auto simp: maps_def)
  qed
  show ?thesis
  proof (cases "dir w n")
    case None
    let ?u = "add_node n (RegFile []) (tick w)"
    have "sys_open_rw E p n w = new_fd p (next_ino w) True ?u" using nf None by (simp add: sys_open_rw_def)
    from main [OF this, of "[]"] None show ?thesis by (fastforce simp: mapped_file_def maps_def)
  next
    case (Some i)
    then obtain bs where bs: "inodes w i = Some (RegFile bs)" using reg by blast
    have "sys_open_rw E p n w = new_fd p i True (tick w)" using nf Some bs by (simp add: sys_open_rw_def)
    from main [OF this, of bs] Some bs show ?thesis by (fastforce simp: mapped_file_def maps_def)
  qed
qed


subsection \<open>A sequence of pictures\<close>

text \<open>One round of the server: the driver draws the picture into the buffer it was given, if any, and the
  frame is published.\<close>

definition show_picture ::
  "os_env \<Rightarrow> (string \<Rightarrow> string) \<Rightarrow> pid \<Rightarrow> pframe \<times> pubst \<times> os \<Rightarrow> bytes \<Rightarrow> (pframe \<times> pubst \<times> os) option" where
  "show_picture E D p x d = (case x of (f, s, w) \<Rightarrow> do {
     w \<leftarrow> (case pf_bitmap f of BmMapped i off \<Rightarrow> mem_write w (pub_mmap s) off d | _ \<Rightarrow> Some w);
     publish_frame E D p f s w
   })"

text \<open>The server's side of the file \<open>i\<close> with the picture \<open>d\<close> on show.\<close>

definition showing :: "ino \<Rightarrow> nat \<Rightarrow> u32 \<Rightarrow> u32 \<Rightarrow> bytes \<Rightarrow> pframe \<times> pubst \<times> os \<Rightarrow> bool" where
  "showing i n W H d x \<longleftrightarrow> (case x of (f, s, w) \<Rightarrow> \<exists>bs off. pub_ready w s f i bs n \<and> bitmap_ok f i bs n \<and>
     pf_bitmap f = BmMapped i off \<and> pf_width f = W \<and> pf_height f = H \<and>
     hdr bs 1 = W \<and> hdr bs 2 = H \<and> buf n bs (unat (hdr bs 0)) = d)"

lemma show_picture_ok:
  assumes "showing i n W H d0 (f, s, w)" and d: "length d = n"
  obtains f' bs where "show_picture E D p (f, s, w) d = Some (f', s, set_bytes w i bs)" "showing i n W H d (f', s, set_bytes w i bs)"
proof -
  note result = that
  from assms(1) obtain bs off where R: "pub_ready w s f i bs n" and B: "bitmap_ok f i bs n" and o: "pf_bitmap f = BmMapped i off"
    and W: "pf_width f = W" "pf_height f = H" by (auto simp: showing_def)
  define c where "c = (unat (hdr bs 0) + 1) mod 3"
  have c: "c < 3" by (simp add: c_def)
  have off: "off = 12 + c * n" using B o by (simp add: bitmap_ok_def next_slot_def c_def)
  have M: "maps w (pub_mmap s) i bs" and L: "length bs = 12 + 3 * n" using R by (simp_all add: pub_ready_def)
  define b1 where "b1 = splice bs off d"
  have l1: "length b1 = 12 + 3 * n" using length_splice_buf [OF L c d] by (simp add: b1_def off)
  have w1: "mem_write w (pub_mmap s) off d = Some (set_bytes w i b1)"
    using mem_write_buf [OF M L c d] by (simp add: off b1_def)
  have h1: "hdr b1 j = hdr bs j" if "j < 3" for j using hdr_splice(2) [OF that L d c] by (simp add: b1_def off)
  have u1: "buf n b1 c = d" using buf_splice(2) [OF c L d c] by (simp add: b1_def off)
  have M1: "maps (set_bytes w i b1) (pub_mmap s) i b1" using maps_set_bytes [OF M] l1 L by simp
  have R1: "pub_ready (set_bytes w i b1) s f i b1 n" using R M1 l1 h1 by (simp add: pub_ready_def)
  have B1: "bitmap_ok f i b1 n" using B o h1 by (simp add: bitmap_ok_def next_slot_def)
  have "mem_read (set_bytes w i b1) (pub_mmap s) off n = Some d"
    using mem_read_maps [OF M1, of off n] l1 c mult_le_mono1 [of c 2 n] u1 by (simp add: off buf_def)
  then have P1: "picture (set_bytes w i b1) s f n d"
    using o M1 by (simp add: picture_def bm_bytes_def maps_def)
  from publish_ready [OF R1 B1 P1, of E D p] obtain f' bs' where
    p: "publish_frame E D p f s (set_bytes w i b1) = Some (f', s, set_bytes w i bs')"
    "pub_ready (set_bytes w i bs') s f' i bs' n" "bitmap_ok f' i bs' n" "hdr bs' 1 = pf_width f" "hdr bs' 2 = pf_height f"
    "buf n bs' (unat (hdr bs' 0)) = d" "pf_width f' = pf_width f" "pf_height f' = pf_height f"
    and m: "(\<exists>off. pf_bitmap f' = BmMapped i off) \<or> (\<exists>dd. pf_bitmap f = BmOther dd)"
    unfolding set_bytes_set_bytes by blast
  from m o obtain off' where "pf_bitmap f' = BmMapped i off'" by auto
  with p W o w1 show ?thesis
    by (intro result [of f' bs']) (auto simp: show_picture_def showing_def)
qed

lemma show_pictures_ok:
  assumes "showing i n W H d0 (f, s, w)" and "\<forall>d \<in> set ds. length d = n"
  shows "\<exists>f' w'. foldM (show_picture E D p) (f, s, w) ds = Some (f', s, w') \<and> showing i n W H (last (d0 # ds)) (f', s, w') \<and>
    dir w' = dir w \<and> (\<forall>j. j \<noteq> i \<longrightarrow> inodes w' j = inodes w j)"
  using assms
proof (induction ds arbitrary: d0 f w)
  case Nil
  then show ?case by auto
next
  case (Cons d ds)
  have d: "length d = n" using Cons.prems(2) by simp
  obtain f1 bs where 1: "show_picture E D p (f, s, w) d = Some (f1, s, set_bytes w i bs)" "showing i n W H d (f1, s, set_bytes w i bs)"
    using show_picture_ok [OF Cons.prems(1) d] .
  from Cons.IH [OF 1(2)] Cons.prems(2) 1(1) show ?case by (fastforce simp: set_bytes_def)
qed

subsection \<open>The first picture, and an application that connects\<close>

text \<open>Sizes small enough that the size of the file fits an \<open>int\<close>.\<close>

definition size_ok :: "u32 \<Rightarrow> u32 \<Rightarrow> nat \<Rightarrow> bool" where
  "size_ok W H n \<longleftrightarrow> n = unat W * unat H \<and> 0 < n \<and> 3 * n + 12 < 2 ^ 31"

lemma size_ok_simps:
  assumes "size_ok W H n"
  shows "unat (W * H) = n" "int_of_u32 (word_of_int FRAME_BUFFERS * W * H + of_nat extra_data) = int (3 * n + 12)"
    "unat (word_of_int FRAME_BUFFERS * W * H) = 3 * n" "size_of_int (int (3 * n + 12)) = 3 * n + 12"
    "int_of_u32 (of_nat (3 * n + 12)) = int (3 * n + 12)"
proof -
  have n: "n = unat W * unat H" "3 * n + 12 < 2 ^ 31" using assms by (simp_all add: size_ok_def)
  show nn: "unat (W * H) = n" using n by (simp add: unat_word_ariths)
  have "of_nat (unat (W * H)) = W * H" by simp
  then have wh: "W * H = of_nat n" by (simp only: nn)
  have e: "word_of_int FRAME_BUFFERS * W * H = (of_nat (3 * n) :: u32)"
    using wh by (simp add: FRAME_BUFFERS_def mult.assoc)
  have u: "unat (of_nat (3 * n + 12) :: u32) = 3 * n + 12" using n(2) by (subst unat_of_nat) simp
  show i: "int_of_u32 (of_nat (3 * n + 12)) = int (3 * n + 12)"
    using int_of_u32_small [of "of_nat (3 * n + 12)"] n(2) by (simp only: u)
  show "int_of_u32 (word_of_int FRAME_BUFFERS * W * H + of_nat extra_data) = int (3 * n + 12)"
    using i by (simp add: e extra_data_def)
  show "unat (word_of_int FRAME_BUFFERS * W * H) = 3 * n"
    using n(2) by (simp only: e) (subst unat_of_nat, simp)
  show "size_of_int (int (3 * n + 12)) = 3 * n + 12"
    using n(2) by (simp add: size_of_int_def nat_mod_distrib)
qed


text \<open>An application that may read: connected, a state that is no error, the server's resolution.\<close>

definition may_read :: "ltlib \<Rightarrow> ltr_comm \<Rightarrow> u32 \<Rightarrow> u32 \<Rightarrow> bool" where
  "may_read cl com W H \<longleftrightarrow> connected cl \<and> 0 \<le> com_state com \<and>
     resolution_x (fp_pose (full_pose com)) = W \<and> resolution_y (fp_pose (full_pose com)) = H"

lemma first_picture:
  assumes nf: "\<And>v. \<not> fails E v" and fresh: "dir w (D frames_file) = None" and sz: "size_ok W H n"
  obtains f s i w' where "publish_frame E D p \<lparr>pf_width = W, pf_height = H, pf_bitmap = BmNull\<rparr> pub_init w = Some (f, s, w')"
    "showing i n W H (replicate n 0) (f, s, w')" "dir w' = (dir w)(D frames_file \<mapsto> i)" "next_ino w' = Suc i"
proof -
  note result = that
  let ?f = "\<lparr>pf_width = W, pf_height = H, pf_bitmap = BmNull\<rparr>"
  note S = size_ok_simps [OF sz]
  have n: "0 < n" "3 * n + 12 < 2 ^ 31" using sz unfolding size_ok_def by blast+
  have W0: "W \<noteq> 0" using S(1) n(1) by auto
  have gt: "W * H > 0" using S(1) n(1) by (simp add: word_less_nat_alt)
  obtain m u i bs where mm: "ltr_int_mmap_file E p (D frames_file) (3 * n + 12) mmap_init w = (True, m, u)"
    "mapped_file w (D frames_file) (3 * n + 12) u m i bs"
    using mmap_file_ok [OF nf, of w "D frames_file" "3 * n + 12" p mmap_init] fresh n(2) by auto
  have i: "i = next_ino w" and bs: "bs = replicate (3 * n + 12) 0" and M: "maps u m i bs" and du: "dir u = (dir w)(D frames_file \<mapsto> i)" "next_ino u = Suc i"
    using mm(2) fresh by (auto simp: mapped_file_def)
  have L: "length bs = 12 + 3 * n" using bs by simp
  define s where "s = pub_init\<lparr>pub_mmap := m, data_size := int (3 * n + 12), current_w := W, current_h := H\<rparr>"
  define b1 where "b1 = splice bs 0 [0]"
  have l1: "length b1 = 12 + 3 * n" using L by (simp add: b1_def)
  have b1: "b1 = bs" by (simp add: b1_def bs splice_def replicate_Suc [symmetric] flip: replicate_Suc)
  have w1: "mem_write u m 0 [0] = Some (set_bytes u i bs)"
    using mem_write_maps [OF M, of 0 "[0]"] L b1 by (simp add: b1_def)
  have su: "set_bytes u i bs = u" using M by (auto simp: set_bytes_def maps_def fun_upd_idem)
  have r: "pub_resize E D p ?f pub_init w = Some (True, s, u)"
    using W0 gt mm(1) S(2,4) w1 su
    by (simp add: pub_resize_def pub_init_def ltr_int_unmap_file_def mmap_init_def s_def)
  have h: "hdr bs k = 0" if "k < 3" for k
  proof -
    have "take 4 (drop (4 * k) bs) = replicate 4 0" using that by (simp add: bs min_def)
    also have "\<dots> = [0, 0, 0, 0]" by (simp add: numeral_eq_Suc)
    finally have "take 4 (drop (4 * k) bs) = [0, 0, 0, 0]" .
    then show ?thesis by (simp add: hdr_def le32_def u32_of_u8_def)
  qed
  have R: "pub_ready u s ?f i bs n" using M L S(1) h by (simp add: pub_ready_def s_def)
  have B: "bitmap_ok ?f i bs n" by (simp add: bitmap_ok_def)
  have P: "picture u s ?f n (replicate n 0)" by (simp add: picture_def)
  have same: "publish_frame E D p ?f pub_init w = publish_frame E D p ?f s u"
  proof -
    have "pub_resize E D p ?f s u = Some (True, s, u)" by (simp add: pub_resize_def s_def)
    with r show ?thesis by (simp only: publish_frame_def)
  qed
  from publish_ready [OF R B P, of E D p] obtain f' bs' where
    p: "publish_frame E D p ?f s u = Some (f', s, set_bytes u i bs')"
    "pub_ready (set_bytes u i bs') s f' i bs' n" "bitmap_ok f' i bs' n" "hdr bs' 1 = W" "hdr bs' 2 = H"
    "buf n bs' (unat (hdr bs' 0)) = replicate n 0" "pf_width f' = W" "pf_height f' = H"
    and mp: "\<exists>off. pf_bitmap f' = BmMapped i off"
    by auto
  have "showing i n W H (replicate n 0) (f', s, set_bytes u i bs')" using p mp by (auto simp: showing_def)
  moreover have "publish_frame E D p ?f pub_init w = Some (f', s, set_bytes u i bs')" using p(1) same by simp
  moreover have "dir (set_bytes u i bs') = (dir w)(D frames_file \<mapsto> i)" "next_ino (set_bytes u i bs') = Suc i"
    using du by (simp_all add: set_bytes_def)
  ultimately show ?thesis by (intro result)
qed

text \<open>Reading through a mapping of the right file.\<close>

lemma get_frame_mapped:
  assumes s: "showing i n W H d (f, s, w)" and sz: "size_ok W H n" and r: "may_read cl com W H" and b: "n \<le> length buffer"
    and m: "mm_data m = Mapped i" "mm_size m = 3 * n + 12"
    and g: "get_frame_map E D q W H m0 v = Some (True, m, w)"
  shows "ltr_get_frame E D q cl com rw rh buffer m0 v = Some (1, int (unat W), int (unat H), d @ drop n buffer, m, w)"
proof -
  obtain bs where R: "pub_ready w s f i bs n" and h: "hdr bs 1 = W" "hdr bs 2 = H" and u: "buf n bs (unat (hdr bs 0)) = d"
    using s by (auto simp: showing_def)
  have L: "length bs = 12 + 3 * n" and c: "unat (hdr bs 0) < 3" using R by (simp_all add: pub_ready_def)
  have M: "maps w m i bs" using R m L by (simp add: pub_ready_def maps_def)
  have L12: "12 \<le> length bs" using L by simp
  have n: "n = unat W * unat H" "0 < n" "3 * n + 12 < 2 ^ 31" using sz unfolding size_ok_def by blast+
  have le: "unat W \<le> n" "unat H \<le> n" using n(1,2) by (cases "unat H"; cases "unat W"; simp)+
  have iw: "int_of_u32 W = int (unat W)" and ih: "int_of_u32 H = int (unat H)"
    by (rule int_of_u32_small, use le n(3) in linarith)+
  have pr: "int_of_u32 W * int_of_u32 H = int n" using n(1) by (simp only: iw ih of_nat_mult)
  have fs: "u32_of_int (int n) = W * H"
  proof -
    have "of_nat (unat (W * H)) = W * H" by simp
    then show ?thesis using size_ok_simps(1) [OF sz] by (simp add: u32_of_int_def)
  qed
  have off: "unat (hdr bs 0 * (W * H)) = unat (hdr bs 0) * n"
  proof -
    have "unat (hdr bs 0) * n \<le> 2 * n" using c by simp
    also have "2 * n < 2 ^ 32" using n(3) by simp
    finally have "unat (hdr bs 0) * n < 2 ^ 32" .
    moreover have "unat (hdr bs 0 * x) = (unat (hdr bs 0) * unat x) mod 2 ^ 32" for x :: u32
      by (simp add: unat_word_ariths)
    ultimately show ?thesis by (simp only: size_ok_simps(1) [OF sz] mod_less)
  qed
  have rd: "mem_read w m (extra_data + unat (hdr bs 0 * (W * H))) n = Some d"
    using mem_read_maps [OF M, of "12 + unat (hdr bs 0) * n" n] u L c mult_le_mono1 [of "unat (hdr bs 0)" 2 n]
    by (simp only: off extra_data_def) (simp add: buf_def)
  have res: "resolution_x (fp_pose (full_pose com)) = W" "resolution_y (fp_pose (full_pose com)) = H" "connected cl" "0 \<le> com_state com"
    using r by (simp_all add: may_read_def)
  have "ltr_get_frame E D q cl com rw rh buffer m0 v = Some (1, int_of_u32 W, int_of_u32 H, d @ drop n buffer, m, w)"
    using n(3) b m res
    by (simp add: ltr_get_frame_def g rd32_maps [OF M L12] h [simplified] pr fs rd size_ok_simps(1) [OF sz] Let_def)
  then show ?thesis by (simp only: iw ih)
qed


lemma showing_cong: "showing i n W H d (f, s, w) \<Longrightarrow> inodes w' i = inodes w i \<Longrightarrow> showing i n W H d (f, s, w')"
  by (fastforce simp: showing_def pub_ready_def maps_def)

lemma showing_file: "showing i n W H d (f, s, w) \<Longrightarrow> \<exists>bs. inodes w i = Some (RegFile bs) \<and> length bs = 3 * n + 12"
  by (auto simp: showing_def pub_ready_def maps_def)

text \<open>An application maps the file anew: it has the server's file when that still has its name.\<close>

lemma get_frame_map_new:
  assumes nf: "\<And>v. \<not> fails E v" and sz: "size_ok W H n" and small: "mm_size m < n"
    and un: "ltr_int_unmap_file E q m w = Some (b, m1, w1)"
    and reg: "\<And>i. dir w1 (D frames_file) = Some i \<Longrightarrow> \<exists>bs. inodes w1 i = Some (RegFile bs)"
  shows "\<exists>m' w' i bs'. get_frame_map E D q W H m w = Some (True, m', w') \<and> mapped_file w1 (D frames_file) (3 * n + 12) w' m' i bs'"
proof -
  note S = size_ok_simps [OF sz]
  have "3 * n + 12 < (2 :: nat) ^ 63" using sz unfolding size_ok_def by simp
  from mmap_file_ok [OF nf reg this, where p = q and m = m1] obtain m' w' i bs' where
    m': "ltr_int_mmap_file E q (D frames_file) (3 * n + 12) m1 w1 = (True, m', w')" "mapped_file w1 (D frames_file) (3 * n + 12) w' m' i bs'"
    by blast
  have "get_frame_map E D q W H m w = Some (ltr_int_mmap_file E q (D frames_file) (3 * n + 12) m1 w1)"
    using small un S(1,3,4,5) unfolding get_frame_map_def extra_data_def Let_def by (simp del: of_nat_add)
  with m' show ?thesis by auto
qed

text \<open>C15: Pictures arrive: the server, started afresh, publishes pictures of one size one after another,
  each drawn into the buffer \<open>publish_frame\<close> handed out before, and no call fails or leaves its
  buffers; an application that then connects for the first time and asks for the frame is given the
  width, the height and exactly the bytes of the picture published last.\<close>

theorem pictures_arrive:
  assumes "\<And>v. \<not> fails E v" and "dir w0 (D frames_file) = None" and "size_ok W H n"
    and "\<forall>d \<in> set ds. length d = n" and "may_read cl com W H" and "n \<le> length buffer"
  shows "\<exists>f s w1 f' w2 m w3.
    publish_frame E D p \<lparr>pf_width = W, pf_height = H, pf_bitmap = BmNull\<rparr> pub_init w0 = Some (f, s, w1) \<and>
    foldM (show_picture E D p) (f, s, w1) ds = Some (f', s, w2) \<and>
    ltr_get_frame E D q cl com rw rh buffer mmap_init w2 =
      Some (1, int (unat W), int (unat H), last (replicate n 0 # ds) @ drop n buffer, m, w3)"
proof -
  obtain f s i w1 where 1: "publish_frame E D p \<lparr>pf_width = W, pf_height = H, pf_bitmap = BmNull\<rparr> pub_init w0 = Some (f, s, w1)"
    "showing i n W H (replicate n 0) (f, s, w1)" "dir w1 = (dir w0)(D frames_file \<mapsto> i)"
    using first_picture [of E w0 D W H n p] assms(1-3) by metis
  from show_pictures_ok [OF 1(2) assms(4), of E D p] obtain f' w2 where
    2: "foldM (show_picture E D p) (f, s, w1) ds = Some (f', s, w2)" "showing i n W H (last (replicate n 0 # ds)) (f', s, w2)"
    "dir w2 = dir w1" by blast
  obtain bs where bs: "inodes w2 i = Some (RegFile bs)" "length bs = 3 * n + 12" using showing_file [OF 2(2)] by blast
  have n: "0 < n" using assms(3) unfolding size_ok_def by blast
  have d: "dir w2 (D frames_file) = Some i" using 1(3) 2(3) by simp
  have un: "ltr_int_unmap_file E q mmap_init w2 = Some (True, mmap_init, w2)"
    by (simp add: ltr_int_unmap_file_def mmap_init_def)
  have "mm_size mmap_init < n" using n by (simp add: mmap_init_def)
  from get_frame_map_new [OF assms(1,3) this un, of D] d bs obtain m w3 j bs' where
    g: "get_frame_map E D q W H mmap_init w2 = Some (True, m, w3)" "mapped_file w2 (D frames_file) (3 * n + 12) w3 m j bs'"
    by auto
  have j: "j = i" "bs' = bs" "mm_data m = Mapped i" "mm_size m = 3 * n + 12" "inodes w3 i = Some (RegFile bs)"
    using g(2) d bs by (auto simp: mapped_file_def maps_def)
  have "showing i n W H (last (replicate n 0 # ds)) (f', s, w3)"
    by (rule showing_cong [OF 2(2)]) (simp add: j bs)
  from get_frame_mapped [OF this assms(3,5,6) j(3,4) g(1)] 1(1) 2(1) show ?thesis by blast
qed

text \<open>Once an application has lost the file it reads pictures of size 0.\<close>

lemma get_frame_empty:
  assumes M: "maps w m j (replicate (3 * n + 12) 0)" and sz: "size_ok W H n" and r: "may_read cl com W H"
    and g: "get_frame_map E D q W H m0 v = Some (True, m, w)"
  shows "ltr_get_frame E D q cl com rw rh buffer m0 v = Some (1, 0, 0, buffer, m, w)"
proof -
  let ?bs = "replicate (3 * n + 12) (0 :: u8)"
  have h: "hdr ?bs k = 0" if "k < 3" for k
  proof -
    have "take 4 (drop (4 * k) ?bs) = replicate 4 0" using that by (simp add: min_def)
    also have "\<dots> = [0, 0, 0, 0]" by (simp add: numeral_eq_Suc)
    finally show ?thesis by (simp add: hdr_def le32_def u32_of_u8_def)
  qed
  have L: "12 \<le> length ?bs" by simp
  have z: "rd32 w m k = Some 0" if "k < 3" for k using rd32_maps [OF M L that] h [OF that] by simp
  have e: "mem_read w m extra_data 0 = Some []" using mem_read_maps [OF M, of extra_data 0] by (simp add: extra_data_def)
  have "int_of_u32 0 = 0" by (simp add: int_of_u32_def)
  moreover have "mm_data m \<noteq> Unmapped" using M by (simp add: maps_def)
  ultimately show ?thesis using r z [of 0] z [of 1] z [of 2] e
    by (simp add: ltr_get_frame_def may_read_def g u32_of_int_def)
qed

text \<open>A change of the picture size can cut an application off for ever. The server shows pictures of a
  size above the application's mapping (it has already made a new file for them). The next call of
  \<open>ltr_get_frame\<close> drops the old mapping, and with it removes the \<^emph>\<open>name\<close> of the server's new file, then
  creates a file of its own; it reports success with a picture of size 0, and so does every later
  call, whatever the server publishes.\<close>

theorem resize_disconnects:
  assumes "\<And>v. \<not> fails E v" and "names_ok w" and "size_ok W H n"
    and "showing i n W H d (f, s, w)" and "dir w (D frames_file) = Some i"
    and "mm_data m \<noteq> Unmapped" and "mm_sem m \<noteq> None" and "mm_lock_sem m = None" and "mm_fname m = Some (D frames_file)"
    and "mm_size m < n" and "may_read cl com W H" and "\<forall>d \<in> set ds. length d = n"
  shows "\<exists>m' w1 f' w2. ltr_get_frame E D q cl com rw rh buffer m w = Some (1, 0, 0, buffer, m', w1) \<and>
    foldM (show_picture E D p) (f, s, w1) ds = Some (f', s, w2) \<and> showing i n W H (last (d # ds)) (f', s, w2) \<and>
    ltr_get_frame E D q cl com rw' rh' buffer' m' w2 = Some (1, 0, 0, buffer', m', w2)"
proof -
  note S = size_ok_simps [OF assms(3)]
  obtain fd where fd: "mm_sem m = Some fd" using assms(7) by blast
  let ?c = "sys_close q fd w"
  let ?u = "(tick ?c)\<lparr>dir := (dir ?c)(D frames_file := None)\<rparr>"
  have c: "dir ?c = dir w" "inodes ?c = inodes w" "next_ino ?c = next_ino w"
    by (simp_all add: sys_close_def split: option.split)
  have un: "ltr_int_unmap_file E q m w = Some (mm_data m \<noteq> MapFailed, m\<lparr>mm_data := Unmapped, mm_size := 0, mm_fname := None\<rparr>, ?u)"
    using assms(1,5-9) fd c(1) by (simp add: ltr_int_unmap_file_def ltr_int_closeSemaphore_def sys_remove_def)
  from get_frame_map_new [OF assms(1,3,10) un, of D] obtain m' w1 j bs where
    g: "get_frame_map E D q W H m w = Some (True, m', w1)" and mf: "mapped_file ?u (D frames_file) (3 * n + 12) w1 m' j bs"
    by auto
  have j: "j = next_ino w" "bs = replicate (3 * n + 12) 0" "maps w1 m' j bs" "\<forall>k. k \<noteq> j \<longrightarrow> inodes w1 k = inodes w k"
    using mf c by (auto simp: mapped_file_def)
  have ij: "i \<noteq> j" using assms(2,5) j(1) by (auto simp: names_ok_def)
  have first: "ltr_get_frame E D q cl com rw rh buffer m w = Some (1, 0, 0, buffer, m', w1)"
    using j(3) unfolding j(2) by (rule get_frame_empty [OF _ assms(3,11) g])
  have "showing i n W H d (f, s, w1)" by (rule showing_cong [OF assms(4)]) (use j(4) ij in simp)
  from show_pictures_ok [OF this assms(12), of E D p] obtain f' w2 where
    2: "foldM (show_picture E D p) (f, s, w1) ds = Some (f', s, w2)" "showing i n W H (last (d # ds)) (f', s, w2)"
    "\<forall>k. k \<noteq> i \<longrightarrow> inodes w2 k = inodes w1 k" by blast
  have M2: "maps w2 m' j (replicate (3 * n + 12) 0)" using j(2,3) 2(3) ij by (simp add: maps_def)
  then have "get_frame_map E D q W H m' w2 = Some (True, m', w2)"
    using S(1) by (simp add: get_frame_map_def maps_def)
  from get_frame_empty [OF M2 assms(3,11) this] first 2 show ?thesis by blast
qed


definition demo_client :: ltlib where
  "demo_client = ltlib_init\<lparr>lt_initialized := True, mmm := mmap_init\<lparr>mm_data := Mapped 9\<rparr>\<rparr>"

definition demo_com :: "u32 \<Rightarrow> u32 \<Rightarrow> ltr_comm" where
  "demo_com W H = zero_comm\<lparr>com_state := state_num RUNNING,
     full_pose := (full_pose zero_comm)\<lparr>fp_pose := zero_pose\<lparr>resolution_x := W, resolution_y := H\<rparr>\<rparr>\<rparr>"

lemma reading_demo: "may_read demo_client (demo_com W H) W H" "size_ok 2 1 2" "\<And>v. \<not> fails calm v" "names_ok os_empty" "dir os_empty n = None"
  by (simp_all add: may_read_def demo_client_def demo_com_def connected_def size_ok_def names_ok_def os_empty_def)

theorem pictures_arrive_witness:
  "\<exists>f s w1 f' w2 m w3.
    publish_frame calm id 1 \<lparr>pf_width = 2, pf_height = 1, pf_bitmap = BmNull\<rparr> pub_init os_empty = Some (f, s, w1) \<and>
    foldM (show_picture calm id 1) (f, s, w1) [[1, 2], [3, 4]] = Some (f', s, w2) \<and>
    ltr_get_frame calm id 2 demo_client (demo_com 2 1) 0 0 [0, 0, 7] mmap_init w2 = Some (1, 2, 1, [3, 4, 7], m, w3)"
  using pictures_arrive [OF reading_demo(3,5,2), of "[[1, 2], [3, 4]]" demo_client "demo_com 2 1" "[0, 0, 7]" id 1 2 0 0] reading_demo(1)
  by simp

theorem resize_disconnects_witness:
  "\<exists>f s i w m' w1 f' w2. showing i 2 2 1 [0, 0] (f, s, w) \<and>
    ltr_get_frame calm id 2 demo_client (demo_com 2 1) 0 0 [0, 0, 7]
      \<lparr>mm_fname = Some frames_file, mm_size = 1, mm_data = Mapped 9, mm_sem = Some 3, mm_lock_sem = None\<rparr> w = Some (1, 0, 0, [0, 0, 7], m', w1) \<and>
    foldM (show_picture calm id 1) (f, s, w1) [[1, 2], [3, 4]] = Some (f', s, w2) \<and>
    ltr_get_frame calm id 2 demo_client (demo_com 2 1) 0 0 [0, 0, 7] m' w2 = Some (1, 0, 0, [0, 0, 7], m', w2)"
proof -
  let ?m = "\<lparr>mm_fname = Some frames_file, mm_size = 1, mm_data = Mapped 9, mm_sem = Some 3, mm_lock_sem = None\<rparr>"
  obtain f s i w where 1: "showing i 2 2 1 (replicate 2 0) (f, s, w)" "dir w = (dir os_empty)(id frames_file \<mapsto> i)" "next_ino w = Suc i"
    using first_picture [of calm os_empty id 2 1 2 1] reading_demo by metis
  have nm: "names_ok w" using 1(2,3) by (auto simp: names_ok_def os_empty_def split: if_splits)
  have "dir w (id frames_file) = Some i" using 1(2) by simp
  from resize_disconnects [where E = calm and D = id, OF reading_demo(3) nm reading_demo(2) 1(1) this,
      where m = ?m and cl = demo_client and com = "demo_com 2 1" and ds = "[[1, 2], [3, 4]]" and q = 2 and p = 1
        and rw = 0 and rh = 0 and rw' = 0 and rh' = 0 and buffer = "[0, 0, 7]" and buffer' = "[0, 0, 7]"]
  have "\<exists>m' w1 f' w2. ltr_get_frame calm id 2 demo_client (demo_com 2 1) 0 0 [0, 0, 7] ?m w = Some (1, 0, 0, [0, 0, 7], m', w1) \<and>
    foldM (show_picture calm id 1) (f, s, w1) [[1, 2], [3, 4]] = Some (f', s, w2) \<and>
    ltr_get_frame calm id 2 demo_client (demo_com 2 1) 0 0 [0, 0, 7] m' w2 = Some (1, 0, 0, [0, 0, 7], m', w2)"
    using reading_demo(1) by auto
  moreover have "showing i 2 2 1 [0, 0] (f, s, w)" using 1(1) by (simp add: numeral_2_eq_2)
  ultimately show ?thesis by blast
qed

end
