(* ===== verification/CText.thy ===== *)
theory CText
  imports CFloat "HOL-Library.Char_ord" "HOL-Library.List_Lexorder"
begin

text \<open>
  Text as the C++ standard streams write and read it in their default setting: \<open>ostream\<close>'s
  \<open>operator<<\<close> for \<open>int\<close> and \<open>float\<close> (six significant digits, as \<open>%g\<close>), \<open>istream\<close>'s \<open>operator>>\<close> for both
  (longest number after blanks; 0 when there is none, the nearest limit when it is too large), a
  number padded with zeros, and the ordered map \<open>std::map\<close> as a sorted list.
\<close>

subsection \<open>Characters and digits\<close>

definition is_digit :: "char \<Rightarrow> bool" where
  "is_digit c \<longleftrightarrow> 48 \<le> (of_char c :: nat) \<and> (of_char c :: nat) \<le> 57"

definition digit_val :: "char \<Rightarrow> nat" where
  "digit_val c = of_char c - 48"

definition digit_char :: "nat \<Rightarrow> char" where
  "digit_char d = char_of (48 + d)"

definition is_space :: "char \<Rightarrow> bool" where
  "is_space c \<longleftrightarrow> c = CHR '' '' \<or> 9 \<le> (of_char c :: nat) \<and> (of_char c :: nat) \<le> 13"

definition is_blank :: "char \<Rightarrow> bool" where
  "is_blank c \<longleftrightarrow> c = CHR '' '' \<or> c = CHR 0x09"

fun show_nat :: "nat \<Rightarrow> string" where
  "show_nat n = (if n < 10 then [digit_char n] else show_nat (n div 10) @ [digit_char (n mod 10)])"

declare show_nat.simps [simp del]

definition show_int :: "int \<Rightarrow> string" where
  "show_int i = (if i < 0 then CHR ''-'' # show_nat (nat (- i)) else show_nat (nat i))"

definition nat_of_digits :: "string \<Rightarrow> nat" where
  "nat_of_digits ds = foldl (\<lambda>n c. 10 * n + digit_val c) 0 ds"

text \<open>An optional sign, and the rest.\<close>

definition read_sign :: "string \<Rightarrow> bool \<times> string" where
  "read_sign s = (case s of
     c # cs \<Rightarrow> if c = CHR ''-'' then (True, cs) else if c = CHR ''+'' then (False, cs) else (False, s)
   | [] \<Rightarrow> (False, s))"

definition read_int :: "string \<Rightarrow> int" where
  "read_int s =
     (case read_sign (dropWhile is_space s) of (neg, s) \<Rightarrow>
        let v = int (nat_of_digits (takeWhile is_digit s));
            v = (if neg then - v else v)
        in max (- (2 ^ 31)) (min (2 ^ 31 - 1) v))"

definition pad4 :: "nat \<Rightarrow> string" where
  "pad4 n = (let s = show_nat n in replicate (4 - length s) (CHR ''0'') @ s)"

subsection \<open>Floats\<close>

text \<open>The decimal exponent of a positive number, and its first six digits, correctly rounded.\<close>

definition ilog10 :: "rat \<Rightarrow> int" where
  "ilog10 r = (if 1 \<le> r then int (length (show_nat (nat \<lfloor>r\<rfloor>))) - 1
     else - int (length (show_nat (nat (\<lceil>1 / r\<rceil> - 1)))))"

definition pow10 :: "int \<Rightarrow> rat" where
  "pow10 k = (if 0 \<le> k then 10 ^ nat k else 1 / 10 ^ nat (- k))"

definition six_digits :: "rat \<Rightarrow> nat \<times> int" where
  "six_digits r = (let x = ilog10 r; d = nat (round_even (r / pow10 (x - 5)))
     in if d = 1000000 then (100000, x + 1) else (d, x))"

definition strip_zeros :: "string \<Rightarrow> string" where
  "strip_zeros s = rev (dropWhile (\<lambda>c. c = CHR ''0'') (rev s))"

definition with_point :: "string \<Rightarrow> string \<Rightarrow> string" where
  "with_point ip fp = (let fp = strip_zeros fp in if fp = [] then ip else ip @ [CHR ''.''] @ fp)"

definition show_exp :: "int \<Rightarrow> string" where
  "show_exp x = (let s = show_nat (nat \<bar>x\<bar>) in
     CHR ''e'' # (if x < 0 then CHR ''-'' else CHR ''+'') # (if length s < 2 then CHR ''0'' # s else s))"

definition show_pos :: "rat \<Rightarrow> string" where
  "show_pos r = (case six_digits r of (d, x) \<Rightarrow>
     let ds = show_nat d in
     if x < - 4 \<or> 6 \<le> x then with_point (take 1 ds) (drop 1 ds) @ show_exp x
     else if x < 0 then with_point ''0'' (replicate (nat (- x - 1)) (CHR ''0'') @ ds)
     else with_point (take (nat x + 1) ds) (drop (nat x + 1) ds))"

fun show_flt :: "cflt \<Rightarrow> string" where
  "show_flt NaN = ''nan''"
| "show_flt (Inf s) = (if s then ''-inf'' else ''inf'')"
| "show_flt NegZero = ''-0''"
| "show_flt (Fin r) = (if r = 0 then ''0'' else if r < 0 then CHR ''-'' # show_pos (- r) else show_pos r)"

definition flt_max :: "fmt \<Rightarrow> rat" where
  "flt_max F = (2 ^ prec F - 1) * pow2 (emax F + 1 - int (prec F))"

text \<open>The exponent part: it is read only when it has a digit; otherwise the number is malformed.\<close>

definition read_exp :: "string \<Rightarrow> int option" where
  "read_exp s = (case s of
     c # cs \<Rightarrow> if c = CHR ''e'' \<or> c = CHR ''E''
       then (case read_sign cs of (neg, ds) \<Rightarrow>
         let ds = takeWhile is_digit ds in
         if ds = [] then None else Some (if neg then - int (nat_of_digits ds) else int (nat_of_digits ds)))
       else Some 0
   | [] \<Rightarrow> Some 0)"

definition read_flt :: "string \<Rightarrow> cflt" where
  "read_flt s =
     (case read_sign (dropWhile is_space s) of (neg, s) \<Rightarrow>
      let ip = takeWhile is_digit s;
          s = dropWhile is_digit s;
          fp = (if s \<noteq> [] \<and> hd s = CHR ''.'' then takeWhile is_digit (tl s) else []);
          s = (if s \<noteq> [] \<and> hd s = CHR ''.'' then dropWhile is_digit (tl s) else s)
      in if ip = [] \<and> fp = [] then Fin 0
         else case read_exp s of None \<Rightarrow> Fin 0
         | Some e \<Rightarrow>
             let v = of_nat (nat_of_digits (ip @ fp)) * pow10 (e - int (length fp));
                 x = rnd b32 v
             in if neg then fneg (if x = Inf False then Fin (flt_max b32) else x)
                else if x = Inf False then Fin (flt_max b32) else x)"

text \<open>\<open>stream >> result\<close>: when nothing but blanks is left the variable keeps its value.\<close>

definition stream_in :: "(string \<Rightarrow> 'a) \<Rightarrow> string \<Rightarrow> 'a \<Rightarrow> 'a" where
  "stream_in conv s result = (if dropWhile is_space s = [] then result else conv s)"

lemma pad4_0: "pad4 0 = ''0000''"
  by code_simp

subsection \<open>Ordered maps\<close>

text \<open>\<open>std::map\<close>: \<open>insert\<close> does nothing when the key is there already; iteration is in key order.\<close>

fun std_insert :: "'k::linorder \<Rightarrow> 'v \<Rightarrow> ('k \<times> 'v) list \<Rightarrow> ('k \<times> 'v) list" where
  "std_insert k v [] = [(k, v)]"
| "std_insert k v ((a, b) # m) = (if k < a then (k, v) # (a, b) # m else if k = a then (a, b) # m else (a, b) # std_insert k v m)"

lemma map_of_std_insert:
  "sorted (map fst m) \<Longrightarrow> distinct (map fst m) \<Longrightarrow>
   map_of (std_insert k v m) = (if k \<in> dom (map_of m) then map_of m else (map_of m)(k \<mapsto> v))"
proof (induction m)
  case (Cons x m)
  obtain a b where x: "x = (a, b)" by (cases x)
  have "k \<notin> dom (map_of m)" if "k < a"
    using that Cons.prems by (force simp: x dom_map_of_conv_image_fst)
  with Cons show ?case by (auto simp: x fun_eq_iff)
qed auto

lemma set_std_insert: "fst ` set (std_insert k v m) = insert k (fst ` set m)"
  by (induction k v m rule: std_insert.induct) (simp_all add: insert_commute)

lemma std_insert_ok:
  "sorted (map fst m) \<Longrightarrow> distinct (map fst m) \<Longrightarrow>
   sorted (map fst (std_insert k v m)) \<and> distinct (map fst (std_insert k v m))"
proof (induction m)
  case (Cons x m)
  obtain a b where x: "x = (a, b)" by (cases x)
  have s: "fst ` set (std_insert k v m) = insert k (fst ` set m)" by (rule set_std_insert)
  show ?case
    using Cons s by (auto simp: x)
qed simp

subsection \<open>Numbers are read back\<close>

lemma is_digit_char [simp]: "d < 10 \<Longrightarrow> is_digit (digit_char d)"
  by (simp add: is_digit_def digit_char_def)

lemma digit_val_char [simp]: "d < 10 \<Longrightarrow> digit_val (digit_char d) = d"
  by (simp add: digit_val_def digit_char_def)

lemma show_nat_digits: "\<forall>c \<in> set (show_nat n). is_digit c"
proof (induction n rule: show_nat.induct)
  case (1 n)
  then show ?case by (subst show_nat.simps) auto
qed

lemma show_nat_nonempty [simp]: "show_nat n \<noteq> []"
  by (subst show_nat.simps) simp

lemma nat_of_show_nat [simp]: "nat_of_digits (show_nat n) = n"
proof (induction n rule: show_nat.induct)
  case (1 n)
  then show ?case by (subst show_nat.simps) (simp add: nat_of_digits_def)
qed

lemma show_nat_inj: "show_nat m = show_nat n \<longleftrightarrow> m = n"
  by (metis nat_of_show_nat)

lemma not_space_digit: "is_digit c \<Longrightarrow> \<not> is_space c"
  by (auto simp: is_digit_def is_space_def)

lemma takeWhile_digits: "takeWhile is_digit (show_nat n) = show_nat n" "dropWhile is_digit (show_nat n) = []"
  using show_nat_digits [of n] by simp_all

lemma dropWhile_space_digits: "dropWhile is_space (show_nat n) = show_nat n"
proof (cases "show_nat n")
  case (Cons c cs)
  then have "is_digit c" using show_nat_digits [of n] by simp
  with Cons show ?thesis by (simp add: not_space_digit)
qed simp

lemma read_sign_digits: "read_sign (show_nat n) = (False, show_nat n)"
proof (cases "show_nat n")
  case (Cons c cs)
  then have "is_digit c" using show_nat_digits [of n] by simp
  then have "c \<noteq> CHR ''-''" "c \<noteq> CHR ''+''" by (auto simp: is_digit_def)
  with Cons show ?thesis by (simp add: read_sign_def)
qed simp

lemma read_show_int:
  assumes "- (2 ^ 31) \<le> i" and "i < 2 ^ 31"
  shows "read_int (show_int i) = i"
proof (cases "i < 0")
  case True
  then have "show_int i = CHR ''-'' # show_nat (nat (- i))" by (simp add: show_int_def)
  moreover have "\<not> is_space (CHR ''-'')" by (simp add: is_space_def)
  ultimately show ?thesis using assms True by (simp add: read_int_def read_sign_def takeWhile_digits)
next
  case False
  then show ?thesis using assms by (simp add: read_int_def show_int_def dropWhile_space_digits read_sign_digits takeWhile_digits)
qed

subsection \<open>Scanning\<close>

text \<open>\<open>%d\<close> of \<open>sscanf\<close>, with what follows; a number too large for an \<open>int\<close> keeps its low bits.\<close>

definition scan_int :: "string \<Rightarrow> (int \<times> string) option" where
  "scan_int s = (case read_sign (dropWhile is_space s) of (neg, t) \<Rightarrow>
     let ds = takeWhile is_digit t; v = int (nat_of_digits ds)
     in if ds = [] then None else Some (sint (word_of_int (if neg then - v else v) :: u32), dropWhile is_digit t))"

definition scan_char :: "char \<Rightarrow> string \<Rightarrow> string option" where
  "scan_char c s = (case s of [] \<Rightarrow> None | d # ds \<Rightarrow> if d = c then Some ds else None)"

lemma takeWhile_show_nat:
  "s = [] \<or> \<not> is_digit (hd s) \<Longrightarrow> takeWhile is_digit (show_nat n @ s) = show_nat n \<and> dropWhile is_digit (show_nat n @ s) = s"
  using show_nat_digits [of n] by (cases s) (simp_all add: takeWhile_append2 dropWhile_append2)

lemma scan_show_int:
  assumes "0 \<le> i" "i < 2 ^ 31" "s = [] \<or> \<not> is_digit (hd s)"
  shows "scan_int (show_int i @ s) = Some (i, s)"
proof -
  obtain c cs where c: "show_nat (nat i) = c # cs" "is_digit c"
    using show_nat_nonempty [of "nat i"] show_nat_digits [of "nat i"] by (cases "show_nat (nat i)") auto
  have n: "\<not> is_space c" "c \<noteq> CHR ''-''" "c \<noteq> CHR ''+''" using not_space_digit [OF c(2)] c(2) by (auto simp: is_digit_def)
  have "dropWhile is_space (show_nat (nat i) @ s) = show_nat (nat i) @ s" "read_sign (show_nat (nat i) @ s) = (False, show_nat (nat i) @ s)"
    using n by (simp_all add: c(1) read_sign_def)
  moreover have "sint (word_of_int i :: u32) = i" using assms(1,2) by (simp add: sint_sbintrunc' signed_take_bit_int_eq_self)
  ultimately show ?thesis using assms takeWhile_show_nat [OF assms(3), of "nat i"] by (simp add: scan_int_def show_int_def Let_def)
qed

end
