(* ===== verification/Pref.thy ===== *)
theory Pref
  imports CText
begin

text \<open>
  \<open>src/pref.cpp\<close> and \<open>src/pref.hpp\<close>: the preference store. A store is a list of items, sections and
  comments; a section is a list of keys with their values, and comments. Beside its items each of the
  two keeps an index, a \<open>std::map\<close> from names to the first item of that name (here its position). The
  locks of the class make each operation atomic; strings are not null. Shown: the index is always that
  of the items, so a lookup is a linear search for the first item of the name (\<open>ref_getValue\<close>), and a value
  set is the value found, all others unchanged (locale \<open>key_store\<close>, of which a section and the store are
  interpretations).
\<close>

datatype section_item = KeyVal string string | SecComment string

record pref_section =
  sec_name :: string
  sec_items :: "section_item list"
  sec_index :: "(string \<times> nat) list"

datatype pref_item = PSection pref_section | PComment string

record prefs =
  p_items :: "pref_item list"
  p_index :: "(string \<times> nat) list"
  changed_flag :: bool

subsection \<open>Sections\<close>

definition new_section :: pref_section where
  "new_section = \<lparr>sec_name = [], sec_items = [], sec_index = []\<rparr>"

definition sec_addItem :: "section_item \<Rightarrow> pref_section \<Rightarrow> pref_section" where
  "sec_addItem si s =
     s\<lparr>sec_items := sec_items s @ [si],
       sec_index := (case si of KeyVal k v \<Rightarrow> std_insert k (length (sec_items s)) (sec_index s) | SecComment c \<Rightarrow> sec_index s)\<rparr>"

definition kv_at :: "pref_section \<Rightarrow> nat \<Rightarrow> string" where
  "kv_at s i = (case sec_items s ! i of KeyVal k v \<Rightarrow> v | SecComment c \<Rightarrow> [])"

definition sec_getValue :: "pref_section \<Rightarrow> string \<Rightarrow> string option" where
  "sec_getValue s key = map_option (kv_at s) (map_of (sec_index s) key)"

definition sec_keyExists :: "pref_section \<Rightarrow> string \<Rightarrow> bool" where
  "sec_keyExists s key \<longleftrightarrow> map_of (sec_index s) key \<noteq> None"

text \<open>\<open>setValue\<close> and \<open>addKey\<close> call each other for an absent and a present key; they do the same.\<close>

definition sec_setValue :: "string \<Rightarrow> string \<Rightarrow> pref_section \<Rightarrow> pref_section" where
  "sec_setValue key v s = (case map_of (sec_index s) key of
     None \<Rightarrow> sec_addItem (KeyVal key v) s
   | Some i \<Rightarrow> s\<lparr>sec_items := (sec_items s)[i := KeyVal key v]\<rparr>)"

definition sec_addKey :: "string \<Rightarrow> string \<Rightarrow> pref_section \<Rightarrow> pref_section" where
  "sec_addKey key v s = sec_setValue key v s"

fun print_sec_item :: "section_item \<Rightarrow> string" where
  "print_sec_item (KeyVal k v) = k @ '' = '' @ v @ [CHR 0x0A]"
| "print_sec_item (SecComment c) = ''###'' @ c @ [CHR 0x0A]"

definition print_section :: "pref_section \<Rightarrow> string" where
  "print_section s = CHR ''['' # sec_name s @ CHR '']'' # CHR 0x0A # concat (map print_sec_item (sec_items s)) @ [CHR 0x0A]"

subsection \<open>The store\<close>

definition prefs_empty :: prefs where
  "prefs_empty = \<lparr>p_items = [], p_index = [], changed_flag = False\<rparr>"

definition changed :: "prefs \<Rightarrow> bool" where "changed p = changed_flag p"
definition setChangeFlag :: "prefs \<Rightarrow> prefs" where "setChangeFlag p = p\<lparr>changed_flag := True\<rparr>"
definition resetChangeFlag :: "prefs \<Rightarrow> prefs" where "resetChangeFlag p = p\<lparr>changed_flag := False\<rparr>"

definition prefs_clear :: "prefs \<Rightarrow> prefs" where
  "prefs_clear p = p\<lparr>changed_flag := False, p_items := [], p_index := []\<rparr>"

definition prefs_addItem :: "pref_item \<Rightarrow> prefs \<Rightarrow> prefs" where
  "prefs_addItem item p =
     (setChangeFlag p)\<lparr>p_items := p_items p @ [item],
       p_index := (case item of PSection s \<Rightarrow> std_insert (sec_name s) (length (p_items p)) (p_index p) | PComment c \<Rightarrow> p_index p)\<rparr>"

definition section_at :: "prefs \<Rightarrow> nat \<Rightarrow> pref_section" where
  "section_at p i = (case p_items p ! i of PSection s \<Rightarrow> s | PComment c \<Rightarrow> new_section)"

definition find_sec :: "prefs \<Rightarrow> string \<Rightarrow> pref_section option" where
  "find_sec p sec = map_option (section_at p) (map_of (p_index p) sec)"

definition getValue :: "prefs \<Rightarrow> string \<Rightarrow> string \<Rightarrow> string option" where
  "getValue p sec key = (case find_sec p sec of None \<Rightarrow> None | Some s \<Rightarrow> sec_getValue s key)"

definition getValue_flt :: "prefs \<Rightarrow> string \<Rightarrow> string \<Rightarrow> cflt \<Rightarrow> bool \<times> cflt" where
  "getValue_flt p sec key result =
     (case getValue p sec key of None \<Rightarrow> (False, result) | Some val \<Rightarrow> (True, stream_in read_flt val result))"

definition getValue_int :: "prefs \<Rightarrow> string \<Rightarrow> string \<Rightarrow> int \<Rightarrow> bool \<times> int" where
  "getValue_int p sec key result =
     (case getValue p sec key of None \<Rightarrow> (False, result) | Some val \<Rightarrow> (True, stream_in read_int val result))"

definition getSectionList :: "prefs \<Rightarrow> string list" where
  "getSectionList p = map (\<lambda>(n, i). sec_name (section_at p i)) (p_index p)"

definition sectionExists :: "prefs \<Rightarrow> string \<Rightarrow> bool" where
  "sectionExists p sec \<longleftrightarrow> map_of (p_index p) sec \<noteq> None"

definition prefs_keyExists :: "prefs \<Rightarrow> string \<Rightarrow> string \<Rightarrow> bool" where
  "prefs_keyExists p sec key = (case find_sec p sec of None \<Rightarrow> False | Some s \<Rightarrow> sec_keyExists s key)"

definition addSection :: "string \<Rightarrow> prefs \<Rightarrow> prefs" where
  "addSection name p = (if sectionExists p name then p else prefs_addItem (PSection (new_section\<lparr>sec_name := name\<rparr>)) p)"

text \<open>The search for a free name; the counter is a \<open>size_t\<close> and stops the loop when it wraps.\<close>

function unique_name :: "prefs \<Rightarrow> string \<Rightarrow> nat \<Rightarrow> string option" where
  "unique_name p nameTemplate cntr =
     (if \<not> sectionExists p (nameTemplate @ pad4 cntr) then Some (nameTemplate @ pad4 cntr)
      else if 2 ^ 64 \<le> cntr + 1 then None
      else unique_name p nameTemplate (cntr + 1))"
  by pat_completeness auto
termination by (relation "measure (\<lambda>(p, t, cntr). 2 ^ 64 - cntr)") auto

declare unique_name.simps [simp del]

definition addSection_unique :: "string \<Rightarrow> prefs \<Rightarrow> string option \<times> prefs" where
  "addSection_unique nameTemplate p =
     (if \<not> sectionExists p nameTemplate then (Some nameTemplate, addSection nameTemplate p)
      else case unique_name p nameTemplate 0 of
        None \<Rightarrow> (None, p)
      | Some name \<Rightarrow> (Some name, addSection name p))"

text \<open>Changing the section found in the index.\<close>

definition upd_section :: "(pref_section \<Rightarrow> pref_section) \<Rightarrow> string \<Rightarrow> prefs \<Rightarrow> prefs" where
  "upd_section f sec p = (case map_of (p_index p) sec of
     None \<Rightarrow> p
   | Some i \<Rightarrow> p\<lparr>p_items := (p_items p)[i := PSection (f (section_at p i))]\<rparr>)"

definition setValue :: "string \<Rightarrow> string \<Rightarrow> string \<Rightarrow> prefs \<Rightarrow> prefs" where
  "setValue sec key v p = upd_section (sec_setValue key v) sec (setChangeFlag (addSection sec p))"

definition setValue_int :: "string \<Rightarrow> string \<Rightarrow> int \<Rightarrow> prefs \<Rightarrow> prefs" where
  "setValue_int sec key v p = upd_section (sec_setValue key (show_int v)) sec (setChangeFlag (addSection sec p))"

definition setValue_flt :: "string \<Rightarrow> string \<Rightarrow> cflt \<Rightarrow> prefs \<Rightarrow> prefs" where
  "setValue_flt sec key v p = upd_section (sec_setValue key (show_flt v)) sec (setChangeFlag (addSection sec p))"

definition prefs_addKey :: "string \<Rightarrow> string \<Rightarrow> string \<Rightarrow> prefs \<Rightarrow> prefs" where
  "prefs_addKey sec key v p = upd_section (sec_addKey key v) sec (setChangeFlag (addSection sec p))"

text \<open>Sections in the order of their names: the first in which the key has the value, all that have the key.\<close>

definition findSection :: "prefs \<Rightarrow> string \<Rightarrow> string \<Rightarrow> string option" where
  "findSection p key v =
     map_option (\<lambda>(n, i). sec_name (section_at p i)) (find (\<lambda>(n, i). sec_getValue (section_at p i) key = Some v) (p_index p))"

definition findSections :: "prefs \<Rightarrow> string \<Rightarrow> string list" where
  "findSections p key = map (\<lambda>(n, i). sec_name (section_at p i)) (filter (\<lambda>(n, i). sec_getValue (section_at p i) key \<noteq> None) (p_index p))"


subsection \<open>The index\<close>

text \<open>The position of the first element with a name; elements may have none.\<close>

fun first_at :: "('a \<Rightarrow> string option) \<Rightarrow> 'a list \<Rightarrow> string \<Rightarrow> nat option" where
  "first_at nm [] k = None"
| "first_at nm (x # xs) k = (if nm x = Some k then Some 0 else map_option Suc (first_at nm xs k))"

definition index_ok :: "('a \<Rightarrow> string option) \<Rightarrow> 'a list \<Rightarrow> (string \<times> nat) list \<Rightarrow> bool" where
  "index_ok nm xs idx \<longleftrightarrow> sorted (map fst idx) \<and> distinct (map fst idx) \<and> map_of idx = first_at nm xs"

lemma first_at_append:
  "first_at nm (xs @ [x]) k =
     (case first_at nm xs k of Some i \<Rightarrow> Some i | None \<Rightarrow> if nm x = Some k then Some (length xs) else None)"
  by (induction xs) (auto split: option.splits)

lemma first_at_SomeD: "first_at nm xs k = Some i \<Longrightarrow> i < length xs \<and> nm (xs ! i) = Some k"
  by (induction xs arbitrary: i) (auto split: if_split_asm)

lemma first_at_update: "i < length xs \<Longrightarrow> nm y = nm (xs ! i) \<Longrightarrow> first_at nm (xs[i := y]) = first_at nm xs"
proof (induction xs arbitrary: i)
  case (Cons x xs)
  then show ?case by (cases i) (auto simp: fun_eq_iff)
qed simp

lemma index_ok_Nil [simp]: "index_ok nm [] []"
  by (simp add: index_ok_def fun_eq_iff)

lemma index_ok_append:
  assumes "index_ok nm xs idx"
  shows "index_ok nm (xs @ [x]) (case nm x of Some k \<Rightarrow> std_insert k (length xs) idx | None \<Rightarrow> idx)"
  using assms std_insert_ok [of idx] map_of_std_insert [of idx]
  by (auto simp: index_ok_def fun_eq_iff first_at_append domIff split: option.splits)

lemma index_ok_update:
  "index_ok nm xs idx \<Longrightarrow> i < length xs \<Longrightarrow> nm y = nm (xs ! i) \<Longrightarrow> index_ok nm (xs[i := y]) idx"
  by (simp add: index_ok_def first_at_update)

lemma index_ok_lookup: "index_ok nm xs idx \<Longrightarrow> map_of idx k = first_at nm xs k"
  by (simp add: index_ok_def)

text \<open>Distinct names have distinct positions.\<close>

lemma first_at_inj: "first_at nm xs k = Some i \<Longrightarrow> first_at nm xs k' = Some i \<Longrightarrow> k = k'"
  by (auto dest!: first_at_SomeD)

subsection \<open>Sections: the invariant and the laws\<close>

fun kv_name :: "section_item \<Rightarrow> string option" where
  "kv_name (KeyVal k v) = Some k"
| "kv_name (SecComment c) = None"

definition sec_ok :: "pref_section \<Rightarrow> bool" where
  "sec_ok s \<longleftrightarrow> index_ok kv_name (sec_items s) (sec_index s)"

lemma new_section_ok [simp]: "sec_ok new_section" "sec_ok (new_section\<lparr>sec_name := n\<rparr>)"
  by (simp_all add: sec_ok_def new_section_def)

lemma sec_addItem_ok [inv_intro]: "sec_ok s \<Longrightarrow> sec_ok (sec_addItem si s)"
  using index_ok_append [of kv_name "sec_items s" "sec_index s" si]
  by (auto simp: sec_ok_def sec_addItem_def split: section_item.splits)

lemma sec_addItem_name [simp]: "sec_name (sec_addItem si s) = sec_name s"
  by (simp add: sec_addItem_def)

lemma sec_setValue_name [simp]: "sec_name (sec_setValue k v s) = sec_name s"
  by (simp add: sec_setValue_def split: option.splits)

lemma sec_setValue_ok [inv_intro]:
  assumes "sec_ok s"
  shows "sec_ok (sec_setValue k v s)"
proof (cases "map_of (sec_index s) k")
  case None
  then show ?thesis using assms by (simp add: sec_setValue_def sec_addItem_ok)
next
  case (Some i)
  then have "first_at kv_name (sec_items s) k = Some i" using assms by (simp add: sec_ok_def index_ok_lookup)
  from first_at_SomeD [OF this] Some assms show ?thesis
    by (simp add: sec_setValue_def sec_ok_def index_ok_update)
qed

lemma sec_getValue_addItem:
  assumes "sec_ok s"
  shows "sec_getValue (sec_addItem si s) k' =
    (case sec_getValue s k' of Some v \<Rightarrow> Some v
     | None \<Rightarrow> (case si of KeyVal k v \<Rightarrow> if k = k' then Some v else None | SecComment c \<Rightarrow> None))"
proof -
  have "map_of (sec_index (sec_addItem si s)) k' = first_at kv_name (sec_items s @ [si]) k'"
    using sec_addItem_ok [OF assms, of si] by (simp add: sec_ok_def index_ok_lookup sec_addItem_def)
  then show ?thesis using assms
    by (auto simp: sec_getValue_def sec_ok_def index_ok_lookup first_at_append kv_at_def sec_addItem_def nth_append
        dest: first_at_SomeD split: option.splits section_item.splits)
qed

lemma sec_get_set:
  assumes "sec_ok s"
  shows "sec_getValue (sec_setValue k v s) k' = (if k' = k then Some v else sec_getValue s k')"
proof (cases "map_of (sec_index s) k")
  case None
  then have "sec_getValue s k = None" by (simp add: sec_getValue_def)
  with None assms show ?thesis by (auto simp: sec_setValue_def sec_getValue_addItem split: option.splits)
next
  case (Some i)
  then have f: "first_at kv_name (sec_items s) k = Some i" using assms by (simp add: sec_ok_def index_ok_lookup)
  show ?thesis
  proof (cases "map_of (sec_index s) k'")
    case (Some j)
    then have g: "first_at kv_name (sec_items s) k' = Some j" using assms by (simp add: sec_ok_def index_ok_lookup)
    show ?thesis using Some \<open>map_of (sec_index s) k = Some i\<close> first_at_SomeD [OF f] first_at_inj [OF f] g
      by (auto simp: sec_setValue_def sec_getValue_def kv_at_def nth_list_update)
  qed (use Some in \<open>auto simp: sec_setValue_def sec_getValue_def\<close>)
qed

text \<open>The contract of a store of values under keys, as every user of the preferences relies on it.\<close>

locale key_store =
  fixes ok :: "'s \<Rightarrow> bool"
    and lookup :: "'s \<Rightarrow> 'k \<Rightarrow> 'v option"
    and store :: "'k \<Rightarrow> 'v \<Rightarrow> 's \<Rightarrow> 's"
  assumes store_ok: "ok s \<Longrightarrow> ok (store k v s)"
    and lookup_store: "ok s \<Longrightarrow> lookup (store k v s) k' = (if k' = k then Some v else lookup s k')"
begin

definition store_all :: "('k \<times> 'v) list \<Rightarrow> 's \<Rightarrow> 's" where
  "store_all kvs s = fold (\<lambda>(k, v). store k v) kvs s"

lemma store_all_ok: "ok s \<Longrightarrow> ok (store_all kvs s)"
  by (induction kvs arbitrary: s) (auto simp: store_all_def store_ok)

lemma lookup_store_all:
  "ok s \<Longrightarrow> lookup (store_all kvs s) k = (case map_of (rev kvs) k of Some v \<Rightarrow> Some v | None \<Rightarrow> lookup s k)"
  by (induction kvs arbitrary: s) (auto simp: store_all_def store_ok lookup_store map_add_def split: option.splits)

lemma store_twice: "ok s \<Longrightarrow> lookup (store k v (store k w s)) = lookup (store k v s)"
  by (auto simp: fun_eq_iff store_ok lookup_store)

lemma store_swap: "ok s \<Longrightarrow> k \<noteq> k' \<Longrightarrow> lookup (store k v (store k' w s)) = lookup (store k' w (store k v s))"
  by (auto simp: fun_eq_iff store_ok lookup_store)

end

interpretation in_section: key_store sec_ok sec_getValue sec_setValue
  by unfold_locales (simp_all add: sec_setValue_ok sec_get_set)

subsection \<open>The store: the invariant and the laws\<close>

fun item_name :: "pref_item \<Rightarrow> string option" where
  "item_name (PSection s) = Some (sec_name s)"
| "item_name (PComment c) = None"

fun item_ok :: "pref_item \<Rightarrow> bool" where
  "item_ok (PSection s) = sec_ok s"
| "item_ok (PComment c) = True"

definition prefs_ok :: "prefs \<Rightarrow> bool" where
  "prefs_ok p \<longleftrightarrow> index_ok item_name (p_items p) (p_index p) \<and> list_all item_ok (p_items p)"

lemma prefs_empty_ok [simp]: "prefs_ok prefs_empty" "prefs_ok (prefs_clear p)"
  by (simp_all add: prefs_ok_def prefs_empty_def prefs_clear_def)

lemma prefs_flag_ok [simp]: "prefs_ok (p\<lparr>changed_flag := b\<rparr>) = prefs_ok p"
  by (simp add: prefs_ok_def)

lemma prefs_addItem_ok [inv_intro]: "prefs_ok p \<Longrightarrow> item_ok i \<Longrightarrow> prefs_ok (prefs_addItem i p)"
  using index_ok_append [of item_name "p_items p" "p_index p" i]
  by (auto simp: prefs_ok_def prefs_addItem_def setChangeFlag_def split: pref_item.splits)

lemma prefs_lookup: "prefs_ok p \<Longrightarrow> map_of (p_index p) n = first_at item_name (p_items p) n"
  by (simp add: prefs_ok_def index_ok_lookup)

lemma prefs_indexD:
  assumes "prefs_ok p" and "map_of (p_index p) n = Some i"
  shows "i < length (p_items p)" and "p_items p ! i = PSection (section_at p i)"
    and "sec_name (section_at p i) = n" and "sec_ok (section_at p i)"
proof -
  have f: "first_at item_name (p_items p) n = Some i" using assms by (simp add: prefs_lookup)
  note d = first_at_SomeD [OF f]
  then show i: "i < length (p_items p)" by simp
  obtain s where s: "p_items p ! i = PSection s" using d by (cases "p_items p ! i") auto
  then show e: "p_items p ! i = PSection (section_at p i)" by (simp add: section_at_def)
  show "sec_name (section_at p i) = n" using d s by (simp add: section_at_def)
  have "item_ok (p_items p ! i)" using assms(1) i by (simp add: prefs_ok_def list_all_length)
  then show "sec_ok (section_at p i)" using e by simp
qed

lemma addSection_ok [inv_intro]: "prefs_ok p \<Longrightarrow> prefs_ok (addSection n p)"
  by (simp add: addSection_def prefs_addItem_ok)

lemma find_sec_addSection:
  assumes "prefs_ok p"
  shows "find_sec (addSection n p) m =
    (case find_sec p m of Some s \<Rightarrow> Some s | None \<Rightarrow> if m = n then Some (new_section\<lparr>sec_name := n\<rparr>) else None)"
proof (cases "sectionExists p n")
  case True
  then show ?thesis by (auto simp: addSection_def find_sec_def sectionExists_def split: option.splits)
next
  case False
  have ok: "prefs_ok (addSection n p)" using assms by (rule addSection_ok)
  have "p_items (addSection n p) = p_items p @ [PSection (new_section\<lparr>sec_name := n\<rparr>)]"
    using False by (simp add: addSection_def prefs_addItem_def setChangeFlag_def)
  with assms show ?thesis
    by (auto simp: find_sec_def prefs_lookup [OF ok] prefs_lookup first_at_append section_at_def nth_append new_section_def
        dest: first_at_SomeD split: option.splits)
qed

lemma sectionExists_addSection: "prefs_ok p \<Longrightarrow> sectionExists (addSection n p) n"
  using find_sec_addSection [of p n n] by (auto simp: sectionExists_def find_sec_def split: option.splits)

lemma getValue_addSection: "prefs_ok p \<Longrightarrow> getValue (addSection n p) m = getValue p m"
  by (auto simp: getValue_def fun_eq_iff find_sec_addSection sec_getValue_def new_section_def split: option.splits)

lemma upd_section_ok:
  assumes "prefs_ok p" and "\<And>s. sec_ok s \<Longrightarrow> sec_ok (f s)" and "\<And>s. sec_name (f s) = sec_name s"
  shows "prefs_ok (upd_section f n p)"
proof (cases "map_of (p_index p) n")
  case (Some i)
  note d = prefs_indexD [OF assms(1) Some]
  have "list_all item_ok ((p_items p)[i := PSection (f (section_at p i))])"
    using assms(1) d(4) assms(2) by (auto simp: prefs_ok_def list_all_iff dest!: subsetD [OF set_update_subset_insert])
  with Some d assms show ?thesis by (simp add: upd_section_def prefs_ok_def index_ok_update)
qed (simp add: upd_section_def assms(1))

lemma find_sec_upd:
  assumes "prefs_ok p"
  shows "find_sec (upd_section f n p) m = (if m = n then map_option f (find_sec p n) else find_sec p m)"
proof (cases "map_of (p_index p) n")
  case (Some i)
  note d = prefs_indexD [OF assms(1) Some]
  have "j \<noteq> i" if "m \<noteq> n" "map_of (p_index p) m = Some j" for j
    using that prefs_indexD(3) [OF assms that(2)] d(3) by auto
  then show ?thesis using Some d(1)
    by (cases "map_of (p_index p) m") (auto simp: find_sec_def upd_section_def section_at_def nth_list_update)
qed (auto simp: find_sec_def upd_section_def)

lemma setValue_ok [inv_intro]: "prefs_ok p \<Longrightarrow> prefs_ok (setValue sec key v p)"
  unfolding setValue_def setChangeFlag_def by (rule upd_section_ok) (simp_all add: addSection_ok sec_setValue_ok)

lemma find_sec_flag [simp]: "find_sec (p\<lparr>changed_flag := b\<rparr>) = find_sec p"
proof -
  have "section_at (p\<lparr>changed_flag := b\<rparr>) = section_at p" by (simp add: fun_eq_iff section_at_def)
  then show ?thesis by (intro ext) (simp add: find_sec_def)
qed

lemma get_set:
  assumes "prefs_ok p"
  shows "getValue (setValue sec key v p) s k = (if s = sec \<and> k = key then Some v else getValue p s k)"
proof -
  let ?a = "addSection sec p"
  have ok: "prefs_ok (?a\<lparr>changed_flag := True\<rparr>)" using assms by (simp add: addSection_ok)
  have f: "find_sec (setValue sec key v p) s = (if s = sec then map_option (sec_setValue key v) (find_sec ?a sec) else find_sec ?a s)"
    unfolding setValue_def setChangeFlag_def by (simp add: find_sec_upd [OF ok])
  obtain t where t: "find_sec ?a sec = Some t" using sectionExists_addSection [OF assms, of sec]
    by (auto simp: sectionExists_def find_sec_def)
  have "sec_ok t" using t prefs_indexD(4) [OF addSection_ok [OF assms]] by (auto simp: find_sec_def)
  moreover have "getValue p s k = (case find_sec ?a s of None \<Rightarrow> None | Some x \<Rightarrow> sec_getValue x k)"
    using getValue_addSection [OF assms, of sec s] by (simp add: getValue_def fun_eq_iff)
  ultimately show ?thesis using t by (auto simp: getValue_def f sec_get_set)
qed

interpretation in_prefs: key_store prefs_ok "\<lambda>p (sec, key). getValue p sec key" "\<lambda>(sec, key) v. setValue sec key v"
  by unfold_locales (simp_all add: setValue_ok get_set split: prod.splits)

subsection \<open>All stores the program builds\<close>

inductive pref_step :: "prefs \<Rightarrow> prefs \<Rightarrow> bool" where
  comment: "pref_step p (prefs_addItem (PComment c) p)"
| loaded: "pref_step p (prefs_addItem (PSection ((fold sec_addItem is new_section)\<lparr>sec_name := n\<rparr>)) p)"
| section_added: "pref_step p (addSection n p)"
| unique_added: "pref_step p (snd (addSection_unique t p))"
| value_set: "pref_step p (setValue sec key v p)"
| int_set: "pref_step p (setValue_int sec key i p)"
| float_set: "pref_step p (setValue_flt sec key x p)"
| key_added: "pref_step p (prefs_addKey sec key v p)"
| flag_set: "pref_step p (setChangeFlag p)"
| flag_reset: "pref_step p (resetChangeFlag p)"
| cleared: "pref_step p (prefs_clear p)"

lemma setValue_others:
  "setValue_int sec key i = setValue sec key (show_int i)"
  "setValue_flt sec key x = setValue sec key (show_flt x)"
  "prefs_addKey sec key v = setValue sec key v"
  by (auto simp: fun_eq_iff setValue_def setValue_int_def setValue_flt_def prefs_addKey_def sec_addKey_def [abs_def])

lemma fold_addItem_ok: "sec_ok s \<Longrightarrow> sec_ok (fold sec_addItem is s)"
  by (induction "is" arbitrary: s) (auto intro: sec_addItem_ok)

lemma sec_name_ok [simp]: "sec_ok (s\<lparr>sec_name := n\<rparr>) = sec_ok s"
  by (simp add: sec_ok_def)

lemma pref_step_ok: "pref_step p q \<Longrightarrow> prefs_ok p \<Longrightarrow> prefs_ok q"
proof (induction rule: pref_step.induct)
  case (unique_added p t)
  then show ?case by (auto simp: addSection_unique_def addSection_ok split: option.splits)
qed (simp_all add: prefs_addItem_ok addSection_ok setValue_ok setValue_others fold_addItem_ok setChangeFlag_def resetChangeFlag_def)

lemma reachable_ok: "pref_step\<^sup>*\<^sup>* prefs_empty p \<Longrightarrow> prefs_ok p"
  by (induction rule: rtranclp_induct) (auto intro: pref_step_ok)

text \<open>The reference: the first section of the name, and in it the first key of the name.\<close>

definition ref_getValue :: "pref_item list \<Rightarrow> string \<Rightarrow> string \<Rightarrow> string option" where
  "ref_getValue is sec key =
     (case find (\<lambda>i. item_name i = Some sec) is of
       Some (PSection s) \<Rightarrow> (case find (\<lambda>i. kv_name i = Some key) (sec_items s) of Some (KeyVal k v) \<Rightarrow> Some v | _ \<Rightarrow> None)
     | _ \<Rightarrow> None)"

lemma find_first_at: "find (\<lambda>x. nm x = Some k) xs = map_option ((!) xs) (first_at nm xs k)"
  by (induction xs) (auto simp: option.map_comp comp_def)

lemma sec_getValue_find:
  "sec_ok s \<Longrightarrow> sec_getValue s key = (case find (\<lambda>i. kv_name i = Some key) (sec_items s) of Some (KeyVal k v) \<Rightarrow> Some v | _ \<Rightarrow> None)"
  by (auto simp: sec_getValue_def sec_ok_def index_ok_lookup find_first_at kv_at_def
      split: option.splits section_item.splits dest!: first_at_SomeD)

text \<open>C16: The index of the preferences never shows: in every store that any sequence of the operations builds,
  a lookup finds what a search of the items from the start finds, the first key of that name in the first
  section of that name, although setting values, loading files with repeated sections and clearing keep the
  index only by pieces.\<close>

theorem lookup_is_search:
  assumes "pref_step\<^sup>*\<^sup>* prefs_empty p"
  shows "getValue p sec key = ref_getValue (p_items p) sec key"
proof -
  have ok: "prefs_ok p" using assms by (rule reachable_ok)
  have f: "find (\<lambda>i. item_name i = Some sec) (p_items p) = map_option ((!) (p_items p)) (map_of (p_index p) sec)"
    by (simp add: find_first_at prefs_lookup [OF ok])
  show ?thesis
  proof (cases "map_of (p_index p) sec")
    case None
    then show ?thesis by (simp add: getValue_def find_sec_def ref_getValue_def f)
  next
    case (Some i)
    note d = prefs_indexD [OF ok Some]
    show ?thesis using Some d(2) sec_getValue_find [OF d(4), of key] by (simp add: getValue_def find_sec_def ref_getValue_def f)
  qed
qed

theorem lookup_is_search_witness:
  "getValue (prefs_addItem (PSection ((fold sec_addItem [KeyVal ''K'' ''2''] new_section)\<lparr>sec_name := ''S''\<rparr>))
      (setValue ''S'' ''K'' ''1'' prefs_empty)) ''S'' ''K'' = Some ''1''"
proof -
  let ?p = "setValue ''S'' ''K'' ''1'' prefs_empty"
  let ?q = "prefs_addItem (PSection ((fold sec_addItem [KeyVal ''K'' ''2''] new_section)\<lparr>sec_name := ''S''\<rparr>)) ?p"
  have "pref_step prefs_empty ?p" by (rule pref_step.value_set)
  moreover have "pref_step ?p ?q" by (rule pref_step.loaded)
  ultimately have "pref_step\<^sup>*\<^sup>* prefs_empty ?q" by simp
  then show ?thesis
    by (subst lookup_is_search) (simp_all add: ref_getValue_def prefs_addItem_def setValue_def upd_section_def addSection_def
        sectionExists_def prefs_empty_def setChangeFlag_def new_section_def section_at_def sec_setValue_def sec_addItem_def)
qed

text \<open>C17: A value set is the value read, whatever was set before and after under other names: after any
  sequence of settings the value of a key is the one set last, and the one it had before when it was not set.\<close>

theorem last_setting_wins:
  assumes "pref_step\<^sup>*\<^sup>* prefs_empty p"
  shows "getValue (fold (\<lambda>((sec, key), v). setValue sec key v) sets p) s k =
    (case map_of (rev sets) (s, k) of Some v \<Rightarrow> Some v | None \<Rightarrow> getValue p s k)"
proof -
  have "fold (\<lambda>((sec, key), v). setValue sec key v) sets p = in_prefs.store_all sets p"
    unfolding in_prefs.store_all_def by (rule arg_cong [where f = "\<lambda>f. fold f sets p"]) (simp add: fun_eq_iff)
  then show ?thesis
    using in_prefs.lookup_store_all [OF reachable_ok [OF assms], of sets "(s, k)"] by (simp split: option.split)
qed

theorem last_setting_wins_witness:
  "getValue (fold (\<lambda>((sec, key), v). setValue sec key v)
      [((''A'', ''x''), ''1''), ((''B'', ''x''), ''2''), ((''A'', ''x''), ''3'')] prefs_empty) ''A'' ''x'' = Some ''3''"
  by (subst last_setting_wins) simp_all

text \<open>The name found for a new section is the first free one; there is always one among \<open>2 ^ 64\<close> when the store
  has fewer sections.\<close>

lemma unique_name_Some:
  assumes "unique_name p t c = Some n"
  shows "\<exists>m \<ge> c. n = t @ pad4 m \<and> \<not> sectionExists p n \<and> (\<forall>j \<in> {c..<m}. sectionExists p (t @ pad4 j))"
  using assms
proof (induction p t c rule: unique_name.induct)
  case (1 p t c)
  show ?case
  proof (cases "sectionExists p (t @ pad4 c)")
    case False
    then show ?thesis using "1.prems" by (subst (asm) unique_name.simps) auto
  next
    case True
    then have "unique_name p t (c + 1) = Some n" and c: "\<not> 2 ^ 64 \<le> c + 1"
      using "1.prems" by (auto simp: unique_name.simps [of p t c] split: if_splits)
    from "1.IH" [OF _ c this(1)] True obtain m where m: "c + 1 \<le> m" "n = t @ pad4 m" "\<not> sectionExists p n"
      "\<forall>j \<in> {c + 1..<m}. sectionExists p (t @ pad4 j)" by blast
    have "\<forall>j \<in> {c..<m}. sectionExists p (t @ pad4 j)" using m(4) True by (metis Suc_eq_plus1 Suc_leI atLeastLessThan_iff le_neq_implies_less)
    then show ?thesis using m by (metis Suc_eq_plus1 Suc_leD)
  qed
qed

text \<open>A profile is never given the section of another: the name that \<open>ltr_int_add_unique_section\<close> returns was
  not in use, it is the template or the template with the smallest free four-digit number, the new section is there afterwards and
  empty, and every value in the store stays as it was.\<close>

theorem unique_section_is_new:
  assumes "pref_step\<^sup>*\<^sup>* prefs_empty p" and "addSection_unique t p = (Some n, q)"
  shows "\<not> sectionExists p n \<and> sectionExists q n \<and> (\<forall>s k. getValue q s k = getValue p s k) \<and> (\<forall>k. getValue q n k = None) \<and>
    (n = t \<or> sectionExists p t \<and> (\<exists>m. n = t @ pad4 m \<and> (\<forall>j < m. sectionExists p (t @ pad4 j))))"
proof -
  have ok: "prefs_ok p" using assms(1) by (rule reachable_ok)
  have q: "q = addSection n p" using assms(2) by (auto simp: addSection_unique_def split: if_splits option.splits)
  have new: "\<not> sectionExists p n"
    using assms(2) unique_name_Some [of p t 0 n] by (auto simp: addSection_unique_def split: if_splits option.splits)
  have "getValue q s k = getValue p s k" for s k using getValue_addSection [OF ok] q by (simp add: fun_eq_iff)
  moreover have "getValue p n k = None" for k using new by (simp add: getValue_def find_sec_def sectionExists_def)
  moreover have "sectionExists q n" using sectionExists_addSection [OF ok] q by simp
  moreover have "n = t \<or> sectionExists p t \<and> (\<exists>m. n = t @ pad4 m \<and> (\<forall>j < m. sectionExists p (t @ pad4 j)))"
    using assms(2) unique_name_Some [of p t 0 n] by (auto simp: addSection_unique_def split: if_splits option.splits)
  ultimately show ?thesis using new by simp
qed

theorem unique_section_is_new_witness:
  "\<not> sectionExists (setValue ''Profile'' ''Title'' ''x'' prefs_empty) ''Profile0000'' \<and>
   fst (addSection_unique ''Profile'' (setValue ''Profile'' ''Title'' ''x'' prefs_empty)) = Some ''Profile0000''"
proof -
  let ?p = "setValue ''Profile'' ''Title'' ''x'' prefs_empty"
  have r: "pref_step\<^sup>*\<^sup>* prefs_empty ?p" by (rule r_into_rtranclp) (rule pref_step.value_set)
  have "sectionExists ?p n \<longleftrightarrow> n = ''Profile''" for n
    by (simp add: setValue_def upd_section_def addSection_def sectionExists_def prefs_empty_def setChangeFlag_def prefs_addItem_def new_section_def)
  then have u: "unique_name ?p ''Profile'' 0 = Some ''Profile0000''" and e: "sectionExists ?p ''Profile''"
    by (simp_all add: unique_name.simps [of _ _ 0] pad4_0)
  obtain q where q: "addSection_unique ''Profile'' ?p = (Some ''Profile0000'', q)" using u e by (simp add: addSection_unique_def)
  from unique_section_is_new [OF r this] q show ?thesis by simp
qed

end
