(* ===== verification/PrefFile.thy ===== *)
theory PrefFile
  imports Pref
begin

text \<open>
  The preference file: \<open>src/pref_flex.lpp\<close> (the scanner), \<open>src/pref_bison.ypp\<close> (the grammar), the printing
  operations of \<open>src/pref.cpp\<close>, and the C interface of \<open>src/pref.h\<close> with reading and saving.
\<close>

subsection \<open>Printing\<close>

fun print_item :: "pref_item \<Rightarrow> string" where
  "print_item (PSection s) = print_section s"
| "print_item (PComment c) = ''###'' @ c @ [CHR 0x0A]"

definition print_prefs :: "prefs \<Rightarrow> string" where
  "print_prefs p = concat (map (\<lambda>i. print_item i @ [CHR 0x0A]) (p_items p)) @ [CHR 0x0A]"

subsection \<open>Reading: the tokens\<close>

datatype token = TOKEN_COMMENT string | TOKEN_LEFT_BRACKET | TOKEN_RIGHT_BRACKET | TOKEN_KEY string | TOKEN_EQ
  | TOKEN_VALUE string | TOKEN_SECNAME string

datatype lex_state = INITIAL | VALUE | SEC_NAME

definition is_key_char :: "char \<Rightarrow> bool" where
  "is_key_char c \<longleftrightarrow> c = CHR ''_'' \<or> c = CHR ''-'' \<or> is_digit c \<or>
     65 \<le> (of_char c :: nat) \<and> (of_char c :: nat) \<le> 90 \<or> 97 \<le> (of_char c :: nat) \<and> (of_char c :: nat) \<le> 122"

definition not_nl :: "char \<Rightarrow> bool" where "not_nl c \<longleftrightarrow> c \<noteq> CHR 0x0A"
definition in_secname :: "char \<Rightarrow> bool" where "in_secname c \<longleftrightarrow> c \<noteq> CHR '']'' \<and> c \<noteq> CHR 0x0A"

text \<open>The rules of the scanner. A character no rule of an exclusive state matches is passed over; the names
  and values that end at once give no token.\<close>

function lex :: "lex_state \<Rightarrow> string \<Rightarrow> token list" where
  "lex st [] = []"
| "lex VALUE (c # s) =
     (if c = CHR 0x0A then lex INITIAL s
      else TOKEN_VALUE (takeWhile not_nl (c # s)) # lex VALUE (dropWhile not_nl (c # s)))"
| "lex SEC_NAME (c # s) =
     (if in_secname c then TOKEN_SECNAME (takeWhile in_secname (c # s)) # lex INITIAL (dropWhile in_secname (c # s))
      else lex SEC_NAME s)"
| "lex INITIAL (c # s) =
     (if c = CHR ''='' then TOKEN_EQ # lex VALUE (dropWhile is_blank s)
      else if c = CHR ''['' then TOKEN_LEFT_BRACKET # lex SEC_NAME s
      else if c = CHR '']'' then TOKEN_RIGHT_BRACKET # lex INITIAL s
      else if is_key_char c then TOKEN_KEY (takeWhile is_key_char (c # s)) # lex INITIAL (dropWhile is_key_char (c # s))
      else if c = CHR ''#'' then TOKEN_COMMENT (takeWhile not_nl (c # s)) # lex INITIAL (dropWhile not_nl (c # s))
      else lex INITIAL s)"
  by pat_completeness auto
termination
  by (relation "measure (\<lambda>(st, s). length s)") (auto simp: not_nl_def le_imp_less_Suc length_dropWhile_le)

declare lex.simps [simp del]

subsection \<open>Reading: the grammar\<close>

text \<open>A comment after a section belongs to the section. Any syntax error makes the whole file unreadable
  (\<open>parser_error\<close>), so error recovery does not matter.\<close>

fun parse_content :: "pref_section \<Rightarrow> token list \<Rightarrow> pref_section \<times> token list" where
  "parse_content s (TOKEN_KEY k # TOKEN_EQ # TOKEN_VALUE v # ts) = parse_content (sec_addItem (KeyVal k v) s) ts"
| "parse_content s (TOKEN_COMMENT c # ts) = parse_content (sec_addItem (SecComment c) s) ts"
| "parse_content s ts = (s, ts)"

lemma parse_content_length: "length (snd (parse_content s ts)) \<le> length ts"
  by (induction s ts rule: parse_content.induct) auto

lemma parse_content_shorter: "parse_content s ts = (s', ts') \<Longrightarrow> length ts' \<le> length ts"
  using parse_content_length [of s ts] by simp

function parse_input :: "prefs \<Rightarrow> token list \<Rightarrow> prefs option" where
  "parse_input p [] = Some p"
| "parse_input p (TOKEN_COMMENT c # ts) = parse_input (prefs_addItem (PComment c) p) ts"
| "parse_input p (TOKEN_LEFT_BRACKET # ts) = (case ts of
     TOKEN_SECNAME n # TOKEN_RIGHT_BRACKET # ts \<Rightarrow>
       (case parse_content new_section ts of (s, ts) \<Rightarrow> parse_input (prefs_addItem (PSection (s\<lparr>sec_name := n\<rparr>)) p) ts)
   | _ \<Rightarrow> None)"
| "parse_input p (TOKEN_RIGHT_BRACKET # ts) = None"
| "parse_input p (TOKEN_KEY k # ts) = None"
| "parse_input p (TOKEN_EQ # ts) = None"
| "parse_input p (TOKEN_VALUE v # ts) = None"
| "parse_input p (TOKEN_SECNAME n # ts) = None"
  by pat_completeness auto
termination
  by (relation "measure (\<lambda>(p, ts). length ts)") (auto dest!: sym [THEN parse_content_shorter])

declare parse_input.simps [simp del]

subsection \<open>The C interface\<close>

text \<open>The calls of the operating system: the directory of the user, which files can be opened, which renamings
  succeed, and what reaches the disk of a text written (the code does not check its writes).\<close>

record pref_os =
  home :: "string option"
  can_read :: "string \<Rightarrow> bool"
  can_write :: "string \<Rightarrow> bool"
  can_rename :: "string \<Rightarrow> string \<Rightarrow> bool"
  on_disk :: "string \<Rightarrow> string"

record pref_world =
  the_prefs :: prefs
  files :: "string \<Rightarrow> string option"
  prefs_read :: bool

definition pref_file :: string where "pref_file = ''linuxtrack1.conf''"

definition ltr_int_get_default_file_name :: "pref_os \<Rightarrow> string option \<Rightarrow> string option" where
  "ltr_int_get_default_file_name E fname =
     map_option (\<lambda>h. h @ ''/.config/linuxtrack/'' @ (case fname of None \<Rightarrow> pref_file | Some f \<Rightarrow> f)) (home E)"

definition parse_text :: "string \<Rightarrow> prefs option" where
  "parse_text s = parse_input prefs_empty (lex INITIAL s)"

definition parse_prefs :: "pref_os \<Rightarrow> (string \<Rightarrow> string option) \<Rightarrow> string \<Rightarrow> prefs option" where
  "parse_prefs E fs fname =
     (if can_read E fname then (case fs fname of Some s \<Rightarrow> map_option resetChangeFlag (parse_text s) | None \<Rightarrow> None) else None)"

text \<open>\<open>freePrefs\<close> deletes the store; the next use makes an empty one. A failing \<open>parse_prefs\<close> does so.\<close>

definition ltr_int_free_prefs :: "pref_world \<Rightarrow> pref_world" where
  "ltr_int_free_prefs w = w\<lparr>the_prefs := prefs_empty\<rparr>"

definition ltr_int_new_prefs :: "pref_world \<Rightarrow> bool \<times> pref_world" where
  "ltr_int_new_prefs w = (True, w\<lparr>the_prefs := prefs_clear (the_prefs w)\<rparr>)"

text \<open>
  With an empty name \<open>ltr_int_dump_prefs\<close> passes the printed store to \<open>ltr_int_log_message\<close> as its format, with no arguments. That is
  defined only for a text that has no directive but \<open>%%\<close>; otherwise the result is \<open>None\<close>. No text of a store holds a zero character.
\<close>

fun format_plain :: "string \<Rightarrow> bool" where
  "format_plain [] = True"
| "format_plain (c # s) =
     (if c \<noteq> CHR ''%'' then format_plain s else case s of [] \<Rightarrow> False | d # t \<Rightarrow> d = CHR ''%'' \<and> format_plain t)"

text \<open>The other branch of \<open>ltr_int_dump_prefs\<close> writes a file.\<close>

definition dump_file :: "pref_os \<Rightarrow> string \<Rightarrow> pref_world \<Rightarrow> bool \<times> pref_world" where
  "dump_file E file_name w =
     (if \<not> can_write E file_name then (False, w)
      else (True, w\<lparr>files := (files w)(file_name \<mapsto> on_disk E (print_prefs (the_prefs w)))\<rparr>))"

definition ltr_int_dump_prefs :: "pref_os \<Rightarrow> string \<Rightarrow> pref_world \<Rightarrow> (bool \<times> pref_world) option" where
  "ltr_int_dump_prefs E file_name w =
     (if file_name = [] then (if format_plain (print_prefs (the_prefs w)) then Some (True, w) else None)
      else Some (dump_file E file_name w))"

definition ltr_int_read_prefs :: "pref_os \<Rightarrow> string option \<Rightarrow> bool \<Rightarrow> pref_world \<Rightarrow> (bool \<times> pref_world) option" where
  "ltr_int_read_prefs E file force_read w =
     (if force_read \<or> \<not> prefs_read w then
        let w = w\<lparr>the_prefs := prefs_clear (the_prefs w)\<rparr> in
        case ltr_int_get_default_file_name E file of
          None \<Rightarrow> Some (False, w)
        | Some pfile \<Rightarrow> (case parse_prefs E (files w) pfile of
            None \<Rightarrow> Some (False, (ltr_int_free_prefs w)\<lparr>prefs_read := False\<rparr>)
          | Some p \<Rightarrow> do {
              (_, w) \<leftarrow> ltr_int_dump_prefs E [] (w\<lparr>the_prefs := p, prefs_read := True\<rparr>);
              Some (True, w\<lparr>the_prefs := resetChangeFlag (the_prefs w)\<rparr>)
            })
      else Some (prefs_read w, w))"

definition ltr_int_need_saving :: "pref_world \<Rightarrow> bool" where
  "ltr_int_need_saving w = changed (the_prefs w)"

definition ltr_int_prefs_changed :: "pref_world \<Rightarrow> pref_world" where
  "ltr_int_prefs_changed w = w\<lparr>the_prefs := setChangeFlag (the_prefs w)\<rparr>"

text \<open>\<open>rename\<close> replaces the target and fails when there is no source.\<close>

definition os_rename :: "pref_os \<Rightarrow> string \<Rightarrow> string \<Rightarrow> (string \<Rightarrow> string option) \<Rightarrow> bool \<times> (string \<Rightarrow> string option)" where
  "os_rename E a b fs = (if can_rename E a b \<and> fs a \<noteq> None then (True, (fs(a := None))(b := fs a)) else (False, fs))"

text \<open>Saving dumps under a name that is not empty, so it is the branch that writes a file.\<close>

definition ltr_int_save_prefs :: "pref_os \<Rightarrow> string option \<Rightarrow> pref_world \<Rightarrow> bool \<times> pref_world" where
  "ltr_int_save_prefs E fname w =
     (case ltr_int_get_default_file_name E fname of
        None \<Rightarrow> (False, w)
      | Some pfile \<Rightarrow>
          let pfile_new = pfile @ ''.new''; pfile_old = pfile @ ''.old'' in
          case dump_file E pfile_new w of (ok, w) \<Rightarrow>
          if \<not> ok then (False, w)
          else case parse_prefs E (files w) pfile_new of
            None \<Rightarrow> (False, ltr_int_free_prefs w)
          | Some check_prefs \<Rightarrow>
              let fs = (files w)(pfile_old := None);
                  (_, fs) = os_rename E pfile pfile_old fs;
                  (ok, fs) = os_rename E pfile_new pfile fs;
                  w = w\<lparr>files := fs\<rparr>
              in if \<not> ok then (False, w)
                 else (True, w\<lparr>the_prefs := resetChangeFlag (the_prefs w)\<rparr>))"

text \<open>The remaining functions pass their arguments on to the store.\<close>

definition ltr_int_get_section_list :: "prefs \<Rightarrow> string list" where "ltr_int_get_section_list = getSectionList"
definition ltr_int_get_key :: "prefs \<Rightarrow> string \<Rightarrow> string \<Rightarrow> string option" where "ltr_int_get_key = getValue"
definition ltr_int_get_key_flt :: "prefs \<Rightarrow> string \<Rightarrow> string \<Rightarrow> cflt \<Rightarrow> bool \<times> cflt" where "ltr_int_get_key_flt = getValue_flt"
definition ltr_int_get_key_int :: "prefs \<Rightarrow> string \<Rightarrow> string \<Rightarrow> int \<Rightarrow> bool \<times> int" where "ltr_int_get_key_int = getValue_int"
definition ltr_int_change_key :: "string \<Rightarrow> string \<Rightarrow> string \<Rightarrow> prefs \<Rightarrow> bool \<times> prefs" where
  "ltr_int_change_key sec key v p = (True, setValue sec key v p)"
definition ltr_int_change_key_flt :: "string \<Rightarrow> string \<Rightarrow> cflt \<Rightarrow> prefs \<Rightarrow> bool \<times> prefs" where
  "ltr_int_change_key_flt sec key v p = (True, setValue_flt sec key v p)"
definition ltr_int_change_key_int :: "string \<Rightarrow> string \<Rightarrow> int \<Rightarrow> prefs \<Rightarrow> bool \<times> prefs" where
  "ltr_int_change_key_int sec key v p = (True, setValue_int sec key v p)"
definition ltr_int_find_section :: "prefs \<Rightarrow> string \<Rightarrow> string \<Rightarrow> string option" where "ltr_int_find_section = findSection"
definition ltr_int_find_sections :: "prefs \<Rightarrow> string \<Rightarrow> bool \<times> string list" where
  "ltr_int_find_sections p key = (findSections p key \<noteq> [], findSections p key)"
definition ltr_int_add_unique_section :: "string \<Rightarrow> prefs \<Rightarrow> string option \<times> prefs" where
  "ltr_int_add_unique_section = addSection_unique"

subsection \<open>What is printed is read back\<close>

definition key_ok :: "string \<Rightarrow> bool" where "key_ok k \<longleftrightarrow> k \<noteq> [] \<and> list_all is_key_char k"
definition value_ok :: "string \<Rightarrow> bool" where "value_ok v \<longleftrightarrow> v \<noteq> [] \<and> \<not> is_blank (hd v) \<and> list_all not_nl v"
definition name_ok :: "string \<Rightarrow> bool" where "name_ok n \<longleftrightarrow> n \<noteq> [] \<and> list_all in_secname n"

fun sec_item_ok :: "section_item \<Rightarrow> bool" where
  "sec_item_ok (KeyVal k v) = (key_ok k \<and> value_ok v)"
| "sec_item_ok (SecComment c) = list_all not_nl c"

definition printable :: "pref_section \<Rightarrow> bool" where
  "printable s \<longleftrightarrow> name_ok (sec_name s) \<and> list_all sec_item_ok (sec_items s)"

lemma takeWhile_upto: "list_all P xs \<Longrightarrow> \<not> P y \<Longrightarrow> takeWhile P (xs @ y # ys) = xs"
  by (induction xs) auto

lemma dropWhile_upto: "list_all P xs \<Longrightarrow> \<not> P y \<Longrightarrow> dropWhile P (xs @ y # ys) = y # ys"
  by (induction xs) auto

lemma lex_newline [simp]: "lex INITIAL (CHR 0x0A # s) = lex INITIAL s" "lex VALUE (CHR 0x0A # s) = lex INITIAL s"
  by (simp_all add: lex.simps is_key_char_def is_digit_def)

lemma lex_comment:
  "list_all not_nl c \<Longrightarrow> lex INITIAL (''###'' @ c @ CHR 0x0A # s) = TOKEN_COMMENT (''###'' @ c) # lex INITIAL s"
  by (simp add: lex.simps(4) [of "CHR ''#''"] is_key_char_def is_digit_def not_nl_def takeWhile_upto dropWhile_upto)

lemma key_char_neqs:
  assumes "is_key_char c"
  shows "c \<noteq> CHR ''=''" "c \<noteq> CHR ''[''" "c \<noteq> CHR '']''"
  using assms by (auto simp: is_key_char_def is_digit_def)

lemma lex_key:
  assumes "key_ok k" and "\<not> is_key_char d"
  shows "lex INITIAL (k @ d # s) = TOKEN_KEY k # lex INITIAL (d # s)"
proof -
  obtain c cs where k: "k = c # cs" using assms(1) by (cases k) (auto simp: key_ok_def)
  have c: "is_key_char c" and all: "list_all is_key_char (c # cs)" using assms(1) k by (auto simp: key_ok_def)
  show ?thesis
    using takeWhile_upto [OF all assms(2), of s] dropWhile_upto [OF all assms(2), of s] c key_char_neqs [OF c]
    by (simp add: k lex.simps(4))
qed

lemma lex_skip: "lex INITIAL (CHR '' '' # s) = lex INITIAL s"
  by (simp add: lex.simps is_key_char_def is_digit_def)

lemma lex_eq: "lex INITIAL (CHR ''='' # s) = TOKEN_EQ # lex VALUE (dropWhile is_blank s)"
  by (simp add: lex.simps)

lemma lex_value:
  assumes "value_ok v"
  shows "lex VALUE (v @ CHR 0x0A # s) = TOKEN_VALUE v # lex INITIAL s"
proof -
  obtain c cs where v: "v = c # cs" using assms by (cases v) (auto simp: value_ok_def)
  have c: "not_nl c" and all: "list_all not_nl (c # cs)" using assms v by (auto simp: value_ok_def)
  from c have c': "c \<noteq> CHR 0x0A" by (auto simp: not_nl_def)
  have n: "\<not> not_nl (CHR 0x0A)" by (simp add: not_nl_def)
  show ?thesis using takeWhile_upto [OF all n, of s] dropWhile_upto [OF all n, of s] c c'
    by (simp add: v lex.simps(2) [of c])
qed

lemma lex_key_start:
  "key_ok k \<Longrightarrow> lex INITIAL (k @ '' = '' @ s) = TOKEN_KEY k # TOKEN_EQ # lex VALUE (dropWhile is_blank s)"
  by (simp add: lex_key is_key_char_def is_digit_def lex_skip lex_eq is_blank_def)

lemma lex_item:
  "sec_item_ok i \<Longrightarrow> lex INITIAL (print_sec_item i @ s) =
    (case i of KeyVal k v \<Rightarrow> [TOKEN_KEY k, TOKEN_EQ, TOKEN_VALUE v] | SecComment c \<Rightarrow> [TOKEN_COMMENT (''###'' @ c)]) @ lex INITIAL s"
proof (cases i)
  case (KeyVal k v)
  assume a: "sec_item_ok i"
  then have "dropWhile is_blank (v @ CHR 0x0A # s) = v @ CHR 0x0A # s"
    using KeyVal by (cases v) (auto simp: value_ok_def)
  with a KeyVal show ?thesis using lex_key_start [of k "v @ CHR 0x0A # s"] by (simp add: lex_value)
next
  case (SecComment c)
  then show "sec_item_ok i \<Longrightarrow> ?thesis" using lex_comment [of c s] by simp
qed

lemma lex_header:
  assumes "name_ok n"
  shows "lex INITIAL (CHR ''['' # n @ CHR '']'' # s) = [TOKEN_LEFT_BRACKET, TOKEN_SECNAME n, TOKEN_RIGHT_BRACKET] @ lex INITIAL s"
proof -
  obtain c cs where n: "n = c # cs" using assms by (cases n) (auto simp: name_ok_def)
  have c: "in_secname c" and all: "list_all in_secname (c # cs)" using assms n by (auto simp: name_ok_def)
  have b: "\<not> in_secname (CHR '']'')" by (simp add: in_secname_def)
  show ?thesis using takeWhile_upto [OF all b, of s] dropWhile_upto [OF all b, of s] c
    by (simp add: n lex.simps(3,4))
qed

text \<open>The tokens of a printed text, and the store they make: the same, but every comment has three more marks.\<close>

fun sec_item_tokens :: "section_item \<Rightarrow> token list" where
  "sec_item_tokens (KeyVal k v) = [TOKEN_KEY k, TOKEN_EQ, TOKEN_VALUE v]"
| "sec_item_tokens (SecComment c) = [TOKEN_COMMENT (''###'' @ c)]"

fun item_tokens :: "pref_item \<Rightarrow> token list" where
  "item_tokens (PSection s) =
     [TOKEN_LEFT_BRACKET, TOKEN_SECNAME (sec_name s), TOKEN_RIGHT_BRACKET] @ concat (map sec_item_tokens (sec_items s))"
| "item_tokens (PComment c) = [TOKEN_COMMENT (''###'' @ c)]"

fun printable_item :: "pref_item \<Rightarrow> bool" where
  "printable_item (PSection s) = printable s"
| "printable_item (PComment c) = list_all not_nl c"

lemma lex_items:
  "list_all sec_item_ok is \<Longrightarrow> lex INITIAL (concat (map print_sec_item is) @ s) = concat (map sec_item_tokens is) @ lex INITIAL s"
proof (induction "is")
  case (Cons i "is")
  then show ?case using lex_item [of i "concat (map print_sec_item is) @ s"] by (cases i) simp_all
qed simp

lemma lex_section_open:
  "name_ok (sec_name s) \<Longrightarrow> list_all sec_item_ok is \<Longrightarrow>
   lex INITIAL (CHR ''['' # sec_name s @ CHR '']'' # CHR 0x0A # concat (map print_sec_item is) @ t) =
   item_tokens (PSection (s\<lparr>sec_items := is\<rparr>)) @ lex INITIAL t"
  using lex_header [of "sec_name s" "CHR 0x0A # concat (map print_sec_item is) @ t"] lex_items [of "is" t] by simp

lemma lex_pref_item: "printable_item i \<Longrightarrow> lex INITIAL (print_item i @ CHR 0x0A # t) = item_tokens i @ lex INITIAL t"
proof (cases i)
  case (PSection s)
  then show "printable_item i \<Longrightarrow> ?thesis" using lex_section_open [of s "sec_items s" "CHR 0x0A # CHR 0x0A # t"]
    by (simp add: printable_def print_section_def)
next
  case (PComment c)
  then show "printable_item i \<Longrightarrow> ?thesis" using lex_comment [of c "CHR 0x0A # t"] by simp
qed

lemma lex_pref_items:
  "list_all printable_item is \<Longrightarrow>
   lex INITIAL (concat (map (\<lambda>i. print_item i @ [CHR 0x0A]) is) @ t) = concat (map item_tokens is) @ lex INITIAL t"
proof (induction "is")
  case (Cons i "is")
  then show ?case using lex_pref_item [of i "concat (map (\<lambda>i. print_item i @ [CHR 0x0A]) is) @ t"] by simp
qed simp

text \<open>Three more marks before every comment.\<close>

fun mark_sec_item :: "section_item \<Rightarrow> section_item" where
  "mark_sec_item (KeyVal k v) = KeyVal k v"
| "mark_sec_item (SecComment c) = SecComment (''###'' @ c)"

definition mark_section :: "pref_section \<Rightarrow> pref_section" where
  "mark_section s = s\<lparr>sec_items := map mark_sec_item (sec_items s)\<rparr>"

fun mark_item :: "pref_item \<Rightarrow> pref_item" where
  "mark_item (PSection s) = PSection (mark_section s)"
| "mark_item (PComment c) = PComment (''###'' @ c)"

lemma parse_content_items:
  "parse_content s (concat (map sec_item_tokens is) @ ts) = parse_content (fold (sec_addItem \<circ> mark_sec_item) is s) ts"
proof (induction "is" arbitrary: s)
  case (Cons i "is")
  then show ?case by (cases i) simp_all
qed simp

lemma fold_addItem:
  "sec_items (fold sec_addItem is s) = sec_items s @ is" "sec_name (fold sec_addItem is s) = sec_name s"
  by (induction "is" arbitrary: s) (simp_all add: sec_addItem_def)

text \<open>An index that is that of the items is determined by them.\<close>

lemma index_from_keys: "distinct (map fst m) \<Longrightarrow> m = map (\<lambda>k. (k, the (map_of m k))) (map fst m)"
  by (simp add: comp_def, rule map_idI [symmetric]) (force dest: map_of_is_SomeI)

lemma index_unique:
  assumes "index_ok nm xs a" and "index_ok nm xs b"
  shows "a = b"
proof -
  have m: "map_of a = map_of b" using assms by (simp add: index_ok_def)
  then have "fst ` set a = fst ` set b" by (metis dom_map_of_conv_image_fst)
  then have k: "map fst a = map fst b"
    using assms by (intro sorted_distinct_set_unique) (auto simp: index_ok_def)
  have "a = map (\<lambda>k. (k, the (map_of a k))) (map fst a)"
    using assms(1) by (intro index_from_keys) (simp add: index_ok_def)
  also have "\<dots> = b" using assms(2) index_from_keys [of b] by (simp add: m k index_ok_def)
  finally show ?thesis .
qed

lemma first_at_map: "(\<And>x. nm (f x) = nm x) \<Longrightarrow> first_at nm (map f xs) = first_at nm xs"
  by (induction xs) (auto simp: fun_eq_iff)

lemma mark_names [simp]: "kv_name (mark_sec_item i) = kv_name i" "item_name (mark_item j) = item_name j"
  by (cases i; simp) (cases j; simp add: mark_section_def)

lemma index_ok_mark:
  "index_ok kv_name (map mark_sec_item xs) idx = index_ok kv_name xs idx"
  "index_ok item_name (map mark_item ys) idx = index_ok item_name ys idx"
  by (simp_all add: index_ok_def first_at_map)

lemma loaded_section:
  assumes "sec_ok s"
  shows "(fold (sec_addItem \<circ> mark_sec_item) (sec_items s) new_section)\<lparr>sec_name := sec_name s\<rparr> = mark_section s"
proof -
  let ?f = "fold sec_addItem (map mark_sec_item (sec_items s)) new_section"
  have f: "fold (sec_addItem \<circ> mark_sec_item) (sec_items s) new_section = ?f" by (simp add: fold_map)
  have i: "sec_items ?f = map mark_sec_item (sec_items s)" by (simp add: fold_addItem new_section_def)
  have "sec_ok ?f" by (simp add: fold_addItem_ok)
  then have "index_ok kv_name (sec_items s) (sec_index ?f)" by (simp add: sec_ok_def i index_ok_mark)
  then have "sec_index ?f = sec_index s" using assms index_unique by (auto simp: sec_ok_def)
  with i show ?thesis unfolding f by (simp add: mark_section_def pref_section.equality)
qed

text \<open>The parser stops a section at the next bracket or at the end.\<close>

definition section_end :: "token list \<Rightarrow> bool" where
  "section_end ts \<longleftrightarrow> ts = [] \<or> hd ts = TOKEN_LEFT_BRACKET"

lemma parse_content_end: "section_end ts \<Longrightarrow> parse_content s ts = (s, ts)"
  by (cases ts) (auto simp: section_end_def)

lemma parse_section:
  assumes "section_end ts"
  shows "parse_input p (item_tokens (PSection s) @ ts) =
    parse_input (prefs_addItem (PSection ((fold (sec_addItem \<circ> mark_sec_item) (sec_items s) new_section)\<lparr>sec_name := sec_name s\<rparr>)) p) ts"
  using assms by (simp add: parse_input.simps parse_content_items parse_content_end)

definition comments_first :: "pref_item list \<Rightarrow> bool" where
  "comments_first is \<longleftrightarrow> (\<exists>cs ss. is = map PComment cs @ map PSection ss)"

lemma parse_sections:
  "list_all sec_ok ss \<Longrightarrow> parse_input p (concat (map item_tokens (map PSection ss))) = Some (fold prefs_addItem (map (mark_item \<circ> PSection) ss) p)"
proof (induction ss arbitrary: p)
  case (Cons s ss)
  have "section_end (concat (map item_tokens (map PSection ss)))"
    by (cases ss) (simp_all add: section_end_def)
  from parse_section [OF this, of p s] Cons show ?case by (simp add: loaded_section)
qed (simp add: parse_input.simps)

lemma parse_comments:
  "parse_input p (concat (map item_tokens (map PComment cs)) @ ts) = parse_input (fold prefs_addItem (map (mark_item \<circ> PComment) cs) p) ts"
  by (induction cs arbitrary: p) (simp_all add: parse_input.simps)

lemma fold_prefs_addItem: "p_items (fold prefs_addItem is p) = p_items p @ is"
  by (induction "is" arbitrary: p) (simp_all add: prefs_addItem_def setChangeFlag_def)

lemma fold_prefs_addItem_ok: "prefs_ok p \<Longrightarrow> list_all item_ok is \<Longrightarrow> prefs_ok (fold prefs_addItem is p)"
  by (induction "is" arbitrary: p) (auto intro: prefs_addItem_ok)

lemma mark_item_ok: "item_ok (mark_item i) = item_ok i"
  by (cases i) (simp_all add: mark_section_def sec_ok_def index_ok_mark)

lemma parse_print:
  assumes ok: "prefs_ok p" and pr: "list_all printable_item (p_items p)" and cf: "comments_first (p_items p)"
  shows "\<exists>q. parse_text (print_prefs p) = Some q \<and> prefs_ok q \<and> p_items q = map mark_item (p_items p) \<and> p_index q = p_index p"
proof -
  obtain cs ss where items_p: "p_items p = map PComment cs @ map PSection ss" using cf by (auto simp: comments_first_def)
  have ss: "list_all sec_ok ss" using ok by (auto simp: prefs_ok_def items_p list_all_iff ball_Un)
  let ?q = "fold prefs_addItem (map mark_item (p_items p)) prefs_empty"
  have "lex INITIAL (print_prefs p) = concat (map item_tokens (p_items p))"
    using lex_pref_items [OF pr, of "[CHR 0x0A]"] by (simp add: print_prefs_def lex.simps(1))
  then have "parse_text (print_prefs p) = Some ?q"
    using parse_sections [OF ss] parse_comments [of prefs_empty cs "concat (map item_tokens (map PSection ss))"]
    by (simp add: parse_text_def items_p)
  moreover have items: "p_items ?q = map mark_item (p_items p)" by (simp add: fold_prefs_addItem prefs_empty_def)
  moreover have q: "prefs_ok ?q"
    using ok by (intro fold_prefs_addItem_ok prefs_empty_ok) (simp add: prefs_ok_def list_all_iff mark_item_ok)
  moreover have "p_index ?q = p_index p"
    using ok q index_unique [of item_name "p_items p" "p_index ?q" "p_index p"] by (simp add: prefs_ok_def items index_ok_mark)
  ultimately show ?thesis by blast
qed

text \<open>A key without a value is a syntax error, whatever stands before and after it.\<close>

fun no_value_at :: "token list \<Rightarrow> bool" where
  "no_value_at (TOKEN_KEY k # TOKEN_EQ # TOKEN_VALUE v # ts) = False"
| "no_value_at (TOKEN_KEY k # TOKEN_EQ # ts) = True"
| "no_value_at ts = False"

fun lacks_value :: "token list \<Rightarrow> bool" where
  "lacks_value [] = False"
| "lacks_value (t # ts) = (no_value_at (t # ts) \<or> lacks_value ts)"

lemma lacks_value_append: "lacks_value ts \<Longrightarrow> lacks_value (pre @ ts)"
  by (induction pre) simp_all

lemma parse_content_lacks: "lacks_value ts \<Longrightarrow> lacks_value (snd (parse_content s ts))"
  by (induction s ts rule: parse_content.induct) simp_all

lemma parse_input_lacks: "lacks_value ts \<Longrightarrow> parse_input p ts = None"
proof (induction p ts rule: parse_input.induct)
  case (3 p ts)
  show ?case
  proof (cases "\<exists>n us. ts = TOKEN_SECNAME n # TOKEN_RIGHT_BRACKET # us")
    case True
    then obtain n us where ts: "ts = TOKEN_SECNAME n # TOKEN_RIGHT_BRACKET # us" by blast
    obtain s' us' where c: "parse_content new_section us = (s', us')" by (cases "parse_content new_section us")
    have "lacks_value us'" using "3.prems" parse_content_lacks [of us new_section] by (simp add: ts c)
    with "3.IH" ts c show ?thesis by (simp add: parse_input.simps)
  next
    case False
    then show ?thesis by (auto simp: parse_input.simps split: list.splits token.splits)
  qed
qed (simp_all add: parse_input.simps)

lemma lex_no_value: "st \<noteq> VALUE \<Longrightarrow> lex st s \<noteq> TOKEN_VALUE v # ts"
  by (induction st s rule: lex.induct) (auto simp: lex.simps)

lemma lacks_value_lex: "key_ok k \<Longrightarrow> lacks_value (lex INITIAL (print_sec_item (KeyVal k []) @ s))"
  using lex_key_start [of k "CHR 0x0A # s"] lex_no_value [of INITIAL s]
  by (cases "lex INITIAL s"; cases "hd (lex INITIAL s)") (auto simp: is_blank_def)

subsection \<open>Properties\<close>

lemma flag_simps [simp]:
  "p_items (resetChangeFlag p) = p_items p" "p_index (resetChangeFlag p) = p_index p"
  "prefs_ok (resetChangeFlag p) = prefs_ok p" "changed (resetChangeFlag p) = False"
  by (simp_all add: resetChangeFlag_def changed_def)

lemma parse_text_None: "lacks_value (lex INITIAL s) \<Longrightarrow> parse_text s = None"
  by (simp add: parse_text_def parse_input_lacks)

text \<open>The text of a store with a key without a value, when all before it is printable.\<close>

lemma lex_empty_value:
  assumes "p_items p = is @ PSection s # js" and "sec_items s = xs @ KeyVal k [] # ys"
    and "list_all printable_item is" and "name_ok (sec_name s)" and "list_all sec_item_ok xs" and "key_ok k"
  shows "lacks_value (lex INITIAL (print_prefs p))"
proof -
  obtain t where t: "print_prefs p = concat (map (\<lambda>i. print_item i @ [CHR 0x0A]) is) @
    CHR ''['' # sec_name s @ CHR '']'' # CHR 0x0A # concat (map print_sec_item xs) @ print_sec_item (KeyVal k []) @ t"
    by (simp add: print_prefs_def print_section_def assms(1,2))
  show ?thesis unfolding t lex_pref_items [OF assms(3)] lex_section_open [OF assms(4,5)]
    by (intro lacks_value_append lacks_value_lex assms(6))
qed

lemma sec_getValue_mark: "sec_ok s \<Longrightarrow> sec_getValue (mark_section s) k = sec_getValue s k"
  by (cases "map_of (sec_index s) k")
    (auto simp: sec_getValue_def mark_section_def kv_at_def sec_ok_def index_ok_lookup dest!: first_at_SomeD
      split: section_item.splits)

lemma marked_store:
  assumes ok: "prefs_ok p" and items: "p_items q = map mark_item (p_items p)" and idx: "p_index q = p_index p"
  shows "getValue q = getValue p" and "getSectionList q = getSectionList p"
proof -
  have at: "section_at q i = mark_section (section_at p i)" "sec_ok (section_at p i)" if "map_of (p_index p) n = Some i" for n i
    using prefs_indexD [OF ok that] by (simp_all add: section_at_def [of q] items)
  show "getValue q = getValue p"
  proof (intro ext)
    fix sec key
    show "getValue q sec key = getValue p sec key"
      using at [of sec] by (cases "map_of (p_index p) sec") (simp_all add: getValue_def find_sec_def idx sec_getValue_mark)
  qed
  have d: "distinct (map fst (p_index p))" using ok by (simp add: prefs_ok_def index_ok_def)
  have "sec_name (section_at q i) = sec_name (section_at p i)" if "(n, i) \<in> set (p_index p)" for n i
    using at(1) [OF map_of_is_SomeI [OF d that]] by (simp add: mark_section_def)
  then show "getSectionList q = getSectionList p"
    unfolding getSectionList_def idx by (intro map_cong refl) auto
qed

lemma save_dumps:
  "ltr_int_dump_prefs E (f @ ''.new'') w = Some (dump_file E (f @ ''.new'') w)"
  by (simp add: ltr_int_dump_prefs_def)

text \<open>The printed store as a format.\<close>

lemma format_plain_cut: "c \<noteq> CHR ''%'' \<Longrightarrow> format_plain (s @ c # t) \<longleftrightarrow> format_plain s \<and> format_plain t"
  by (induction s rule: format_plain.induct) (auto split: list.splits)

lemma format_plain_concat:
  assumes "\<And>x. \<exists>s. f x = s @ [CHR 0x0A]"
  shows "format_plain (concat (map f xs) @ t) \<longleftrightarrow> (\<forall>x \<in> set xs. format_plain (f x)) \<and> format_plain t"
proof (induction xs)
  case (Cons x xs)
  obtain s where "f x = s @ [CHR 0x0A]" using assms by blast
  then show ?case using Cons by (simp add: format_plain_cut)
qed simp

lemma sec_item_nl: "\<exists>s. print_sec_item i = s @ [CHR 0x0A]"
  by (cases i) auto

lemma format_plain_section: "format_plain (print_section (mark_section s)) = format_plain (print_section s)"
proof -
  have "format_plain (print_sec_item (mark_sec_item i)) = format_plain (print_sec_item i)" for i by (cases i) simp_all
  moreover have "format_plain (concat (map print_sec_item is)) = (\<forall>i \<in> set is. format_plain (print_sec_item i))" for "is"
    using format_plain_concat [of print_sec_item "is" "[]", OF sec_item_nl] by (simp del: print_sec_item.simps)
  ultimately show ?thesis
    by (simp add: print_section_def mark_section_def format_plain_cut del: print_sec_item.simps map_map)
qed

lemma format_plain_marked:
  assumes "p_items q = map mark_item (p_items p)"
  shows "format_plain (print_prefs q) = format_plain (print_prefs p)"
proof -
  have "format_plain (print_item (mark_item i)) = format_plain (print_item i)" for i
    by (cases i) (simp_all add: format_plain_section)
  then show ?thesis
    unfolding print_prefs_def assms by (subst (1 2) format_plain_concat) (auto simp: format_plain_cut)
qed

lemma save_ok:
  assumes "ltr_int_get_default_file_name E fname = Some f" and "can_write E (f @ ''.new'')"
    and "can_read E (f @ ''.new'')" and "can_rename E (f @ ''.new'') f"
    and "parse_text (on_disk E (print_prefs (the_prefs w))) \<noteq> None"
  shows "\<exists>fs. ltr_int_save_prefs E fname w = (True, w\<lparr>files := fs, the_prefs := resetChangeFlag (the_prefs w)\<rparr>) \<and>
    fs f = Some (on_disk E (print_prefs (the_prefs w)))"
  by (rule exI [of _ "snd (os_rename E (f @ ''.new'') f (snd (os_rename E f (f @ ''.old'')
      ((files w)(f @ ''.new'' \<mapsto> on_disk E (print_prefs (the_prefs w)), f @ ''.old'' := None)))))"])
    (use assms in \<open>auto simp: ltr_int_save_prefs_def dump_file_def parse_prefs_def os_rename_def Let_def\<close>)

text \<open>C18: A saved preference file is read back as it was: for any store the program can build whose keys, values and names
  are printable, whose loose comments stand before the sections and whose printed text has no percent sign but in pairs (it is the format
  of a log message), when the calls of the operating system succeed, saving succeeds and reading the file again gives every value, the list of the sections, and an unchanged state; the one difference is that every
  comment has grown by three marks.\<close>

theorem save_read_roundtrip:
  assumes "pref_step\<^sup>*\<^sup>* prefs_empty (the_prefs w)"
    and "list_all printable_item (p_items (the_prefs w))" and "comments_first (p_items (the_prefs w))"
    and "ltr_int_get_default_file_name E fname = Some f"
    and "can_write E (f @ ''.new'')" and "can_read E (f @ ''.new'')" and "can_read E f" and "can_rename E (f @ ''.new'') f"
    and "on_disk E (print_prefs (the_prefs w)) = print_prefs (the_prefs w)" and "format_plain (print_prefs (the_prefs w))"
  shows "\<exists>w1 w2. ltr_int_save_prefs E fname w = (True, w1) \<and> ltr_int_read_prefs E fname True w1 = Some (True, w2) \<and>
    (\<forall>sec key. ltr_int_get_key (the_prefs w2) sec key = ltr_int_get_key (the_prefs w) sec key) \<and>
    ltr_int_get_section_list (the_prefs w2) = ltr_int_get_section_list (the_prefs w) \<and>
    p_items (the_prefs w2) = map mark_item (p_items (the_prefs w)) \<and> \<not> ltr_int_need_saving w1 \<and> \<not> ltr_int_need_saving w2"
proof -
  let ?p = "the_prefs w"
  have ok: "prefs_ok ?p" using assms(1) by (rule reachable_ok)
  obtain q where q: "parse_text (print_prefs ?p) = Some q" "prefs_ok q" "p_items q = map mark_item (p_items ?p)" "p_index q = p_index ?p"
    using parse_print [OF ok assms(2,3)] by blast
  obtain fs where s: "ltr_int_save_prefs E fname w = (True, w\<lparr>files := fs, the_prefs := resetChangeFlag ?p\<rparr>)"
    and f: "fs f = Some (print_prefs ?p)"
    using save_ok [OF assms(4,5,6,8), of w] q(1) assms(9) by auto
  let ?w2 = "w\<lparr>files := fs, the_prefs := resetChangeFlag (resetChangeFlag q), prefs_read := True\<rparr>"
  have "format_plain (print_prefs (resetChangeFlag q))" using format_plain_marked [of "resetChangeFlag q" ?p] q(3) assms(10) by simp
  then have "ltr_int_read_prefs E fname True (w\<lparr>files := fs, the_prefs := resetChangeFlag ?p\<rparr>) = Some (True, ?w2)"
    using f q(1) assms(4,7) by (simp add: ltr_int_read_prefs_def parse_prefs_def ltr_int_dump_prefs_def)
  moreover have "getValue (resetChangeFlag (resetChangeFlag q)) = getValue ?p" "getSectionList (resetChangeFlag (resetChangeFlag q)) = getSectionList ?p"
    using marked_store [OF ok, of "resetChangeFlag (resetChangeFlag q)"] q by simp_all
  ultimately show ?thesis using s q(3)
    by (intro exI [of _ "w\<lparr>files := fs, the_prefs := resetChangeFlag ?p\<rparr>"] exI [of _ ?w2])
      (simp add: ltr_int_get_key_def ltr_int_get_section_list_def ltr_int_need_saving_def)
qed

text \<open>An example: every call of the operating system succeeds.\<close>

definition good_os :: pref_os where
  "good_os = \<lparr>home = Some ''/root'', can_read = (\<lambda>_. True), can_write = (\<lambda>_. True), can_rename = (\<lambda>_ _. True),
     on_disk = (\<lambda>s. s)\<rparr>"

definition demo_world :: "prefs \<Rightarrow> pref_world" where
  "demo_world p = \<lparr>the_prefs = p, files = Map.empty, prefs_read = False\<rparr>"

definition demo_store :: "string \<Rightarrow> prefs" where
  "demo_store v = setValue ''Global'' ''Input'' v (prefs_addItem (PComment ''# by hand'') prefs_empty)"

lemma demo_store_items:
  "p_items (demo_store v) = [PComment ''# by hand'', PSection \<lparr>sec_name = ''Global'', sec_items = [KeyVal ''Input'' v], sec_index = [(''Input'', 0)]\<rparr>]"
  "pref_step\<^sup>*\<^sup>* prefs_empty (demo_store v)"
proof -
  show "p_items (demo_store v) = [PComment ''# by hand'', PSection \<lparr>sec_name = ''Global'', sec_items = [KeyVal ''Input'' v], sec_index = [(''Input'', 0)]\<rparr>]"
    by (simp add: demo_store_def setValue_def upd_section_def addSection_def sectionExists_def prefs_addItem_def prefs_empty_def
        setChangeFlag_def new_section_def section_at_def sec_setValue_def sec_addItem_def)
  have "pref_step prefs_empty (prefs_addItem (PComment ''# by hand'') prefs_empty)" by (rule pref_step.comment)
  moreover have "pref_step (prefs_addItem (PComment ''# by hand'') prefs_empty) (demo_store v)"
    unfolding demo_store_def by (rule pref_step.value_set)
  ultimately show "pref_step\<^sup>*\<^sup>* prefs_empty (demo_store v)" by simp
qed

lemma demo_store_printable:
  "value_ok v \<Longrightarrow> list_all printable_item (p_items (demo_store v))" "comments_first (p_items (demo_store v))"
proof -
  show "comments_first (p_items (demo_store v))"
    unfolding comments_first_def demo_store_items
    by (intro exI [of _ "[''# by hand'']"] exI [of _ "[\<lparr>sec_name = ''Global'', sec_items = [KeyVal ''Input'' v], sec_index = [(''Input'', 0)]\<rparr>]"]) simp
qed (simp add: demo_store_items printable_def name_ok_def key_ok_def in_secname_def not_nl_def is_key_char_def)

theorem save_read_roundtrip_witness:
  "\<exists>w1 w2. ltr_int_save_prefs good_os None (demo_world (demo_store ''Track IR'')) = (True, w1) \<and>
    ltr_int_read_prefs good_os None True w1 = Some (True, w2) \<and>
    ltr_int_get_key (the_prefs w2) ''Global'' ''Input'' = Some ''Track IR'' \<and>
    hd (p_items (the_prefs w2)) = PComment ''#### by hand''"
proof -
  let ?p = "demo_store ''Track IR''"
  have v: "value_ok ''Track IR''" by (simp add: value_ok_def is_blank_def not_nl_def)
  have g: "getValue ?p ''Global'' ''Input'' = Some ''Track IR''"
    unfolding demo_store_def by (simp add: get_set prefs_addItem_ok)
  have pl: "format_plain (print_prefs ?p)" by (simp add: print_prefs_def demo_store_items print_section_def)
  obtain w1 w2 where "ltr_int_save_prefs good_os None (demo_world ?p) = (True, w1)" "ltr_int_read_prefs good_os None True w1 = Some (True, w2)"
    "\<forall>sec key. ltr_int_get_key (the_prefs w2) sec key = ltr_int_get_key ?p sec key" "p_items (the_prefs w2) = map mark_item (p_items ?p)"
    using save_read_roundtrip [of "demo_world ?p" good_os None "''/root/.config/linuxtrack/linuxtrack1.conf''"]
      demo_store_items(2) demo_store_printable [of "''Track IR''"] v pl
    by (auto simp: demo_world_def good_os_def ltr_int_get_default_file_name_def pref_file_def)
  then show ?thesis using g
    by (intro exI [of _ w1] exI [of _ w2]) (simp add: ltr_int_get_key_def demo_store_items)
qed

text \<open>A percent sign in a value, which the scanner and the printing accept, makes the next reading of the file undefined.\<close>

lemma percent_is_undefined:
  assumes "value_ok v" "\<not> format_plain v" "files w f = Some (print_prefs (demo_store v))" "ltr_int_get_default_file_name E fname = Some f" "can_read E f"
  shows "ltr_int_read_prefs E fname True w = None"
proof -
  obtain q where q: "parse_text (print_prefs (demo_store v)) = Some q" "p_items q = map mark_item (p_items (demo_store v))"
    using parse_print [OF reachable_ok [OF demo_store_items(2)] demo_store_printable(1) [OF assms(1)] demo_store_printable(2)] by blast
  have "\<not> format_plain (print_prefs (demo_store v))"
    using assms(2) by (simp add: print_prefs_def demo_store_items print_section_def format_plain_cut)
  then have "\<not> format_plain (print_prefs (resetChangeFlag q))" using format_plain_marked [of "resetChangeFlag q" "demo_store v"] q(2) by simp
  then show ?thesis using q(1) assms(3-5) by (simp add: ltr_int_read_prefs_def parse_prefs_def ltr_int_dump_prefs_def)
qed

text \<open>C19: One empty value loses everything: when some key has the empty string for its value, and all that is printed before
  it is in order, saving fails because the new file cannot be parsed back, and the failing parse deletes not
  the store it was reading into but the program's own: after the call the preferences are empty and count as unchanged, and
  the file on disk is the old one.\<close>

theorem empty_value_loses_store:
  assumes "p_items (the_prefs w) = is @ PSection s # js" and "sec_items s = xs @ KeyVal k [] # ys"
    and "list_all printable_item is" and "name_ok (sec_name s)" and "list_all sec_item_ok xs" and "key_ok k"
    and "ltr_int_get_default_file_name E fname = Some f" and "can_write E (f @ ''.new'')"
    and "on_disk E (print_prefs (the_prefs w)) = print_prefs (the_prefs w)"
  shows "ltr_int_save_prefs E fname w =
    (False, w\<lparr>files := (files w)(f @ ''.new'' \<mapsto> print_prefs (the_prefs w)), the_prefs := prefs_empty\<rparr>)"
proof -
  have "parse_text (print_prefs (the_prefs w)) = None"
    by (rule parse_text_None [OF lex_empty_value [OF assms(1-6)]])
  then show ?thesis using assms(7-9)
    by (simp add: ltr_int_save_prefs_def dump_file_def parse_prefs_def ltr_int_free_prefs_def Let_def)
qed

theorem empty_value_loses_store_witness:
  "the_prefs (snd (ltr_int_save_prefs good_os None (demo_world (demo_store [])))) = prefs_empty \<and>
   getValue (demo_store []) ''Global'' ''Input'' \<noteq> getValue prefs_empty ''Global'' ''Input''"
proof -
  have p: "getValue (demo_store []) ''Global'' ''Input'' = Some []"
    unfolding demo_store_def by (simp add: get_set prefs_addItem_ok)
  have "the_prefs (snd (ltr_int_save_prefs good_os None (demo_world (demo_store [])))) = prefs_empty"
    by (subst empty_value_loses_store [of _ "[PComment ''# by hand'']"
        "\<lparr>sec_name = ''Global'', sec_items = [KeyVal ''Input'' []], sec_index = [(''Input'', 0)]\<rparr>" "[]" "[]" "''Input''" "[]"
        _ _ "''/root/.config/linuxtrack/linuxtrack1.conf''"])
      (simp_all add: demo_world_def demo_store_items name_ok_def key_ok_def in_secname_def not_nl_def is_key_char_def good_os_def
        ltr_int_get_default_file_name_def pref_file_def)
  with p show ?thesis by (simp add: getValue_def find_sec_def prefs_empty_def)
qed

text \<open>Saving never destroys what was stored: however the calls of the operating system fail, after saving the
  former content of the file is still there, under its name or as the \<open>.old\<close> file, unless the save succeeded and only making the \<open>.old\<close>
  file failed; and after a successful save the file holds the new text, which can be parsed.\<close>

theorem saving_keeps_a_copy:
  assumes "ltr_int_get_default_file_name E fname = Some f" and "files w f = Some old"
    and "ltr_int_save_prefs E fname w = (ok, w')"
  shows "(files w' f = Some old \<or> files w' (f @ ''.old'') = Some old \<or> ok \<and> \<not> can_rename E f (f @ ''.old'')) \<and>
    (ok \<longrightarrow> files w' f = Some (on_disk E (print_prefs (the_prefs w))) \<and> parse_text (on_disk E (print_prefs (the_prefs w))) \<noteq> None)"
  using assms
  by (auto simp: ltr_int_save_prefs_def dump_file_def parse_prefs_def os_rename_def ltr_int_free_prefs_def Let_def
      split: if_splits option.splits)

definition half_os :: pref_os where
  "half_os = good_os\<lparr>can_rename := (\<lambda>a b. a = ''/root/.config/linuxtrack/linuxtrack1.conf'')\<rparr>"

definition stored_world :: pref_world where
  "stored_world = (demo_world (demo_store ''Track IR''))\<lparr>files := [''/root/.config/linuxtrack/linuxtrack1.conf'' \<mapsto> ''old'']\<rparr>"

theorem saving_keeps_a_copy_witness:
  "files (snd (ltr_int_save_prefs half_os None stored_world)) ''/root/.config/linuxtrack/linuxtrack1.conf'' = Some ''old'' \<or>
   files (snd (ltr_int_save_prefs half_os None stored_world)) ''/root/.config/linuxtrack/linuxtrack1.conf.old'' = Some ''old''"
proof -
  obtain ok w' where r: "ltr_int_save_prefs half_os None stored_world = (ok, w')"
    by (cases "ltr_int_save_prefs half_os None stored_world")
  have n: "ltr_int_get_default_file_name half_os None = Some ''/root/.config/linuxtrack/linuxtrack1.conf''"
    by (simp add: ltr_int_get_default_file_name_def half_os_def good_os_def pref_file_def)
  have o: "files stored_world ''/root/.config/linuxtrack/linuxtrack1.conf'' = Some ''old''" by (simp add: stored_world_def)
  from saving_keeps_a_copy [OF n o r] r show ?thesis by (auto simp: half_os_def)
qed

end
