(* ===== verification/MathUtils.thy ===== *)
theory MathUtils
  imports CFloat
begin

text \<open>
  \<open>src/math_utils.c\<close>: vectors, matrices and angles in \<open>double\<close> arithmetic (format \<open>b64\<close>), and the
  filter in \<open>float\<close>. A \<open>double[3]\<close> is a triple, a \<open>double[3][3]\<close> a triple of rows; each operation rounds
  (no contraction to fused operations). \<open>sqrt\<close> is correctly rounded, as IEEE-754 requires; the other functions
  of the C mathematics library are the parameter \<open>libm\<close>, of which nothing is assumed.
\<close>

type_synonym vec3 = "cflt \<times> cflt \<times> cflt"
type_synonym mat3 = "vec3 \<times> vec3 \<times> vec3"

record libm =
  m_sin :: "cflt \<Rightarrow> cflt"
  m_cos :: "cflt \<Rightarrow> cflt"
  m_asin :: "cflt \<Rightarrow> cflt"
  m_atan2 :: "cflt \<Rightarrow> cflt \<Rightarrow> cflt"

subsection \<open>Square root\<close>

fun isqrt :: "nat \<Rightarrow> nat" where
  "isqrt n = (if n = 0 then 0 else let m = 2 * isqrt (n div 4) in if (m + 1) * (m + 1) \<le> n then m + 1 else m)"

declare isqrt.simps [simp del]

definition rat_sqrt :: "fmt \<Rightarrow> rat \<Rightarrow> rat" where
  "rat_sqrt F r =
     (let q = max (ilog2 r div 2 - (int (prec F) - 1)) (qmin F);
          s = r / pow2 (2 * q);
          n = isqrt (nat \<lfloor>s\<rfloor>);
          h = (of_nat n + 1 / 2) * (of_nat n + 1 / 2)
      in (if s < h then of_nat n else if h < s then of_nat n + 1 else if even n then of_nat n else of_nat n + 1) * pow2 q)"

fun fsqrt :: "fmt \<Rightarrow> cflt \<Rightarrow> cflt" where
  "fsqrt F NaN = NaN"
| "fsqrt F (Inf s) = (if s then NaN else Inf False)"
| "fsqrt F NegZero = NegZero"
| "fsqrt F (Fin r) = (if r < 0 then NaN else if r = 0 then Fin 0 else Fin (rat_sqrt F r))"

lemma isqrt_correct: "isqrt n * isqrt n \<le> n \<and> n < (isqrt n + 1) * (isqrt n + 1)"
proof (induction n rule: isqrt.induct)
  case (1 n)
  show ?case
  proof (cases "n = 0")
    case True
    then show ?thesis by (simp add: isqrt.simps)
  next
    case False
    define k where "k = isqrt (n div 4)"
    have ih: "k * k \<le> n div 4" "n div 4 < (k + 1) * (k + 1)" using 1 False by (simp_all add: k_def)
    have d: "4 * (n div 4) \<le> n" "n < 4 * (n div 4) + 4" by simp_all
    have lo: "(2 * k) * (2 * k) \<le> n" using ih(1) d by (simp add: algebra_simps)
    have "n div 4 + 1 \<le> (k + 1) * (k + 1)" using ih(2) by simp
    then have "4 * (n div 4) + 4 \<le> 4 * ((k + 1) * (k + 1))" by simp
    then have "n < 4 * ((k + 1) * (k + 1))" using d(2) by linarith
    then have hi: "n < (2 * k + 2) * (2 * k + 2)" by (simp add: algebra_simps)
    have "isqrt n = (if (2 * k + 1) * (2 * k + 1) \<le> n then 2 * k + 1 else 2 * k)"
      using False by (simp add: isqrt.simps [of n] k_def Let_def)
    with lo hi show ?thesis by (cases "(2 * k + 1) * (2 * k + 1) \<le> n") simp_all
  qed
qed

text \<open>The root of a square is exact.\<close>

lemma isqrt_square: "isqrt (k * k) = k"
proof -
  have a: "isqrt (k * k) * isqrt (k * k) \<le> k * k" "k * k < (isqrt (k * k) + 1) * (isqrt (k * k) + 1)"
    using isqrt_correct by blast+
  have "isqrt (k * k) \<le> k" using a(1) by (meson leI mult_strict_mono' not_le zero_le)
  moreover have "k < isqrt (k * k) + 1" using a(2) by (meson leI mult_le_mono not_le)
  ultimately show ?thesis by simp
qed

lemma rat_sqrt_square:
  assumes "0 < k" and "k < 2 ^ prec F" and "qmin F \<le> - int (prec F)"
  shows "rat_sqrt F (of_nat k * of_nat k) = of_nat k"
proof -
  let ?r = "of_nat k * of_nat k :: rat"
  define q where "q = max (ilog2 ?r div 2 - (int (prec F) - 1)) (qmin F)"
  have "of_nat k < (of_nat (2 ^ prec F) :: rat)" using assms(2) by (simp only: of_nat_less_iff)
  then have k: "of_nat k < pow2 (int (prec F))" by (simp add: pow2_of_nat)
  then have "?r < pow2 (int (prec F)) * pow2 (int (prec F))" by (intro mult_strict_mono) simp_all
  then have "ilog2 ?r < 2 * int (prec F)" using assms(1) by (intro ilog2_less) (simp_all add: pow2_add [symmetric])
  then have q0: "q \<le> 0" using assms(3) by (simp add: q_def)
  define e where "e = nat (- q)"
  have q: "q = - int e" using q0 by (simp add: e_def)
  have p: "pow2 (2 * q) = 1 / 2 ^ (2 * e)" "pow2 q = 1 / 2 ^ e" by (simp_all add: pow2_def q nat_mult_distrib)
  define K where "K = k * 2 ^ e"
  have s: "?r / pow2 (2 * q) = of_nat (K * K)"
    unfolding p(1) by (simp add: K_def power_add mult_2)
  have n: "isqrt (nat \<lfloor>of_nat (K * K) :: rat\<rfloor>) = K" by (simp only: floor_of_nat nat_int isqrt_square)
  have h: "(of_nat (K * K) :: rat) < (of_nat K + 1 / 2) * (of_nat K + 1 / 2)"
    by (simp add: algebra_simps)
  have "rat_sqrt F ?r = of_nat K * pow2 q"
    unfolding rat_sqrt_def q_def [symmetric] Let_def s n using h by (simp only: if_True)
  then show ?thesis by (simp add: p K_def)
qed

lemma fsqrt_b64_square:
  assumes "0 < k" and "k < 2 ^ 53"
  shows "fsqrt b64 (Fin (of_nat k * of_nat k)) = Fin (of_nat k)"
  using rat_sqrt_square [of k b64] assms by simp

subsection \<open>Vectors and matrices\<close>

abbreviation d_add :: "cflt \<Rightarrow> cflt \<Rightarrow> cflt" where "d_add \<equiv> fadd b64"
abbreviation d_sub :: "cflt \<Rightarrow> cflt \<Rightarrow> cflt" where "d_sub \<equiv> fsub b64"
abbreviation d_mul :: "cflt \<Rightarrow> cflt \<Rightarrow> cflt" where "d_mul \<equiv> fmul b64"
abbreviation d_div :: "cflt \<Rightarrow> cflt \<Rightarrow> cflt" where "d_div \<equiv> fdiv b64"

definition zero_vec :: vec3 where "zero_vec = (Fin 0, Fin 0, Fin 0)"
definition zero_mat :: mat3 where "zero_mat = (zero_vec, zero_vec, zero_vec)"

fun ltr_int_make_vec :: "vec3 \<Rightarrow> vec3 \<Rightarrow> vec3" where
  "ltr_int_make_vec (a0, a1, a2) (b0, b1, b2) = (d_sub a0 b0, d_sub a1 b1, d_sub a2 b2)"

fun ltr_int_dot_product :: "vec3 \<Rightarrow> vec3 \<Rightarrow> cflt" where
  "ltr_int_dot_product (a0, a1, a2) (b0, b1, b2) = d_add (d_add (d_mul a0 b0) (d_mul a1 b1)) (d_mul a2 b2)"

definition ltr_int_vec_size :: "vec3 \<Rightarrow> cflt" where
  "ltr_int_vec_size v = fsqrt b64 (ltr_int_dot_product v v)"

fun ltr_int_cross_product :: "vec3 \<Rightarrow> vec3 \<Rightarrow> vec3" where
  "ltr_int_cross_product (a0, a1, a2) (b0, b1, b2) =
     (d_sub (d_mul a1 b2) (d_mul a2 b1), d_sub (d_mul a2 b0) (d_mul a0 b2), d_sub (d_mul a0 b1) (d_mul a1 b0))"

fun ltr_int_mul_vec :: "vec3 \<Rightarrow> cflt \<Rightarrow> vec3" where
  "ltr_int_mul_vec (a0, a1, a2) c = (d_mul a0 c, d_mul a1 c, d_mul a2 c)"

fun div_vec :: "vec3 \<Rightarrow> cflt \<Rightarrow> vec3" where
  "div_vec (a0, a1, a2) c = (d_div a0 c, d_div a1 c, d_div a2 c)"

definition ltr_int_normalize_vec :: "vec3 \<Rightarrow> vec3" where
  "ltr_int_normalize_vec v = div_vec v (ltr_int_vec_size v)"

definition ltr_int_assign_matrix :: "mat3 \<Rightarrow> mat3" where "ltr_int_assign_matrix src = src"

definition ltr_int_make_base :: "vec3 \<Rightarrow> vec3 \<Rightarrow> mat3" where
  "ltr_int_make_base vec1 vec2 =
     (let r0 = ltr_int_mul_vec vec1 (d_div (Fin 1) (ltr_int_vec_size vec1));
          tmp1 = ltr_int_mul_vec r0 (ltr_int_dot_product vec2 r0);
          tmp2 = ltr_int_make_vec vec2 tmp1;
          r1 = ltr_int_mul_vec tmp2 (d_div (Fin 1) (ltr_int_vec_size tmp2))
      in (r0, r1, ltr_int_cross_product r0 r1))"

fun ltr_int_matrix_times_vec :: "mat3 \<Rightarrow> vec3 \<Rightarrow> vec3" where
  "ltr_int_matrix_times_vec (r0, r1, r2) v =
     (ltr_int_dot_product r0 v, ltr_int_dot_product r1 v, ltr_int_dot_product r2 v)"

definition ltr_int_sqr :: "cflt \<Rightarrow> cflt" where "ltr_int_sqr f = d_mul f f"

fun ltr_int_transpose :: "mat3 \<Rightarrow> mat3" where
  "ltr_int_transpose ((a0, a1, a2), (b0, b1, b2), (c0, c1, c2)) = ((a0, b0, c0), (a1, b1, c1), (a2, b2, c2))"

definition ltr_int_transpose_in_place :: "mat3 \<Rightarrow> mat3" where
  "ltr_int_transpose_in_place m = ltr_int_transpose m"

definition ltr_int_mul_matrix :: "mat3 \<Rightarrow> mat3 \<Rightarrow> mat3" where
  "ltr_int_mul_matrix m1 m2 =
     (case ltr_int_transpose m2 of (c0, c1, c2) \<Rightarrow> (case m1 of (r0, r1, r2) \<Rightarrow>
       ((ltr_int_dot_product r0 c0, ltr_int_dot_product r0 c1, ltr_int_dot_product r0 c2),
        (ltr_int_dot_product r1 c0, ltr_int_dot_product r1 c1, ltr_int_dot_product r1 c2),
        (ltr_int_dot_product r2 c0, ltr_int_dot_product r2 c1, ltr_int_dot_product r2 c2))))"

fun ltr_int_add_vecs :: "vec3 \<Rightarrow> vec3 \<Rightarrow> vec3" where
  "ltr_int_add_vecs (a0, a1, a2) (b0, b1, b2) = (d_add a0 b0, d_add a1 b1, d_add a2 b2)"

definition ltr_int_is_finite :: "cflt \<Rightarrow> bool" where "ltr_int_is_finite f = is_fin f"

fun ltr_int_is_vector_finite :: "vec3 \<Rightarrow> bool" where
  "ltr_int_is_vector_finite (a0, a1, a2) \<longleftrightarrow> ltr_int_is_finite a0 \<and> ltr_int_is_finite a1 \<and> ltr_int_is_finite a2"

fun ltr_int_is_matrix_finite :: "mat3 \<Rightarrow> bool" where
  "ltr_int_is_matrix_finite (r0, r1, r2) \<longleftrightarrow>
     ltr_int_is_vector_finite r0 \<and> ltr_int_is_vector_finite r1 \<and> ltr_int_is_vector_finite r2"

fun mat_det :: "mat3 \<Rightarrow> cflt" where
  "mat_det ((a0, a1, a2), (b0, b1, b2), (c0, c1, c2)) =
     d_sub (d_add (d_sub (d_add (d_sub (d_mul (d_mul a0 b1) c2) (d_mul (d_mul c0 b1) a2))
       (d_mul (d_mul b0 c1) a2)) (d_mul (d_mul b0 a1) c2)) (d_mul (d_mul c0 a1) b2)) (d_mul (d_mul a0 c1) b2)"

definition ltr_int_invert_matrix :: "mat3 \<Rightarrow> mat3" where
  "ltr_int_invert_matrix m = (case m of (r0, r1, r2) \<Rightarrow>
     let i = d_div (Fin 1) (mat_det m)
     in ltr_int_transpose_in_place
          (ltr_int_mul_vec (ltr_int_cross_product r1 r2) i,
           ltr_int_mul_vec (ltr_int_cross_product r2 r0) i,
           ltr_int_mul_vec (ltr_int_cross_product r0 r1) i))"

subsection \<open>Angles\<close>

text \<open>The results are in the order pitch, yaw, roll.\<close>

definition ltr_int_matrix_to_euler :: "libm \<Rightarrow> mat3 \<Rightarrow> vec3" where
  "ltr_int_matrix_to_euler M m = (case m of ((m00, m01, m02), (m10, m11, m12), (m20, m21, m22)) \<Rightarrow>
     let tmp = (if flt_less m02 (Fin (- 1)) then Fin (- 1) else m02);
         tmp = (if flt_less (Fin 1) tmp then Fin 1 else tmp);
         yaw = m_asin M tmp;
         yc = m_cos M yaw
     in if flt_less (rnd b64 (1 / 100000)) (fabs yc)
        then (m_atan2 M (d_div (fneg m12) yc) (d_div m22 yc), yaw, m_atan2 M (d_div (fneg m01) yc) (d_div m00 yc))
        else (Fin 0, yaw, m_atan2 M m10 m11))"

definition ltr_int_euler_to_matrix :: "libm \<Rightarrow> cflt \<Rightarrow> cflt \<Rightarrow> cflt \<Rightarrow> mat3" where
  "ltr_int_euler_to_matrix M pitch yaw roll =
     (let cp = m_cos M pitch; sp = m_sin M pitch; cy = m_cos M yaw; sy = m_sin M yaw; cr = m_cos M roll; sr = m_sin M roll
      in ((d_mul cr cy, d_mul (fneg sr) cy, sy),
          (d_add (d_mul (d_mul cr sy) sp) (d_mul sr cp), d_add (d_mul (d_mul (fneg sr) sy) sp) (d_mul cr cp), d_mul (fneg cy) sp),
          (d_add (d_mul (d_mul (fneg cr) sy) cp) (d_mul sr sp), d_add (d_mul (d_mul sr sy) cp) (d_mul cr sp), d_mul cy cp)))"

definition clamp_angle :: "cflt \<Rightarrow> cflt" where
  "clamp_angle angle =
     (if flt_less angle (Fin (- 180)) then Fin (- 180) else if flt_less (Fin 180) angle then Fin 180 else angle)"

subsection \<open>The curve of the older interface\<close>

record bez_def =
  p0_x :: cflt
  p0_y :: cflt
  p1_x :: cflt
  p1_y :: cflt
  p2_x :: cflt
  p2_y :: cflt
  ax :: cflt
  bx :: cflt
  cx :: cflt
  ay :: cflt
  b_y :: cflt
  cy :: cflt

definition ltr_int_make_bez :: "cflt \<Rightarrow> cflt \<Rightarrow> bez_def" where
  "ltr_int_make_bez deadzone k =
     (let q = d_sub (Fin 1) k
      in \<lparr>p0_x = deadzone, p0_y = Fin 0, p1_x = k, p1_y = q, p2_x = Fin 1, p2_y = Fin 1,
          ax = d_add (d_sub deadzone (d_mul (Fin 2) k)) (Fin 1), bx = d_mul (Fin 2) (d_sub k deadzone), cx = deadzone,
          ay = d_add (d_sub (Fin 0) (d_mul (Fin 2) q)) (Fin 1), b_y = d_mul (Fin 2) (d_sub q (Fin 0)), cy = Fin 0\<rparr>)"

definition ltr_int_bezier :: "cflt \<Rightarrow> bez_def \<Rightarrow> cflt" where
  "ltr_int_bezier x b =
     (if flt_less x (p0_x b) then Fin 0
      else let c = d_sub (cx b) x;
               t = d_div (d_add (fneg (bx b)) (fsqrt b64 (d_sub (d_mul (bx b) (bx b)) (d_mul (d_mul (Fin 4) (ax b)) c))))
                 (d_mul (Fin 2) (ax b))
           in d_add (d_add (d_mul (d_mul t t) (ay b)) (d_mul t (b_y b))) (cy b))"

subsection \<open>The filter\<close>

definition ltr_int_nonlinfilt :: "cflt \<Rightarrow> cflt \<Rightarrow> cflt \<Rightarrow> cflt" where
  "ltr_int_nonlinfilt x y_minus_1 filterfactor =
     (if \<not> ltr_int_is_finite x then y_minus_1
      else let delta = fsub b32 x y_minus_1;
               y = fadd b32 y_minus_1 (fmul b32 delta (fdiv b32 (fabs delta) (fadd b32 (fabs delta) filterfactor)))
           in if \<not> ltr_int_is_finite y then (if ltr_int_is_finite y_minus_1 then y_minus_1 else Fin 0) else y)"

subsection \<open>Lemmas\<close>

lemma nonlinfilt_finite: "is_fin y \<Longrightarrow> is_fin (ltr_int_nonlinfilt x y ff)"
  by (simp add: ltr_int_nonlinfilt_def ltr_int_is_finite_def Let_def)

lemma clamp_angle_range:
  assumes "is_fin x"
  shows "is_fin (clamp_angle x)" and "\<bar>cval (clamp_angle x)\<bar> \<le> 180"
  using assms by (cases x; auto simp: clamp_angle_def)+

lemma transpose_twice [simp]: "ltr_int_transpose (ltr_int_transpose m) = m"
  by (cases m rule: ltr_int_transpose.cases) simp

lemma matrix_finite_transpose [simp]: "ltr_int_is_matrix_finite (ltr_int_transpose m) = ltr_int_is_matrix_finite m"
  by (cases m rule: ltr_int_transpose.cases) auto

text \<open>A value that no longer changes passes the filter, also when the filter factor is zero and the weight
  \<open>0 / 0\<close> is no number.\<close>

lemma rnd_zero [simp]: "rnd F 0 = Fin 0"
  by (simp add: rnd_def)

lemma nonlinfilt_steady:
  assumes "rnd b32 r = Fin r" and "is_fin ff" and "0 \<le> cval ff"
  shows "ltr_int_nonlinfilt (Fin r) (Fin r) ff = Fin r"
proof -
  have d: "fsub b32 (Fin r) (Fin r) = Fin 0" by (simp add: fsub_def)
  show ?thesis using assms
    by (cases ff) (auto simp: ltr_int_nonlinfilt_def ltr_int_is_finite_def d fdiv_def fmul_def signed_zero_def Let_def rnd_def)
qed

end
