(* ===== verification/PrefGlobal.thy ===== *)
theory PrefGlobal
  imports PrefFile MathUtils TirPrefs CalTypes
begin

text \<open>
  \<open>src/pref_global.c\<close>: the settings that are common to all profiles, read from the section \<open>Global\<close> and cached
  in static variables (\<open>gprefs\<close>), the choice of the device and the dimensions of the reflector
  model (\<open>reflector_model_type\<close> of \<open>pose.h\<close>). A null section name passed to \<open>pref.cpp\<close> becomes a \<open>std::string\<close> made from
  a null pointer and ends the program: no result. \<open>u\<close> is what a variable without an initial value holds.
\<close>

datatype bool_val_t = UNSET | YES | NO

record gprefs =
  model_changed :: bool
  use_alter :: bool_val_t
  focal_length :: cflt
  use_oldrot :: bool_val_t
  tr_align :: bool_val_t

definition gprefs_init :: gprefs where
  "gprefs_init = \<lparr>model_changed = True, use_alter = UNSET, focal_length = Fin (- 1), use_oldrot = UNSET, tr_align = UNSET\<rparr>"

datatype model_kind = CAP | CLIP | SINGLE | FACE

record reflector_model_type =
  rm_p0 :: vec3
  rm_p1 :: vec3
  rm_p2 :: vec3
  rm_hc :: vec3
  rm_type :: model_kind

subsection \<open>Cached settings\<close>

definition ltr_int_get_device_section :: "prefs \<Rightarrow> string option" where
  "ltr_int_get_device_section p = ltr_int_get_key p ''Global'' ''Input''"

definition ltr_int_model_changed :: "bool \<Rightarrow> gprefs \<Rightarrow> bool \<times> gprefs" where
  "ltr_int_model_changed reset_flag g = (model_changed g, if reset_flag then g\<lparr>model_changed := False\<rparr> else g)"

definition ltr_int_announce_model_change :: "gprefs \<Rightarrow> gprefs" where
  "ltr_int_announce_model_change g = g\<lparr>model_changed := True\<rparr>"

definition ltr_int_get_model_section :: "prefs \<Rightarrow> string option" where
  "ltr_int_get_model_section p = ltr_int_get_key p ''Global'' ''Model''"

definition ltr_int_is_model_active :: "prefs \<Rightarrow> bool option" where
  "ltr_int_is_model_active p =
     map_option (\<lambda>sec. case ltr_int_get_key p sec ''Active'' of None \<Rightarrow> False | Some active \<Rightarrow> strcaseeq active ''yes'')
       (ltr_int_get_model_section p)"

definition yes_no :: "bool \<Rightarrow> bool_val_t" where "yes_no b = (if b then YES else NO)"

definition yes_no_text :: "bool \<Rightarrow> string" where "yes_no_text b = (if b then ''yes'' else ''no'')"

text \<open>A cached switch: what the store says, or the default when it says nothing.\<close>

definition stored_switch :: "prefs \<Rightarrow> string \<Rightarrow> bool_val_t \<Rightarrow> bool_val_t" where
  "stored_switch p key dflt =
     (case ltr_int_get_key p ''Global'' key of None \<Rightarrow> dflt | Some m \<Rightarrow> yes_no (strcaseeq m ''yes''))"

definition ltr_int_use_alter :: "prefs \<Rightarrow> gprefs \<Rightarrow> bool \<times> gprefs" where
  "ltr_int_use_alter p g =
     (let g = (if use_alter g = UNSET then g\<lparr>use_alter := stored_switch p ''Legacy-pose-computation'' NO\<rparr> else g)
      in (use_alter g = YES, g))"

definition ltr_int_set_use_alter :: "bool \<Rightarrow> prefs \<Rightarrow> gprefs \<Rightarrow> prefs \<times> gprefs" where
  "ltr_int_set_use_alter state p g =
     (snd (ltr_int_change_key ''Global'' ''Legacy-pose-computation'' (yes_no_text state) p), g\<lparr>use_alter := yes_no state\<rparr>)"

definition ltr_int_get_focal_length :: "prefs \<Rightarrow> gprefs \<Rightarrow> cflt \<times> gprefs" where
  "ltr_int_get_focal_length p g =
     (let g = (if flt_less (focal_length g) (Fin 0)
               then (case ltr_int_get_key_flt p ''Global'' ''Focal-length'' (focal_length g) of (ok, fl) \<Rightarrow>
                       g\<lparr>focal_length := (if \<not> ok \<or> flt_less fl (Fin 0) then Fin 660 else fl)\<rparr>)
               else g)
      in (focal_length g, g))"

definition ltr_int_set_focal_length :: "cflt \<Rightarrow> prefs \<Rightarrow> gprefs \<Rightarrow> prefs \<times> gprefs" where
  "ltr_int_set_focal_length fl p g =
     (snd (ltr_int_change_key_flt ''Global'' ''Focal-length'' fl p), g\<lparr>focal_length := fl\<rparr>)"

definition ltr_int_use_oldrot :: "prefs \<Rightarrow> gprefs \<Rightarrow> bool \<times> gprefs" where
  "ltr_int_use_oldrot p g =
     (let g = (if use_oldrot g = UNSET then g\<lparr>use_oldrot := stored_switch p ''Legacy-rotation-computation'' NO\<rparr> else g)
      in (use_oldrot g = YES, g))"

definition ltr_int_set_use_oldrot :: "bool \<Rightarrow> prefs \<Rightarrow> gprefs \<Rightarrow> prefs \<times> gprefs" where
  "ltr_int_set_use_oldrot state p g =
     (snd (ltr_int_change_key ''Global'' ''Legacy-rotation-computation'' (yes_no_text state) p), g\<lparr>use_oldrot := yes_no state\<rparr>)"

definition ltr_int_do_tr_align :: "prefs \<Rightarrow> gprefs \<Rightarrow> bool \<times> gprefs" where
  "ltr_int_do_tr_align p g =
     (let g = (if tr_align g = UNSET then g\<lparr>tr_align := stored_switch p ''Align-translations'' YES\<rparr> else g)
      in (tr_align g = YES, g))"

definition ltr_int_set_tr_align :: "bool \<Rightarrow> prefs \<Rightarrow> gprefs \<Rightarrow> prefs \<times> gprefs" where
  "ltr_int_set_tr_align state p g =
     (snd (ltr_int_change_key ''Global'' ''Align-translations'' (yes_no_text state) p), g\<lparr>tr_align := yes_no state\<rparr>)"

definition ltr_int_get_orientation :: "prefs \<Rightarrow> int" where
  "ltr_int_get_orientation p =
     (case ltr_int_get_key_int p ''Global'' ''Camera-orientation'' 0 of (ok, orientation) \<Rightarrow> if ok then orientation else 0)"

subsection \<open>The device\<close>

definition device_names :: "(string \<times> cal_device_category_type) list" where
  "device_names = [(''Tir'', tir), (''Tir4'', tir4_camera), (''Webcam'', webcam), (''Webcam-face'', webcam_ft),
     (''MacWebcam'', mac_webcam), (''MacWebcam-face'', mac_webcam_ft), (''Wiimote'', wiimote)]"

definition set_category :: "string \<Rightarrow> bool \<times> camera_control_block \<Rightarrow> string \<times> cal_device_category_type \<Rightarrow> bool \<times> camera_control_block" where
  "set_category dev_type r nc = (case nc of (n, c) \<Rightarrow>
     if strcaseeq dev_type n then (True, (snd r)\<lparr>ccb_device := (ccb_device (snd r))\<lparr>dev_category := c\<rparr>\<rparr>) else r)"

definition ltr_int_get_device :: "prefs \<Rightarrow> camera_control_block \<Rightarrow> bool \<times> camera_control_block" where
  "ltr_int_get_device p ccb =
     (case ltr_int_get_device_section p of
        None \<Rightarrow> (False, ccb)
      | Some dev_section \<Rightarrow>
          (case (case ltr_int_get_key p dev_section ''Capture-device'' of
                   None \<Rightarrow> (False, ccb)
                 | Some dev_type \<Rightarrow> foldl (set_category dev_type) (False, ccb) device_names) of
             (dev_ok, ccb) \<Rightarrow>
               (case ltr_int_get_key p dev_section ''Capture-device-id'' of
                  None \<Rightarrow> (False, ccb)
                | Some dev_id \<Rightarrow> (dev_ok, ccb\<lparr>ccb_device := (ccb_device ccb)\<lparr>device_id := dev_id\<rparr>\<rparr>))))"

subsection \<open>The model\<close>

text \<open>Reading several floats; the first missing key ends it.\<close>

fun get_flts :: "prefs \<Rightarrow> cflt \<Rightarrow> string \<Rightarrow> string list \<Rightarrow> cflt list option" where
  "get_flts p u sec [] = Some []"
| "get_flts p u sec (k # ks) =
     (case ltr_int_get_key_flt p sec k u of (ok, v) \<Rightarrow>
        if ok then map_option ((#) v) (get_flts p u sec ks) else None)"

definition setup_cap :: "prefs \<Rightarrow> cflt \<Rightarrow> reflector_model_type \<Rightarrow> string \<Rightarrow> bool \<times> reflector_model_type" where
  "setup_cap p u rm model_section =
     (case get_flts p u model_section [''Cap-X'', ''Cap-Y'', ''Cap-Z'', ''Head-Y'', ''Head-Z''] of
        Some [x, y, z, hy, hz] \<Rightarrow>
          (True, rm\<lparr>rm_p0 := (Fin 0, y, Fin 0),
                    rm_p1 := (fdiv b32 (fneg x) (Fin 2), Fin 0, fneg z),
                    rm_p2 := (fdiv b32 x (Fin 2), Fin 0, fneg z),
                    rm_hc := (Fin 0, fneg hy, hz),
                    rm_type := CAP\<rparr>)
      | _ \<Rightarrow> (False, rm))"

definition setup_clip :: "prefs \<Rightarrow> cflt \<Rightarrow> reflector_model_type \<Rightarrow> string \<Rightarrow> bool \<times> reflector_model_type" where
  "setup_clip p u rm model_section =
     (case get_flts p u model_section [''Clip-Y1'', ''Clip-Y2'', ''Clip-Z1'', ''Clip-Z2'', ''Head-X'', ''Head-Y'', ''Head-Z''] of
        Some [y1, y2, z1, z2, hx, hy, hz] \<Rightarrow>
          (True, rm\<lparr>rm_p0 := (Fin 0, y1, fneg z1),
                    rm_p1 := (Fin 0, Fin 0, Fin 0),
                    rm_p2 := (Fin 0, fsub b32 y1 y2, fsub b32 (fneg z1) z2),
                    rm_hc := (hx, hy, hz),
                    rm_type := CLIP\<rparr>)
      | _ \<Rightarrow> (False, rm))"

definition ltr_int_get_model_setup :: "prefs \<Rightarrow> cflt \<Rightarrow> reflector_model_type \<Rightarrow> (bool \<times> reflector_model_type) option" where
  "ltr_int_get_model_setup p u rm =
     do { model_section \<leftarrow> ltr_int_get_model_section p;
          model_type \<leftarrow> ltr_int_get_key p model_section ''Model-type'';
          Some (if strcaseeq model_type ''Cap'' then setup_cap p u rm model_section
                else if strcaseeq model_type ''Clip'' then setup_clip p u rm model_section
                else if strcaseeq model_type ''SinglePoint'' then (True, rm\<lparr>rm_type := SINGLE\<rparr>)
                else if strcaseeq model_type ''Face'' then (True, rm\<lparr>rm_type := FACE\<rparr>)
                else (False, rm)) }"

subsection \<open>Properties\<close>

lemma change_key_get:
  "prefs_ok p \<Longrightarrow> ltr_int_get_key (snd (ltr_int_change_key sec key v p)) s k =
    (if s = sec \<and> k = key then Some v else ltr_int_get_key p s k)"
  by (simp add: ltr_int_get_key_def ltr_int_change_key_def get_set)

lemma yes_no_text [simp]: "strcaseeq (yes_no_text b) ''yes'' = b"
  by (cases b) (simp_all add: yes_no_text_def strcaseeq_def lower_char_def)

lemma yes_no_simps [simp]: "yes_no b = YES \<longleftrightarrow> b" "yes_no b \<noteq> UNSET"
  by (simp_all add: yes_no_def)

text \<open>What a cached setting promises: the value set is read back at once, without looking at the store; a program that starts
  with an empty cache reads it from any store that has the entry the setting wrote; no other entry changes.\<close>

locale cached_setting =
  fixes put :: "'a \<Rightarrow> prefs \<Rightarrow> gprefs \<Rightarrow> prefs \<times> gprefs"
    and get :: "prefs \<Rightarrow> gprefs \<Rightarrow> 'a \<times> gprefs"
    and key :: string
  assumes set_cached: "get q (snd (put v p g)) = (v, snd (put v p g))"
    and set_stored: "prefs_ok p \<Longrightarrow> ltr_int_get_key q ''Global'' key = ltr_int_get_key (fst (put v p g)) ''Global'' key \<Longrightarrow>
          fst (get q gprefs_init) = v"
    and set_others: "prefs_ok p \<Longrightarrow> (s, k) \<noteq> (''Global'', key) \<Longrightarrow>
          ltr_int_get_key (fst (put v p g)) s k = ltr_int_get_key p s k"
    and set_ok: "prefs_ok p \<Longrightarrow> prefs_ok (fst (put v p g))"
begin

text \<open>Other settings may be made before the restart.\<close>

lemma survives:
  assumes "prefs_ok p" and "list_all (\<lambda>(sk, w). sk \<noteq> (''Global'', key)) sets"
  shows "fst (get (fold (\<lambda>((s, k), w). setValue s k w) sets (fst (put v p g))) gprefs_init) = v"
proof (rule set_stored [OF assms(1)])
  have "ltr_int_get_key (fold (\<lambda>((s, k), w). setValue s k w) sets r) ''Global'' key = ltr_int_get_key r ''Global'' key"
    if "prefs_ok r" for r
    using assms(2) that
    by (induction sets arbitrary: r) (auto simp: ltr_int_get_key_def get_set setValue_ok split: if_splits)
  then show "ltr_int_get_key (fold (\<lambda>((s, k), w). setValue s k w) sets (fst (put v p g))) ''Global'' key =
      ltr_int_get_key (fst (put v p g)) ''Global'' key"
    using set_ok [OF assms(1)] by blast
qed

end

lemmas switch_defs = ltr_int_set_use_alter_def ltr_int_set_use_oldrot_def ltr_int_set_tr_align_def ltr_int_use_alter_def
  ltr_int_use_oldrot_def ltr_int_do_tr_align_def stored_switch_def gprefs_init_def Let_def

lemma change_key_ok: "prefs_ok p \<Longrightarrow> prefs_ok (snd (ltr_int_change_key s k v p))"
  by (simp add: ltr_int_change_key_def setValue_ok)

interpretation legacy_pose: cached_setting ltr_int_set_use_alter ltr_int_use_alter "''Legacy-pose-computation''"
  by unfold_locales (auto simp: switch_defs change_key_get change_key_ok)

interpretation legacy_rotation: cached_setting ltr_int_set_use_oldrot ltr_int_use_oldrot "''Legacy-rotation-computation''"
  by unfold_locales (auto simp: switch_defs change_key_get change_key_ok)

interpretation align: cached_setting ltr_int_set_tr_align ltr_int_do_tr_align "''Align-translations''"
  by unfold_locales (auto simp: switch_defs change_key_get change_key_ok)

text \<open>A legacy switch set is the switch read, now and after a restart: setting one of the three cached switches makes the cached
  answer the value set, and after any further settings in other sections a program that starts with these preferences and an
  empty cache gives the same answer.\<close>

theorem switches_survive_restart:
  assumes "pref_step\<^sup>*\<^sup>* prefs_empty p" and "list_all (\<lambda>((s, k), w). s \<noteq> ''Global'') sets"
  shows "let later = (\<lambda>r. fold (\<lambda>((s, k), w). setValue s k w) sets (fst r)) in
    fst (ltr_int_use_alter p (snd (ltr_int_set_use_alter b p g))) = b \<and>
    fst (ltr_int_use_alter (later (ltr_int_set_use_alter b p g)) gprefs_init) = b \<and>
    fst (ltr_int_use_oldrot p (snd (ltr_int_set_use_oldrot b p g))) = b \<and>
    fst (ltr_int_use_oldrot (later (ltr_int_set_use_oldrot b p g)) gprefs_init) = b \<and>
    fst (ltr_int_do_tr_align p (snd (ltr_int_set_tr_align b p g))) = b \<and>
    fst (ltr_int_do_tr_align (later (ltr_int_set_tr_align b p g)) gprefs_init) = b"
proof -
  have ok: "prefs_ok p" using assms(1) by (rule reachable_ok)
  have others: "list_all (\<lambda>(sk, w). sk \<noteq> (''Global'', key)) sets" for key
    using assms(2) by (auto simp: list_all_iff)
  note after = legacy_pose.survives [OF ok others] legacy_rotation.survives [OF ok others] align.survives [OF ok others]
  show ?thesis unfolding Let_def
    by (simp only: after legacy_pose.set_cached legacy_rotation.set_cached align.set_cached fst_conv simp_thms)
qed

theorem switches_survive_restart_witness:
  "fst (ltr_int_do_tr_align (setValue ''Profile'' ''Title'' ''Default'' (fst (ltr_int_set_tr_align False prefs_empty gprefs_init))) gprefs_init) = False"
  using switches_survive_restart [of prefs_empty "[((''Profile'', ''Title''), ''Default'')]" False gprefs_init]
  by (simp add: Let_def)

text \<open>A focal length that is set is the one used, unless it is negative: then the stored one is read, which is the same, and 660 is
  used instead; a restart reads the six digits that were stored.\<close>

lemma focal_length_set:
  "\<not> flt_less fl (Fin 0) \<Longrightarrow> fst (ltr_int_get_focal_length q (snd (ltr_int_set_focal_length fl p g))) = fl"
  by (simp add: ltr_int_get_focal_length_def ltr_int_set_focal_length_def)

text \<open>Only a known device with an identification is accepted, and then its category is that of the table.\<close>

lemma set_category_pair:
  "set_category t r (n, k) = (if strcaseeq t n then (True, (snd r)\<lparr>ccb_device := (ccb_device (snd r))\<lparr>dev_category := k\<rparr>\<rparr>) else r)"
  by (simp add: set_category_def)

lemma set_category_known:
  "foldl (set_category t) (False, ccb) ns = (True, c) \<Longrightarrow> \<exists>(n, k) \<in> set ns. strcaseeq t n \<and> dev_category (ccb_device c) = k"
proof (induction ns arbitrary: c rule: rev_induct)
  case (snoc x ns)
  obtain n k where x: "x = (n, k)" by (cases x)
  show ?case
  proof (cases "strcaseeq t n")
    case True
    then show ?thesis using snoc.prems by (auto simp: x set_category_pair)
  next
    case False
    then have "foldl (set_category t) (False, ccb) ns = (True, c)" using snoc.prems by (simp add: x set_category_pair)
    from snoc.IH [OF this] show ?thesis by auto
  qed
qed simp

lemma known_devices:
  assumes "ltr_int_get_device p ccb = (True, c)"
  shows "\<exists>sec t i. ltr_int_get_device_section p = Some sec \<and> ltr_int_get_key p sec ''Capture-device'' = Some t \<and>
     ltr_int_get_key p sec ''Capture-device-id'' = Some i \<and> device_id (ccb_device c) = i \<and>
     (\<exists>(n, k) \<in> set device_names. strcaseeq t n \<and> dev_category (ccb_device c) = k)"
proof -
  obtain sec t i d where s: "ltr_int_get_device_section p = Some sec" "ltr_int_get_key p sec ''Capture-device'' = Some t"
    "ltr_int_get_key p sec ''Capture-device-id'' = Some i"
    and d: "foldl (set_category t) (False, ccb) device_names = (True, d)" and c: "c = d\<lparr>ccb_device := (ccb_device d)\<lparr>device_id := i\<rparr>\<rparr>"
    using assms unfolding ltr_int_get_device_def by (auto split: option.splits prod.splits)
  from set_category_known [OF d] s c show ?thesis by simp
qed

end
