(* ===== verification/FltRound.thy ===== *)
theory FltRound
  imports CFloat
begin

text \<open>
  Facts about rounding to a format: it moves by at most half a unit, is monotone, symmetric, and leaves the
  numbers of the format alone. The bounds on the results of the tracking code rest on them.
\<close>

subsection \<open>Rounding to integers\<close>

lemma round_even_char: "\<bar>x - of_int (round_even x)\<bar> < 1 / 2 \<or> \<bar>x - of_int (round_even x)\<bar> = 1 / 2 \<and> even (round_even x)"
proof -
  have f: "of_int \<lfloor>x\<rfloor> \<le> x" "x < of_int \<lfloor>x\<rfloor> + 1" by linarith+
  consider "x - of_int \<lfloor>x\<rfloor> < 1 / 2" | "1 / 2 < x - of_int \<lfloor>x\<rfloor>" | "x - of_int \<lfloor>x\<rfloor> = 1 / 2" by linarith
  then show ?thesis
  proof cases
    case 1 then show ?thesis using f by (auto simp: round_even_def Let_def)
  next
    case 2 then show ?thesis using f by (auto simp: round_even_def Let_def)
  next
    case 3 then show ?thesis using f by (auto simp: round_even_def Let_def)
  qed
qed

lemma round_even_err: "\<bar>of_int (round_even x) - x\<bar> \<le> 1 / 2"
  using round_even_char [of x] by (auto simp: abs_minus_commute)

lemma round_even_unique:
  assumes "\<bar>x - of_int n\<bar> < 1 / 2 \<or> \<bar>x - of_int n\<bar> = 1 / 2 \<and> even n"
  shows "round_even x = n"
proof (rule ccontr)
  assume ne: "round_even x \<noteq> n"
  have d: "\<bar>of_int (round_even x) - of_int n :: rat\<bar> \<le> \<bar>x - of_int n\<bar> + \<bar>x - of_int (round_even x)\<bar>" by linarith
  have "\<bar>x - of_int n\<bar> \<le> 1 / 2" using assms by linarith
  moreover have "\<bar>x - of_int (round_even x)\<bar> \<le> 1 / 2" using round_even_char [of x] by linarith
  ultimately have "\<bar>of_int (round_even x) - of_int n :: rat\<bar> \<le> 1" using d by linarith
  then have "\<bar>of_int (round_even x - n) :: rat\<bar> \<le> of_int 1" by simp
  then have "\<bar>round_even x - n\<bar> \<le> 1" by (simp only: of_int_abs [symmetric] of_int_le_iff)
  with ne have s: "round_even x = n + 1 \<or> round_even x = n - 1" by linarith
  then have e: "(of_int (round_even x) :: rat) = of_int n + 1 \<or> (of_int (round_even x) :: rat) = of_int n - 1" by auto
  have "\<bar>x - of_int n\<bar> = 1 / 2 \<and> \<bar>x - of_int (round_even x)\<bar> = 1 / 2"
    using e \<open>\<bar>x - of_int n\<bar> \<le> 1 / 2\<close> \<open>\<bar>x - of_int (round_even x)\<bar> \<le> 1 / 2\<close> by linarith
  then have "even n" "even (round_even x)" using assms round_even_char [of x] by auto
  with s show False by auto
qed

lemma round_even_minus: "round_even (- x) = - round_even x"
  by (rule round_even_unique) (use round_even_char [of x] in \<open>auto simp: abs_minus_commute\<close>)

lemma round_even_mono:
  assumes "x \<le> y"
  shows "round_even x \<le> round_even y"
proof (rule ccontr)
  assume "\<not> round_even x \<le> round_even y"
  then have "round_even y + 1 \<le> round_even x" by simp
  then have "of_int (round_even y + 1) \<le> (of_int (round_even x) :: rat)" by (simp only: of_int_le_iff)
  then have "of_int (round_even y) + 1 \<le> (of_int (round_even x) :: rat)" by simp
  then have "x = y" using assms round_even_err [of x] round_even_err [of y] by linarith
  with \<open>\<not> round_even x \<le> round_even y\<close> show False by simp
qed

subsection \<open>Rounding to a format\<close>

definition quantum :: "fmt \<Rightarrow> rat \<Rightarrow> int" where
  "quantum F r = max (ilog2 \<bar>r\<bar> - (int (prec F) - 1)) (qmin F)"

definition rval :: "fmt \<Rightarrow> rat \<Rightarrow> rat" where
  "rval F r = (if r = 0 then 0 else of_int (round_even (r / pow2 (quantum F r))) * pow2 (quantum F r))"

lemma pow2_simps [simp]: "0 \<le> pow2 k" "pow2 k \<noteq> 0" "\<bar>pow2 k\<bar> = pow2 k"
  using pow2_pos [of k] by (simp_all add: less_imp_le abs_of_pos del: pow2_pos)

lemma div_pow2_mono: "x \<le> y \<Longrightarrow> x / pow2 q \<le> y / pow2 q"
  by (rule divide_right_mono) simp_all

lemma rnd_if:
  assumes "r \<noteq> 0"
  shows "rnd F r = (if pow2 (emax F + 1) \<le> \<bar>rval F r\<bar> then Inf (r < 0)
      else if rval F r = 0 then (if r < 0 then NegZero else Fin 0) else Fin (rval F r))"
  using assms by (simp only: rnd_def rval_def quantum_def Let_def if_False)

lemma rnd_rval:
  assumes "\<bar>rval F r\<bar> < pow2 (emax F + 1)"
  shows "rnd F r = (if rval F r = 0 \<and> r < 0 then NegZero else Fin (rval F r))"
proof (cases "r = 0")
  case False
  from rnd_if [OF this, of F] assms show ?thesis by auto
qed (simp add: rnd_def rval_def)

lemma cval_rnd: "\<bar>rval F r\<bar> < pow2 (emax F + 1) \<Longrightarrow> is_fin (rnd F r) \<and> cval (rnd F r) = rval F r"
  by (simp add: rnd_rval)

lemma quantum_minus [simp]: "quantum F (- r) = quantum F r"
  by (simp add: quantum_def)

lemma rval_minus: "rval F (- r) = - rval F r"
  by (simp add: rval_def round_even_minus)

lemma ilog2_mono:
  assumes "0 < r" and "r \<le> s"
  shows "ilog2 r \<le> ilog2 s"
proof -
  have "pow2 (ilog2 r) < pow2 (ilog2 s + 1)"
    using ilog2_bounds(1) [of r] ilog2_bounds(2) [of s] assms by linarith
  then show ?thesis by simp
qed

lemma pow2_div: "pow2 a / pow2 b = pow2 (a - b)"
  by (simp add: pow2_powi power_int_diff)

lemma pow2_int: "0 \<le> k \<Longrightarrow> pow2 k = of_int (2 ^ nat k)"
  by (simp add: pow2_def)

text \<open>Above and below a power of two.\<close>

lemma rval_le_pow2:
  assumes "0 < r" and "r \<le> pow2 k" and "quantum F r \<le> k"
  shows "rval F r \<le> pow2 k"
proof -
  let ?q = "quantum F r"
  have "r / pow2 ?q \<le> pow2 k / pow2 ?q" using assms(2) by (rule div_pow2_mono)
  also have "\<dots> = of_int (2 ^ nat (k - ?q))" using assms(3) by (simp add: pow2_div pow2_int)
  finally have "round_even (r / pow2 ?q) \<le> 2 ^ nat (k - ?q)"
    using round_even_mono [of "r / pow2 ?q" "of_int (2 ^ nat (k - ?q))"] by (simp only: round_even_of_int)
  then have "of_int (round_even (r / pow2 ?q)) \<le> (of_int (2 ^ nat (k - ?q)) :: rat)" by (simp only: of_int_le_iff)
  also have "\<dots> = pow2 (k - ?q)" using assms(3) by (simp add: pow2_int)
  finally have "of_int (round_even (r / pow2 ?q)) * pow2 ?q \<le> pow2 (k - ?q) * pow2 ?q" by simp
  then show ?thesis using assms(1) by (simp add: rval_def pow2_add [symmetric])
qed

lemma rval_ge_pow2:
  assumes "0 < r" and "pow2 k \<le> r" and "quantum F r \<le> k"
  shows "pow2 k \<le> rval F r"
proof -
  let ?q = "quantum F r"
  have "of_int (2 ^ nat (k - ?q)) = pow2 k / pow2 ?q" using assms(3) by (simp add: pow2_div pow2_int)
  also have "\<dots> \<le> r / pow2 ?q" using assms(2) by (rule div_pow2_mono)
  finally have "2 ^ nat (k - ?q) \<le> round_even (r / pow2 ?q)"
    using round_even_mono [of "of_int (2 ^ nat (k - ?q))" "r / pow2 ?q"] by (simp only: round_even_of_int)
  then have "(of_int (2 ^ nat (k - ?q)) :: rat) \<le> of_int (round_even (r / pow2 ?q))" by (simp only: of_int_le_iff)
  moreover have "pow2 (k - ?q) = of_int (2 ^ nat (k - ?q))" using assms(3) by (simp add: pow2_int)
  ultimately have "pow2 (k - ?q) * pow2 ?q \<le> of_int (round_even (r / pow2 ?q)) * pow2 ?q" by simp
  then show ?thesis using assms(1) by (simp add: rval_def pow2_add [symmetric])
qed

lemma rval_mono:
  assumes r: "0 < r" and s: "r \<le> s" and p: "0 < prec F"
  shows "rval F r \<le> rval F s"
proof (cases "quantum F r = quantum F s")
  case True
  have "round_even (r / pow2 (quantum F s)) \<le> round_even (s / pow2 (quantum F s))"
    using s by (intro round_even_mono div_pow2_mono)
  then show ?thesis using r s True by (simp add: rval_def)
next
  case False
  have il: "ilog2 r \<le> ilog2 s" using ilog2_mono [OF r s] .
  then have q: "quantum F r < quantum F s" "quantum F s = ilog2 s - (int (prec F) - 1)" "ilog2 r < ilog2 s"
    using False r s by (auto simp: quantum_def)
  have "r \<le> pow2 (ilog2 s)"
    using ilog2_bounds(2) [OF r] pow2_mono [of "ilog2 r + 1" "ilog2 s"] q(3) by linarith
  then have "rval F r \<le> pow2 (ilog2 s)" using r q p by (intro rval_le_pow2) auto
  also have "\<dots> \<le> rval F s" using r s q p ilog2_bounds(1) [of s] by (intro rval_ge_pow2) auto
  finally show ?thesis .
qed

lemma rval_nonneg: "0 \<le> r \<Longrightarrow> 0 \<le> rval F r"
proof -
  assume r: "0 \<le> r"
  have "round_even 0 \<le> round_even (r / pow2 (quantum F r))" using div_pow2_mono [OF r, of "quantum F r"] by (intro round_even_mono) simp
  then show ?thesis using round_even_of_int [of 0] by (simp add: rval_def)
qed

text \<open>The error of one rounding.\<close>

lemma rval_err_quantum: "r \<noteq> 0 \<Longrightarrow> \<bar>rval F r - r\<bar> \<le> pow2 (quantum F r) / 2"
proof -
  assume r: "r \<noteq> 0"
  let ?q = "quantum F r"
  have "rval F r - r = (of_int (round_even (r / pow2 ?q)) - r / pow2 ?q) * pow2 ?q" using r by (simp add: rval_def field_simps)
  then have "\<bar>rval F r - r\<bar> = \<bar>of_int (round_even (r / pow2 ?q)) - r / pow2 ?q\<bar> * pow2 ?q"
    by (simp add: abs_mult abs_of_pos)
  then show ?thesis using mult_right_mono [OF round_even_err [of "r / pow2 ?q"], of "pow2 ?q"] by (simp add: less_imp_le)
qed

lemma rval_err_rel:
  assumes "r \<noteq> 0" and "qmin F \<le> ilog2 \<bar>r\<bar> - (int (prec F) - 1)"
  shows "\<bar>rval F r - r\<bar> \<le> \<bar>r\<bar> * pow2 (- int (prec F))"
proof -
  have q: "quantum F r = ilog2 \<bar>r\<bar> + (1 - int (prec F))" using assms(2) by (simp add: quantum_def)
  have "pow2 (1 - int (prec F)) / 2 = pow2 (- int (prec F))"
    using pow2_add [of 1 "- int (prec F)"] by (simp add: pow2_def)
  then have "pow2 (quantum F r) / 2 = pow2 (ilog2 \<bar>r\<bar>) * pow2 (- int (prec F))" by (simp add: q pow2_add mult.assoc)
  also have "\<dots> \<le> \<bar>r\<bar> * pow2 (- int (prec F))"
    using ilog2_bounds(1) [of "\<bar>r\<bar>"] assms(1) by (intro mult_right_mono) (auto simp: less_imp_le)
  finally show ?thesis using rval_err_quantum [OF assms(1), of F] by linarith
qed

text \<open>The numbers of the format.\<close>

lemma rval_grid_aux:
  assumes "\<bar>n\<bar> < 2 ^ prec F" and "qmin F \<le> q" and "0 < prec F"
  shows "rval F (of_int n * pow2 q) = of_int n * pow2 q"
proof (cases "n = 0")
  case False
  let ?v = "of_int n * pow2 q :: rat"
  have "\<bar>?v\<bar> = of_int \<bar>n\<bar> * pow2 q" by (simp add: abs_mult abs_of_pos)
  also have "\<dots> < of_int (2 ^ prec F) * pow2 q"
    using assms(1) by (intro mult_strict_right_mono) (simp_all only: of_int_less_iff pow2_pos)
  also have "\<dots> = pow2 (int (prec F) + q)" by (simp add: pow2_add pow2_of_nat)
  finally have "ilog2 \<bar>?v\<bar> < int (prec F) + q" using False by (intro ilog2_less) auto
  then have q: "quantum F ?v \<le> q" using assms(2) by (simp add: quantum_def)
  have "?v / pow2 (quantum F ?v) = of_int n * pow2 (q - quantum F ?v)" by (simp add: pow2_div [symmetric])
  also have "\<dots> = of_int (n * 2 ^ nat (q - quantum F ?v))" using q by (simp add: pow2_int)
  finally have "round_even (?v / pow2 (quantum F ?v)) = n * 2 ^ nat (q - quantum F ?v)" by (simp only: round_even_of_int)
  then have "rval F ?v = of_int n * (pow2 (q - quantum F ?v) * pow2 (quantum F ?v))"
    using False q by (simp add: rval_def pow2_int)
  then show ?thesis by (simp add: pow2_add [symmetric])
qed (simp add: rval_def)

lemma rval_grid:
  assumes "\<bar>n\<bar> \<le> 2 ^ prec F" and "qmin F \<le> q" and "0 < prec F"
  shows "rval F (of_int n * pow2 q) = of_int n * pow2 q"
proof (cases "\<bar>n\<bar> = 2 ^ prec F")
  case True
  have two: "(2 :: int) ^ prec F = 2 * 2 ^ (prec F - 1)" using assms(3) by (metis Suc_diff_1 power_Suc)
  have "n = sgn n * \<bar>n\<bar>" by (simp only: sgn_mult_abs)
  then have "n = 2 * (sgn n * 2 ^ (prec F - 1))" using True two by simp
  then obtain m where m: "n = 2 * m" "\<bar>m\<bar> = 2 ^ (prec F - 1)" using True two by fastforce
  have "of_int n * pow2 q = of_int m * pow2 (q + 1)" using pow2_of_nat [of 1] by (simp add: m(1) pow2_add)
  moreover have "\<bar>m\<bar> < 2 ^ prec F" using m(2) two by simp
  ultimately show ?thesis using assms by (metis rval_grid_aux add_increasing2 zero_le_one)
qed (use assms rval_grid_aux in auto)

lemma rval_idem:
  assumes "0 < prec F"
  shows "rval F (rval F r) = rval F r"
proof (cases "r = 0")
  case False
  let ?q = "quantum F r"
  have q: "ilog2 \<bar>r\<bar> + 1 \<le> ?q + int (prec F)" "qmin F \<le> ?q" by (auto simp: quantum_def)
  have "\<bar>r\<bar> < pow2 (ilog2 \<bar>r\<bar> + 1)" using False by (intro ilog2_bounds) simp
  also have "\<dots> \<le> pow2 (?q + int (prec F))" using q(1) by (rule pow2_mono)
  finally have "\<bar>r / pow2 ?q\<bar> \<le> of_int (2 ^ prec F)" by (simp add: abs_div abs_of_pos pow2_add pow2_of_nat field_simps less_imp_le)
  then have "r / pow2 ?q \<le> of_int (2 ^ prec F)" "of_int (- (2 ^ prec F)) \<le> r / pow2 ?q"
    unfolding abs_le_iff by (simp_all only: of_int_minus minus_le_iff)
  then have "round_even (r / pow2 ?q) \<le> 2 ^ prec F" "- (2 ^ prec F) \<le> round_even (r / pow2 ?q)"
    using round_even_mono [of "r / pow2 ?q" "of_int (2 ^ prec F)"] round_even_mono [of "of_int (- (2 ^ prec F))" "r / pow2 ?q"]
    by (simp_all only: round_even_of_int)
  then have "\<bar>round_even (r / pow2 ?q)\<bar> \<le> 2 ^ prec F" by simp
  from rval_grid [OF this q(2) assms] False show ?thesis by (simp add: rval_def)
qed (simp add: rval_def)

subsection \<open>Bounds on single operations\<close>

definition wide :: "fmt \<Rightarrow> bool" where
  "wide F \<longleftrightarrow> 24 \<le> prec F \<and> qmin F \<le> - 149 \<and> 127 \<le> emax F"

lemma wide_simps [simp]: "wide b32" "wide b64"
  by (simp_all add: wide_def)

lemma cval_neg [simp]: "cval (fneg x) = - cval x" "is_fin (fneg x) = is_fin x" "cval (fabs x) = \<bar>cval x\<bar>" "is_fin (fabs x) = is_fin x"
  by (cases x; simp)+

lemma cval_signed_zero [simp]: "cval (signed_zero b) = 0" "is_fin (signed_zero b)"
  by (simp_all add: signed_zero_def)

lemma flt_less_fin [simp]: "is_fin x \<Longrightarrow> is_fin y \<Longrightarrow> flt_less x y = (cval x < cval y)"
  by (cases x; cases y; simp)

text \<open>The results are roundings of the exact results.\<close>

lemma add_cases: "is_fin x \<Longrightarrow> is_fin y \<Longrightarrow> fadd F x y = rnd F (cval x + cval y) \<or> cval x + cval y = 0 \<and> fadd F x y = NegZero"
  by (cases x; cases y; simp)

lemma mul_cases: "is_fin x \<Longrightarrow> is_fin y \<Longrightarrow> fmul F x y = rnd F (cval x * cval y) \<or> cval x * cval y = 0 \<and> (\<exists>b. fmul F x y = signed_zero b)"
  by (cases x; cases y; simp add: fmul_def Let_def) auto

lemma rval_0 [simp]: "rval F 0 = 0"
  by (simp add: rval_def)

lemma rval_abs_le:
  assumes "\<bar>r\<bar> \<le> s" and "0 < prec F"
  shows "\<bar>rval F r\<bar> \<le> rval F s"
proof (cases "r = 0")
  case True
  then show ?thesis using assms(1) by (simp add: rval_nonneg)
next
  case False
  have "\<bar>rval F r\<bar> = rval F \<bar>r\<bar>"
    using rval_nonneg [of r F] rval_nonneg [of "- r" F] by (cases "0 \<le> r") (simp_all add: rval_minus)
  also have "\<dots> \<le> rval F s" using False assms by (intro rval_mono) auto
  finally show ?thesis .
qed

lemma rnd_abs_le:
  assumes "\<bar>r\<bar> \<le> s" and "rval F s \<le> c" and "c < pow2 (emax F + 1)" and "0 < prec F"
  shows "is_fin (rnd F r) \<and> \<bar>cval (rnd F r)\<bar> \<le> c"
proof -
  have "\<bar>rval F r\<bar> \<le> c" using rval_abs_le [OF assms(1,4)] assms(2) by linarith
  with cval_rnd [of F r] assms(3) show ?thesis by simp
qed

lemma mul_abs_le:
  assumes "is_fin x" and "is_fin y" and "\<bar>cval x * cval y\<bar> \<le> s" and "rval F s \<le> c" and "c < pow2 (emax F + 1)" and "0 < prec F"
  shows "is_fin (fmul F x y) \<and> \<bar>cval (fmul F x y)\<bar> \<le> c"
proof -
  have "0 \<le> s" using assms(3) by linarith
  then have "0 \<le> c" using assms(4) rval_nonneg [of s F] by linarith
  then show ?thesis using mul_cases [OF assms(1,2), of F] rnd_abs_le [OF assms(3-6)] by auto
qed

lemma rval_near:
  assumes "wide F" and "\<bar>r\<bar> \<le> 4"
  shows "\<bar>rval F r - r\<bar> \<le> 1 / 2 ^ 22"
proof (cases "r = 0")
  case False
  have "\<bar>r\<bar> < pow2 3" using assms(2) pow2_of_nat [of 3] by simp
  then have "ilog2 \<bar>r\<bar> < 3" using False by (intro ilog2_less) auto
  then have "quantum F r \<le> - 21" using assms(1) by (auto simp: quantum_def wide_def)
  then have "pow2 (quantum F r) \<le> pow2 (- 21)" by (rule pow2_mono)
  then show ?thesis using rval_err_quantum [OF False, of F] by (simp add: pow2_def)
qed simp

lemma rnd_near:
  assumes "wide F" and "\<bar>r\<bar> \<le> 4"
  shows "is_fin (rnd F r) \<and> \<bar>cval (rnd F r) - r\<bar> \<le> 1 / 2 ^ 22"
proof -
  have "\<bar>rval F r\<bar> < 8" using rval_near [OF assms] assms(2) by (simp add: abs_if split: if_splits)
  then have "\<bar>rval F r\<bar> < pow2 3" using pow2_of_nat [of 3] by simp
  also have "\<dots> \<le> pow2 (emax F + 1)" using assms(1) by (intro pow2_mono) (simp add: wide_def)
  finally show ?thesis using cval_rnd [of F r] rval_near [OF assms] by simp
qed

lemma add_near:
  assumes "wide F" and "is_fin x" and "is_fin y" and "\<bar>cval x + cval y\<bar> \<le> 4"
  shows "is_fin (fadd F x y) \<and> \<bar>cval (fadd F x y) - (cval x + cval y)\<bar> \<le> 1 / 2 ^ 22"
  using add_cases [OF assms(2,3), of F] rnd_near [OF assms(1,4)] by auto

lemma sub_near:
  assumes "wide F" and "is_fin x" and "is_fin y" and "\<bar>cval x - cval y\<bar> \<le> 4"
  shows "is_fin (fsub F x y) \<and> \<bar>cval (fsub F x y) - (cval x - cval y)\<bar> \<le> 1 / 2 ^ 22"
  using add_near [of F x "fneg y"] assms by (simp add: fsub_def)

lemma mul_near:
  assumes "wide F" and "is_fin x" and "is_fin y" and "\<bar>cval x * cval y\<bar> \<le> 4"
  shows "is_fin (fmul F x y) \<and> \<bar>cval (fmul F x y) - cval x * cval y\<bar> \<le> 1 / 2 ^ 22"
  using mul_cases [OF assms(2,3), of F] rnd_near [OF assms(1,4)] by auto

text \<open>One and half a unit more is still rounded to one.\<close>

lemma rval_b32_one: "rval b32 (1 + 1 / 2 ^ 24) = 1"
proof -
  let ?r = "1 + 1 / 2 ^ 24 :: rat"
  have "ilog2 ?r < 1" using pow2_of_nat [of 1] by (intro ilog2_less) simp_all
  moreover have "ilog2 1 \<le> ilog2 ?r" by (intro ilog2_mono) simp_all
  moreover have "pow2 0 < pow2 (ilog2 1 + 1)" using ilog2_bounds(2) [of 1] pow2_of_nat [of 0] by (simp del: pow2_less_iff)
  then have "0 \<le> ilog2 1" by simp
  ultimately have q: "quantum b32 ?r = - 23" by (simp add: quantum_def)
  have "round_even (?r / pow2 (- 23)) = 2 ^ 23" by (rule round_even_unique) (simp add: pow2_def)
  then have "rval b32 ?r = of_int (2 ^ 23) * pow2 (- 23)" unfolding rval_def q by simp
  then show ?thesis by (simp add: pow2_def)
qed

text \<open>Evaluating a rounding: the exponent and the significand are given and checked.\<close>

lemma rnd_eval:
  assumes r: "pow2 (q + int (prec F) - 1) \<le> r" "r < pow2 (q + int (prec F))" and q: "qmin F \<le> q" "q + int (prec F) \<le> emax F"
    and p: "0 < prec F"
    and n: "\<bar>r - of_int n * pow2 q\<bar> < pow2 q / 2 \<or> \<bar>r - of_int n * pow2 q\<bar> = pow2 q / 2 \<and> even n"
  shows "rnd F r = Fin (of_int n * pow2 q)"
proof -
  have r0: "0 < r" using r(1) pow2_pos [of "q + int (prec F) - 1"] by linarith
  have "ilog2 r < q + int (prec F)" using r0 r(2) by (rule ilog2_less)
  moreover have "pow2 (q + int (prec F) - 1) < pow2 (ilog2 r + 1)" using r(1) ilog2_bounds(2) [OF r0] by linarith
  then have "q + int (prec F) - 1 \<le> ilog2 r" by simp
  ultimately have qq: "quantum F r = q" using r0 q(1) by (simp add: quantum_def)
  have "\<bar>r / pow2 q - of_int n\<bar> = \<bar>r - of_int n * pow2 q\<bar> / pow2 q"
    using abs_divide [of "r - of_int n * pow2 q" "pow2 q"] by (simp add: diff_divide_distrib)
  then have "\<bar>r / pow2 q - of_int n\<bar> < 1 / 2 \<or> \<bar>r / pow2 q - of_int n\<bar> = 1 / 2 \<and> even n"
    using n pow2_pos [of q] by (auto simp: field_simps)
  then have "round_even (r / pow2 q) = n" by (rule round_even_unique)
  then have v: "rval F r = of_int n * pow2 q" using r0 by (simp add: rval_def qq)
  have "\<bar>rval F r\<bar> \<le> rval F (pow2 (q + int (prec F)))" using r r0 p by (intro rval_abs_le) simp_all
  also have "\<dots> = pow2 (q + int (prec F))" using rval_grid [of 1 F "q + int (prec F)"] q p by simp
  also have "\<dots> < pow2 (emax F + 1)" using q by simp
  finally show ?thesis using rnd_rval [of F r] r0 v by simp
qed

lemma rnd_b32_eval:
  assumes "pow2 (q + 23) \<le> r" "r < pow2 (q + 24)" "- 149 \<le> q" "q \<le> 100"
    and "\<bar>r - of_int n * pow2 q\<bar> < pow2 q / 2 \<or> \<bar>r - of_int n * pow2 q\<bar> = pow2 q / 2 \<and> even n"
  shows "rnd b32 r = Fin (of_int n * pow2 q)"
  using assms by (intro rnd_eval) (simp_all add: add.commute)

lemma rnd_b64_eval:
  assumes "pow2 (q + 52) \<le> r" "r < pow2 (q + 53)" "- 1074 \<le> q" "q \<le> 900"
    and "\<bar>r - of_int n * pow2 q\<bar> < pow2 q / 2 \<or> \<bar>r - of_int n * pow2 q\<bar> = pow2 q / 2 \<and> even n"
  shows "rnd b64 r = Fin (of_int n * pow2 q)"
  using assms by (intro rnd_eval) (simp_all add: add.commute)

lemma rnd_minus:
  assumes "rnd F r = Fin v" and "v \<noteq> 0"
  shows "rnd F (- r) = Fin (- v)"
proof -
  have r: "r \<noteq> 0" using assms by (auto simp: rnd_def)
  have c: "\<bar>rval F r\<bar> < pow2 (emax F + 1)" using assms(1) rnd_if [OF r, of F] by (auto split: if_splits)
  then show ?thesis using assms rnd_rval [OF c] rnd_rval [of F "- r"] by (auto simp: rval_minus split: if_splits)
qed

text \<open>Integers that fit into the significand are not rounded.\<close>

lemma rnd_b64_int:
  "(numeral n :: int) < 2 ^ 53 \<Longrightarrow> rnd b64 (numeral n) = Fin (numeral n)"
  "(numeral n :: int) < 2 ^ 53 \<Longrightarrow> rnd b64 (- numeral n) = Fin (- numeral n)"
  "rnd b64 1 = Fin 1" "rnd b64 (- 1) = Fin (- 1)"
  using rnd_of_int_exact [of "numeral n" b64] rnd_of_int_exact [of "- numeral n" b64]
    rnd_of_int_exact [of 1 b64] rnd_of_int_exact [of "-1" b64] by simp_all

lemma rnd_b32_int:
  "(numeral n :: int) < 2 ^ 24 \<Longrightarrow> rnd b32 (numeral n) = Fin (numeral n)"
  "(numeral n :: int) < 2 ^ 24 \<Longrightarrow> rnd b32 (- numeral n) = Fin (- numeral n)"
  "rnd b32 1 = Fin 1" "rnd b32 (- 1) = Fin (- 1)"
  using rnd_of_int_exact [of "numeral n" b32] rnd_of_int_exact [of "- numeral n" b32]
    rnd_of_int_exact [of 1 b32] rnd_of_int_exact [of "-1" b32] by simp_all

lemmas rnd_ints = rnd_b64_int rnd_b32_int

lemma trunc_abs: "\<bar>r\<bar> \<le> of_int n \<Longrightarrow> \<bar>rat_trunc r\<bar> \<le> n"
  by (auto simp: rat_trunc_def abs_le_iff le_floor_iff floor_le_iff) linarith+

lemma fsub_self: "is_fin x \<Longrightarrow> fsub F x x = Fin 0"
  by (cases x) (auto simp: fsub_def rnd_def)

end
