(* ===== verification/Axis.thy ===== *)
theory Axis
  imports PrefGlobal FltRound
begin

text \<open>
  \<open>src/axis.c\<close> and \<open>src/spline.c\<close>: the six axes of a profile, the curve an input goes through (a
  quadratic Bezier curve with a dead zone, scaled by the sensitivity and the limits), the filter, the
  setters that write every change through to the preferences, and loading a profile, with the missing entries copied
  from the profile \<open>Default\<close>. All arithmetic is in \<open>float\<close> (format \<open>b32\<close>) but for the comparisons with \<open>double\<close>
  constants. Every function holds the mutex throughout, so it is one step. \<open>u\<close> is the content of
  a variable without an initial value, \<open>raw\<close> that of memory from \<open>malloc\<close>.
\<close>

datatype axis_t = PITCH | ROLL | YAW | TX | TY | TZ | MISC

datatype axis_param_t = AXIS_ENABLED | AXIS_DEADZONE | AXIS_LCURV | AXIS_RCURV | AXIS_MULT | AXIS_LLIMIT | AXIS_RLIMIT
  | AXIS_FILTER | AXIS_INVERTED | AXIS_FULL | MISC_LEGR | MISC_ALTER | MISC_ALIGN | MISC_FOCAL_LENGTH | AXIS_DEFAULT

datatype axis_fields = DEADZONE | INVERTED | LCURV | RCURV | MULT | LMULT | RMULT | LIMITS | LLIMIT | RLIMIT | FILTER | ENABLED

record splines_def =
  dead_zone :: cflt
  l_curvature :: cflt
  r_curvature :: cflt

record spline_pts =
  sp_x0 :: cflt
  sp_y0 :: cflt
  sp_x1 :: cflt
  sp_y1 :: cflt
  sp_x2 :: cflt
  sp_y2 :: cflt

record splines =
  spl_left :: spline_pts
  spl_right :: spline_pts

record axis_def =
  enabled :: bool
  inverted :: bool
  curve_defs :: splines_def
  curves :: splines
  valid :: bool
  factor :: cflt
  l_limit :: cflt
  r_limit :: cflt
  filter_factor :: cflt
  prefix :: string

record ltr_axes =
  pitch_axis :: axis_def
  yaw_axis :: axis_def
  roll_axis :: axis_def
  tx_axis :: axis_def
  ty_axis :: axis_def
  tz_axis :: axis_def
  axes_initialized :: bool
  axes_changed_flag :: bool
  axes_section :: string

definition def_section :: "(string \<times> string) list" where
  "def_section =
    [(''Title'', ''Default''), (''Pitch-enabled'', ''Yes''),
     (''Pitch-inverted'', ''No''), (''Pitch-deadzone'', ''0.0''),
     (''Pitch-left-curvature'', ''0.5''), (''Pitch-right-curvature'', ''0.5''),
     (''Pitch-sensitivity'', ''5.000000''), (''Pitch-left-limit'', ''80.000000''),
     (''Pitch-right-limit'', ''80.000000''), (''Pitch-filter'', ''0.3''),
     (''Yaw-enabled'', ''Yes''), (''Yaw-inverted'', ''No''),
     (''Yaw-deadzone'', ''0.0''), (''Yaw-left-curvature'', ''0.5''),
     (''Yaw-right-curvature'', ''0.5''), (''Yaw-sensitivity'', ''5.000000''),
     (''Yaw-left-limit'', ''130.000000''), (''Yaw-right-limit'', ''130.000000''),
     (''Yaw-filter'', ''0.3''), (''Roll-enabled'', ''Yes''),
     (''Roll-inverted'', ''No''), (''Roll-deadzone'', ''0.0''),
     (''Roll-left-curvature'', ''0.5''), (''Roll-right-curvature'', ''0.5''),
     (''Roll-sensitivity'', ''1.500000''), (''Roll-left-limit'', ''45.000000''),
     (''Roll-right-limit'', ''45.000000''), (''Roll-filter'', ''0.3''),
     (''Xtranslation-enabled'', ''Yes''), (''Xtranslation-inverted'', ''No''),
     (''Xtranslation-deadzone'', ''0.0''), (''Xtranslation-left-curvature'', ''0.5''),
     (''Xtranslation-right-curvature'', ''0.5''), (''Xtranslation-sensitivity'', ''5.000000''),
     (''Xtranslation-left-limit'', ''300.000000''), (''Xtranslation-right-limit'', ''300.000000''),
     (''Xtranslation-filter'', ''0.3''), (''Ytranslation-enabled'', ''Yes''),
     (''Ytranslation-inverted'', ''No''), (''Ytranslation-deadzone'', ''0.0''),
     (''Ytranslation-left-curvature'', ''0.5''), (''Ytranslation-right-curvature'', ''0.5''),
     (''Ytranslation-sensitivity'', ''5.000000''), (''Ytranslation-left-limit'', ''300.000000''),
     (''Ytranslation-right-limit'', ''300.000000''), (''Ytranslation-filter'', ''0.3''),
     (''Ztranslation-enabled'', ''Yes''), (''Ztranslation-inverted'', ''No''),
     (''Ztranslation-deadzone'', ''0.0''), (''Ztranslation-left-curvature'', ''0.5''),
     (''Ztranslation-right-curvature'', ''0.5''), (''Ztranslation-sensitivity'', ''2.000000''),
     (''Ztranslation-left-limit'', ''300.000000''), (''Ztranslation-right-limit'', ''1.000000''),
     (''Ztranslation-filter'', ''0.7'')]"

fun field_text :: "axis_fields \<Rightarrow> string" where
  "field_text DEADZONE = ''-deadzone''"
| "field_text INVERTED = ''-inverted''"
| "field_text LCURV = ''-left-curvature''"
| "field_text RCURV = ''-right-curvature''"
| "field_text MULT = ''-sensitivity''"
| "field_text LMULT = ''-left-multiplier''"
| "field_text RMULT = ''-right-multiplier''"
| "field_text LIMITS = ''-limits''"
| "field_text LLIMIT = ''-left-limit''"
| "field_text RLIMIT = ''-right-limit''"
| "field_text FILTER = ''-filter''"
| "field_text ENABLED = ''-enabled''"

definition all_fields :: "axis_fields list" where
  "all_fields = [DEADZONE, INVERTED, LCURV, RCURV, MULT, LMULT, RMULT, LIMITS, LLIMIT, RLIMIT, FILTER, ENABLED]"

subsection \<open>Descriptions\<close>

fun axis_num :: "axis_t \<Rightarrow> nat" where
  "axis_num PITCH = 0" | "axis_num ROLL = 1" | "axis_num YAW = 2" | "axis_num TX = 3" | "axis_num TY = 4"
| "axis_num TZ = 5" | "axis_num MISC = 6"

fun param_num :: "axis_param_t \<Rightarrow> nat" where
  "param_num AXIS_ENABLED = 0" | "param_num AXIS_DEADZONE = 1" | "param_num AXIS_LCURV = 2" | "param_num AXIS_RCURV = 3"
| "param_num AXIS_MULT = 4" | "param_num AXIS_LLIMIT = 5" | "param_num AXIS_RLIMIT = 6" | "param_num AXIS_FILTER = 7"
| "param_num AXIS_INVERTED = 8" | "param_num AXIS_FULL = 9" | "param_num MISC_LEGR = 10" | "param_num MISC_ALTER = 11"
| "param_num MISC_ALIGN = 12" | "param_num MISC_FOCAL_LENGTH = 13" | "param_num AXIS_DEFAULT = 1024"

definition axes_desc :: "string list" where
  "axes_desc = [''PITCH'', ''ROLL'', ''YAW'', ''TX'', ''TY'', ''TZ'']"

definition axis_param_desc :: "string list" where
  "axis_param_desc = [''Deadzone'', ''Inverted'', ''Left Curvature'', ''Right Curvature'', ''Sensitivity'', ''Left Sensitivity'',
     ''Right Sensitivity'', ''Limit'', ''Left Limit'', ''Right Limit'', ''Filter Factor'', ''Enabled'', ''FULL'']"

definition ltr_int_axis_get_desc :: "axis_t \<Rightarrow> string option" where
  "ltr_int_axis_get_desc i = rd axes_desc (axis_num i)"

definition ltr_int_axis_param_get_desc :: "axis_param_t \<Rightarrow> string option" where
  "ltr_int_axis_param_get_desc i = rd axis_param_desc (param_num i)"

fun get_axis :: "ltr_axes \<Rightarrow> axis_t \<Rightarrow> axis_def option" where
  "get_axis axes PITCH = Some (pitch_axis axes)"
| "get_axis axes ROLL = Some (roll_axis axes)"
| "get_axis axes YAW = Some (yaw_axis axes)"
| "get_axis axes TX = Some (tx_axis axes)"
| "get_axis axes TY = Some (ty_axis axes)"
| "get_axis axes TZ = Some (tz_axis axes)"
| "get_axis axes MISC = None"

text \<open>Writing through the pointer \<open>get_axis\<close> returns.\<close>

fun put_axis :: "axis_t \<Rightarrow> axis_def \<Rightarrow> ltr_axes \<Rightarrow> ltr_axes" where
  "put_axis PITCH a axes = axes\<lparr>pitch_axis := a\<rparr>"
| "put_axis ROLL a axes = axes\<lparr>roll_axis := a\<rparr>"
| "put_axis YAW a axes = axes\<lparr>yaw_axis := a\<rparr>"
| "put_axis TX a axes = axes\<lparr>tx_axis := a\<rparr>"
| "put_axis TY a axes = axes\<lparr>ty_axis := a\<rparr>"
| "put_axis TZ a axes = axes\<lparr>tz_axis := a\<rparr>"
| "put_axis MISC a axes = axes"

fun get_axis_prefix :: "axis_t \<Rightarrow> string option" where
  "get_axis_prefix PITCH = Some ''Pitch''"
| "get_axis_prefix ROLL = Some ''Roll''"
| "get_axis_prefix YAW = Some ''Yaw''"
| "get_axis_prefix TX = Some ''Xtranslation''"
| "get_axis_prefix TY = Some ''Ytranslation''"
| "get_axis_prefix TZ = Some ''Ztranslation''"
| "get_axis_prefix MISC = None"

subsection \<open>The curve\<close>

abbreviation s_add :: "cflt \<Rightarrow> cflt \<Rightarrow> cflt" where "s_add \<equiv> fadd b32"
abbreviation s_sub :: "cflt \<Rightarrow> cflt \<Rightarrow> cflt" where "s_sub \<equiv> fsub b32"
abbreviation s_mul :: "cflt \<Rightarrow> cflt \<Rightarrow> cflt" where "s_mul \<equiv> fmul b32"
abbreviation s_div :: "cflt \<Rightarrow> cflt \<Rightarrow> cflt" where "s_div \<equiv> fdiv b32"

definition ltr_int_curve2pts :: "splines_def \<Rightarrow> splines" where
  "ltr_int_curve2pts curve =
     (let mid = (\<lambda>curvature. s_add (dead_zone curve) (s_mul (s_sub (Fin 1) (dead_zone curve)) (s_sub (Fin 1) curvature)));
          side = (\<lambda>curvature. \<lparr>sp_x0 = dead_zone curve, sp_y0 = Fin 0, sp_x1 = mid curvature, sp_y1 = curvature,
                    sp_x2 = Fin 1, sp_y2 = Fin 1\<rparr>)
      in \<lparr>spl_left = side (l_curvature curve), spl_right = side (r_curvature curve)\<rparr>)"

definition side_point :: "spline_pts \<Rightarrow> cflt \<Rightarrow> cflt \<Rightarrow> cflt" where
  "side_point pts fac x =
     (let a = sp_x0 pts in
      if flt_less x a then Fin 0
      else let b = sp_x1 pts; c = sp_x2 pts; tmp = s_add (s_sub c (s_mul (Fin 2) b)) a
           in if flt_less (fabs tmp) (rnd b64 (1 / 1000))
              then s_mul (s_mul fac (s_sub x a)) (s_div (s_sub (sp_y2 pts) (sp_y0 pts)) (s_sub c a))
              else let t = s_div (s_add (s_sub (fsqrt b32 (s_add (s_sub (s_mul tmp x) (s_mul a c)) (s_mul b b))) b) a) tmp;
                       b02 = s_mul (s_sub (Fin 1) t) (s_sub (Fin 1) t);
                       b12 = s_mul (s_mul (Fin 2) t) (s_sub (Fin 1) t);
                       b22 = s_mul t t
                   in s_mul fac (s_add (s_add (s_mul b02 (sp_y0 pts)) (s_mul b12 (sp_y1 pts))) (s_mul b22 (sp_y2 pts))))"

definition ltr_int_spline_point :: "splines \<Rightarrow> cflt \<Rightarrow> cflt" where
  "ltr_int_spline_point splns x =
     (if flt_less x (Fin 0) then side_point (spl_left splns) (Fin (- 1)) (s_mul x (Fin (- 1)))
      else side_point (spl_right splns) (Fin 1) x)"

definition clamp1 :: "cflt \<Rightarrow> cflt" where
  "clamp1 x = (let x = (if flt_less x (Fin (- 1)) then Fin (- 1) else x) in if flt_less (Fin 1) x then Fin 1 else x)"

text \<open>The value of one axis, and the axis with its curve up to date.\<close>

definition axis_value :: "axis_def \<Rightarrow> cflt \<Rightarrow> cflt \<times> axis_def" where
  "axis_value axis x =
     (if \<not> enabled axis then (Fin 0, axis)
      else let x = (if inverted axis then fneg x else x);
               axis = (if \<not> valid axis then axis\<lparr>curves := ltr_int_curve2pts (curve_defs axis)\<rparr> else axis);
               mf = factor axis;
               lim = (if flt_less x (Fin 0) then l_limit axis else r_limit axis)
           in if flt_less lim (rnd b64 (1 / 100000)) then (Fin 0, axis)
              else (s_mul (ltr_int_spline_point (curves axis) (clamp1 (s_div (s_mul x mf) lim))) lim, axis))"

definition ltr_int_val_on_axis :: "axis_t \<Rightarrow> cflt \<Rightarrow> ltr_axes \<Rightarrow> (cflt \<times> ltr_axes) option" where
  "ltr_int_val_on_axis i x axes =
     do { axis \<leftarrow> get_axis axes i; Some (case axis_value axis x of (v, axis) \<Rightarrow> (v, put_axis i axis axes)) }"

text \<open>The filter; \<open>y_minus_1\<close> is the value it gave last, which it replaces. The result is the new value and the new
  \<open>y_minus_1\<close>.\<close>

definition ltr_int_filter_axis :: "ltr_axes \<Rightarrow> axis_t \<Rightarrow> cflt \<Rightarrow> cflt \<Rightarrow> (cflt \<times> cflt) option" where
  "ltr_int_filter_axis axes i x y_minus_1 =
     do { axis \<leftarrow> get_axis axes i;
          Some (if \<not> enabled axis then (Fin 0, y_minus_1)
                else let trans_koef = (if i = TZ then Fin 10 else Fin 1);
                         ff = s_mul (s_mul trans_koef (filter_factor axis))
                                (if flt_less (r_limit axis) (l_limit axis) then l_limit axis else r_limit axis);
                         y = ltr_int_nonlinfilt x y_minus_1 ff
                     in (y, y)) }"

subsection \<open>Setters and getters\<close>

definition signal_change :: "ltr_axes \<Rightarrow> ltr_axes" where
  "signal_change axes = axes\<lparr>axes_changed_flag := True\<rparr>"

definition save_val_flt :: "ltr_axes \<Rightarrow> axis_t \<Rightarrow> axis_fields \<Rightarrow> cflt \<Rightarrow> prefs \<Rightarrow> (bool \<times> prefs) option" where
  "save_val_flt axes i field val p =
     do { pre \<leftarrow> get_axis_prefix i; Some (ltr_int_change_key_flt (axes_section axes) (pre @ field_text field) val p) }"

definition save_val_str :: "ltr_axes \<Rightarrow> axis_t \<Rightarrow> axis_fields \<Rightarrow> string \<Rightarrow> prefs \<Rightarrow> (bool \<times> prefs) option" where
  "save_val_str axes i field val p =
     do { pre \<leftarrow> get_axis_prefix i; Some (ltr_int_change_key (axes_section axes) (pre @ field_text field) val p) }"

definition ltr_int_is_symetrical :: "ltr_axes \<Rightarrow> axis_t \<Rightarrow> bool option" where
  "ltr_int_is_symetrical axes i =
     do { axis \<leftarrow> get_axis axes i;
          Some (flt_less (fabs (s_sub (l_curvature (curve_defs axis)) (r_curvature (curve_defs axis)))) (rnd b64 (1 / 100000)) \<and>
                flt_less (fabs (s_sub (l_limit axis) (r_limit axis))) (rnd b64 (1 / 100000))) }"

text \<open>What each parameter sets, and the entry it is saved under.\<close>

fun set_param :: "axis_param_t \<Rightarrow> cflt \<Rightarrow> axis_def \<Rightarrow> (axis_def \<times> axis_fields) option" where
  "set_param AXIS_DEADZONE val axis = Some (axis\<lparr>curve_defs := (curve_defs axis)\<lparr>dead_zone := val\<rparr>\<rparr>, DEADZONE)"
| "set_param AXIS_LCURV val axis = Some (axis\<lparr>curve_defs := (curve_defs axis)\<lparr>l_curvature := val\<rparr>\<rparr>, LCURV)"
| "set_param AXIS_RCURV val axis = Some (axis\<lparr>curve_defs := (curve_defs axis)\<lparr>r_curvature := val\<rparr>\<rparr>, RCURV)"
| "set_param AXIS_MULT val axis = Some (axis\<lparr>factor := val\<rparr>, MULT)"
| "set_param AXIS_LLIMIT val axis = Some (axis\<lparr>l_limit := val\<rparr>, LLIMIT)"
| "set_param AXIS_RLIMIT val axis = Some (axis\<lparr>r_limit := val\<rparr>, RLIMIT)"
| "set_param AXIS_FILTER val axis = Some (axis\<lparr>filter_factor := val\<rparr>, FILTER)"
| "set_param _ val axis = None"

definition ltr_int_set_axis_param ::
  "axis_t \<Rightarrow> axis_param_t \<Rightarrow> cflt \<Rightarrow> ltr_axes \<Rightarrow> prefs \<Rightarrow> (bool \<times> ltr_axes \<times> prefs) option" where
  "ltr_int_set_axis_param i param val axes p =
     do { axis \<leftarrow> get_axis axes i;
          let axis = axis\<lparr>valid := False\<rparr>;
          case set_param param val axis of
            None \<Rightarrow> Some (False, put_axis i axis axes, p)
          | Some (axis, field) \<Rightarrow>
              do { (_, p) \<leftarrow> save_val_flt axes i field val p;
                   Some (True, signal_change (put_axis i axis axes), p) } }"

fun param_of :: "axis_param_t \<Rightarrow> axis_def \<Rightarrow> cflt" where
  "param_of AXIS_DEADZONE axis = dead_zone (curve_defs axis)"
| "param_of AXIS_LCURV axis = l_curvature (curve_defs axis)"
| "param_of AXIS_RCURV axis = r_curvature (curve_defs axis)"
| "param_of AXIS_MULT axis = factor axis"
| "param_of AXIS_LLIMIT axis = l_limit axis"
| "param_of AXIS_RLIMIT axis = r_limit axis"
| "param_of AXIS_FILTER axis = filter_factor axis"
| "param_of _ axis = Fin 0"

definition ltr_int_get_axis_param :: "ltr_axes \<Rightarrow> axis_t \<Rightarrow> axis_param_t \<Rightarrow> cflt option" where
  "ltr_int_get_axis_param axes i param = map_option (param_of param) (get_axis axes i)"

definition ltr_int_set_axis_bool_param ::
  "axis_t \<Rightarrow> axis_param_t \<Rightarrow> bool \<Rightarrow> ltr_axes \<Rightarrow> prefs \<Rightarrow> (bool \<times> ltr_axes \<times> prefs) option" where
  "ltr_int_set_axis_bool_param i param val axes p =
     do { axis \<leftarrow> get_axis axes i;
          (case param of
             AXIS_ENABLED \<Rightarrow>
               do { (_, p) \<leftarrow> save_val_str axes i ENABLED (if val then ''Yes'' else ''No'') p;
                    Some (True, signal_change (put_axis i (axis\<lparr>enabled := val\<rparr>) axes), p) }
           | AXIS_INVERTED \<Rightarrow>
               do { (_, p) \<leftarrow> save_val_str axes i INVERTED (if val then ''Yes'' else ''No'') p;
                    Some (True, signal_change (put_axis i (axis\<lparr>inverted := val\<rparr>) axes), p) }
           | _ \<Rightarrow> Some (False, axes, p)) }"

definition ltr_int_get_axis_bool_param :: "ltr_axes \<Rightarrow> axis_t \<Rightarrow> axis_param_t \<Rightarrow> bool option" where
  "ltr_int_get_axis_bool_param axes i param =
     map_option (\<lambda>axis. case param of AXIS_ENABLED \<Rightarrow> enabled axis | AXIS_INVERTED \<Rightarrow> inverted axis | _ \<Rightarrow> False)
       (get_axis axes i)"

definition ltr_int_axes_changed :: "bool \<Rightarrow> ltr_axes \<Rightarrow> bool \<times> ltr_axes" where
  "ltr_int_axes_changed reset_flag axes =
     (axes_changed_flag axes, if reset_flag then axes\<lparr>axes_changed_flag := False\<rparr> else axes)"

subsection \<open>Loading a profile\<close>

text \<open>An entry of the section or else of the profile \<open>Default\<close>, which is then copied into the section.\<close>

definition ltr_int_axis_get_key_flt :: "string \<Rightarrow> string \<Rightarrow> cflt \<Rightarrow> prefs \<Rightarrow> bool \<times> cflt \<times> prefs" where
  "ltr_int_axis_get_key_flt sec key res p =
     (case ltr_int_get_key_flt p sec key res of
        (True, res) \<Rightarrow> (True, res, p)
      | (False, res) \<Rightarrow> (case ltr_int_get_key_flt p ''Default'' key res of
          (True, res) \<Rightarrow> (True, res, snd (ltr_int_change_key_flt sec key res p))
        | (False, res) \<Rightarrow> (False, res, p)))"

definition ltr_int_axis_get_key :: "string \<Rightarrow> string \<Rightarrow> prefs \<Rightarrow> string option \<times> prefs" where
  "ltr_int_axis_get_key sec key p =
     (case ltr_int_get_key p sec key of
        Some res \<Rightarrow> (Some res, p)
      | None \<Rightarrow> (case ltr_int_get_key p ''Default'' key of
          Some res \<Rightarrow> (Some res, snd (ltr_int_change_key sec key res p))
        | None \<Rightarrow> (None, p)))"

definition ltr_int_init_axis :: "string \<Rightarrow> string \<Rightarrow> axis_def \<Rightarrow> prefs \<Rightarrow> axis_def \<times> prefs" where
  "ltr_int_init_axis sname pre axis p =
     (case ltr_int_axis_get_key_flt sname ''Filter-factor'' (rnd b32 (1 / 5)) p of (_, ff, p) \<Rightarrow>
        (axis\<lparr>valid := False, enabled := True, inverted := False, prefix := pre, factor := Fin 1, r_limit := Fin 50,
              l_limit := Fin 50, filter_factor := (if flt_less (Fin 4) ff then Fin 4 else ff),
              curve_defs := \<lparr>dead_zone = Fin 0, l_curvature = Fin (1 / 2), r_curvature = Fin (1 / 2)\<rparr>\<rparr>, p))"

fun set_axis_field :: "axis_fields \<Rightarrow> cflt \<Rightarrow> axis_t \<Rightarrow> axis_def \<Rightarrow> axis_def option" where
  "set_axis_field DEADZONE val i axis = Some (axis\<lparr>valid := False, curve_defs := (curve_defs axis)\<lparr>dead_zone := val\<rparr>\<rparr>)"
| "set_axis_field LCURV val i axis = Some (axis\<lparr>valid := False, curve_defs := (curve_defs axis)\<lparr>l_curvature := val\<rparr>\<rparr>)"
| "set_axis_field RCURV val i axis = Some (axis\<lparr>valid := False, curve_defs := (curve_defs axis)\<lparr>r_curvature := val\<rparr>\<rparr>)"
| "set_axis_field MULT val i axis = Some (axis\<lparr>valid := False, factor := val\<rparr>)"
| "set_axis_field LMULT val i axis = Some (axis\<lparr>valid := False, factor := s_add (factor axis) (s_div val (Fin 2))\<rparr>)"
| "set_axis_field RMULT val i axis = Some (axis\<lparr>valid := False, factor := s_add (factor axis) (s_div val (Fin 2))\<rparr>)"
| "set_axis_field LLIMIT val i axis = Some (axis\<lparr>valid := False, l_limit := val\<rparr>)"
| "set_axis_field RLIMIT val i axis = Some (axis\<lparr>valid := False, r_limit := val\<rparr>)"
| "set_axis_field LIMITS val i axis =
     (let l = (if i \<in> {PITCH, ROLL, YAW} then Fin 90 else Fin 300)
      in Some (axis\<lparr>valid := False, l_limit := l, r_limit := l\<rparr>))"
| "set_axis_field FILTER val i axis = Some (axis\<lparr>valid := False, filter_factor := (if flt_less (Fin 2) val then Fin 2 else val)\<rparr>)"
| "set_axis_field _ val i axis = None"

text \<open>One entry of an axis; \<open>val\<close> is the local variable all the numbers are read into.\<close>

definition load_field ::
  "string \<Rightarrow> axis_t \<Rightarrow> string \<Rightarrow> axis_def \<times> cflt \<times> prefs \<Rightarrow> axis_fields \<Rightarrow> (axis_def \<times> cflt \<times> prefs) option" where
  "load_field sname i pre s field = (case s of (axis, val, p) \<Rightarrow>
     let key = pre @ field_text field in
     if field \<noteq> ENABLED \<and> field \<noteq> INVERTED
     then (case ltr_int_axis_get_key_flt sname key val p of (ok, val, p) \<Rightarrow>
             if ok then do { axis \<leftarrow> set_axis_field field val i axis; Some (axis, val, p) } else Some (axis, val, p))
     else (case ltr_int_axis_get_key sname key p of (str, p) \<Rightarrow>
             if field = ENABLED
             then Some ((case str of Some t \<Rightarrow> if strcaseeq t ''No'' then axis\<lparr>enabled := False\<rparr> else axis | None \<Rightarrow> axis), val, p)
             else Some ((case str of Some t \<Rightarrow> if strcaseeq t ''Yes'' then axis\<lparr>inverted := True\<rparr> else axis | None \<Rightarrow> axis), val, p)))"

definition ltr_int_get_axis :: "string \<Rightarrow> axis_t \<Rightarrow> cflt \<Rightarrow> axis_def \<Rightarrow> prefs \<Rightarrow> (axis_def \<times> prefs) option" where
  "ltr_int_get_axis sname i u axis p =
     do { pre \<leftarrow> get_axis_prefix i;
          let (axis, p) = ltr_int_init_axis sname pre axis p;
          (axis, val, p) \<leftarrow> foldM (load_field sname i pre) (axis, u, p) all_fields;
          Some (axis, p) }"

definition ltr_int_create_default :: "prefs \<Rightarrow> prefs" where
  "ltr_int_create_default p = fold (\<lambda>(k, v) p. snd (ltr_int_change_key ''Default'' k v p)) def_section p"

definition ltr_int_prepare_section :: "string \<Rightarrow> prefs \<Rightarrow> string option \<times> prefs" where
  "ltr_int_prepare_section profile p =
     (let p = (if ltr_int_find_section p ''Title'' ''Default'' = None then ltr_int_create_default p else p)
      in case ltr_int_find_section p ''Title'' profile of
           Some sname \<Rightarrow> (Some sname, p)
         | None \<Rightarrow> (case ltr_int_add_unique_section ''Profile'' p of
             (None, p) \<Rightarrow> (None, p)
           | (Some sname, p) \<Rightarrow> (Some sname, snd (ltr_int_change_key sname ''Title'' profile p))))"

text \<open>Closing frees the strings and the structure; initialised axes are closed before they are made anew, with the new structure
  in memory with the content \<open>raw\<close>. Without a section nothing of it is set, and there is no result.\<close>

definition ltr_int_close_axes :: "ltr_axes option \<Rightarrow> ltr_axes option" where
  "ltr_int_close_axes axes = (case axes of None \<Rightarrow> None | Some a \<Rightarrow> if \<not> axes_initialized a then Some a else None)"

definition ltr_int_init_axes :: "string \<Rightarrow> cflt \<Rightarrow> ltr_axes \<Rightarrow> prefs \<Rightarrow> (ltr_axes \<times> prefs) option" where
  "ltr_int_init_axes profile u raw p =
     (case ltr_int_prepare_section profile p of
        (None, p) \<Rightarrow> None
      | (Some sname, p) \<Rightarrow>
          do { (pitch, p) \<leftarrow> ltr_int_get_axis sname PITCH u (pitch_axis raw) p;
               (yaw, p) \<leftarrow> ltr_int_get_axis sname YAW u (yaw_axis raw) p;
               (roll, p) \<leftarrow> ltr_int_get_axis sname ROLL u (roll_axis raw) p;
               (tx, p) \<leftarrow> ltr_int_get_axis sname TX u (tx_axis raw) p;
               (ty, p) \<leftarrow> ltr_int_get_axis sname TY u (ty_axis raw) p;
               (tz, p) \<leftarrow> ltr_int_get_axis sname TZ u (tz_axis raw) p;
               Some (\<lparr>pitch_axis = pitch, yaw_axis = yaw, roll_axis = roll, tx_axis = tx, ty_axis = ty, tz_axis = tz,
                      axes_initialized = True, axes_changed_flag = False, axes_section = sname\<rparr>, p) })"

text \<open>The values of the profile \<open>Default\<close> under the section of the profile.\<close>

definition ltr_int_axes_from_default :: "ltr_axes \<Rightarrow> cflt \<Rightarrow> ltr_axes \<Rightarrow> prefs \<Rightarrow> (ltr_axes \<times> prefs) option" where
  "ltr_int_axes_from_default axes u raw p =
     do { (axes', p) \<leftarrow> ltr_int_init_axes ''Default'' u raw p; Some (axes'\<lparr>axes_section := axes_section axes\<rparr>, p) }"

subsection \<open>The default curve stays within the limits\<close>

lemma is_fin_cases: "is_fin x \<Longrightarrow> x = NegZero \<or> (\<exists>r. x = Fin r)"
  by (cases x) auto

text \<open>The straight part: \<open>w\<close> is at most \<open>d = 1 - z\<close>, and \<open>1 / d\<close> is off by no more than its rounding.\<close>

lemma recip_bound:
  assumes "0 < d" and "d \<le> 1" and "1 / 128 \<le> d"
  shows "is_fin (s_div (Fin 1) (Fin d))" and "d * \<bar>cval (s_div (Fin 1) (Fin d))\<bar> \<le> 1 + 1 / 2 ^ 24"
proof -
  have one: "1 \<le> 1 / d" "1 / d \<le> 128" using assms by (simp_all add: field_simps)
  have "ilog2 1 \<le> ilog2 (1 / d)" using one by (intro ilog2_mono) simp_all
  moreover have "pow2 0 < pow2 (ilog2 1 + 1)" using ilog2_bounds(2) [of 1] pow2_of_nat [of 0] by (simp del: pow2_less_iff)
  ultimately have il: "0 \<le> ilog2 \<bar>1 / d\<bar>" using one assms(1) by simp
  have err: "\<bar>rval b32 (1 / d) - 1 / d\<bar> \<le> \<bar>1 / d\<bar> * pow2 (- 24)"
    using rval_err_rel [of "1 / d" b32] assms(1) il by simp
  have "rval b32 (1 / d) - 1 / d \<le> (1 / d) * (1 / 2 ^ 24)"
    using order_trans [OF abs_ge_self err] assms(1) by (simp add: pow2_def)
  then have up: "rval b32 (1 / d) \<le> (1 / d) * (1 + 1 / 2 ^ 24)" unfolding distrib_left mult_1_right by linarith
  have nn: "0 \<le> rval b32 (1 / d)" using assms(1) by (intro rval_nonneg) simp
  have "rval b32 (1 / d) \<le> 128 * (1 + 1 / 2 ^ 24)" using up mult_right_mono [OF one(2), of "1 + 1 / 2 ^ 24"] by simp
  moreover have "(128 * (1 + 1 / 2 ^ 24) :: rat) < 256" by simp
  ultimately have "\<bar>rval b32 (1 / d)\<bar> < 256" using nn by simp
  also have "(256 :: rat) = pow2 8" using pow2_of_nat [of 8] by simp
  also have "pow2 8 \<le> pow2 (emax b32 + 1)" by (rule pow2_mono) simp
  finally have c: "is_fin (rnd b32 (1 / d)) \<and> cval (rnd b32 (1 / d)) = rval b32 (1 / d)" by (rule cval_rnd)
  have q: "s_div (Fin 1) (Fin d) = rnd b32 (1 / d)" using assms by (simp add: fdiv_def)
  show "is_fin (s_div (Fin 1) (Fin d))" using c q by simp
  have "d * rval b32 (1 / d) \<le> d * ((1 / d) * (1 + 1 / 2 ^ 24))" using up assms(1) by (intro mult_left_mono) auto
  then show "d * \<bar>cval (s_div (Fin 1) (Fin d))\<bar> \<le> 1 + 1 / 2 ^ 24" using c q nn assms(1) by simp
qed

definition half_curve :: "rat \<Rightarrow> splines_def" where
  "half_curve z = \<lparr>dead_zone = Fin z, l_curvature = Fin (1 / 2), r_curvature = Fin (1 / 2)\<rparr>"

definition half_pts :: "rat \<Rightarrow> spline_pts" where
  "half_pts z = spl_left (ltr_int_curve2pts (half_curve z))"

lemma half_sides: "spl_right (ltr_int_curve2pts (half_curve z)) = half_pts z"
  by (simp add: half_pts_def half_curve_def ltr_int_curve2pts_def Let_def)

lemma half_pts_simps [simp]: "sp_x0 (half_pts z) = Fin z" "sp_y0 (half_pts z) = Fin 0" "sp_x2 (half_pts z) = Fin 1" "sp_y2 (half_pts z) = Fin 1"
  by (simp_all add: half_pts_def half_curve_def ltr_int_curve2pts_def Let_def)

text \<open>The curve is taken for a straight line.\<close>

lemma half_linear:
  assumes z: "0 \<le> z" "z \<le> 1"
  shows "flt_less (fabs (s_add (s_sub (Fin 1) (s_mul (Fin 2) (sp_x1 (half_pts z)))) (Fin z))) (rnd b64 (1 / 1000))"
proof -
  let ?e = "1 / 2 ^ 22 :: rat"
  define d where "d = s_sub (Fin 1) (Fin z)"
  define q where "q = s_sub (Fin 1) (Fin (1 / 2))"
  define h where "h = s_mul d q"
  define b where "b = s_add (Fin z) h"
  define bb where "bb = s_mul (Fin 2) b"
  define c where "c = s_sub (Fin 1) bb"
  define t where "t = s_add c (Fin z)"
  note ab = abs_le_iff
  have d: "is_fin d \<and> \<bar>cval d - (1 - z)\<bar> \<le> ?e" using sub_near [of b32 "Fin 1" "Fin z"] z by (simp add: d_def)
  have q: "is_fin q \<and> cval q = 1 / 2"
  proof -
    have "rval b32 (of_int 1 * pow2 (- 1)) = of_int 1 * pow2 (- 1)" by (rule rval_grid) simp_all
    then have "rval b32 (1 / 2) = 1 / 2" by (simp add: pow2_def)
    moreover have "(1 / 2 :: rat) < pow2 (emax b32 + 1)" using pow2_mono [of 0 "emax b32 + 1"] pow2_of_nat [of 0] by simp
    ultimately show ?thesis using rnd_rval [of b32 "1 / 2"] by (simp add: q_def fsub_def)
  qed
  have h: "is_fin h \<and> \<bar>cval h - cval d / 2\<bar> \<le> ?e"
  proof -
    have "\<bar>cval d\<bar> \<le> 2" using conjunct2 [OF d] z by (simp add: abs_if split: if_splits)
    then show ?thesis using mul_near [of b32 d q] d q by (simp add: h_def)
  qed
  note bounds = conjunct2 [OF d] conjunct2 [OF h] z
  have "\<bar>z + cval h\<bar> \<le> 4" using bounds by (simp add: abs_if split: if_splits)
  then have b: "is_fin b \<and> \<bar>cval b - (z + cval h)\<bar> \<le> ?e" using add_near [of b32 "Fin z" h] h by (simp add: b_def)
  have b1: "\<bar>2 * cval b - (1 + z)\<bar> \<le> 5 * ?e" using conjunct2 [OF b] bounds by (simp add: abs_if split: if_splits)
  then have "\<bar>2 * cval b\<bar> \<le> 4" using z by (simp add: abs_if split: if_splits)
  then have bb: "is_fin bb \<and> \<bar>cval bb - 2 * cval b\<bar> \<le> ?e" using mul_near [of b32 "Fin 2" b] b by (simp add: bb_def)
  then have bb1: "\<bar>cval bb - (1 + z)\<bar> \<le> 6 * ?e" using b1 by (simp add: abs_if split: if_splits)
  then have "\<bar>1 - cval bb\<bar> \<le> 4" using z by (simp add: abs_if split: if_splits)
  then have c: "is_fin c \<and> \<bar>cval c - (1 - cval bb)\<bar> \<le> ?e" using sub_near [of b32 "Fin 1" bb] bb by (simp add: c_def)
  then have c1: "\<bar>cval c + z\<bar> \<le> 7 * ?e" using bb1 by (simp add: abs_if split: if_splits)
  then have "\<bar>cval c + z\<bar> \<le> 4" by (simp add: abs_if split: if_splits)
  then have t: "is_fin t \<and> \<bar>cval t - (cval c + z)\<bar> \<le> ?e" using add_near [of b32 c "Fin z"] c by (simp add: t_def)
  then have t1: "\<bar>cval t\<bar> \<le> 8 * ?e" using c1 by (simp add: abs_if split: if_splits)
  have r: "is_fin (rnd b64 (1 / 1000)) \<and> \<bar>cval (rnd b64 (1 / 1000)) - 1 / 1000\<bar> \<le> ?e" by (rule rnd_near) simp_all
  have "\<bar>cval t\<bar> < cval (rnd b64 (1 / 1000))" using t1 conjunct2 [OF r] by (simp add: abs_if split: if_splits)
  then have "flt_less (fabs t) (rnd b64 (1 / 1000))" using t r by simp
  then show ?thesis
    by (simp add: t_def c_def bb_def b_def h_def q_def d_def half_pts_def half_curve_def ltr_int_curve2pts_def Let_def)
qed

text \<open>One side of the curve, for an input in the unit interval.\<close>

lemma half_side_bound:
  assumes z: "0 \<le> z" "z \<le> 99 / 100" and x: "is_fin x" "cval x \<le> 1" and fac: "fac = Fin 1 \<or> fac = Fin (- 1)"
  shows "is_fin (side_point (half_pts z) fac x) \<and> \<bar>cval (side_point (half_pts z) fac x)\<bar> \<le> 1"
proof (cases "flt_less x (Fin z)")
  case True
  then show ?thesis by (simp add: side_point_def)
next
  case False
  then have xz: "z \<le> cval x" using x by simp
  define d where "d = rval b32 (1 - z)"
  have "\<bar>rval b32 (1 - z) - (1 - z)\<bar> \<le> 1 / 2 ^ 22" using z by (intro rval_near) auto
  then have d1: "1 / 128 \<le> d" using z by (simp add: d_def abs_if split: if_splits)
  have "\<bar>d\<bar> \<le> rval b32 1" unfolding d_def using z by (intro rval_abs_le) auto
  moreover have r1: "rval b32 1 = 1" using rval_grid [of 1 b32 0] pow2_of_nat [of 0] by simp
  ultimately have d2: "d \<le> 1" by simp
  have big: "d < pow2 (emax b32 + 1)" "(1 :: rat) < pow2 (emax b32 + 1)"
    using d2 pow2_mono [of 1 "emax b32 + 1"] pow2_of_nat [of 1] by simp_all
  have dd: "rval b32 d = d" unfolding d_def by (rule rval_idem) simp
  have sa: "s_sub (Fin 1) (Fin z) = Fin d"
    using rnd_rval [of b32 "1 - z"] z big(1) d1 by (cases "z = 0") (auto simp: fsub_def d_def)
  have one: "s_sub (Fin 1) (Fin 0) = Fin 1" using rnd_rval [of b32 1] r1 big(2) by (simp add: fsub_def)
  define w where "w = s_sub x (Fin z)"
  have w: "is_fin w \<and> \<bar>cval w\<bar> \<le> d"
  proof -
    have "\<bar>cval x - z\<bar> \<le> 1 - z" using xz x by simp
    from rnd_abs_le [OF this, of b32 d] big(1) have "is_fin (rnd b32 (cval x - z)) \<and> \<bar>cval (rnd b32 (cval x - z))\<bar> \<le> d" by (simp add: d_def)
    then show ?thesis using add_cases [of x "fneg (Fin z)" b32] x d1 by (auto simp: w_def fsub_def)
  qed
  define v where "v = s_mul fac w"
  have v: "is_fin v \<and> \<bar>cval v\<bar> \<le> d"
    unfolding v_def using w fac big(1) dd by (intro mul_abs_le [where s = d]) auto
  define g where "g = s_div (Fin 1) (Fin d)"
  have g: "is_fin g" "d * \<bar>cval g\<bar> \<le> 1 + 1 / 2 ^ 24" using recip_bound [of d] d1 d2 by (simp_all add: g_def)
  have "\<bar>cval v * cval g\<bar> \<le> d * \<bar>cval g\<bar>" unfolding abs_mult using v by (intro mult_right_mono) auto
  then have "\<bar>cval v * cval g\<bar> \<le> 1 + 1 / 2 ^ 24" using g(2) by linarith
  then have "is_fin (s_mul v g) \<and> \<bar>cval (s_mul v g)\<bar> \<le> 1"
    using v g(1) rval_b32_one big(2) by (intro mul_abs_le [where s = "1 + 1 / 2 ^ 24"]) auto
  moreover have "side_point (half_pts z) fac x = s_mul v g"
    using False half_linear [of z] z by (simp add: side_point_def Let_def sa one g_def v_def w_def del: flt_less_fin)
  ultimately show ?thesis by simp
qed

lemma half_curve_bound:
  assumes "0 \<le> z" "z \<le> 99 / 100" and "is_fin x" "\<bar>cval x\<bar> \<le> 1"
  shows "is_fin (ltr_int_spline_point (ltr_int_curve2pts (half_curve z)) x) \<and>
    \<bar>cval (ltr_int_spline_point (ltr_int_curve2pts (half_curve z)) x)\<bar> \<le> 1"
proof -
  have r1: "rval b32 1 = 1" using rval_grid [of 1 b32 0] pow2_of_nat [of 0] by simp
  have big: "(1 :: rat) < pow2 (emax b32 + 1)" using pow2_mono [of 1 "emax b32 + 1"] pow2_of_nat [of 1] by simp
  have m: "is_fin (s_mul x (Fin (- 1))) \<and> \<bar>cval (s_mul x (Fin (- 1)))\<bar> \<le> 1"
    using assms(3,4) r1 big by (intro mul_abs_le [where s = 1]) auto
  then have "cval (s_mul x (Fin (- 1))) \<le> 1" by (simp add: abs_le_iff)
  then show ?thesis
    using half_side_bound [OF assms(1,2), of x "Fin 1"] half_side_bound [OF assms(1,2), of "s_mul x (Fin (- 1))" "Fin (- 1)"] assms(3,4) m
    by (auto simp: ltr_int_spline_point_def half_sides half_pts_def [symmetric] simp del: flt_less_fin)
qed

lemma clamp1_bound: "y \<noteq> NaN \<Longrightarrow> is_fin (clamp1 y) \<and> \<bar>cval (clamp1 y)\<bar> \<le> 1"
  by (cases y) (auto simp: clamp1_def Let_def)

lemma rnd_not_nan: "rnd F r \<noteq> NaN"
  by (simp add: rnd_def Let_def)

lemma mul_not_nan: "is_fin x \<Longrightarrow> is_fin y \<Longrightarrow> fmul F x y \<noteq> NaN"
  using mul_cases [of x y F] rnd_not_nan [of F "cval x * cval y"] by (auto simp: signed_zero_def split: if_splits)

lemma div_not_nan: "x \<noteq> NaN \<Longrightarrow> r \<noteq> 0 \<Longrightarrow> fdiv F x (Fin r) \<noteq> NaN"
  by (cases x) (auto simp: fdiv_def Let_def signed_zero_def rnd_not_nan)

lemma rnd_fixed:
  assumes "rnd F r = Fin r"
  shows "rval F r = r \<and> \<bar>r\<bar> < pow2 (emax F + 1)"
proof (cases "r = 0")
  case False
  from rnd_if [OF this, of F] assms show ?thesis by (auto split: if_splits)
qed simp

lemma small_limit: "\<not> flt_less (Fin r) (rnd b64 (1 / 100000)) \<Longrightarrow> 0 < r"
proof -
  assume a: "\<not> flt_less (Fin r) (rnd b64 (1 / 100000))"
  have c: "is_fin (rnd b64 (1 / 100000)) \<and> \<bar>cval (rnd b64 (1 / 100000)) - 1 / 100000\<bar> \<le> 1 / 2 ^ 22" by (rule rnd_near) simp_all
  then have "0 < cval (rnd b64 (1 / 100000))" by (simp add: abs_if split: if_splits)
  with a c show ?thesis by simp
qed

lemma axis_value_eq:
  assumes "enabled a" and "\<not> valid a" and "x' = (if inverted a then fneg x else x)"
    and "lm = (if flt_less x' (Fin 0) then l_limit a else r_limit a)"
  shows "axis_value a x =
    (if flt_less lm (rnd b64 (1 / 100000)) then (Fin 0, a\<lparr>curves := ltr_int_curve2pts (curve_defs a)\<rparr>)
     else (s_mul (ltr_int_spline_point (ltr_int_curve2pts (curve_defs a)) (clamp1 (s_div (s_mul x' (factor a)) lm))) lm,
           a\<lparr>curves := ltr_int_curve2pts (curve_defs a)\<rparr>))"
  using assms by (simp add: axis_value_def Let_def)

lemma axis_value_bound:
  assumes c: "curve_defs a = half_curve z" "0 \<le> z" "z \<le> 99 / 100" and "\<not> valid a" and "is_fin x" and "is_fin (factor a)"
    and lim: "l_limit a = Fin l" "rnd b32 l = Fin l" "r_limit a = Fin r" "rnd b32 r = Fin r"
  shows "is_fin (fst (axis_value a x)) \<and>
    \<bar>cval (fst (axis_value a x))\<bar> \<le> max 0 (if (if inverted a then 0 < cval x else cval x < 0) then l else r)"
proof -
  let ?x = "if inverted a then fneg x else x"
  define m where "m = (if flt_less ?x (Fin 0) then l else r)"
  have m: "rval b32 m = m" "\<bar>m\<bar> < pow2 (emax b32 + 1)"
    using rnd_fixed [OF lim(2)] rnd_fixed [OF lim(4)] by (auto simp: m_def)
  have side: "m = (if (if inverted a then 0 < cval x else cval x < 0) then l else r)"
    using assms(5) by (simp add: m_def)
  have lm: "(if flt_less ?x (Fin 0) then l_limit a else r_limit a) = Fin m" by (simp add: m_def lim)
  show ?thesis
  proof (cases "enabled a \<and> \<not> flt_less (Fin m) (rnd b64 (1 / 100000))")
    case False
    then show ?thesis using axis_value_eq [OF _ assms(4) refl lm [symmetric]]
      by (cases "enabled a") (simp_all add: axis_value_def del: flt_less_fin)
  next
    case True
    then have "0 < m" using small_limit by blast
    define y where "y = s_div (s_mul ?x (factor a)) (Fin m)"
    have "y \<noteq> NaN" unfolding y_def using assms(5,6) \<open>0 < m\<close> by (intro div_not_nan mul_not_nan) auto
    note cl = clamp1_bound [OF this]
    define s where "s = ltr_int_spline_point (ltr_int_curve2pts (half_curve z)) (clamp1 y)"
    have s: "is_fin s \<and> \<bar>cval s\<bar> \<le> 1" unfolding s_def using half_curve_bound [OF c(2,3)] cl by blast
    have "\<bar>cval s * m\<bar> \<le> m" using s \<open>0 < m\<close> mult_right_mono [of "\<bar>cval s\<bar>" 1 m] by (simp add: abs_mult)
    then have "is_fin (s_mul s (Fin m)) \<and> \<bar>cval (s_mul s (Fin m))\<bar> \<le> m"
      using s m \<open>0 < m\<close> by (intro mul_abs_le [where s = m]) auto
    moreover have "fst (axis_value a x) = s_mul s (Fin m)"
      using True axis_value_eq [OF _ assms(4) refl lm [symmetric]] by (simp add: c(1) s_def y_def del: flt_less_fin)
    ultimately show ?thesis using side by auto
  qed
qed

text \<open>C20: The limits limit (\<open>axis.c\<close>, \<open>spline.c\<close>). With the default curvature of one half and any dead zone from 0 to 0.99, on an axis whose curve is to be computed,
  every finite input, at every finite sensitivity and however it overflows on the way, gives a finite value no further from zero than
  the limit of its side, the left one for a negative input (a positive one, if the axis is inverted) and the right one for the others;
  rounding never carries it beyond.\<close>

theorem default_curve_within_limits:
  assumes "get_axis axes i = Some a" and "curve_defs a = half_curve z" and "0 \<le> z" and "z \<le> 99 / 100"
    and "\<not> valid a" and "is_fin x" and "is_fin (factor a)"
    and "l_limit a = Fin l" and "rnd b32 l = Fin l" and "r_limit a = Fin r" and "rnd b32 r = Fin r"
  shows "\<exists>v axes'. ltr_int_val_on_axis i x axes = Some (v, axes') \<and> is_fin v \<and>
    \<bar>cval v\<bar> \<le> max 0 (if (if inverted a then 0 < cval x else cval x < 0) then l else r)"
  using axis_value_bound [OF assms(2-11)] assms(1)
  by (cases "axis_value a x") (auto simp: ltr_int_val_on_axis_def)

definition demo_axis :: "cflt \<Rightarrow> cflt \<Rightarrow> cflt \<Rightarrow> axis_def" where
  "demo_axis dz curv f = \<lparr>enabled = True, inverted = False,
     curve_defs = \<lparr>dead_zone = dz, l_curvature = curv, r_curvature = curv\<rparr>,
     curves = \<lparr>spl_left = \<lparr>sp_x0 = Fin 0, sp_y0 = Fin 0, sp_x1 = Fin 0, sp_y1 = Fin 0, sp_x2 = Fin 0, sp_y2 = Fin 0\<rparr>,
               spl_right = \<lparr>sp_x0 = Fin 0, sp_y0 = Fin 0, sp_x1 = Fin 0, sp_y1 = Fin 0, sp_x2 = Fin 0, sp_y2 = Fin 0\<rparr>\<rparr>,
     valid = False, factor = f, l_limit = Fin 50, r_limit = Fin 50, filter_factor = Fin 1, prefix = ''Pitch''\<rparr>"

definition demo_axes :: "axis_def \<Rightarrow> ltr_axes" where
  "demo_axes a = \<lparr>pitch_axis = a, yaw_axis = a, roll_axis = a, tx_axis = a, ty_axis = a, tz_axis = a,
     axes_initialized = True, axes_changed_flag = False, axes_section = ''Profile''\<rparr>"

theorem default_curve_within_limits_witness:
  "\<exists>v axes'. ltr_int_val_on_axis PITCH (Fin 1000) (demo_axes ((demo_axis (Fin (1 / 8)) (Fin (1 / 2)) (Fin 5))\<lparr>l_limit := Fin 60\<rparr>)) = Some (v, axes') \<and>
     is_fin v \<and> \<bar>cval v\<bar> \<le> 50"
proof -
  have "rnd b32 (of_int 50) = Fin (of_int 50)" "rnd b32 (of_int 60) = Fin (of_int 60)" by (rule rnd_of_int_exact; simp)+
  then have f: "rnd b32 50 = Fin 50" "rnd b32 60 = Fin 60" by simp_all
  let ?a = "(demo_axis (Fin (1 / 8)) (Fin (1 / 2)) (Fin 5))\<lparr>l_limit := Fin 60\<rparr>"
  show ?thesis
    using default_curve_within_limits [of "demo_axes ?a" PITCH ?a "1 / 8" "Fin 1000" 60 50] f
    by (simp add: demo_axes_def demo_axis_def half_curve_def)
qed

text \<open>The roundings on the way of one input.\<close>

lemma steep_roundings:
  "rnd b32 (47 / 100) = Fin (15770583 / 33554432)" "rnd b32 (15770583 / 33554432) = Fin (15770583 / 33554432)" "rnd b32 (17783849 / 33554432) = Fin (2222981 / 4194304)"
  "rnd b32 (- (1 / 67108864)) = Fin (- (1 / 67108864))"
  "s_mul (Fin 2) (Fin (15770583 / 33554432)) = Fin (15770583 / 16777216)" "s_sub (Fin 1) (Fin 1) = Fin 0"
    "s_sub (Fin 1) (Fin (15770583 / 33554432)) = Fin (2222981 / 4194304)" "s_mul (Fin (2222981 / 4194304)) (Fin 0) = Fin 0"
    "s_add (Fin (15770583 / 33554432)) (Fin 0) = Fin (15770583 / 33554432)" "s_sub (Fin 1) (Fin (15770583 / 16777216)) = Fin (1006633 / 16777216)"
    "s_add (Fin (1006633 / 16777216)) (Fin (15770583 / 33554432)) = Fin (2222981 / 4194304)"
    "s_mul (Fin (2222981 / 4194304)) (Fin (15770583 / 33554432)) = Fin (16716817 / 67108864)" "s_mul (Fin (15770583 / 33554432)) (Fin 1) = Fin (15770583 / 33554432)"
    "s_mul (Fin (15770583 / 33554432)) (Fin (15770583 / 33554432)) = Fin (3706087 / 16777216)"
    "s_sub (Fin (16716817 / 67108864)) (Fin (15770583 / 33554432)) = Fin (- (14824349 / 67108864))"
    "s_add (Fin (- (14824349 / 67108864))) (Fin (3706087 / 16777216)) = Fin (- (1 / 67108864))"
    "s_mul (Fin (47 / 2)) (Fin 1) = Fin (47 / 2)" "s_div (Fin (47 / 2)) (Fin 50) = Fin (15770583 / 33554432)"
proof -
  have d: "rnd b32 (47 / 100) = Fin (15770583 / 33554432)"
    using rnd_b32_eval [of "-25" "47 / 100" 15770583] by (simp add: pow2_def)
  have x1: "rnd b32 (47 / 2) = Fin (47 / 2)"
    using rnd_b32_eval [of "-19" "47 / 2" 12320768] by (simp add: pow2_def)
  have b2: "rnd b32 (15770583 / 16777216) = Fin (15770583 / 16777216)"
    using rnd_b32_eval [of "-24" "15770583 / 16777216" 15770583] by (simp add: pow2_def)
  have omd: "rnd b32 (17783849 / 33554432) = Fin (2222981 / 4194304)"
    using rnd_b32_eval [of "-24" "17783849 / 33554432" 8891924] by (simp add: pow2_def)
  have t0: "rnd b32 (1006633 / 16777216) = Fin (1006633 / 16777216)"
    using rnd_b32_eval [of "-28" "1006633 / 16777216" 16106128] by (simp add: pow2_def)
  have t: "rnd b32 (17783849 / 33554432) = Fin (2222981 / 4194304)"
    using rnd_b32_eval [of "-24" "17783849 / 33554432" 8891924] by (simp add: pow2_def)
  have tx: "rnd b32 (35057706367923 / 140737488355328) = Fin (16716817 / 67108864)"
    using rnd_b32_eval [of "-26" "35057706367923 / 140737488355328" 16716817] by (simp add: pow2_def)
  have ac: "rnd b32 (15770583 / 33554432) = Fin (15770583 / 33554432)"
    using rnd_b32_eval [of "-25" "15770583 / 33554432" 15770583] by (simp add: pow2_def)
  have bb: "rnd b32 (248711288159889 / 1125899906842624) = Fin (3706087 / 16777216)"
    using rnd_b32_eval [of "-26" "248711288159889 / 1125899906842624" 14824348] by (simp add: pow2_def)
  have u': "rnd b32 (14824349 / 67108864) = Fin (14824349 / 67108864)"
    using rnd_b32_eval [of "-26" "14824349 / 67108864" 14824349] by (simp add: pow2_def)
  have u: "rnd b32 (- (14824349 / 67108864)) = Fin (- (14824349 / 67108864))"
    using rnd_minus [OF u'] by simp
  have v': "rnd b32 (1 / 67108864) = Fin (1 / 67108864)"
    using rnd_b32_eval [of "-49" "1 / 67108864" 8388608] by (simp add: pow2_def)
  have v: "rnd b32 (- (1 / 67108864)) = Fin (- (1 / 67108864))"
    using rnd_minus [OF v'] by simp
  show "rnd b32 (47 / 100) = Fin (15770583 / 33554432)" "rnd b32 (15770583 / 33554432) = Fin (15770583 / 33554432)" "rnd b32 (17783849 / 33554432) = Fin (2222981 / 4194304)"
    "rnd b32 (- (1 / 67108864)) = Fin (- (1 / 67108864))" by (rule d ac omd v)+
  show "s_mul (Fin 2) (Fin (15770583 / 33554432)) = Fin (15770583 / 16777216)" "s_sub (Fin 1) (Fin 1) = Fin 0"
    "s_sub (Fin 1) (Fin (15770583 / 33554432)) = Fin (2222981 / 4194304)" "s_mul (Fin (2222981 / 4194304)) (Fin 0) = Fin 0"
    "s_add (Fin (15770583 / 33554432)) (Fin 0) = Fin (15770583 / 33554432)" "s_sub (Fin 1) (Fin (15770583 / 16777216)) = Fin (1006633 / 16777216)"
    "s_add (Fin (1006633 / 16777216)) (Fin (15770583 / 33554432)) = Fin (2222981 / 4194304)"
    "s_mul (Fin (2222981 / 4194304)) (Fin (15770583 / 33554432)) = Fin (16716817 / 67108864)" "s_mul (Fin (15770583 / 33554432)) (Fin 1) = Fin (15770583 / 33554432)"
    "s_mul (Fin (15770583 / 33554432)) (Fin (15770583 / 33554432)) = Fin (3706087 / 16777216)"
    "s_sub (Fin (16716817 / 67108864)) (Fin (15770583 / 33554432)) = Fin (- (14824349 / 67108864))"
    "s_add (Fin (- (14824349 / 67108864))) (Fin (3706087 / 16777216)) = Fin (- (1 / 67108864))"
    "s_mul (Fin (47 / 2)) (Fin 1) = Fin (47 / 2)" "s_div (Fin (47 / 2)) (Fin 50) = Fin (15770583 / 33554432)"
    using x1 b2 omd t0 t tx ac bb u v d by (simp_all add: fmul_def fsub_def fdiv_def signed_zero_def)
qed

lemma b32_nan:
  "s_sub NaN x = NaN" "s_add NaN x = NaN" "s_div NaN x = NaN" "s_mul NaN x = NaN" "s_mul x NaN = NaN" "s_sub x NaN = NaN" "s_add x NaN = NaN"
  by (cases x; simp add: fsub_def fdiv_def fmul_def)+

text \<open>The steepest curve can lose the pose: with the curvature of one and a dead zone of 0.47 the value under the square
  root rounds to a negative number at the very edge of the dead zone, and the axis has no number for an input that is well inside its range,
  here 23.5 of 50.\<close>

theorem steepest_curve_no_number:
  "\<exists>axes'. ltr_int_val_on_axis PITCH (Fin (47 / 2)) (demo_axes (demo_axis (rnd b32 (47 / 100)) (Fin 1) (Fin 1))) = Some (NaN, axes')"
proof -
  have r: "is_fin (rnd b64 (1 / 1000)) \<and> \<bar>cval (rnd b64 (1 / 1000)) - 1 / 1000\<bar> \<le> 1 / 2 ^ 22"
    "is_fin (rnd b64 (1 / 100000)) \<and> \<bar>cval (rnd b64 (1 / 100000)) - 1 / 100000\<bar> \<le> 1 / 2 ^ 22" by (rule rnd_near; simp)+
  have e: "\<not> flt_less (Fin (2222981 / 4194304)) (rnd b64 (1 / 1000))" "\<not> flt_less (Fin 50) (rnd b64 (1 / 100000))"
    using r by (auto simp: abs_le_iff)
  have sp: "ltr_int_spline_point (ltr_int_curve2pts \<lparr>dead_zone = Fin (15770583 / 33554432), l_curvature = Fin 1, r_curvature = Fin 1\<rparr>) (Fin (15770583 / 33554432)) = NaN"
    using e(1) by (simp add: ltr_int_spline_point_def ltr_int_curve2pts_def side_point_def Let_def steep_roundings b32_nan del: flt_less_fin)
  have c: "clamp1 (Fin (15770583 / 33554432)) = Fin (15770583 / 33554432)" by (simp add: clamp1_def)
  show ?thesis
    using e(2) sp c by (simp add: ltr_int_val_on_axis_def axis_value_eq [OF _ _ refl refl] demo_axes_def demo_axis_def steep_roundings b32_nan del: flt_less_fin)
qed

subsection \<open>Loading\<close>

text \<open>Loading an axis only adds entries to the store.\<close>

definition grows :: "prefs \<Rightarrow> prefs \<Rightarrow> bool" where
  "grows p q \<longleftrightarrow> prefs_ok q \<and> (\<forall>s k v. getValue p s k = Some v \<longrightarrow> getValue q s k = Some v)"

lemma prefs_grow_refl: "prefs_ok p \<Longrightarrow> grows p p"
  by (simp add: grows_def)

lemma prefs_grow_trans: "grows p q \<Longrightarrow> grows q r \<Longrightarrow> grows p r"
  by (simp add: grows_def)

lemma grows_set: "prefs_ok p \<Longrightarrow> getValue p s k = None \<Longrightarrow> grows p (setValue s k v p)"
  by (auto simp: grows_def setValue_ok get_set)

lemma axis_get_key_flt_grows:
  "prefs_ok p \<Longrightarrow> ltr_int_axis_get_key_flt sec key res p = (ok, r, q) \<Longrightarrow> grows p q"
  by (auto simp: ltr_int_axis_get_key_flt_def ltr_int_get_key_flt_def getValue_flt_def ltr_int_change_key_flt_def setValue_others
      intro: prefs_grow_refl grows_set split: option.splits)

lemma axis_get_key_grows:
  "prefs_ok p \<Longrightarrow> ltr_int_axis_get_key sec key p = (t, q) \<Longrightarrow> grows p q \<and> (\<forall>v. getValue p sec key = Some v \<longrightarrow> t = Some v)"
  by (auto simp: ltr_int_axis_get_key_def ltr_int_get_key_def ltr_int_change_key_def
      intro: prefs_grow_refl grows_set split: option.splits)

lemma set_axis_field_flags:
  "set_axis_field field v i a = Some b \<Longrightarrow> enabled b = enabled a \<and> inverted b = inverted a \<and> \<not> valid b"
  by (cases field) (auto simp: Let_def)

lemma set_axis_field_total: "field \<noteq> ENABLED \<Longrightarrow> field \<noteq> INVERTED \<Longrightarrow> \<exists>b. set_axis_field field v i a = Some b"
  by (cases field) (auto simp: Let_def)

lemma load_field_step:
  assumes ok: "prefs_ok p"
  shows "\<exists>b w q. load_field sec i pre (a, v, p) field = Some (b, w, q) \<and> grows p q \<and> (\<not> valid a \<longrightarrow> \<not> valid b) \<and>
    (field \<noteq> ENABLED \<longrightarrow> enabled b = enabled a) \<and> (field \<noteq> INVERTED \<longrightarrow> inverted b = inverted a) \<and>
    (\<forall>t. field = ENABLED \<and> getValue p sec (pre @ field_text ENABLED) = Some t \<longrightarrow> enabled b = (enabled a \<and> \<not> strcaseeq t ''No'')) \<and>
    (\<forall>t. field = INVERTED \<and> getValue p sec (pre @ field_text INVERTED) = Some t \<longrightarrow> inverted b = (inverted a \<or> strcaseeq t ''Yes''))"
proof (cases "field = ENABLED \<or> field = INVERTED")
  case True
  obtain t q where k: "ltr_int_axis_get_key sec (pre @ field_text field) p = (t, q)"
    by (cases "ltr_int_axis_get_key sec (pre @ field_text field) p")
  note g = axis_get_key_grows [OF ok k]
  show ?thesis using True
  proof
    assume f: "field = ENABLED"
    show ?thesis using k g by (auto simp: f load_field_def Let_def split: option.split)
  next
    assume f: "field = INVERTED"
    show ?thesis using k g by (auto simp: f load_field_def Let_def split: option.split)
  qed
next
  case False
  obtain okk r q where k: "ltr_int_axis_get_key_flt sec (pre @ field_text field) v p = (okk, r, q)"
    by (cases "ltr_int_axis_get_key_flt sec (pre @ field_text field) v p")
  note g = axis_get_key_flt_grows [OF ok k]
  obtain b where b: "set_axis_field field r i a = Some b" using set_axis_field_total False by blast
  show ?thesis using False k g b set_axis_field_flags [OF b] by (cases okk) (simp_all add: load_field_def Let_def)
qed

lemma load_fields:
  assumes "prefs_ok p"
  shows "\<exists>b w q. foldM (load_field sec i pre) (a, v, p) fs = Some (b, w, q) \<and> grows p q \<and> (\<not> valid a \<longrightarrow> \<not> valid b) \<and>
    (\<forall>t. ENABLED \<in> set fs \<and> getValue p sec (pre @ field_text ENABLED) = Some t \<longrightarrow> enabled b = (enabled a \<and> \<not> strcaseeq t ''No'')) \<and>
    (\<forall>t. INVERTED \<in> set fs \<and> getValue p sec (pre @ field_text INVERTED) = Some t \<longrightarrow> inverted b = (inverted a \<or> strcaseeq t ''Yes'')) \<and>
    (ENABLED \<notin> set fs \<longrightarrow> enabled b = enabled a) \<and> (INVERTED \<notin> set fs \<longrightarrow> inverted b = inverted a)"
  using assms
proof (induction fs arbitrary: a v p)
  case Nil
  then show ?case by (simp add: prefs_grow_refl)
next
  case (Cons f fs)
  obtain a1 v1 p1 where s: "load_field sec i pre (a, v, p) f = Some (a1, v1, p1)" "grows p p1" "\<not> valid a \<longrightarrow> \<not> valid a1"
    "f \<noteq> ENABLED \<longrightarrow> enabled a1 = enabled a" "f \<noteq> INVERTED \<longrightarrow> inverted a1 = inverted a"
    "\<forall>t. f = ENABLED \<and> getValue p sec (pre @ field_text ENABLED) = Some t \<longrightarrow> enabled a1 = (enabled a \<and> \<not> strcaseeq t ''No'')"
    "\<forall>t. f = INVERTED \<and> getValue p sec (pre @ field_text INVERTED) = Some t \<longrightarrow> inverted a1 = (inverted a \<or> strcaseeq t ''Yes'')"
    using load_field_step [OF Cons.prems, of sec i pre a v f] by blast
  have "prefs_ok p1" using s(2) by (simp add: grows_def)
  from Cons.IH [OF this, of a1 v1] obtain b w q where r: "foldM (load_field sec i pre) (a1, v1, p1) fs = Some (b, w, q)" "grows p1 q"
    "\<not> valid a1 \<longrightarrow> \<not> valid b"
    "\<forall>t. ENABLED \<in> set fs \<and> getValue p1 sec (pre @ field_text ENABLED) = Some t \<longrightarrow> enabled b = (enabled a1 \<and> \<not> strcaseeq t ''No'')"
    "\<forall>t. INVERTED \<in> set fs \<and> getValue p1 sec (pre @ field_text INVERTED) = Some t \<longrightarrow> inverted b = (inverted a1 \<or> strcaseeq t ''Yes'')"
    "ENABLED \<notin> set fs \<longrightarrow> enabled b = enabled a1" "INVERTED \<notin> set fs \<longrightarrow> inverted b = inverted a1" by blast
  have keep: "getValue p s k = Some t \<Longrightarrow> getValue p1 s k = Some t" for s k t using s(2) by (simp add: grows_def)
  show ?case
  proof (intro exI [of _ b] exI [of _ w] exI [of _ q] conjI allI impI)
    show "foldM (load_field sec i pre) (a, v, p) (f # fs) = Some (b, w, q)" using s(1) r(1) by simp
    show "grows p q" using prefs_grow_trans s(2) r(2) by blast
    show "\<not> valid b" if "\<not> valid a" using that s(3) r(3) by blast
    show "enabled b = (enabled a \<and> \<not> strcaseeq t ''No'')"
      if "ENABLED \<in> set (f # fs) \<and> getValue p sec (pre @ field_text ENABLED) = Some t" for t
      using that s(4,6) r(4,6) keep by (cases "ENABLED \<in> set fs"; cases "f = ENABLED") auto
    show "inverted b = (inverted a \<or> strcaseeq t ''Yes'')"
      if "INVERTED \<in> set (f # fs) \<and> getValue p sec (pre @ field_text INVERTED) = Some t" for t
      using that s(5,7) r(5,7) keep by (cases "INVERTED \<in> set fs"; cases "f = INVERTED") auto
    show "enabled b = enabled a" if "ENABLED \<notin> set (f # fs)" using that s(4) r(6) by auto
    show "inverted b = inverted a" if "INVERTED \<notin> set (f # fs)" using that s(5) r(7) by auto
  qed
qed

text \<open>Loading an axis always succeeds, and takes the two switches from the store.\<close>

lemma load_axis:
  assumes ok: "prefs_ok p" and pre: "get_axis_prefix i = Some pre"
  shows "\<exists>a q. ltr_int_get_axis sec i u raw p = Some (a, q) \<and> grows p q \<and> \<not> valid a \<and>
    (\<forall>t. getValue p sec (pre @ ''-enabled'') = Some t \<longrightarrow> enabled a = (\<not> strcaseeq t ''No'')) \<and>
    (\<forall>t. getValue p sec (pre @ ''-inverted'') = Some t \<longrightarrow> inverted a = strcaseeq t ''Yes'')"
proof -
  obtain okk ff p0 where k: "ltr_int_axis_get_key_flt sec ''Filter-factor'' (rnd b32 (1 / 5)) p = (okk, ff, p0)"
    by (cases "ltr_int_axis_get_key_flt sec ''Filter-factor'' (rnd b32 (1 / 5)) p")
  note g = axis_get_key_flt_grows [OF ok k]
  obtain a0 where i: "ltr_int_init_axis sec pre raw p = (a0, p0)" "enabled a0" "\<not> inverted a0" "\<not> valid a0"
    by (simp add: ltr_int_init_axis_def k)
  have ok0: "prefs_ok p0" using g by (simp add: grows_def)
  have f: "ENABLED \<in> set all_fields" "INVERTED \<in> set all_fields" by (simp_all add: all_fields_def)
  from load_fields [OF ok0, of sec i pre a0 u all_fields] i f obtain b w q where
    "foldM (load_field sec i pre) (a0, u, p0) all_fields = Some (b, w, q)" "grows p0 q" "\<not> valid b"
    "\<forall>t. getValue p0 sec (pre @ ''-enabled'') = Some t \<longrightarrow> enabled b = (\<not> strcaseeq t ''No'')"
    "\<forall>t. getValue p0 sec (pre @ ''-inverted'') = Some t \<longrightarrow> inverted b = strcaseeq t ''Yes''" by auto
  moreover from this have "grows p q" using g prefs_grow_trans by blast
  ultimately show ?thesis using pre i(1) g by (auto simp: ltr_int_get_axis_def grows_def)
qed

text \<open>Switching an axis on or off, or inverting it, lasts: the setter reports success, the switch reads back at once and the change is
  signalled; and whenever the axis is loaded again from the preferences as the setter left them, the loading succeeds and
  finds the switch as it was set, while every other entry of the store is as before or was copied from the default profile.\<close>

theorem switches_survive_reload:
  assumes "pref_step\<^sup>*\<^sup>* prefs_empty p" and "i \<noteq> MISC" and "param = AXIS_ENABLED \<or> param = AXIS_INVERTED"
  shows "\<exists>axes' p' a q. ltr_int_set_axis_bool_param i param b axes p = Some (True, axes', p') \<and>
    ltr_int_get_axis_bool_param axes' i param = Some b \<and> axes_changed_flag axes' \<and>
    ltr_int_get_axis (axes_section axes) i u raw p' = Some (a, q) \<and>
    (if param = AXIS_ENABLED then enabled a else inverted a) = b \<and>
    (\<forall>s k v. getValue p' s k = Some v \<longrightarrow> getValue q s k = Some v)"
proof -
  have ok: "prefs_ok p" using assms(1) by (rule reachable_ok)
  obtain pre where pre: "get_axis_prefix i = Some pre" using assms(2) by (cases i) auto
  obtain axis where axis: "get_axis axes i = Some axis" using assms(2) by (cases i) auto
  have put: "get_axis (signal_change (put_axis i x axes)) i = Some x" for x using assms(2) by (cases i) (auto simp: signal_change_def)
  define f where "f = (if param = AXIS_ENABLED then ENABLED else INVERTED)"
  define p' where "p' = setValue (axes_section axes) (pre @ field_text f) (if b then ''Yes'' else ''No'') p"
  have ok': "prefs_ok p'" using ok by (simp add: p'_def setValue_ok)
  have v: "getValue p' (axes_section axes) (pre @ field_text f) = Some (if b then ''Yes'' else ''No'')"
    by (simp add: p'_def get_set [OF ok])
  obtain a q where l: "ltr_int_get_axis (axes_section axes) i u raw p' = Some (a, q)" "grows p' q"
    "\<forall>t. getValue p' (axes_section axes) (pre @ ''-enabled'') = Some t \<longrightarrow> enabled a = (\<not> strcaseeq t ''No'')"
    "\<forall>t. getValue p' (axes_section axes) (pre @ ''-inverted'') = Some t \<longrightarrow> inverted a = strcaseeq t ''Yes''"
    using load_axis [OF ok' pre, of "axes_section axes" u raw] by blast
  have t: "strcaseeq ''No'' ''No''" "\<not> strcaseeq ''Yes'' ''No''" "strcaseeq ''Yes'' ''Yes''" "\<not> strcaseeq ''No'' ''Yes''"
    by (simp_all add: strcaseeq_def lower_char_def)
  have "\<exists>axes'. ltr_int_set_axis_bool_param i param b axes p = Some (True, axes', p') \<and>
      ltr_int_get_axis_bool_param axes' i param = Some b \<and> axes_changed_flag axes'"
    using assms(3) pre axis put
    by (auto simp: ltr_int_set_axis_bool_param_def ltr_int_get_axis_bool_param_def save_val_str_def ltr_int_change_key_def p'_def f_def
        signal_change_def)
  moreover have "(if param = AXIS_ENABLED then enabled a else inverted a) = b"
    using assms(3) v l(3,4) t by (cases b) (auto simp: f_def)
  ultimately show ?thesis using l(1,2) unfolding grows_def by blast
qed

theorem switches_survive_reload_witness:
  "\<exists>axes' p' a q. ltr_int_set_axis_bool_param YAW AXIS_INVERTED True (demo_axes (demo_axis (Fin 0) (Fin (1 / 2)) (Fin 5))) prefs_empty
      = Some (True, axes', p') \<and>
    ltr_int_get_axis ''Profile'' YAW (Fin 0) (demo_axis (Fin 0) (Fin (1 / 2)) (Fin 5)) p' = Some (a, q) \<and> inverted a"
  using switches_survive_reload [of prefs_empty YAW AXIS_INVERTED True "demo_axes (demo_axis (Fin 0) (Fin (1 / 2)) (Fin 5))" "Fin 0"
      "demo_axis (Fin 0) (Fin (1 / 2)) (Fin 5)"]
  by (auto simp: demo_axes_def)

text \<open>The names of the parameters are in the order of \<open>axis_fields\<close>, not of \<open>axis_param_t\<close>, by which they are looked up.\<close>

lemma param_names_wrong:
  "ltr_int_axis_param_get_desc AXIS_ENABLED = Some ''Deadzone''" "ltr_int_axis_param_get_desc AXIS_DEADZONE = Some ''Inverted''"
  "ltr_int_axis_param_get_desc AXIS_LLIMIT = Some ''Left Sensitivity''" "ltr_int_axis_param_get_desc MISC_FOCAL_LENGTH = None"
  by (simp_all add: ltr_int_axis_param_get_desc_def axis_param_desc_def rd_def)

end
