(* ===== verification/Pose.thy ===== *)
theory Pose
  imports PrefGlobal FltRound "HOL-Library.Multiset"
begin

text \<open>
  \<open>src/pose.c\<close>: from the blobs of a frame to the pose. \<open>pose_init\<close> prepares the reflector model, \<open>sort_blobs\<close> brings the blobs into the
  order of the model's points, two algorithms (\<open>iter_pose\<close>, \<open>alter_pose\<close>) find the points in space, and two find the
  rotation. The static variables are the record \<open>pose_state\<close>. The arithmetic is in \<open>double\<close>; blob coordinates are \<open>float\<close>.
  A blob list is the list of its allocated slots, of which the first \<open>num_blobs\<close> are valid.
\<close>

datatype pose_model = M_CAP | M_CLIP | M_SINGLE | M_FACE

record pose_state =
  internal_focal_depth :: cflt
  model_point0 :: vec3
  model_point1 :: vec3
  model_point2 :: vec3
  model_ref :: vec3
  model_base :: mat3
  center_ref :: vec3
  center_base :: mat3
  pose_type :: pose_model
  c_base :: vec3
  tr_center :: vec3
  tr_rot :: mat3
  tr_rot_base :: mat3

definition model_dist :: cflt where "model_dist = Fin 1000"

definition pose_init_state :: pose_state where
  "pose_init_state = \<lparr>internal_focal_depth = Fin 1000, model_point0 = zero_vec, model_point1 = zero_vec, model_point2 = zero_vec,
     model_ref = zero_vec, model_base = zero_mat, center_ref = zero_vec, center_base = zero_mat, pose_type = M_CAP,
     c_base = zero_vec, tr_center = zero_vec, tr_rot = zero_mat, tr_rot_base = zero_mat\<rparr>"

definition M_PI :: cflt where "M_PI = Fin (884279719003555 / 281474976710656)"

subsection \<open>The model\<close>

definition ltr_int_get_cbase :: "vec3 \<Rightarrow> vec3 \<Rightarrow> vec3 \<Rightarrow> vec3 \<Rightarrow> vec3 option" where
  "ltr_int_get_cbase p0 p1 p2 c =
     (let r0 = ltr_int_make_vec p0 c; r1 = ltr_int_make_vec p1 c; r2 = ltr_int_make_vec p2 c;
          base = ltr_int_make_base (ltr_int_make_vec r1 r0) (ltr_int_make_vec r2 r0)
      in if \<not> ltr_int_is_matrix_finite base then None
         else Some (ltr_int_matrix_times_vec base (ltr_int_make_vec zero_vec r0)))"

text \<open>The result, the centre and the transformation; the centre is written also when the transformation is not finite.\<close>

definition ltr_int_center :: "vec3 \<Rightarrow> vec3 \<Rightarrow> vec3 \<Rightarrow> vec3 \<Rightarrow> vec3 \<times> mat3 \<Rightarrow> bool \<times> vec3 \<times> mat3" where
  "ltr_int_center rp0 rp1 rp2 cntr_base old = (case old of (center, tr) \<Rightarrow>
     let rb = ltr_int_transpose_in_place (ltr_int_make_base (ltr_int_make_vec rp1 rp0) (ltr_int_make_vec rp2 rp0))
     in if \<not> ltr_int_is_matrix_finite rb then (False, center, tr)
        else let center = ltr_int_add_vecs (ltr_int_matrix_times_vec rb cntr_base) rp0;
                 RR = ltr_int_transpose_in_place (ltr_int_make_vec rp0 center, ltr_int_make_vec rp1 center, ltr_int_make_vec rp2 center);
                 tmp_tr = ltr_int_invert_matrix RR
             in if \<not> ltr_int_is_matrix_finite tmp_tr then (False, center, tr) else (True, center, tmp_tr))"

definition ltr_int_pose_init :: "reflector_model_type \<Rightarrow> pose_state \<Rightarrow> bool \<times> pose_state" where
  "ltr_int_pose_init rm s = (case rm_type rm of
     SINGLE \<Rightarrow> (True, s\<lparr>pose_type := M_SINGLE\<rparr>)
   | FACE \<Rightarrow> (True, s\<lparr>pose_type := M_FACE\<rparr>)
   | t \<Rightarrow>
     let s = s\<lparr>pose_type := (if t = CAP then M_CAP else M_CLIP)\<rparr>;
         ref = rm_hc rm;
         s = s\<lparr>model_point0 := ltr_int_make_vec (rm_p0 rm) ref, model_point1 := ltr_int_make_vec (rm_p1 rm) ref,
               model_point2 := ltr_int_make_vec (rm_p2 rm) ref\<rparr>;
         vec1 = ltr_int_make_vec (model_point1 s) (model_point0 s);
         vec2 = ltr_int_make_vec (model_point2 s) (model_point0 s);
         s = s\<lparr>model_base := ltr_int_make_base vec1 vec2\<rparr>
     in if \<not> ltr_int_is_matrix_finite (model_base s) then (False, s)
        else let s = s\<lparr>center_base := ltr_int_make_base vec1 vec2,
                       model_ref := ltr_int_matrix_times_vec (model_base s) (ltr_int_make_vec zero_vec (model_point0 s))\<rparr>;
                 (res, s) = (case ltr_int_get_cbase (rm_p0 rm) (rm_p1 rm) (rm_p2 rm) (rm_hc rm) of
                    None \<Rightarrow> (False, s)
                  | Some cb \<Rightarrow> (case ltr_int_center (rm_p0 rm) (rm_p1 rm) (rm_p2 rm) cb (tr_center s, tr_rot s) of
                      (ok, center, tr) \<Rightarrow> (ok, s\<lparr>c_base := cb, tr_center := center, tr_rot := tr\<rparr>)))
             in (res, s\<lparr>tr_rot_base := ltr_int_assign_matrix (tr_rot s)\<rparr>))"

definition ltr_int_is_single_point :: "pose_state \<Rightarrow> bool" where
  "ltr_int_is_single_point s \<longleftrightarrow> pose_type s = M_SINGLE \<or> pose_type s = M_FACE"

definition ltr_int_is_face :: "pose_state \<Rightarrow> bool" where
  "ltr_int_is_face s \<longleftrightarrow> pose_type s = M_FACE"

subsection \<open>The order of the blobs\<close>

definition blob_above :: "blob_type \<Rightarrow> blob_type \<Rightarrow> bool" where
  "blob_above b c \<longleftrightarrow> flt_less (bl_y c) (bl_y b)"

definition swap_if :: "bool \<Rightarrow> nat \<Rightarrow> nat \<Rightarrow> blob_type list \<Rightarrow> blob_type list" where
  "swap_if c i j bs = (if c then bs[i := bs ! j, j := bs ! i] else bs)"

definition sort_cap :: "blob_type list \<Rightarrow> blob_type list" where
  "sort_cap bs =
     (let topmost = (if blob_above (bs ! 1) (bs ! 0) then (if blob_above (bs ! 2) (bs ! 1) then 2 else 1)
                     else if blob_above (bs ! 2) (bs ! 0) then 2 else 0);
          bs = swap_if (topmost \<noteq> 0) 0 topmost bs
      in swap_if (flt_less (bl_x (bs ! 2)) (bl_x (bs ! 1))) 1 2 bs)"

definition sort_clip :: "blob_type list \<Rightarrow> blob_type list" where
  "sort_clip bs =
     (let bs = swap_if (blob_above (bs ! 1) (bs ! 0)) 1 0 bs;
          bs = swap_if (blob_above (bs ! 2) (bs ! 1)) 1 2 bs
      in swap_if (blob_above (bs ! 1) (bs ! 0)) 1 0 bs)"

definition sort_single :: "blob_type list \<Rightarrow> blob_type list" where
  "sort_single bs =
     (if bl_score (bs ! 0) > bl_score (bs ! 1)
      then swap_if (\<not> bl_score (bs ! 0) > bl_score (bs ! 2)) 0 2 bs
      else if bl_score (bs ! 1) > bl_score (bs ! 2) then swap_if True 0 1 bs
      else swap_if True 0 2 bs)"

text \<open>The sorting looks at the first three slots of the array, whether valid or not.\<close>

definition ltr_int_pose_sort_blobs :: "pose_state \<Rightarrow> bloblist_type \<Rightarrow> bloblist_type option" where
  "ltr_int_pose_sort_blobs s bl =
     (if ltr_int_is_single_point s
      then (if num_blobs bl \<le> 1 then Some bl
            else if length (blobs bl) < 3 then None else Some (bl\<lparr>blobs := sort_single (blobs bl)\<rparr>))
      else if num_blobs bl < 3 then Some bl
      else if length (blobs bl) < 3 then None
      else Some (bl\<lparr>blobs := (if pose_type s = M_CAP then sort_cap (blobs bl) else sort_clip (blobs bl))\<rparr>))"

subsection \<open>The points in space\<close>

definition blob_dist :: "blob_type \<Rightarrow> blob_type \<Rightarrow> cflt" where
  "blob_dist b0 b1 = fsqrt b64 (d_add (ltr_int_sqr (fsub b32 (bl_x b1) (bl_x b0))) (ltr_int_sqr (fsub b32 (bl_y b1) (bl_y b0))))"

text \<open>The iteration: at most twenty rounds on \<open>a\<close>. \<open>abs\<close> is the one for \<open>int\<close>, so the error is truncated before it is compared; a
  value outside the range of \<open>int\<close> has no result. \<open>iter_par\<close> are the numbers the rounds share.\<close>

record iter_par =
  ip_uv :: cflt
  ip_uw :: cflt
  ip_vw :: cflt
  ip_d2 :: cflt
  ip_e2 :: cflt
  ip_f2 :: cflt
  ip_h :: cflt
  ip_j :: cflt
  a_min :: cflt
  a_max :: cflt

definition iter_round :: "iter_par \<Rightarrow> cflt \<Rightarrow> cflt \<times> cflt \<times> cflt \<times> cflt" where
  "iter_round P a =
     (let tenth = rnd b64 (1 / 10);
          a = (if flt_less a (d_add (a_min P) tenth) then d_add (a_min P) tenth else a);
          a = (if flt_less (d_sub (a_max P) tenth) a then d_sub (a_max P) tenth else a);
          a2 = d_mul a a;
          k = fsqrt b64 (d_add (d_mul a2 (ip_j P)) (ip_f2 P));
          m = fsqrt b64 (d_add (d_mul a2 (ip_h P)) (ip_e2 P));
          n = d_div (d_mul a (ip_h P)) m;
          oo = d_div (d_mul a (ip_j P)) k;
          p = d_sub (d_mul a (ip_uv P)) k;
          q = d_sub (d_mul a (ip_uw P)) m;
          i_d = d_sub (d_sub (d_add (d_mul p p) (d_mul q q)) (d_mul (d_mul (d_mul (Fin 2) p) q) (ip_vw P))) (ip_d2 P);
          den = d_mul (Fin 2) (d_add (d_mul (d_sub (ip_uv P) oo) (d_sub p (d_mul q (ip_vw P))))
                                     (d_mul (d_sub (ip_uw P) n) (d_sub q (d_mul p (ip_vw P)))))
      in (d_sub a (d_div i_d den), p, q, i_d))"

fun iter_loop :: "nat \<Rightarrow> iter_par \<Rightarrow> cflt \<Rightarrow> cflt \<Rightarrow> cflt \<Rightarrow> (cflt \<times> cflt \<times> cflt) option" where
  "iter_loop 0 P a b c = Some (a, b, c)"
| "iter_loop (Suc n) P a b c = (case iter_round P a of (a, b, c, i_d) \<Rightarrow>
     (case flt_to_int i_d of
        None \<Rightarrow> None
      | Some v \<Rightarrow> if v = 0 then Some (a, b, c) else iter_loop n P a b c))"

definition image_point :: "cflt \<Rightarrow> blob_type \<Rightarrow> vec3" where
  "image_point depth b = (bl_x b, bl_y b, depth)"

definition iter_pose ::
  "prefs \<Rightarrow> gprefs \<Rightarrow> pose_state \<Rightarrow> blob_type list \<Rightarrow> (mat3 \<times> pose_state \<times> gprefs) option" where
  "iter_pose db g s bs =
     (let (depth, g) = ltr_int_get_focal_length db g;
          s = s\<lparr>internal_focal_depth := depth\<rparr>;
          cap = (pose_type s = M_CAP);
          pt = (\<lambda>i. image_point depth (bs ! i));
          dist = (\<lambda>x y. ltr_int_vec_size (ltr_int_make_vec x y));
          m0 = model_point0 s; m1 = model_point1 s; m2 = model_point2 s;
          (pp0, pp1, pp2) = (if cap then (pt 0, pt 1, pt 2) else (pt 1, pt 0, pt 2));
          (d, e, f) = (if cap then (dist m1 m2, dist m0 m2, dist m0 m1) else (dist m0 m2, dist m1 m2, dist m1 m0));
          pp0 = ltr_int_normalize_vec pp0; pp1 = ltr_int_normalize_vec pp1; pp2 = ltr_int_normalize_vec pp2;
          uv = ltr_int_dot_product pp0 pp1; uw = ltr_int_dot_product pp0 pp2; vw = ltr_int_dot_product pp1 pp2;
          uxv = d_div f (ltr_int_vec_size (ltr_int_cross_product pp0 pp1));
          uxw = d_div e (ltr_int_vec_size (ltr_int_cross_product pp0 pp2));
          P = \<lparr>ip_uv = uv, ip_uw = uw, ip_vw = vw, ip_d2 = d_mul d d, ip_e2 = d_mul e e, ip_f2 = d_mul f f,
               ip_h = d_sub (d_mul uw uw) (Fin 1), ip_j = d_sub (d_mul uv uv) (Fin 1),
               a_min = (if flt_less e f then f else e), a_max = (if flt_less uxv uxw then uxv else uxw)\<rparr>
      in do { (a, b, c) \<leftarrow> iter_loop 20 P (d_add (a_min P) (d_div (d_add (a_min P) (a_max P)) (Fin 2))) NaN NaN;
              Some (let v0 = ltr_int_mul_vec pp0 a; v1 = ltr_int_mul_vec pp1 b; v2 = ltr_int_mul_vec pp2 c
                    in if cap then (v0, v1, v2) else (v1, v0, v2), s, g) })"

definition flt_le :: "cflt \<Rightarrow> cflt \<Rightarrow> bool" where
  "flt_le x y \<longleftrightarrow> x \<noteq> NaN \<and> y \<noteq> NaN \<and> \<not> flt_less y x"

definition alter_pose :: "pose_state \<Rightarrow> blob_type list \<Rightarrow> bool \<Rightarrow> mat3 \<times> pose_state" where
  "alter_pose s bs centering =
     (let dist = (\<lambda>x y. ltr_int_vec_size (ltr_int_make_vec x y));
          R01 = dist (model_point0 s) (model_point1 s); R02 = dist (model_point0 s) (model_point2 s);
          R12 = dist (model_point1 s) (model_point2 s);
          d01 = blob_dist (bs ! 0) (bs ! 1); d02 = blob_dist (bs ! 0) (bs ! 2); d12 = blob_dist (bs ! 1) (bs ! 2);
          heron = (\<lambda>x y z. d_mul (d_mul (d_mul (d_add (d_add x y) z) (d_add (d_add (fneg x) y) z))
                     (d_add (d_sub x y) z)) (d_sub (d_add x y) z));
          a = heron R01 R02 R12;
          q01 = ltr_int_sqr R01; q02 = ltr_int_sqr R02; q12 = ltr_int_sqr R12;
          b = d_add (d_add (d_mul (ltr_int_sqr d01) (d_add (d_add (fneg q01) q02) q12))
                           (d_mul (ltr_int_sqr d02) (d_add (d_sub q01 q02) q12)))
                    (d_mul (ltr_int_sqr d12) (d_sub (d_add q01 q02) q12));
          c = heron d01 d02 d12;
          sc = fsqrt b64 (d_div (d_add b (fsqrt b64 (d_sub (ltr_int_sqr b) (d_mul a c)))) a);
          lhs = d_sub (d_add (ltr_int_sqr d01) (ltr_int_sqr d02)) (ltr_int_sqr d12);
          rhs = d_mul (ltr_int_sqr sc) (d_sub (d_add q01 q02) q12);
          sigma = (if flt_le lhs rhs then Fin 1 else Fin (- 1));
          sg = (if pose_type s = M_CAP then Fin (- 1) else Fin 1);
          h1 = d_mul sg (fsqrt b64 (d_sub (ltr_int_sqr (d_mul sc R01)) (ltr_int_sqr d01)));
          h2 = d_mul (d_mul sg sigma) (fsqrt b64 (d_sub (ltr_int_sqr (d_mul sc R02)) (ltr_int_sqr d02)));
          s = (if centering then s\<lparr>internal_focal_depth := d_mul model_dist sc\<rparr> else s);
          depth = internal_focal_depth s;
          pt = (\<lambda>i z. (d_div (bl_x (bs ! i)) sc, d_div (bl_y (bs ! i)) sc, d_div z sc))
      in ((pt 0 depth, pt 1 (d_add depth h1), pt 2 (d_add depth h2)), s))"

subsection \<open>The pose\<close>

text \<open>\<open>points\<close> in the base of the model; the result is angles (in radians), translation, absolute position and absolute angles.\<close>

definition ltr_int_get_pose ::
  "libm \<Rightarrow> pose_state \<Rightarrow> mat3 \<Rightarrow> (vec3 \<times> vec3 \<times> vec3 \<times> vec3) option" where
  "ltr_int_get_pose M s points = (case points of (rp0, rp1, rp2) \<Rightarrow>
     let rb = ltr_int_transpose_in_place (ltr_int_make_base (ltr_int_make_vec rp1 rp0) (ltr_int_make_vec rp2 rp0))
     in if \<not> ltr_int_is_matrix_finite rb then None
        else let current_center = ltr_int_add_vecs (ltr_int_matrix_times_vec rb (c_base s)) rp0;
                 trans = ltr_int_make_vec current_center (tr_center s);
                 RR = ltr_int_transpose_in_place
                   (ltr_int_make_vec rp0 current_center, ltr_int_make_vec rp1 current_center, ltr_int_make_vec rp2 current_center);
                 rot = ltr_int_mul_matrix RR (tr_rot s)
             in if \<not> ltr_int_is_matrix_finite rot then None
                else Some (ltr_int_matrix_to_euler M rot, trans, current_center,
                           ltr_int_matrix_to_euler M (ltr_int_mul_matrix RR (tr_rot_base s))))"

text \<open>The older way to find the rotation; it leaves the absolute angles at zero.\<close>

definition old_rotation ::
  "libm \<Rightarrow> pose_state \<Rightarrow> mat3 \<Rightarrow> bool \<Rightarrow> (vec3 \<times> vec3 \<times> vec3 \<times> vec3) option \<times> pose_state" where
  "old_rotation M s points centering = (case points of (p0, p1, p2) \<Rightarrow>
     let new_base = ltr_int_make_base (ltr_int_make_vec p1 p0) (ltr_int_make_vec p2 p0)
     in if \<not> ltr_int_is_matrix_finite new_base then (None, s)
        else let s = (if centering then s\<lparr>center_base := ltr_int_assign_matrix new_base\<rparr> else s);
                 new_base = ltr_int_transpose_in_place new_base;
                 new_center = ltr_int_add_vecs p0 (ltr_int_matrix_times_vec new_base (model_ref s));
                 s = (if centering then s\<lparr>center_ref := new_center\<rparr> else s);
                 displacement = ltr_int_make_vec new_center (center_ref s);
                 transform = ltr_int_mul_matrix new_base (center_base s)
             in (Some (ltr_int_matrix_to_euler M transform, displacement, new_center, zero_vec), s))"

definition new_rotation ::
  "libm \<Rightarrow> pose_state \<Rightarrow> mat3 \<Rightarrow> bool \<Rightarrow> (vec3 \<times> vec3 \<times> vec3 \<times> vec3) option \<times> pose_state" where
  "new_rotation M s points centering = (case points of (p0, p1, p2) \<Rightarrow>
     (case (if centering
            then (case ltr_int_center p0 p1 p2 (c_base s) (tr_center s, tr_rot s) of (ok, center, tr) \<Rightarrow>
                    (ok, s\<lparr>tr_center := center, tr_rot := tr\<rparr>))
            else (True, s)) of
        (ok, s) \<Rightarrow> if \<not> ok then (None, s) else (ltr_int_get_pose M s points, s)))"

text \<open>The raw angles and translation of the pose record and the angles and position of the absolute one, whose fields are
  \<open>float\<close>. \<open>None\<close> inside is the result false.\<close>

fun to_floats :: "vec3 \<Rightarrow> vec3" where
  "to_floats (a, b, c) = (fcvt b32 a, fcvt b32 b, fcvt b32 c)"

definition ltr_int_pose_process_blobs ::
  "libm \<Rightarrow> prefs \<Rightarrow> gprefs \<Rightarrow> pose_state \<Rightarrow> bloblist_type \<Rightarrow> bool \<Rightarrow>
   ((vec3 \<times> vec3 \<times> vec3 \<times> vec3) option \<times> pose_state \<times> gprefs) option" where
  "ltr_int_pose_process_blobs M db g s bl centering =
     (if length (blobs bl) < 3 then None
      else case ltr_int_use_alter db g of (alter, g) \<Rightarrow>
        do { (points, s, g) \<leftarrow> (if alter then (case alter_pose s (blobs bl) centering of (points, s) \<Rightarrow> Some (points, s, g))
                               else iter_pose db g s (blobs bl));
             Some (case ltr_int_use_oldrot db g of (oldrot, g) \<Rightarrow>
               (case (if oldrot then old_rotation else new_rotation) M s points centering of
                  (None, s) \<Rightarrow> (None, s, g)
                | (Some (angles, displacement, abs_center, abs_angles), s) \<Rightarrow>
                    let deg = d_div (Fin 180) M_PI;
                        angles = ltr_int_mul_vec angles deg;
                        abs_angles = ltr_int_mul_vec abs_angles deg
                    in if ltr_int_is_vector_finite angles \<and> ltr_int_is_vector_finite displacement
                       then (Some (to_floats angles, to_floats displacement, to_floats abs_angles, to_floats abs_center), s, g)
                       else (None, s, g))) })"

subsection \<open>Properties of the order\<close>

lemma swap_if_mset: "i < length bs \<Longrightarrow> j < length bs \<Longrightarrow> mset (swap_if c i j bs) = mset bs"
  by (simp add: swap_if_def mset_swap)

lemma swap_if_length [simp]: "length (swap_if c i j bs) = length bs"
  by (simp add: swap_if_def)

lemma three: "3 \<le> length bs \<Longrightarrow> \<exists>x y z r. bs = x # y # z # r"
  by (cases bs; cases "tl bs"; cases "tl (tl bs)") auto

text \<open>Among numbers "not below" is transitive, and of two values one at most is below the other.\<close>

lemma flt_less_asym: "flt_less a b \<Longrightarrow> \<not> flt_less b a"
  by (cases a; cases b) auto

lemma not_flt_less_trans: "\<not> flt_less a b \<Longrightarrow> \<not> flt_less b c \<Longrightarrow> b \<noteq> NaN \<Longrightarrow> \<not> flt_less a c"
  by (cases a; cases b; cases c) (auto split: if_splits)

definition numbers :: "blob_type \<Rightarrow> bool" where
  "numbers b \<longleftrightarrow> bl_x b \<noteq> NaN \<and> bl_y b \<noteq> NaN"

lemma mset_first_three: "mset [a, b, c] = mset [x, y, z] \<Longrightarrow> mset (a # b # c # r) = mset (x # y # z # r)"
  by (metis append_Cons append_Nil mset_append)

lemma sort_cap_order:
  assumes "numbers x" "numbers y" "numbers z"
  shows "\<exists>a b c. sort_cap (x # y # z # r) = a # b # c # r \<and> mset [a, b, c] = mset [x, y, z] \<and>
    \<not> blob_above b a \<and> \<not> blob_above c a \<and> \<not> flt_less (bl_x c) (bl_x b)"
  using assms
  by (cases "blob_above y x"; cases "blob_above z y"; cases "blob_above z x"; cases "flt_less (bl_x z) (bl_x y)";
      cases "flt_less (bl_x z) (bl_x x)"; cases "flt_less (bl_x x) (bl_x y)"; cases "flt_less (bl_x y) (bl_x x)")
    (auto simp: sort_cap_def swap_if_def Let_def numbers_def blob_above_def eval_nat_numeral
      dest: flt_less_asym not_flt_less_trans simp del: flt_less_fin)

lemma sort_clip_order:
  assumes "numbers x" "numbers y" "numbers z"
  shows "\<exists>a b c. sort_clip (x # y # z # r) = a # b # c # r \<and> mset [a, b, c] = mset [x, y, z] \<and>
    \<not> blob_above b a \<and> \<not> blob_above c b"
  using assms
  by (cases "blob_above y x"; cases "blob_above z y"; cases "blob_above z x")
    (auto simp: sort_clip_def swap_if_def Let_def numbers_def blob_above_def eval_nat_numeral
      dest: flt_less_asym not_flt_less_trans simp del: flt_less_fin)

lemma sort_single_order:
  "\<exists>a b c. sort_single (x # y # z # r) = a # b # c # r \<and> mset [a, b, c] = mset [x, y, z] \<and>
    bl_score b \<le> bl_score a \<and> bl_score c \<le> bl_score a"
  by (auto simp: sort_single_def swap_if_def eval_nat_numeral)

text \<open>C21: Sorting for a reflector model (cap or clip) keeps every blob: with at least three valid blobs whose coordinates are
  numbers, the slots hold the same blobs afterwards, those behind the third unmoved, and the first three are in the order of the
  model's points: for the cap the topmost first, then the other two from left to right; for the clip from top to bottom.\<close>

theorem sort_gives_model_order:
  assumes "\<not> ltr_int_is_single_point s" and "3 \<le> num_blobs bl" and "3 \<le> length (blobs bl)"
    and "\<And>i. i < 3 \<Longrightarrow> numbers (blobs bl ! i)"
  shows "\<exists>bs. ltr_int_pose_sort_blobs s bl = Some (bl\<lparr>blobs := bs\<rparr>) \<and> mset bs = mset (blobs bl) \<and> drop 3 bs = drop 3 (blobs bl) \<and>
    (pose_type s = M_CAP \<longrightarrow> \<not> blob_above (bs ! 1) (bs ! 0) \<and> \<not> blob_above (bs ! 2) (bs ! 0) \<and> \<not> flt_less (bl_x (bs ! 2)) (bl_x (bs ! 1))) \<and>
    (pose_type s = M_CLIP \<longrightarrow> \<not> blob_above (bs ! 1) (bs ! 0) \<and> \<not> blob_above (bs ! 2) (bs ! 1))"
proof -
  obtain x y z r where b: "blobs bl = x # y # z # r" using three [OF assms(3)] by auto
  have n: "numbers x" "numbers y" "numbers z" using assms(4) [of 0] assms(4) [of 1] assms(4) [of 2] by (simp_all add: b)
  have v: "\<not> num_blobs bl < 3" using assms(2) by simp
  show ?thesis
  proof (cases "pose_type s = M_CAP")
    case True
    from sort_cap_order [OF n, of r] obtain a b' c where o: "sort_cap (x # y # z # r) = a # b' # c # r"
      "mset [a, b', c] = mset [x, y, z]" "\<not> blob_above b' a" "\<not> blob_above c a" "\<not> flt_less (bl_x c) (bl_x b')" by blast
    show ?thesis using o mset_first_three [OF o(2), of r] assms(1) v True
      by (intro exI [of _ "a # b' # c # r"]) (simp add: ltr_int_pose_sort_blobs_def b)
  next
    case False
    from sort_clip_order [OF n, of r] obtain a b' c where o: "sort_clip (x # y # z # r) = a # b' # c # r"
      "mset [a, b', c] = mset [x, y, z]" "\<not> blob_above b' a" "\<not> blob_above c b'" by blast
    show ?thesis using o mset_first_three [OF o(2), of r] assms(1) v False
      by (intro exI [of _ "a # b' # c # r"]) (simp add: ltr_int_pose_sort_blobs_def b)
  qed
qed

definition blob_at :: "int \<Rightarrow> int \<Rightarrow> u32 \<Rightarrow> blob_type" where
  "blob_at x y sc = \<lparr>bl_x = Fin (of_int x), bl_y = Fin (of_int y), bl_score = sc\<rparr>"

theorem sort_gives_model_order_witness:
  "\<exists>bs. ltr_int_pose_sort_blobs pose_init_state \<lparr>num_blobs = 3, expected_blobs = 3, blobs = [blob_at 5 1 4, blob_at 0 9 4, blob_at 2 3 4]\<rparr>
     = Some \<lparr>num_blobs = 3, expected_blobs = 3, blobs = bs\<rparr> \<and>
    mset bs = mset [blob_at 5 1 4, blob_at 0 9 4, blob_at 2 3 4] \<and> \<not> blob_above (bs ! 1) (bs ! 0)"
proof -
  have n: "numbers ([blob_at 5 1 4, blob_at 0 9 4, blob_at 2 3 4] ! i)" if "i < 3" for i
    using that by (cases i; cases "i - 1") (auto simp: numbers_def blob_at_def nth_Cons split: nat.splits)
  show ?thesis
    using sort_gives_model_order [of pose_init_state "\<lparr>num_blobs = 3, expected_blobs = 3, blobs = [blob_at 5 1 4, blob_at 0 9 4, blob_at 2 3 4]\<rparr>"] n
    by (auto simp: ltr_int_is_single_point_def pose_init_state_def)
qed

text \<open>With one tracked point the largest of the first three slots comes first; a frame of two blobs lets a third one, left
  in the array from an earlier frame, take part, and if it is the largest it becomes the tracked point.\<close>

lemma sort_takes_largest:
  assumes "ltr_int_is_single_point s" and "1 < num_blobs bl" and "3 \<le> length (blobs bl)"
  shows "\<exists>bs. ltr_int_pose_sort_blobs s bl = Some (bl\<lparr>blobs := bs\<rparr>) \<and> mset bs = mset (blobs bl) \<and>
    (\<forall>i < 3. bl_score (blobs bl ! i) \<le> bl_score (bs ! 0))"
proof -
  obtain x y z r where b: "blobs bl = x # y # z # r" using three [OF assms(3)] by auto
  have v: "\<not> num_blobs bl \<le> 1" using assms(2) by simp
  obtain a b' c where o: "sort_single (x # y # z # r) = a # b' # c # r" and m: "mset [a, b', c] = mset [x, y, z]"
    and le: "bl_score b' \<le> bl_score a" "bl_score c \<le> bl_score a" using sort_single_order [of x y z r] by blast
  have "set [a, b', c] = set [x, y, z]" using m by (metis set_mset_mset)
  then have "\<forall>t \<in> set [x, y, z]. bl_score t \<le> bl_score a" using le by auto
  then have "bl_score ((x # y # z # r) ! i) \<le> bl_score a" if "i < 3" for i
    using that by (auto simp: less_Suc_eq numeral_3_eq_3)
  then show ?thesis using assms(1) v o mset_first_three [OF m, of r]
    by (intro exI [of _ "a # b' # c # r"]) (simp add: ltr_int_pose_sort_blobs_def b)
qed

lemma stale_blob_is_tracked:
  assumes "ltr_int_is_single_point s" and "num_blobs bl = 2" and "blobs bl = [x, y, z]"
    and "bl_score x < bl_score z" and "bl_score y < bl_score z"
  shows "\<exists>bl'. ltr_int_pose_sort_blobs s bl = Some bl' \<and> num_blobs bl' = 2 \<and> blobs bl' ! 0 = z"
proof -
  have "\<not> (2 :: u32) \<le> 1" by (simp add: word_le_nat_alt)
  then show ?thesis using assms by (auto simp: ltr_int_pose_sort_blobs_def sort_single_def swap_if_def numeral_2_eq_2 not_less)
qed

subsection \<open>Centring\<close>

lemma fsub_self_fin: "is_fin (fsub F x x) \<Longrightarrow> fsub F x x = Fin 0"
  by (rule fsub_self) (cases x, auto simp: fsub_def split: if_splits)

lemma make_vec_self: "ltr_int_is_vector_finite (ltr_int_make_vec v v) \<Longrightarrow> ltr_int_make_vec v v = zero_vec"
  by (cases v) (auto simp: ltr_int_is_finite_def zero_vec_def dest: fsub_self_fin)

lemma to_floats_zero [simp]: "to_floats zero_vec = zero_vec"
  by (simp add: zero_vec_def)

lemma old_rotation_centred:
  assumes "old_rotation M s pts True = (Some (ang, d, c, a), s')" and "ltr_int_is_vector_finite d"
  shows "d = zero_vec"
proof -
  obtain p0 p1 p2 where "pts = (p0, p1, p2)" by (cases pts)
  with assms show ?thesis by (auto simp: old_rotation_def Let_def split: if_splits intro: make_vec_self)
qed

lemma new_rotation_centred:
  assumes "new_rotation M s pts True = (Some (ang, d, c, a), s')" and "ltr_int_is_vector_finite d"
  shows "d = zero_vec"
proof -
  obtain p0 p1 p2 where "pts = (p0, p1, p2)" by (cases pts)
  with assms show ?thesis
    by (auto simp: new_rotation_def ltr_int_center_def ltr_int_get_pose_def Let_def split: if_splits intro: make_vec_self)
qed

text \<open>Centring makes the present position the origin: whichever of the two algorithms finds the points and whichever finds
  the rotation, when \<open>ltr_int_pose_process_blobs\<close> succeeds with centring asked for, the translation it delivers is exactly
  zero, no rounding error left.\<close>

lemma centring_zeroes_translation:
  assumes "ltr_int_pose_process_blobs M db g s bl True = Some (Some (ang, d, abs_ang, abs_tr), s', g')"
  shows "d = zero_vec"
proof -
  obtain alter g1 where ua: "ltr_int_use_alter db g = (alter, g1)" by (cases "ltr_int_use_alter db g")
  define found where "found = (if alter then (case alter_pose s (blobs bl) True of (points, s) \<Rightarrow> Some (points, s, g1))
    else iter_pose db g1 s (blobs bl))"
  obtain pts s1 g2 where pts: "found = Some (pts, s1, g2)"
    using assms by (cases found) (auto simp: ltr_int_pose_process_blobs_def ua found_def [symmetric] split: if_splits)
  obtain oldrot g3 where ur: "ltr_int_use_oldrot db g2 = (oldrot, g3)" by (cases "ltr_int_use_oldrot db g2")
  define rot where "rot = (if oldrot then old_rotation else new_rotation)"
  obtain res s2 where r: "rot M s1 pts True = (res, s2)" by (cases "rot M s1 pts True")
  obtain a0 d0 c0 b0 where res: "res = Some (a0, d0, c0, b0)"
    using assms r by (cases res) (auto simp: ltr_int_pose_process_blobs_def ua found_def [symmetric] pts ur rot_def [symmetric] split: if_splits)
  have f: "ltr_int_is_vector_finite d0" and d: "d = to_floats d0"
    using assms r by (auto simp: ltr_int_pose_process_blobs_def ua found_def [symmetric] pts ur rot_def [symmetric] res Let_def split: if_splits)
  have "d0 = zero_vec"
    using r [unfolded res rot_def] by (cases oldrot) (auto dest: old_rotation_centred [OF _ f] new_rotation_centred [OF _ f])
  then show ?thesis using d by simp
qed

text \<open>An example that can be computed: a clip whose points form a triangle with sides 3, 4 and 5, seen undistorted.\<close>

lemma rnd_third: "rnd b64 (1 / 3) = Fin (6004799503160661 / 18014398509481984)"
proof -
  have "rnd b64 (1 / 3) = Fin (of_int 6004799503160661 * pow2 (- 54))"
    by (rule rnd_b64_eval) (simp_all add: pow2_def)
  then show ?thesis by (simp add: pow2_def)
qed

lemma rnd_three_thirds: "rnd b64 (18014398509481983 / 18014398509481984) = Fin 1"
proof -
  have "rnd b64 (18014398509481983 / 18014398509481984) = Fin (of_int 9007199254740992 * pow2 (- 53))"
    by (rule rnd_b64_eval) (simp_all add: pow2_def)
  then show ?thesis by (simp add: pow2_def)
qed
lemma rnd_quarter: "rnd b64 (1 / 4) = Fin (1 / 4)"
proof -
  have "rnd b64 (1 / 4) = Fin (of_int (2^52) * pow2 (- 54))"
    by (rule rnd_b64_eval) (simp_all add: pow2_def)
  then show ?thesis by (simp add: pow2_def)
qed
definition demo_pose :: pose_state where
  "demo_pose = pose_init_state\<lparr>model_point1 := (Fin 4, Fin 0, Fin 0), model_point2 := (Fin 0, Fin 3, Fin 0), pose_type := M_CLIP\<rparr>"

definition demo_libm :: libm where
  "demo_libm = \<lparr>m_sin = (\<lambda>_. Fin 0), m_cos = (\<lambda>_. Fin 1), m_asin = (\<lambda>_. Fin 0), m_atan2 = (\<lambda>_ _. Fin 0)\<rparr>"

definition demo_blobs :: bloblist_type where
  "demo_blobs = \<lparr>num_blobs = 3, expected_blobs = 3, blobs = [blob_at 0 0 1, blob_at 4 0 1, blob_at 0 3 1]\<rparr>"

lemma fsqrt_squares: "fsqrt b64 (Fin 1) = Fin 1" "fsqrt b64 (Fin 9) = Fin 3" "fsqrt b64 (Fin 16) = Fin 4" "fsqrt b64 (Fin 25) = Fin 5"
  using fsqrt_b64_square [of 1] fsqrt_b64_square [of 3] fsqrt_b64_square [of 4] fsqrt_b64_square [of 5] by (simp_all del: fsqrt.simps)

lemma demo_dist:
  "ltr_int_vec_size (ltr_int_make_vec (model_point0 demo_pose) (model_point1 demo_pose)) = Fin 4"
  "ltr_int_vec_size (ltr_int_make_vec (model_point0 demo_pose) (model_point2 demo_pose)) = Fin 3"
  "ltr_int_vec_size (ltr_int_make_vec (model_point1 demo_pose) (model_point2 demo_pose)) = Fin 5"
  by (simp_all add: demo_pose_def pose_init_state_def zero_vec_def ltr_int_vec_size_def fsub_def fmul_def signed_zero_def fsqrt_squares rnd_ints del: fsqrt.simps)

lemma demo_blob_dist:
  "blob_dist (blobs demo_blobs ! 0) (blobs demo_blobs ! 1) = Fin 4"
  "blob_dist (blobs demo_blobs ! 0) (blobs demo_blobs ! 2) = Fin 3"
  "blob_dist (blobs demo_blobs ! 1) (blobs demo_blobs ! 2) = Fin 5"
  by (simp_all add: demo_blobs_def blob_at_def blob_dist_def ltr_int_sqr_def fsub_def fmul_def signed_zero_def fsqrt_squares rnd_ints del: fsqrt.simps)


lemma fsqrt_b64_zero: "fsqrt b64 (Fin 0) = Fin 0" by simp
lemmas flt_eval = ltr_int_sqr_def fsub_def fmul_def fdiv_def flt_le_def signed_zero_def fsqrt_squares fsqrt_b64_zero rnd_ints

lemma demo_heron: "d_mul (d_mul (d_mul (d_add (d_add (Fin 4) (Fin 3)) (Fin 5)) (d_add (d_add (fneg (Fin 4)) (Fin 3)) (Fin 5)))
                     (d_add (d_sub (Fin 4) (Fin 3)) (Fin 5))) (d_sub (d_add (Fin 4) (Fin 3)) (Fin 5)) = Fin 576"
  by (simp add: flt_eval del: fsqrt.simps flt_less_fin)
lemma demo_mixed: "d_add (d_add (d_mul (ltr_int_sqr (Fin 4)) (d_add (d_add (fneg (ltr_int_sqr (Fin 4))) (ltr_int_sqr (Fin 3))) (ltr_int_sqr (Fin 5))))
    (d_mul (ltr_int_sqr (Fin 3)) (d_add (d_sub (ltr_int_sqr (Fin 4)) (ltr_int_sqr (Fin 3))) (ltr_int_sqr (Fin 5)))))
    (d_mul (ltr_int_sqr (Fin 5)) (d_sub (d_add (ltr_int_sqr (Fin 4)) (ltr_int_sqr (Fin 3))) (ltr_int_sqr (Fin 5)))) = Fin 576"
  by (simp add: flt_eval del: fsqrt.simps flt_less_fin)
lemma demo_scale: "fsqrt b64 (d_div (d_add (Fin 576) (fsqrt b64 (d_sub (ltr_int_sqr (Fin 576)) (d_mul (Fin 576) (Fin 576))))) (Fin 576)) = Fin 1"
  by (simp add: flt_eval del: fsqrt.simps flt_less_fin)

lemma demo_products: "ltr_int_sqr (Fin 4) = Fin 16" "ltr_int_sqr (Fin 3) = Fin 9" "ltr_int_sqr (Fin 5) = Fin 25" "ltr_int_sqr (Fin 1) = Fin 1" "d_mul (Fin 1) (Fin 4) = Fin 4" "d_mul (Fin 1) (Fin 3) = Fin 3"
   "d_mul model_dist (Fin 1) = Fin 1000"
  by (simp_all add: flt_eval model_dist_def del: fsqrt.simps flt_less_fin)
lemma demo_alter:
  "alter_pose demo_pose (blobs demo_blobs) True =
     (((Fin 0, Fin 0, Fin 1000), (Fin 4, Fin 0, Fin 1000), (Fin 0, Fin 3, Fin 1000)), demo_pose\<lparr>internal_focal_depth := Fin 1000\<rparr>)"
proof -
  have sg: "pose_type demo_pose = M_CLIP" by (simp add: demo_pose_def)
  have x: "bl_x (blobs demo_blobs ! 0) = Fin 0" "bl_y (blobs demo_blobs ! 0) = Fin 0" "bl_x (blobs demo_blobs ! 1) = Fin 4" "bl_y (blobs demo_blobs ! 1) = Fin 0"
    "bl_x (blobs demo_blobs ! 2) = Fin 0" "bl_y (blobs demo_blobs ! 2) = Fin 3" by (simp_all add: demo_blobs_def blob_at_def)
  show ?thesis
  unfolding alter_pose_def demo_dist demo_blob_dist sg x Let_def demo_heron demo_mixed demo_scale demo_products
  by (simp add: flt_eval model_dist_def del: fsqrt.simps flt_less_fin)
qed

definition demo_prefs :: gprefs where
  "demo_prefs = gprefs_init\<lparr>use_alter := YES, use_oldrot := YES\<rparr>"

lemma deg_fin: "is_fin (fdiv b64 (Fin 180) M_PI)"
proof -
  have "is_fin (rnd b64 (180 / (884279719003555 / 281474976710656))) \<and> \<bar>cval (rnd b64 (180 / (884279719003555 / 281474976710656)))\<bar> \<le> 64"
    using rval_grid [of 1 b64 6] pow2_of_nat [of 6] pow2_less_iff [of 6 1024] by (intro rnd_abs_le [where s = 64]) (simp_all del: pow2_less_iff)
  then show ?thesis by (simp add: fdiv_def M_PI_def)
qed

lemma demo_rot:
  "old_rotation demo_libm (demo_pose\<lparr>internal_focal_depth := Fin 1000\<rparr>)
     ((Fin 0, Fin 0, Fin 1000), (Fin 4, Fin 0, Fin 1000), (Fin 0, Fin 3, Fin 1000)) True = (Some (zero_vec, zero_vec, (Fin 0, Fin 0, Fin 1000), zero_vec), snd (old_rotation demo_libm (demo_pose\<lparr>internal_focal_depth := Fin 1000\<rparr>)
     ((Fin 0, Fin 0, Fin 1000), (Fin 4, Fin 0, Fin 1000), (Fin 0, Fin 3, Fin 1000)) True))"
proof -
  have b: "ltr_int_make_base (Fin 4, Fin 0, Fin 0) (Fin 0, Fin 3, Fin 0) = ((Fin 1, Fin 0, Fin 0), (Fin 0, Fin 1, Fin 0), (Fin 0, Fin 0, Fin 1))"
    unfolding ltr_int_make_base_def ltr_int_vec_size_def Let_def
    by (simp add: flt_eval rnd_third rnd_three_thirds rnd_quarter del: fsqrt.simps flt_less_fin)
  have v: "ltr_int_make_vec (Fin 4, Fin 0, Fin 1000) (Fin 0, Fin 0, Fin 1000) = (Fin 4, Fin 0, Fin 0)"
    "ltr_int_make_vec (Fin 0, Fin 3, Fin 1000) (Fin 0, Fin 0, Fin 1000) = (Fin 0, Fin 3, Fin 0)" by (simp_all add: flt_eval)
  have t: "ltr_int_add_vecs (Fin 0, Fin 0, Fin 1000) (ltr_int_matrix_times_vec (ltr_int_transpose_in_place
      ((Fin 1, Fin 0, Fin 0), (Fin 0, Fin 1, Fin 0), (Fin 0, Fin 0, Fin 1))) (model_ref demo_pose)) = (Fin 0, Fin 0, Fin 1000)"
    by (simp add: ltr_int_transpose_in_place_def demo_pose_def pose_init_state_def zero_vec_def flt_eval)
  have e: "ltr_int_matrix_to_euler demo_libm m = zero_vec" for m
    by (cases m) (auto simp: ltr_int_matrix_to_euler_def demo_libm_def zero_vec_def Let_def)
  show ?thesis unfolding old_rotation_def prod.case v b Let_def
    by (simp add: t e flt_eval ltr_int_assign_matrix_def ltr_int_is_finite_def zero_vec_def) 
qed
lemma demo_run: "\<exists>r s g. ltr_int_pose_process_blobs demo_libm db demo_prefs demo_pose demo_blobs True = Some (Some r, s, g)"
proof -
  have l: "length (blobs demo_blobs) = 3" by (simp add: demo_blobs_def)
  have m: "ltr_int_is_vector_finite (ltr_int_mul_vec zero_vec (d_div (Fin 180) M_PI))"
    using deg_fin by (cases "d_div (Fin 180) M_PI") (auto simp: zero_vec_def fmul_def ltr_int_is_finite_def)
  have z: "ltr_int_is_vector_finite zero_vec" by (simp add: zero_vec_def ltr_int_is_finite_def)
  have u: "ltr_int_use_alter db demo_prefs = (True, demo_prefs)" "ltr_int_use_oldrot db demo_prefs = (True, demo_prefs)"
    by (simp_all add: ltr_int_use_alter_def ltr_int_use_oldrot_def demo_prefs_def gprefs_init_def)
  obtain s where r: "old_rotation demo_libm (demo_pose\<lparr>internal_focal_depth := Fin 1000\<rparr>)
     ((Fin 0, Fin 0, Fin 1000), (Fin 4, Fin 0, Fin 1000), (Fin 0, Fin 3, Fin 1000)) True = (Some (zero_vec, zero_vec, (Fin 0, Fin 0, Fin 1000), zero_vec), s)"
    using demo_rot by blast
  show ?thesis unfolding ltr_int_pose_process_blobs_def l
    by (simp add: u demo_alter r m z Let_def del: split_paired_Ex)
qed

end
