(* ===== verification/Tracking.thy ===== *)
theory Tracking
  imports Pose Axis Ltlib
begin

text \<open>
  \<open>src/tracking.c\<close>: the pose of the current frame. \<open>ltr_int_update_pose\<close> turns a frame into \<open>current_pose\<close> in the
  process that owns the camera; \<open>ltr_int_postprocess_axes\<close> applies the axes of a profile to a pose in the process that serves
  the application. The static variables are the record \<open>tracking\<close>, which holds those of \<open>pose.c\<close> and \<open>pref_global.c\<close> too, and
  for the second function the record \<open>post_mem\<close>. What a call takes from outside is the record \<open>trk_env\<close>: the mathematics
  library, the store of preferences, and what the uninitialised variables hold (\<open>te_u\<close>, \<open>te_rm\<close>). The mutex makes the changes of
  \<open>current_pose\<close> one step. An \<open>int\<close> result is kept as it is.
\<close>

record tracking =
  trk_recenter :: bool
  init_recenter :: bool
  current_pose :: linuxtrack_full_pose_t
  tracking_initialized :: bool
  orientation :: int
  behind :: bool
  c_x :: cflt
  c_y :: cflt
  c_z :: cflt
  counter_d :: u32
  trk_pose :: pose_state
  trk_glob :: gprefs

record trk_env =
  te_libm :: libm
  te_prefs :: prefs
  te_u :: cflt
  te_rm :: reflector_model_type

definition cam_distance :: cflt where "cam_distance = Fin 1000"

definition tracking_init :: tracking where
  "tracking_init = \<lparr>trk_recenter = False, init_recenter = False, current_pose = full_pose zero_comm, tracking_initialized = False,
     orientation = 0, behind = False, c_x = Fin 0, c_y = Fin 0, c_z = Fin 0, counter_d = 0, trk_pose = pose_init_state,
     trk_glob = gprefs_init\<rparr>"

subsection \<open>Start and centring\<close>

definition ltr_int_check_pose :: "trk_env \<Rightarrow> tracking \<Rightarrow> (bool \<times> tracking) option" where
  "ltr_int_check_pose E t =
     (case ltr_int_model_changed True (trk_glob t) of (chg, g) \<Rightarrow>
        let t = t\<lparr>trk_glob := g\<rparr>
        in if \<not> chg then Some (True, t)
           else do { (ok, rm) \<leftarrow> ltr_int_get_model_setup (te_prefs E) (te_u E) (te_rm E);
                     Some (if \<not> ok then (False, t)
                           else case ltr_int_pose_init rm (trk_pose t) of (ok, s) \<Rightarrow> (ok, t\<lparr>trk_pose := s\<rparr>)) })"

definition orient :: "int \<Rightarrow> int \<Rightarrow> bool" where
  "orient o' flag \<longleftrightarrow> o' AND flag \<noteq> 0"

definition ltr_int_init_tracking :: "trk_env \<Rightarrow> tracking \<Rightarrow> (bool \<times> tracking) option" where
  "ltr_int_init_tracking E t =
     (let o' = ltr_int_get_orientation (te_prefs E);
          t = t\<lparr>orientation := o', behind := orient o' 8\<rparr>
      in do { (ok, t) \<leftarrow> ltr_int_check_pose E t;
              Some (if \<not> ok then (False, t)
                    else (True, t\<lparr>tracking_initialized := True, init_recenter := True, trk_recenter := False\<rparr>)) })"

definition ltr_int_recenter_tracking :: "tracking \<Rightarrow> int \<times> tracking" where
  "ltr_int_recenter_tracking t = (0, t\<lparr>trk_recenter := True\<rparr>)"

subsection \<open>The orientation of the camera\<close>

definition ltr_int_rotate_camera :: "int \<Rightarrow> blob_type \<Rightarrow> blob_type" where
  "ltr_int_rotate_camera cam_orientation b =
     (let (tmp_x, tmp_y) = (if orient cam_orientation 4 then (bl_y b, bl_x b) else (bl_x b, bl_y b))
      in b\<lparr>bl_x := (if orient cam_orientation 1 then fneg tmp_x else tmp_x),
           bl_y := (if orient cam_orientation 2 then fneg tmp_y else tmp_y)\<rparr>)"

definition ltr_int_remove_camera_rotation :: "int \<Rightarrow> bloblist_type \<Rightarrow> bloblist_type option" where
  "ltr_int_remove_camera_rotation o' bl =
     (let n = unat (num_blobs bl)
      in if length (blobs bl) < n then None
         else Some (bl\<lparr>blobs := map (ltr_int_rotate_camera o') (take n (blobs bl)) @ drop n (blobs bl)\<rparr>))"

subsection \<open>The pose from one point and from three\<close>

definition fcoord :: "blob_type \<Rightarrow> bool" where
  "fcoord b \<longleftrightarrow> ltr_int_is_finite (bl_x b) \<and> ltr_int_is_finite (bl_y b)"

definition score_root :: "blob_type \<Rightarrow> cflt" where
  "score_root b = fsqrt b32 (flt_of_int b32 (uint (bl_score b)))"

definition set_raw :: "vec3 \<Rightarrow> vec3 \<Rightarrow> vec3 \<Rightarrow> vec3 \<Rightarrow> tracking \<Rightarrow> tracking" where
  "set_raw ang tr abs_ang abs_tr t =
     (case to_floats ang of (a0, a1, a2) \<Rightarrow> case to_floats tr of (t0, t1, t2) \<Rightarrow>
      case abs_ang of (b0, b1, b2) \<Rightarrow> case abs_tr of (c0, c1, c2) \<Rightarrow>
        t\<lparr>current_pose := (current_pose t)
            \<lparr>fp_pose := (fp_pose (current_pose t))
               \<lparr>raw_pitch := a0, raw_yaw := a1, raw_roll := a2, raw_tx := t0, raw_ty := t1, raw_tz := t2\<rparr>,
             fp_abs_pose := (fp_abs_pose (current_pose t))
               \<lparr>abs_yaw := b1, abs_pitch := b0, abs_roll := b2, abs_tx := c0, abs_ty := c1, abs_tz := c2\<rparr>\<rparr>\<rparr>)"

definition update_pose_1pt :: "trk_env \<Rightarrow> frame_type \<Rightarrow> tracking \<Rightarrow> (int \<times> tracking) option" where
  "update_pose_1pt E fr t =
     do { (ok, t) \<leftarrow> ltr_int_check_pose E t;
          if \<not> ok \<or> num_blobs (fr_bloblist fr) = 0 then Some (- 1, t)
          else do {
            b \<leftarrow> rd (blobs (fr_bloblist fr)) 0;
            Some (if \<not> fcoord b then (- 1, t)
              else let t = (if trk_recenter t
                            then t\<lparr>c_x := bl_x b, c_y := bl_y b, c_z := s_mul cam_distance (score_root b), trk_recenter := False\<rparr>
                            else t);
                       width = flt_of_int b64 (uint (fr_width fr));
                       a0 = d_div (d_mul (s_sub (bl_y b) (c_y t)) (Fin 200)) width;
                       a1 = d_div (d_mul (s_sub (c_x t) (bl_x b)) (Fin 200)) width;
                       t2 = (if ltr_int_is_face (trk_pose t) \<and> 0 < bl_score b
                             then s_sub (s_div (c_z t) (score_root b)) cam_distance else Fin 0);
                       (a0, t2) = (if behind t then (d_mul a0 (Fin (- 1)), d_mul t2 (Fin (- 1))) else (a0, t2))
                   in (0, set_raw (a0, a1, Fin 0) (Fin 0, Fin 0, t2) zero_vec zero_vec t)) } }"

definition update_pose_3pt :: "trk_env \<Rightarrow> frame_type \<Rightarrow> tracking \<Rightarrow> (int \<times> tracking) option" where
  "update_pose_3pt E fr t =
     (let bl = fr_bloblist fr
      in if num_blobs bl < 3 then Some (- 1, t)
         else if length (blobs bl) < 3 then None
         else if \<not> (fcoord (blobs bl ! 0) \<and> fcoord (blobs bl ! 1) \<and> fcoord (blobs bl ! 2)) then Some (- 1, t)
         else do {
           (res, s, g) \<leftarrow> ltr_int_pose_process_blobs (te_libm E) (te_prefs E) (trk_glob t) (trk_pose t) bl (trk_recenter t);
           let t = t\<lparr>trk_pose := s, trk_glob := g\<rparr>;
           Some (case res of
               None \<Rightarrow> (- 1, t)
             | Some ((a0, a1, a2), (t0, t1, t2), abs_ang, abs_tr) \<Rightarrow>
                 let t = t\<lparr>trk_recenter := False\<rparr>
                 in if \<not> ltr_int_is_vector_finite (a0, a1, a2) \<or> \<not> ltr_int_is_vector_finite (t0, t1, t2) then (- 1, t)
                    else let m = (\<lambda>x. if behind t then d_mul x (Fin (- 1)) else x)
                         in (0, set_raw (m a0, a1, m a2) (m t0, t1, m t2) abs_ang abs_tr t)) })"

subsection \<open>A new frame\<close>

text \<open>The blobs are copied behind each other into \<open>blob_list\<close>, three floats each.\<close>

fun store_blobs :: "blob_type list \<Rightarrow> nat \<Rightarrow> cflt list \<Rightarrow> cflt list option" where
  "store_blobs [] i xs = Some xs"
| "store_blobs (b # bs) i xs =
     do { xs \<leftarrow> wr xs (i * BLOB_ELEMENTS) (bl_x b);
          xs \<leftarrow> wr xs (i * BLOB_ELEMENTS + 1) (bl_y b);
          xs \<leftarrow> wr xs (i * BLOB_ELEMENTS + 2) (flt_of_int b32 (uint (bl_score b)));
          store_blobs bs (i + 1) xs }"

text \<open>The result of the pose functions is kept in a \<open>bool\<close>: any error becomes 1. The frame comes back with its blobs sorted.\<close>

definition ltr_int_update_pose :: "trk_env \<Rightarrow> frame_type \<Rightarrow> tracking \<Rightarrow> (int \<times> frame_type \<times> tracking) option" where
  "ltr_int_update_pose E fr t =
     do { t \<leftarrow> (if fst (ltr_int_model_changed False (trk_glob t))
               then do { (_, t) \<leftarrow> ltr_int_check_pose E t; Some (t\<lparr>trk_recenter := True\<rparr>) }
               else Some t);
          bl \<leftarrow> ltr_int_remove_camera_rotation (orientation t) (fr_bloblist fr);
          bl \<leftarrow> ltr_int_pose_sort_blobs (trk_pose t) bl;
          let fr = fr\<lparr>fr_bloblist := bl\<rparr>;
          let n = unat (num_blobs bl);
          xs \<leftarrow> store_blobs (take n (blobs bl)) 0 (replicate (unat MAX_BLOBS * BLOB_ELEMENTS) (Fin 0));
          let cp = current_pose t;
          let t = t\<lparr>current_pose := cp\<lparr>fp_pose := (fp_pose cp)\<lparr>resolution_x := fr_width fr, resolution_y := fr_height fr\<rparr>,
                       fp_blobs := num_blobs bl, blob_list := xs\<rparr>\<rparr>;
          (res, t) \<leftarrow> (if ltr_int_is_single_point (trk_pose t) then update_pose_1pt E fr t else update_pose_3pt E fr t);
          Some (if res \<noteq> 0 then (1, fr, t)
                else let t = t\<lparr>counter_d := counter_d t + 1\<rparr>
                     in if init_recenter t
                        then (1, fr, t\<lparr>init_recenter := False, trk_recenter := True, counter_d := counter_d t - 1\<rparr>)
                        else (0, fr, t)) }"

text \<open>The caller's structure is filled, its status taken over first. The blobs that are no longer there keep their floats.\<close>

definition ltr_int_tracking_get_pose ::
  "trk_env \<Rightarrow> linuxtrack_full_pose_t \<Rightarrow> tracking \<Rightarrow> (int \<times> linuxtrack_full_pose_t \<times> tracking) option" where
  "ltr_int_tracking_get_pose E pose t =
     do { t \<leftarrow> (if \<not> tracking_initialized t then map_option snd (ltr_int_init_tracking E t) else Some t);
          let cp = current_pose t;
          let cp = cp\<lparr>fp_pose := (fp_pose cp)\<lparr>pose_status := pose_status (fp_pose pose)\<rparr>\<rparr>;
          xs \<leftarrow> copy_floats (blob_list pose) (blob_list cp) 0 (unat (fp_blobs cp) * BLOB_ELEMENTS);
          Some (0, pose\<lparr>fp_pose := (fp_pose cp)\<lparr>counter := counter_d t\<rparr>, fp_abs_pose := fp_abs_pose cp,
                        fp_blobs := fp_blobs cp, blob_list := xs\<rparr>, t\<lparr>current_pose := cp\<rparr>) }"

subsection \<open>The axes of a profile\<close>

record post_mem =
  filtered_angles :: vec3
  filtered_translations :: vec3

definition post_init :: post_mem where
  "post_init = \<lparr>filtered_angles = zero_vec, filtered_translations = zero_vec\<rparr>"

definition vals_on_axes :: "axis_t \<times> axis_t \<times> axis_t \<Rightarrow> vec3 \<Rightarrow> ltr_axes \<Rightarrow> (vec3 \<times> ltr_axes) option" where
  "vals_on_axes ids v axes = (case ids of (i0, i1, i2) \<Rightarrow> case v of (x0, x1, x2) \<Rightarrow>
     do { (y0, axes) \<leftarrow> ltr_int_val_on_axis i0 x0 axes;
          (y1, axes) \<leftarrow> ltr_int_val_on_axis i1 x1 axes;
          (y2, axes) \<leftarrow> ltr_int_val_on_axis i2 x2 axes;
          Some ((y0, y1, y2), axes) })"

definition filter_axes :: "axis_t \<times> axis_t \<times> axis_t \<Rightarrow> ltr_axes \<Rightarrow> vec3 \<Rightarrow> vec3 \<Rightarrow> (vec3 \<times> vec3) option" where
  "filter_axes ids axes x y = (case ids of (i0, i1, i2) \<Rightarrow> case x of (x0, x1, x2) \<Rightarrow> case y of (y0, y1, y2) \<Rightarrow>
     do { (r0, y0) \<leftarrow> ltr_int_filter_axis axes i0 x0 y0;
          (r1, y1) \<leftarrow> ltr_int_filter_axis axes i1 x1 y1;
          (r2, y2) \<leftarrow> ltr_int_filter_axis axes i2 x2 y2;
          Some ((r0, r1, r2), (y0, y1, y2)) })"

definition angle_arg :: "cflt \<Rightarrow> cflt" where
  "angle_arg a = d_mul (d_div a (Fin 180)) M_PI"

text \<open>The result, the axes with their curves, the pose, the unfiltered pose, and the memory of the filter.\<close>

definition ltr_int_postprocess_axes ::
  "libm \<Rightarrow> prefs \<Rightarrow> ltr_axes \<Rightarrow> linuxtrack_pose_t \<Rightarrow> linuxtrack_pose_t \<Rightarrow> post_mem \<Rightarrow> gprefs \<Rightarrow>
   (bool \<times> ltr_axes \<times> linuxtrack_pose_t \<times> linuxtrack_pose_t \<times> post_mem \<times> gprefs) option" where
  "ltr_int_postprocess_axes M p axes pose unfiltered m g =
     do { (raw_angles, axes) \<leftarrow> vals_on_axes (PITCH, YAW, ROLL) (raw_pitch pose, raw_yaw pose, raw_roll pose) axes;
          let (u0, u1, u2) = raw_angles;
          let unfiltered = unfiltered\<lparr>pitch := u0, yaw := u1, roll := u2\<rparr>;
          if \<not> ltr_int_is_vector_finite raw_angles then Some (False, axes, pose, unfiltered, m, g)
          else do {
            (angles, fa) \<leftarrow> filter_axes (PITCH, YAW, ROLL) axes (to_floats raw_angles) (filtered_angles m);
            let (a0, a1, a2) = (case angles of (r0, r1, r2) \<Rightarrow> to_floats (clamp_angle r0, clamp_angle r1, clamp_angle r2));
            let m = m\<lparr>filtered_angles := fa\<rparr>;
            let pose = pose\<lparr>pitch := a0, yaw := a1, roll := a2\<rparr>;
            (displacement, axes) \<leftarrow> vals_on_axes (TX, TY, TZ) (raw_tx pose, raw_ty pose, raw_tz pose) axes;
            let (align, g) = ltr_int_do_tr_align p g;
            let rotated = (if align
                           then ltr_int_matrix_times_vec (ltr_int_euler_to_matrix M (angle_arg a0) (angle_arg a1) (angle_arg a2)) displacement
                           else displacement);
            if align \<and> \<not> ltr_int_is_vector_finite rotated then Some (False, axes, pose, unfiltered, m, g)
            else do {
              let (d0, d1, d2) = to_floats rotated;
              let unfiltered = unfiltered\<lparr>tx := d0, ty := d1, tz := d2\<rparr>;
              (trans, ft) \<leftarrow> filter_axes (TX, TY, TZ) axes (d0, d1, d2) (filtered_translations m);
              let (t0, t1, t2) = trans;
              Some (True, axes, pose\<lparr>tx := t0, ty := t1, tz := t2\<rparr>, unfiltered, m\<lparr>filtered_translations := ft\<rparr>, g) } } }"

subsection \<open>Properties of the axes\<close>

definition mem_finite :: "post_mem \<Rightarrow> bool" where
  "mem_finite m \<longleftrightarrow> ltr_int_is_vector_finite (filtered_angles m) \<and> ltr_int_is_vector_finite (filtered_translations m)"

definition angle_ok :: "cflt \<Rightarrow> bool" where
  "angle_ok x \<longleftrightarrow> is_fin x \<and> \<bar>cval x\<bar> \<le> 180"

lemma angle_ok_clamp:
  assumes "is_fin x"
  shows "angle_ok (fcvt b32 (clamp_angle x))"
proof -
  have c: "is_fin (clamp_angle x)" "\<bar>cval (clamp_angle x)\<bar> \<le> 180" using clamp_angle_range [OF assms] by auto
  have g: "rval b32 180 = 180" using rval_grid [of 180 b32 0] pow2_of_nat [of 0] by simp
  have "(180 :: rat) < pow2 8" using pow2_of_nat [of 8] by simp
  also have "\<dots> \<le> pow2 (emax b32 + 1)" by (rule pow2_mono) simp
  finally have l: "180 < pow2 (emax b32 + 1)" .
  show ?thesis
  proof (cases "clamp_angle x")
    case (Fin r)
    then show ?thesis using c(2) rnd_abs_le [of r 180 b32 180] g l by (simp add: angle_ok_def)
  qed (use c in \<open>auto simp: angle_ok_def\<close>)
qed

lemma get_axis_some: "i \<noteq> MISC \<Longrightarrow> \<exists>a. get_axis axes i = Some a"
  by (cases i) auto

lemma vals_on_axes_total:
  assumes "i0 \<noteq> MISC" "i1 \<noteq> MISC" "i2 \<noteq> MISC"
  shows "\<exists>y0 y1 y2 axes'. vals_on_axes (i0, i1, i2) v axes = Some ((y0, y1, y2), axes')"
proof -
  have t: "\<exists>y axes'. ltr_int_val_on_axis i x axes = Some (y, axes')" if i: "i \<noteq> MISC" for i x axes
  proof -
    obtain a where "get_axis axes i = Some a" using get_axis_some [OF i] by blast
    then show ?thesis by (cases "axis_value a x") (simp add: ltr_int_val_on_axis_def)
  qed
  obtain x0 x1 x2 where v: "v = (x0, x1, x2)" by (cases v)
  obtain y0 a0 where 0: "ltr_int_val_on_axis i0 x0 axes = Some (y0, a0)" using t assms by blast
  obtain y1 a1 where 1: "ltr_int_val_on_axis i1 x1 a0 = Some (y1, a1)" using t assms by blast
  obtain y2 a2 where 2: "ltr_int_val_on_axis i2 x2 a1 = Some (y2, a2)" using t assms by blast
  show ?thesis by (simp add: vals_on_axes_def v 0 1 2)
qed

lemma filter_axis_total:
  assumes "i \<noteq> MISC" and "is_fin y"
  shows "\<exists>r y'. ltr_int_filter_axis axes i x y = Some (r, y') \<and> is_fin r \<and> is_fin y'"
proof -
  obtain a where "get_axis axes i = Some a" using get_axis_some [OF assms(1)] by blast
  then show ?thesis using assms(2) by (simp add: ltr_int_filter_axis_def Let_def nonlinfilt_finite)
qed

lemma filter_axes_total:
  assumes "i0 \<noteq> MISC" "i1 \<noteq> MISC" "i2 \<noteq> MISC" and "ltr_int_is_vector_finite y"
  shows "\<exists>r0 r1 r2 y'. filter_axes (i0, i1, i2) axes x y = Some ((r0, r1, r2), y') \<and>
    is_fin r0 \<and> is_fin r1 \<and> is_fin r2 \<and> ltr_int_is_vector_finite y'"
proof -
  obtain x0 x1 x2 where x: "x = (x0, x1, x2)" by (cases x)
  obtain y0 y1 y2 where y: "y = (y0, y1, y2)" by (cases y)
  have f: "is_fin y0" "is_fin y1" "is_fin y2" using assms(4) by (simp_all add: y ltr_int_is_finite_def)
  obtain r0 z0 where 0: "ltr_int_filter_axis axes i0 x0 y0 = Some (r0, z0)" "is_fin r0" "is_fin z0"
    using filter_axis_total [OF assms(1) f(1)] by blast
  obtain r1 z1 where 1: "ltr_int_filter_axis axes i1 x1 y1 = Some (r1, z1)" "is_fin r1" "is_fin z1"
    using filter_axis_total [OF assms(2) f(2)] by blast
  obtain r2 z2 where 2: "ltr_int_filter_axis axes i2 x2 y2 = Some (r2, z2)" "is_fin r2" "is_fin z2"
    using filter_axis_total [OF assms(3) f(3)] by blast
  show ?thesis using 0 1 2 by (simp add: filter_axes_def x y ltr_int_is_finite_def)
qed

lemma filter_angles_total:
  "ltr_int_is_vector_finite y \<Longrightarrow> \<exists>r0 r1 r2 y'. filter_axes (PITCH, YAW, ROLL) axes x y = Some ((r0, r1, r2), y') \<and>
    is_fin r0 \<and> is_fin r1 \<and> is_fin r2 \<and> ltr_int_is_vector_finite y'"
  by (rule filter_axes_total) simp_all

lemma filter_translations_total:
  "ltr_int_is_vector_finite y \<Longrightarrow> \<exists>r0 r1 r2 y'. filter_axes (TX, TY, TZ) axes x y = Some ((r0, r1, r2), y') \<and>
    is_fin r0 \<and> is_fin r1 \<and> is_fin r2 \<and> ltr_int_is_vector_finite y'"
  by (rule filter_axes_total) simp_all

lemma postprocess_result:
  assumes "mem_finite m"
  shows "\<exists>ok axes' pose' unf' m' g'. ltr_int_postprocess_axes M p axes pose unf m g = Some (ok, axes', pose', unf', m', g') \<and>
    mem_finite m' \<and>
    (ok \<longrightarrow> angle_ok (pitch pose') \<and> angle_ok (yaw pose') \<and> angle_ok (roll pose') \<and>
            is_fin (tx pose') \<and> is_fin (ty pose') \<and> is_fin (tz pose')) \<and>
    (\<not> ok \<longrightarrow> tx pose' = tx pose \<and> ty pose' = ty pose \<and> tz pose' = tz pose) \<and>
    counter pose' = counter pose \<and> pose_status pose' = pose_status pose"
proof -
  obtain u0 u1 u2 ax where u: "vals_on_axes (PITCH, YAW, ROLL) (raw_pitch pose, raw_yaw pose, raw_roll pose) axes = Some ((u0, u1, u2), ax)"
    using vals_on_axes_total by blast
  show ?thesis
  proof (cases "ltr_int_is_vector_finite (u0, u1, u2)")
    case False
    then show ?thesis using assms by (auto simp: ltr_int_postprocess_axes_def u)
  next
    case True
    have mf: "ltr_int_is_vector_finite (filtered_angles m)" "ltr_int_is_vector_finite (filtered_translations m)"
      using assms by (simp_all add: mem_finite_def)
    obtain r0 r1 r2 fa where f: "filter_axes (PITCH, YAW, ROLL) ax (to_floats (u0, u1, u2)) (filtered_angles m) = Some ((r0, r1, r2), fa)"
        "is_fin r0" "is_fin r1" "is_fin r2" "ltr_int_is_vector_finite fa"
      using filter_angles_total [OF mf(1)] by blast
    obtain d0 d1 d2 ax2 where d: "vals_on_axes (TX, TY, TZ) (raw_tx pose, raw_ty pose, raw_tz pose) ax = Some ((d0, d1, d2), ax2)"
      using vals_on_axes_total by blast
    obtain al g2 where al: "ltr_int_do_tr_align p g = (al, g2)" by (cases "ltr_int_do_tr_align p g")
    define rotated where "rotated = (if al
      then ltr_int_matrix_times_vec (ltr_int_euler_to_matrix M (angle_arg (fcvt b32 (clamp_angle r0))) (angle_arg (fcvt b32 (clamp_angle r1)))
             (angle_arg (fcvt b32 (clamp_angle r2)))) (d0, d1, d2) else (d0, d1, d2))"
    obtain e0 e1 e2 where e: "to_floats rotated = (e0, e1, e2)" by (cases "to_floats rotated")
    obtain t0 t1 t2 ft where t: "filter_axes (TX, TY, TZ) ax2 (e0, e1, e2) (filtered_translations m) = Some ((t0, t1, t2), ft)"
        "is_fin t0" "is_fin t1" "is_fin t2" "ltr_int_is_vector_finite ft"
      using filter_translations_total [OF mf(2)] by blast
    have fin: "(\<not> ltr_int_is_vector_finite (u0, u1, u2)) = False" using True by simp
    let ?p = "pose\<lparr>pitch := fcvt b32 (clamp_angle r0), yaw := fcvt b32 (clamp_angle r1), roll := fcvt b32 (clamp_angle r2)\<rparr>"
    have run: "ltr_int_postprocess_axes M p axes pose unf m g =
      (if al \<and> \<not> ltr_int_is_vector_finite rotated
       then Some (False, ax2, ?p, unf\<lparr>pitch := u0, yaw := u1, roll := u2\<rparr>, m\<lparr>filtered_angles := fa\<rparr>, g2)
       else Some (True, ax2, ?p\<lparr>tx := t0, ty := t1, tz := t2\<rparr>, unf\<lparr>pitch := u0, yaw := u1, roll := u2, tx := e0, ty := e1, tz := e2\<rparr>,
         m\<lparr>filtered_angles := fa, filtered_translations := ft\<rparr>, g2))"
    proof (cases al)
      case True
      then show ?thesis using d t(1) f(1) fin e by (simp add: ltr_int_postprocess_axes_def u al rotated_def)
    next
      case False
      then show ?thesis using d t(1) f(1) fin e by (auto simp add: ltr_int_postprocess_axes_def u al rotated_def)
    qed
    show ?thesis using f t mf angle_ok_clamp [OF f(2)] angle_ok_clamp [OF f(3)] angle_ok_clamp [OF f(4)]
      by (cases "al \<and> \<not> ltr_int_is_vector_finite rotated") (auto simp: run mem_finite_def)
  qed
qed

text \<open>C23: Whatever the raw pose and the parameters of the axes are, numbers or not, \<open>ltr_int_postprocess_axes\<close> has a result,
  its filters remember finite values only, and a pose it passes as good has three finite angles of at most 180 degrees and a
  finite translation; when it fails the translation is the one the pose came with.\<close>

theorem postprocess_in_range:
  assumes "mem_finite m"
  shows "\<exists>ok axes' pose' unf' m' g'. ltr_int_postprocess_axes M p axes pose unf m g = Some (ok, axes', pose', unf', m', g') \<and>
    mem_finite m' \<and>
    (ok \<longrightarrow> angle_ok (pitch pose') \<and> angle_ok (yaw pose') \<and> angle_ok (roll pose') \<and>
            is_fin (tx pose') \<and> is_fin (ty pose') \<and> is_fin (tz pose')) \<and>
    (\<not> ok \<longrightarrow> tx pose' = tx pose \<and> ty pose' = ty pose \<and> tz pose' = tz pose)"
  using postprocess_result [OF assms, of M p axes pose unf g] by blast

theorem postprocess_in_range_witness:
  "\<exists>ok axes' pose' unf' m' g'. ltr_int_postprocess_axes demo_libm prefs_empty (demo_axes (demo_axis (Fin 0) (Fin (1 / 2)) (Fin 1)))
     (zero_pose\<lparr>raw_pitch := NaN\<rparr>) zero_pose post_init gprefs_init = Some (ok, axes', pose', unf', m', g') \<and> mem_finite m'"
proof -
  have "mem_finite post_init" by (simp add: mem_finite_def post_init_def zero_vec_def ltr_int_is_finite_def)
  from postprocess_in_range [OF this] show ?thesis by blast
qed

subsection \<open>Properties of the frames\<close>

lemma store_blobs_from:
  "length pre = i * BLOB_ELEMENTS \<Longrightarrow> length rest = k * BLOB_ELEMENTS \<Longrightarrow>
   store_blobs bs i (pre @ rest) =
    (if length bs \<le> k then Some (pre @ concat (map (\<lambda>b. [bl_x b, bl_y b, flt_of_int b32 (uint (bl_score b))]) bs) @ drop (length bs * BLOB_ELEMENTS) rest)
     else None)"
proof (induction bs arbitrary: i k pre rest)
  case Nil
  then show ?case by simp
next
  case (Cons b bs)
  show ?case
  proof (cases k)
    case 0
    then show ?thesis using Cons.prems by (simp add: BLOB_ELEMENTS_def)
  next
    case (Suc k')
    then obtain u v w r where "rest = u # v # w # r"
      using Cons.prems(2) three [of rest] by (auto simp: BLOB_ELEMENTS_def)
    then have r: "rest = u # v # w # r" "length r = k' * BLOB_ELEMENTS"
      using Cons.prems(2) by (simp_all add: BLOB_ELEMENTS_def Suc)
    let ?t = "[bl_x b, bl_y b, flt_of_int b32 (uint (bl_score b))]"
    have "store_blobs (b # bs) i (pre @ rest) = store_blobs bs (i + 1) ((pre @ ?t) @ r)"
      using Cons.prems(1) by (simp add: r(1) wr_def BLOB_ELEMENTS_def list_update_append)
    also have "\<dots> = (if length bs \<le> k' then Some ((pre @ ?t) @ concat (map (\<lambda>b. [bl_x b, bl_y b, flt_of_int b32 (uint (bl_score b))]) bs)
        @ drop (length bs * BLOB_ELEMENTS) r) else None)"
      by (rule Cons.IH) (use Cons.prems(1) r(2) in \<open>simp_all add: BLOB_ELEMENTS_def\<close>)
    finally have e: "store_blobs (b # bs) i (pre @ rest) = \<dots>" .
    have "drop (length (b # bs) * BLOB_ELEMENTS) rest = drop (length bs * BLOB_ELEMENTS) r"
      by (simp add: r(1) BLOB_ELEMENTS_def numeral_3_eq_3)
    then show ?thesis by (simp only: e Suc) simp
  qed
qed

definition blob_floats :: "blob_type list \<Rightarrow> cflt list" where
  "blob_floats bs = concat (map (\<lambda>b. [bl_x b, bl_y b, flt_of_int b32 (uint (bl_score b))]) bs)"

lemma store_blobs_all:
  "store_blobs bs 0 (replicate (unat MAX_BLOBS * BLOB_ELEMENTS) (Fin 0)) =
    (if length bs \<le> unat MAX_BLOBS
     then Some (blob_floats bs @ replicate ((unat MAX_BLOBS - length bs) * BLOB_ELEMENTS) (Fin 0)) else None)"
  using store_blobs_from [of "[]" 0 "replicate (unat MAX_BLOBS * BLOB_ELEMENTS) (Fin 0)" "unat MAX_BLOBS" bs]
  by (simp add: blob_floats_def diff_mult_distrib)

lemma length_blob_floats: "length (blob_floats bs) = length bs * BLOB_ELEMENTS"
  by (induction bs) (simp_all add: blob_floats_def BLOB_ELEMENTS_def)

text \<open>A frame the tracking of one point accepts: slots for its blobs (three are looked at), coordinates that are numbers, a width.\<close>

definition good_frame :: "frame_type \<Rightarrow> bool" where
  "good_frame fr \<longleftrightarrow> 0 < num_blobs (fr_bloblist fr) \<and> num_blobs (fr_bloblist fr) \<le> MAX_BLOBS \<and>
     3 \<le> length (blobs (fr_bloblist fr)) \<and> unat (num_blobs (fr_bloblist fr)) \<le> length (blobs (fr_bloblist fr)) \<and>
     (\<forall>b \<in> set (blobs (fr_bloblist fr)). fcoord b) \<and> 0 < fr_width fr"

lemma fcoord_rotate [simp]: "fcoord (ltr_int_rotate_camera o' b) = fcoord b"
  by (auto simp: fcoord_def ltr_int_rotate_camera_def ltr_int_is_finite_def split: prod.splits)

lemma rotation_ok:
  assumes "unat (num_blobs bl) \<le> length (blobs bl)"
  shows "\<exists>bs. ltr_int_remove_camera_rotation o' bl = Some (bl\<lparr>blobs := bs\<rparr>) \<and> length bs = length (blobs bl) \<and>
    ((\<forall>b \<in> set (blobs bl). fcoord b) \<longrightarrow> (\<forall>b \<in> set bs. fcoord b))"
proof (rule exI, intro conjI)
  let ?n = "unat (num_blobs bl)"
  let ?bs = "map (ltr_int_rotate_camera o') (take ?n (blobs bl)) @ drop ?n (blobs bl)"
  show "ltr_int_remove_camera_rotation o' bl = Some (bl\<lparr>blobs := ?bs\<rparr>)"
    using assms by (simp add: ltr_int_remove_camera_rotation_def Let_def)
  show "length ?bs = length (blobs bl)" using assms by simp
  show "(\<forall>b \<in> set (blobs bl). fcoord b) \<longrightarrow> (\<forall>b \<in> set ?bs. fcoord b)"
    by (auto dest: in_set_takeD in_set_dropD)
qed

lemma sort_ok:
  assumes "3 \<le> length (blobs bl)"
  shows "\<exists>bs. ltr_int_pose_sort_blobs s bl = Some (bl\<lparr>blobs := bs\<rparr>) \<and> mset bs = mset (blobs bl)"
proof -
  obtain x y z r where "blobs bl = x # y # z # r" using three [OF assms] by auto
  then have c: "mset (sort_cap (blobs bl)) = mset (blobs bl)" "mset (sort_clip (blobs bl)) = mset (blobs bl)"
    "mset (sort_single (blobs bl)) = mset (blobs bl)"
    by (simp_all only: sort_cap_def sort_clip_def sort_single_def Let_def) (simp_all add: swap_if_mset)
  have same: "\<exists>bs. Some bl = Some (bl\<lparr>blobs := bs\<rparr>) \<and> mset bs = mset (blobs bl)"
    by (rule exI [of _ "blobs bl"]) simp
  have put: "mset ys = mset (blobs bl) \<Longrightarrow> \<exists>bs. Some (bl\<lparr>blobs := ys\<rparr>) = Some (bl\<lparr>blobs := bs\<rparr>) \<and> mset bs = mset (blobs bl)" for ys
    by blast
  have l: "\<not> length (blobs bl) < 3" using assms by simp
  show ?thesis using same put [OF c(1)] put [OF c(2)] put [OF c(3)]
    by (simp only: ltr_int_pose_sort_blobs_def l if_False simp_thms split: if_split)
qed

definition fzero :: "cflt \<Rightarrow> bool" where
  "fzero x \<longleftrightarrow> is_fin x \<and> cval x = 0"

lemma fzero_cases: "fzero x \<longleftrightarrow> x = Fin 0 \<or> x = NegZero"
  by (cases x) (auto simp: fzero_def)

lemma fzero_ops:
  "fzero x \<Longrightarrow> is_fin y \<Longrightarrow> fzero (fmul F x y)" "fzero x \<Longrightarrow> is_fin y \<Longrightarrow> cval y \<noteq> 0 \<Longrightarrow> fzero (fdiv F x y)"
  "fzero x \<Longrightarrow> fzero (fcvt F x)"
  by (auto simp: fzero_cases fmul_def fdiv_def signed_zero_def Let_def)

lemma width_positive:
  assumes "0 < (w :: u32)"
  shows "is_fin (flt_of_int b64 (uint w))" "cval (flt_of_int b64 (uint w)) \<noteq> 0"
proof -
  have "uint w < 2 ^ 32" using uint_lt2p [of w] by simp
  then have "flt_of_int b64 (uint w) = Fin (of_int (uint w))" by (intro flt_of_int_b64) simp
  moreover have "uint w \<noteq> 0" using assms by (auto simp: uint_0_iff)
  then have "(of_int (uint w) :: rat) \<noteq> 0" by (simp only: of_int_eq_0_iff not_False_eq_True)
  ultimately show "is_fin (flt_of_int b64 (uint w))" "cval (flt_of_int b64 (uint w)) \<noteq> 0" by simp_all
qed

lemma check_pose_unchanged: "\<not> model_changed (trk_glob t) \<Longrightarrow> ltr_int_check_pose E t = Some (True, t)"
  by (cases "trk_glob t") (simp add: ltr_int_check_pose_def ltr_int_model_changed_def)

lemma check_pose_clears:
  assumes "ltr_int_check_pose E t = Some (ok, t')"
  shows "\<not> model_changed (trk_glob t')"
proof (cases "model_changed (trk_glob t)")
  case True
  obtain k rm where "ltr_int_get_model_setup (te_prefs E) (te_u E) (te_rm E) = Some (k, rm)"
    using assms True by (auto simp: ltr_int_check_pose_def ltr_int_model_changed_def bind_eq_Some_conv Let_def)
  then show ?thesis using assms True
    by (cases "ltr_int_pose_init rm (trk_pose t)") (auto simp: ltr_int_check_pose_def ltr_int_model_changed_def Let_def split: if_splits)
qed (use assms in \<open>simp add: check_pose_unchanged\<close>)

lemma init_clears:
  assumes "ltr_int_init_tracking E t = Some (ok, t')"
  shows "\<not> model_changed (trk_glob t') \<and> (ok \<longrightarrow> init_recenter t')"
  using assms check_pose_clears by (fastforce simp: ltr_int_init_tracking_def Let_def bind_eq_Some_conv split: if_splits)

text \<open>What the frames of one point leave as it is.\<close>

definition same_model :: "tracking \<Rightarrow> tracking \<Rightarrow> bool" where
  "same_model t t' \<longleftrightarrow> trk_pose t' = trk_pose t \<and> trk_glob t' = trk_glob t \<and> orientation t' = orientation t \<and>
     tracking_initialized t' = tracking_initialized t \<and> fp_blobs (current_pose t') = fp_blobs (current_pose t) \<and> blob_list (current_pose t') = blob_list (current_pose t)"

definition centred :: "tracking \<Rightarrow> bool" where
  "centred t \<longleftrightarrow> fzero (raw_pitch (fp_pose (current_pose t))) \<and> fzero (raw_yaw (fp_pose (current_pose t)))"

lemma set_raw_simps [simp]:
  "trk_recenter (set_raw a b c d t) = trk_recenter t" "init_recenter (set_raw a b c d t) = init_recenter t"
  "counter_d (set_raw a b c d t) = counter_d t" "same_model u (set_raw a b c d t) = same_model u t"
  by (cases a; cases b; cases c; cases d; simp add: set_raw_def same_model_def)+

lemma centred_set_raw: "centred (set_raw (a0, a1, a2) b c d t) \<longleftrightarrow> fzero (fcvt b32 a0) \<and> fzero (fcvt b32 a1)"
  by (cases b; cases c; cases d; simp add: set_raw_def centred_def)

definition at_origin :: "tracking \<Rightarrow> bool" where
  "at_origin t \<longleftrightarrow> fzero (raw_tx (fp_pose (current_pose t))) \<and> fzero (raw_ty (fp_pose (current_pose t))) \<and> fzero (raw_tz (fp_pose (current_pose t)))"

definition on_axis :: "tracking \<Rightarrow> bool" where
  "on_axis t \<longleftrightarrow> fzero (raw_tx (fp_pose (current_pose t))) \<and> fzero (raw_ty (fp_pose (current_pose t)))"

lemma at_origin_set_raw: "at_origin (set_raw a (b0, b1, b2) c d t) \<longleftrightarrow> fzero (fcvt b32 b0) \<and> fzero (fcvt b32 b1) \<and> fzero (fcvt b32 b2)"
  by (cases a; cases c; cases d; simp add: set_raw_def at_origin_def)

lemma on_axis_set_raw: "on_axis (set_raw a (b0, b1, b2) c d t) \<longleftrightarrow> fzero (fcvt b32 b0) \<and> fzero (fcvt b32 b1)"
  by (cases a; cases c; cases d; simp add: set_raw_def on_axis_def)

lemma update_1pt_good:
  assumes "\<not> model_changed (trk_glob t)" and "num_blobs (fr_bloblist fr) \<noteq> 0" and "rd (blobs (fr_bloblist fr)) 0 = Some b"
    and "fcoord b" and "0 < fr_width fr"
  shows "\<exists>t'. update_pose_1pt E fr t = Some (0, t') \<and> same_model t t' \<and> \<not> trk_recenter t' \<and> init_recenter t' = init_recenter t \<and>
    counter_d t' = counter_d t \<and> (trk_recenter t \<longrightarrow> centred t') \<and> on_axis t' \<and> (\<not> ltr_int_is_face (trk_pose t) \<longrightarrow> at_origin t')"
proof -
  define t1 where "t1 = (if trk_recenter t
    then t\<lparr>c_x := bl_x b, c_y := bl_y b, c_z := s_mul cam_distance (score_root b), trk_recenter := False\<rparr> else t)"
  define width where "width = flt_of_int b64 (uint (fr_width fr))"
  define a0 where "a0 = d_div (d_mul (s_sub (bl_y b) (c_y t1)) (Fin 200)) width"
  define a1 where "a1 = d_div (d_mul (s_sub (c_x t1) (bl_x b)) (Fin 200)) width"
  define t2 where "t2 = (if ltr_int_is_face (trk_pose t1) \<and> 0 < bl_score b
    then s_sub (s_div (c_z t1) (score_root b)) cam_distance else Fin 0)"
  define r where "r = (if behind t1 then (d_mul a0 (Fin (- 1)), d_mul t2 (Fin (- 1))) else (a0, t2))"
  have run: "update_pose_1pt E fr t = Some (0, set_raw (fst r, a1, Fin 0) (Fin 0, Fin 0, snd r) zero_vec zero_vec t1)"
    using assms by (simp add: update_pose_1pt_def check_pose_unchanged t1_def [symmetric] width_def [symmetric] a0_def [symmetric]
      a1_def [symmetric] t2_def r_def Let_def)
  have z: "fzero a0 \<and> fzero a1" if "trk_recenter t"
  proof -
    have "is_fin (bl_x b)" "is_fin (bl_y b)" using assms(4) by (simp_all add: fcoord_def ltr_int_is_finite_def)
    then have "s_sub (bl_y b) (c_y t1) = Fin 0" "s_sub (c_x t1) (bl_x b) = Fin 0" using that by (simp_all add: t1_def fsub_self)
    moreover have "fzero (Fin 0)" by (simp add: fzero_def)
    ultimately show ?thesis using width_positive [OF assms(5)]
      by (simp add: a0_def a1_def width_def [symmetric] fzero_ops)
  qed
  have "trk_recenter t \<longrightarrow> fzero (fcvt b32 (fst r)) \<and> fzero (fcvt b32 a1)"
    using z by (auto simp: r_def fzero_ops)
  moreover have "same_model t t1" "\<not> trk_recenter t1" "init_recenter t1 = init_recenter t" "counter_d t1 = counter_d t"
    by (simp_all add: t1_def same_model_def)
  moreover have "fzero (fcvt b32 (Fin 0))" "trk_pose t1 = trk_pose t" by (simp_all add: fzero_ops t1_def) (simp add: fzero_def)?
  moreover have "\<not> ltr_int_is_face (trk_pose t) \<Longrightarrow> fzero (fcvt b32 (snd r))"
    by (auto simp: r_def t2_def t1_def fzero_ops fzero_def fmul_def signed_zero_def)
  ultimately show ?thesis by (simp add: run centred_set_raw on_axis_set_raw at_origin_set_raw)
qed

text \<open>The steps of \<open>ltr_int_update_pose\<close> before the pose is computed, for a frame that has room for its blobs.\<close>

definition prepared :: "frame_type \<Rightarrow> tracking \<Rightarrow> bloblist_type \<Rightarrow> tracking" where
  "prepared fr t bl =
     t\<lparr>current_pose := (current_pose t)\<lparr>fp_pose := (fp_pose (current_pose t))\<lparr>resolution_x := fr_width fr, resolution_y := fr_height fr\<rparr>,
       fp_blobs := num_blobs bl,
       blob_list := blob_floats (take (unat (num_blobs bl)) (blobs bl)) @
         replicate ((unat MAX_BLOBS - unat (num_blobs bl)) * BLOB_ELEMENTS) (Fin 0)\<rparr>\<rparr>"

definition count_frame :: "int \<times> tracking \<Rightarrow> int \<times> tracking" where
  "count_frame r = (case r of (res, t) \<Rightarrow>
     if res \<noteq> 0 then (1, t)
     else if init_recenter t then (1, t\<lparr>init_recenter := False, trk_recenter := True\<rparr>)
     else (0, t\<lparr>counter_d := counter_d t + 1\<rparr>))"

lemma update_pose_steps:
  assumes "\<not> model_changed (trk_glob t)" and "num_blobs (fr_bloblist fr) \<le> MAX_BLOBS" and "3 \<le> length (blobs (fr_bloblist fr))"
    and "unat (num_blobs (fr_bloblist fr)) \<le> length (blobs (fr_bloblist fr))"
  shows "\<exists>bs. length bs = length (blobs (fr_bloblist fr)) \<and>
    ((\<forall>b \<in> set (blobs (fr_bloblist fr)). fcoord b) \<longrightarrow> (\<forall>b \<in> set bs. fcoord b)) \<and>
    (let bl = (fr_bloblist fr)\<lparr>blobs := bs\<rparr>; fr' = fr\<lparr>fr_bloblist := bl\<rparr>; t1 = prepared fr t bl
     in ltr_int_update_pose E fr t =
        map_option (\<lambda>r. case count_frame r of (res, t') \<Rightarrow> (res, fr', t'))
          (if ltr_int_is_single_point (trk_pose t) then update_pose_1pt E fr' t1 else update_pose_3pt E fr' t1))"
proof -
  let ?bl = "fr_bloblist fr"
  obtain bs1 where r: "ltr_int_remove_camera_rotation (orientation t) ?bl = Some (?bl\<lparr>blobs := bs1\<rparr>)" "length bs1 = length (blobs ?bl)"
      "(\<forall>b \<in> set (blobs ?bl). fcoord b) \<longrightarrow> (\<forall>b \<in> set bs1. fcoord b)"
    using rotation_ok [OF assms(4)] by blast
  have "3 \<le> length (blobs (?bl\<lparr>blobs := bs1\<rparr>))" using assms(3) r(2) by simp
  from sort_ok [OF this, of "trk_pose t"] obtain bs where
    o: "ltr_int_pose_sort_blobs (trk_pose t) (?bl\<lparr>blobs := bs1\<rparr>) = Some (?bl\<lparr>blobs := bs\<rparr>)" and m: "mset bs = mset bs1" by auto
  have l: "length bs = length (blobs ?bl)" using m r(2) by (metis mset_eq_length)
  have f: "set bs = set bs1" using m by (metis set_mset_mset)
  have n: "length (take (unat (num_blobs ?bl)) bs) = unat (num_blobs ?bl)" using l assms(4) by simp
  have k: "unat (num_blobs ?bl) \<le> unat MAX_BLOBS" using assms(2) by (simp add: word_le_nat_alt)
  have st: "store_blobs (take (unat (num_blobs ?bl)) bs) 0 (replicate (unat MAX_BLOBS * BLOB_ELEMENTS) (Fin 0)) =
      Some (blob_floats (take (unat (num_blobs ?bl)) bs) @ replicate ((unat MAX_BLOBS - unat (num_blobs ?bl)) * BLOB_ELEMENTS) (Fin 0))"
    using store_blobs_all [of "take (unat (num_blobs ?bl)) bs"] k by (simp add: n del: length_take)
  define t1 where "t1 = prepared fr t (?bl\<lparr>blobs := bs\<rparr>)"
  have p: "trk_pose t1 = trk_pose t" by (simp add: t1_def prepared_def)
  let ?fr = "fr\<lparr>fr_bloblist := ?bl\<lparr>blobs := bs\<rparr>\<rparr>"
  define X where "X = (if ltr_int_is_single_point (trk_pose t) then update_pose_1pt E ?fr t1 else update_pose_3pt E ?fr t1)"
  have same: "(m \<bind> (\<lambda>(res, t). Some (if res \<noteq> 0 then (1, ?fr, t)
        else let t = t\<lparr>counter_d := counter_d t + 1\<rparr>
             in if init_recenter t then (1, ?fr, t\<lparr>init_recenter := False, trk_recenter := True, counter_d := counter_d t - 1\<rparr>)
                else (0, ?fr, t)))) = map_option (\<lambda>r. case count_frame r of (res, t') \<Rightarrow> (res, ?fr, t')) m" for m
    by (cases m) (auto simp: count_frame_def Let_def)
  have "ltr_int_update_pose E fr t = map_option (\<lambda>r. case count_frame r of (res, t') \<Rightarrow> (res, ?fr, t')) X"
    using assms(1) unfolding X_def same [symmetric]
    by (simp add: ltr_int_update_pose_def ltr_int_model_changed_def r(1) o st t1_def prepared_def Let_def)
  then have "ltr_int_update_pose E fr t = map_option (\<lambda>r. case count_frame r of (res, t') \<Rightarrow> (res, ?fr, t'))
    (if ltr_int_is_single_point (trk_pose t) then update_pose_1pt E ?fr t1 else update_pose_3pt E ?fr t1)"
    by (simp only: X_def)
  then show ?thesis using l f r(3) by (intro exI [of _ bs]) (simp add: t1_def Let_def)
qed

lemma update_pose_single:
  assumes "\<not> model_changed (trk_glob t)" and "ltr_int_is_single_point (trk_pose t)" and "good_frame fr"
  shows "\<exists>fr' t'. ltr_int_update_pose E fr t = Some (if init_recenter t then 1 else 0, fr', t') \<and>
    trk_pose t' = trk_pose t \<and> trk_glob t' = trk_glob t \<and> \<not> init_recenter t' \<and> trk_recenter t' = init_recenter t \<and>
    counter_d t' = counter_d t + (if init_recenter t then 0 else 1) \<and> (trk_recenter t \<longrightarrow> centred t')"
proof -
  have g: "num_blobs (fr_bloblist fr) \<noteq> 0" "num_blobs (fr_bloblist fr) \<le> MAX_BLOBS" "3 \<le> length (blobs (fr_bloblist fr))"
    "unat (num_blobs (fr_bloblist fr)) \<le> length (blobs (fr_bloblist fr))" "\<forall>b \<in> set (blobs (fr_bloblist fr)). fcoord b" "0 < fr_width fr"
    using assms(3) by (auto simp: good_frame_def)
  obtain bs where l: "length bs = length (blobs (fr_bloblist fr))" and f: "\<forall>b \<in> set bs. fcoord b"
    and u: "ltr_int_update_pose E fr t = map_option (\<lambda>r. case count_frame r of (res, t') \<Rightarrow> (res, fr\<lparr>fr_bloblist := (fr_bloblist fr)\<lparr>blobs := bs\<rparr>\<rparr>, t'))
      (update_pose_1pt E (fr\<lparr>fr_bloblist := (fr_bloblist fr)\<lparr>blobs := bs\<rparr>\<rparr>) (prepared fr t ((fr_bloblist fr)\<lparr>blobs := bs\<rparr>)))"
    using update_pose_steps [OF assms(1) g(2-4), of E] g(5) assms(2) by (auto simp: Let_def)
  let ?fr = "fr\<lparr>fr_bloblist := (fr_bloblist fr)\<lparr>blobs := bs\<rparr>\<rparr>" and ?t1 = "prepared fr t ((fr_bloblist fr)\<lparr>blobs := bs\<rparr>)"
  have "bs \<noteq> []" using l g(3) by auto
  then have b: "rd (blobs (fr_bloblist ?fr)) 0 = Some (bs ! 0)" "fcoord (bs ! 0)" using f by (simp_all add: rd_def)
  have t1: "trk_pose ?t1 = trk_pose t" "trk_glob ?t1 = trk_glob t" "trk_recenter ?t1 = trk_recenter t"
    "init_recenter ?t1 = init_recenter t" "counter_d ?t1 = counter_d t" by (simp_all add: prepared_def)
  obtain t' where "update_pose_1pt E ?fr ?t1 = Some (0, t')" and "same_model ?t1 t'" and "\<not> trk_recenter t'"
    and "init_recenter t' = init_recenter ?t1" and "counter_d t' = counter_d ?t1" and "trk_recenter ?t1 \<longrightarrow> centred t'"
    using update_1pt_good [of ?t1 ?fr "bs ! 0" E] assms(1) g(1,6) b t1 by auto
  then show ?thesis using u t1 by (auto simp: count_frame_def same_model_def centred_def)
qed

text \<open>Tracking starts centred (models of one point): after \<open>ltr_int_init_tracking\<close> has succeeded the first frame that can be
  used is not counted and its pose not reported as valid; the frame after it is the first one, and its position is the origin:
  pitch and yaw are zero.\<close>

theorem tracking_starts_centred:
  assumes "ltr_int_init_tracking E t0 = Some (True, t)" and "ltr_int_is_single_point (trk_pose t)"
    and "good_frame fr1" and "good_frame fr2"
  shows "\<exists>fr1' t1 fr2' t2. ltr_int_update_pose E fr1 t = Some (1, fr1', t1) \<and> counter_d t1 = counter_d t \<and>
    ltr_int_update_pose E fr2 t1 = Some (0, fr2', t2) \<and> counter_d t2 = counter_d t + 1 \<and> centred t2 \<and> \<not> trk_recenter t2"
proof -
  have m: "\<not> model_changed (trk_glob t)" "init_recenter t" using init_clears [OF assms(1)] by simp_all
  from update_pose_single [OF m(1) assms(2,3), of E] obtain fr1' t1 where
    1: "ltr_int_update_pose E fr1 t = Some (1, fr1', t1)" "trk_pose t1 = trk_pose t" "trk_glob t1 = trk_glob t"
       "\<not> init_recenter t1" "trk_recenter t1" "counter_d t1 = counter_d t"
    using m(2) by auto
  have "\<not> model_changed (trk_glob t1)" "ltr_int_is_single_point (trk_pose t1)" using m(1) assms(2) 1 by simp_all
  from update_pose_single [OF this assms(4), of E] obtain fr2' t2 where
    2: "ltr_int_update_pose E fr2 t1 = Some (0, fr2', t2)" "\<not> trk_recenter t2" "counter_d t2 = counter_d t1 + 1" "centred t2"
    using 1 by auto
  show ?thesis using 1 2 by auto
qed

text \<open>A model that cannot be set up is reported once only. \<open>ltr_int_check_pose\<close> clears the flag of a changed model before it
  reads the model, so after a failure the next \<open>ltr_int_init_tracking\<close> reports success, whatever the preferences are by then,
  with the pose computation in the state the failed attempt has left.\<close>

theorem failed_setup_forgotten:
  assumes "ltr_int_init_tracking E t = Some (False, t')"
  shows "\<exists>t''. ltr_int_init_tracking E' t' = Some (True, t'') \<and> trk_pose t'' = trk_pose t' \<and> tracking_initialized t''"
proof -
  have "\<not> model_changed (trk_glob t')" using init_clears [OF assms] by simp
  then show ?thesis by (simp add: ltr_int_init_tracking_def check_pose_unchanged Let_def)
qed

lemma update_1pt_accepts:
  assumes "update_pose_1pt E fr t = Some (0, t')" and "\<not> model_changed (trk_glob t)"
  shows "\<exists>b. num_blobs (fr_bloblist fr) \<noteq> 0 \<and> rd (blobs (fr_bloblist fr)) 0 = Some b \<and> fcoord b"
  using assms by (auto simp: update_pose_1pt_def check_pose_unchanged bind_eq_Some_conv Let_def split: if_splits)

text \<open>What the frames of three points leave as it is.\<close>

definition same_frame :: "tracking \<Rightarrow> tracking \<Rightarrow> bool" where
  "same_frame t t' \<longleftrightarrow> fp_blobs (current_pose t') = fp_blobs (current_pose t) \<and> blob_list (current_pose t') = blob_list (current_pose t) \<and>
     counter_d t' = counter_d t \<and> init_recenter t' = init_recenter t \<and> tracking_initialized t' = tracking_initialized t"

lemma same_frame_set_raw [simp]: "same_frame u (set_raw a b c d t) = same_frame u t"
  by (cases a; cases b; cases c; cases d; simp add: set_raw_def same_frame_def)

lemma update_3pt_cases:
  assumes "update_pose_3pt E fr t = Some (r, t')"
  obtains "r = - 1" "same_frame t t'"
  | a d aa ad s g where "r = 0"
      "ltr_int_pose_process_blobs (te_libm E) (te_prefs E) (trk_glob t) (trk_pose t) (fr_bloblist fr) (trk_recenter t) = Some (Some (a, d, aa, ad), s, g)"
      "same_frame t t'" "\<not> trk_recenter t'" "d = zero_vec \<Longrightarrow> at_origin t'"
proof (cases "\<not> num_blobs (fr_bloblist fr) < 3 \<and> fcoord (blobs (fr_bloblist fr) ! 0) \<and> fcoord (blobs (fr_bloblist fr) ! 1) \<and>
    fcoord (blobs (fr_bloblist fr) ! 2)")
  case False
  then have "r = - 1" "t' = t" using assms by (auto simp: update_pose_3pt_def Let_def split: if_splits)
  then show ?thesis using that(1) by (simp add: same_frame_def)
next
  case True
  then have l: "\<not> length (blobs (fr_bloblist fr)) < 3" using assms by (auto simp: update_pose_3pt_def Let_def)
  obtain res s g where p: "ltr_int_pose_process_blobs (te_libm E) (te_prefs E) (trk_glob t) (trk_pose t) (fr_bloblist fr) (trk_recenter t) = Some (res, s, g)"
    using assms True l by (auto simp: update_pose_3pt_def Let_def bind_eq_Some_conv)
  show ?thesis
  proof (cases res)
    case None
    then have "r = - 1" "t' = t\<lparr>trk_pose := s, trk_glob := g\<rparr>"
      using assms True l p by (auto simp: update_pose_3pt_def)
    then show ?thesis using that(1) by (simp add: same_frame_def)
  next
    case (Some v)
    obtain a0 a1 a2 t0 t1 t2 aa ad where v: "v = ((a0, a1, a2), (t0, t1, t2), aa, ad)" by (cases v) auto
    define u where "u = t\<lparr>trk_pose := s, trk_glob := g, trk_recenter := False\<rparr>"
    define m where "m = (\<lambda>x. if behind t then d_mul x (Fin (- 1)) else x)"
    have run: "(r, t') = (if \<not> ltr_int_is_vector_finite (a0, a1, a2) \<or> \<not> ltr_int_is_vector_finite (t0, t1, t2) then (- 1, u)
        else (0, set_raw (m a0, a1, m a2) (m t0, t1, m t2) aa ad u))"
      using assms True l p Some by (simp add: update_pose_3pt_def v u_def m_def Let_def split: if_splits)
    have u: "same_frame t u" "\<not> trk_recenter u" by (simp_all add: u_def same_frame_def)
    have z: "fzero (Fin 0)" "fzero (fcvt b32 (m (Fin 0)))" by (simp_all add: fzero_ops m_def) (simp_all add: fzero_def fzero_cases fmul_def signed_zero_def)
    show ?thesis
    proof (cases "ltr_int_is_vector_finite (a0, a1, a2) \<and> ltr_int_is_vector_finite (t0, t1, t2)")
      case False
      then have "r = - 1" "t' = u" using run by auto
      then show ?thesis using that(1) u by simp
    next
      case True
      then have rt: "r = 0" "t' = set_raw (m a0, a1, m a2) (m t0, t1, m t2) aa ad u" using run by auto
      have "(t0, t1, t2) = zero_vec \<Longrightarrow> at_origin t'" using z by (auto simp: rt(2) at_origin_set_raw zero_vec_def fzero_ops)
      then show ?thesis using that(2) rt u p Some v by simp
    qed
  qed
qed

text \<open>C22: A request to recentre is honoured by the next frame that yields a pose (\<open>tracking.c\<close>, \<open>pose.c\<close>): \<open>ltr_int_recenter_tracking\<close>, then a frame, with
  room for its blobs and of an unchanged model, that \<open>ltr_int_update_pose\<close> accepts. The pose delivered is then the origin: for a model of three points
  the translation is zero, by either algorithm; for a single point, pitch, yaw and the translation are zero; and for a face, whose
  distance comes from its size by a division that rounds, pitch, yaw and the translation to the side and upwards. The request is no
  longer pending.\<close>

theorem recentre_honoured:
  assumes "ltr_int_update_pose E fr (snd (ltr_int_recenter_tracking t)) = Some (0, fr', t')"
    and "\<not> model_changed (trk_glob t)" and "num_blobs (fr_bloblist fr) \<le> MAX_BLOBS" and "3 \<le> length (blobs (fr_bloblist fr))"
    and "unat (num_blobs (fr_bloblist fr)) \<le> length (blobs (fr_bloblist fr))" and "0 < fr_width fr"
  shows "\<not> trk_recenter t' \<and> (if ltr_int_is_single_point (trk_pose t)
    then centred t' \<and> on_axis t' \<and> (\<not> ltr_int_is_face (trk_pose t) \<longrightarrow> at_origin t') else at_origin t')"
proof -
  define tr where "tr = t\<lparr>trk_recenter := True\<rparr>"
  have tr: "snd (ltr_int_recenter_tracking t) = tr" "\<not> model_changed (trk_glob tr)" "trk_pose tr = trk_pose t" "trk_recenter tr"
    using assms(2) by (simp_all add: tr_def ltr_int_recenter_tracking_def)
  obtain bs where u: "ltr_int_update_pose E fr tr = map_option (\<lambda>r. case count_frame r of (res, t') \<Rightarrow> (res, fr\<lparr>fr_bloblist := (fr_bloblist fr)\<lparr>blobs := bs\<rparr>\<rparr>, t'))
      (if ltr_int_is_single_point (trk_pose t) then update_pose_1pt E (fr\<lparr>fr_bloblist := (fr_bloblist fr)\<lparr>blobs := bs\<rparr>\<rparr>) (prepared fr tr ((fr_bloblist fr)\<lparr>blobs := bs\<rparr>))
       else update_pose_3pt E (fr\<lparr>fr_bloblist := (fr_bloblist fr)\<lparr>blobs := bs\<rparr>\<rparr>) (prepared fr tr ((fr_bloblist fr)\<lparr>blobs := bs\<rparr>)))"
    using update_pose_steps [OF tr(2) assms(3-5), of E] by (auto simp: Let_def tr(3))
  let ?fr = "fr\<lparr>fr_bloblist := (fr_bloblist fr)\<lparr>blobs := bs\<rparr>\<rparr>" and ?t1 = "prepared fr tr ((fr_bloblist fr)\<lparr>blobs := bs\<rparr>)"
  have t1: "\<not> model_changed (trk_glob ?t1)" "trk_recenter ?t1" "trk_pose ?t1 = trk_pose t" using tr by (simp_all add: prepared_def)
  define X where "X = (if ltr_int_is_single_point (trk_pose t) then update_pose_1pt E ?fr ?t1 else update_pose_3pt E ?fr ?t1)"
  have e: "map_option (\<lambda>r. case count_frame r of (res, t') \<Rightarrow> (res, ?fr, t')) X = Some (0, fr', t')"
    using assms(1) u by (simp only: tr(1) X_def)
  then obtain res t2 where x: "X = Some (res, t2)" by (cases X) auto
  obtain c0 c1 where "count_frame (res, t2) = (c0, c1)" by (cases "count_frame (res, t2)")
  with e x have c: "count_frame (res, t2) = (0, t')" by simp
  note x = x [unfolded X_def]
  have r: "res = 0" "trk_recenter t' = trk_recenter t2" "centred t' = centred t2" "at_origin t' = at_origin t2" "on_axis t' = on_axis t2"
    using c by (auto simp: count_frame_def centred_def at_origin_def on_axis_def split: if_splits)
  show ?thesis
  proof (cases "ltr_int_is_single_point (trk_pose t)")
    case True
    then have x: "update_pose_1pt E ?fr ?t1 = Some (0, t2)" using x r(1) by simp
    from update_1pt_accepts [OF x t1(1)] obtain b where "num_blobs (fr_bloblist ?fr) \<noteq> 0" "rd (blobs (fr_bloblist ?fr)) 0 = Some b" "fcoord b"
      by blast
    from update_1pt_good [OF t1(1) this, of E] assms(6) x t1(2,3) show ?thesis using r True by auto
  next
    case False
    then have x: "update_pose_3pt E ?fr ?t1 = Some (0, t2)" using x r(1) by simp
    show ?thesis
    proof (rule update_3pt_cases [OF x])
      assume "(0 :: int) = - 1"
      then show ?thesis by simp
    next
      fix a d aa ad s g
      assume "ltr_int_pose_process_blobs (te_libm E) (te_prefs E) (trk_glob ?t1) (trk_pose ?t1) (fr_bloblist ?fr) (trk_recenter ?t1) = Some (Some (a, d, aa, ad), s, g)"
        and n: "\<not> trk_recenter t2" and o: "d = zero_vec \<Longrightarrow> at_origin t2"
      then have "d = zero_vec" using t1(2) by (simp add: centring_zeroes_translation)
      then show ?thesis using o n r False by simp
    qed
  qed
qed

lemma update_1pt_keeps:
  assumes "update_pose_1pt E fr t = Some (r, t')" and "\<not> model_changed (trk_glob t)"
  shows "same_model t t'"
proof -
  have "same_model t t" "same_model t (t\<lparr>c_x := x, c_y := y, c_z := z, trk_recenter := b\<rparr>)" for x y z b
    by (simp_all add: same_model_def)
  then show ?thesis using assms
    by (auto simp: update_pose_1pt_def check_pose_unchanged bind_eq_Some_conv Let_def split: if_splits prod.splits)
qed

text \<open>The blobs reach the caller: after a frame with at most \<open>MAX_BLOBS\<close> blobs, whether a pose was found or not,
  \<open>ltr_int_tracking_get_pose\<close> fills the front of the caller's array with the coordinates and the score of each blob, in the order
  of the sorted frame, leaves the rest of the array as it was, and delivers the number of the frame; the caller's status stays.\<close>

theorem blobs_delivered:
  assumes "ltr_int_update_pose E fr t = Some (res, fr', t')" and "\<not> model_changed (trk_glob t)"
    and "num_blobs (fr_bloblist fr) \<le> MAX_BLOBS" and "3 \<le> length (blobs (fr_bloblist fr))"
    and "unat (num_blobs (fr_bloblist fr)) \<le> length (blobs (fr_bloblist fr))" and "tracking_initialized t"
    and "length (blob_list out) = unat MAX_BLOBS * BLOB_ELEMENTS"
  shows "\<exists>out' t''. ltr_int_tracking_get_pose E out t' = Some (0, out', t'') \<and> fp_blobs out' = num_blobs (fr_bloblist fr) \<and>
    blob_list out' = blob_floats (take (unat (num_blobs (fr_bloblist fr))) (blobs (fr_bloblist fr'))) @
      drop (unat (num_blobs (fr_bloblist fr)) * BLOB_ELEMENTS) (blob_list out) \<and>
    counter (fp_pose out') = counter_d t' \<and> pose_status (fp_pose out') = pose_status (fp_pose out)"
proof -
  let ?n = "unat (num_blobs (fr_bloblist fr))"
  obtain bs where l: "length bs = length (blobs (fr_bloblist fr))"
    and u: "ltr_int_update_pose E fr t = map_option (\<lambda>r. case count_frame r of (res, t') \<Rightarrow> (res, fr\<lparr>fr_bloblist := (fr_bloblist fr)\<lparr>blobs := bs\<rparr>\<rparr>, t'))
      (if ltr_int_is_single_point (trk_pose t) then update_pose_1pt E (fr\<lparr>fr_bloblist := (fr_bloblist fr)\<lparr>blobs := bs\<rparr>\<rparr>) (prepared fr t ((fr_bloblist fr)\<lparr>blobs := bs\<rparr>))
       else update_pose_3pt E (fr\<lparr>fr_bloblist := (fr_bloblist fr)\<lparr>blobs := bs\<rparr>\<rparr>) (prepared fr t ((fr_bloblist fr)\<lparr>blobs := bs\<rparr>)))"
    using update_pose_steps [OF assms(2-5), of E] by (auto simp: Let_def)
  let ?fr = "fr\<lparr>fr_bloblist := (fr_bloblist fr)\<lparr>blobs := bs\<rparr>\<rparr>" and ?t1 = "prepared fr t ((fr_bloblist fr)\<lparr>blobs := bs\<rparr>)"
  define X where "X = (if ltr_int_is_single_point (trk_pose t) then update_pose_1pt E ?fr ?t1 else update_pose_3pt E ?fr ?t1)"
  have e: "map_option (\<lambda>r. case count_frame r of (res, t') \<Rightarrow> (res, ?fr, t')) X = Some (res, fr', t')"
    using assms(1) u by (simp only: X_def)
  then obtain r2 t2 where x: "X = Some (r2, t2)" by (cases X) auto
  obtain c0 c1 where "count_frame (r2, t2) = (c0, c1)" by (cases "count_frame (r2, t2)")
  with e x have c: "count_frame (r2, t2) = (res, t')" and fr': "fr' = ?fr" by simp_all
  have t1: "\<not> model_changed (trk_glob ?t1)" using assms(2) by (simp add: prepared_def)
  have k: "fp_blobs (current_pose t2) = fp_blobs (current_pose ?t1) \<and> blob_list (current_pose t2) = blob_list (current_pose ?t1) \<and>
      tracking_initialized t2 = tracking_initialized ?t1"
  proof (cases "ltr_int_is_single_point (trk_pose t)")
    case True
    then show ?thesis using x update_1pt_keeps [OF _ t1] by (auto simp: X_def same_model_def)
  next
    case False
    then have "update_pose_3pt E ?fr ?t1 = Some (r2, t2)" using x by (simp add: X_def)
    then show ?thesis by (rule update_3pt_cases) (auto simp: same_frame_def)
  qed
  have c': "current_pose t' = current_pose t2" "tracking_initialized t' = tracking_initialized t2"
    using c by (auto simp: count_frame_def split: if_splits)
  have n: "?n \<le> unat MAX_BLOBS" using assms(3) by (simp add: word_le_nat_alt)
  have b: "blob_list (current_pose t') = blob_floats (take ?n bs) @ replicate ((unat MAX_BLOBS - ?n) * BLOB_ELEMENTS) (Fin 0)"
    "fp_blobs (current_pose t') = num_blobs (fr_bloblist fr)" "tracking_initialized t'"
    using k assms(6) by (simp_all add: c' prepared_def)
  have len: "length (blob_floats (take ?n bs)) = ?n * BLOB_ELEMENTS" using l assms(5) by (simp add: length_blob_floats)
  have m: "?n * BLOB_ELEMENTS \<le> unat MAX_BLOBS * BLOB_ELEMENTS" using n by simp
  have bl: "length (blob_list (current_pose t')) = unat MAX_BLOBS * BLOB_ELEMENTS"
    using len n by (simp add: b(1) add_mult_distrib [symmetric])
  have "copy_floats (blob_list out) (blob_list (current_pose t')) 0 (?n * BLOB_ELEMENTS) =
      Some (blob_floats (take ?n bs) @ drop (?n * BLOB_ELEMENTS) (blob_list out))"
    using copy_floats_ok [of 0 "?n * BLOB_ELEMENTS" "blob_list (current_pose t')" "blob_list out"] m assms(7) bl len by (simp add: b(1))
  then show ?thesis by (simp add: ltr_int_tracking_get_pose_def b(2,3) fr' Let_def)
qed

subsection \<open>Examples\<close>

definition demo_global :: "(string \<times> string) list \<Rightarrow> prefs" where
  "demo_global kvs = fold (\<lambda>(k, v) p. snd (ltr_int_change_key ''Global'' k v p)) kvs prefs_empty"

definition demo_env :: trk_env where
  "demo_env = \<lparr>te_libm = demo_libm,
     te_prefs = snd (ltr_int_change_key ''M'' ''Model-type'' ''SinglePoint'' (demo_global [(''Model'', ''M'')])),
     te_u = Fin 0, te_rm = \<lparr>rm_p0 = zero_vec, rm_p1 = zero_vec, rm_p2 = zero_vec, rm_hc = zero_vec, rm_type = CAP\<rparr>\<rparr>"

definition demo_frame :: "int \<Rightarrow> int \<Rightarrow> frame_type" where
  "demo_frame x y = \<lparr>fr_bloblist = \<lparr>num_blobs = 1, expected_blobs = 1, blobs = [blob_at x y 9, blob_at 0 0 0, blob_at 0 0 0]\<rparr>,
     fr_width = 640, fr_height = 480, fr_counter = 0, fr_bitmap = None\<rparr>"

lemma demo_setup_runs:
  "map_option (\<lambda>(ok, t). ok \<and> ltr_int_is_single_point (trk_pose t)) (ltr_int_init_tracking demo_env tracking_init) = Some True"
  by code_simp

lemma demo_setup: "\<exists>t. ltr_int_init_tracking demo_env tracking_init = Some (True, t) \<and> ltr_int_is_single_point (trk_pose t)"
  using demo_setup_runs by auto

lemma demo_frame_good: "good_frame (demo_frame x y)"
  by (simp add: good_frame_def demo_frame_def blob_at_def fcoord_def ltr_int_is_finite_def MAX_BLOBS_def)

theorem tracking_starts_centred_witness:
  "\<exists>t fr1 t1 fr2 t2. ltr_int_init_tracking demo_env tracking_init = Some (True, t) \<and>
    ltr_int_update_pose demo_env (demo_frame 3 4) t = Some (1, fr1, t1) \<and>
    ltr_int_update_pose demo_env (demo_frame 5 6) t1 = Some (0, fr2, t2) \<and> centred t2"
  using demo_setup tracking_starts_centred [OF _ _ demo_frame_good demo_frame_good] by blast

definition broken_env :: trk_env where
  "broken_env = demo_env\<lparr>te_prefs := snd (ltr_int_change_key ''M'' ''Model-type'' ''Unknown'' (demo_global [(''Model'', ''M'')]))\<rparr>"

theorem failed_setup_forgotten_witness:
  "\<exists>t' t''. ltr_int_init_tracking broken_env tracking_init = Some (False, t') \<and>
    ltr_int_init_tracking broken_env t' = Some (True, t'') \<and> tracking_initialized t''"
proof -
  have "map_option fst (ltr_int_init_tracking broken_env tracking_init) = Some False" by code_simp
  then obtain t' where "ltr_int_init_tracking broken_env tracking_init = Some (False, t')" by auto
  then show ?thesis using failed_setup_forgotten [of broken_env tracking_init t' broken_env] by blast
qed

lemma demo_second:
  "\<exists>(t1 :: tracking) fr2 t2. \<not> model_changed (trk_glob t1) \<and> ltr_int_is_single_point (trk_pose t1) \<and>
     ltr_int_update_pose demo_env (demo_frame 5 6) (snd (ltr_int_recenter_tracking t1)) = Some (0, fr2, t2)"
proof -
  obtain t where i: "ltr_int_init_tracking demo_env tracking_init = Some (True, t)" and s: "ltr_int_is_single_point (trk_pose t)"
    using demo_setup by blast
  have m: "\<not> model_changed (trk_glob t)" using init_clears [OF i] by simp
  obtain t1 :: tracking where 1: "trk_pose t1 = trk_pose t" "trk_glob t1 = trk_glob t" "\<not> init_recenter t1"
    using update_pose_single [OF m s demo_frame_good, of demo_env 3 4] by blast
  have "\<not> model_changed (trk_glob (snd (ltr_int_recenter_tracking t1)))" "ltr_int_is_single_point (trk_pose (snd (ltr_int_recenter_tracking t1)))"
    "\<not> init_recenter (snd (ltr_int_recenter_tracking t1))"
    using m s 1 by (simp_all add: ltr_int_recenter_tracking_def)
  from update_pose_single [OF this(1,2) demo_frame_good, of demo_env 5 6] this(3)
  have "\<exists>fr2 t2. ltr_int_update_pose demo_env (demo_frame 5 6) (snd (ltr_int_recenter_tracking t1)) = Some (0, fr2, t2)" by auto
  moreover have "\<not> model_changed (trk_glob t1)" "ltr_int_is_single_point (trk_pose t1)" using m s 1 by simp_all
  ultimately show ?thesis by blast
qed

theorem recentre_honoured_witness:
  "\<exists>(t1 :: tracking) fr2 t2. ltr_int_update_pose demo_env (demo_frame 5 6) (snd (ltr_int_recenter_tracking t1)) = Some (0, fr2, t2) \<and>
     \<not> trk_recenter t2 \<and> centred t2"
proof -
  obtain t1 fr2 t2 where t: "\<not> model_changed (trk_glob t1)" "ltr_int_is_single_point (trk_pose t1)"
    "ltr_int_update_pose demo_env (demo_frame 5 6) (snd (ltr_int_recenter_tracking t1)) = Some (0, fr2, t2)"
    using demo_second by blast
  have f: "num_blobs (fr_bloblist (demo_frame 5 6)) \<le> MAX_BLOBS" "3 \<le> length (blobs (fr_bloblist (demo_frame 5 6)))"
    "unat (num_blobs (fr_bloblist (demo_frame 5 6))) \<le> length (blobs (fr_bloblist (demo_frame 5 6)))" "0 < fr_width (demo_frame 5 6)"
    using demo_frame_good [of 5 6] by (auto simp: good_frame_def)
  from recentre_honoured [OF t(3,1) f] t show ?thesis by auto
qed

theorem blobs_delivered_witness:
  "\<exists>(t1 :: tracking) (fr1 :: frame_type) (out' :: linuxtrack_full_pose_t) t2. ltr_int_tracking_get_pose demo_env (full_pose zero_comm) t1 = Some (0, out', t2) \<and>
     blob_list out' = blob_floats (take 1 (blobs (fr_bloblist fr1))) @ drop 3 (blob_list (full_pose zero_comm))"
proof -
  obtain t where i: "ltr_int_init_tracking demo_env tracking_init = Some (True, t)" and s: "ltr_int_is_single_point (trk_pose t)"
    using demo_setup by blast
  have m: "\<not> model_changed (trk_glob t)" "tracking_initialized t"
    using init_clears [OF i] i by (auto simp: ltr_int_init_tracking_def Let_def bind_eq_Some_conv split: if_splits)
  obtain r fr1 t1 where u: "ltr_int_update_pose demo_env (demo_frame 3 4) t = Some (r, fr1, t1)"
    using update_pose_single [OF m(1) s demo_frame_good, of demo_env 3 4] by blast
  have f: "num_blobs (fr_bloblist (demo_frame 3 4)) \<le> MAX_BLOBS" "3 \<le> length (blobs (fr_bloblist (demo_frame 3 4)))"
    "unat (num_blobs (fr_bloblist (demo_frame 3 4))) \<le> length (blobs (fr_bloblist (demo_frame 3 4)))"
    using demo_frame_good [of 3 4] by (auto simp: good_frame_def)
  have l: "length (blob_list (full_pose zero_comm)) = unat MAX_BLOBS * BLOB_ELEMENTS" by (simp add: zero_comm_def)
  from blobs_delivered [OF u m(1) f m(2) l] obtain out' :: linuxtrack_full_pose_t and t2 where
    "ltr_int_tracking_get_pose demo_env (full_pose zero_comm) t1 = Some (0, out', t2)"
    "blob_list out' = blob_floats (take 1 (blobs (fr_bloblist fr1))) @ drop 3 (blob_list (full_pose zero_comm))"
    by (auto simp: demo_frame_def BLOB_ELEMENTS_def)
  then show ?thesis by blast
qed

end
