(* ===== verification/SrvComm.thy ===== *)
theory SrvComm
  imports Tracking
begin

text \<open>
  \<open>src/ltr_srv_comm.c\<close>: the messages between the server processes. A slave serves one application, the master owns the camera;
  they talk over fifos. The \<open>union\<close> of \<open>message_t\<close> is the datatype \<open>body\<close>; the code reads only the part that belongs to the
  command. A message is shorter than the buffer of a fifo, so a write either places the whole message into it or fails: \<open>W fd\<close>
  is what \<open>write\<close> returns on a descriptor, with \<open>errno\<close>. The messages written are collected with their descriptors.
\<close>

datatype cmds = CMD_NOP | CMD_NEW_FIFO | CMD_PAUSE | CMD_WAKEUP | CMD_RECENTER | CMD_POSE | CMD_PARAM | CMD_FRAMES

record param_t =
  axis_id :: u32
  msg_param_id :: u32
  flt_val :: cflt

datatype body = MStr string | MPose linuxtrack_full_pose_t | MParam param_t

record message_t =
  msg_cmd :: cmds
  msg_data :: u32
  msg_body :: body

type_synonym outbox = "(int \<times> message_t) list"
type_synonym writes = "int \<Rightarrow> int \<times> int"

text \<open>The result of \<open>ltr_int_fifo_send\<close> and the messages written so far.\<close>

definition fifo_put :: "writes \<Rightarrow> int \<Rightarrow> message_t \<Rightarrow> outbox \<Rightarrow> int \<times> outbox" where
  "fifo_put W fd m out = (case W fd of (res, err) \<Rightarrow>
     (ltr_int_fifo_send fd res err, if 0 < fd \<and> 0 \<le> res then out @ [(fd, m)] else out))"

definition ltr_int_send_message :: "writes \<Rightarrow> int \<Rightarrow> cmds \<Rightarrow> u32 \<Rightarrow> outbox \<Rightarrow> int \<times> outbox" where
  "ltr_int_send_message W fifo cmd data out = fifo_put W fifo \<lparr>msg_cmd = cmd, msg_data = data, msg_body = MStr []\<rparr> out"

text \<open>A longer string is cut to the 499 characters that leave room for the terminating zero.\<close>

definition ltr_int_send_message_w_str :: "writes \<Rightarrow> int \<Rightarrow> cmds \<Rightarrow> u32 \<Rightarrow> string option \<Rightarrow> outbox \<Rightarrow> int \<times> outbox" where
  "ltr_int_send_message_w_str W fifo cmd data str out =
     fifo_put W fifo \<lparr>msg_cmd = cmd, msg_data = data, msg_body = MStr (case str of None \<Rightarrow> [] | Some s \<Rightarrow> take 499 s)\<rparr> out"

definition srv_send_data :: "writes \<Rightarrow> int \<Rightarrow> linuxtrack_full_pose_t \<Rightarrow> outbox \<Rightarrow> int \<times> outbox" where
  "srv_send_data W fifo data out = fifo_put W fifo \<lparr>msg_cmd = CMD_POSE, msg_data = 0, msg_body = MPose data\<rparr> out"

definition ltr_int_send_param_update :: "writes \<Rightarrow> int \<Rightarrow> u32 \<Rightarrow> u32 \<Rightarrow> cflt \<Rightarrow> outbox \<Rightarrow> int \<times> outbox" where
  "ltr_int_send_param_update W fifo axis param val out =
     fifo_put W fifo \<lparr>msg_cmd = CMD_PARAM, msg_data = 0, msg_body = MParam \<lparr>axis_id = axis, msg_param_id = param, flt_val = val\<rparr>\<rparr> out"

definition ltr_int_master_fifo_name :: string where
  "ltr_int_master_fifo_name = ''/tmp/ltr_fifi''"

text \<open>The template \<open>/tmp/ltr_sfifi%02d\<close> with its number.\<close>

definition ltr_int_slave_fifo_name :: "int \<Rightarrow> string" where
  "ltr_int_slave_fifo_name i = ''/tmp/ltr_sfifi'' @
     (if i < 0 then CHR ''-'' # show_nat (nat (- i)) else (if i < 10 then ''0'' else []) @ show_nat (nat i))"

definition ltr_int_max_slave_fifos :: nat where "ltr_int_max_slave_fifos = 99"

lemma fifo_put_ok: "0 < fd \<Longrightarrow> 0 \<le> fst (W fd) \<Longrightarrow> fifo_put W fd m out = (0, out @ [(fd, m)])"
  by (simp add: fifo_put_def ltr_int_fifo_send_def case_prod_beta)

end
