(* ===== verification/SrvMaster.thy ===== *)
theory SrvMaster
  imports SrvComm Frames
begin

text \<open>
  \<open>src/ltr_srv_master.cpp\<close>: the process that owns the camera. It registers the slaves (one per application), passes every
  new pose and every change of state on to all of them, and obeys their commands. \<open>master\<close> holds the static variables, the
  messages written, the calls made of the tracking library other than the recentring, which acts on \<open>ms_trk\<close>, and the local
  \<open>heartbeat\<close>. The \<open>std::multimap\<close> is the list of its pairs in the order of iteration. The mutex \<open>send_mx\<close> makes each function
  one step, and the callbacks, which the thread of the camera makes, steps between those of the loop. The hooks belong to the
  graphical interface and are left out. \<open>memory\<close> is what a pose on the stack holds before it is set.
\<close>

datatype lib_call = CallSuspendLib | CallWakeupLib | CallPublish | CallShutdown

record master =
  slaves :: "(string \<times> int) list"
  pfSem :: semaphore_p
  ms_pose :: linuxtrack_full_pose_t
  save_prefs_flag :: bool
  no_slaves :: bool
  gui_shutdown_request :: bool
  heartbeat :: int
  ms_trk :: tracking
  ms_calls :: "lib_call list"
  ms_out :: outbox

record srv_env =
  sv_os :: os_env
  sv_dflt :: "string \<Rightarrow> string option"
  sv_pref :: pref_os
  sv_u :: cflt
  sv_raw :: ltr_axes

definition EPIPE :: int where "EPIPE = 32"

subsection \<open>The lock of the graphical interface\<close>

definition gui_lock_name :: string where "gui_lock_name = ''ltr_server.lock''"

definition ltr_int_gui_lock :: "srv_env \<Rightarrow> pid \<Rightarrow> bool \<Rightarrow> semaphore_p \<Rightarrow> os \<Rightarrow> (bool \<times> semaphore_p \<times> os) option" where
  "ltr_int_gui_lock S p do_lock sem w =
     (if sem = None
      then do { (res, ps, w) \<leftarrow> ltr_int_server_running_already (sv_os S) (sv_dflt S) p gui_lock_name False (Some sem) do_lock w;
                Some (res = 0, the ps, w) }
      else Some (case (if do_lock then ltr_int_tryLockSemaphore (sv_os S) p sem w else ltr_int_testLockSemaphore (sv_os S) p sem w) of
             (ok, w) \<Rightarrow> (ok, sem, w)))"

definition ltr_int_gui_lock_clean :: "srv_env \<Rightarrow> pid \<Rightarrow> semaphore_p \<Rightarrow> os \<Rightarrow> (semaphore_p \<times> os) option" where
  "ltr_int_gui_lock_clean S p sem w =
     (if sem = None then Some (sem, w)
      else do { w \<leftarrow> ltr_int_closeSemaphore p sem (snd (ltr_int_unlockSemaphore (sv_os S) p sem w)); Some (None, w) })"

subsection \<open>The slaves\<close>

text \<open>The order of \<open>std::string\<close>; a new pair goes behind those with the same key.\<close>

fun str_less :: "string \<Rightarrow> string \<Rightarrow> bool" where
  "str_less xs [] = False"
| "str_less [] (y # ys) = True"
| "str_less (x # xs) (y # ys) = ((of_char x :: nat) < of_char y \<or> x = y \<and> str_less xs ys)"

definition mm_insert :: "string \<Rightarrow> int \<Rightarrow> (string \<times> int) list \<Rightarrow> (string \<times> int) list" where
  "mm_insert k v xs = takeWhile (\<lambda>x. \<not> str_less k (fst x)) xs @ (k, v) # dropWhile (\<lambda>x. \<not> str_less k (fst x)) xs"

definition ltr_int_change :: "writes \<Rightarrow> string option \<Rightarrow> u32 \<Rightarrow> u32 \<Rightarrow> cflt \<Rightarrow> master \<Rightarrow> master" where
  "ltr_int_change W profile axis elem val m =
     m\<lparr>ms_out := fold (\<lambda>sl out. snd (ltr_int_send_param_update W (snd sl) axis elem val out))
        (case profile of None \<Rightarrow> slaves m | Some n \<Rightarrow> filter (\<lambda>sl. fst sl = n) (slaves m)) (ms_out m)\<rparr>"

text \<open>The slaves that stay, the messages, the system, and whether any slave has left.\<close>

fun broadcast_loop ::
  "writes \<Rightarrow> pid \<Rightarrow> linuxtrack_full_pose_t \<Rightarrow> (string \<times> int) list \<Rightarrow> outbox \<Rightarrow> os \<Rightarrow> (string \<times> int) list \<times> outbox \<times> os \<times> bool" where
  "broadcast_loop W p pose [] out w = ([], out, w, False)"
| "broadcast_loop W p pose (sl # sls) out w =
     (case srv_send_data W (snd sl) pose out of (res, out) \<Rightarrow>
        if res = - EPIPE
        then (case broadcast_loop W p pose sls out (sys_close p (snd sl) w) of (sls', out, w, _) \<Rightarrow> (sls', out, w, True))
        else (case broadcast_loop W p pose sls out w of (sls', out, w, check) \<Rightarrow> (sl # sls', out, w, check)))"

definition ltr_int_broadcast_pose :: "writes \<Rightarrow> pid \<Rightarrow> linuxtrack_full_pose_t \<Rightarrow> master \<Rightarrow> os \<Rightarrow> master \<times> os" where
  "ltr_int_broadcast_pose W p pose m w =
     (case broadcast_loop W p pose (slaves m) (ms_out m) w of (sls, out, w, checkSlaves) \<Rightarrow>
        (m\<lparr>slaves := sls, ms_out := out, no_slaves := no_slaves m \<or> checkSlaves \<and> sls = []\<rparr>, w))"

definition ltr_int_new_frame :: "trk_env \<Rightarrow> writes \<Rightarrow> pid \<Rightarrow> master \<Rightarrow> os \<Rightarrow> (master \<times> os) option" where
  "ltr_int_new_frame T W p m w =
     do { (_, pose, t) \<leftarrow> ltr_int_tracking_get_pose T (ms_pose m) (ms_trk m);
          Some (ltr_int_broadcast_pose W p pose (m\<lparr>ms_pose := pose, ms_trk := t\<rparr>) w) }"

text \<open>A state becomes the \<open>uint8_t\<close> of the pose.\<close>

definition status_of :: "linuxtrack_state_type \<Rightarrow> u8" where
  "status_of st = word_of_int (state_num st)"

definition ltr_int_state_changed :: "linuxtrack_state_type \<Rightarrow> writes \<Rightarrow> pid \<Rightarrow> master \<Rightarrow> os \<Rightarrow> master \<times> os" where
  "ltr_int_state_changed st W p m w =
     (let pose = (ms_pose m)\<lparr>fp_pose := (fp_pose (ms_pose m))\<lparr>pose_status := status_of st\<rparr>\<rparr>
      in ltr_int_broadcast_pose W p pose (m\<lparr>ms_pose := pose\<rparr>) w)"

definition ltr_int_register_slave ::
  "srv_env \<Rightarrow> pid \<Rightarrow> message_t \<Rightarrow> master \<Rightarrow> pref_world \<Rightarrow> os \<Rightarrow> (bool \<times> master \<times> pref_world \<times> os) option" where
  "ltr_int_register_slave S p msg m pw w =
     (case ltr_int_open_fifo_for_writing (sv_os S) p (ltr_int_slave_fifo_name (int_of_u32 (msg_data msg))) True w of (fifo, w) \<Rightarrow>
        if fifo \<le> 0 then Some (False, m, pw, w)
        else (case msg_body msg of
            MStr str \<Rightarrow>
              do { let m = m\<lparr>slaves := mm_insert str fifo (slaves m)\<rparr>;
                   (_, prefs) \<leftarrow> ltr_int_init_axes str (sv_u S) (sv_raw S) (the_prefs pw);
                   let pw = pw\<lparr>the_prefs := prefs\<rparr>;
                   let pw = (if save_prefs_flag m \<and> ltr_int_need_saving pw then snd (ltr_int_save_prefs (sv_pref S) None pw) else pw);
                   Some (True, m, pw, w) }
          | _ \<Rightarrow> None))"

subsection \<open>Commands\<close>

definition lib_do :: "lib_call \<Rightarrow> master \<Rightarrow> master" where
  "lib_do c m = m\<lparr>ms_calls := ms_calls m @ [c]\<rparr>"

definition ltr_int_suspend_cmd :: "master \<Rightarrow> master" where
  "ltr_int_suspend_cmd m = lib_do CallSuspendLib m"

definition ltr_int_wakeup_cmd :: "master \<Rightarrow> master" where
  "ltr_int_wakeup_cmd m = lib_do CallWakeupLib m"

definition ltr_int_recenter_cmd :: "master \<Rightarrow> master" where
  "ltr_int_recenter_cmd m = m\<lparr>ms_trk := snd (ltr_int_recenter_tracking (ms_trk m))\<rparr>"

definition ltr_int_request_shutdown :: "master \<Rightarrow> nat \<times> master" where
  "ltr_int_request_shutdown m = (0, m\<lparr>gui_shutdown_request := True\<rparr>)"

definition dispatch ::
  "srv_env \<Rightarrow> pid \<Rightarrow> message_t \<Rightarrow> master \<Rightarrow> pref_world \<Rightarrow> os \<Rightarrow> (master \<times> pref_world \<times> os) option" where
  "dispatch S p msg m pw w = (case msg_cmd msg of
     CMD_PAUSE \<Rightarrow> Some (ltr_int_suspend_cmd m, pw, w)
   | CMD_WAKEUP \<Rightarrow> Some (ltr_int_wakeup_cmd m, pw, w)
   | CMD_RECENTER \<Rightarrow> Some (ltr_int_recenter_cmd m, pw, w)
   | CMD_NEW_FIFO \<Rightarrow> do { (_, m, pw, w) \<leftarrow> ltr_int_register_slave S p msg m pw w; Some (m, pw, w) }
   | CMD_FRAMES \<Rightarrow> Some (lib_do CallPublish m, pw, w)
   | _ \<Rightarrow> Some (m, pw, w))"

subsection \<open>The loop\<close>

text \<open>What one pass of the loop meets: the result of \<open>poll\<close> with the message read, if any, the outcome of the writes, and the state
  of the tracking when the code asks for it.\<close>

datatype poll_result = PollError | PollTimeout | PollReady bool "message_t option"

record pass_in =
  in_poll :: poll_result
  in_writes :: writes
  in_state :: linuxtrack_state_type
  in_end_state :: linuxtrack_state_type
  memory :: linuxtrack_full_pose_t

definition paused_dummy :: "linuxtrack_full_pose_t \<Rightarrow> linuxtrack_full_pose_t" where
  "paused_dummy raw = raw\<lparr>fp_pose := (fp_pose raw)\<lparr>pitch := Fin 0, yaw := Fin 0, roll := Fin 0, tx := Fin 0, ty := Fin 0, tz := Fin 0,
     counter := 0, pose_status := status_of PAUSED\<rparr>, fp_blobs := 0\<rparr>"

definition master_poll ::
  "srv_env \<Rightarrow> pid \<Rightarrow> bool \<Rightarrow> pass_in \<Rightarrow> master \<Rightarrow> pref_world \<Rightarrow> os \<Rightarrow> (master \<times> pref_world \<times> os) option" where
  "master_poll S p standalone i m pw w = (case in_poll i of
     PollReady hup msg \<Rightarrow>
       (case (if hup \<and> standalone then ltr_int_broadcast_pose (in_writes i) p (paused_dummy (memory i)) m w else (m, w)) of
          (m, w) \<Rightarrow> (case msg of None \<Rightarrow> Some (m, pw, w) | Some msg \<Rightarrow> dispatch S p msg m pw w))
   | PollTimeout \<Rightarrow>
       if in_state i = PAUSED
       then let m = m\<lparr>heartbeat := heartbeat m + 1\<rparr>
            in if heartbeat m > 5
               then (case ltr_int_broadcast_pose (in_writes i) p (paused_dummy (memory i)) m w of (m, w) \<Rightarrow> Some (m\<lparr>heartbeat := 0\<rparr>, pw, w))
               else Some (m, pw, w)
       else Some (m\<lparr>heartbeat := 0\<rparr>, pw, w)
   | PollError \<Rightarrow> Some (m, pw, w))"

text \<open>A pass: the result says whether the loop is left.\<close>

definition master_pass ::
  "srv_env \<Rightarrow> pid \<Rightarrow> bool \<Rightarrow> pass_in \<Rightarrow> master \<Rightarrow> pref_world \<Rightarrow> os \<Rightarrow> (bool \<times> master \<times> pref_world \<times> os) option" where
  "master_pass S p standalone i m pw w =
     do { (m, pw, w) \<leftarrow> master_poll S p standalone i m pw w;
          if gui_shutdown_request m then Some (True, m, pw, w)
          else do {
            (free, sem, w) \<leftarrow> ltr_int_gui_lock S p False (pfSem m) w;
            Some (\<not> free \<or> no_slaves m \<or> state_num (in_end_state i) < 0, m\<lparr>pfSem := sem\<rparr>, pw, w) } }"

text \<open>What happens to a running master, in any order: frames and changes of state that the camera's thread reports, changes of a
  setting and the request to shut down from the graphical interface, and the passes of its own loop, until one of them leaves it.\<close>

datatype master_event = NewFrame trk_env writes | StateChanged linuxtrack_state_type writes
  | Change writes "string option" u32 u32 cflt | RequestShutdown | Pass pass_in

fun master_run ::
  "srv_env \<Rightarrow> pid \<Rightarrow> bool \<Rightarrow> master_event list \<Rightarrow> master \<Rightarrow> pref_world \<Rightarrow> os \<Rightarrow> (bool \<times> master \<times> pref_world \<times> os) option" where
  "master_run S p sa [] m pw w = Some (False, m, pw, w)"
| "master_run S p sa (e # es) m pw w = (case e of
     NewFrame T W \<Rightarrow> do { (m, w) \<leftarrow> ltr_int_new_frame T W p m w; master_run S p sa es m pw w }
   | StateChanged st W \<Rightarrow> (case ltr_int_state_changed st W p m w of (m, w) \<Rightarrow> master_run S p sa es m pw w)
   | Change W prof axis elem val \<Rightarrow> master_run S p sa es (ltr_int_change W prof axis elem val m) pw w
   | RequestShutdown \<Rightarrow> master_run S p sa es (snd (ltr_int_request_shutdown m)) pw w
   | Pass i \<Rightarrow> do { (stop, m, pw, w) \<leftarrow> master_pass S p sa i m pw w;
                    if stop then Some (True, m, pw, w) else master_run S p sa es m pw w })"

subsection \<open>Start and end\<close>

text \<open>\<open>ltr_int_init\<close> of \<open>ltlib_int.c\<close>; the thread it creates is the camera's.\<close>

definition ltr_int_init :: "srv_env \<Rightarrow> trk_env \<Rightarrow> tracking \<Rightarrow> pref_world \<Rightarrow> (int \<times> tracking \<times> pref_world) option" where
  "ltr_int_init S T t pw =
     do { (ok, pw) \<leftarrow> ltr_int_read_prefs (sv_pref S) None False pw;
          if \<not> ok then Some (- 1, t, pw)
          else do { (ok, t) \<leftarrow> ltr_int_init_tracking (T\<lparr>te_prefs := the_prefs pw\<rparr>) t;
                    Some (if ok then 0 else - 1, t, pw) } }"

text \<open>The graphical master waits for another one to leave: eleven attempts, a second between them.\<close>

fun take_fifo :: "srv_env \<Rightarrow> pid \<Rightarrow> nat \<Rightarrow> semaphore_p \<Rightarrow> os \<Rightarrow> (int \<times> semaphore_p \<times> os) option" where
  "take_fifo S p 0 lock w = Some (- 1, lock, w)"
| "take_fifo S p (Suc n) lock w =
     do { (fifo, lock, w) \<leftarrow> ltr_int_open_fifo_exclusive (sv_os S) (sv_dflt S) p ltr_int_master_fifo_name lock w;
          if fifo > 0 then Some (fifo, lock, w)
          else if n = 0 then Some (- 1, lock, w)
          else take_fifo S p n lock (os_sleep (sv_os S) w) }"

text \<open>Either \<open>ltr_int_master\<close> returns at once, or it goes on with the fifo and its lock.\<close>

datatype start_result = Returns bool | Serves int semaphore_p

definition master_start ::
  "srv_env \<Rightarrow> trk_env \<Rightarrow> pid \<Rightarrow> bool \<Rightarrow> bool \<Rightarrow> master \<Rightarrow> pref_world \<Rightarrow> os \<Rightarrow> (start_result \<times> master \<times> pref_world \<times> os) option" where
  "master_start S T p standalone daemon_ok m pw w =
     (let m = m\<lparr>ms_pose := (ms_pose m)\<lparr>fp_pose := (fp_pose (ms_pose m))\<lparr>pitch := Fin 0, yaw := Fin 0, roll := Fin 0, tx := Fin 0, ty := Fin 0,
            tz := Fin 0, counter := 0, pose_status := status_of STOPPED\<rparr>, fp_blobs := 0\<rparr>,
            gui_shutdown_request := False, save_prefs_flag := standalone\<rparr>
      in if standalone \<and> \<not> daemon_ok then Some (Returns False, m, pw, w)
         else do {
           (free, sem, w) \<leftarrow> ltr_int_gui_lock S p (\<not> standalone) (pfSem m) w;
           let m = m\<lparr>pfSem := sem\<rparr>;
           if \<not> free then Some (Returns standalone, m, pw, w)
           else do {
             (fifo, lock, w) \<leftarrow> (if standalone
                 then ltr_int_open_fifo_exclusive (sv_os S) (sv_dflt S) p ltr_int_master_fifo_name None w
                 else take_fifo S p 11 None w);
             if fifo \<le> 0 then Some (Returns standalone, m, pw, w)
             else do {
               (res, t, pw) \<leftarrow> ltr_int_init S T (ms_trk m) pw;
               let m = m\<lparr>ms_trk := t\<rparr>;
               Some (if res \<noteq> 0 then (Returns False, m, pw, sys_close p fifo w)
                     else (Serves fifo lock, m\<lparr>heartbeat := 0, no_slaves := False\<rparr>, pw, w)) } } })"

text \<open>The end; waiting for the camera's thread changes nothing.\<close>

definition master_end :: "srv_env \<Rightarrow> pid \<Rightarrow> bool \<Rightarrow> int \<Rightarrow> semaphore_p \<Rightarrow> master \<Rightarrow> pref_world \<Rightarrow> os \<Rightarrow> (master \<times> pref_world \<times> os) option" where
  "master_end S p standalone fifo lock m pw w =
     do { let m = lib_do CallShutdown m;
          let w = snd (ltr_int_unlockSemaphore (sv_os S) p lock (sys_close p fifo w));
          w \<leftarrow> ltr_int_closeSemaphore p lock w;
          (sem, w) \<leftarrow> ltr_int_gui_lock_clean S p (pfSem m) w;
          Some (m\<lparr>pfSem := sem\<rparr>, if standalone then ltr_int_free_prefs pw else pw, w) }"

subsection \<open>Poses reach the slaves\<close>

text \<open>A slave is gone when writing to it fails with \<open>EPIPE\<close>, and reached when the write succeeds.\<close>

definition gone :: "writes \<Rightarrow> string \<times> int \<Rightarrow> bool" where
  "gone W sl \<longleftrightarrow> 0 < snd sl \<and> fst (W (snd sl)) < 0 \<and> snd (W (snd sl)) = EPIPE"

definition reached :: "writes \<Rightarrow> string \<times> int \<Rightarrow> bool" where
  "reached W sl \<longleftrightarrow> 0 < snd sl \<and> 0 \<le> fst (W (snd sl))"

definition pose_message :: "linuxtrack_full_pose_t \<Rightarrow> message_t" where
  "pose_message pose = \<lparr>msg_cmd = CMD_POSE, msg_data = 0, msg_body = MPose pose\<rparr>"

lemma send_data_result:
  "srv_send_data W fd pose out = (res, out') \<Longrightarrow> (res = - EPIPE) = gone W (n, fd)"
  "srv_send_data W fd pose out = (res, out') \<Longrightarrow> out' = (if reached W (n, fd) then out @ [(fd, pose_message pose)] else out)"
  by (auto simp: srv_send_data_def fifo_put_def ltr_int_fifo_send_def gone_def reached_def EPIPE_def pose_message_def split: prod.splits if_splits)

lemma broadcast_loop_eq:
  "broadcast_loop W p pose sls out w =
     (filter (\<lambda>s. \<not> gone W s) sls, out @ map (\<lambda>s. (snd s, pose_message pose)) (filter (reached W) sls),
      fold (sys_close p) (map snd (filter (gone W) sls)) w, list_ex (gone W) sls)"
proof (induction sls arbitrary: out w)
  case (Cons sl sls)
  obtain n fd where [simp]: "sl = (n, fd)" by (cases sl)
  obtain res out' where s: "srv_send_data W fd pose out = (res, out')" by fastforce
  note r = send_data_result [OF s, of n]
  have "gone W (n, fd) \<Longrightarrow> \<not> reached W (n, fd)" by (auto simp: gone_def reached_def)
  then show ?case using r by (simp add: s Cons.IH)
qed simp

text \<open>C26: A broadcast writes the pose once to every slave that can be written to, in the order of the profiles, removes exactly
  those slaves whose fifo is gone and closes their descriptors; the master is told to leave when the last slave went with it.\<close>

theorem broadcast_reaches_slaves:
  "ltr_int_broadcast_pose W p pose m w =
     (m\<lparr>slaves := filter (\<lambda>s. \<not> gone W s) (slaves m),
        ms_out := ms_out m @ map (\<lambda>s. (snd s, pose_message pose)) (filter (reached W) (slaves m)),
        no_slaves := no_slaves m \<or> slaves m \<noteq> [] \<and> list_all (gone W) (slaves m)\<rparr>,
      fold (sys_close p) (map snd (filter (gone W) (slaves m))) w)"
  by (cases "slaves m") (auto simp: ltr_int_broadcast_pose_def broadcast_loop_eq filter_empty_conv list_all_iff list_ex_iff)

lemma broadcast_unfold:
  "ltr_int_broadcast_pose W p pose m w = (m', w') \<Longrightarrow> slaves m' = filter (\<lambda>s. \<not> gone W s) (slaves m) \<and> pfSem m' = pfSem m \<and>
     w' = fold (sys_close p) (map snd (filter (gone W) (slaves m))) w"
  by (auto simp: ltr_int_broadcast_pose_def broadcast_loop_eq)

subsection \<open>The table of slaves stays well formed\<close>

lemma of_char_inj: "(of_char x :: nat) = of_char y \<longleftrightarrow> x = y"
  by simp

lemma str_less_irrefl: "\<not> str_less x x"
  by (induction x) simp_all

lemma str_less_total: "str_less x y \<or> x = y \<or> str_less y x"
proof (induction x y rule: str_less.induct)
  case (1 xs)
  then show ?case by (cases xs) simp_all
qed auto

lemma str_less_trans: "str_less x y \<Longrightarrow> str_less y z \<Longrightarrow> str_less x z"
proof (induction x y arbitrary: z rule: str_less.induct)
  case (2 y ys)
  then show ?case by (cases z) simp_all
next
  case (3 x xs y ys)
  then show ?case by (cases z) auto
qed simp

abbreviation not_after :: "string \<times> int \<Rightarrow> string \<times> int \<Rightarrow> bool" where
  "not_after x y \<equiv> \<not> str_less (fst y) (fst x)"

lemma not_after_trans: "not_after x y \<Longrightarrow> not_after y z \<Longrightarrow> not_after x z"
  using str_less_total str_less_trans by metis

lemma mm_insert_set: "set (mm_insert k v xs) = insert (k, v) (set xs)"
  unfolding mm_insert_def by (metis Un_insert_right list.simps(15) set_append takeWhile_dropWhile_id)

lemma mm_insert_snd: "mset (map snd (mm_insert k v xs)) = add_mset v (mset (map snd xs))"
proof -
  let ?P = "\<lambda>x. \<not> str_less k (fst x)"
  have "mset (map snd (mm_insert k v xs)) = add_mset v (mset (map snd (takeWhile ?P xs @ dropWhile ?P xs)))"
    by (simp only: mm_insert_def map_append mset_append) simp
  then show ?thesis by (simp only: takeWhile_dropWhile_id)
qed

lemma mm_insert_sorted:
  assumes "sorted_wrt not_after xs"
  shows "sorted_wrt not_after (mm_insert k v xs)"
proof -
  let ?P = "\<lambda>x. \<not> str_less k (fst x)"
  have s: "sorted_wrt not_after (takeWhile ?P xs @ dropWhile ?P xs)" using assms by (simp only: takeWhile_dropWhile_id)
  have l: "\<forall>x\<in>set (takeWhile ?P xs). not_after x (k, v)" using set_takeWhileD by fastforce
  have r: "\<forall>y\<in>set (dropWhile ?P xs). not_after (k, v) y"
  proof (cases "dropWhile ?P xs")
    case (Cons y ys)
    then have y: "str_less k (fst y)" using hd_dropWhile [of ?P xs] by (metis list.sel(1) list.distinct(1))
    have ys: "not_after y z" if "z \<in> set ys" for z using s Cons that by (simp add: sorted_wrt_append)
    have n: "not_after (k, v) y" using y str_less_trans str_less_irrefl by fastforce
    show ?thesis
    proof
      fix z assume "z \<in> set (dropWhile ?P xs)"
      then consider "z = y" | "z \<in> set ys" by (auto simp: Cons)
      then show "not_after (k, v) z" using n ys not_after_trans [OF n] by cases blast+
    qed
  qed (simp del: dropWhile_eq_Nil_conv)
  have c: "not_after x y" if "x \<in> set (takeWhile ?P xs)" "y \<in> set (dropWhile ?P xs)" for x y
    using l r that not_after_trans [where x = x and y = "(k, v)" and z = y] by blast
  have "sorted_wrt not_after (takeWhile ?P xs)" "sorted_wrt not_after (dropWhile ?P xs)" using s by (simp_all only: sorted_wrt_append)
  then show ?thesis unfolding mm_insert_def using l r c by (simp add: sorted_wrt_append)
qed

text \<open>The descriptors of a process.\<close>

lemma fds_tick [simp]: "fds_of p (tick w) = fds_of p w"
  by (simp add: fds_of_def)

lemma fds_close: "set (fds_of p (sys_close p fd w)) = set (fds_of p w) - {fd}"
proof (cases "ofile_at p fd w")
  case None
  then have "fd \<notin> set (fds_of p w)" by (auto simp: ofile_at_def fds_of_def find_None_iff)
  then show ?thesis by (simp add: sys_close_def None)
qed (auto simp: sys_close_def fds_of_def)

lemma fds_close_all: "set (fds_of p (fold (sys_close p) fs w)) = set (fds_of p w) - set fs"
  by (induction fs arbitrary: w) (auto simp: fds_close)

lemma fds_new: "new_fd p i r w = (fd, w') \<Longrightarrow> fd \<notin> set (fds_of p w) \<and> set (fds_of p w') = insert fd (set (fds_of p w))"
proof -
  assume "new_fd p i r w = (fd, w')"
  then have "fd = lowest_fd p w" "fds_of p w' = fd # fds_of p w" by (auto simp: new_fd_def fds_of_def)
  then show ?thesis using lowest_fd_free(2) [of p w] by simp
qed

lemma fds_add_node: "fds_of p (add_node n x w) = fds_of p w"
  by (simp add: fds_of_def add_node_def)

lemma fds_cong: "fdt w' = fdt w \<Longrightarrow> fds_of p w' = fds_of p w"
  by (simp add: fds_of_def)

text \<open>While this process sleeps, the others leave its descriptors alone.\<close>

definition own_fds_kept :: "os_env \<Rightarrow> pid \<Rightarrow> bool" where
  "own_fds_kept E p \<longleftrightarrow> (\<forall>v. fds_of p (os_sleep E v) = fds_of p v)"

lemma fds_make_fifo: "ltr_int_make_fifo E n w = (ok, w') \<Longrightarrow> fds_of p w' = fds_of p w"
  by (auto simp: ltr_int_make_fifo_def sys_stat_def sys_remove_def sys_mkfifo_def fds_add_node fds_of_def add_node_def
      split: prod.splits option.splits node.splits if_splits)

lemma fds_open_wr:
  "sys_open_wr E p n w = (fd, x, w') \<Longrightarrow>
     (fd = - 1 \<and> fds_of p w' = fds_of p w) \<or> (0 \<le> fd \<and> fd \<notin> set (fds_of p w) \<and> set (fds_of p w') = insert fd (set (fds_of p w)))"
proof -
  assume a: "sys_open_wr E p n w = (fd, x, w')"
  show ?thesis
  proof (cases "\<exists>i. new_fd p i False (tick w) = (fd, w')")
    case True
    then obtain i where i: "new_fd p i False (tick w) = (fd, w')" ..
    then have "0 \<le> fd" using lowest_fd_free(1) by (auto simp: new_fd_def)
    with fds_new [OF i] show ?thesis by simp
  next
    case False
    then show ?thesis using a by (auto simp: sys_open_wr_def split: if_splits option.splits prod.splits)
  qed
qed

lemma fds_open_wr_loop:
  assumes "own_fds_kept E p"
  shows "open_wr_loop E p n wait k w = (fd, w') \<Longrightarrow>
     (fd = - 1 \<and> fds_of p w' = fds_of p w) \<or> (0 \<le> fd \<and> fd \<notin> set (fds_of p w) \<and> set (fds_of p w') = insert fd (set (fds_of p w)))"
proof (induction k arbitrary: w)
  case (Suc k)
  obtain fd1 x w1 where o: "sys_open_wr E p n w = (fd1, x, w1)" by (metis prod_cases3)
  note c = fds_open_wr [OF o]
  show ?case
  proof (cases "fd1 < 0")
    case True
    then have f: "fds_of p w1 = fds_of p w" using c by auto
    then have "fds_of p (os_sleep E w1) = fds_of p w" using assms by (simp add: own_fds_kept_def)
    then show ?thesis using Suc.IH [of "os_sleep E w1"] Suc.prems True f by (auto simp: o split: if_splits)
  next
    case False
    then show ?thesis using Suc.prems c by (auto simp: o)
  qed
qed simp

lemma fds_open_for_writing:
  assumes "own_fds_kept E p" "ltr_int_open_fifo_for_writing E p n wait w = (fd, w')"
  shows "set (fds_of p w) \<subseteq> set (fds_of p w') \<and> (0 < fd \<longrightarrow> fd \<notin> set (fds_of p w) \<and> fd \<in> set (fds_of p w'))"
proof -
  obtain ok w1 where m: "ltr_int_make_fifo E n w = (ok, w1)" by fastforce
  show ?thesis
    using assms(2) fds_open_wr_loop [OF assms(1), of n wait 3 w1 fd w'] fds_make_fifo [OF m, of p]
    by (auto simp: ltr_int_open_fifo_for_writing_def m split: if_splits)
qed

lemma fds_create:
  "ltr_int_createSemaphore E p (Some n) w = (sem, w') \<Longrightarrow>
     set (fds_of p w) \<subseteq> set (fds_of p w') \<and> (\<forall>fd. sem = Some fd \<longrightarrow> fd \<notin> set (fds_of p w) \<and> fd \<in> set (fds_of p w'))"
proof -
  assume a: "ltr_int_createSemaphore E p (Some n) w = (sem, w')"
  obtain fd w1 where o: "sys_open_rw E p n w = (fd, w1)" by fastforce
  have "fds_of p w1 = fds_of p w \<and> fd = - 1 \<or> fd \<notin> set (fds_of p w) \<and> set (fds_of p w1) = insert fd (set (fds_of p w))"
  proof (cases "\<exists>i v. new_fd p i True v = (fd, w1) \<and> fds_of p v = fds_of p w")
    case True
    then show ?thesis using fds_new by metis
  next
    case False
    then have "\<not> (new_fd p i True (tick w) = (fd, w1))" "\<not> (new_fd p i True (add_node n x (tick w)) = (fd, w1))" for i x
      by (metis fds_tick fds_add_node)+
    then have "fd = - 1 \<and> w1 = tick w" using o by (auto simp: sys_open_rw_def split: if_splits option.splits)
    then show ?thesis by simp
  qed
  then show ?thesis using a o by (auto simp: ltr_int_createSemaphore_def ltr_int_semaphoreFromFd_def split: if_splits)
qed

lemma fds_lock_test:
  "ltr_int_tryLockSemaphore E p sem w = (ok, w') \<Longrightarrow> fds_of p w' = fds_of p w"
  "ltr_int_testLockSemaphore E p sem w = (ok, w') \<Longrightarrow> fds_of p w' = fds_of p w"
  by (auto simp: ltr_int_tryLockSemaphore_def ltr_int_testLockSemaphore_def sys_tlock_def sys_testlock_def fds_of_def
      split: option.splits if_splits)

lemma fds_gui_lock:
  assumes "ltr_int_gui_lock S p do_lock sem w = Some (free, sem', w')"
  shows "set (fds_of p w) \<subseteq> set (fds_of p w') \<and> (sem' = sem \<or> (\<exists>fd. sem' = Some fd \<and> fd \<notin> set (fds_of p w) \<and> fd \<in> set (fds_of p w')))"
proof (cases "sem = None")
  case False
  then show ?thesis using assms fds_lock_test by (auto simp: ltr_int_gui_lock_def split: prod.splits if_splits)
next
  case True
  then obtain res ps where r: "ltr_int_server_running_already (sv_os S) (sv_dflt S) p gui_lock_name False (Some sem) do_lock w = Some (res, ps, w')"
    and ps: "sem' = the ps"
    using assms by (auto simp: ltr_int_gui_lock_def bind_eq_Some_conv)
  show ?thesis
  proof (cases "sv_dflt S gui_lock_name")
    case None
    then have "ps = Some sem \<and> w' = w" using r by (auto simp: ltr_int_server_running_already_def)
    then show ?thesis using ps by simp
  next
    case (Some f)
    obtain cs w1 where c: "ltr_int_createSemaphore (sv_os S) p (Some f) w = (cs, w1)" by fastforce
    show ?thesis
    proof (cases cs)
      case None
      then have "ps = Some sem \<and> w' = w1" using r by (auto simp: ltr_int_server_running_already_def Some c)
      then show ?thesis using ps fds_create [OF c] by simp
    next
      case (Some fd)
      obtain ok w2 where l: "(if do_lock then ltr_int_tryLockSemaphore (sv_os S) p cs w1 else ltr_int_testLockSemaphore (sv_os S) p cs w1) = (ok, w2)"
        by fastforce
      then have "fds_of p w2 = fds_of p w1" using fds_lock_test by (auto split: if_splits)
      moreover have "ps = Some cs \<and> w' = w2"
        using r l [unfolded Some] by (simp add: ltr_int_server_running_already_def \<open>sv_dflt S gui_lock_name = Some f\<close> c Some Let_def)
      ultimately show ?thesis using fds_create [OF c] ps Some by auto
    qed
  qed
qed

text \<open>The invariant: the pairs are in the order of the profiles, every slave has a descriptor of its own that is open, and it is not
  the one of the lock.\<close>

definition master_ok :: "pid \<Rightarrow> master \<Rightarrow> os \<Rightarrow> bool" where
  "master_ok p m w \<longleftrightarrow> sorted_wrt not_after (slaves m) \<and> distinct (map snd (slaves m)) \<and>
     (\<forall>fd \<in> snd ` set (slaves m). 0 < fd \<and> fd \<in> set (fds_of p w) \<and> pfSem m \<noteq> Some fd) \<and>
     (\<forall>fd. pfSem m = Some fd \<longrightarrow> fd \<in> set (fds_of p w))"

lemma master_ok_cong: "slaves m' = slaves m \<Longrightarrow> pfSem m' = pfSem m \<Longrightarrow> master_ok p m' w = master_ok p m w"
  by (simp add: master_ok_def)

lemma broadcast_ok:
  assumes "ltr_int_broadcast_pose W p pose m w = (m', w')" "master_ok p m w"
  shows "master_ok p m' w'"
proof -
  have b: "slaves m' = filter (\<lambda>s. \<not> gone W s) (slaves m)" "pfSem m' = pfSem m"
    "set (fds_of p w') = set (fds_of p w) - snd ` set (filter (gone W) (slaves m))"
    using broadcast_unfold [OF assms(1)] by (simp_all add: fds_close_all)
  have d: "inj_on snd (set (slaves m))" using assms(2) by (simp add: master_ok_def distinct_map)
  have "distinct (map snd (filter (\<lambda>s. \<not> gone W s) (slaves m)))" using assms(2) by (simp add: master_ok_def distinct_map_filter)
  moreover have "fd \<notin> snd ` set (filter (gone W) (slaves m))" if f: "fd \<in> snd ` set (filter (\<lambda>s. \<not> gone W s) (slaves m))" for fd
  proof
    assume "fd \<in> snd ` set (filter (gone W) (slaves m))"
    then obtain x y where "x \<in> set (slaves m)" "y \<in> set (slaves m)" "gone W x" "\<not> gone W y" "snd x = snd y" using f by auto
    then show False using d by (metis inj_onD)
  qed
  ultimately show ?thesis using assms(2) by (auto simp: master_ok_def b sorted_wrt_filter)
qed

lemma gui_lock_ok:
  assumes "ltr_int_gui_lock S p do_lock (pfSem m) w = Some (free, sem, w')" "master_ok p m w"
  shows "master_ok p (m\<lparr>pfSem := sem\<rparr>) w'"
  using fds_gui_lock [OF assms(1)] assms(2) by (auto simp: master_ok_def)

lemma register_ok:
  assumes "own_fds_kept (sv_os S) p" "ltr_int_register_slave S p msg m pw w = Some (ok, m', pw', w')" "master_ok p m w"
  shows "master_ok p m' w'"
proof -
  obtain fd w1 where o: "ltr_int_open_fifo_for_writing (sv_os S) p (ltr_int_slave_fifo_name (int_of_u32 (msg_data msg))) True w = (fd, w1)"
    by fastforce
  note f = fds_open_for_writing [OF assms(1) o]
  show ?thesis
  proof (cases "fd \<le> 0")
    case True
    then show ?thesis using assms(2,3) f by (auto simp: ltr_int_register_slave_def o master_ok_def)
  next
    case False
    then obtain str where "msg_body msg = MStr str" and m': "slaves m' = mm_insert str fd (slaves m)" "pfSem m' = pfSem m" "w' = w1"
      using assms(2) by (auto simp: ltr_int_register_slave_def o bind_eq_Some_conv Let_def split: body.splits)
    have "mset (map snd (slaves m')) = add_mset fd (mset (map snd (slaves m)))" by (simp only: m'(1) mm_insert_snd)
    moreover have "fd \<notin> set (map snd (slaves m))" using assms(3) f False by (auto simp: master_ok_def)
    ultimately have "distinct (map snd (slaves m'))"
      using assms(3) by (metis distinct.simps(2) master_ok_def mset.simps(2) mset_eq_imp_distinct_iff)
    then show ?thesis using assms(3) f False mm_insert_sorted [of "slaves m" str fd] by (auto simp: master_ok_def m' mm_insert_set)
  qed
qed

lemma dispatch_ok:
  assumes "own_fds_kept (sv_os S) p" "dispatch S p msg m pw w = Some (m', pw', w')" "master_ok p m w"
  shows "master_ok p m' w'"
proof (cases "msg_cmd msg = CMD_NEW_FIFO")
  case True
  then obtain ok where "ltr_int_register_slave S p msg m pw w = Some (ok, m', pw', w')"
    using assms(2) by (auto simp: dispatch_def bind_eq_Some_conv)
  then show ?thesis using register_ok [OF assms(1)] assms(3) by blast
next
  case False
  then have "slaves m' = slaves m \<and> pfSem m' = pfSem m \<and> w' = w"
    using assms(2) by (auto simp: dispatch_def ltr_int_suspend_cmd_def ltr_int_wakeup_cmd_def ltr_int_recenter_cmd_def lib_do_def split: cmds.splits)
  then show ?thesis using assms(3) by (simp add: master_ok_def)
qed

lemma poll_ok:
  assumes "own_fds_kept (sv_os S) p" "master_poll S p sa i m pw w = Some (m', pw', w')" "master_ok p m w"
  shows "master_ok p m' w'"
proof (cases "in_poll i")
  case (PollReady hup msg)
  obtain m1 w1 where b: "(if hup \<and> sa then ltr_int_broadcast_pose (in_writes i) p (paused_dummy (memory i)) m w else (m, w)) = (m1, w1)"
    by fastforce
  then have "master_ok p m1 w1" using broadcast_ok assms(3) by (auto split: if_splits)
  then show ?thesis using assms(2) dispatch_ok [OF assms(1)] by (auto simp: master_poll_def PollReady b split: option.splits)
next
  case PollTimeout
  obtain m1 w1 where b: "ltr_int_broadcast_pose (in_writes i) p (paused_dummy (memory i)) (m\<lparr>heartbeat := heartbeat m + 1\<rparr>) w = (m1, w1)"
    by fastforce
  have h: "master_ok p (x\<lparr>heartbeat := n\<rparr>) v = master_ok p x v" for x n v by (simp add: master_ok_def)
  have 1: "master_ok p m1 w1" using broadcast_ok [OF b] assms(3) by (simp add: h)
  show ?thesis using assms(2,3) 1 by (auto simp: master_poll_def PollTimeout b Let_def h split: if_splits)
qed (use assms in \<open>simp add: master_poll_def\<close>)

lemma pass_ok:
  assumes "own_fds_kept (sv_os S) p" "master_pass S p sa i m pw w = Some (stop, m', pw', w')" "master_ok p m w"
  shows "master_ok p m' w'"
proof -
  obtain m1 pw1 w1 where 1: "master_poll S p sa i m pw w = Some (m1, pw1, w1)" using assms(2) by (auto simp: master_pass_def bind_eq_Some_conv)
  have "master_ok p m1 w1" using poll_ok [OF assms(1) 1 assms(3)] .
  then show ?thesis using assms(2) gui_lock_ok by (auto simp: master_pass_def 1 bind_eq_Some_conv split: if_splits)
qed

text \<open>C27: The table of slaves stays well formed under every sequence of events of a running master: it is in the order of the
  profiles, every slave has a descriptor of its own, which is open in this process, and none of them is the lock's.\<close>

theorem master_well_formed:
  "own_fds_kept (sv_os S) p \<Longrightarrow> master_run S p standalone events m pw w = Some (stopped, m', pw', w') \<Longrightarrow> master_ok p m w \<Longrightarrow>
     master_ok p m' w'"
proof (induction events arbitrary: m pw w)
  case (Cons e es)
  show ?case
  proof (cases e)
    case (NewFrame T W)
    then obtain r pose t m1 w1 where b: "ltr_int_broadcast_pose W p pose (m\<lparr>ms_pose := pose, ms_trk := t\<rparr>) w = (m1, w1)"
      and n: "master_run S p standalone es m1 pw w1 = Some (stopped, m', pw', w')"
      using Cons.prems(2) by (auto simp: ltr_int_new_frame_def bind_eq_Some_conv)
    then have "master_ok p m1 w1" using broadcast_ok [OF b] Cons.prems(3) by (simp add: master_ok_def)
    then show ?thesis using Cons.IH [OF Cons.prems(1) n] by blast
  next
    case (StateChanged st W)
    obtain m1 w1 where c: "ltr_int_state_changed st W p m w = (m1, w1)" by fastforce
    have "master_ok p m1 w1"
      by (rule broadcast_ok [OF c [unfolded ltr_int_state_changed_def Let_def]]) (use Cons.prems(3) in \<open>simp add: master_ok_def\<close>)
    then show ?thesis using Cons StateChanged c by simp
  next
    case (Change W prof axis elem val)
    have "master_ok p (ltr_int_change W prof axis elem val m) w" using Cons.prems(3) by (simp add: ltr_int_change_def master_ok_def)
    then show ?thesis using Cons Change by simp
  next
    case RequestShutdown
    have "master_ok p (snd (ltr_int_request_shutdown m)) w" using Cons.prems(3) by (simp add: ltr_int_request_shutdown_def master_ok_def)
    then show ?thesis using Cons RequestShutdown by simp
  next
    case (Pass i)
    then obtain stop m1 pw1 w1 where x: "master_pass S p standalone i m pw w = Some (stop, m1, pw1, w1)"
      using Cons.prems(2) by (auto simp: bind_eq_Some_conv)
    have "master_ok p m1 w1" using pass_ok [OF Cons.prems(1) x Cons.prems(3)] .
    then show ?thesis using Cons Pass x by (auto split: if_splits)
  qed
qed simp

subsection \<open>A master that no slave reaches\<close>

text \<open>A pass without a message, of which the state of the tracking is no error.\<close>

definition quiet_pass :: "pass_in \<Rightarrow> bool" where
  "quiet_pass i \<longleftrightarrow> (in_poll i = PollError \<or> in_poll i = PollTimeout \<or> in_poll i = PollReady True None) \<and> 0 \<le> state_num (in_end_state i)"

lemma quiet_pass_idle:
  assumes "slaves m = []" "\<not> gui_shutdown_request m" "\<not> no_slaves m" "pfSem m = Some fd" "ofile_at p fd w = Some f" "free_for p (of_ino f) w"
    "\<And>v. \<not> fails (sv_os S) v" "quiet_pass i"
  shows "\<exists>m'. master_pass S p sa i m pw w = Some (False, m', pw, tick w) \<and>
    slaves m' = [] \<and> \<not> gui_shutdown_request m' \<and> \<not> no_slaves m' \<and> pfSem m' = Some fd"
proof -
  have b: "ltr_int_broadcast_pose W p pose x w = (x, w)" if "slaves x = []" "\<not> no_slaves x" for W pose x
    using that by (simp add: ltr_int_broadcast_pose_def)
  have "\<exists>m'. master_poll S p sa i m pw w = Some (m', pw, w) \<and> slaves m' = [] \<and> \<not> gui_shutdown_request m' \<and> \<not> no_slaves m' \<and> pfSem m' = Some fd"
    using assms(1-4,8) by (auto simp: master_poll_def quiet_pass_def b Let_def)
  then obtain m1 where 1: "master_poll S p sa i m pw w = Some (m1, pw, w)" "slaves m1 = []" "\<not> gui_shutdown_request m1" "\<not> no_slaves m1" "pfSem m1 = Some fd"
    by blast
  have "ltr_int_gui_lock S p False (pfSem m1) w = Some (True, Some fd, tick w)"
    using assms(5-7) by (simp add: ltr_int_gui_lock_def 1(5) ltr_int_testLockSemaphore_def sys_testlock_def)
  then show ?thesis using 1 assms(8) by (auto simp: master_pass_def quiet_pass_def)
qed

text \<open>A master started for an application that dies before it registers never leaves: with no slave in its table and no message
  coming, it goes through any number of passes, whether \<open>poll\<close> reports the hang-up of the fifo at once, its timeout or an error.\<close>

theorem master_idles_for_ever:
  assumes "slaves m = []" "\<not> gui_shutdown_request m" "\<not> no_slaves m" "pfSem m = Some fd" "ofile_at p fd w = Some f" "free_for p (of_ino f) w"
    "\<And>v. \<not> fails (sv_os S) v" "list_all quiet_pass passes"
  shows "\<exists>m' w'. master_run S p True (map Pass passes) m pw w = Some (False, m', pw, w') \<and> slaves m' = []"
  using assms(1-6,8)
proof (induction passes arbitrary: m w)
  case (Cons i ps)
  from quiet_pass_idle [OF Cons.prems(1-6) assms(7), of i True pw] Cons.prems(7) obtain m1 where
    1: "master_pass S p True i m pw w = Some (False, m1, pw, tick w)" "slaves m1 = []" "\<not> gui_shutdown_request m1" "\<not> no_slaves m1" "pfSem m1 = Some fd"
    by auto
  have "ofile_at p fd (tick w) = Some f" "free_for p (of_ino f) (tick w)" using Cons.prems(5,6) by (simp_all add: ofile_at_def free_for_def)
  from Cons.IH [OF 1(2-5) this] Cons.prems(7) show ?case by (simp add: 1(1))
qed simp

subsection \<open>Examples\<close>

text \<open>A process with three descriptors: an inherited one, the lock and the fifo of a slave.\<close>

definition demo_os :: os where
  "demo_os = os_empty\<lparr>fdt := [\<lparr>of_pid = 1, of_fd = 2, of_ino = 2, of_rd = False\<rparr>, \<lparr>of_pid = 1, of_fd = 1, of_ino = 1, of_rd = True\<rparr>,
     \<lparr>of_pid = 1, of_fd = 0, of_ino = 0, of_rd = True\<rparr>]\<rparr>"

definition demo_master :: "(string \<times> int) list \<Rightarrow> master" where
  "demo_master sls = \<lparr>slaves = sls, pfSem = Some 1, ms_pose = full_pose zero_comm, save_prefs_flag = True, no_slaves = False,
     gui_shutdown_request = False, heartbeat = 0, ms_trk = tracking_init, ms_calls = [], ms_out = []\<rparr>"

definition demo_srv :: srv_env where
  "demo_srv = \<lparr>sv_os = calm, sv_dflt = Some, sv_pref = \<lparr>home = None, can_read = (\<lambda>_. True), can_write = (\<lambda>_. True), can_rename = (\<lambda>_ _. True),
     on_disk = id\<rparr>, sv_u = Fin 0, sv_raw = demo_axes (demo_axis (Fin 0) (Fin (1 / 2)) (Fin 5))\<rparr>"

definition demo_pworld :: pref_world where
  "demo_pworld = \<lparr>the_prefs = prefs_empty, files = Map.empty, prefs_read = True\<rparr>"

definition demo_pass :: "poll_result \<Rightarrow> pass_in" where
  "demo_pass r = \<lparr>in_poll = r, in_writes = (\<lambda>_. (1, 0)), in_state = PAUSED, in_end_state = PAUSED, memory = full_pose zero_comm\<rparr>"

theorem master_well_formed_witness:
  "\<exists>m' pw' w'. master_run demo_srv 1 True [StateChanged PAUSED (\<lambda>_. (- 1, EPIPE))] (demo_master [(''Game'', 2)]) demo_pworld demo_os =
     Some (False, m', pw', w') \<and> no_slaves m' \<and> master_ok 1 m' w'"
proof -
  have o: "own_fds_kept (sv_os demo_srv) 1" by (simp add: own_fds_kept_def demo_srv_def)
  have k: "master_ok 1 (demo_master [(''Game'', 2)]) demo_os" by (simp add: master_ok_def demo_master_def demo_os_def fds_of_def)
  obtain m' w' where r: "master_run demo_srv 1 True [StateChanged PAUSED (\<lambda>_. (- 1, EPIPE))] (demo_master [(''Game'', 2)]) demo_pworld demo_os =
      Some (False, m', demo_pworld, w')" "no_slaves m'"
    by (simp add: ltr_int_state_changed_def Let_def ltr_int_broadcast_pose_def broadcast_loop_eq demo_master_def gone_def)
  then show ?thesis using master_well_formed [OF o r(1) k] by blast
qed

theorem master_idles_for_ever_witness:
  "\<exists>m' w'. master_run demo_srv 1 True (map Pass [demo_pass PollTimeout, demo_pass (PollReady True None), demo_pass PollError]) (demo_master []) demo_pworld demo_os =
     Some (False, m', demo_pworld, w') \<and> slaves m' = []"
proof -
  have "ofile_at 1 1 demo_os = Some \<lparr>of_pid = 1, of_fd = 1, of_ino = 1, of_rd = True\<rparr>" by (simp add: ofile_at_def demo_os_def)
  moreover have "free_for 1 1 demo_os" by (simp add: free_for_def demo_os_def os_empty_def)
  ultimately show ?thesis
    using master_idles_for_ever [of "demo_master []" 1 1 demo_os _ demo_srv "[demo_pass PollTimeout, demo_pass (PollReady True None), demo_pass PollError]" demo_pworld]
    by (auto simp: demo_master_def quiet_pass_def demo_pass_def demo_srv_def)
qed

end
