(* ===== verification/SrvSlave.thy ===== *)
theory SrvSlave
  imports SrvMaster
begin

text \<open>
  \<open>src/ltr_srv_slave.c\<close>: the process that serves one application. Its reader thread takes the messages of the master, applies the
  axes of the application's profile to the poses and puts them into the memory shared with the application (\<open>sl_com\<close>, changed
  under its lock, so in one step); its main loop passes the application's commands on to the master. The static variables are
  the record \<open>slave\<close>, with those of \<open>tracking.c\<close>, \<open>pref_global.c\<close> and \<open>pref.cpp\<close> in this process. The outcome of a write is a
  function of the moment, as the other processes are.
\<close>

record slave =
  master_uplink :: int
  master_downlink :: int
  profile_name :: string
  sl_axes :: ltr_axes
  sl_post :: post_mem
  sl_glob :: gprefs
  sl_prefs :: prefs
  sl_notify :: bool
  sl_notify_pipe :: int
  sl_com :: ltr_comm
  sl_out :: outbox
  note_count :: nat
  slave_lock :: semaphore_p
  master_lock :: semaphore_p
  sl_gui :: semaphore_p
  master_works :: bool
  received_frames :: int

subsection \<open>Finding the master\<close>

text \<open>\<open>F\<close> is what becomes of the system while a new master starts and detaches itself; \<open>Wt\<close> gives the outcome of the writes.\<close>

record slave_env =
  se_srv :: srv_env
  se_fork :: "os \<Rightarrow> os"
  se_writes :: "os \<Rightarrow> writes"

definition ltr_int_open_slave_fifo :: "slave_env \<Rightarrow> pid \<Rightarrow> int \<Rightarrow> slave \<Rightarrow> os \<Rightarrow> (int \<times> slave \<times> os) option" where
  "ltr_int_open_slave_fifo E p uplink s w =
     do { (_, fifo_number, downlink, lock, w) \<leftarrow> ltr_int_open_unique_fifo (sv_os (se_srv E)) (sv_dflt (se_srv E)) p
              (\<lambda>n. ltr_int_slave_fifo_name (int n)) ltr_int_max_slave_fifos (slave_lock s) w;
          let s = s\<lparr>slave_lock := lock\<rparr>;
          if downlink \<le> 0 then Some (- 1, s, w)
          else case ltr_int_send_message_w_str (se_writes E w) uplink CMD_NEW_FIFO (of_nat fifo_number) (Some (profile_name s)) (sl_out s) of (res, out) \<Rightarrow>
            let s = s\<lparr>sl_out := out\<rparr>
            in Some (if res = 0 then (downlink, s, w) else (- 1, s, sys_close p downlink w)) }"

definition close_master_comms :: "pid \<Rightarrow> slave \<Rightarrow> os \<Rightarrow> slave \<times> os" where
  "close_master_comms p s w =
     (let (s, w) = (if master_downlink s > 0 then (s\<lparr>master_downlink := - 1\<rparr>, sys_close p (master_downlink s) w) else (s, w))
      in if master_uplink s > 0 then (s\<lparr>master_uplink := - 1\<rparr>, sys_close p (master_uplink s) w) else (s, w))"

definition start_master :: "slave_env \<Rightarrow> pid \<Rightarrow> slave \<Rightarrow> os \<Rightarrow> (slave \<times> os) option" where
  "start_master E p s w =
     do { (fifo, lock, w) \<leftarrow> ltr_int_open_fifo_exclusive (sv_os (se_srv E)) (sv_dflt (se_srv E)) p ltr_int_master_fifo_name (master_lock s) w;
          let s = s\<lparr>master_lock := lock\<rparr>;
          if fifo > 0
          then do { w \<leftarrow> ltr_int_closeSemaphore p lock (snd (ltr_int_unlockSemaphore (sv_os (se_srv E)) p lock (sys_close p fifo w)));
                    let (s, w) = close_master_comms p s w;
                    Some (s, se_fork E w) }
          else Some (s, w) }"

definition open_master_comms :: "slave_env \<Rightarrow> pid \<Rightarrow> slave \<Rightarrow> os \<Rightarrow> (bool \<times> slave \<times> os) option" where
  "open_master_comms E p s w =
     (case ltr_int_open_fifo_for_writing (sv_os (se_srv E)) p ltr_int_master_fifo_name True w of (uplink, w) \<Rightarrow>
        let s = s\<lparr>master_uplink := uplink\<rparr>
        in if uplink \<le> 0 then Some (False, s, w)
           else do { (downlink, s, w) \<leftarrow> ltr_int_open_slave_fifo E p uplink s w;
                     Some (if downlink \<le> 0 then (False, s\<lparr>master_uplink := - 1, master_downlink := - 1\<rparr>, sys_close p uplink w)
                           else (True, s\<lparr>master_downlink := downlink\<rparr>, w)) })"

definition master_retries :: int where "master_retries = 3"

text \<open>While the graphical interface is running the attempts are not counted, so the loop need not end: the outer option.\<close>

partial_function (option) try_start_loop :: "slave_env \<Rightarrow> pid \<Rightarrow> int \<Rightarrow> slave \<Rightarrow> os \<Rightarrow> (bool \<times> slave \<times> os) option option" where
  "try_start_loop E p retries s w =
     (if retries \<le> 0 then Some (Some (False, s, w))
      else let (s, w) = close_master_comms p s w in
        (case do { (free, gui, w) \<leftarrow> ltr_int_gui_lock (se_srv E) p False (sl_gui s) w;
                   let s = s\<lparr>sl_gui := gui\<rparr>;
                   (s, w) \<leftarrow> (if free then start_master E p s w else Some (s, w));
                   (ok, s, w) \<leftarrow> open_master_comms E p s w;
                   Some (free, ok, s, w) } of
           None \<Rightarrow> Some None
         | Some (free, ok, s, w) \<Rightarrow>
             if ok then Some (Some (True, s, w))
             else try_start_loop E p (if free then retries - 1 else master_retries) s (os_sleep (sv_os (se_srv E)) w)))"

definition ltr_int_try_start_master :: "slave_env \<Rightarrow> pid \<Rightarrow> slave \<Rightarrow> os \<Rightarrow> (bool \<times> slave \<times> os) option option" where
  "ltr_int_try_start_master E p s w = try_start_loop E p master_retries s w"

subsection \<open>Messages from the master\<close>

text \<open>The numbers of the axes and of the parameters; an unknown number is no axis (a failed assertion) or no parameter.\<close>

definition axis_list :: "axis_t list" where
  "axis_list = [PITCH, ROLL, YAW, TX, TY, TZ, MISC]"

definition axis_of :: "u32 \<Rightarrow> axis_t option" where
  "axis_of n = rd axis_list (unat n)"

definition param_list :: "axis_param_t list" where
  "param_list = [AXIS_ENABLED, AXIS_DEADZONE, AXIS_LCURV, AXIS_RCURV, AXIS_MULT, AXIS_LLIMIT, AXIS_RLIMIT, AXIS_FILTER, AXIS_INVERTED,
     AXIS_FULL, MISC_LEGR, MISC_ALTER, MISC_ALIGN, MISC_FOCAL_LENGTH]"

definition param_of_num :: "u32 \<Rightarrow> axis_param_t" where
  "param_of_num n = (case rd param_list (unat n) of None \<Rightarrow> AXIS_DEFAULT | Some k \<Rightarrow> k)"

datatype received = RecvError | RecvNothing | Recv message_t

definition set_global :: "prefs \<times> gprefs \<Rightarrow> slave \<Rightarrow> slave" where
  "set_global pg s = s\<lparr>sl_prefs := fst pg, sl_glob := snd pg\<rparr>"

definition process_param :: "param_t \<Rightarrow> slave \<Rightarrow> (bool \<times> slave) option" where
  "process_param pm s =
     (let on = flt_less (Fin (1 / 2)) (flt_val pm); param = param_of_num (msg_param_id pm)
      in if axis_of (axis_id pm) = Some MISC then
           (case param of
              MISC_ALTER \<Rightarrow> Some (True, set_global (ltr_int_set_use_alter on (sl_prefs s) (sl_glob s)) s)
            | MISC_ALIGN \<Rightarrow> Some (True, set_global (ltr_int_set_tr_align on (sl_prefs s) (sl_glob s)) s)
            | MISC_LEGR \<Rightarrow> Some (True, set_global (ltr_int_set_use_oldrot on (sl_prefs s) (sl_glob s)) s)
            | MISC_FOCAL_LENGTH \<Rightarrow> Some (True, set_global (ltr_int_set_focal_length (flt_val pm) (sl_prefs s) (sl_glob s)) s)
            | _ \<Rightarrow> Some (False, s))
         else do { axis \<leftarrow> axis_of (axis_id pm);
                   (_, axes, p) \<leftarrow> (if param = AXIS_ENABLED then ltr_int_set_axis_bool_param axis param on (sl_axes s) (sl_prefs s)
                                   else ltr_int_set_axis_param axis param (flt_val pm) (sl_axes s) (sl_prefs s));
                   Some (True, s\<lparr>sl_axes := axes, sl_prefs := p\<rparr>) })"

definition process_pose :: "libm \<Rightarrow> linuxtrack_pose_t \<Rightarrow> linuxtrack_full_pose_t \<Rightarrow> slave \<Rightarrow> slave option" where
  "process_pose M raw pose s =
     do { (_, axes, p, _, post, g) \<leftarrow> ltr_int_postprocess_axes M (sl_prefs s) (sl_axes s) (fp_pose pose) raw (sl_post s) (sl_glob s);
          let pose = pose\<lparr>fp_pose := p\<rparr>;
          let com = sl_com s;
          let com = (if pose_status p = status_of RUNNING then com\<lparr>full_pose := pose\<rparr> else com);
          let com = com\<lparr>com_state := sint (pose_status p), preparing_start := False\<rparr>;
          Some (s\<lparr>sl_axes := axes, sl_post := post, sl_glob := g, sl_com := com,
                  note_count := (if sl_notify s \<and> sl_notify_pipe s > 0 then note_count s + 1 else note_count s)\<rparr>) }"

definition ltr_int_process_message :: "libm \<Rightarrow> linuxtrack_pose_t \<Rightarrow> received \<Rightarrow> slave \<Rightarrow> (bool \<times> slave) option" where
  "ltr_int_process_message M raw r s = (case r of
     RecvError \<Rightarrow> Some (False, s)
   | RecvNothing \<Rightarrow> Some (True, s)
   | Recv msg \<Rightarrow>
       (case (msg_cmd msg, msg_body msg) of
          (CMD_NOP, _) \<Rightarrow> Some (True, s)
        | (CMD_POSE, MPose pose) \<Rightarrow> map_option (Pair True) (process_pose M raw pose s)
        | (CMD_PARAM, MParam pm) \<Rightarrow> process_param pm s
        | (CMD_POSE, _) \<Rightarrow> None
        | (CMD_PARAM, _) \<Rightarrow> None
        | _ \<Rightarrow> Some (False, s)))"

text \<open>The inner loop of the reader thread; each input is one \<open>poll\<close> and what follows, with whether the parent is alive. It ends
  with the connection (after which the master is looked for again) or with the parent.\<close>

datatype poll_in = PErr | PTimeout bool | PHup | PMsg received bool

datatype reader_end = Reconnect | ParentGone | StillReading

fun reader_loop :: "libm \<Rightarrow> linuxtrack_pose_t \<Rightarrow> poll_in list \<Rightarrow> int \<Rightarrow> slave \<Rightarrow> (reader_end \<times> slave) option" where
  "reader_loop M raw [] poll_errs s = Some (StillReading, s)"
| "reader_loop M raw (i # ins) poll_errs s = (case i of
     PErr \<Rightarrow> if poll_errs + 1 > 3 then Some (Reconnect, s) else reader_loop M raw ins (poll_errs + 1) s
   | PTimeout alive \<Rightarrow> if \<not> alive then Some (ParentGone, s) else reader_loop M raw ins poll_errs s
   | PHup \<Rightarrow> Some (Reconnect, s)
   | PMsg r alive \<Rightarrow>
       do { (ok, s) \<leftarrow> ltr_int_process_message M raw r s;
            let s = (if ok then s\<lparr>received_frames := received_frames s + 1, master_works := master_works s \<or> received_frames s + 1 > 20\<rparr> else s);
            if \<not> alive then Some (ParentGone, s) else reader_loop M raw ins poll_errs s })"

subsection \<open>Commands of the application\<close>

record loop_st =
  lp_cmd :: ltr_cmd
  lp_recenter :: bool
  quit_flag :: bool

definition loop_init :: loop_st where
  "loop_init = \<lparr>lp_cmd = NOP_CMD, lp_recenter = False, quit_flag = False\<rparr>"

definition take_request :: "loop_st \<Rightarrow> slave \<Rightarrow> loop_st \<times> slave" where
  "take_request l s =
     (let com = sl_com s
      in if com_cmd com \<noteq> NOP_CMD \<or> com_recenter com
         then (l\<lparr>lp_cmd := com_cmd com, lp_recenter := com_recenter com\<rparr>,
               s\<lparr>sl_notify := com_notify com, sl_com := com\<lparr>com_cmd := NOP_CMD, com_recenter := False\<rparr>\<rparr>)
         else (l, s))"

definition forward :: "writes \<Rightarrow> ltr_cmd \<Rightarrow> slave \<Rightarrow> int \<times> bool \<times> slave" where
  "forward W cmd s =
     (let put = (\<lambda>c. case ltr_int_send_message W (master_uplink s) c 0 (sl_out s) of (res, out) \<Rightarrow> (res, False, s\<lparr>sl_out := out\<rparr>))
      in case cmd of PAUSE_CMD \<Rightarrow> put CMD_PAUSE | RUN_CMD \<Rightarrow> put CMD_WAKEUP | STOP_CMD \<Rightarrow> (0, True, s) | FRAMES_CMD \<Rightarrow> put CMD_FRAMES
         | NOP_CMD \<Rightarrow> (0, False, s))"

text \<open>The attempts to forward a command: before each the other threads and processes act, \<open>at_other\<close>, which may change the connection and
  the shared memory; \<open>at_alive\<close> is whether the parent lives after it. When the list is used up the slave is still trying: no result.\<close>

record attempt =
  at_other :: "slave \<Rightarrow> slave"
  at_writes :: writes
  at_alive :: bool

fun forward_loop :: "attempt list \<Rightarrow> ltr_cmd \<Rightarrow> slave \<Rightarrow> (bool \<times> slave) option" where
  "forward_loop [] cmd s = None"
| "forward_loop (a # ats) cmd s =
     (case forward (at_writes a) cmd (at_other a s) of (res, quit, s) \<Rightarrow>
        if \<not> at_alive a then Some (quit, s)
        else if res < 0 \<and> \<not> quit then forward_loop ats cmd s
        else Some (quit, s))"

text \<open>One pass of the main loop; \<open>W\<close> is the outcome of the request to recentre. The first part of the result: the loop is left.\<close>

definition slave_pass :: "attempt list \<Rightarrow> writes \<Rightarrow> bool \<Rightarrow> loop_st \<Rightarrow> slave \<Rightarrow> (bool \<times> loop_st \<times> slave) option" where
  "slave_pass ats W alive l s =
     (case take_request l s of (l, s) \<Rightarrow>
        do { (quit, s) \<leftarrow> forward_loop ats (lp_cmd l) s;
             let l = l\<lparr>quit_flag := quit_flag l \<or> quit, lp_cmd := NOP_CMD\<rparr>;
             let (l, s) = (if lp_recenter l
                           then (case ltr_int_send_message W (master_uplink s) CMD_RECENTER 0 (sl_out s) of (res, out) \<Rightarrow>
                                   (l\<lparr>lp_recenter := (lp_recenter l \<and> res < 0)\<rparr>, s\<lparr>sl_out := out\<rparr>))
                           else (l, s));
             Some (\<not> alive \<or> quit_flag l, l, s) })"

text \<open>Passes until the loop is left; each comes with its attempts and the outcome of its request to recentre, the parent lives.\<close>

fun slave_passes :: "(attempt list \<times> writes) list \<Rightarrow> loop_st \<Rightarrow> slave \<Rightarrow> (loop_st \<times> slave) option" where
  "slave_passes [] l s = Some (l, s)"
| "slave_passes ((ats, W) # ps) l s =
     do { (left, l, s) \<leftarrow> slave_pass ats W True l s;
          if left then Some (l, s) else slave_passes ps l s }"

subsection \<open>Start and end\<close>

text \<open>The arguments are already converted: profile, name of the shared file, the parent's pipe end to close, and the pipe to notify.
  \<open>com\<close> is the content of the shared file. Failing returns the value false, at which the process ends.\<close>

definition slave_start ::
  "slave_env \<Rightarrow> pid \<Rightarrow> string \<Rightarrow> string \<Rightarrow> int \<Rightarrow> int \<Rightarrow> ltr_comm \<Rightarrow> pref_world \<Rightarrow> mmap_s \<Rightarrow> os \<Rightarrow>
   ((slave \<times> mmap_s) option \<times> pref_world \<times> os) option" where
  "slave_start E p profile com_file close_pipe note_pipe com pw mm w =
     (let w = (if close_pipe > 0 then sys_close p close_pipe w else w)
      in do {
         (ok, pw) \<leftarrow> ltr_int_read_prefs (sv_pref (se_srv E)) None False pw;
         if \<not> ok then Some (None, pw, w)
         else do {
           (axes, prefs) \<leftarrow> ltr_int_init_axes profile (sv_u (se_srv E)) (sv_raw (se_srv E)) (the_prefs pw);
           let pw = pw\<lparr>the_prefs := prefs\<rparr>;
           case ltr_int_mmap_file (sv_os (se_srv E)) p com_file 40 mm w of (ok, mm, w) \<Rightarrow>
           if \<not> ok then Some (None, pw, w)
           else Some (Some (\<lparr>master_uplink = - 1, master_downlink = - 1, profile_name = profile, sl_axes = axes, sl_post = post_init,
                  sl_glob = gprefs_init, sl_prefs = prefs, sl_notify = False, sl_notify_pipe = note_pipe, sl_com = com, sl_out = [],
                  note_count = 0, slave_lock = None, master_lock = None, sl_gui = None, master_works = False, received_frames = 0\<rparr>, mm), pw, w) } })"

definition slave_end :: "slave_env \<Rightarrow> pid \<Rightarrow> slave \<Rightarrow> mmap_s \<Rightarrow> pref_world \<Rightarrow> os \<Rightarrow> (slave \<times> mmap_s \<times> pref_world \<times> os) option" where
  "slave_end E p s mm pw w =
     (case close_master_comms p s w of (s, w) \<Rightarrow>
        do { (_, mm, w) \<leftarrow> ltr_int_unmap_file (sv_os (se_srv E)) p mm w;
             (gui, w) \<leftarrow> ltr_int_gui_lock_clean (se_srv E) p (sl_gui s) w;
             Some (s\<lparr>sl_gui := gui\<rparr>, mm, ltr_int_free_prefs pw, sys_close p (sl_notify_pipe s) w) })"

subsection \<open>The pose an application reads\<close>

lemma status_number: "sint (status_of st) = state_num st"
  by (cases st) (simp_all add: status_of_def)

lemma status_of_inj: "(status_of a = status_of b) = (a = b)"
proof -
  have "state_num a = state_num b \<Longrightarrow> a = b" by (cases a; cases b) simp_all
  then show ?thesis by (metis status_number)
qed

text \<open>C25: A pose the master sends while the camera runs is what the application reads next: the message is accepted, the shared
  structure holds the pose after the axes of the profile, the application is told RUNNING and the new counter, and when the axes
  gave a result the three angles it reads are numbers of at most 180 degrees and the translation is finite. In every other state of
  the tracking only the state changes, and the application keeps reading the last pose.\<close>

theorem pose_reaches_application:
  assumes "mem_finite (sl_post s)" "pose_status (fp_pose pose) = status_of st" "connected c"
  shows "\<exists>s' ok axes' p' unf' m' g'.
    ltr_int_process_message M unset (Recv (pose_message pose)) s = Some (True, s') \<and> mem_finite (sl_post s') \<and>
    ltr_int_postprocess_axes M (sl_prefs s) (sl_axes s) (fp_pose pose) unset (sl_post s) (sl_glob s) = Some (ok, axes', p', unf', m', g') \<and>
    ltr_get_tracking_state c (sl_com s') = state_num st \<and>
    (if st = RUNNING
     then ltr_get_pose c (sl_com s') out =
         (if o_counter out \<noteq> counter (fp_pose pose) then 1 else 0,
          \<lparr>o_heading = yaw p', o_pitch = pitch p', o_roll = roll p', o_tx = tx p', o_ty = ty p', o_tz = tz p', o_counter = counter (fp_pose pose)\<rparr>) \<and>
       (ok \<longrightarrow> angle_ok (pitch p') \<and> angle_ok (yaw p') \<and> angle_ok (roll p') \<and> is_fin (tx p') \<and> is_fin (ty p') \<and> is_fin (tz p'))
     else full_pose (sl_com s') = full_pose (sl_com s))"
proof -
  obtain ok axes' p' unf' m' g' where r:
    "ltr_int_postprocess_axes M (sl_prefs s) (sl_axes s) (fp_pose pose) unset (sl_post s) (sl_glob s) = Some (ok, axes', p', unf', m', g')"
    "mem_finite m'" "counter p' = counter (fp_pose pose)" "pose_status p' = pose_status (fp_pose pose)"
    "ok \<longrightarrow> angle_ok (pitch p') \<and> angle_ok (yaw p') \<and> angle_ok (roll p') \<and> is_fin (tx p') \<and> is_fin (ty p') \<and> is_fin (tz p')"
    using postprocess_result [OF assms(1), of M "sl_prefs s" "sl_axes s" "fp_pose pose" unset "sl_glob s"] by blast
  let ?com = "(if st = RUNNING then (sl_com s)\<lparr>full_pose := pose\<lparr>fp_pose := p'\<rparr>\<rparr> else sl_com s)\<lparr>com_state := state_num st, preparing_start := False\<rparr>"
  let ?s = "s\<lparr>sl_axes := axes', sl_post := m', sl_glob := g', sl_com := ?com,
    note_count := (if sl_notify s \<and> sl_notify_pipe s > 0 then note_count s + 1 else note_count s)\<rparr>"
  have "ltr_int_process_message M unset (Recv (pose_message pose)) s = Some (True, ?s)"
    using r(4) assms(2) by (simp add: ltr_int_process_message_def pose_message_def process_pose_def r(1) Let_def status_of_inj status_number)
  moreover have "ltr_get_tracking_state c ?com = state_num st" using assms(3) by (simp add: ltr_get_tracking_state_def)
  moreover have "st = RUNNING \<Longrightarrow> ltr_get_pose c ?com out = (if o_counter out \<noteq> counter (fp_pose pose) then 1 else 0,
      \<lparr>o_heading = yaw p', o_pitch = pitch p', o_roll = roll p', o_tx = tx p', o_ty = ty p', o_tz = tz p', o_counter = counter (fp_pose pose)\<rparr>)"
    using assms(3) r(3) by (simp add: ltr_get_pose_def Let_def)
  ultimately show ?thesis using r(1,2,5) by (intro exI [of _ ?s] exI conjI) auto
qed

subsection \<open>Commands of the application reach the tracker\<close>

text \<open>The commands, the messages they become and the calls the master makes.\<close>

definition command_table :: "(ltr_cmd \<times> cmds \<times> lib_call) list" where
  "command_table = [(PAUSE_CMD, CMD_PAUSE, CallSuspendLib), (RUN_CMD, CMD_WAKEUP, CallWakeupLib), (FRAMES_CMD, CMD_FRAMES, CallPublish)]"

definition plain_message :: "cmds \<Rightarrow> message_t" where
  "plain_message c = \<lparr>msg_cmd = c, msg_data = 0, msg_body = MStr []\<rparr>"

lemma loop_init_simps [simp]: "lp_cmd loop_init = NOP_CMD" "\<not> lp_recenter loop_init" "\<not> quit_flag loop_init"
  by (simp_all add: loop_init_def)

lemma send_message_ok:
  "0 \<le> fst (W fd) \<Longrightarrow> 0 < fd \<Longrightarrow> ltr_int_send_message W fd c 0 out = (0, out @ [(fd, plain_message c)])"
  by (simp add: ltr_int_send_message_def fifo_put_ok plain_message_def)

lemma send_message_bad:
  "fd \<le> 0 \<or> fst (W fd) < 0 \<and> 0 < snd (W fd) \<Longrightarrow> \<exists>r < 0. ltr_int_send_message W fd c 0 out = (r, out)"
  by (auto simp: ltr_int_send_message_def fifo_put_def ltr_int_fifo_send_def split: prod.splits)

text \<open>An attempt during which nothing else writes to the master and the application makes no new request; one that fails.\<close>

definition quiet :: "attempt \<Rightarrow> bool" where
  "quiet b \<longleftrightarrow> (\<forall>v. master_uplink (at_other b v) = master_uplink v \<and> sl_out (at_other b v) = sl_out v \<and>
     com_cmd (sl_com (at_other b v)) = com_cmd (sl_com v) \<and> com_recenter (sl_com (at_other b v)) = com_recenter (sl_com v))"

definition failed_attempt :: "int \<Rightarrow> attempt \<Rightarrow> bool" where
  "failed_attempt fd a \<longleftrightarrow> at_alive a \<and> fst (at_writes a fd) < 0 \<and> 0 < snd (at_writes a fd)"

definition no_request :: "slave \<Rightarrow> bool" where
  "no_request s \<longleftrightarrow> com_cmd (sl_com s) = NOP_CMD \<and> \<not> com_recenter (sl_com s)"

lemma quiet_no_request [simp]: "quiet b \<Longrightarrow> no_request (at_other b v) = no_request v"
  by (simp add: quiet_def no_request_def)

lemma forward_command:
  "(cmd, c, call) \<in> set command_table \<Longrightarrow> forward W cmd s =
     (case ltr_int_send_message W (master_uplink s) c 0 (sl_out s) of (res, out) \<Rightarrow> (res, False, s\<lparr>sl_out := out\<rparr>))"
  by (auto simp: forward_def command_table_def)

lemma forward_loop_delivers:
  assumes "(cmd, c, call) \<in> set command_table" "0 < master_uplink s" "list_all (failed_attempt (master_uplink s)) fs"
    "list_all quiet (a # fs)" "0 \<le> fst (at_writes a (master_uplink s))"
  shows "\<exists>s'. forward_loop (fs @ a # rest) cmd s = Some (False, s') \<and> master_uplink s' = master_uplink s \<and>
    sl_out s' = sl_out s @ [(master_uplink s, plain_message c)] \<and> no_request s' = no_request s"
  using assms(2-5)
proof (induction fs arbitrary: s)
  case Nil
  have k: "master_uplink (at_other a s) = master_uplink s" "sl_out (at_other a s) = sl_out s" "quiet a"
    using Nil.prems(3) by (simp_all add: quiet_def)
  have n: "no_request ((at_other a s)\<lparr>sl_out := out\<rparr>) = no_request s" for out
    using quiet_no_request [OF k(3), of s] by (simp add: no_request_def)
  show ?case using send_message_ok [of "at_writes a", OF Nil.prems(4,1), of c "sl_out s"] by (simp add: forward_command [OF assms(1)] k n)
next
  case (Cons b bs)
  have k: "master_uplink (at_other b s) = master_uplink s" "sl_out (at_other b s) = sl_out s" "quiet b"
    using Cons.prems(3) by (simp_all add: quiet_def)
  have f: "failed_attempt (master_uplink s) b" using Cons.prems(2) by simp
  then obtain r where r: "r < 0" "ltr_int_send_message (at_writes b) (master_uplink s) c 0 (sl_out s) = (r, sl_out s)"
    using send_message_bad [of "master_uplink s" "at_writes b" c "sl_out s"] by (auto simp: failed_attempt_def)
  let ?s = "(at_other b s)\<lparr>sl_out := sl_out s\<rparr>"
  have n: "no_request ?s = no_request s" using quiet_no_request [OF k(3), of s] by (simp add: no_request_def)
  have "\<exists>s'. forward_loop (bs @ a # rest) cmd ?s = Some (False, s') \<and> master_uplink s' = master_uplink ?s \<and>
      sl_out s' = sl_out ?s @ [(master_uplink ?s, plain_message c)] \<and> no_request s' = no_request ?s"
    by (rule Cons.IH) (use Cons.prems k in auto)
  then show ?case using r f n by (simp add: forward_command [OF assms(1)] k failed_attempt_def)
qed

text \<open>Without a request a pass sends nothing, and neither do all that follow.\<close>

lemma idle_passes:
  assumes "no_request s" "lp_cmd l = NOP_CMD" "\<not> lp_recenter l" "\<not> quit_flag l"
    "list_all (\<lambda>(ats, W). ats \<noteq> [] \<and> quiet (hd ats)) ps"
  shows "\<exists>s'. slave_passes ps l s = Some (l, s') \<and> sl_out s' = sl_out s"
  using assms(1,5)
proof (induction ps arbitrary: s)
  case (Cons p ps)
  obtain b ats W where p: "p = (b # ats, W)" "quiet b" using Cons.prems(2) by (cases p; cases "fst p") auto
  have "take_request l s = (l, s)" using Cons.prems(1) by (simp add: take_request_def no_request_def)
  moreover have "forward_loop (b # ats) NOP_CMD s = Some (False, at_other b s)" by (simp add: forward_def)
  ultimately have pass: "slave_pass (b # ats) W True l s = Some (False, l, at_other b s)"
    using assms(2-4) by (cases l) (simp add: slave_pass_def del: forward_loop.simps)
  have "no_request (at_other b s)" "sl_out (at_other b s) = sl_out s" using Cons.prems(1) p(2) by (simp_all add: quiet_def no_request_def)
  with Cons.IH [of "at_other b s"] Cons.prems(2) pass show ?case by (simp add: p(1))
qed simp

text \<open>C24: A command of the application reaches the tracker exactly once (\<open>ltlib.c\<close>, \<open>ltr_srv_slave.c\<close>, \<open>ltr_srv_master.cpp\<close>). The client stores it in the
  shared structure; one pass of the slave takes it out, repeats the write until it succeeds, and passes a request to
  recentre on behind it; the master makes the call the message stands for; and however many passes follow while the application makes no other
  request, nothing more is sent.\<close>

theorem command_reaches_tracker:
  assumes "(cmd, c, call) \<in> set command_table" "connected cl" "sl_com s = snd (send_cmd cmd cl com)" "0 < master_uplink s"
    "list_all (failed_attempt (master_uplink s)) fs" "list_all quiet (a # fs)"
    "0 \<le> fst (at_writes a (master_uplink s))" "0 \<le> fst (W (master_uplink s))"
    "list_all (\<lambda>(ats, W). ats \<noteq> [] \<and> quiet (hd ats)) ps"
  shows "\<exists>l' s' s''. slave_pass (fs @ a # rest) W True loop_init s = Some (False, l', s') \<and>
    sl_out s' = sl_out s @ map (\<lambda>k. (master_uplink s, plain_message k)) (c # (if com_recenter com then [CMD_RECENTER] else [])) \<and>
    dispatch S p (plain_message c) m pw w = Some (m\<lparr>ms_calls := ms_calls m @ [call]\<rparr>, pw, w) \<and>
    slave_passes ps l' s' = Some (l', s'') \<and> sl_out s'' = sl_out s'"
proof -
  have n: "cmd \<noteq> NOP_CMD" using assms(1) by (auto simp: command_table_def)
  have t: "sl_com s = com\<lparr>com_cmd := cmd\<rparr>" using assms(2,3) by (simp add: send_cmd_def)
  let ?s = "s\<lparr>sl_notify := com_notify com, sl_com := com\<lparr>com_cmd := NOP_CMD, com_recenter := False\<rparr>\<rparr>"
  have tk: "take_request loop_init s = (loop_init\<lparr>lp_cmd := cmd, lp_recenter := com_recenter com\<rparr>, ?s)"
    using n by (simp add: take_request_def t)
  have nr: "no_request ?s" by (simp add: no_request_def)
  obtain s1 where f: "forward_loop (fs @ a # rest) cmd ?s = Some (False, s1)" "master_uplink s1 = master_uplink s"
    "sl_out s1 = sl_out s @ [(master_uplink s, plain_message c)]" "no_request s1"
    using forward_loop_delivers [OF assms(1), of ?s fs a rest] assms(4-7) nr by auto
  define s2 where "s2 = (if com_recenter com then s1\<lparr>sl_out := sl_out s1 @ [(master_uplink s, plain_message CMD_RECENTER)]\<rparr> else s1)"
  have p: "slave_pass (fs @ a # rest) W True loop_init s = Some (False, loop_init, s2)"
    using f(1-3) send_message_ok [of W, OF assms(8,4), of CMD_RECENTER "sl_out s1"]
    by (cases "com_recenter com") (simp_all add: slave_pass_def tk [unfolded loop_init_def] s2_def loop_init_def)
  have "no_request s2" using f(4) by (simp add: s2_def no_request_def)
  from idle_passes [OF this loop_init_simps assms(9)] obtain s'' where q: "slave_passes ps loop_init s2 = Some (loop_init, s'')" "sl_out s'' = sl_out s2"
    by blast
  have "dispatch S p (plain_message c) m pw w = Some (m\<lparr>ms_calls := ms_calls m @ [call]\<rparr>, pw, w)"
    using assms(1) by (auto simp: command_table_def dispatch_def plain_message_def ltr_int_suspend_cmd_def ltr_int_wakeup_cmd_def lib_do_def)
  then show ?thesis using p q f(3) by (auto simp: s2_def)
qed

subsection \<open>Requests that are lost\<close>

text \<open>A request to recentre that could not be passed on is dropped when the next command of the application comes: after a pass
  whose write of the request failed and a pass that takes the application's request to pause, everything written to a master
  that now listens is the message to pause; the request to recentre is gone.\<close>

theorem recentre_request_lost:
  assumes "connected cl" "sl_com s = snd (ltr_recenter cl com)" "com_cmd com = NOP_CMD" "0 < master_uplink s"
    "fst (W (master_uplink s)) < 0" "0 < snd (W (master_uplink s))" "\<And>fd. 0 \<le> fst (W2 fd)"
  shows "\<exists>l1 s1 l2 s2. slave_pass [\<lparr>at_other = id, at_writes = W, at_alive = True\<rparr>] W True loop_init s = Some (False, l1, s1) \<and> lp_recenter l1 \<and>
    slave_pass [\<lparr>at_other = id, at_writes = W2, at_alive = True\<rparr>] W2 True l1 (s1\<lparr>sl_com := snd (ltr_suspend cl (sl_com s1))\<rparr>) = Some (False, l2, s2) \<and>
    \<not> lp_recenter l2 \<and> \<not> com_recenter (sl_com s2) \<and> sl_out s2 = sl_out s @ [(master_uplink s, plain_message CMD_PAUSE)]"
proof -
  obtain r where r: "r < 0" "ltr_int_send_message W (master_uplink s) CMD_RECENTER 0 (sl_out s) = (r, sl_out s)"
    using send_message_bad [of "master_uplink s" W CMD_RECENTER "sl_out s"] assms(5,6) by auto
  have t: "sl_com s = com\<lparr>com_recenter := True\<rparr>" using assms(1,2) by (simp add: ltr_recenter_def)
  let ?l1 = "loop_init\<lparr>lp_recenter := True\<rparr>" and ?s1 = "s\<lparr>sl_notify := com_notify com, sl_com := com\<lparr>com_recenter := False\<rparr>\<rparr>"
  have c: "com\<lparr>com_recenter := True, com_cmd := NOP_CMD, com_recenter := False\<rparr> = com\<lparr>com_recenter := False\<rparr>" using assms(3) by simp
  have 1: "slave_pass [\<lparr>at_other = id, at_writes = W, at_alive = True\<rparr>] W True loop_init s = Some (False, ?l1, ?s1)"
    using r assms(3) by (simp add: slave_pass_def take_request_def t forward_def loop_init_def)
  have 2: "\<exists>l2 s2. slave_pass [\<lparr>at_other = id, at_writes = W2, at_alive = True\<rparr>] W2 True ?l1 (?s1\<lparr>sl_com := snd (ltr_suspend cl (sl_com ?s1))\<rparr>)
      = Some (False, l2, s2) \<and> \<not> lp_recenter l2 \<and> \<not> com_recenter (sl_com s2) \<and> sl_out s2 = sl_out s @ [(master_uplink s, plain_message CMD_PAUSE)]"
    using send_message_ok [of W2, OF assms(7,4), of CMD_PAUSE "sl_out s"] assms(1)
    by (simp add: slave_pass_def take_request_def forward_def ltr_suspend_def send_cmd_def Let_def)
  have "lp_recenter ?l1" by simp
  with 1 2 show ?thesis by blast
qed

text \<open>A slave that has a command to pass on and no master does not obey the application's request to stop: as long as the
  application lives no number of attempts ends the pass, whatever the application puts into the shared structure meanwhile.\<close>

theorem stop_unseen_without_master:
  assumes "(cmd, c, call) \<in> set command_table" "com_cmd (sl_com s) = cmd"
    "list_all at_alive tries" "\<And>a v. a \<in> set tries \<Longrightarrow> master_uplink (at_other a v) \<le> 0"
  shows "slave_pass tries W alive l s = None"
proof -
  have "forward_loop tries cmd v = None" for v
    using assms(3,4)
  proof (induction tries arbitrary: v)
    case (Cons a ats)
    obtain r where "r < 0" "ltr_int_send_message (at_writes a) (master_uplink (at_other a v)) c 0 (sl_out (at_other a v)) = (r, sl_out (at_other a v))"
      using send_message_bad [of "master_uplink (at_other a v)" "at_writes a" c "sl_out (at_other a v)"] Cons.prems(2) [of a v] by auto
    then show ?case using Cons by (simp add: forward_command [OF assms(1)])
  qed simp
  moreover have "cmd \<noteq> NOP_CMD" using assms(1) by (auto simp: command_table_def)
  ultimately show ?thesis using assms(2) by (simp add: slave_pass_def take_request_def Let_def)
qed

subsection \<open>Settings changed while the application runs\<close>

text \<open>The graphical interface's change of the inversion of an axis does not reach a running application: the master sends it to
  the slave of the profile, the slave accepts the message, and its axes invert as before.\<close>

theorem inversion_not_updated:
  assumes "axis_of a = Some i" "i \<noteq> MISC" "slaves m = [(n, fd)]" "0 < fd" "0 \<le> fst (W fd)"
  shows "\<exists>msg s'. ms_out (ltr_int_change W (Some n) a 8 val m) = ms_out m @ [(fd, msg)] \<and>
    ltr_int_process_message M unset (Recv msg) s = Some (True, s') \<and>
    (\<forall>j. map_option inverted (get_axis (sl_axes s') j) = map_option inverted (get_axis (sl_axes s) j)) \<and> sl_prefs s' = sl_prefs s"
proof -
  let ?msg = "\<lparr>msg_cmd = CMD_PARAM, msg_data = 0, msg_body = MParam \<lparr>axis_id = a, msg_param_id = 8, flt_val = val\<rparr>\<rparr>"
  have o: "ms_out (ltr_int_change W (Some n) a 8 val m) = ms_out m @ [(fd, ?msg)]"
    using assms(3-5) by (simp add: ltr_int_change_def ltr_int_send_param_update_def fifo_put_ok)
  have k: "param_of_num 8 = AXIS_INVERTED" by (simp add: param_of_num_def param_list_def rd_def)
  obtain ax where ax: "get_axis (sl_axes s) i = Some ax" using assms(2) by (cases i) simp_all
  have "ltr_int_process_message M unset (Recv ?msg) s = Some (True, s\<lparr>sl_axes := put_axis i (ax\<lparr>valid := False\<rparr>) (sl_axes s), sl_prefs := sl_prefs s\<rparr>)"
    using assms(1,2) by (simp add: ltr_int_process_message_def process_param_def k ltr_int_set_axis_param_def ax Let_def)
  moreover have "map_option inverted (get_axis (put_axis i (ax\<lparr>valid := False\<rparr>) (sl_axes s)) j) = map_option inverted (get_axis (sl_axes s) j)" for j
    using ax by (cases i; cases j) simp_all
  ultimately show ?thesis using o by auto
qed

subsection \<open>Examples\<close>

definition demo_slave :: "ltr_comm \<Rightarrow> slave" where
  "demo_slave com = \<lparr>master_uplink = 5, master_downlink = 6, profile_name = ''Game'',
     sl_axes = demo_axes (demo_axis (Fin 0) (Fin (1 / 2)) (Fin 1)), sl_post = post_init, sl_glob = gprefs_init, sl_prefs = prefs_empty,
     sl_notify = False, sl_notify_pipe = - 1, sl_com = com, sl_out = [], note_count = 0, slave_lock = None, master_lock = None,
     sl_gui = None, master_works = False, received_frames = 0\<rparr>"

definition idle_com :: ltr_comm where
  "idle_com = zero_comm\<lparr>com_cmd := NOP_CMD\<rparr>"

definition demo_full_pose :: linuxtrack_full_pose_t where
  "demo_full_pose = (full_pose zero_comm)\<lparr>fp_pose := zero_pose\<lparr>raw_yaw := Fin 7, counter := 3, pose_status := status_of RUNNING\<rparr>\<rparr>"

definition demo_linked :: ltlib where
  "demo_linked = ltlib_init\<lparr>lt_initialized := True, mmm := mmap_init\<lparr>mm_data := Mapped 0\<rparr>\<rparr>"

lemma demo_linked_connected: "connected demo_linked"
  by (simp add: connected_def demo_linked_def)

definition plain_attempt :: "int \<times> int \<Rightarrow> attempt" where
  "plain_attempt r = \<lparr>at_other = id, at_writes = (\<lambda>_. r), at_alive = True\<rparr>"

theorem pose_reaches_application_witness:
  "\<exists>s'. ltr_int_process_message demo_libm zero_pose (Recv (pose_message demo_full_pose)) (demo_slave idle_com) = Some (True, s') \<and>
     ltr_get_tracking_state demo_linked (sl_com s') = state_num RUNNING \<and>
     fst (ltr_get_pose demo_linked (sl_com s') zero_out) = 1"
proof -
  have "mem_finite (sl_post (demo_slave idle_com))" by (simp add: demo_slave_def mem_finite_def post_init_def zero_vec_def ltr_int_is_finite_def)
  from pose_reaches_application [OF this _ demo_linked_connected, of demo_full_pose RUNNING demo_libm zero_pose zero_out]
  show ?thesis by (auto simp: demo_full_pose_def zero_out_def)
qed

theorem command_reaches_tracker_witness:
  "\<exists>l' s' s''. slave_pass [plain_attempt (- 1, 11), plain_attempt (1, 0)] (\<lambda>_. (1, 0)) True loop_init (demo_slave (snd (send_cmd FRAMES_CMD demo_linked
       (idle_com\<lparr>com_recenter := True\<rparr>)))) = Some (False, l', s') \<and>
     dispatch demo_srv 1 (plain_message CMD_FRAMES) (demo_master []) demo_pworld demo_os =
       Some ((demo_master [])\<lparr>ms_calls := [CallPublish]\<rparr>, demo_pworld, demo_os) \<and>
     slave_passes [([plain_attempt (1, 0)], \<lambda>_. (1, 0)), ([plain_attempt (1, 0)], \<lambda>_. (1, 0))] l' s' = Some (l', s'') \<and>
     sl_out s'' = [(5, plain_message CMD_FRAMES), (5, plain_message CMD_RECENTER)]"
proof -
  let ?com = "idle_com\<lparr>com_recenter := True\<rparr>"
  let ?s = "demo_slave (snd (send_cmd FRAMES_CMD demo_linked ?com))"
  have s: "sl_com ?s = snd (send_cmd FRAMES_CMD demo_linked ?com)" "0 < master_uplink ?s" by (simp_all add: demo_slave_def)
  have c: "(FRAMES_CMD, CMD_FRAMES, CallPublish) \<in> set command_table" by (simp add: command_table_def)
  have f: "list_all (failed_attempt (master_uplink ?s)) [plain_attempt (- 1, 11)]" by (simp add: plain_attempt_def failed_attempt_def)
  have k: "list_all quiet [plain_attempt (1, 0), plain_attempt (- 1, 11)]" by (simp add: plain_attempt_def quiet_def)
  have w: "0 \<le> fst (at_writes (plain_attempt (1, 0)) (master_uplink ?s))" "0 \<le> fst ((\<lambda>_. (1, 0)) (master_uplink ?s) :: int \<times> int)"
    by (simp_all add: plain_attempt_def)
  have q: "list_all (\<lambda>(ats, W). ats \<noteq> [] \<and> quiet (hd ats)) [([plain_attempt (1, 0)], \<lambda>_. (1, 0)), ([plain_attempt (1, 0)], \<lambda>_. (1, 0))]"
    by (simp add: plain_attempt_def quiet_def)
  from command_reaches_tracker [where rest = "[]" and S = demo_srv and p = 1 and m = "demo_master []" and pw = demo_pworld and w = demo_os,
      OF c demo_linked_connected s f k w q]
  obtain l' s' s'' where "slave_pass [plain_attempt (- 1, 11), plain_attempt (1, 0)] (\<lambda>_. (1, 0)) True loop_init ?s = Some (False, l', s')"
    "sl_out s' = sl_out ?s @ map (\<lambda>k. (master_uplink ?s, plain_message k)) [CMD_FRAMES, CMD_RECENTER]"
    "dispatch demo_srv 1 (plain_message CMD_FRAMES) (demo_master []) demo_pworld demo_os =
       Some ((demo_master [])\<lparr>ms_calls := ms_calls (demo_master []) @ [CallPublish]\<rparr>, demo_pworld, demo_os)"
    "slave_passes [([plain_attempt (1, 0)], \<lambda>_. (1, 0)), ([plain_attempt (1, 0)], \<lambda>_. (1, 0))] l' s' = Some (l', s'')" "sl_out s'' = sl_out s'" by auto
  moreover have "sl_out ?s = []" "master_uplink ?s = 5" "ms_calls (demo_master []) = []" by (simp_all add: demo_slave_def demo_master_def)
  ultimately show ?thesis by simp
qed

theorem recentre_request_lost_witness:
  "\<exists>l1 s1 l2 s2. slave_pass [plain_attempt (- 1, 11)] (\<lambda>_. (- 1, 11)) True loop_init (demo_slave (snd (ltr_recenter demo_linked idle_com))) = Some (False, l1, s1) \<and>
     slave_pass [plain_attempt (1, 0)] (\<lambda>_. (1, 0)) True l1 (s1\<lparr>sl_com := snd (ltr_suspend demo_linked (sl_com s1))\<rparr>) = Some (False, l2, s2) \<and>
     \<not> lp_recenter l2 \<and> sl_out s2 = [(5, plain_message CMD_PAUSE)]"
  using recentre_request_lost [OF demo_linked_connected, of "demo_slave (snd (ltr_recenter demo_linked idle_com))" idle_com "\<lambda>_. (- 1, 11)" "\<lambda>_. (1, 0)"]
  by (simp add: demo_slave_def idle_com_def plain_attempt_def) blast

theorem stop_unseen_without_master_witness:
  "slave_pass [\<lparr>at_other = (\<lambda>s. s\<lparr>master_uplink := - 1\<rparr>), at_writes = (\<lambda>_. (1, 0)), at_alive = True\<rparr>,
       \<lparr>at_other = (\<lambda>s. s\<lparr>sl_com := (sl_com s)\<lparr>com_cmd := STOP_CMD\<rparr>, master_uplink := - 1\<rparr>), at_writes = (\<lambda>_. (1, 0)), at_alive = True\<rparr>]
     (\<lambda>_. (1, 0)) True loop_init (demo_slave zero_comm) = None"
  by (rule stop_unseen_without_master [of RUN_CMD CMD_WAKEUP CallWakeupLib])
    (auto simp: command_table_def demo_slave_def zero_comm_def)

theorem inversion_not_updated_witness:
  "\<exists>msg s'. ms_out (ltr_int_change (\<lambda>_. (1, 0)) (Some ''Game'') 2 8 (Fin 1) (demo_master [(''Game'', 4)])) = [(4, msg)] \<and>
     ltr_int_process_message demo_libm zero_pose (Recv msg) (demo_slave idle_com) = Some (True, s') \<and>
     map_option inverted (get_axis (sl_axes s') YAW) = map_option inverted (get_axis (sl_axes (demo_slave idle_com)) YAW)"
proof -
  have a: "axis_of 2 = Some YAW" by (simp add: axis_of_def axis_list_def rd_def)
  have "slaves (demo_master [(''Game'', 4)]) = [(''Game'', 4)]" "ms_out (demo_master [(''Game'', 4)]) = []" by (simp_all add: demo_master_def)
  with inversion_not_updated [OF a _ this(1), of "\<lambda>_. (1, 0)" "Fin 1" demo_libm zero_pose "demo_slave idle_com"]
  show ?thesis by (simp del: get_axis.simps) blast
qed

end
