(* ===== verification/Pipe.thy ===== *)
theory Pipe
  imports Tracking Frames
begin

text \<open>
  \<open>src/ltr_pipe.c\<close> (on Linux): a program that passes the poses on, as text or in one of several binary formats, to its output, a
  file, a device or a socket. The global variables are the record \<open>pipe\<close>, the options the record \<open>args\<close>. Every system call takes
  one tick of \<open>p_clock\<close>, by which the record \<open>pipe_env\<close> answers it; calls of the tracking library are collected in \<open>p_lib\<close>, what
  was written in \<open>p_sent\<close>. \<open>exit\<close> sets \<open>p_exit\<close> to its status, and what would follow is left out: the operations return whether
  the program goes on. None is undefined behaviour.
\<close>

subsection \<open>Options\<close>

datatype run_states = RST_RUNNING | RST_SUSPEND | RST_STOPPED | RST_WAKEUP

datatype outputs = OUTPUT_NONE | OUTPUT_STDOUT | OUTPUT_FILE | OUTPUT_NET_UDP | OUTPUT_NET_TCP

datatype formats = FORMAT_DEFAULT | FORMAT_FLIGHTGEAR | FORMAT_IL2 | FORMAT_HEADTRACK | FORMAT_SILENTWINGS | FORMAT_MOUSE
  | FORMAT_UINPUT_REL | FORMAT_UINPUT_ABS | FORMAT_IL2_6DOF

record args =
  a_output :: outputs
  a_file :: "string option"
  dst_host :: string
  dst_port :: string
  ltr_profile :: "string option"
  ltr_timeout :: string
  a_format :: formats
  a_range :: int

definition Args_default :: args where
  "Args_default = \<lparr>a_output = OUTPUT_NONE, a_file = None, dst_host = ''127.0.0.1'', dst_port = ''6543'', ltr_profile = None,
     ltr_timeout = ''10'', a_format = FORMAT_DEFAULT, a_range = 4096\<rparr>"

datatype option_codes = OPT_HELP | OPT_VERSION | OPT_OUTPUT_STDOUT | OPT_OUTPUT_FILE | OPT_OUTPUT_NET_UDP | OPT_OUTPUT_NET_TCP
  | OPT_DST_HOST | OPT_DST_PORT | OPT_LTR_PROFILE | OPT_LTR_TIMEOUT | OPT_FORMAT_DEFAULT | OPT_FORMAT_FLIGHTGEAR | OPT_FORMAT_IL2
  | OPT_FORMAT_HEADTRACK | OPT_FORMAT_SILENTWINGS | OPT_FORMAT_MOUSE | OPT_FORMAT_UINPUT_REL | OPT_FORMAT_UINPUT_ABS
  | OPT_FORMAT_IL2_6DOF | OPT_UINPUT_ABS_RANGE | OPT_UNKNOWN

text \<open>The long options with their codes and whether they require an argument.\<close>

definition Opts :: "(string \<times> bool \<times> option_codes) list" where
  "Opts = [(''help'', False, OPT_HELP), (''version'', False, OPT_VERSION), (''output-stdout'', False, OPT_OUTPUT_STDOUT),
     (''output-file'', True, OPT_OUTPUT_FILE), (''output-net-udp'', False, OPT_OUTPUT_NET_UDP), (''output-net-tcp'', False, OPT_OUTPUT_NET_TCP),
     (''dst-host'', True, OPT_DST_HOST), (''dst-port'', True, OPT_DST_PORT), (''ltr-profile'', True, OPT_LTR_PROFILE),
     (''ltr-timeout'', True, OPT_LTR_TIMEOUT), (''format-default'', False, OPT_FORMAT_DEFAULT), (''format-flightgear'', False, OPT_FORMAT_FLIGHTGEAR),
     (''format-il2'', False, OPT_FORMAT_IL2), (''format-il2-6dof'', False, OPT_FORMAT_IL2_6DOF), (''format-headtrack'', False, OPT_FORMAT_HEADTRACK),
     (''format-silentwings'', False, OPT_FORMAT_SILENTWINGS), (''format-mouse'', False, OPT_FORMAT_MOUSE),
     (''format-uinput-rel'', False, OPT_FORMAT_UINPUT_REL), (''format-uinput-abs'', False, OPT_FORMAT_UINPUT_ABS),
     (''uinput-abs-range'', True, OPT_UINPUT_ABS_RANGE)]"

text \<open>What \<open>getopt_long\<close> returns and \<open>optarg\<close>; the loop ends with its list. The first part of the result is the status with which the
  program exits, if it does.\<close>

fun parse_opts :: "(option_codes \<times> string) list \<Rightarrow> args \<Rightarrow> int option \<times> args" where
  "parse_opts [] a = (None, a)"
| "parse_opts ((key, optarg) # ks) a = (case key of
     OPT_HELP \<Rightarrow> (Some 0, a)
   | OPT_VERSION \<Rightarrow> (Some 0, a)
   | OPT_OUTPUT_STDOUT \<Rightarrow> parse_opts ks (a\<lparr>a_output := OUTPUT_STDOUT\<rparr>)
   | OPT_OUTPUT_FILE \<Rightarrow> parse_opts ks (a\<lparr>a_output := OUTPUT_FILE, a_file := Some optarg\<rparr>)
   | OPT_OUTPUT_NET_UDP \<Rightarrow> parse_opts ks (a\<lparr>a_output := OUTPUT_NET_UDP\<rparr>)
   | OPT_OUTPUT_NET_TCP \<Rightarrow> parse_opts ks (a\<lparr>a_output := OUTPUT_NET_TCP\<rparr>)
   | OPT_DST_HOST \<Rightarrow> parse_opts ks (a\<lparr>dst_host := optarg\<rparr>)
   | OPT_DST_PORT \<Rightarrow> parse_opts ks (a\<lparr>dst_port := optarg\<rparr>)
   | OPT_LTR_PROFILE \<Rightarrow> parse_opts ks (a\<lparr>ltr_profile := Some optarg\<rparr>)
   | OPT_LTR_TIMEOUT \<Rightarrow> parse_opts ks (a\<lparr>ltr_timeout := optarg\<rparr>)
   | OPT_FORMAT_DEFAULT \<Rightarrow> parse_opts ks (a\<lparr>a_format := FORMAT_DEFAULT\<rparr>)
   | OPT_FORMAT_FLIGHTGEAR \<Rightarrow> parse_opts ks (a\<lparr>a_format := FORMAT_FLIGHTGEAR\<rparr>)
   | OPT_FORMAT_IL2 \<Rightarrow> parse_opts ks (a\<lparr>a_format := FORMAT_IL2\<rparr>)
   | OPT_FORMAT_IL2_6DOF \<Rightarrow> parse_opts ks (a\<lparr>a_format := FORMAT_IL2_6DOF\<rparr>)
   | OPT_FORMAT_HEADTRACK \<Rightarrow> parse_opts ks (a\<lparr>a_format := FORMAT_HEADTRACK\<rparr>)
   | OPT_FORMAT_SILENTWINGS \<Rightarrow> parse_opts ks (a\<lparr>a_format := FORMAT_SILENTWINGS\<rparr>)
   | OPT_FORMAT_MOUSE \<Rightarrow> parse_opts ks (a\<lparr>a_format := FORMAT_MOUSE\<rparr>)
   | OPT_FORMAT_UINPUT_REL \<Rightarrow> parse_opts ks (a\<lparr>a_format := FORMAT_UINPUT_REL\<rparr>)
   | OPT_FORMAT_UINPUT_ABS \<Rightarrow> parse_opts ks (a\<lparr>a_format := FORMAT_UINPUT_ABS\<rparr>)
   | OPT_UINPUT_ABS_RANGE \<Rightarrow> parse_opts ks (a\<lparr>a_range := read_int optarg\<rparr>)
   | OPT_UNKNOWN \<Rightarrow> (Some 1, a))"

definition check_opts :: "args \<Rightarrow> args" where
  "check_opts a = (if a_output a = OUTPUT_NONE then a\<lparr>a_output := OUTPUT_STDOUT\<rparr> else a)"

subsection \<open>State and system\<close>

record ltr_data =
  d_h :: cflt
  d_p :: cflt
  d_r :: cflt
  d_x :: cflt
  d_y :: cflt
  d_z :: cflt
  d_c :: u32

datatype chunk = Text string | Bytes bytes | InputEvent u16 u16 int | DeviceSetup string int int

datatype lib_request = LibInit "string option" | LibSuspend | LibWakeup | LibRecenter | LibShutdown

datatype errno = EINTR | EPIPE | ECONNREFUSED | ECONNABORTED | ECONNRESET | ETIMEDOUT | ENETDOWN | ENETRESET | ENETUNREACH | EISCONN
  | ENXIO | EAGAIN | EOTHER

text \<open>\<open>pe_addrs\<close> is the list that \<open>getaddrinfo\<close> yields: for each address the moment's result of \<open>socket\<close> and of \<open>connect\<close>.\<close>

record pipe_env =
  pe_write :: "nat \<Rightarrow> errno option"
  pe_ioctl :: "nat \<Rightarrow> errno option"
  pe_open :: "nat \<Rightarrow> errno + nat"
  pe_addrs :: "nat \<Rightarrow> (nat option \<times> errno option) list option"
  pe_select :: "nat \<Rightarrow> errno + bool"
  pe_pose :: "nat \<Rightarrow> int \<times> ltr_data"
  pe_state :: "nat \<Rightarrow> linuxtrack_state_type"
  pe_init :: linuxtrack_state_type

record pipe =
  Recenter :: bool
  Terminate :: bool
  Output_FD :: int
  Run_state :: run_states
  p_clock :: nat
  p_lib :: "lib_request list"
  p_sent :: "(int \<times> chunk) list"
  p_exit :: "int option"

definition pipe_start :: pipe where
  "pipe_start = \<lparr>Recenter = False, Terminate = False, Output_FD = - 1, Run_state = RST_RUNNING, p_clock = 0, p_lib = [], p_sent = [], p_exit = None\<rparr>"

definition ptick :: "pipe \<Rightarrow> pipe" where
  "ptick s = s\<lparr>p_clock := Suc (p_clock s)\<rparr>"

definition lib_call :: "lib_request \<Rightarrow> pipe \<Rightarrow> pipe" where
  "lib_call r s = s\<lparr>p_lib := p_lib s @ [r]\<rparr>"

text \<open>\<open>xerror\<close> with a status: the program ends; \<open>at_exit\<close> runs later.\<close>

definition xerror :: "int \<Rightarrow> pipe \<Rightarrow> bool \<times> pipe" where
  "xerror code s = (False, s\<lparr>p_exit := Some code\<rparr>)"

subsection \<open>Signals\<close>

datatype signal = SIGUSR1 | SIGHUP | SIGTERM | SIGINT | SIGPIPE

definition catch_sigusr1 :: "pipe \<Rightarrow> pipe" where
  "catch_sigusr1 s = (case Run_state s of
     RST_RUNNING \<Rightarrow> s\<lparr>Run_state := RST_SUSPEND\<rparr>
   | RST_STOPPED \<Rightarrow> s\<lparr>Run_state := RST_WAKEUP\<rparr>
   | _ \<Rightarrow> s)"

definition catch_sighup :: "pipe \<Rightarrow> pipe" where
  "catch_sighup s = s\<lparr>Recenter := True\<rparr>"

definition catch_sigterm :: "pipe \<Rightarrow> pipe" where
  "catch_sigterm s = s\<lparr>Terminate := True\<rparr>"

definition catch_sigint :: "pipe \<Rightarrow> pipe" where
  "catch_sigint s = s\<lparr>Terminate := True\<rparr>"

definition catch_sigpipe :: "pipe \<Rightarrow> pipe" where
  "catch_sigpipe s = s"

text \<open>The handlers that \<open>setup_signals\<close> installs.\<close>

definition setup_signals :: "signal \<Rightarrow> pipe \<Rightarrow> pipe" where
  "setup_signals sig = (case sig of SIGUSR1 \<Rightarrow> catch_sigusr1 | SIGHUP \<Rightarrow> catch_sighup | SIGTERM \<Rightarrow> catch_sigterm | SIGINT \<Rightarrow> catch_sigint
     | SIGPIPE \<Rightarrow> catch_sigpipe)"

definition deliver :: "signal list \<Rightarrow> pipe \<Rightarrow> pipe" where
  "deliver sigs s = fold setup_signals sigs s"

subsection \<open>Output\<close>

definition is_uinput :: "formats \<Rightarrow> bool" where
  "is_uinput f \<longleftrightarrow> f = FORMAT_UINPUT_REL \<or> f = FORMAT_UINPUT_ABS"

definition xioctl :: "pipe_env \<Rightarrow> pipe \<Rightarrow> bool \<times> pipe" where
  "xioctl E s = (case pe_ioctl E (p_clock s) of None \<Rightarrow> (True, ptick s) | Some _ \<Rightarrow> xerror 1 (ptick s))"

fun xioctls :: "nat \<Rightarrow> pipe_env \<Rightarrow> pipe \<Rightarrow> bool \<times> pipe" where
  "xioctls 0 E s = (True, s)"
| "xioctls (Suc n) E s = (case xioctl E s of (go, s) \<Rightarrow> if go then xioctls n E s else (False, s))"

definition ofd_close :: "pipe_env \<Rightarrow> args \<Rightarrow> pipe \<Rightarrow> bool \<times> pipe" where
  "ofd_close E a s =
     (if Output_FD s = - 1 then (True, s)
      else case (if is_uinput (a_format a) then xioctl E s else (True, s)) of (go, s) \<Rightarrow>
        if go then (True, s\<lparr>Output_FD := - 1\<rparr>) else (False, s))"

definition xwrite :: "pipe_env \<Rightarrow> args \<Rightarrow> chunk \<Rightarrow> pipe \<Rightarrow> bool \<times> pipe" where
  "xwrite E a ch s = (case pe_write E (p_clock s) of
     None \<Rightarrow> (True, (ptick s)\<lparr>p_sent := p_sent s @ [(Output_FD s, ch)]\<rparr>)
   | Some err \<Rightarrow>
       if err = EINTR then (True, ptick s)
       else if err \<in> set [EPIPE, ECONNREFUSED, ECONNABORTED, ECONNRESET, ENETDOWN, ENETRESET, ENETUNREACH]
       then (if a_output a = OUTPUT_NET_TCP then ofd_close E a (ptick s) else (True, ptick s))
       else xerror 1 (ptick s))"

fun xwrites :: "pipe_env \<Rightarrow> args \<Rightarrow> chunk list \<Rightarrow> pipe \<Rightarrow> bool \<times> pipe" where
  "xwrites E a [] s = (True, s)"
| "xwrites E a (b # bs) s = (case xwrite E a b s of (go, s) \<Rightarrow> if go then xwrites E a bs s else (False, s))"

text \<open>A file: the device of \<open>uinput\<close> is set up once it is open, with its name, product and range of the axes.\<close>

definition ofd_setup_file :: "pipe_env \<Rightarrow> args \<Rightarrow> pipe \<Rightarrow> bool \<times> pipe" where
  "ofd_setup_file E a s = (case pe_open E (p_clock s) of
     Inl err \<Rightarrow> if err = ENXIO then (True, (ptick s)\<lparr>Output_FD := - 1\<rparr>) else xerror 1 ((ptick s)\<lparr>Output_FD := - 1\<rparr>)
   | Inr fd \<Rightarrow>
       let s = (ptick s)\<lparr>Output_FD := int fd\<rparr>
       in if \<not> is_uinput (a_format a) then (True, s)
          else case xioctls (if a_format a = FORMAT_UINPUT_REL then 3 else 10) E s of (go, s) \<Rightarrow>
            if \<not> go then (False, s)
            else case xwrite E a (if a_format a = FORMAT_UINPUT_REL then DeviceSetup ''LinuxTrack uinput-rel'' 1 0
                                  else DeviceSetup ''LinuxTrack uinput-abs'' 2 (a_range a)) s of (go, s) \<Rightarrow>
              if \<not> go then (False, s) else xioctl E s)"

text \<open>\<open>connect\<close>: the result is -1 only when the program ends; the first part says whether it goes on.\<close>

definition ofd_sock_connect :: "pipe_env \<Rightarrow> args \<Rightarrow> errno option \<Rightarrow> pipe \<Rightarrow> bool \<times> int \<times> pipe" where
  "ofd_sock_connect E a res s = (case res of
     None \<Rightarrow> (True, 0, ptick s)
   | Some err \<Rightarrow>
       if err \<in> set [ECONNREFUSED, ECONNABORTED, ECONNRESET, ETIMEDOUT, ENETDOWN, ENETRESET, ENETUNREACH, EISCONN]
       then (case ofd_close E a (ptick s) of (go, s) \<Rightarrow> (go, 0, s))
       else (case xerror 1 (ptick s) of (go, s) \<Rightarrow> (go, - 1, s)))"

text \<open>The loop over the addresses; at its end there was no suitable one.\<close>

fun try_addrs :: "pipe_env \<Rightarrow> args \<Rightarrow> (nat option \<times> errno option) list \<Rightarrow> pipe \<Rightarrow> bool \<times> pipe" where
  "try_addrs E a [] s = xerror 1 s"
| "try_addrs E a ((sock, conn) # rps) s = (case sock of
     None \<Rightarrow> try_addrs E a rps ((ptick s)\<lparr>Output_FD := - 1\<rparr>)
   | Some fd \<Rightarrow>
       (case ofd_sock_connect E a conn ((ptick s)\<lparr>Output_FD := int fd\<rparr>) of (go, r, s) \<Rightarrow>
          if \<not> go then (False, s)
          else if r \<noteq> - 1 then (True, s)
          else case ofd_close E a s of (go, s) \<Rightarrow> if go then try_addrs E a rps s else (False, s)))"

definition ofd_setup_sock :: "pipe_env \<Rightarrow> args \<Rightarrow> pipe \<Rightarrow> bool \<times> pipe" where
  "ofd_setup_sock E a s = (case pe_addrs E (p_clock s) of
     None \<Rightarrow> xerror 1 (ptick s)
   | Some addrs \<Rightarrow> (case ofd_close E a (ptick s) of (go, s) \<Rightarrow> if go then try_addrs E a addrs s else (False, s)))"

definition setup_ofd :: "pipe_env \<Rightarrow> args \<Rightarrow> pipe \<Rightarrow> bool \<times> pipe" where
  "setup_ofd E a s = (case a_output a of
     OUTPUT_FILE \<Rightarrow> ofd_setup_file E a s
   | OUTPUT_NET_UDP \<Rightarrow> ofd_setup_sock E a s
   | OUTPUT_NET_TCP \<Rightarrow> ofd_setup_sock E a s
   | _ \<Rightarrow> (True, s\<lparr>Output_FD := 1\<rparr>))"

subsection \<open>Formats\<close>

text \<open>\<open>%f\<close>; the sign of a NaN is not part of the model.\<close>

definition show_fixed :: "rat \<Rightarrow> string" where
  "show_fixed r = (let n = nat (round_even (r * 1000000)); frac = show_nat (n mod 1000000)
     in show_nat (n div 1000000) @ ''.'' @ replicate (6 - length frac) (CHR ''0'') @ frac)"

fun show_f :: "cflt \<Rightarrow> string" where
  "show_f NaN = ''nan''"
| "show_f (Inf s) = (if s then ''-inf'' else ''inf'')"
| "show_f NegZero = CHR ''-'' # show_fixed 0"
| "show_f (Fin r) = (if r < 0 then CHR ''-'' # show_fixed (- r) else show_fixed r)"

text \<open>\<open>snprintf\<close> into a buffer of this size, of which then as many bytes are written as the whole text has.\<close>

definition print_buf :: "nat \<Rightarrow> string \<Rightarrow> chunk option" where
  "print_buf bsz text =
     (if length text < bsz then Some (Text text)
      else if length text = bsz then Some (Text (take (bsz - 1) text @ [CHR 0x00]))
      else None)"

definition sep :: "string \<Rightarrow> string list \<Rightarrow> string" where
  "sep c xs = (case xs of [] \<Rightarrow> [] | y # ys \<Rightarrow> y @ concat (map (\<lambda>z. c @ z) ys))"

definition put_text :: "pipe_env \<Rightarrow> args \<Rightarrow> nat \<Rightarrow> string \<Rightarrow> pipe \<Rightarrow> (bool \<times> pipe) option" where
  "put_text E a bsz text s = map_option (\<lambda>c. xwrite E a c s) (print_buf bsz text)"

definition TAB :: string where "TAB = [CHR 0x09]"
definition NL :: string where "NL = [CHR 0x0A]"

definition write_data_default :: "pipe_env \<Rightarrow> args \<Rightarrow> ltr_data \<Rightarrow> pipe \<Rightarrow> (bool \<times> pipe) option" where
  "write_data_default E a d = put_text E a 256 (sep TAB [show_f (d_h d), show_f (d_p d), show_f (d_r d), show_f (d_x d), show_f (d_y d),
     show_f (d_z d), show_nat (unat (d_c d))] @ NL)"

definition write_data_flightgear :: "pipe_env \<Rightarrow> args \<Rightarrow> ltr_data \<Rightarrow> pipe \<Rightarrow> (bool \<times> pipe) option" where
  "write_data_flightgear E a d = put_text E a 128 (sep TAB [show_f (d_h d), show_f (d_p d), show_f (fneg (d_r d)), show_f (d_x d),
     show_f (d_y d), show_f (d_z d)] @ NL)"

definition BSL :: string where "BSL = [CHR 0x5C]"

definition write_data_il2 :: "pipe_env \<Rightarrow> args \<Rightarrow> ltr_data \<Rightarrow> pipe \<Rightarrow> (bool \<times> pipe) option" where
  "write_data_il2 E a d = put_text E a 64 (sep BSL [''R/11'', show_f (d_h d), show_f (fneg (d_p d)), show_f (d_r d)])"

definition write_data_il2_6dof :: "pipe_env \<Rightarrow> args \<Rightarrow> ltr_data \<Rightarrow> pipe \<Rightarrow> (bool \<times> pipe) option" where
  "write_data_il2_6dof E a d = put_text E a 128 (sep BSL [''R/11'', show_f (d_h d), show_f (fneg (d_p d)), show_f (d_r d),
     show_f (fdiv b32 (fneg (d_z d)) (Fin 300)), show_f (fdiv b32 (fneg (d_x d)) (Fin 1000)), show_f (fdiv b32 (d_y d) (Fin 1000))])"

text \<open>The 32 bits of a \<open>float\<close>: sign, exponent, fraction; \<open>nan\<close> are those of a NaN. \<open>htonl\<close> puts the highest byte first.\<close>

definition mag_bits :: "rat \<Rightarrow> int" where
  "mag_bits r = (if r < pow2 (- 126) then \<lfloor>r * pow2 149\<rfloor>
     else (ilog2 r + 127) * 2 ^ 23 + (\<lfloor>r * pow2 (23 - ilog2 r)\<rfloor> - 2 ^ 23))"

fun flt_bits :: "u32 \<Rightarrow> cflt \<Rightarrow> u32" where
  "flt_bits nan NaN = nan"
| "flt_bits nan (Inf s) = (if s then 0xFF800000 else 0x7F800000)"
| "flt_bits nan NegZero = 0x80000000"
| "flt_bits nan (Fin r) = (if r = 0 then 0 else if r < 0 then word_of_int (2 ^ 31 + mag_bits (- r)) else word_of_int (mag_bits r))"

definition big_endian :: "u32 \<Rightarrow> bytes" where
  "big_endian x = map (\<lambda>n. u8_of_u32 (drop_bit n x)) [24, 16, 8, 0]"

definition write_data_headtrack :: "u32 \<Rightarrow> pipe_env \<Rightarrow> args \<Rightarrow> ltr_data \<Rightarrow> pipe \<Rightarrow> (bool \<times> pipe) option" where
  "write_data_headtrack nan E a d s = Some (xwrite E a (Bytes (1 # concat (map (\<lambda>x. big_endian (flt_bits nan x))
     [d_h d, d_r d, d_p d, d_x d, d_y d, d_z d]))) s)"

definition write_data_silentwings :: "pipe_env \<Rightarrow> args \<Rightarrow> ltr_data \<Rightarrow> pipe \<Rightarrow> (bool \<times> pipe) option" where
  "write_data_silentwings E a d = put_text E a 64 (''PANH '' @ show_f (fneg (d_h d)) @ NL @ ''PANV '' @ show_f (d_p d) @ NL)"

text \<open>Converting a float that does not fit into \<open>int8_t\<close> is undefined. The buttons and the wheels are constants in the code.\<close>

definition write_data_mouse :: "pipe_env \<Rightarrow> args \<Rightarrow> ltr_data \<Rightarrow> pipe \<Rightarrow> (bool \<times> pipe) option" where
  "write_data_mouse E a d s =
     do { x \<leftarrow> flt_to_range (- 128) 127 (fneg (d_h d));
          y \<leftarrow> flt_to_range (- 128) 127 (d_p d);
          let b0 = 0x08 OR (if x < 0 then 0x10 else 0) OR (if y < 0 then 0x20 else 0);
          Some (xwrite E a (Bytes [b0, word_of_int x, word_of_int y, 0]) s) }"

definition pipe_normalize :: "cflt \<Rightarrow> cflt" where
  "pipe_normalize val = (if flt_less (Fin 1) val then Fin 1 else if flt_less val (Fin (- 1)) then Fin (- 1) else val)"

definition scaled :: "args \<Rightarrow> cflt \<Rightarrow> cflt \<Rightarrow> cflt" where
  "scaled a val full = fmul b32 (flt_of_int b32 (a_range a)) (pipe_normalize (fdiv b32 val full))"

definition EV_SYN :: u16 where "EV_SYN = 0"
definition EV_REL :: u16 where "EV_REL = 2"
definition EV_ABS :: u16 where "EV_ABS = 3"

definition uinput_events :: "args \<Rightarrow> ltr_data \<Rightarrow> chunk list option" where
  "uinput_events a d =
     do { let ty = (if a_format a = FORMAT_UINPUT_REL then EV_REL else EV_ABS);
          h \<leftarrow> flt_to_int (fneg (scaled a (d_h d) (Fin 180)));
          p \<leftarrow> flt_to_int (scaled a (d_p d) (Fin 180));
          r \<leftarrow> flt_to_int (fneg (scaled a (d_r d) (Fin 180)));
          let rot = [InputEvent ty 0 h, InputEvent ty 1 p, InputEvent ty 2 r];
          if a_format a = FORMAT_UINPUT_ABS
          then do { x \<leftarrow> flt_to_int (scaled a (d_x d) (Fin 300));
                    y \<leftarrow> flt_to_int (scaled a (d_y d) (Fin 300));
                    z \<leftarrow> flt_to_int (scaled a (d_z d) (Fin 300));
                    Some (rot @ [InputEvent ty 3 x, InputEvent ty 4 y, InputEvent ty 5 z, InputEvent EV_SYN 0 0]) }
          else Some (rot @ [InputEvent EV_SYN 0 0]) }"

definition write_data_uinput :: "pipe_env \<Rightarrow> args \<Rightarrow> ltr_data \<Rightarrow> pipe \<Rightarrow> (bool \<times> pipe) option" where
  "write_data_uinput E a d s = map_option (\<lambda>es. xwrites E a es s) (uinput_events a d)"

definition write_data :: "u32 \<Rightarrow> pipe_env \<Rightarrow> args \<Rightarrow> ltr_data \<Rightarrow> pipe \<Rightarrow> (bool \<times> pipe) option" where
  "write_data nan E a d s = (case a_format a of
     FORMAT_FLIGHTGEAR \<Rightarrow> write_data_flightgear E a d s
   | FORMAT_IL2 \<Rightarrow> write_data_il2 E a d s
   | FORMAT_IL2_6DOF \<Rightarrow> write_data_il2_6dof E a d s
   | FORMAT_HEADTRACK \<Rightarrow> write_data_headtrack nan E a d s
   | FORMAT_SILENTWINGS \<Rightarrow> write_data_silentwings E a d s
   | FORMAT_MOUSE \<Rightarrow> write_data_mouse E a d s
   | FORMAT_UINPUT_REL \<Rightarrow> write_data_uinput E a d s
   | FORMAT_UINPUT_ABS \<Rightarrow> write_data_uinput E a d s
   | FORMAT_DEFAULT \<Rightarrow> write_data_default E a d s)"

subsection \<open>The loop\<close>

definition suspended :: "pipe \<Rightarrow> bool \<times> pipe" where
  "suspended s = (case Run_state s of
     RST_RUNNING \<Rightarrow> (False, s)
   | RST_SUSPEND \<Rightarrow> (True, (lib_call LibSuspend s)\<lparr>Run_state := RST_STOPPED\<rparr>)
   | RST_STOPPED \<Rightarrow> (True, s)
   | RST_WAKEUP \<Rightarrow> (False, (lib_call LibWakeup s)\<lparr>Run_state := RST_RUNNING\<rparr>))"

definition recenter :: "pipe \<Rightarrow> pipe" where
  "recenter s = lib_call LibRecenter (s\<lparr>Recenter := False\<rparr>)"

text \<open>Whether the program goes on, and whether the descriptor is still missing.\<close>

definition ofd_unset :: "pipe_env \<Rightarrow> args \<Rightarrow> pipe \<Rightarrow> bool \<times> bool \<times> pipe" where
  "ofd_unset E a s =
     (if Output_FD s \<ge> 0 then (True, False, s)
      else case setup_ofd E a s of (go, s) \<Rightarrow> (go, \<not> Output_FD s \<ge> 0, s))"

text \<open>The rest of a pass, from the pose on.\<close>

definition pass_on :: "u32 \<Rightarrow> pipe_env \<Rightarrow> args \<Rightarrow> pipe \<Rightarrow> (bool \<times> pipe) option" where
  "pass_on nan E a s = (case pe_pose E (p_clock s) of (r, d) \<Rightarrow>
     let s = ptick s
     in if r \<le> 0 then Some (True, s)
        else if a_output a = OUTPUT_FILE \<and> is_uinput (a_format a) then write_data_uinput E a d s
        else (case pe_select E (p_clock s) of
            Inl err \<Rightarrow> Some (if err = EINTR then (True, ptick s) else xerror 1 (ptick s))
          | Inr ready \<Rightarrow> if ready then write_data nan E a d (ptick s) else Some (True, ptick s)))"

text \<open>One pass; signals arrive before it, before the request to recentre is looked at, and after that.\<close>

definition run_pass :: "u32 \<Rightarrow> pipe_env \<Rightarrow> args \<Rightarrow> signal list \<times> signal list \<times> signal list \<Rightarrow> pipe \<Rightarrow> (bool \<times> pipe) option" where
  "run_pass nan E a sigs s = (case sigs of (sg1, sg2, sg3) \<Rightarrow>
     case suspended (deliver sg1 s) of (stopped, s) \<Rightarrow>
       if stopped then Some (True, s)
       else let s = deliver sg2 s;
                s = (if Recenter s then recenter s else s)
            in case ofd_unset E a (deliver sg3 s) of (go, unset, s) \<Rightarrow>
                 if \<not> go then Some (False, s)
                 else if unset then Some (True, s)
                 else pass_on nan E a s)"

text \<open>The loop over the passes; the first part of the result says whether it is still running.\<close>

fun run_loop :: "u32 \<Rightarrow> pipe_env \<Rightarrow> args \<Rightarrow> (signal list \<times> signal list \<times> signal list) list \<Rightarrow> pipe \<Rightarrow> (bool \<times> pipe) option" where
  "run_loop nan E a [] s = Some (\<not> Terminate s, s)"
| "run_loop nan E a (p # ps) s =
     (if Terminate s then Some (False, s)
      else do { (go, s) \<leftarrow> run_pass nan E a p s; if go then run_loop nan E a ps s else Some (False, s) })"

subsection \<open>Start and end\<close>

fun wait_running :: "pipe_env \<Rightarrow> nat \<Rightarrow> pipe \<Rightarrow> bool \<times> pipe" where
  "wait_running E 0 s = xerror 1 s"
| "wait_running E (Suc timeout) s = (if pe_state E (p_clock s) = RUNNING then (True, ptick s) else wait_running E timeout (ptick s))"

definition setup_ltr :: "pipe_env \<Rightarrow> args \<Rightarrow> pipe \<Rightarrow> bool \<times> pipe" where
  "setup_ltr E a s =
     (let s = lib_call (LibInit (ltr_profile a)) s
      in if state_num (pe_init E) < state_num LINUXTRACK_OK then xerror 1 s
         else wait_running E (nat (read_int (ltr_timeout a))) s)"

text \<open>\<open>at_exit\<close>: an \<open>exit\<close> from inside it is undefined.\<close>

definition at_exit :: "pipe_env \<Rightarrow> args \<Rightarrow> pipe \<Rightarrow> pipe option" where
  "at_exit E a s = (case ofd_close E a s of (go, s) \<Rightarrow> if go then Some (lib_call LibShutdown s) else None)"

text \<open>\<open>main\<close>: the passes of the loop and the answers of \<open>getopt_long\<close> are given; the exit status, if the program ends.\<close>

definition pipe_main ::
  "u32 \<Rightarrow> pipe_env \<Rightarrow> (option_codes \<times> string) list \<Rightarrow> (signal list \<times> signal list \<times> signal list) list \<Rightarrow> (int option \<times> pipe) option" where
  "pipe_main nan E opts passes = (case parse_opts opts Args_default of
     (Some code, a) \<Rightarrow> Some (Some code, pipe_start)
   | (None, a) \<Rightarrow>
       let a = check_opts a
       in case setup_ltr E a pipe_start of (go, s) \<Rightarrow>
            do { (going, s) \<leftarrow> (if go then run_loop nan E a passes s else Some (False, s));
                 if going then Some (None, s)
                 else do { s \<leftarrow> at_exit E a s; Some (Some (case p_exit s of None \<Rightarrow> 0 | Some e \<Rightarrow> e), s) } })"

subsection \<open>The binary format of EasyHeadTrack\<close>

text \<open>The reader of the other side, as IEEE 754 defines the 32 bits.\<close>

definition bits_flt :: "u32 \<Rightarrow> cflt" where
  "bits_flt x = (let b = uint x mod 2 ^ 31; s = 2 ^ 31 \<le> uint x; e = b div 2 ^ 23; f = b mod 2 ^ 23; sg = (if s then - 1 else 1)
     in if e = 255 then (if f = 0 then Inf s else NaN)
        else if e = 0 then (if f = 0 then signed_zero s else Fin (sg * of_int f * pow2 (- 149)))
        else Fin (sg * of_int (2 ^ 23 + f) * pow2 (e - 150)))"

text \<open>Read the \<open>k\<close>-th float of the packet.\<close>

definition packet_float :: "nat \<Rightarrow> bytes \<Rightarrow> cflt" where
  "packet_float k bs = bits_flt (le32 (rev (take 4 (drop (1 + 4 * k) bs))))"

definition single :: "cflt \<Rightarrow> bool" where
  "single x \<longleftrightarrow> fcvt b32 x = x"

lemma mag_bits_decode:
  assumes "0 < r" "rnd b32 r = Fin r"
  shows "\<exists>e f. mag_bits r = e * 2 ^ 23 + f \<and> 0 \<le> f \<and> f < 2 ^ 23 \<and> 0 \<le> e \<and> e < 255 \<and>
    r = (if e = 0 then of_int f * pow2 (- 149) else of_int (2 ^ 23 + f) * pow2 (e - 150)) \<and> (e = 0 \<longrightarrow> f \<noteq> 0)"
proof -
  have r0: "r \<noteq> 0" using assms(1) by simp
  have v: "rval b32 r = r" "r < pow2 128" using assms rnd_if [OF r0, of b32] by (auto simp: b32_def split: if_splits)
  define q where "q = quantum b32 r"
  define n where "n = round_even (r / pow2 q)"
  have r: "r = of_int n * pow2 q" using v(1) r0 by (simp add: rval_def q_def n_def)
  have n: "0 < n" using assms(1) r by (metis of_int_0_less_iff pow2_pos zero_less_mult_pos2)
  show ?thesis
  proof (cases "r < pow2 (- 126)")
    case True
    have "ilog2 r < - 126" using ilog2_less [OF assms(1) True] .
    then have q: "q = - 149" using assms(1) by (simp add: q_def quantum_def b32_def)
    have "r * pow2 149 = of_int n * (pow2 (- 149) * pow2 149)" by (simp add: r q mult.assoc)
    then have m: "r * pow2 149 = of_int n" by (simp add: pow2_add [symmetric] pow2_def)
    have "of_int n * pow2 (- 149) < pow2 23 * pow2 (- 149)" using True by (simp add: r q pow2_add [symmetric])
    then have "(of_int n :: rat) < of_int (2 ^ 23)" by (simp add: pow2_def)
    then have "n < 2 ^ 23" by (simp only: of_int_less_iff)
    moreover have "mag_bits r = n" using True m by (simp add: mag_bits_def)
    ultimately show ?thesis using n by (intro exI [of _ 0] exI [of _ n]) (simp add: r q)
  next
    case False
    define k where "k = ilog2 r"
    have k: "- 126 \<le> k"
    proof (rule ccontr)
      assume "\<not> - 126 \<le> k"
      then have "pow2 (k + 1) \<le> pow2 (- 126)" by (intro pow2_mono) simp
      with ilog2_bounds(2) [OF assms(1)] False show False by (simp add: k_def)
    qed
    have k2: "k < 128" using ilog2_less [OF assms(1) v(2)] by (simp add: k_def)
    have q: "q = k - 23" using k assms(1) by (simp add: q_def quantum_def b32_def k_def)
    have one: "pow2 (k - 23) * pow2 (23 - k) = 1" using pow2_add [of "k - 23" "23 - k", symmetric] pow2_of_nat [of 0] by simp
    have "r * pow2 (23 - k) = of_int n * (pow2 (k - 23) * pow2 (23 - k))" by (simp add: r q mult.assoc)
    then have m: "r * pow2 (23 - k) = of_int n" by (simp only: one mult_1_right)
    have "pow2 k * pow2 (23 - k) \<le> of_int n" "of_int n < pow2 (k + 1) * pow2 (23 - k)"
      using ilog2_bounds [OF assms(1)] by (simp_all add: m [symmetric] k_def)
    moreover have "pow2 k * pow2 (23 - k) = of_int (2 ^ 23)" "pow2 (k + 1) * pow2 (23 - k) = of_int (2 ^ 24)"
      using pow2_add [of k "23 - k", symmetric] pow2_add [of "k + 1" "23 - k", symmetric] pow2_of_nat [of 23] pow2_of_nat [of 24] by simp_all
    ultimately have "of_int (2 ^ 23) \<le> (of_int n :: rat)" "(of_int n :: rat) < of_int (2 ^ 24)" by (simp_all only:)
    then have b: "2 ^ 23 \<le> n" "n < 2 ^ 24" by (simp_all only: of_int_less_iff of_int_le_iff)
    have "mag_bits r = (k + 127) * 2 ^ 23 + (n - 2 ^ 23)" using False m by (simp add: mag_bits_def k_def)
    moreover have "r = of_int (2 ^ 23 + (n - 2 ^ 23)) * pow2 (k + 127 - 150)" by (simp add: r q)
    ultimately show ?thesis using b k k2 by (intro exI [of _ "k + 127"] exI [of _ "n - 2 ^ 23"]) simp
  qed
qed

lemma uint_in_range: "0 \<le> b \<Longrightarrow> b < 2 ^ 32 \<Longrightarrow> uint (word_of_int b :: u32) = b"
  by (simp add: uint_word_of_int)

lemma bits_flt_word:
  assumes "0 \<le> f" "f < 2 ^ 23" "0 \<le> e" "e < 255"
  shows "bits_flt (word_of_int ((if s then 2 ^ 31 else 0) + (e * 2 ^ 23 + f))) =
    (if e = 0 then (if f = 0 then signed_zero s else Fin ((if s then - 1 else 1) * of_int f * pow2 (- 149)))
     else Fin ((if s then - 1 else 1) * of_int (2 ^ 23 + f) * pow2 (e - 150)))"
proof -
  let ?b = "e * 2 ^ 23 + f"
  have b: "0 \<le> ?b" "?b < 2 ^ 31" using assms by auto
  then have u: "uint (word_of_int ((if s then 2 ^ 31 else 0) + ?b) :: u32) = (if s then 2 ^ 31 else 0) + ?b"
    by (intro uint_in_range) auto
  have m: "((if s then 2 ^ 31 else 0) + ?b) mod 2 ^ 31 = ?b" "(2 ^ 31 \<le> (if s then 2 ^ 31 else 0) + ?b) = s" using b by auto
  have d: "?b div 2 ^ 23 = e" "?b mod 2 ^ 23 = f" using assms by auto
  show ?thesis unfolding bits_flt_def u m Let_def d using assms by simp
qed

lemma flt_bits_decode:
  assumes "single x" "x \<noteq> NaN"
  shows "bits_flt (flt_bits nan x) = x"
proof (cases x)
  case (Fin r)
  show ?thesis
  proof (cases "r = 0")
    case True
    then show ?thesis using bits_flt_word [of 0 0 False] by (simp add: Fin signed_zero_def)
  next
    case False
    define s where "s = (r < 0)"
    have p: "0 < \<bar>r\<bar>" using False by simp
    have "rnd b32 \<bar>r\<bar> = Fin \<bar>r\<bar>"
    proof (cases "r < 0")
      case True
      have "rnd b32 (- r) = Fin (- r)" using rnd_minus [of b32 r r] assms(1) False by (simp add: single_def Fin)
      then show ?thesis using True by simp
    qed (use assms(1) Fin in \<open>simp add: single_def\<close>)
    from mag_bits_decode [OF p this] obtain e f where
      m: "mag_bits \<bar>r\<bar> = e * 2 ^ 23 + f" "0 \<le> f" "f < 2 ^ 23" "0 \<le> e" "e < 255"
        "\<bar>r\<bar> = (if e = 0 then of_int f * pow2 (- 149) else of_int (2 ^ 23 + f) * pow2 (e - 150))" "e = 0 \<longrightarrow> f \<noteq> 0" by blast
    have "flt_bits nan x = word_of_int ((if s then 2 ^ 31 else 0) + (e * 2 ^ 23 + f))"
      using False m(1) by (auto simp: Fin s_def)
    moreover have "r = (if s then - 1 else 1) * \<bar>r\<bar>" by (simp add: s_def)
    ultimately show ?thesis using bits_flt_word [OF m(2-5), of s] m(6,7) by (cases s) (auto simp: Fin algebra_simps)
  qed
next
  case NegZero
  then show ?thesis using bits_flt_word [of 0 0 True] by (simp add: signed_zero_def)
next
  case (Inf s)
  then show ?thesis by (simp add: bits_flt_def)
qed (use assms(2) in simp)

lemma big_endian_rev: "big_endian x = rev (to_le32 x)"
  by (simp add: big_endian_def to_le32_def)

lemma drop_words:
  assumes "\<And>x. length (g x) = n"
  shows "drop (n * j) (concat (map g xs)) = concat (map g (drop j xs))"
proof (induction j arbitrary: xs)
  case (Suc j)
  show ?case
  proof (cases xs)
    case (Cons y ys)
    have "drop (n * Suc j) (concat (map g xs)) = drop (n * j) (drop n (g y @ concat (map g ys)))"
      by (simp only: Cons list.map concat.simps drop_drop mult_Suc_right add.commute)
    also have "drop n (g y @ concat (map g ys)) = concat (map g ys)" using assms [of y] by simp
    finally show ?thesis using Suc by (simp only: Cons drop_Suc_Cons)
  qed simp
qed simp

text \<open>C28: What is written in the format of EasyHeadTrack is one packet of 25 bytes, the flag and then six floats, highest byte first;
  a reader that takes them as IEEE 754 defines gets heading, roll, pitch and the translation back exactly, signed zeros,
  denormalised numbers and infinities included.\<close>

theorem headtrack_roundtrip:
  assumes "\<And>x. x \<in> {d_h d, d_r d, d_p d, d_x d, d_y d, d_z d} \<Longrightarrow> single x \<and> x \<noteq> NaN" "a_format a = FORMAT_HEADTRACK"
  shows "\<exists>bs. write_data nan E a d s = Some (xwrite E a (Bytes bs) s) \<and> length bs = 25 \<and> hd bs = 1 \<and>
    map (\<lambda>k. packet_float k bs) [0, 1, 2, 3, 4, 5] = [d_h d, d_r d, d_p d, d_x d, d_y d, d_z d]"
proof -
  let ?w = "\<lambda>x. rev (to_le32 (flt_bits nan x))"
  define xs where "xs = [d_h d, d_r d, d_p d, d_x d, d_y d, d_z d]"
  let ?bs = "1 # concat (map ?w xs)"
  have dr: "drop (1 + 4 * k) ?bs = concat (map ?w (drop k xs))" for k
    using drop_words [of ?w 4 k xs] by simp
  have f: "packet_float k ?bs = xs ! k" if "k < length xs" for k
  proof -
    have "xs ! k \<in> set xs" using that by (rule nth_mem)
    then have x: "single (xs ! k) \<and> xs ! k \<noteq> NaN" using assms(1) by (simp add: xs_def)
    have "drop k xs = xs ! k # drop (Suc k) xs" using that by (simp only: Cons_nth_drop_Suc)
    then have "drop (1 + 4 * k) ?bs = ?w (xs ! k) @ concat (map ?w (drop (Suc k) xs))" by (simp only: dr list.map concat.simps)
    then show ?thesis using flt_bits_decode x by (simp add: packet_float_def)
  qed
  have "map (\<lambda>k. packet_float k ?bs) [0, 1, 2, 3, 4, 5] = map ((!) xs) [0, 1, 2, 3, 4, 5]"
    by (rule map_cong [OF refl], rule f) (auto simp: xs_def)
  also have "\<dots> = [d_h d, d_r d, d_p d, d_x d, d_y d, d_z d]" by (simp add: xs_def)
  finally have "map (\<lambda>k. packet_float k ?bs) [0, 1, 2, 3, 4, 5] = [d_h d, d_r d, d_p d, d_x d, d_y d, d_z d]" .
  moreover have "write_data nan E a d s = Some (xwrite E a (Bytes ?bs) s)"
    unfolding write_data_def write_data_headtrack_def assms(2) formats.case big_endian_rev xs_def [symmetric] by (rule refl)
  moreover have "length ?bs = 25" "hd ?bs = 1" by (simp_all add: xs_def)
  ultimately show ?thesis by (intro exI [of _ ?bs] conjI)
qed

subsection \<open>The text formats\<close>

lemma length_show_nat: "n < 10 ^ k \<Longrightarrow> 0 < k \<Longrightarrow> length (show_nat n) \<le> k"
proof (induction k arbitrary: n)
  case (Suc k)
  show ?case
  proof (cases "n < 10")
    case False
    then have "0 < k" "n div 10 < 10 ^ k" using Suc.prems by (auto intro: gr0I simp: less_mult_imp_div_less mult.commute)
    then show ?thesis using Suc.IH [of "n div 10"] False by (simp add: show_nat.simps [of n])
  qed (simp add: show_nat.simps [of n])
qed simp

lemma length_show_fixed:
  assumes "0 \<le> r" "r \<le> of_nat m" "m < 10 ^ k" "0 < k"
  shows "length (show_fixed r) \<le> k + 7"
proof -
  let ?n = "nat (round_even (r * 1000000))"
  have "round_even (r * 1000000) \<le> round_even (of_int (int m * 1000000))"
    using assms(2) by (intro round_even_mono) simp
  then have "?n \<le> m * 1000000" by (simp only: round_even_of_int)
  then have "?n div 1000000 \<le> m" by simp
  then have "length (show_nat (?n div 1000000)) \<le> k" using assms(3,4) by (intro length_show_nat) linarith+
  moreover have "length (show_nat (?n mod 1000000)) \<le> 6" by (intro length_show_nat) simp_all
  ultimately show ?thesis by (simp add: show_fixed_def Let_def)
qed

lemma length_show_f:
  assumes "is_fin x" "\<bar>cval x\<bar> \<le> of_nat m" "m < 10 ^ k" "0 < k"
  shows "length (show_f x) \<le> k + 8"
proof (cases x)
  case (Fin r)
  then show ?thesis using assms length_show_fixed [of r m k] length_show_fixed [of "- r" m k] by (auto simp: abs_le_iff)
next
  case NegZero
  then show ?thesis using assms length_show_fixed [of 0 m k] by simp
qed (use assms in simp_all)

text \<open>Each angle takes at most 11 characters, each translation up to a thousand kilometers 18.\<close>

definition near :: "cflt \<Rightarrow> bool" where
  "near x \<longleftrightarrow> is_fin x \<and> \<bar>cval x\<bar> \<le> 1000000000"

lemma angle_text: "angle_ok x \<Longrightarrow> length (show_f x) \<le> 11" "angle_ok x \<Longrightarrow> length (show_f (fneg x)) \<le> 11"
  using length_show_f [of x 180 3] length_show_f [of "fneg x" 180 3] by (simp_all add: angle_ok_def)

lemma near_text: "near x \<Longrightarrow> length (show_f x) \<le> 18" "near x \<Longrightarrow> length (show_f (fneg x)) \<le> 18"
  using length_show_f [of x 1000000000 10] length_show_f [of "fneg x" 1000000000 10] by (simp_all add: near_def)

lemma near_div:
  assumes "near x" "1 \<le> c"
  shows "near (fdiv b32 x (Fin c))" "near (fdiv b32 (fneg x) (Fin c))"
proof -
  have "near (fdiv b32 y (Fin c))" if "near y" for y
  proof -
    have "\<bar>cval y / c\<bar> \<le> \<bar>cval y\<bar>" using assms(2) by (simp add: abs_div divide_le_eq mult_left_mono [of 1 c "\<bar>cval y\<bar>", simplified])
    then have le: "\<bar>cval y / c\<bar> \<le> 1000000000" using that by (simp add: near_def)
    have g: "rval b32 1000000000 \<le> 1000000000" using rval_grid [of 1953125 b32 9] by (simp add: b32_def pow2_def)
    have "is_fin (rnd b32 (cval y / c)) \<and> \<bar>cval (rnd b32 (cval y / c))\<bar> \<le> 1000000000"
      by (rule rnd_abs_le [OF le g]) (simp_all add: b32_def pow2_def)
    then show ?thesis using that assms(2) by (auto simp: near_def fdiv_def Let_def)
  qed
  then show "near (fdiv b32 x (Fin c))" "near (fdiv b32 (fneg x) (Fin c))" using assms(1) by (simp_all add: near_def)
qed

definition text_of :: "formats \<Rightarrow> ltr_data \<Rightarrow> string" where
  "text_of f d = (case f of
     FORMAT_FLIGHTGEAR \<Rightarrow> sep TAB [show_f (d_h d), show_f (d_p d), show_f (fneg (d_r d)), show_f (d_x d), show_f (d_y d), show_f (d_z d)] @ NL
   | FORMAT_IL2 \<Rightarrow> sep BSL [''R/11'', show_f (d_h d), show_f (fneg (d_p d)), show_f (d_r d)]
   | FORMAT_IL2_6DOF \<Rightarrow> sep BSL [''R/11'', show_f (d_h d), show_f (fneg (d_p d)), show_f (d_r d), show_f (fdiv b32 (fneg (d_z d)) (Fin 300)),
       show_f (fdiv b32 (fneg (d_x d)) (Fin 1000)), show_f (fdiv b32 (d_y d) (Fin 1000))]
   | FORMAT_SILENTWINGS \<Rightarrow> ''PANH '' @ show_f (fneg (d_h d)) @ NL @ ''PANV '' @ show_f (d_p d) @ NL
   | _ \<Rightarrow> sep TAB [show_f (d_h d), show_f (d_p d), show_f (d_r d), show_f (d_x d), show_f (d_y d), show_f (d_z d), show_nat (unat (d_c d))] @ NL)"

lemma put_text_fits: "length t < n \<Longrightarrow> put_text E a n t s = Some (xwrite E a (Text t) s)"
  by (simp add: put_text_def print_buf_def)

text \<open>C29: In the text formats no buffer is too small for a pose in range (angles of at most 180 degrees, as the axes give them, and
  translations of at most a thousand kilometers): the whole text is written, and nothing behind it.\<close>

theorem text_fits:
  assumes "angle_ok (d_h d)" "angle_ok (d_p d)" "angle_ok (d_r d)" "near (d_x d)" "near (d_y d)" "near (d_z d)"
    "a_format a \<in> {FORMAT_DEFAULT, FORMAT_FLIGHTGEAR, FORMAT_IL2, FORMAT_IL2_6DOF, FORMAT_SILENTWINGS}"
  shows "write_data nan E a d s = Some (xwrite E a (Text (text_of (a_format a) d)) s)"
proof -
  note t = angle_text [OF assms(1)] angle_text [OF assms(2)] angle_text [OF assms(3)] near_text(1) [OF assms(4)] near_text(1) [OF assms(5)]
    near_text(1) [OF assms(6)]
  note u = near_text(1) [OF near_div(2) [OF assms(6), of 300]] near_text(1) [OF near_div(2) [OF assms(4), of 1000]]
    near_text(1) [OF near_div(1) [OF assms(5), of 1000]]
  have c: "length (show_nat (unat (d_c d))) \<le> 10"
    using unsigned_less [of "d_c d", where ?'a = nat] by (intro length_show_nat) simp_all
  consider "a_format a = FORMAT_DEFAULT" | "a_format a = FORMAT_FLIGHTGEAR" | "a_format a = FORMAT_IL2" | "a_format a = FORMAT_IL2_6DOF"
    | "a_format a = FORMAT_SILENTWINGS" using assms(7) by auto
  then show ?thesis
  proof cases
    case 1
    have "length (text_of FORMAT_DEFAULT d) < 256" using t c by (simp add: text_of_def sep_def TAB_def NL_def)
    from put_text_fits [OF this, of E a s] show ?thesis by (simp add: 1 write_data_def write_data_default_def text_of_def)
  next
    case 2
    have "length (text_of FORMAT_FLIGHTGEAR d) < 128" using t by (simp add: text_of_def sep_def TAB_def NL_def)
    from put_text_fits [OF this, of E a s] show ?thesis by (simp add: 2 write_data_def write_data_flightgear_def text_of_def)
  next
    case 3
    have "length (text_of FORMAT_IL2 d) < 64" using t by (simp add: text_of_def sep_def BSL_def)
    from put_text_fits [OF this, of E a s] show ?thesis by (simp add: 3 write_data_def write_data_il2_def text_of_def)
  next
    case 4
    have "length (text_of FORMAT_IL2_6DOF d) < 128" using t u by (simp add: text_of_def sep_def BSL_def)
    from put_text_fits [OF this, of E a s] show ?thesis by (simp add: 4 write_data_def write_data_il2_6dof_def text_of_def)
  next
    case 5
    have "length (text_of FORMAT_SILENTWINGS d) < 64" using t by (simp add: text_of_def NL_def)
    from put_text_fits [OF this, of E a s] show ?thesis by (simp add: 5 write_data_def write_data_silentwings_def text_of_def)
  qed
qed

subsection \<open>The device of \<open>uinput\<close>\<close>

lemma pipe_normalize_range: "x \<noteq> NaN \<Longrightarrow> is_fin (pipe_normalize x) \<and> \<bar>cval (pipe_normalize x)\<bar> \<le> 1"
  by (cases x) (auto simp: pipe_normalize_def abs_le_iff not_less)

lemma b32_fields: "prec b32 = 24" "emax b32 = 127" "qmin b32 = - 149" "pow2 128 = 2 ^ 128"
  by (simp_all add: b32_def pow2_def)

lemma rval_b32_nat: "n \<le> 2 ^ 24 \<Longrightarrow> rval b32 (of_nat n) = of_nat n"
  using rval_grid [of "int n" b32 0] by (simp add: b32_def pow2_def)

lemma rnd_b32_nat: "n \<le> 2 ^ 24 \<Longrightarrow> flt_of_int b32 (int n) = Fin (of_nat n)"
proof -
  assume n: "n \<le> 2 ^ 24"
  then have "(of_nat n :: rat) \<le> of_nat (2 ^ 24)" by (simp only: of_nat_le_iff)
  then have "\<bar>rval b32 (of_nat n)\<bar> < pow2 (emax b32 + 1)" by (simp add: rval_b32_nat [OF n] b32_fields)
  from rnd_rval [OF this] show ?thesis by (simp add: flt_of_int_def rval_b32_nat [OF n])
qed

lemma scaled_value:
  assumes "a_range a = int n" "n \<le> 2 ^ 24" "fdiv b32 x c \<noteq> NaN"
  shows "\<exists>v. flt_to_int (scaled a x c) = Some v \<and> \<bar>v\<bar> \<le> int n" "\<exists>v. flt_to_int (fneg (scaled a x c)) = Some v \<and> \<bar>v\<bar> \<le> int n"
proof -
  note k = pipe_normalize_range [OF assms(3)]
  have R: "flt_of_int b32 (a_range a) = Fin (of_nat n)" using rnd_b32_nat [OF assms(2)] by (simp add: assms(1))
  have "\<bar>of_nat n * cval (pipe_normalize (fdiv b32 x c))\<bar> \<le> of_nat n" using k by (simp add: abs_mult mult_left_le)
  then have "is_fin (scaled a x c) \<and> \<bar>cval (scaled a x c)\<bar> \<le> of_nat n"
    unfolding scaled_def R
  proof (intro mul_abs_le)
    have "(of_nat n :: rat) \<le> of_nat (2 ^ 24)" using assms(2) by (simp only: of_nat_le_iff)
    then show "of_nat n < pow2 (emax b32 + 1)" by (simp add: b32_fields)
    show "rval b32 (of_nat n) \<le> of_nat n" using rval_b32_nat [OF assms(2)] by simp
  qed (use k in \<open>simp_all add: b32_fields\<close>)
  then have f: "is_fin (scaled a x c)" "\<bar>rat_trunc (cval (scaled a x c))\<bar> \<le> int n" "\<bar>rat_trunc (- cval (scaled a x c))\<bar> \<le> int n"
    using trunc_abs [of "cval (scaled a x c)" "int n"] trunc_abs [of "- cval (scaled a x c)" "int n"] by simp_all
  then show "\<exists>v. flt_to_int (scaled a x c) = Some v \<and> \<bar>v\<bar> \<le> int n" "\<exists>v. flt_to_int (fneg (scaled a x c)) = Some v \<and> \<bar>v\<bar> \<le> int n"
    using assms(2) by (auto simp: flt_to_int_def flt_to_range_def abs_le_iff)
qed

fun event_value :: "chunk \<Rightarrow> int" where
  "event_value (InputEvent t k v) = v"
| "event_value _ = 0"

text \<open>The values sent to the device are those it was set up for: whatever the pose is, as long as no coordinate is not-a-number,
  every event is within plus and minus the range, and no conversion is undefined, for every range up to 2^24.\<close>

theorem uinput_in_range:
  assumes "0 \<le> a_range a" "a_range a \<le> 2 ^ 24" "is_uinput (a_format a)"
    "\<And>x c. (x, c) \<in> {(d_h d, 180), (d_p d, 180), (d_r d, 180), (d_x d, 300), (d_y d, 300), (d_z d, 300)} \<Longrightarrow> fdiv b32 x (Fin c) \<noteq> NaN"
  shows "\<exists>es. write_data nan E a d s = Some (xwrites E a es s) \<and> length es = (if a_format a = FORMAT_UINPUT_ABS then 7 else 4) \<and>
    list_all (\<lambda>e. \<bar>event_value e\<bar> \<le> a_range a) es"
proof -
  have r: "a_range a = int (nat (a_range a))" "nat (a_range a) \<le> 2 ^ 24" using assms(1,2) by auto
  note v = scaled_value [OF r, simplified nat_0_le [OF assms(1)]]
  have n: "fdiv b32 (d_h d) (Fin 180) \<noteq> NaN" "fdiv b32 (d_p d) (Fin 180) \<noteq> NaN" "fdiv b32 (d_r d) (Fin 180) \<noteq> NaN"
    "fdiv b32 (d_x d) (Fin 300) \<noteq> NaN" "fdiv b32 (d_y d) (Fin 300) \<noteq> NaN" "fdiv b32 (d_z d) (Fin 300) \<noteq> NaN"
    by (rule assms(4); simp)+
  obtain h p rr where v1: "flt_to_int (fneg (scaled a (d_h d) (Fin 180))) = Some h" "\<bar>h\<bar> \<le> a_range a"
    "flt_to_int (scaled a (d_p d) (Fin 180)) = Some p" "\<bar>p\<bar> \<le> a_range a"
    "flt_to_int (fneg (scaled a (d_r d) (Fin 180))) = Some rr" "\<bar>rr\<bar> \<le> a_range a"
    using v(2) [OF n(1)] v(1) [OF n(2)] v(2) [OF n(3)] by blast
  obtain x y z where v2: "flt_to_int (scaled a (d_x d) (Fin 300)) = Some x" "\<bar>x\<bar> \<le> a_range a"
    "flt_to_int (scaled a (d_y d) (Fin 300)) = Some y" "\<bar>y\<bar> \<le> a_range a"
    "flt_to_int (scaled a (d_z d) (Fin 300)) = Some z" "\<bar>z\<bar> \<le> a_range a"
    using v(1) [OF n(4)] v(1) [OF n(5)] v(1) [OF n(6)] by blast
  define es where "es = (let t = (if a_format a = FORMAT_UINPUT_REL then EV_REL else EV_ABS) in
    [InputEvent t 0 h, InputEvent t 1 p, InputEvent t 2 rr] @
    (if a_format a = FORMAT_UINPUT_ABS then [InputEvent t 3 x, InputEvent t 4 y, InputEvent t 5 z] else []) @ [InputEvent EV_SYN 0 0])"
  have "uinput_events a d = Some es" using v1 v2 by (simp add: uinput_events_def es_def Let_def)
  then have "write_data nan E a d s = Some (xwrites E a es s)"
    using assms(3) by (auto simp: is_uinput_def write_data_def write_data_uinput_def)
  moreover have "length es = (if a_format a = FORMAT_UINPUT_ABS then 7 else 4)" by (simp add: es_def Let_def)
  moreover have "list_all (\<lambda>e. \<bar>event_value e\<bar> \<le> a_range a) es" using v1 v2 assms(1) by (simp add: es_def Let_def)
  ultimately show ?thesis by blast
qed

subsection \<open>Suspending\<close>

text \<open>What the output does to the descriptor leaves the library, the run state and the flags of the handlers alone.\<close>

definition kept :: "pipe \<Rightarrow> pipe \<Rightarrow> bool" where
  "kept s s' \<longleftrightarrow> p_lib s' = p_lib s \<and> Run_state s' = Run_state s \<and> Recenter s' = Recenter s \<and> Terminate s' = Terminate s"

lemma kept_refl [simp]: "kept s s"
  by (simp add: kept_def)

lemma kept_trans: "kept s t \<Longrightarrow> kept t u \<Longrightarrow> kept s u"
  by (simp add: kept_def)

lemma kept_fields [simp]: "kept s (ptick t) = kept s t" "kept s (t\<lparr>Output_FD := i\<rparr>) = kept s t" "kept s (t\<lparr>p_sent := x\<rparr>) = kept s t"
  "kept s (t\<lparr>p_exit := e\<rparr>) = kept s t" "kept s (snd (xerror c t)) = kept s t"
  by (simp_all add: kept_def ptick_def xerror_def)

lemma kept_from [simp]: "kept (ptick s) t = kept s t" "kept (s\<lparr>Output_FD := i\<rparr>) t = kept s t"
  by (simp_all add: kept_def ptick_def)

lemma xioctl_kept: "kept s (snd (xioctl E s))"
  by (simp add: xioctl_def split: option.split)

lemma xioctls_kept: "kept s (snd (xioctls n E s))"
proof (induction n arbitrary: s)
  case (Suc n)
  show ?case using xioctl_kept [of s E] Suc [of "snd (xioctl E s)"] kept_trans by (auto simp: case_prod_beta)
qed simp

lemma ofd_close_kept: "kept s (snd (ofd_close E a s))"
  using xioctl_kept [of s E] by (simp add: ofd_close_def case_prod_beta)

lemma xwrite_kept: "kept s (snd (xwrite E a c s))"
  using ofd_close_kept [of "ptick s" E a] by (simp add: xwrite_def split: option.split)

lemma xwrites_kept: "kept s (snd (xwrites E a cs s))"
proof (induction cs arbitrary: s)
  case (Cons c cs)
  show ?case using xwrite_kept [of s E a c] Cons [of "snd (xwrite E a c s)"] kept_trans by (auto simp: case_prod_beta)
qed simp

lemma write_keptD: "xwrite E a c s = (go, s') \<Longrightarrow> kept s s'" "xwrites E a cs s = (go, s') \<Longrightarrow> kept s s'"
  using xwrite_kept [of s E a c] xwrites_kept [of s E a cs] by simp_all

lemma file_kept: "kept s (snd (ofd_setup_file E a s))"
proof (cases "pe_open E (p_clock s)")
  case (Inr fd)
  let ?s = "(ptick s)\<lparr>Output_FD := int fd\<rparr>"
  let ?n = "if a_format a = FORMAT_UINPUT_REL then 3 else 10 :: nat"
  let ?c = "if a_format a = FORMAT_UINPUT_REL then DeviceSetup ''LinuxTrack uinput-rel'' 1 0 else DeviceSetup ''LinuxTrack uinput-abs'' 2 (a_range a)"
  obtain g1 s1 where x1: "xioctls ?n E ?s = (g1, s1)" by fastforce
  obtain g2 s2 where x2: "xwrite E a ?c s1 = (g2, s2)" by fastforce
  have 1: "kept s s1" using xioctls_kept [of ?s ?n E] by (simp add: x1)
  have 2: "kept s s2" using kept_trans [OF 1 xwrite_kept [of s1 E a ?c]] by (simp add: x2)
  have "kept s (snd (xioctl E s2))" using kept_trans [OF 2 xioctl_kept] .
  then show ?thesis using 1 2 by (simp add: ofd_setup_file_def Inr Let_def x1 x2)
qed (simp add: ofd_setup_file_def)

lemma connect_kept: "kept s (snd (snd (ofd_sock_connect E a r s)))"
  using ofd_close_kept [of "ptick s" E a] by (simp add: ofd_sock_connect_def case_prod_beta split: option.split)

lemma try_addrs_kept: "kept s (snd (try_addrs E a rps s))"
proof (induction rps arbitrary: s)
  case (Cons rp rps)
  obtain sock conn where [simp]: "rp = (sock, conn)" by (cases rp)
  show ?case
  proof (cases sock)
    case None
    then show ?thesis using Cons [of "(ptick s)\<lparr>Output_FD := - 1\<rparr>"] by simp
  next
    case (Some fd)
    let ?s = "(ptick s)\<lparr>Output_FD := int fd\<rparr>"
    have 1: "kept s (snd (snd (ofd_sock_connect E a conn ?s)))" using connect_kept [of ?s E a conn] by simp
    have 2: "kept s (snd (ofd_close E a (snd (snd (ofd_sock_connect E a conn ?s)))))" using kept_trans [OF 1 ofd_close_kept] .
    show ?thesis using 1 2 kept_trans [OF 2 Cons] by (simp add: Some case_prod_beta)
  qed
qed simp

lemma setup_kept: "kept s (snd (setup_ofd E a s))"
proof -
  have "kept s (snd (ofd_setup_sock E a s))"
  proof (cases "pe_addrs E (p_clock s)")
    case (Some addrs)
    have 1: "kept s (snd (ofd_close E a (ptick s)))" using ofd_close_kept [of "ptick s" E a] by simp
    show ?thesis using 1 kept_trans [OF 1 try_addrs_kept] by (simp add: ofd_setup_sock_def Some case_prod_beta)
  qed (simp add: ofd_setup_sock_def)
  then show ?thesis using file_kept by (simp add: setup_ofd_def split: outputs.split)
qed

lemma write_data_kept: "write_data nan E a d s = Some (go, s') \<Longrightarrow> kept s s'"
proof -
  have t: "put_text E a n t s = Some (go, s') \<Longrightarrow> kept s s'" for n t by (auto simp: put_text_def dest: write_keptD)
  have u: "write_data_uinput E a d s = Some (go, s') \<Longrightarrow> kept s s'" by (auto simp: write_data_uinput_def dest: write_keptD)
  have m: "write_data_mouse E a d s = Some (go, s') \<Longrightarrow> kept s s'"
    by (auto simp: write_data_mouse_def bind_eq_Some_conv Let_def dest: write_keptD)
  have h: "write_data_headtrack nan E a d s = Some (go, s') \<Longrightarrow> kept s s'" by (auto simp: write_data_headtrack_def dest: write_keptD)
  show "write_data nan E a d s = Some (go, s') \<Longrightarrow> kept s s'" using t u m h
    by (cases "a_format a") (simp_all add: write_data_def write_data_default_def write_data_flightgear_def write_data_il2_def
        write_data_il2_6dof_def write_data_silentwings_def)
qed

lemma pass_on_kept:
  assumes "pass_on nan E a s = Some (go, s')"
  shows "kept s s'"
proof -
  obtain r d where p: "pe_pose E (p_clock s) = (r, d)" by fastforce
  have u: "write_data_uinput E a d (ptick s) = Some (go, s') \<Longrightarrow> kept s s'" by (auto simp: write_data_uinput_def dest: write_keptD)
  have w: "write_data nan E a d (ptick (ptick s)) = Some (go, s') \<Longrightarrow> kept s s'" using write_data_kept [of nan E a d "ptick (ptick s)"] by simp
  show ?thesis using assms u w by (auto simp: pass_on_def p Let_def xerror_def split: sum.splits if_splits)
qed

text \<open>The calls that suspend and wake the tracking, in their order.\<close>

definition switches :: "pipe \<Rightarrow> lib_request list" where
  "switches s = filter (\<lambda>r. r = LibSuspend \<or> r = LibWakeup) (p_lib s)"

definition asleep :: "pipe \<Rightarrow> bool" where
  "asleep s \<longleftrightarrow> Run_state s = RST_STOPPED \<or> Run_state s = RST_WAKEUP"

definition switched_in_turn :: "pipe \<Rightarrow> bool" where
  "switched_in_turn s \<longleftrightarrow> (\<exists>n. switches s = concat (replicate n [LibSuspend, LibWakeup]) @ (if asleep s then [LibSuspend] else []))"

lemma in_turn_kept: "kept s s' \<Longrightarrow> switched_in_turn s' = switched_in_turn s"
  by (simp add: kept_def switched_in_turn_def switches_def asleep_def)

lemma in_turn_deliver: "switched_in_turn (deliver sigs s) = switched_in_turn s"
proof (induction sigs arbitrary: s)
  case (Cons g gs)
  have "switches (setup_signals g s) = switches s \<and> asleep (setup_signals g s) = asleep s"
    by (cases g; cases "Run_state s")
      (simp_all add: setup_signals_def catch_sigusr1_def catch_sighup_def catch_sigterm_def catch_sigint_def catch_sigpipe_def switches_def asleep_def)
  then have "switched_in_turn (setup_signals g s) = switched_in_turn s" by (simp add: switched_in_turn_def)
  then show ?case using Cons [of "setup_signals g s"] by (simp add: deliver_def)
qed (simp add: deliver_def)

lemma replicate_snoc: "concat (replicate n xs) @ xs = concat (replicate (Suc n) xs)"
  by (induction n) simp_all

lemma in_turn_suspended: "switched_in_turn s \<Longrightarrow> switched_in_turn (snd (suspended s))"
proof (cases "Run_state s")
  case RST_WAKEUP
  assume "switched_in_turn s"
  then obtain n where n: "switches s = concat (replicate n [LibSuspend, LibWakeup]) @ [LibSuspend]"
    by (auto simp: switched_in_turn_def asleep_def RST_WAKEUP)
  have "switches (snd (suspended s)) = switches s @ [LibWakeup]" by (simp add: suspended_def RST_WAKEUP lib_call_def switches_def)
  also have "\<dots> = concat (replicate (Suc n) [LibSuspend, LibWakeup])" using replicate_snoc [of n "[LibSuspend, LibWakeup]"] n by simp
  finally show ?thesis by (auto simp: switched_in_turn_def suspended_def RST_WAKEUP asleep_def lib_call_def intro!: exI [of _ "Suc n"])
qed (auto simp: switched_in_turn_def suspended_def asleep_def lib_call_def switches_def)

lemma in_turn_pass:
  assumes "run_pass nan E a sigs s = Some (go, s')" "switched_in_turn s"
  shows "switched_in_turn s'"
proof -
  obtain g1 g2 g3 where [simp]: "sigs = (g1, g2, g3)" by (cases sigs)
  obtain st s1 where 1: "suspended (deliver g1 s) = (st, s1)" by fastforce
  have t1: "switched_in_turn s1" using in_turn_suspended [of "deliver g1 s"] assms(2) 1 by (simp add: in_turn_deliver)
  define s2 where "s2 = deliver g3 (if Recenter (deliver g2 s1) then recenter (deliver g2 s1) else deliver g2 s1)"
  have "switched_in_turn (recenter x) = switched_in_turn x" for x
    by (simp add: recenter_def lib_call_def switched_in_turn_def switches_def asleep_def)
  then have t2: "switched_in_turn s2" using t1 by (simp add: s2_def in_turn_deliver)
  obtain go2 un s3 where 3: "ofd_unset E a s2 = (go2, un, s3)" by (metis prod_cases3)
  have t3: "switched_in_turn s3" using 3 t2 setup_kept [of s2 E a] in_turn_kept by (auto simp: ofd_unset_def case_prod_beta split: if_splits)
  show ?thesis
  proof (cases "st \<or> \<not> go2 \<or> un")
    case True
    then show ?thesis using assms(1) t1 t3 by (auto simp: run_pass_def 1 3 s2_def [symmetric] Let_def split: if_splits)
  next
    case False
    then have "pass_on nan E a s3 = Some (go, s')" using assms(1) by (simp add: run_pass_def 1 3 s2_def [symmetric] Let_def)
    then show ?thesis using t3 in_turn_kept [OF pass_on_kept] by blast
  qed
qed

text \<open>C30: However the signals arrive, the tracking is suspended and woken in turn, beginning with a suspension, and whether it is
  suspended agrees with the state of the program: \<open>SIGUSR1\<close> twice in a row never suspends twice.\<close>

theorem suspended_in_turn:
  "run_loop nan E a passes s = Some (going, s') \<Longrightarrow> switched_in_turn s \<Longrightarrow> switched_in_turn s'"
proof (induction passes arbitrary: s)
  case (Cons p ps)
  show ?case
  proof (cases "Terminate s")
    case False
    with Cons.prems(1) obtain go s1 where p: "run_pass nan E a p s = Some (go, s1)"
      and r: "(if go then run_loop nan E a ps s1 else Some (False, s1)) = Some (going, s')" by (auto simp: bind_eq_Some_conv)
    have "switched_in_turn s1" using in_turn_pass [OF p Cons.prems(2)] .
    then show ?thesis using r Cons.IH [of s1] by (cases go) simp_all
  qed (use Cons.prems in simp)
qed simp

subsection \<open>Addresses\<close>

text \<open>An address that refuses the connection hides all behind it: as long as the first address of the destination refuses, no
  number of passes of the loop sends anything or ends, whatever the other addresses would answer.\<close>

theorem refused_address_hides_others:
  assumes "\<And>n. \<exists>fd rest. pe_addrs E n = Some ((Some fd, Some ECONNREFUSED) # rest)" "\<not> is_uinput (a_format a)"
    "a_output a = OUTPUT_NET_TCP \<or> a_output a = OUTPUT_NET_UDP" "Output_FD s = - 1" "Run_state s = RST_RUNNING" "\<not> Terminate s"
  shows "\<exists>s'. run_loop nan E a (replicate n ([], [], [])) s = Some (True, s') \<and> p_sent s' = p_sent s \<and> Output_FD s' = - 1 \<and> p_exit s' = p_exit s"
  using assms(4-6)
proof (induction n arbitrary: s)
  case (Suc n)
  define s1 where "s1 = (if Recenter s then recenter s else s)"
  have s1: "Output_FD s1 = - 1" "Run_state s1 = RST_RUNNING" "\<not> Terminate s1" "p_sent s1 = p_sent s" "p_exit s1 = p_exit s"
    using Suc.prems by (simp_all add: s1_def recenter_def lib_call_def)
  obtain fd rest where ad: "pe_addrs E (p_clock s1) = Some ((Some fd, Some ECONNREFUSED) # rest)" using assms(1) by blast
  define s2 where "s2 = snd (setup_ofd E a s1)"
  have su: "setup_ofd E a s1 = (True, s2) \<and> Output_FD s2 = - 1 \<and> p_sent s2 = p_sent s1 \<and> p_exit s2 = p_exit s1 \<and>
      Run_state s2 = RST_RUNNING \<and> \<not> Terminate s2"
    using assms(2,3) s1 by (auto simp: s2_def setup_ofd_def ofd_setup_sock_def ad ofd_close_def ptick_def ofd_sock_connect_def)
  have un: "ofd_unset E a s1 = (True, True, s2)" using su s1 by (simp add: ofd_unset_def)
  have "run_pass nan E a ([], [], []) s = Some (True, s2)"
    by (cases "Recenter s") (use un Suc.prems in \<open>simp_all add: run_pass_def deliver_def suspended_def s1_def\<close>)
  moreover obtain s' where "run_loop nan E a (replicate n ([], [], [])) s2 = Some (True, s') \<and> p_sent s' = p_sent s2 \<and> Output_FD s' = - 1 \<and> p_exit s' = p_exit s2"
    using Suc.IH [of s2] su by blast
  ultimately show ?case using Suc.prems(3) su s1 by simp
qed simp

text \<open>A reader that is too slow ends the program: the file is opened without blocking, and \<open>EAGAIN\<close> is not among the errors
  that are tolerated.\<close>

lemma slow_reader_ends_program:
  "pe_write E (p_clock s) = Some EAGAIN \<Longrightarrow> xwrite E a c s = (False, (ptick s)\<lparr>p_exit := Some 1\<rparr>)"
  by (simp add: xwrite_def xerror_def)

text \<open>A head turned further than a byte can tell makes the conversion for the mouse undefined.\<close>

lemma mouse_angle_undefined: "d_h d = Fin 130 \<Longrightarrow> write_data_mouse E a d s = None"
  by (simp add: write_data_mouse_def flt_to_range_def rat_trunc_def)

subsection \<open>Examples\<close>

definition demo_out :: pipe_env where
  "demo_out = \<lparr>pe_write = (\<lambda>_. None), pe_ioctl = (\<lambda>_. None), pe_open = (\<lambda>_. Inr 4),
     pe_addrs = (\<lambda>_. Some [(Some 4, Some ECONNREFUSED), (Some 5, None)]), pe_select = (\<lambda>_. Inr True),
     pe_pose = (\<lambda>_. (1, \<lparr>d_h = Fin 7, d_p = NegZero, d_r = Fin (- 2), d_x = Fin 0, d_y = Fin 0, d_z = Fin 0, d_c = 1\<rparr>)),
     pe_state = (\<lambda>_. RUNNING), pe_init = INITIALIZING\<rparr>"

definition demo_pose_data :: ltr_data where
  "demo_pose_data = \<lparr>d_h = Fin 7, d_p = NegZero, d_r = Fin (- 2), d_x = Fin 200, d_y = Fin 0, d_z = Inf True, d_c = 1\<rparr>"

theorem headtrack_roundtrip_witness:
  "\<exists>bs. write_data 0 demo_out (Args_default\<lparr>a_format := FORMAT_HEADTRACK\<rparr>) demo_pose_data pipe_start =
      Some (xwrite demo_out (Args_default\<lparr>a_format := FORMAT_HEADTRACK\<rparr>) (Bytes bs) pipe_start) \<and>
    map (\<lambda>k. packet_float k bs) [0, 1, 2, 3, 4, 5] = [Fin 7, Fin (- 2), NegZero, Fin 200, Fin 0, Inf True]"
proof -
  have s: "x \<in> {d_h demo_pose_data, d_r demo_pose_data, d_p demo_pose_data, d_x demo_pose_data, d_y demo_pose_data, d_z demo_pose_data}
      \<Longrightarrow> single x \<and> x \<noteq> NaN" for x
    by (auto simp: demo_pose_data_def single_def rnd_ints)
  show ?thesis using headtrack_roundtrip [of demo_pose_data "Args_default\<lparr>a_format := FORMAT_HEADTRACK\<rparr>" 0 demo_out pipe_start, OF s]
    by (simp add: demo_pose_data_def) blast
qed

theorem text_fits_witness:
  "write_data 0 demo_out (Args_default\<lparr>a_format := FORMAT_IL2\<rparr>) (demo_pose_data\<lparr>d_z := Fin 0\<rparr>) pipe_start =
     Some (xwrite demo_out (Args_default\<lparr>a_format := FORMAT_IL2\<rparr>) (Text (text_of FORMAT_IL2 (demo_pose_data\<lparr>d_z := Fin 0\<rparr>))) pipe_start)"
  using text_fits [of "demo_pose_data\<lparr>d_z := Fin 0\<rparr>" "Args_default\<lparr>a_format := FORMAT_IL2\<rparr>" 0 demo_out pipe_start]
  by (simp add: demo_pose_data_def angle_ok_def near_def)

theorem suspended_in_turn_witness:
  "\<exists>s'. run_loop 0 demo_out (Args_default\<lparr>a_output := OUTPUT_STDOUT, a_format := FORMAT_HEADTRACK\<rparr>)
      [([SIGUSR1], [], []), ([SIGUSR1, SIGUSR1], [], []), ([], [], [SIGUSR1])] pipe_start = Some (True, s') \<and> switched_in_turn s'"
proof -
  have "\<exists>s'. run_loop 0 demo_out (Args_default\<lparr>a_output := OUTPUT_STDOUT, a_format := FORMAT_HEADTRACK\<rparr>)
      [([SIGUSR1], [], []), ([SIGUSR1, SIGUSR1], [], []), ([], [], [SIGUSR1])] pipe_start = Some (True, s')"
    by (simp add: run_pass_def deliver_def setup_signals_def catch_sigusr1_def suspended_def lib_call_def ofd_unset_def setup_ofd_def pass_on_def
        demo_out_def pipe_start_def Args_default_def Let_def ptick_def is_uinput_def write_data_def write_data_headtrack_def xwrite_def)
  moreover have "switched_in_turn pipe_start" by (auto simp: switched_in_turn_def switches_def pipe_start_def asleep_def intro: exI [of _ 0])
  ultimately show ?thesis using suspended_in_turn by blast
qed

theorem refused_address_hides_others_witness:
  "\<exists>s'. run_loop 0 demo_out (Args_default\<lparr>a_output := OUTPUT_NET_TCP\<rparr>) (replicate 9 ([], [], [])) pipe_start = Some (True, s') \<and> p_sent s' = []"
  using refused_address_hides_others [of demo_out "Args_default\<lparr>a_output := OUTPUT_NET_TCP\<rparr>" pipe_start 0 9]
  by (auto simp: demo_out_def Args_default_def is_uinput_def pipe_start_def)

theorem uinput_in_range_witness:
  "\<exists>es. write_data 0 demo_out (Args_default\<lparr>a_format := FORMAT_UINPUT_ABS\<rparr>) demo_pose_data pipe_start =
      Some (xwrites demo_out (Args_default\<lparr>a_format := FORMAT_UINPUT_ABS\<rparr>) es pipe_start) \<and> length es = 7 \<and>
    list_all (\<lambda>e. \<bar>event_value e\<bar> \<le> 4096) es"
proof -
  have "fdiv b32 x (Fin c) \<noteq> NaN" if "(x, c) \<in> {(d_h demo_pose_data, 180), (d_p demo_pose_data, 180), (d_r demo_pose_data, 180),
      (d_x demo_pose_data, 300), (d_y demo_pose_data, 300), (d_z demo_pose_data, 300)}" for x c
    using that by (auto simp: demo_pose_data_def fdiv_def Let_def signed_zero_def rnd_def)
  from uinput_in_range [where a = "Args_default\<lparr>a_format := FORMAT_UINPUT_ABS\<rparr>" and nan = 0 and E = demo_out and s = pipe_start, OF _ _ _ this]
  show ?thesis by (auto simp: Args_default_def is_uinput_def)
qed

end
