(* ===== verification/DriverPrefs.thy ===== *)
theory DriverPrefs
  imports PrefGlobal
begin

text \<open>
  \<open>src/wc_driver_prefs.c\<close> and \<open>src/wii_driver_prefs.c\<close>: the settings of the webcam and Wiimote drivers, cached in static variables
  and stored in the section of the device. The strings the code allocates are pointers that can be null or dangle (\<open>cstr\<close>):
  freeing a dangling one, and changing a key in a section whose name is null, has no result.
\<close>

datatype cstr = CNull | CStr string | CFreed

definition free_str :: "cstr \<Rightarrow> cstr option" where
  "free_str s = (case s of CNull \<Rightarrow> Some CNull | CStr _ \<Rightarrow> Some CFreed | CFreed \<Rightarrow> None)"

subsection \<open>Webcams\<close>

record wcprefs =
  wc_max_blob :: int
  wc_min_blob :: int
  wc_threshold :: int
  camera_id :: cstr
  pix_fmt :: cstr
  res_x :: int
  res_y :: int
  fps_num :: int
  fps_den :: int
  wc_flip :: bool
  cascade :: cstr
  exp_filt :: cflt
  optim_level :: int

definition tenth :: cflt where "tenth = rnd b32 (1 / 10)"

definition wcprefs_init :: wcprefs where
  "wcprefs_init = \<lparr>wc_max_blob = 0, wc_min_blob = 0, wc_threshold = 0, camera_id = CNull, pix_fmt = CNull, res_x = 0, res_y = 0,
     fps_num = 0, fps_den = 0, wc_flip = False, cascade = CNull, exp_filt = tenth, optim_level = 0\<rparr>"

text \<open>\<open>%d x %d\<close> and \<open>%d/%d\<close>; both numbers, or neither.\<close>

definition scan_res :: "string \<Rightarrow> (int \<times> int) option" where
  "scan_res s = do { (a, s) \<leftarrow> scan_int s; s \<leftarrow> scan_char (CHR ''x'') (dropWhile is_space s);
     (b, _) \<leftarrow> scan_int (dropWhile is_space s); Some (a, b) }"

definition scan_ratio :: "string \<Rightarrow> (int \<times> int) option" where
  "scan_ratio s = do { (a, s) \<leftarrow> scan_int s; s \<leftarrow> scan_char (CHR ''/'') s; (b, _) \<leftarrow> scan_int s; Some (a, b) }"

definition dev_int_or :: "prefs \<Rightarrow> string \<Rightarrow> string \<Rightarrow> int \<Rightarrow> int \<Rightarrow> int" where
  "dev_int_or p dev key old dflt = (case ltr_int_get_key_int p dev key old of (ok, v) \<Rightarrow> if ok then v else dflt)"

text \<open>The old string is freed; the pointer is only replaced when there is a new one.\<close>

definition replace_str :: "cstr \<Rightarrow> string option \<Rightarrow> cstr option" where
  "replace_str old new = map_option (\<lambda>f. case new of None \<Rightarrow> f | Some t \<Rightarrow> CStr t) (free_str old)"

definition ltr_int_wc_init_prefs :: "prefs \<Rightarrow> wcprefs \<Rightarrow> (bool \<times> wcprefs) option" where
  "ltr_int_wc_init_prefs p c = (case ltr_int_get_device_section p of
     None \<Rightarrow> Some (False, c)
   | Some dev \<Rightarrow> do {
       let c = c\<lparr>wc_max_blob := dev_int_or p dev ''Max-blob'' (wc_max_blob c) 1024,
                 wc_min_blob := dev_int_or p dev ''Min-blob'' (wc_min_blob c) 4,
                 wc_threshold := dev_int_or p dev ''Threshold'' (wc_threshold c) 140\<rparr>;
       i \<leftarrow> replace_str (camera_id c) (ltr_int_get_key p dev ''Capture-device-id'');
       f \<leftarrow> replace_str (pix_fmt c) (ltr_int_get_key p dev ''Pixel-format'');
       let c = c\<lparr>camera_id := i, pix_fmt := f\<rparr>;
       let c = (case ltr_int_get_key p dev ''Resolution'' of
                  None \<Rightarrow> c
                | Some t \<Rightarrow> (case scan_res t of None \<Rightarrow> c\<lparr>res_x := - 1, res_y := - 1\<rparr> | Some (x, y) \<Rightarrow> c\<lparr>res_x := x, res_y := y\<rparr>));
       let c = (case ltr_int_get_key p dev ''Fps'' of
                  None \<Rightarrow> c
                | Some t \<Rightarrow> (case scan_ratio t of None \<Rightarrow> c\<lparr>fps_num := - 1, fps_den := - 1\<rparr> | Some (n, d) \<Rightarrow> c\<lparr>fps_num := n, fps_den := d\<rparr>));
       let c = c\<lparr>wc_flip := (case ltr_int_get_key p dev ''Upside-down'' of None \<Rightarrow> False | Some t \<Rightarrow> strcaseeq t ''Yes'')\<rparr>;
       _ \<leftarrow> free_str (cascade c);
       let c = c\<lparr>cascade := (case ltr_int_get_key p dev ''Cascade'' of None \<Rightarrow> CNull | Some t \<Rightarrow> CStr t),
                 exp_filt := (case ltr_int_get_key_flt p dev ''Exp-filter-factor'' (exp_filt c) of (ok, v) \<Rightarrow> if ok then v else tenth),
                 optim_level := dev_int_or p dev ''Optimization-level'' (optim_level c) 0\<rparr>;
       Some (True, c) })"

definition ltr_int_wc_close_prefs :: "wcprefs \<Rightarrow> wcprefs option" where
  "ltr_int_wc_close_prefs c =
     do { _ \<leftarrow> free_str (camera_id c);
          _ \<leftarrow> free_str (pix_fmt c);
          _ \<leftarrow> free_str (cascade c);
          Some (c\<lparr>camera_id := CNull, pix_fmt := CNull, cascade := CNull\<rparr>) }"

definition change_dev :: "string \<Rightarrow> string \<Rightarrow> prefs \<Rightarrow> (bool \<times> prefs) option" where
  "change_dev key val p = map_option (\<lambda>dev. ltr_int_change_key dev key val p) (ltr_int_get_device_section p)"

definition change_dev_int :: "string \<Rightarrow> int \<Rightarrow> prefs \<Rightarrow> (bool \<times> prefs) option" where
  "change_dev_int key val p = map_option (\<lambda>dev. ltr_int_change_key_int dev key val p) (ltr_int_get_device_section p)"

definition with_cache :: "'c \<Rightarrow> (bool \<times> prefs) option \<Rightarrow> (bool \<times> 'c \<times> prefs) option" where
  "with_cache c r = map_option (\<lambda>(ok, p). (ok, c, p)) r"

definition ltr_int_wc_get_max_blob :: "wcprefs \<Rightarrow> int" where "ltr_int_wc_get_max_blob c = wc_max_blob c"

definition ltr_int_wc_set_max_blob :: "int \<Rightarrow> wcprefs \<Rightarrow> prefs \<Rightarrow> (bool \<times> wcprefs \<times> prefs) option" where
  "ltr_int_wc_set_max_blob val c p = (let val = (if val < 0 then 0 else val)
     in with_cache (c\<lparr>wc_max_blob := val\<rparr>) (change_dev_int ''Max-blob'' val p))"

definition ltr_int_wc_get_min_blob :: "wcprefs \<Rightarrow> int" where "ltr_int_wc_get_min_blob c = wc_min_blob c"

definition ltr_int_wc_set_min_blob :: "int \<Rightarrow> wcprefs \<Rightarrow> prefs \<Rightarrow> (bool \<times> wcprefs \<times> prefs) option" where
  "ltr_int_wc_set_min_blob val c p = (let val = (if val < 0 then 0 else val)
     in with_cache (c\<lparr>wc_min_blob := val\<rparr>) (change_dev_int ''Min-blob'' val p))"

definition ltr_int_wc_get_threshold :: "wcprefs \<Rightarrow> int" where "ltr_int_wc_get_threshold c = wc_threshold c"

definition ltr_int_wc_set_threshold :: "int \<Rightarrow> wcprefs \<Rightarrow> prefs \<Rightarrow> (bool \<times> wcprefs \<times> prefs) option" where
  "ltr_int_wc_set_threshold val c p = (let val = (if val < 30 then 30 else val); val = (if val > 253 then 253 else val)
     in with_cache (c\<lparr>wc_threshold := val\<rparr>) (change_dev_int ''Threshold'' val p))"

definition ltr_int_wc_get_id :: "wcprefs \<Rightarrow> cstr" where "ltr_int_wc_get_id c = camera_id c"
definition ltr_int_wc_get_pixfmt :: "wcprefs \<Rightarrow> cstr" where "ltr_int_wc_get_pixfmt c = pix_fmt c"

definition ltr_int_wc_set_pixfmt :: "string \<Rightarrow> wcprefs \<Rightarrow> prefs \<Rightarrow> (bool \<times> wcprefs \<times> prefs) option" where
  "ltr_int_wc_set_pixfmt fmt c p =
     do { _ \<leftarrow> free_str (pix_fmt c);
          with_cache (c\<lparr>pix_fmt := CStr fmt\<rparr>) (change_dev ''Pixel-format'' fmt p) }"

definition ltr_int_wc_get_resolution :: "wcprefs \<Rightarrow> (int \<times> int) option" where
  "ltr_int_wc_get_resolution c = (if res_x c < 0 \<or> res_y c < 0 then None else Some (res_x c, res_y c))"

definition ltr_int_wc_set_resolution :: "int \<Rightarrow> int \<Rightarrow> wcprefs \<Rightarrow> prefs \<Rightarrow> (bool \<times> wcprefs \<times> prefs) option" where
  "ltr_int_wc_set_resolution x y c p =
     with_cache (c\<lparr>res_x := x, res_y := y\<rparr>) (change_dev ''Resolution'' (show_int x @ '' x '' @ show_int y) p)"

definition ltr_int_wc_get_fps :: "wcprefs \<Rightarrow> (int \<times> int) option" where
  "ltr_int_wc_get_fps c = (if fps_num c < 0 \<or> fps_den c < 0 then None else Some (fps_num c, fps_den c))"

definition ltr_int_wc_set_fps :: "int \<Rightarrow> int \<Rightarrow> wcprefs \<Rightarrow> prefs \<Rightarrow> (bool \<times> wcprefs \<times> prefs) option" where
  "ltr_int_wc_set_fps num den c p =
     with_cache (c\<lparr>fps_num := num, fps_den := den\<rparr>) (change_dev ''Fps'' (show_int num @ ''/'' @ show_int den) p)"

definition ltr_int_wc_get_flip :: "wcprefs \<Rightarrow> bool" where "ltr_int_wc_get_flip c = wc_flip c"

definition ltr_int_wc_set_flip :: "bool \<Rightarrow> wcprefs \<Rightarrow> prefs \<Rightarrow> (bool \<times> wcprefs \<times> prefs) option" where
  "ltr_int_wc_set_flip new_flip c p =
     with_cache (c\<lparr>wc_flip := new_flip\<rparr>) (change_dev ''Upside-down'' (if new_flip then ''Yes'' else ''No'') p)"

definition ltr_int_wc_get_cascade :: "wcprefs \<Rightarrow> cstr" where "ltr_int_wc_get_cascade c = cascade c"

text \<open>A null name is kept in the variable, and then a \<open>std::string\<close> is made from it.\<close>

definition ltr_int_wc_set_cascade :: "string option \<Rightarrow> wcprefs \<Rightarrow> prefs \<Rightarrow> (bool \<times> wcprefs \<times> prefs) option" where
  "ltr_int_wc_set_cascade new_cascade c p =
     do { _ \<leftarrow> free_str (cascade c);
          name \<leftarrow> new_cascade;
          with_cache (c\<lparr>cascade := CStr name\<rparr>) (change_dev ''Cascade'' name p) }"

definition ltr_int_wc_get_eff :: "wcprefs \<Rightarrow> cflt" where "ltr_int_wc_get_eff c = exp_filt c"

definition ltr_int_wc_set_eff :: "cflt \<Rightarrow> wcprefs \<Rightarrow> prefs \<Rightarrow> (bool \<times> wcprefs \<times> prefs) option" where
  "ltr_int_wc_set_eff new_eff c p = with_cache (c\<lparr>exp_filt := new_eff\<rparr>) (change_dev ''Exp-filter-factor'' (show_flt new_eff) p)"

definition ltr_int_wc_get_optim_level :: "wcprefs \<Rightarrow> int" where "ltr_int_wc_get_optim_level c = optim_level c"

definition ltr_int_wc_set_optim_level :: "int \<Rightarrow> wcprefs \<Rightarrow> prefs \<Rightarrow> (bool \<times> wcprefs \<times> prefs) option" where
  "ltr_int_wc_set_optim_level opt c p = with_cache (c\<lparr>optim_level := opt\<rparr>) (change_dev_int ''Optimization-level'' opt p)"

subsection \<open>Wiimotes\<close>

text \<open>Which of the four lights are on, as characters in a buffer of five.\<close>

type_synonym lights = "bool \<times> bool \<times> bool \<times> bool"

definition decode :: "string \<Rightarrow> lights option" where
  "decode val = do { a \<leftarrow> rd val 0; b \<leftarrow> rd val 1; c \<leftarrow> rd val 2; d \<leftarrow> rd val 3;
     Some (a = CHR ''1'', b = CHR ''1'', c = CHR ''1'', d = CHR ''1'') }"

definition encode :: "lights \<Rightarrow> string" where
  "encode l = (case l of (d1, d2, d3, d4) \<Rightarrow> map (\<lambda>b. if b then CHR ''1'' else CHR ''0'') [d1, d2, d3, d4] @ [CHR 0x00])"

record wiiprefs =
  run_indication :: string
  pause_indication :: string

definition wiiprefs_init :: wiiprefs where
  "wiiprefs_init = \<lparr>run_indication = ''0000'' @ [CHR 0x00], pause_indication = ''0000'' @ [CHR 0x00]\<rparr>"

text \<open>\<open>strncpy\<close> of five characters, and the string a buffer holds.\<close>

definition copy5 :: "string \<Rightarrow> string" where
  "copy5 s = take 5 (s @ replicate 5 (CHR 0x00))"

definition c_string :: "string \<Rightarrow> string" where
  "c_string val = takeWhile (\<lambda>ch. ch \<noteq> CHR 0x00) val"

definition ltr_int_wii_init_prefs :: "prefs \<Rightarrow> wiiprefs \<Rightarrow> bool \<times> wiiprefs" where
  "ltr_int_wii_init_prefs p c = (case ltr_int_get_device_section p of
     None \<Rightarrow> (False, c)
   | Some dev \<Rightarrow>
       let c = (case ltr_int_get_key p dev ''Running-indication'' of None \<Rightarrow> c | Some t \<Rightarrow> c\<lparr>run_indication := copy5 t\<rparr>);
           c = (case ltr_int_get_key p dev ''Paused-indication'' of None \<Rightarrow> c | Some t \<Rightarrow> c\<lparr>pause_indication := copy5 t\<rparr>)
       in (True, c))"

definition ltr_int_get_run_indication :: "wiiprefs \<Rightarrow> lights option" where
  "ltr_int_get_run_indication c = decode (run_indication c)"

definition ltr_int_set_run_indication :: "lights \<Rightarrow> wiiprefs \<Rightarrow> prefs \<Rightarrow> (bool \<times> wiiprefs \<times> prefs) option" where
  "ltr_int_set_run_indication l c p =
     with_cache (c\<lparr>run_indication := encode l\<rparr>) (change_dev ''Running-indication'' (c_string (encode l)) p)"

definition ltr_int_get_pause_indication :: "wiiprefs \<Rightarrow> lights option" where
  "ltr_int_get_pause_indication c = decode (pause_indication c)"

definition ltr_int_set_pause_indication :: "lights \<Rightarrow> wiiprefs \<Rightarrow> prefs \<Rightarrow> (bool \<times> wiiprefs \<times> prefs) option" where
  "ltr_int_set_pause_indication l c p =
     with_cache (c\<lparr>pause_indication := encode l\<rparr>) (change_dev ''Paused-indication'' (c_string (encode l)) p)"

subsection \<open>Properties\<close>

lemma scan_written:
  assumes "0 \<le> x" "x < 2 ^ 31" "0 \<le> y" "y < 2 ^ 31"
  shows "scan_res (show_int x @ '' x '' @ show_int y) = Some (x, y)" "scan_ratio (show_int x @ ''/'' @ show_int y) = Some (x, y)"
  using scan_show_int [OF assms(1,2), of "'' x '' @ show_int y"] scan_show_int [OF assms(1,2), of "''/'' @ show_int y"]
    scan_show_int [OF assms(3,4), of "[]"] dropWhile_space_digits [of "nat y"] assms(3)
  by (simp_all add: scan_res_def scan_ratio_def scan_char_def is_digit_def is_space_def show_int_def)

lemma set_dev:
  assumes "prefs_ok p" "ltr_int_get_device_section p = Some dev" "key \<noteq> ''Input''"
  shows "change_dev key v p = Some (True, setValue dev key v p)" "change_dev_int key i p = Some (True, setValue dev key (show_int i) p)"
    "prefs_ok (setValue dev key v p)" "ltr_int_get_device_section (setValue dev key v p) = Some dev"
    "ltr_int_get_key (setValue dev key v p) dev key' = (if key' = key then Some v else ltr_int_get_key p dev key')"
  using assms by (auto simp: change_dev_def change_dev_int_def ltr_int_change_key_def ltr_int_change_key_int_def setValue_others setValue_ok
      ltr_int_get_device_section_def ltr_int_get_key_def get_set)

text \<open>C31: The settings of a webcam survive a restart: after the resolution, the frame rate, the threshold and the flip are set, a
  process that starts with the preferences reads back the same values, the threshold as it was limited to 30 and 253.\<close>

theorem webcam_settings_survive:
  assumes "pref_step\<^sup>*\<^sup>* prefs_empty p" "ltr_int_get_device_section p = Some dev"
    "0 \<le> x" "x < 2 ^ 31" "0 \<le> y" "y < 2 ^ 31" "0 \<le> n" "n < 2 ^ 31" "0 \<le> d" "d < 2 ^ 31"
  shows "\<exists>c1 p1 c2 p2 c3 p3 c4 p4 c5. ltr_int_wc_set_resolution x y c p = Some (True, c1, p1) \<and> ltr_int_wc_set_fps n d c1 p1 = Some (True, c2, p2) \<and>
    ltr_int_wc_set_threshold t c2 p2 = Some (True, c3, p3) \<and> ltr_int_wc_set_flip flip c3 p3 = Some (True, c4, p4) \<and>
    ltr_int_wc_init_prefs p4 wcprefs_init = Some (True, c5) \<and> ltr_int_wc_get_resolution c5 = Some (x, y) \<and>
    ltr_int_wc_get_fps c5 = Some (n, d) \<and> ltr_int_wc_get_threshold c5 = max 30 (min 253 t) \<and> ltr_int_wc_get_flip c5 = flip"
proof -
  have ok: "prefs_ok p" using assms(1) by (rule reachable_ok)
  define v where "v = max 30 (min 253 t)"
  have v: "(let val = (if t < 30 then 30 else t); val = (if val > 253 then 253 else val) in val) = v" by (simp add: v_def Let_def)
  define p1 where "p1 = setValue dev ''Resolution'' (show_int x @ '' x '' @ show_int y) p"
  define p2 where "p2 = setValue dev ''Fps'' (show_int n @ ''/'' @ show_int d) p1"
  define p3 where "p3 = setValue dev ''Threshold'' (show_int v) p2"
  define p4 where "p4 = setValue dev ''Upside-down'' (if flip then ''Yes'' else ''No'') p3"
  note s1 = set_dev [OF ok assms(2), of "''Resolution''", simplified]
  have o1: "prefs_ok p1" "ltr_int_get_device_section p1 = Some dev" unfolding p1_def by (rule s1(3), rule s1(4))
  note s2 = set_dev [OF o1, of "''Fps''", simplified]
  have o2: "prefs_ok p2" "ltr_int_get_device_section p2 = Some dev" unfolding p2_def by (rule s2(3), rule s2(4))
  note s3 = set_dev [OF o2, of "''Threshold''", simplified]
  have o3: "prefs_ok p3" "ltr_int_get_device_section p3 = Some dev" unfolding p3_def by (rule s3(3), rule s3(4))
  note s4 = set_dev [OF o3, of "''Upside-down''", simplified]
  have o4: "ltr_int_get_device_section p4 = Some dev" unfolding p4_def by (rule s4(4))
  have k: "ltr_int_get_key p4 dev ''Resolution'' = Some (show_int x @ '' x '' @ show_int y)"
    "ltr_int_get_key p4 dev ''Fps'' = Some (show_int n @ ''/'' @ show_int d)" "ltr_int_get_key p4 dev ''Threshold'' = Some (show_int v)"
    "ltr_int_get_key p4 dev ''Upside-down'' = Some (if flip then ''Yes'' else ''No'')"
    by (simp_all add: p4_def s4(5)) (simp_all add: p3_def s3(5), simp_all add: p2_def s2(5), simp_all add: p1_def s1(5))
  have r: "ltr_int_wc_set_resolution x y c p = Some (True, c\<lparr>res_x := x, res_y := y\<rparr>, p1)"
    by (simp add: ltr_int_wc_set_resolution_def with_cache_def s1(1) p1_def)
  have f: "ltr_int_wc_set_fps n d q p1 = Some (True, q\<lparr>fps_num := n, fps_den := d\<rparr>, p2)" for q
    by (simp add: ltr_int_wc_set_fps_def with_cache_def s2(1) p2_def)
  have th: "ltr_int_wc_set_threshold t q p2 = Some (True, q\<lparr>wc_threshold := v\<rparr>, p3)" for q
    using v by (simp add: ltr_int_wc_set_threshold_def with_cache_def s3(2) p3_def Let_def)
  have fl: "ltr_int_wc_set_flip flip q p3 = Some (True, q\<lparr>wc_flip := flip\<rparr>, p4)" for q
    by (simp add: ltr_int_wc_set_flip_def with_cache_def s4(1) p4_def)
  have ti: "ltr_int_get_key_int p4 dev ''Threshold'' z = (True, v)" for z
  proof -
    have "0 \<le> v" "v < 2 ^ 31" by (simp_all add: v_def)
    then have "read_int (show_int v) = v" "dropWhile is_space (show_int v) \<noteq> []"
      using read_show_int [of v] dropWhile_space_digits [of "nat v"] by (simp_all add: show_int_def)
    then show ?thesis using k(3) by (auto simp: ltr_int_get_key_int_def getValue_int_def ltr_int_get_key_def stream_in_def)
  qed
  have yes: "strcaseeq (if flip then ''Yes'' else ''No'') ''Yes'' = flip" by (simp add: strcaseeq_def lower_char_def)
  note scans = scan_written(1) [OF assms(3-6)] scan_written(2) [OF assms(7-10)]
  have "\<exists>c5. ltr_int_wc_init_prefs p4 wcprefs_init = Some (True, c5) \<and> res_x c5 = x \<and> res_y c5 = y \<and> fps_num c5 = n \<and> fps_den c5 = d \<and>
      wc_threshold c5 = v \<and> wc_flip c5 = flip"
    using o4 k ti scans yes
    by (simp add: ltr_int_wc_init_prefs_def replace_str_def free_str_def wcprefs_init_def dev_int_or_def Let_def bind_eq_Some_conv split: option.split)
  then obtain c5 where "ltr_int_wc_init_prefs p4 wcprefs_init = Some (True, c5)" "res_x c5 = x" "res_y c5 = y" "fps_num c5 = n" "fps_den c5 = d"
      "wc_threshold c5 = v" "wc_flip c5 = flip" by blast
  then show ?thesis using r f th fl assms(3,5,7,9)
    by (simp add: ltr_int_wc_get_resolution_def ltr_int_wc_get_fps_def ltr_int_wc_get_threshold_def ltr_int_wc_get_flip_def v_def)
qed

text \<open>The lights of a Wiimote, too: what is set is what is shown, now and after a restart.\<close>

lemma decode_encode: "decode (encode l) = Some l" "decode (copy5 (c_string (encode l))) = Some l"
  by (cases l; simp add: decode_def encode_def rd_def copy5_def c_string_def)+

lemma lights_survive:
  assumes "pref_step\<^sup>*\<^sup>* prefs_empty p" "ltr_int_get_device_section p = Some dev"
  shows "\<exists>c1 p1. ltr_int_set_run_indication l c p = Some (True, c1, p1) \<and> ltr_int_get_run_indication c1 = Some l \<and>
    ltr_int_get_run_indication (snd (ltr_int_wii_init_prefs p1 c2)) = Some l"
proof -
  have ok: "prefs_ok p" using assms(1) by (rule reachable_ok)
  note s = set_dev [OF ok assms(2), of "''Running-indication''", simplified]
  show ?thesis using s(1) [of "c_string (encode l)"] s(4) [of "c_string (encode l)"]
    by (auto simp: ltr_int_set_run_indication_def with_cache_def ltr_int_get_run_indication_def decode_encode ltr_int_wii_init_prefs_def s(5) Let_def
        split: option.split)
qed

text \<open>When the settings are read again and the keys of the device are gone, the pointer to its name dangles, and reading them once more
  frees it twice.\<close>

lemma second_reading_dangles:
  assumes "ltr_int_get_device_section p = Some dev" "\<And>key. ltr_int_get_key p dev key = None" "camera_id c = CStr i"
    "pix_fmt c = CNull" "cascade c = CNull"
  shows "\<exists>c'. ltr_int_wc_init_prefs p c = Some (True, c') \<and> ltr_int_wc_get_id c' = CFreed \<and> ltr_int_wc_init_prefs p c' = None"
  using assms by (simp add: ltr_int_wc_init_prefs_def replace_str_def free_str_def ltr_int_wc_get_id_def Let_def case_prod_beta)

text \<open>Example.\<close>

definition demo_webcam :: prefs where
  "demo_webcam = setValue ''Cam'' ''Capture-device'' ''Webcam'' (setValue ''Global'' ''Input'' ''Cam'' prefs_empty)"

lemma demo_webcam_reachable: "pref_step\<^sup>*\<^sup>* prefs_empty demo_webcam"
  unfolding demo_webcam_def by (meson pref_step.intros rtranclp.intros)

theorem webcam_settings_survive_witness:
  "\<exists>c1 p1 c2 p2 c3 p3 c4 p4 c5. ltr_int_wc_set_resolution 640 480 wcprefs_init demo_webcam = Some (True, c1, p1) \<and>
    ltr_int_wc_set_fps 30 1 c1 p1 = Some (True, c2, p2) \<and> ltr_int_wc_set_threshold 999 c2 p2 = Some (True, c3, p3) \<and>
    ltr_int_wc_set_flip True c3 p3 = Some (True, c4, p4) \<and> ltr_int_wc_init_prefs p4 wcprefs_init = Some (True, c5) \<and>
    ltr_int_wc_get_resolution c5 = Some (640, 480) \<and> ltr_int_wc_get_threshold c5 = 253 \<and> ltr_int_wc_get_flip c5"
proof -
  have ok: "prefs_ok (setValue ''Global'' ''Input'' ''Cam'' prefs_empty)" by (rule setValue_ok) simp
  have s: "ltr_int_get_device_section demo_webcam = Some ''Cam''"
    using ok by (simp add: ltr_int_get_device_section_def ltr_int_get_key_def demo_webcam_def get_set)
  show ?thesis using webcam_settings_survive [OF demo_webcam_reachable s, of 640 480 30 1 wcprefs_init 999 True] by simp blast
qed

end
