(* ===== verification/Mickey.thy ===== *)
theory Mickey
  imports FltRound MathUtils CalTypes
begin

text \<open>
  \<open>src/mickey/mickey.cpp\<close> and \<open>src/mickey/transform.cpp\<close>: the program that moves the mouse with the head. The classes \<open>Mickey\<close>,
  \<open>MickeyTransform\<close>, \<open>MickeysAxis\<close>, the two dialogs with their timers and the settings that the window \<open>MickeyGUI\<close> holds are one
  record; the signals of Qt are connected directly, so a slot is a call. A slider has the value of its field, and tells of a change
  only when there is one. Pictures, labels and the preference file are left out. The calls of the tracking library and what is done
  to the mouse are collected. \<open>Mf\<close> is the mathematical library.
\<close>

record mathf =
  m_expf :: "cflt \<Rightarrow> cflt"
  m_logf :: "cflt \<Rightarrow> cflt"
  m_sinf :: "cflt \<Rightarrow> cflt"
  m_cosf :: "cflt \<Rightarrow> cflt"
  m_atan2f :: "cflt \<Rightarrow> cflt \<Rightarrow> cflt"

datatype state_t = TRACKING | STANDBY | CALIBRATING
datatype cal_state_t = CENTER | CALIBRATE | CENTER_ONLY

datatype mk_call = MkSuspend | MkWakeup | MkRecenter
datatype ubutton = BTN_LEFT | BTN_RIGHT | BTN_MIDDLE
datatype mouse_act = REL_X int | REL_Y int | EV_KEY ubutton bool | EV_SYN | CursorAt int int

record setup_t =
  s_sensitivity :: int
  s_deadzone :: int
  s_curvature :: int
  s_smoothing :: int
  s_stepOnly :: bool

record mickey =
  mk_state :: state_t
  upd_timer :: bool
  recenterFlag :: bool
  mk_relative :: bool
  heading_p :: cflt
  pitch_p :: cflt
  accX :: cflt
  accY :: cflt
  calibrating :: bool
  maxValX :: cflt
  minValX :: cflt
  maxValY :: cflt
  minValY :: cflt
  prevMaxValX :: cflt
  prevMaxValY :: cflt
  prevX :: cflt
  prevY :: cflt
  oldSetup :: setup_t
  newSetup :: setup_t
  curSetup :: setup_t
  cal_timer :: bool
  calState :: cal_state_t
  cal_cntr :: int
  cal_shown :: bool
  apl_timer :: bool
  apl_cntr :: int
  apl_shown :: bool
  g_setup :: setup_t
  g_maxX :: cflt
  g_maxY :: cflt
  calDelay :: int
  cntrDelay :: int
  g_changed :: bool
  mk_calls :: "mk_call list"
  prev_btns :: u8
  mk_mouse :: "mouse_act list"

subsection \<open>The axis\<close>

definition screenMax :: cflt where "screenMax = Fin 1024"
definition timeFast :: cflt where "timeFast = rnd b32 (1 / 10)"
definition timeSlow :: cflt where "timeSlow = Fin 4"

text \<open>Where a \<open>double\<close> takes part the operation is one of \<open>b64\<close>, and the assignment converts.\<close>

definition getSpeed :: "int \<Rightarrow> cflt" where
  "getSpeed sens = (let slewTime = fcvt b32 (fadd b64 timeSlow (fmul b64 (fsub b32 timeFast timeSlow) (fdiv b64 (flt_of_int b64 sens) (Fin 100))))
     in fdiv b32 screenMax slewTime)"

definition curve_factor :: "cflt \<Rightarrow> cflt" where
  "curve_factor d = fcvt b32 (fadd b64 (Fin 1) (fmul b64 (fdiv b64 d (Fin 50)) (Fin 3)))"

definition response :: "mathf \<Rightarrow> cflt \<Rightarrow> setup_t \<Rightarrow> cflt" where
  "response Mf mag s =
     (let dz = fcvt b32 (fdiv b64 (fmul b64 (Fin (1 / 2)) (flt_of_int b32 (s_deadzone s))) (Fin 99))
      in if \<not> flt_less dz mag \<and> mag \<noteq> NaN \<and> dz \<noteq> NaN then Fin 0
         else if s_stepOnly s then Fin 1
         else let mag = fcvt b32 (fdiv b64 (fsub b32 mag dz) (fsub b64 (Fin 1) dz))
              in if s_curvature s < 50
                 then m_expf Mf (fdiv b32 (m_logf Mf mag) (curve_factor (fsub b64 (Fin 50) (flt_of_int b64 (s_curvature s)))))
                 else m_expf Mf (fmul b32 (m_logf Mf mag) (curve_factor (fsub b64 (flt_of_int b64 (s_curvature s)) (Fin 50)))))"

text \<open>What a step adds to the accumulators: a \<open>double\<close> each.\<close>

definition step_by :: "mathf \<Rightarrow> setup_t \<Rightarrow> cflt \<Rightarrow> cflt \<Rightarrow> int \<Rightarrow> cflt \<times> cflt" where
  "step_by Mf s valX valY elapsed =
     (let mag = fsqrt b32 (fadd b32 (fmul b32 valX valX) (fmul b32 valY valY));
          angle = m_atan2f Mf valY valX;
          mag = (if flt_less (Fin 1) mag then Fin 1 else mag);
          mag = response Mf mag s;
          by = (\<lambda>dir. fmul b64 (fmul b32 (fmul b32 mag (dir angle)) (getSpeed (s_sensitivity s))) (fdiv b64 (flt_of_int b64 elapsed) (Fin 1000)))
      in (by (m_cosf Mf), by (m_sinf Mf)))"

definition axis_step :: "mathf \<Rightarrow> cflt \<Rightarrow> cflt \<Rightarrow> int \<Rightarrow> mickey \<Rightarrow> mickey" where
  "axis_step Mf valX valY elapsed m = (case step_by Mf (curSetup m) valX valY elapsed of (dx, dy) \<Rightarrow>
     m\<lparr>accX := fcvt b32 (fadd b64 (accX m) dx), accY := fcvt b32 (fadd b64 (accY m) dy)\<rparr>)"

definition axis_smooth :: "cflt \<Rightarrow> cflt \<Rightarrow> mickey \<Rightarrow> cflt \<times> cflt \<times> mickey" where
  "axis_smooth valX valY m =
     (let ff = fcvt b32 (fdiv b64 (flt_of_int b64 (s_smoothing (curSetup m))) (Fin 3));
          valX = ltr_int_nonlinfilt valX (prevX m) ff;
          valY = ltr_int_nonlinfilt valY (prevY m) ff
      in (valX, valY, m\<lparr>prevX := valX, prevY := valY\<rparr>))"

definition axisChanged :: "mickey \<Rightarrow> mickey" where
  "axisChanged m = m\<lparr>newSetup := g_setup m\<rparr>"

definition axis_applySettings :: "mickey \<Rightarrow> mickey" where
  "axis_applySettings m = m\<lparr>oldSetup := curSetup m, curSetup := newSetup m\<rparr>"

definition axis_keepSettings :: "mickey \<Rightarrow> mickey" where
  "axis_keepSettings m = m\<lparr>oldSetup := curSetup m\<rparr>"

text \<open>The setters of the window: the field, and the slider's signal when the value is a new one.\<close>

definition gui_set :: "(setup_t \<Rightarrow> setup_t) \<Rightarrow> mickey \<Rightarrow> mickey" where
  "gui_set f m = (let m' = m\<lparr>g_changed := True, g_setup := f (g_setup m)\<rparr>
     in if f (g_setup m) \<noteq> g_setup m then axisChanged m' else m')"

definition axis_revertSettings :: "mickey \<Rightarrow> mickey" where
  "axis_revertSettings m =
     (let m = m\<lparr>curSetup := oldSetup m\<rparr>;
          m = gui_set (\<lambda>g. g\<lparr>s_sensitivity := s_sensitivity (curSetup m)\<rparr>) m;
          m = gui_set (\<lambda>g. g\<lparr>s_deadzone := s_deadzone (curSetup m)\<rparr>) m;
          m = gui_set (\<lambda>g. g\<lparr>s_curvature := s_curvature (curSetup m)\<rparr>) m;
          m = gui_set (\<lambda>g. g\<lparr>s_smoothing := s_smoothing (curSetup m)\<rparr>) m
      in gui_set (\<lambda>g. g\<lparr>s_stepOnly := s_stepOnly (curSetup m)\<rparr>) m)"

subsection \<open>The transformation\<close>

definition norm1 :: "cflt \<Rightarrow> cflt" where
  "norm1 val = (if flt_less (Fin 1) val then Fin 1 else if flt_less val (Fin (- 1)) then Fin (- 1) else val)"

text \<open>The variables of the caller keep what they held (\<open>ux\<close>, \<open>uy\<close>) while the range is being calibrated.\<close>

definition trans_update :: "mathf \<Rightarrow> cflt \<Rightarrow> cflt \<Rightarrow> bool \<Rightarrow> int \<Rightarrow> cflt \<Rightarrow> cflt \<Rightarrow> mickey \<Rightarrow> cflt \<times> cflt \<times> mickey" where
  "trans_update Mf valX valY relative elapsed ux uy m =
     (case axis_smooth valX valY m of (valX, valY, m) \<Rightarrow>
        if \<not> calibrating m then
          (if relative then
             let m = axis_step Mf (norm1 (fdiv b32 (fneg valX) (maxValX m))) (norm1 (fdiv b32 (fneg valY) (maxValY m))) elapsed m;
                 x = accX m;
                 m = m\<lparr>accX := fsub b32 (accX m) x\<rparr>;
                 y = accY m;
                 m = m\<lparr>accY := fsub b32 (accY m) y\<rparr>
             in (x, y, m)
           else (norm1 (fdiv b32 (fneg valX) (maxValX m)), norm1 (fdiv b32 (fneg valY) (maxValY m)), m))
        else
          let m = (if flt_less (maxValX m) valX then m\<lparr>maxValX := valX\<rparr> else m);
              m = (if flt_less (maxValY m) valY then m\<lparr>maxValY := valY\<rparr> else m);
              m = (if flt_less valX (minValX m) then m\<lparr>minValX := valX\<rparr> else m);
              m = (if flt_less valY (minValY m) then m\<lparr>minValY := valY\<rparr> else m)
          in (ux, uy, m))"

definition trans_startCalibration :: "mickey \<Rightarrow> mickey" where
  "trans_startCalibration m = m\<lparr>calibrating := True, prevMaxValX := maxValX m, prevMaxValY := maxValY m,
     maxValX := Fin 0, minValX := Fin 0, maxValY := Fin 0, minValY := Fin 0\<rparr>"

definition lower :: "cflt \<Rightarrow> cflt \<Rightarrow> cflt" where
  "lower mn mx = (if flt_less mx mn then mx else mn)"

definition trans_finishCalibration :: "mickey \<Rightarrow> mickey" where
  "trans_finishCalibration m =
     (let m = m\<lparr>calibrating := False, minValX := fabs (minValX m), maxValX := fabs (maxValX m), minValY := fabs (minValY m), maxValY := fabs (maxValY m)\<rparr>;
          m = m\<lparr>maxValX := lower (minValX m) (maxValX m), maxValY := lower (minValY m) (maxValY m)\<rparr>
      in m\<lparr>g_changed := True, g_maxX := maxValX m, g_maxY := maxValY m\<rparr>)"

definition trans_cancelCalibration :: "mickey \<Rightarrow> mickey" where
  "trans_cancelCalibration m = m\<lparr>calibrating := False, maxValX := g_maxX m, maxValY := g_maxY m\<rparr>"

definition trans_keepSettings :: "mickey \<Rightarrow> mickey" where
  "trans_keepSettings m = axis_keepSettings (m\<lparr>prevMaxValX := maxValX m, prevMaxValY := maxValY m\<rparr>)"

definition trans_revertSettings :: "mickey \<Rightarrow> mickey" where
  "trans_revertSettings m =
     axis_revertSettings (m\<lparr>maxValX := prevMaxValX m, maxValY := prevMaxValY m, g_changed := True, g_maxX := prevMaxValX m, g_maxY := prevMaxValY m\<rparr>)"

subsection \<open>The mouse\<close>

text \<open>What is written to the device; that a write fails is noticed by no one.\<close>

definition mouse_do :: "mouse_act list \<Rightarrow> mickey \<Rightarrow> mickey" where
  "mouse_do acts m = m\<lparr>mk_mouse := mk_mouse m @ acts\<rparr>"

definition limit :: "int \<Rightarrow> int \<Rightarrow> int \<Rightarrow> int" where
  "limit val mn mx = (if val < mn then mn else if mx < val then mx else val)"

definition movem :: "int \<Rightarrow> int \<Rightarrow> mickey \<Rightarrow> mickey" where
  "movem dx dy = mouse_do [REL_X (limit dx (- 100) 100), REL_Y (limit dy (- 100) 100), EV_SYN]"

definition send_click :: "ubutton \<Rightarrow> bool \<Rightarrow> mickey \<Rightarrow> mickey" where
  "send_click btn pressed = mouse_do [EV_KEY btn pressed, EV_SYN]"

definition clickm :: "u8 \<Rightarrow> mickey \<Rightarrow> mickey" where
  "clickm btns m =
     (let chg = btns XOR prev_btns m;
          m = (if chg AND 1 \<noteq> 0 then send_click BTN_LEFT (btns AND 1 \<noteq> 0) m else m);
          m = (if chg AND 2 \<noteq> 0 then send_click BTN_RIGHT (btns AND 2 \<noteq> 0) m else m);
          m = (if chg AND 4 \<noteq> 0 then send_click BTN_MIDDLE (btns AND 4 \<noteq> 0) m else m)
      in m\<lparr>prev_btns := btns\<rparr>)"

definition on_mouseHotKey_activated :: "u8 \<Rightarrow> bool \<Rightarrow> mickey \<Rightarrow> mickey" where
  "on_mouseHotKey_activated button pressed = clickm (if pressed then button else 0)"

text \<open>What the thread does with an event of the SmartNav: its buttons are low when they are pressed.\<close>

definition sn4_clicked :: "u8 \<Rightarrow> mickey \<Rightarrow> mickey" where
  "sn4_clicked btns = clickm (btns XOR 3)"

subsection \<open>States\<close>

definition lib_do1 :: "mk_call \<Rightarrow> mickey \<Rightarrow> mickey" where
  "lib_do1 c m = m\<lparr>mk_calls := mk_calls m @ [c]\<rparr>"

definition mk_pause :: "mickey \<Rightarrow> mickey" where
  "mk_pause m = lib_do1 MkSuspend (m\<lparr>upd_timer := False\<rparr>)"

definition mk_wakeup :: "mickey \<Rightarrow> mickey" where
  "mk_wakeup m = lib_do1 MkWakeup (m\<lparr>upd_timer := True\<rparr>)"

definition changeState :: "state_t \<Rightarrow> mickey \<Rightarrow> mickey" where
  "changeState newState m = (case (mk_state m, newState) of
     (TRACKING, STANDBY) \<Rightarrow> (mk_pause m)\<lparr>mk_state := STANDBY\<rparr>
   | (TRACKING, _) \<Rightarrow> m\<lparr>mk_state := newState\<rparr>
   | (STANDBY, STANDBY) \<Rightarrow> m\<lparr>mk_state := STANDBY\<rparr>
   | (STANDBY, _) \<Rightarrow> (mk_wakeup m)\<lparr>mk_state := newState\<rparr>
   | (CALIBRATING, STANDBY) \<Rightarrow> m\<lparr>mk_state := CALIBRATING\<rparr>
   | (CALIBRATING, _) \<Rightarrow> m\<lparr>mk_state := newState\<rparr>)"

definition recenterNow :: "bool \<Rightarrow> mickey \<Rightarrow> mickey" where
  "recenterNow leave m = (let m = lib_do1 MkRecenter m in if leave then changeState TRACKING m else m)"

text \<open>The dialog that asks whether new settings are to be kept.\<close>

definition trySettings :: "mickey \<Rightarrow> mickey" where
  "trySettings m = m\<lparr>apl_timer := True, apl_cntr := 15, apl_shown := True\<rparr>"

definition mk_applySettings :: "mickey \<Rightarrow> mickey" where
  "mk_applySettings m = axis_applySettings (trySettings m)"

definition apl_timeout :: "mickey \<Rightarrow> mickey" where
  "apl_timeout m = (let m = m\<lparr>apl_cntr := apl_cntr m - 1\<rparr>
     in if apl_cntr m = 0 then (trans_revertSettings (m\<lparr>apl_timer := False\<rparr>))\<lparr>apl_shown := False\<rparr> else m)"

definition on_RevertButton_pressed :: "mickey \<Rightarrow> mickey" where
  "on_RevertButton_pressed m = (trans_revertSettings (m\<lparr>apl_timer := False\<rparr>))\<lparr>apl_shown := False\<rparr>"

definition on_KeepButton_pressed :: "mickey \<Rightarrow> mickey" where
  "on_KeepButton_pressed m = (trans_keepSettings (m\<lparr>apl_timer := False\<rparr>))\<lparr>apl_shown := False\<rparr>"

definition apl_closeEvent :: "mickey \<Rightarrow> mickey" where
  "apl_closeEvent m = (trans_keepSettings (m\<lparr>apl_timer := False\<rparr>))\<lparr>apl_shown := False\<rparr>"

text \<open>The dialog that calibrates.\<close>

definition mk_finishCalibration :: "mickey \<Rightarrow> mickey" where
  "mk_finishCalibration m = mk_applySettings (changeState TRACKING (trans_finishCalibration m))"

definition mk_cancelCalibration :: "bool \<Rightarrow> mickey \<Rightarrow> mickey" where
  "mk_cancelCalibration calStarted m = changeState TRACKING (if calStarted then trans_cancelCalibration m else m)"

definition cal_timeout :: "mickey \<Rightarrow> mickey" where
  "cal_timeout m =
     (let m = m\<lparr>cal_cntr := cal_cntr m - 1\<rparr>
      in if cal_cntr m = 0
         then (case calState m of
             CENTER_ONLY \<Rightarrow> (recenterNow True (m\<lparr>cal_timer := False\<rparr>))\<lparr>cal_shown := False\<rparr>
           | CENTER \<Rightarrow> (let m = trans_startCalibration (recenterNow False m) in m\<lparr>calState := CALIBRATE, cal_cntr := calDelay m\<rparr>)
           | CALIBRATE \<Rightarrow> (mk_finishCalibration (m\<lparr>cal_timer := False\<rparr>))\<lparr>cal_shown := False\<rparr>)
         else m)"

definition cal_open :: "cal_state_t \<Rightarrow> mickey \<Rightarrow> mickey" where
  "cal_open st m = (cal_timeout (m\<lparr>cal_timer := True, calState := st, cal_cntr := cntrDelay m + 1\<rparr>))\<lparr>cal_shown := True\<rparr>"

definition mk_calibrate :: "mickey \<Rightarrow> mickey" where
  "mk_calibrate m = cal_open CENTER (changeState CALIBRATING m)"

definition mk_recenter :: "mickey \<Rightarrow> mickey" where
  "mk_recenter m = cal_open CENTER_ONLY (changeState CALIBRATING m)"

definition cancelPressed :: "mickey \<Rightarrow> mickey" where
  "cancelPressed m = (mk_cancelCalibration (calState m = CALIBRATE) (m\<lparr>cal_timer := False\<rparr>))\<lparr>cal_shown := False\<rparr>"

subsection \<open>What happens\<close>

definition hotKey_activated :: "int \<Rightarrow> bool \<Rightarrow> mickey \<Rightarrow> mickey" where
  "hotKey_activated hid pressed m =
     (if hid = 0 then
        (if \<not> pressed then m
         else case mk_state m of TRACKING \<Rightarrow> changeState STANDBY m | STANDBY \<Rightarrow> changeState TRACKING m | _ \<Rightarrow> m)
      else if hid = 1 then on_mouseHotKey_activated 1 pressed m
      else if hid = 2 then on_mouseHotKey_activated 4 pressed m
      else if hid = 3 then lib_do1 MkRecenter m
      else m)"

text \<open>
  A tick of the update timer: whether the tracking runs, the milliseconds since the tracking was switched on and since the last pose,
  the pose if there is a new one, and what the variables \<open>dx\<close> and \<open>dy\<close> happen to hold.
\<close>

record tick_in =
  t_running :: bool
  t_init :: int
  t_pose :: "(cflt \<times> cflt) option"
  t_elapsed :: int
  t_ux :: cflt
  t_uy :: cflt

definition settleTime :: int where "settleTime = 2000"

text \<open>The last half of the tick; \<open>cx\<close>, \<open>cy\<close> is the centre of the screen.\<close>

definition move_cursor :: "int \<times> int \<Rightarrow> cflt \<Rightarrow> cflt \<Rightarrow> mickey \<Rightarrow> mickey option" where
  "move_cursor ctr dx dy m =
     (if mk_state m \<noteq> TRACKING then Some m
      else if mk_relative m then do {
        idx \<leftarrow> flt_to_int dx;
        idy \<leftarrow> flt_to_int dy;
        Some (if idx \<noteq> 0 \<or> idy \<noteq> 0 then movem idx idy m else m)
      } else do {
        px \<leftarrow> flt_to_int (fmul b32 (flt_of_int b32 (fst ctr)) dx);
        py \<leftarrow> flt_to_int (fmul b32 (flt_of_int b32 (snd ctr)) dy);
        Some (mouse_do [CursorAt (fst ctr + px) (snd ctr + py)] m)
      })"

definition updateTimer_activated :: "mathf \<Rightarrow> int \<times> int \<Rightarrow> tick_in \<Rightarrow> mickey \<Rightarrow> mickey option" where
  "updateTimer_activated Mf ctr t m =
     (if \<not> t_running t \<or> (recenterFlag m \<and> t_init t < settleTime) then Some m
      else
        let m = (if recenterFlag m then (lib_do1 MkRecenter m)\<lparr>recenterFlag := False\<rparr> else m);
            m = (case t_pose t of Some (yaw, pitch) \<Rightarrow> m\<lparr>heading_p := yaw, pitch_p := pitch\<rparr> | None \<Rightarrow> m)
        in case trans_update Mf (heading_p m) (pitch_p m) (mk_relative m) (t_elapsed t) (t_ux t) (t_uy t) m of
             (dx, dy, m) \<Rightarrow> move_cursor ctr dx dy m)"

text \<open>The centre of a screen of that many points, as \<open>QRect::center\<close> has it.\<close>

definition screenCenter :: "int \<Rightarrow> int \<Rightarrow> int \<times> int" where
  "screenCenter w h = ((w - 1) div 2, (h - 1) div 2)"

datatype mk_event =
    UpdTick tick_in | HotKey int bool | Sn4 u8 | CalTick | CancelPressed
  | AplTick | RevertPressed | KeepPressed | AplClosed | AplEscape | CalEscape
  | Slider "setup_t" | RelativeClicked bool | ApplyPressed | CalibratePressed | RecenterPressed | CalDelaySet int | CntrDelaySet int

text \<open>
  Both dialogs are modal: the window takes no input while one is shown. A slider has a range of 0 to 99, a delay one of 1 to 99.
  The escape key calls \<open>QDialog::reject\<close>, which neither dialog overrides: the dialog is hidden without a \<open>closeEvent\<close>, its timer
  goes on and no signal is emitted.
\<close>

definition dialog_shown :: "mickey \<Rightarrow> bool" where
  "dialog_shown m \<longleftrightarrow> cal_shown m \<or> apl_shown m"

fun mk_enabled :: "mk_event \<Rightarrow> mickey \<Rightarrow> bool" where
  "mk_enabled (UpdTick _) m = upd_timer m"
| "mk_enabled (HotKey _ _) m = True"
| "mk_enabled (Sn4 _) m = True"
| "mk_enabled CalTick m = cal_timer m"
| "mk_enabled CancelPressed m = cal_shown m"
| "mk_enabled AplTick m = apl_timer m"
| "mk_enabled RevertPressed m = apl_shown m"
| "mk_enabled KeepPressed m = apl_shown m"
| "mk_enabled AplClosed m = apl_shown m"
| "mk_enabled AplEscape m = apl_shown m"
| "mk_enabled CalEscape m = cal_shown m"
| "mk_enabled (CalDelaySet n) m = (\<not> dialog_shown m \<and> 1 \<le> n \<and> n \<le> 99)"
| "mk_enabled (CntrDelaySet n) m = (\<not> dialog_shown m \<and> 1 \<le> n \<and> n \<le> 99)"
| "mk_enabled _ m = (\<not> dialog_shown m)"

text \<open>A slider or the check box is moved to a new value.\<close>

definition slider_changed :: "setup_t \<Rightarrow> mickey \<Rightarrow> mickey" where
  "slider_changed s m = axisChanged (m\<lparr>g_setup := s\<rparr>)"

fun mk_handle :: "mathf \<Rightarrow> int \<times> int \<Rightarrow> mk_event \<Rightarrow> mickey \<Rightarrow> mickey option" where
  "mk_handle Mf ctr (UpdTick t) m = updateTimer_activated Mf ctr t m"
| "mk_handle Mf ctr (HotKey i p) m = Some (hotKey_activated i p m)"
| "mk_handle Mf ctr (Sn4 b) m = Some (sn4_clicked b m)"
| "mk_handle Mf ctr CalTick m = Some (cal_timeout m)"
| "mk_handle Mf ctr CancelPressed m = Some (cancelPressed m)"
| "mk_handle Mf ctr AplTick m = Some (apl_timeout m)"
| "mk_handle Mf ctr RevertPressed m = Some (on_RevertButton_pressed m)"
| "mk_handle Mf ctr KeepPressed m = Some (on_KeepButton_pressed m)"
| "mk_handle Mf ctr AplClosed m = Some (apl_closeEvent m)"
| "mk_handle Mf ctr AplEscape m = Some (m\<lparr>apl_shown := False\<rparr>)"
| "mk_handle Mf ctr CalEscape m = Some (m\<lparr>cal_shown := False\<rparr>)"
| "mk_handle Mf ctr (Slider s) m = Some (slider_changed s m)"
| "mk_handle Mf ctr (RelativeClicked b) m = Some (m\<lparr>mk_relative := b, g_changed := True\<rparr>)"
| "mk_handle Mf ctr ApplyPressed m = Some (mk_applySettings (m\<lparr>g_changed := True\<rparr>))"
| "mk_handle Mf ctr CalibratePressed m = Some (mk_calibrate (m\<lparr>g_changed := True\<rparr>))"
| "mk_handle Mf ctr RecenterPressed m = Some (mk_recenter m)"
| "mk_handle Mf ctr (CalDelaySet n) m = Some (m\<lparr>g_changed := True, calDelay := n\<rparr>)"
| "mk_handle Mf ctr (CntrDelaySet n) m = Some (m\<lparr>g_changed := True, cntrDelay := n\<rparr>)"

fun mk_run :: "mathf \<Rightarrow> int \<times> int \<Rightarrow> mk_event list \<Rightarrow> mickey \<Rightarrow> mickey option" where
  "mk_run Mf ctr [] m = Some m"
| "mk_run Mf ctr (e # es) m = (if mk_enabled e m then Option.bind (mk_handle Mf ctr e m) (mk_run Mf ctr es) else None)"

text \<open>
  The program as it comes up: what the preferences hold (sliders, ranges, delays, the mode), and what the variables that no constructor
  sets hold (\<open>raw\<close>: the last pose, the lowest values, the old settings, the counters of the dialogs).
\<close>

definition mickey_init :: "mickey \<Rightarrow> setup_t \<Rightarrow> cflt \<Rightarrow> cflt \<Rightarrow> int \<Rightarrow> int \<Rightarrow> bool \<Rightarrow> mickey" where
  "mickey_init raw s mx my cal ctrd rel =
     changeState TRACKING (raw\<lparr>mk_state := STANDBY, upd_timer := False, recenterFlag := True, mk_relative := rel, heading_p := Fin 0, pitch_p := Fin 0,
       accX := Fin 0, accY := Fin 0, calibrating := False, maxValX := mx, maxValY := my, prevMaxValX := mx, prevMaxValY := my,
       newSetup := s, curSetup := s, cal_timer := False, cal_shown := False, apl_timer := False, apl_shown := False,
       g_setup := s, g_maxX := mx, g_maxY := my, calDelay := cal, cntrDelay := ctrd, g_changed := False,
       mk_calls := [], prev_btns := 0, mk_mouse := []\<rparr>)"

subsection \<open>What always holds\<close>

text \<open>Whether the tracking is awake after these calls; \<open>None\<close> once it is woken or suspended twice in a row.\<close>

fun awake_after :: "mk_call list \<Rightarrow> bool \<Rightarrow> bool option" where
  "awake_after [] a = Some a"
| "awake_after (MkRecenter # cs) a = awake_after cs a"
| "awake_after (MkWakeup # cs) a = (if a then None else awake_after cs True)"
| "awake_after (MkSuspend # cs) a = (if a then awake_after cs False else None)"

lemma awake_after_append: "awake_after (cs @ ds) a = Option.bind (awake_after cs a) (awake_after ds)"
  by (induction cs a rule: awake_after.induct) auto

lemma awake_after_recenter [simp]: "awake_after [MkRecenter] = Some"
  by (rule ext) simp

text \<open>The settings that are in force once the dialog that asks about new ones is gone.\<close>

definition committed :: "mickey \<Rightarrow> cflt \<times> cflt \<times> setup_t" where
  "committed m = (if apl_shown m then (prevMaxValX m, prevMaxValY m, oldSetup m) else (g_maxX m, g_maxY m, curSetup m))"

definition dialogs_ok :: "mickey \<Rightarrow> bool" where
  "dialogs_ok m \<longleftrightarrow> (cal_timer m \<longleftrightarrow> cal_shown m) \<and> (apl_timer m \<longleftrightarrow> apl_shown m) \<and> \<not> (cal_shown m \<and> apl_shown m) \<and>
     (cal_shown m \<longleftrightarrow> mk_state m = CALIBRATING) \<and> (calibrating m \<longleftrightarrow> cal_shown m \<and> calState m = CALIBRATE) \<and>
     (cal_shown m \<longrightarrow> 1 \<le> cal_cntr m) \<and> (apl_shown m \<longrightarrow> 1 \<le> apl_cntr m) \<and> 1 \<le> calDelay m \<and> 1 \<le> cntrDelay m"

definition ranges_ok :: "mickey \<Rightarrow> bool" where
  "ranges_ok m \<longleftrightarrow> newSetup m = g_setup m \<and>
     (if calibrating m then (prevMaxValX m, prevMaxValY m) = (g_maxX m, g_maxY m) else (maxValX m, maxValY m) = (g_maxX m, g_maxY m)) \<and>
     (\<not> calibrating m \<and> \<not> apl_shown m \<longrightarrow> (prevMaxValX m, prevMaxValY m) = (g_maxX m, g_maxY m))"

definition power_ok :: "mickey \<Rightarrow> bool" where
  "power_ok m \<longleftrightarrow> (upd_timer m \<longleftrightarrow> mk_state m \<noteq> STANDBY) \<and> awake_after (mk_calls m) False = Some (upd_timer m)"

definition mk_ok :: "mickey \<Rightarrow> bool" where
  "mk_ok m \<longleftrightarrow> dialogs_ok m \<and> ranges_ok m \<and> power_ok m"

lemmas mk_ok_defs = mk_ok_def dialogs_ok_def ranges_ok_def power_ok_def

lemma mickey_init_ok: "1 \<le> cal \<Longrightarrow> 1 \<le> ctrd \<Longrightarrow> mk_ok (mickey_init raw s mx my cal ctrd rel)"
  by (simp add: mickey_init_def changeState_def mk_wakeup_def lib_do1_def mk_ok_defs)

lemma gui_set_settled:
  "newSetup m = g_setup m \<Longrightarrow> gui_set f m = m\<lparr>g_changed := True, g_setup := f (g_setup m), newSetup := f (g_setup m)\<rparr>"
  by (cases m) (simp add: gui_set_def axisChanged_def Let_def)

lemma axis_revert_settled:
  assumes "newSetup m = g_setup m"
  shows "axis_revertSettings m = m\<lparr>curSetup := oldSetup m, g_changed := True, g_setup := oldSetup m, newSetup := oldSetup m\<rparr>"
  using assms by (simp add: axis_revertSettings_def Let_def gui_set_settled)

lemma trans_revert_settled:
  assumes "newSetup m = g_setup m"
  shows "trans_revertSettings m = m\<lparr>maxValX := prevMaxValX m, maxValY := prevMaxValY m, g_maxX := prevMaxValX m, g_maxY := prevMaxValY m,
     curSetup := oldSetup m, g_changed := True, g_setup := oldSetup m, newSetup := oldSetup m\<rparr>"
  using assms by (simp add: trans_revertSettings_def axis_revert_settled)

text \<open>A tick of the update timer touches the range only while it is measured.\<close>

definition tick_kept :: "mickey \<Rightarrow> mickey \<Rightarrow> bool" where
  "tick_kept m m' \<longleftrightarrow> dialogs_ok m' = dialogs_ok m \<and> power_ok m' = power_ok m \<and> (ranges_ok m \<longrightarrow> ranges_ok m') \<and> committed m' = committed m \<and>
     cal_shown m' = cal_shown m \<and> calState m' = calState m \<and> cal_cntr m' = cal_cntr m \<and> calDelay m' = calDelay m"

lemma tick_kept_trans: "tick_kept m m' \<Longrightarrow> tick_kept m' m'' \<Longrightarrow> tick_kept m m''"
  by (simp add: tick_kept_def)

lemmas kept_defs = tick_kept_def dialogs_ok_def power_ok_def ranges_ok_def committed_def

lemma kept_quiet: "tick_kept m (m\<lparr>prevX := a, prevY := b\<rparr>)" "tick_kept m (m\<lparr>accX := a, accY := b\<rparr>)" "tick_kept m m"
  by (simp_all add: kept_defs)

lemma kept_range:
  "calibrating m \<Longrightarrow> tick_kept m (m\<lparr>maxValX := a, maxValY := b, minValX := c, minValY := d\<rparr>)"
  by (simp add: kept_defs)

lemma calibrating_update:
  "calibrating m \<Longrightarrow> axis_smooth vx vy m' = (sx, sy, m) \<Longrightarrow> trans_update Mf vx vy rel el ux uy m' = (ux, uy,
     m\<lparr>maxValX := if flt_less (maxValX m) sx then sx else maxValX m, maxValY := if flt_less (maxValY m) sy then sy else maxValY m,
       minValX := if flt_less sx (minValX m) then sx else minValX m, minValY := if flt_less sy (minValY m) then sy else minValY m\<rparr>)"
  by (cases m) (simp add: trans_update_def Let_def)

lemma trans_update_kept: "trans_update Mf vx vy rel el ux uy m = (dx, dy, m') \<Longrightarrow> tick_kept m m'"
proof -
  assume u: "trans_update Mf vx vy rel el ux uy m = (dx, dy, m')"
  obtain sx sy m1 where s: "axis_smooth vx vy m = (sx, sy, m1)" by (cases "axis_smooth vx vy m")
  have k1: "tick_kept m m1" using s by (auto simp: axis_smooth_def Let_def intro: kept_quiet)
  show ?thesis
  proof (cases "calibrating m1")
    case True
    then show ?thesis using u k1
      by (simp add: calibrating_update [OF True s]) (metis tick_kept_trans [OF k1] kept_range [OF True])
  next
    case False
    obtain m2 where "tick_kept m1 m2" "m' = m2"
      using u False by (auto simp: trans_update_def s Let_def axis_step_def split: prod.splits if_splits intro: kept_quiet)
    then show ?thesis using tick_kept_trans [OF k1] by blast
  qed
qed

lemma mouse_do_kept: "tick_kept m (mouse_do acts m)"
  by (simp add: mouse_do_def kept_defs)

lemma move_cursor_kept: "move_cursor ctr dx dy m = Some m' \<Longrightarrow> tick_kept m m'"
  by (auto simp: move_cursor_def movem_def mouse_do_kept Let_def bind_eq_Some_conv split: if_splits) (simp_all add: kept_defs)

lemma update_kept: "updateTimer_activated Mf ctr t m = Some m' \<Longrightarrow> tick_kept m m'"
proof -
  assume a: "updateTimer_activated Mf ctr t m = Some m'"
  show ?thesis
  proof (cases "\<not> t_running t \<or> recenterFlag m \<and> t_init t < settleTime")
    case True then show ?thesis using a by (simp add: updateTimer_activated_def kept_defs)
  next
    case False
    define m1 where "m1 = (if recenterFlag m then (lib_do1 MkRecenter m)\<lparr>recenterFlag := False\<rparr> else m)"
    define m2 where "m2 = (case t_pose t of Some (yaw, pitch) \<Rightarrow> m1\<lparr>heading_p := yaw, pitch_p := pitch\<rparr> | None \<Rightarrow> m1)"
    obtain dx dy m3 where u: "trans_update Mf (heading_p m2) (pitch_p m2) (mk_relative m2) (t_elapsed t) (t_ux t) (t_uy t) m2 = (dx, dy, m3)"
      by (cases "trans_update Mf (heading_p m2) (pitch_p m2) (mk_relative m2) (t_elapsed t) (t_ux t) (t_uy t) m2")
    have c: "move_cursor ctr dx dy m3 = Some m'"
      using a False u unfolding updateTimer_activated_def Let_def m1_def [symmetric] m2_def [symmetric] by (simp split: if_splits)
    have k1: "tick_kept m m1" by (simp add: m1_def lib_do1_def kept_defs awake_after_append)
    have k2: "tick_kept m1 m2" by (simp add: m2_def kept_defs split: option.splits prod.splits)
    show ?thesis using tick_kept_trans [OF k1 tick_kept_trans [OF k2 tick_kept_trans [OF trans_update_kept [OF u] move_cursor_kept [OF c]]]] .
  qed
qed

lemma clickm_kept: "tick_kept m (clickm b m)"
  by (simp add: clickm_def send_click_def mouse_do_def Let_def kept_defs)

text \<open>Each of the other events.\<close>

definition step_ok :: "mickey \<Rightarrow> mickey \<Rightarrow> bool" where
  "step_ok m m' \<longleftrightarrow> mk_ok m' \<and> committed m' = committed m"

lemma tick_step_ok: "mk_ok m \<Longrightarrow> tick_kept m m' \<Longrightarrow> step_ok m m'"
  by (simp add: step_ok_def mk_ok_def tick_kept_def)

lemma changeState_simps:
  "mk_state m = TRACKING \<Longrightarrow> changeState STANDBY m = m\<lparr>upd_timer := False, mk_calls := mk_calls m @ [MkSuspend], mk_state := STANDBY\<rparr>"
  "mk_state m = TRACKING \<Longrightarrow> s \<noteq> STANDBY \<Longrightarrow> changeState s m = m\<lparr>mk_state := s\<rparr>"
  "mk_state m = STANDBY \<Longrightarrow> s \<noteq> STANDBY \<Longrightarrow> changeState s m = m\<lparr>upd_timer := True, mk_calls := mk_calls m @ [MkWakeup], mk_state := s\<rparr>"
  "mk_state m = CALIBRATING \<Longrightarrow> s \<noteq> STANDBY \<Longrightarrow> changeState s m = m\<lparr>mk_state := s\<rparr>"
  by (cases s; simp add: changeState_def mk_pause_def mk_wakeup_def lib_do1_def)+

lemma awake_append_simps [simp]:
  "awake_after cs a = Some b \<Longrightarrow> awake_after (cs @ ds) a = awake_after ds b"
  by (simp add: awake_after_append)

lemmas step_defs = step_ok_def mk_ok_defs committed_def

lemma hotKey_ok: "mk_ok m \<Longrightarrow> step_ok m (hotKey_activated i p m)"
  by (cases "mk_state m")
    (auto simp: hotKey_activated_def on_mouseHotKey_activated_def changeState_simps intro!: tick_step_ok [OF _ clickm_kept],
     auto simp: step_defs lib_do1_def)

lemma cal_tick_ok: "mk_ok m \<Longrightarrow> cal_timer m \<Longrightarrow> step_ok m (cal_timeout m)"
  by (cases "calState m")
    (auto simp: cal_timeout_def recenterNow_def lib_do1_def changeState_simps trans_startCalibration_def mk_finishCalibration_def
      trans_finishCalibration_def mk_applySettings_def trySettings_def axis_applySettings_def Let_def step_defs)

lemma cancel_ok: "mk_ok m \<Longrightarrow> cal_shown m \<Longrightarrow> step_ok m (cancelPressed m)"
  by (cases "calState m")
    (auto simp: cancelPressed_def mk_cancelCalibration_def changeState_simps trans_cancelCalibration_def step_defs)

lemma revert_ok: "mk_ok m \<Longrightarrow> apl_shown m \<Longrightarrow> step_ok m (on_RevertButton_pressed m)"
  by (auto simp: on_RevertButton_pressed_def trans_revert_settled step_defs)

lemma apl_tick_ok: "mk_ok m \<Longrightarrow> apl_timer m \<Longrightarrow> step_ok m (apl_timeout m)"
  by (auto simp: apl_timeout_def Let_def trans_revert_settled step_defs)

lemma keep_ok: "mk_ok m \<Longrightarrow> apl_shown m \<Longrightarrow> mk_ok (on_KeepButton_pressed m) \<and> mk_ok (apl_closeEvent m)"
  by (auto simp: on_KeepButton_pressed_def apl_closeEvent_def trans_keepSettings_def axis_keepSettings_def mk_ok_defs)

lemma apply_ok: "mk_ok m \<Longrightarrow> \<not> dialog_shown m \<Longrightarrow> step_ok m (mk_applySettings m)"
  by (auto simp: mk_applySettings_def trySettings_def axis_applySettings_def dialog_shown_def step_defs)

lemma changed_ok: "mk_ok m \<Longrightarrow> step_ok m (m\<lparr>g_changed := b\<rparr>)"
  by (simp add: step_defs)

lemma cal_open_ok:
  "mk_ok m \<Longrightarrow> \<not> dialog_shown m \<Longrightarrow> st \<noteq> CALIBRATE \<Longrightarrow> step_ok m (cal_open st (changeState CALIBRATING m))"
  by (cases "mk_state m"; cases st)
    (auto simp: cal_open_def cal_timeout_def changeState_simps Let_def dialog_shown_def step_defs)

lemma step_ok_changed: "step_ok (m\<lparr>g_changed := b\<rparr>) m' \<Longrightarrow> step_ok m m'"
  by (simp add: step_defs)

lemma settings_ok:
  "mk_ok m \<Longrightarrow> step_ok m (slider_changed s m)"
  "mk_ok m \<Longrightarrow> step_ok m (m\<lparr>mk_relative := b, g_changed := True\<rparr>)"
  "mk_ok m \<Longrightarrow> 1 \<le> n \<Longrightarrow> step_ok m (m\<lparr>g_changed := True, calDelay := n\<rparr>)"
  "mk_ok m \<Longrightarrow> 1 \<le> n \<Longrightarrow> step_ok m (m\<lparr>g_changed := True, cntrDelay := n\<rparr>)"
  by (simp_all add: slider_changed_def axisChanged_def step_defs)

lemma handle_ok:
  assumes "mk_ok m" "mk_enabled e m" "mk_handle Mf ctr e m = Some m'" "e \<noteq> AplEscape" "e \<noteq> CalEscape"
  shows "mk_ok m' \<and> (e \<noteq> KeepPressed \<and> e \<noteq> AplClosed \<longrightarrow> committed m' = committed m)"
proof -
  have c: "mk_ok (m\<lparr>g_changed := True\<rparr>)" using changed_ok [OF assms(1)] by (simp add: step_ok_def)
  have "step_ok m m' \<or> (e = KeepPressed \<or> e = AplClosed) \<and> mk_ok m'"
  proof (cases e)
    case (UpdTick t) then show ?thesis using assms update_kept tick_step_ok by simp
  next
    case (HotKey i p) then show ?thesis using assms hotKey_ok by auto
  next
    case (Sn4 b) then show ?thesis using assms tick_step_ok [OF _ clickm_kept] by (auto simp: sn4_clicked_def)
  next
    case CalibratePressed
    then show ?thesis using assms cal_open_ok [OF c, of CENTER] by (auto simp: mk_calibrate_def dialog_shown_def dest: step_ok_changed)
  next
    case RecenterPressed
    then show ?thesis using assms cal_open_ok [of m CENTER_ONLY] by (auto simp: mk_recenter_def)
  next
    case ApplyPressed
    then show ?thesis using assms apply_ok [OF c] by (auto simp: dialog_shown_def dest: step_ok_changed)
  qed (use assms in \<open>auto simp: cal_tick_ok cancel_ok revert_ok apl_tick_ok keep_ok settings_ok\<close>)
  then show ?thesis by (auto simp: step_ok_def)
qed

text \<open>The user does not press the escape key in a dialog.\<close>

definition no_escape :: "mk_event list \<Rightarrow> bool" where
  "no_escape es \<longleftrightarrow> AplEscape \<notin> set es \<and> CalEscape \<notin> set es"

lemma no_escape_simps [simp]:
  "no_escape []" "no_escape (e # es) \<longleftrightarrow> e \<noteq> AplEscape \<and> e \<noteq> CalEscape \<and> no_escape es"
  "no_escape (es @ fs) \<longleftrightarrow> no_escape es \<and> no_escape fs"
  by (auto simp: no_escape_def)

lemma run_ok:
  assumes "mk_ok m" "mk_run Mf ctr es m = Some m'" "no_escape es"
  shows "mk_ok m' \<and> (KeepPressed \<notin> set es \<and> AplClosed \<notin> set es \<longrightarrow> committed m' = committed m)"
  using assms
proof (induction es arbitrary: m)
  case (Cons e es)
  from Cons.prems obtain m1 where 1: "mk_enabled e m" "mk_handle Mf ctr e m = Some m1" "mk_run Mf ctr es m1 = Some m'"
    by (auto simp: bind_eq_Some_conv split: if_splits)
  with handle_ok [OF Cons.prems(1) 1(1,2)] Cons.IH [OF _ 1(3)] Cons.prems(3) show ?case by auto
qed simp

lemma run_append: "mk_run Mf ctr (es @ fs) m = Option.bind (mk_run Mf ctr es m) (mk_run Mf ctr fs)"
  by (induction es arbitrary: m) (auto split: bind_splits simp: bind_eq_None_conv)

text \<open>The program as it comes up with these delays, whatever the variables hold that nobody sets, and after these events.\<close>

definition mk_started :: "mathf \<Rightarrow> int \<times> int \<Rightarrow> int \<Rightarrow> int \<Rightarrow> mk_event list \<Rightarrow> mickey \<Rightarrow> bool" where
  "mk_started Mf ctr cal ctrd es m \<longleftrightarrow> (\<exists>raw s mx my rel. mk_run Mf ctr es (mickey_init raw s mx my cal ctrd rel) = Some m)"

lemma started_ok: "mk_started Mf ctr cal ctrd es m \<Longrightarrow> 1 \<le> cal \<Longrightarrow> 1 \<le> ctrd \<Longrightarrow> no_escape es \<Longrightarrow> mk_ok m"
  unfolding mk_started_def using run_ok mickey_init_ok by blast

text \<open>What holds even when a dialog is left by the escape key: it is then the timer of the dialog that tells what is under way.\<close>

definition timers_ok :: "mickey \<Rightarrow> bool" where
  "timers_ok m \<longleftrightarrow> power_ok m \<and> newSetup m = g_setup m \<and> (cal_timer m \<longleftrightarrow> mk_state m = CALIBRATING) \<and> (cal_shown m \<longrightarrow> cal_timer m) \<and>
     (apl_shown m \<longrightarrow> apl_timer m) \<and> (cal_timer m \<longrightarrow> 1 \<le> cal_cntr m) \<and> (apl_timer m \<longrightarrow> 1 \<le> apl_cntr m) \<and> 1 \<le> calDelay m \<and> 1 \<le> cntrDelay m"

lemmas timers_defs = timers_ok_def power_ok_def

lemma init_timers_ok: "1 \<le> cal \<Longrightarrow> 1 \<le> ctrd \<Longrightarrow> timers_ok (mickey_init raw s mx my cal ctrd rel)"
  by (simp add: mickey_init_def changeState_def mk_wakeup_def lib_do1_def timers_defs)

text \<open>A tick of the update timer and a click leave all this alone.\<close>

definition timers_of where
  "timers_of m = ((mk_state m, upd_timer m, awake_after (mk_calls m) False, newSetup m, g_setup m),
     (cal_timer m, cal_shown m, cal_cntr m), (apl_timer m, apl_shown m, apl_cntr m), calDelay m, cntrDelay m)"

lemma timers_same: "timers_of m' = timers_of m \<Longrightarrow> timers_ok m \<Longrightarrow> timers_ok m'"
  by (auto simp: timers_of_def timers_defs)

lemma smooth_timers: "axis_smooth vx vy m = (sx, sy, m') \<Longrightarrow> timers_of m' = timers_of m"
  by (auto simp: axis_smooth_def Let_def timers_of_def)

lemma trans_update_timers: "trans_update Mf vx vy rel el ux uy m = (dx, dy, m') \<Longrightarrow> timers_of m' = timers_of m"
proof -
  assume u: "trans_update Mf vx vy rel el ux uy m = (dx, dy, m')"
  obtain sx sy m1 where s: "axis_smooth vx vy m = (sx, sy, m1)" by (cases "axis_smooth vx vy m")
  have "timers_of m' = timers_of m1"
  proof (cases "calibrating m1")
    case True then show ?thesis using u by (simp add: calibrating_update [OF True s]) (auto simp: timers_of_def)
  next
    case False then show ?thesis using u by (auto simp: trans_update_def s Let_def axis_step_def timers_of_def split: prod.splits if_splits)
  qed
  then show ?thesis using smooth_timers [OF s] by simp
qed

lemma mouse_timers: "timers_of (mouse_do acts m) = timers_of m" "timers_of (clickm b m) = timers_of m"
  by (simp_all add: mouse_do_def clickm_def send_click_def Let_def timers_of_def)

lemma update_timers: "updateTimer_activated Mf ctr t m = Some m' \<Longrightarrow> timers_of m' = timers_of m"
proof -
  assume a: "updateTimer_activated Mf ctr t m = Some m'"
  show ?thesis
  proof (cases "\<not> t_running t \<or> recenterFlag m \<and> t_init t < settleTime")
    case True then show ?thesis using a by (simp add: updateTimer_activated_def)
  next
    case False
    define m1 where "m1 = (if recenterFlag m then (lib_do1 MkRecenter m)\<lparr>recenterFlag := False\<rparr> else m)"
    define m2 where "m2 = (case t_pose t of Some (yaw, pitch) \<Rightarrow> m1\<lparr>heading_p := yaw, pitch_p := pitch\<rparr> | None \<Rightarrow> m1)"
    obtain dx dy m3 where u: "trans_update Mf (heading_p m2) (pitch_p m2) (mk_relative m2) (t_elapsed t) (t_ux t) (t_uy t) m2 = (dx, dy, m3)"
      by (cases "trans_update Mf (heading_p m2) (pitch_p m2) (mk_relative m2) (t_elapsed t) (t_ux t) (t_uy t) m2")
    have "move_cursor ctr dx dy m3 = Some m'"
      using a False u unfolding updateTimer_activated_def Let_def m1_def [symmetric] m2_def [symmetric] by (simp split: if_splits)
    then have "timers_of m' = timers_of m3"
      by (auto simp: move_cursor_def movem_def mouse_timers bind_eq_Some_conv split: if_splits)
    moreover have "timers_of m1 = timers_of m" by (simp add: m1_def lib_do1_def timers_of_def awake_after_append)
    moreover have "timers_of m2 = timers_of m1" by (simp add: m2_def timers_of_def split: option.splits prod.splits)
    ultimately show ?thesis using trans_update_timers [OF u] by simp
  qed
qed

lemma cal_open_timers: "timers_ok m \<Longrightarrow> timers_ok (cal_open st (changeState CALIBRATING m))"
  by (cases "mk_state m"; cases st) (auto simp: cal_open_def cal_timeout_def changeState_simps Let_def timers_defs)

lemma cal_timeout_timers: "timers_ok m \<Longrightarrow> cal_timer m \<Longrightarrow> timers_ok (cal_timeout m)"
  by (cases "calState m")
    (auto simp: cal_timeout_def recenterNow_def lib_do1_def changeState_simps trans_startCalibration_def mk_finishCalibration_def
      trans_finishCalibration_def mk_applySettings_def trySettings_def axis_applySettings_def Let_def timers_defs)

lemma cancel_timers: "timers_ok m \<Longrightarrow> cal_shown m \<Longrightarrow> timers_ok (cancelPressed m)"
  by (cases "calState m")
    (auto simp: cancelPressed_def mk_cancelCalibration_def changeState_simps trans_cancelCalibration_def timers_defs)

lemma hotKey_timers: "timers_ok m \<Longrightarrow> timers_ok (hotKey_activated i p m)"
  by (cases "mk_state m")
    (auto simp: hotKey_activated_def on_mouseHotKey_activated_def changeState_simps intro: timers_same [OF mouse_timers(2)],
     auto simp: timers_defs lib_do1_def)

lemma apl_timers:
  "timers_ok m \<Longrightarrow> timers_ok (apl_timeout m)" "timers_ok m \<Longrightarrow> timers_ok (on_RevertButton_pressed m)"
  "timers_ok m \<Longrightarrow> timers_ok (on_KeepButton_pressed m)" "timers_ok m \<Longrightarrow> timers_ok (apl_closeEvent m)"
  "timers_ok m \<Longrightarrow> timers_ok (mk_applySettings (m\<lparr>g_changed := c\<rparr>))"
  by (auto simp: apl_timeout_def on_RevertButton_pressed_def on_KeepButton_pressed_def apl_closeEvent_def trans_revert_settled trans_keepSettings_def
      axis_keepSettings_def mk_applySettings_def trySettings_def axis_applySettings_def Let_def timers_defs)

lemma settings_timers:
  assumes "timers_ok m"
  shows "timers_ok (slider_changed s m)" "timers_ok (m\<lparr>g_changed := True\<rparr>)" "timers_ok (m\<lparr>mk_relative := b, g_changed := True\<rparr>)"
    "1 \<le> n \<Longrightarrow> timers_ok (m\<lparr>g_changed := True, calDelay := n\<rparr>)" "1 \<le> n \<Longrightarrow> timers_ok (m\<lparr>g_changed := True, cntrDelay := n\<rparr>)"
    "timers_ok (m\<lparr>apl_shown := False\<rparr>)" "timers_ok (m\<lparr>cal_shown := False\<rparr>)"
  using assms by (auto simp: slider_changed_def axisChanged_def timers_defs)

lemma handle_timers:
  assumes "timers_ok m" "mk_enabled e m" "mk_handle Mf ctr e m = Some m'"
  shows "timers_ok m'"
proof (cases e)
  case (UpdTick t) then show ?thesis using assms timers_same [OF update_timers] by simp
next
  case (Sn4 b) then show ?thesis using assms timers_same [OF mouse_timers(2)] by (simp add: sn4_clicked_def) blast
next
  case CalibratePressed then show ?thesis using assms(3) cal_open_timers [OF settings_timers(2) [OF assms(1)]] by (simp add: mk_calibrate_def) blast
next
  case RecenterPressed then show ?thesis using assms cal_open_timers by (simp add: mk_recenter_def) blast
next
  case CalTick then show ?thesis using assms cal_timeout_timers by simp blast
next
  case CancelPressed then show ?thesis using assms cancel_timers by simp blast
next
  case (HotKey i p) then show ?thesis using assms(3) hotKey_timers [OF assms(1)] by simp blast
qed (use assms(2,3) apl_timers [OF assms(1)] settings_timers [OF assms(1)] in \<open>simp; blast\<close>)+

lemma run_timers: "timers_ok m \<Longrightarrow> mk_run Mf ctr es m = Some m' \<Longrightarrow> timers_ok m'"
  by (induction es arbitrary: m) (auto simp: bind_eq_Some_conv split: if_splits dest: handle_timers)

lemma started_timers: "mk_started Mf ctr cal ctrd es m \<Longrightarrow> 1 \<le> cal \<Longrightarrow> 1 \<le> ctrd \<Longrightarrow> timers_ok m"
  unfolding mk_started_def using run_timers init_timers_ok by blast

subsection \<open>Properties\<close>

text \<open>C32: Settings that are not kept leave no trace (\<open>mickey.cpp\<close>, \<open>transform.cpp\<close>). However the user moves sliders, applies them,
  calibrates, cancels, recenters and pauses, as long as the question whether to keep the new settings is never answered with yes, no
  dialog is left by the escape key, and no dialog is open at the beginning and at the end, the ranges and the setup in use are what
  they were. The delays the program comes up with are at least one second.\<close>

theorem unkept_settings_vanish:
  assumes "mk_started Mf ctr cal ctrd es0 m" "1 \<le> cal" "1 \<le> ctrd" "mk_run Mf ctr es m = Some m'" "no_escape es0" "no_escape es"
    "KeepPressed \<notin> set es" "AplClosed \<notin> set es" "\<not> dialog_shown m" "\<not> dialog_shown m'"
  shows "maxValX m' = maxValX m \<and> maxValY m' = maxValY m \<and> curSetup m' = curSetup m"
proof -
  note ok = started_ok [OF assms(1-3,5)]
  have "mk_ok m'" "committed m' = committed m" using run_ok [OF ok assms(4,6)] assms(7,8) by auto
  then show ?thesis using ok assms(9,10) by (auto simp: committed_def mk_ok_defs dialog_shown_def split: if_splits)
qed

text \<open>The escape key makes the difference: whoever tries a setup, leaves the dialog by it and tries another one gets the first one, which
  was never kept, when the second is given up.\<close>

lemma escaped_settings_stay:
  assumes "mk_ok m" "\<not> dialog_shown m" "b \<noteq> g_setup m" "c \<noteq> b"
  shows "\<exists>m'. mk_run Mf ctr [Slider b, ApplyPressed, AplEscape, Slider c, ApplyPressed, RevertPressed] m = Some m' \<and> \<not> dialog_shown m' \<and> curSetup m' = b"
  using assms by (simp add: dialog_shown_def slider_changed_def axisChanged_def mk_applySettings_def trySettings_def
      axis_applySettings_def on_RevertButton_pressed_def trans_revert_settled)

text \<open>C33: The states of the program fit together (\<open>mickey.cpp\<close>). At every moment, whatever the events, the update timer runs exactly when
  the program is not on standby; the library was woken and suspended in turn and is awake exactly then; the timer of the calibration
  runs exactly in the state of calibrating, and then its counter is positive; a dialog that is shown has its timer running. As long as
  no dialog is left by the escape key, the dialog of the calibration is moreover shown exactly in the state of calibrating, the range
  is measured exactly in the second part of it, and the two dialogs are never shown together. The delays the program comes up with
  are at least one second.\<close>

theorem mickey_states_consistent:
  assumes "mk_started Mf ctr cal ctrd es m" "1 \<le> cal" "1 \<le> ctrd"
  shows "(upd_timer m \<longleftrightarrow> mk_state m \<noteq> STANDBY) \<and> awake_after (mk_calls m) False = Some (upd_timer m) \<and>
    (cal_timer m \<longleftrightarrow> mk_state m = CALIBRATING) \<and> (cal_timer m \<longrightarrow> 1 \<le> cal_cntr m) \<and> (apl_timer m \<longrightarrow> 1 \<le> apl_cntr m) \<and>
    (cal_shown m \<longrightarrow> cal_timer m) \<and> (apl_shown m \<longrightarrow> apl_timer m) \<and>
    (no_escape es \<longrightarrow> (cal_shown m \<longleftrightarrow> mk_state m = CALIBRATING) \<and> (calibrating m \<longleftrightarrow> cal_shown m \<and> calState m = CALIBRATE) \<and>
       (apl_shown m \<longleftrightarrow> apl_timer m) \<and> \<not> (cal_shown m \<and> apl_shown m))"
proof -
  have "timers_ok m" by (rule started_timers [OF assms])
  moreover have "mk_ok m" if "no_escape es" using started_ok [OF assms that] .
  ultimately show ?thesis unfolding timers_defs mk_ok_defs by blast
qed

text \<open>The seconds that the dialog of the calibration has left.\<close>

definition seconds_left :: "mickey \<Rightarrow> int" where
  "seconds_left m = cal_cntr m + (if calState m = CENTER then calDelay m else 0)"

fun cal_ticks :: "mk_event list \<Rightarrow> nat" where
  "cal_ticks [] = 0"
| "cal_ticks (CalTick # es) = Suc (cal_ticks es)"
| "cal_ticks (_ # es) = cal_ticks es"

definition waiting :: "mickey \<Rightarrow> int \<Rightarrow> bool \<Rightarrow> bool" where
  "waiting m n asks \<longleftrightarrow> mk_ok m \<and> cal_shown m \<and> seconds_left m = n \<and> (calState m \<noteq> CENTER_ONLY \<longleftrightarrow> asks)"

lemma waiting_pos: "waiting m n q \<Longrightarrow> 1 \<le> n"
  by (auto simp: waiting_def seconds_left_def mk_ok_defs split: if_splits)

lemma waiting_kept: "waiting m n q \<Longrightarrow> tick_kept m m' \<Longrightarrow> waiting m' n q"
  using tick_step_ok [of m m'] by (auto simp: waiting_def tick_kept_def seconds_left_def step_ok_def)

lemma waiting_other:
  assumes "waiting m n q" "mk_enabled e m" "mk_handle Mf ctr e m = Some m'" "e \<noteq> CalTick" "e \<noteq> CancelPressed" "e \<noteq> CalEscape"
  shows "waiting m' n q"
proof -
  have s: "mk_state m = CALIBRATING" "\<not> apl_timer m" "\<not> apl_shown m" "dialog_shown m"
    using assms(1) by (auto simp: waiting_def mk_ok_defs dialog_shown_def)
  have "tick_kept m m'"
  proof (cases e)
    case (HotKey i p)
    have "tick_kept m (lib_do1 MkRecenter m)" by (simp add: lib_do1_def kept_defs awake_after_append)
    then show ?thesis
      using HotKey assms(3) s(1) clickm_kept kept_quiet(3) by (auto simp: hotKey_activated_def on_mouseHotKey_activated_def split: if_splits)
  qed (use assms s update_kept clickm_kept in \<open>auto simp: sn4_clicked_def\<close>)
  then show ?thesis using waiting_kept [OF assms(1)] by blast
qed

lemma waiting_tick: "waiting m n q \<Longrightarrow> n \<noteq> 1 \<Longrightarrow> waiting (cal_timeout m) (n - 1) q"
  using cal_tick_ok [of m] unfolding waiting_def
  by (cases "calState m")
    (auto simp: cal_timeout_def seconds_left_def recenterNow_def lib_do1_def trans_startCalibration_def step_ok_def mk_ok_defs Let_def)

lemma waiting_last: "waiting m 1 q \<Longrightarrow> \<not> cal_shown (cal_timeout m) \<and> mk_state (cal_timeout m) = TRACKING \<and> apl_shown (cal_timeout m) = q"
  unfolding waiting_def
  by (cases "calState m")
    (auto simp: cal_timeout_def seconds_left_def recenterNow_def lib_do1_def changeState_simps trans_startCalibration_def
      mk_finishCalibration_def trans_finishCalibration_def mk_applySettings_def trySettings_def axis_applySettings_def mk_ok_defs Let_def)

lemma waiting_run:
  "waiting m n q \<Longrightarrow> mk_run Mf ctr es m = Some m' \<Longrightarrow> CancelPressed \<notin> set es \<Longrightarrow> int (cal_ticks es) < n \<Longrightarrow> no_escape es \<Longrightarrow>
     waiting m' (n - int (cal_ticks es)) q"
proof (induction es arbitrary: m n)
  case (Cons e es)
  from Cons.prems obtain m1 where 1: "mk_enabled e m" "mk_handle Mf ctr e m = Some m1" "mk_run Mf ctr es m1 = Some m'"
    by (auto simp: bind_eq_Some_conv split: if_splits)
  show ?case
  proof (cases "e = CalTick")
    case True
    then have "waiting m1 (n - 1) q" using 1 waiting_tick [OF Cons.prems(1)] Cons.prems(4) by simp
    from Cons.IH [OF this 1(3)] True Cons.prems(3-5) show ?thesis by (simp add: algebra_simps)
  next
    case False
    then have "waiting m1 n q" using waiting_other [OF Cons.prems(1) 1(1,2)] Cons.prems(3,5) by auto
    moreover have "cal_ticks (e # es) = cal_ticks es" using False by (cases e) auto
    ultimately show ?thesis using Cons.IH [OF _ 1(3)] Cons.prems(3-5) by simp
  qed
qed simp

lemma waiting_runs: "waiting m n q \<Longrightarrow> int k \<le> n \<Longrightarrow> \<exists>m'. mk_run Mf ctr (replicate k CalTick) m = Some m'"
proof (induction k arbitrary: m n)
  case (Suc k)
  have e: "cal_timer m" using Suc.prems(1) unfolding waiting_def mk_ok_defs by blast
  show ?case
  proof (cases "n = 1")
    case True then show ?thesis using Suc.prems e by simp
  next
    case False
    then show ?thesis using Suc.IH [OF waiting_tick [OF Suc.prems(1) False]] Suc.prems(2) e by simp
  qed
qed simp

text \<open>C34: A calibration ends (\<open>mickey.cpp\<close>). Once its dialog is shown there is a number of seconds, at least one, after which it is closed
  and the program tracks again, whatever else happens meanwhile, unless it is cancelled before and as long as no dialog is left by the escape key; the user is then
  asked whether the new range is to be kept, unless the dialog was one of recentring only. The delays the program comes up with are at
  least one second, which is the least the window can set.\<close>

theorem calibration_ends:
  assumes "mk_started Mf ctr cal ctrd es0 m" "1 \<le> cal" "1 \<le> ctrd" "no_escape es0" "cal_shown m"
  shows "1 \<le> seconds_left m \<and> (\<exists>m'. mk_run Mf ctr (replicate (nat (seconds_left m)) CalTick) m = Some m') \<and>
    (\<forall>es m'. mk_run Mf ctr (es @ [CalTick]) m = Some m' \<and> CancelPressed \<notin> set es \<and> no_escape es \<and> int (cal_ticks es) + 1 = seconds_left m \<longrightarrow>
      \<not> cal_shown m' \<and> mk_state m' = TRACKING \<and> \<not> calibrating m' \<and> (apl_shown m' \<longleftrightarrow> calState m \<noteq> CENTER_ONLY))"
proof -
  have w: "waiting m (seconds_left m) (calState m \<noteq> CENTER_ONLY)" using started_ok [OF assms(1-4)] assms(5) by (simp add: waiting_def)
  have "\<not> cal_shown m' \<and> mk_state m' = TRACKING \<and> \<not> calibrating m' \<and> (apl_shown m' \<longleftrightarrow> calState m \<noteq> CENTER_ONLY)"
    if a: "mk_run Mf ctr (es @ [CalTick]) m = Some m'" "CancelPressed \<notin> set es" "no_escape es" "int (cal_ticks es) + 1 = seconds_left m" for es m'
  proof -
    from a(1) obtain m1 where r: "mk_run Mf ctr es m = Some m1" and t: "mk_run Mf ctr [CalTick] m1 = Some m'"
      by (auto simp: run_append bind_eq_Some_conv)
    have one: "seconds_left m - int (cal_ticks es) = 1" using a(4) by simp
    have "waiting m1 1 (calState m \<noteq> CENTER_ONLY)" using waiting_run [OF w r a(2)] a(3,4) unfolding one by simp
    moreover have "m' = cal_timeout m1" using t by (simp split: if_splits)
    moreover have "mk_ok m'" using run_ok [OF _ t] run_ok [OF _ r a(3)] w by (simp add: waiting_def)
    ultimately show ?thesis using waiting_last by (auto simp: mk_ok_defs)
  qed
  then show ?thesis using waiting_pos [OF w] waiting_runs [OF w, of "nat (seconds_left m)"] by auto
qed

subsection \<open>What the mouse is told\<close>

fun in_bounds :: "int \<Rightarrow> int \<Rightarrow> mouse_act \<Rightarrow> bool" where
  "in_bounds w h (REL_X d) = (\<bar>d\<bar> \<le> 100)"
| "in_bounds w h (REL_Y d) = (\<bar>d\<bar> \<le> 100)"
| "in_bounds w h (CursorAt x y) = (0 \<le> x \<and> x < w \<and> 0 \<le> y \<and> y < h)"
| "in_bounds w h _ = True"

lemma norm1_range: "is_fin (norm1 v) \<Longrightarrow> \<bar>cval (norm1 v)\<bar> \<le> 1"
  by (cases v) (auto simp: norm1_def)

lemma norm1_fin: "is_fin (norm1 v) \<or> norm1 v = NaN"
  by (cases v) (auto simp: norm1_def)

lemma scaled_fits:
  assumes "0 \<le> c" "c < 2 ^ 24" "flt_to_int (fmul b32 (flt_of_int b32 c) (norm1 v)) = Some p"
  shows "\<bar>p\<bar> \<le> c"
proof (cases "norm1 v = NaN")
  case True then show ?thesis using assms by (simp add: fmul_def flt_to_int_def flt_to_range_def)
next
  case False
  then have n: "is_fin (norm1 v)" "\<bar>cval (norm1 v)\<bar> \<le> 1" using norm1_fin norm1_range by blast+
  have c: "flt_of_int b32 c = Fin (of_int c)" using assms by (simp add: flt_of_int_b32)
  have r: "rval b32 (of_int c) = of_int c"
    using cval_rnd [of b32 "of_int c"] c assms(1,2) rnd_if [of "of_int c" b32]
    by (cases "c = 0") (auto simp: flt_of_int_def split: if_splits)
  have m: "\<bar>cval (Fin (of_int c)) * cval (norm1 v)\<bar> \<le> of_int c" using n(2) assms(1) by (simp add: abs_mult mult_left_le)
  have lt: "of_int c < pow2 (emax b32 + 1)"
  proof -
    have "(of_int c :: rat) < of_int (2 ^ 24)" using assms(2) by (simp only: of_int_less_iff)
    also have "\<dots> = pow2 24" by (simp add: pow2_def)
    also have "\<dots> < pow2 (emax b32 + 1)" by simp
    finally show ?thesis .
  qed
  have "\<bar>cval (fmul b32 (Fin (of_int c)) (norm1 v))\<bar> \<le> of_int c"
    using mul_abs_le [OF _ n(1) m _ lt] r by simp
  then have "\<bar>rat_trunc (cval (fmul b32 (Fin (of_int c)) (norm1 v)))\<bar> \<le> c" by (rule trunc_abs)
  then show ?thesis using assms(3) by (auto simp: c flt_to_int_def flt_to_range_def split: if_splits)
qed

lemma limit_range: "\<bar>limit v (- 100) 100\<bar> \<le> 100"
  by (auto simp: limit_def)

definition outputs_ok :: "int \<Rightarrow> int \<Rightarrow> mickey \<Rightarrow> bool" where
  "outputs_ok w h m \<longleftrightarrow> (\<forall>a \<in> set (mk_mouse m). in_bounds w h a)"

lemma outputs_do: "outputs_ok w h m \<Longrightarrow> (\<forall>a \<in> set acts. in_bounds w h a) \<Longrightarrow> outputs_ok w h (mouse_do acts m)"
  by (auto simp: outputs_ok_def mouse_do_def)

lemma outputs_click: "outputs_ok w h m \<Longrightarrow> outputs_ok w h (clickm b m)"
  by (auto simp: outputs_ok_def mouse_do_def clickm_def send_click_def Let_def)

lemma outputs_cursor:
  assumes "1 \<le> w" "w < 2 ^ 24" "1 \<le> h" "h < 2 ^ 24" "outputs_ok w h m" "mk_relative m \<or> mk_state m \<noteq> TRACKING \<or> dx = norm1 vx \<and> dy = norm1 vy"
    "move_cursor (screenCenter w h) dx dy m = Some m'"
  shows "outputs_ok w h m'"
proof (cases "mk_state m \<noteq> TRACKING \<or> mk_relative m")
  case True
  then show ?thesis using assms(5,7) limit_range
    by (auto simp: move_cursor_def bind_eq_Some_conv movem_def split: if_splits intro!: outputs_do)
next
  case False
  define cx cy where "cx = (w - 1) div 2" and "cy = (h - 1) div 2"
  have c: "0 \<le> cx" "cx < 2 ^ 24" "2 * cx < w" "0 \<le> cy" "cy < 2 ^ 24" "2 * cy < h"
    using assms(1-4) by (auto simp: cx_def cy_def)
  obtain px py where p: "flt_to_int (fmul b32 (flt_of_int b32 cx) (norm1 vx)) = Some px"
    "flt_to_int (fmul b32 (flt_of_int b32 cy) (norm1 vy)) = Some py" "m' = mouse_do [CursorAt (cx + px) (cy + py)] m"
    using assms(6,7) False by (auto simp: move_cursor_def bind_eq_Some_conv screenCenter_def cx_def cy_def)
  have "\<bar>px\<bar> \<le> cx" "\<bar>py\<bar> \<le> cy" using scaled_fits [OF c(1,2) p(1)] scaled_fits [OF c(4,5) p(2)] by auto
  then show ?thesis using c assms(5) unfolding p(3) by (auto intro!: outputs_do)
qed

lemma smooth_quiet:
  "axis_smooth vx vy m = (sx, sy, m1) \<Longrightarrow> m1 = m\<lparr>prevX := sx, prevY := sy\<rparr>"
  by (auto simp: axis_smooth_def Let_def)

lemma absolute_update:
  "\<not> calibrating m \<Longrightarrow> \<not> rel \<Longrightarrow> trans_update Mf vx vy rel el ux uy m = (dx, dy, m') \<Longrightarrow>
     \<exists>a b. dx = norm1 a \<and> dy = norm1 b"
  by (auto simp: trans_update_def Let_def split: prod.splits dest!: smooth_quiet)

lemma update_outputs:
  "trans_update Mf vx vy rel el ux uy m = (dx, dy, m') \<Longrightarrow> mk_mouse m' = mk_mouse m \<and> mk_state m' = mk_state m \<and> mk_relative m' = mk_relative m"
  by (cases "calibrating m")
    (auto simp: trans_update_def Let_def axis_step_def split: prod.splits if_splits dest!: smooth_quiet)

lemma tick_outputs:
  assumes "1 \<le> w" "w < 2 ^ 24" "1 \<le> h" "h < 2 ^ 24" "mk_ok m" "outputs_ok w h m"
    "updateTimer_activated Mf (screenCenter w h) t m = Some m'"
  shows "outputs_ok w h m'"
proof (cases "\<not> t_running t \<or> recenterFlag m \<and> t_init t < settleTime")
  case True then show ?thesis using assms(6,7) by (simp add: updateTimer_activated_def)
next
  case False
  define m1 where "m1 = (if recenterFlag m then (lib_do1 MkRecenter m)\<lparr>recenterFlag := False\<rparr> else m)"
  define m2 where "m2 = (case t_pose t of Some (yaw, pitch) \<Rightarrow> m1\<lparr>heading_p := yaw, pitch_p := pitch\<rparr> | None \<Rightarrow> m1)"
  obtain dx dy m3 where u: "trans_update Mf (heading_p m2) (pitch_p m2) (mk_relative m2) (t_elapsed t) (t_ux t) (t_uy t) m2 = (dx, dy, m3)"
    by (cases "trans_update Mf (heading_p m2) (pitch_p m2) (mk_relative m2) (t_elapsed t) (t_ux t) (t_uy t) m2")
  have c: "move_cursor (screenCenter w h) dx dy m3 = Some m'"
    using assms(7) False u unfolding updateTimer_activated_def Let_def m1_def [symmetric] m2_def [symmetric] by (simp split: if_splits)
  have e: "mk_mouse m2 = mk_mouse m" "mk_state m2 = mk_state m" "calibrating m2 = calibrating m"
    by (simp_all add: m2_def m1_def lib_do1_def split: option.splits prod.splits)
  have o3: "outputs_ok w h m3" "mk_state m3 = mk_state m" "mk_relative m3 = mk_relative m2"
    using update_outputs [OF u] e assms(6) by (simp_all add: outputs_ok_def)
  obtain a b where "mk_relative m3 \<or> mk_state m3 \<noteq> TRACKING \<or> dx = norm1 a \<and> dy = norm1 b"
    using absolute_update [OF _ _ u] assms(5) e(3) o3 by (cases "calibrating m") (auto simp: mk_ok_defs)
  from outputs_cursor [OF assms(1-4) o3(1) this c] show ?thesis .
qed

lemma handle_outputs:
  assumes "1 \<le> w" "w < 2 ^ 24" "1 \<le> h" "h < 2 ^ 24" "mk_ok m" "outputs_ok w h m" "mk_handle Mf (screenCenter w h) e m = Some m'"
  shows "outputs_ok w h m'"
proof (cases "(\<exists>t. e = UpdTick t) \<or> (\<exists>i p. e = HotKey i p) \<or> (\<exists>b. e = Sn4 b)")
  case True
  moreover have "outputs_ok w h (lib_do1 MkRecenter m)" "outputs_ok w h (changeState s m)" for s
    using assms(6) by (cases "mk_state m"; cases s; simp add: outputs_ok_def lib_do1_def changeState_def mk_pause_def mk_wakeup_def)+
  ultimately show ?thesis using assms tick_outputs [OF assms(1-6)] outputs_click
    by (auto simp: sn4_clicked_def hotKey_activated_def on_mouseHotKey_activated_def split: if_splits state_t.splits)
next
  case False
  have cs: "mk_mouse (changeState s n) = mk_mouse n" for s n
    by (cases "mk_state n"; cases s; simp add: lib_do1_def changeState_def mk_pause_def mk_wakeup_def)
  have ct: "mk_mouse (cal_timeout n) = mk_mouse n" for n
    by (cases "calState n") (simp_all add: cal_timeout_def recenterNow_def lib_do1_def cs trans_startCalibration_def mk_finishCalibration_def
      trans_finishCalibration_def mk_applySettings_def trySettings_def axis_applySettings_def Let_def)
  have g: "newSetup m = g_setup m" using assms(5) by (simp add: mk_ok_defs)
  have "mk_mouse m' = mk_mouse m"
    using False assms(7) g
    by (cases e) (auto simp: cs ct cancelPressed_def mk_cancelCalibration_def trans_cancelCalibration_def on_RevertButton_pressed_def
      apl_timeout_def trans_revert_settled on_KeepButton_pressed_def apl_closeEvent_def trans_keepSettings_def axis_keepSettings_def
      slider_changed_def axisChanged_def mk_applySettings_def trySettings_def axis_applySettings_def mk_calibrate_def mk_recenter_def cal_open_def Let_def)
  then show ?thesis using assms(6) by (simp add: outputs_ok_def)
qed

lemma run_outputs:
  assumes "1 \<le> w" "w < 2 ^ 24" "1 \<le> h" "h < 2 ^ 24"
  shows "mk_ok m \<Longrightarrow> outputs_ok w h m \<Longrightarrow> mk_run Mf (screenCenter w h) es m = Some m' \<Longrightarrow> no_escape es \<Longrightarrow> outputs_ok w h m'"
proof (induction es arbitrary: m)
  case (Cons e es)
  from Cons.prems obtain m1 where 1: "mk_enabled e m" "mk_handle Mf (screenCenter w h) e m = Some m1" "mk_run Mf (screenCenter w h) es m1 = Some m'"
    by (auto simp: bind_eq_Some_conv split: if_splits)
  show ?case
    using Cons.IH [OF _ _ 1(3)] handle_ok [OF Cons.prems(1) 1(1,2)] handle_outputs [OF assms Cons.prems(1,2) 1(2)] Cons.prems(4)
    unfolding no_escape_simps by blast
qed simp

text \<open>C35: What is sent to the mouse is in range (\<open>mickey.cpp\<close>, \<open>uinput_ifc.c\<close>). Whatever the poses, the settings and the events, on a screen of
  \<open>w\<close> times \<open>h\<close> points the cursor is only ever put on the screen, and a relative movement has at most 100 steps, as long as no dialog
  is left by the escape key. The delays the program comes up with are at least one second.\<close>

theorem mouse_stays_on_screen:
  assumes "1 \<le> w" "w < 2 ^ 24" "1 \<le> h" "h < 2 ^ 24" "mk_started Mf (screenCenter w h) cal ctrd es m" "1 \<le> cal" "1 \<le> ctrd" "no_escape es"
  shows "\<forall>a \<in> set (mk_mouse m). in_bounds w h a"
proof -
  obtain raw s mx my rel where "mk_run Mf (screenCenter w h) es (mickey_init raw s mx my cal ctrd rel) = Some m"
    using assms(5) unfolding mk_started_def by blast
  moreover have "outputs_ok w h (mickey_init raw s mx my cal ctrd rel)"
    by (simp add: mickey_init_def changeState_def mk_wakeup_def lib_do1_def outputs_ok_def)
  ultimately have "outputs_ok w h m" using run_outputs [OF assms(1-4) mickey_init_ok] assms(6-8) by blast
  then show ?thesis by (simp add: outputs_ok_def)
qed

text \<open>The escape key makes the difference: whoever leaves the dialog by it while the range is measured and recenters then comes back to
  tracking with the range still being measured, and the cursor goes to where the variables \<open>dx\<close> and \<open>dy\<close> happen to point.\<close>

lemma escaped_calibration_goes_on:
  assumes "mk_state m = CALIBRATING" "calibrating m" "cal_shown m" "cal_timer m" "\<not> apl_shown m" "cntrDelay m = 1"
  shows "\<exists>m'. mk_run Mf ctr [CalEscape, RecenterPressed, CalTick] m = Some m' \<and> mk_state m' = TRACKING \<and> calibrating m' \<and> \<not> dialog_shown m'"
  using assms by (simp add: dialog_shown_def mk_recenter_def cal_open_def cal_timeout_def changeState_simps recenterNow_def lib_do1_def Let_def)

lemma cursor_by_chance:
  assumes "mk_state m = TRACKING" "calibrating m" "\<not> mk_relative m" "\<not> recenterFlag m" "t_running t" "t_pose t = None"
    "flt_to_int (fmul b32 (flt_of_int b32 (fst ctr)) (t_ux t)) = Some px" "flt_to_int (fmul b32 (flt_of_int b32 (snd ctr)) (t_uy t)) = Some py"
  shows "\<exists>m'. updateTimer_activated Mf ctr t m = Some m' \<and> CursorAt (fst ctr + px) (snd ctr + py) \<in> set (mk_mouse m')"
proof -
  obtain sx sy n where s: "axis_smooth (heading_p m) (pitch_p m) m = (sx, sy, n)" by (cases "axis_smooth (heading_p m) (pitch_p m) m")
  have n: "calibrating n" using smooth_quiet [OF s] assms(2) by simp
  show ?thesis using assms smooth_quiet [OF s]
    by (simp add: updateTimer_activated_def calibrating_update [OF n s] move_cursor_def mouse_do_def)
qed

subsection \<open>Slow movements\<close>

text \<open>What a tick in relative mode adds to the accumulators.\<close>

definition tick_motion :: "mathf \<Rightarrow> tick_in \<Rightarrow> mickey \<Rightarrow> cflt \<times> cflt" where
  "tick_motion Mf t m =
     (let (yaw, pitch) = (case t_pose t of Some p \<Rightarrow> p | None \<Rightarrow> (heading_p m, pitch_p m));
          (sx, sy, _) = axis_smooth yaw pitch m
      in step_by Mf (curSetup m) (norm1 (fdiv b32 (fneg sx) (maxValX m))) (norm1 (fdiv b32 (fneg sy) (maxValY m))) (t_elapsed t))"

definition half_pixel :: "cflt \<Rightarrow> bool" where
  "half_pixel x \<longleftrightarrow> is_fin x \<and> \<bar>cval x\<bar> \<le> 1 / 2"

definition slow_tick :: "mathf \<Rightarrow> tick_in \<Rightarrow> mickey \<Rightarrow> bool" where
  "slow_tick Mf t m \<longleftrightarrow> half_pixel (fst (tick_motion Mf t m)) \<and> half_pixel (snd (tick_motion Mf t m))"

fun slow_ticks :: "mathf \<Rightarrow> int \<times> int \<Rightarrow> tick_in list \<Rightarrow> mickey \<Rightarrow> bool" where
  "slow_ticks Mf ctr [] m = True"
| "slow_ticks Mf ctr (t # ts) m = (slow_tick Mf t m \<and> (case updateTimer_activated Mf ctr t m of None \<Rightarrow> True | Some m' \<Rightarrow> slow_ticks Mf ctr ts m'))"

definition resting :: "mickey \<Rightarrow> bool" where
  "resting m \<longleftrightarrow> mk_state m = TRACKING \<and> upd_timer m \<and> mk_relative m \<and> \<not> calibrating m \<and> accX m = Fin 0 \<and> accY m = Fin 0"

lemma rnd_half: "\<bar>r\<bar> \<le> 1 / 2 \<Longrightarrow> is_fin (rnd F r) \<and> \<bar>cval (rnd F r)\<bar> \<le> 1 / 2" if "F = b32 \<or> F = b64"
proof -
  assume r: "\<bar>r\<bar> \<le> 1 / 2"
  have g: "rval F (1 / 2) = 1 / 2" using that rval_grid [of 1 F "-1"] by (auto simp: pow2_def)
  have "(1 / 2 :: rat) < pow2 0" by (simp add: pow2_def)
  also have "\<dots> < pow2 (emax F + 1)" using that by auto
  finally show ?thesis using rnd_abs_le [OF r, of F "1 / 2"] g that by auto
qed

lemma accumulate_half:
  assumes "half_pixel d"
  shows "half_pixel (fcvt b32 (fadd b64 (Fin 0) d))"
proof -
  have "is_fin (fadd b64 (Fin 0) d) \<and> \<bar>cval (fadd b64 (Fin 0) d)\<bar> \<le> 1 / 2"
    using assms rnd_half [of b64 "cval d"] by (cases d) (auto simp: half_pixel_def)
  then show ?thesis using rnd_half [of b32] by (cases "fadd b64 (Fin 0) d") (auto simp: half_pixel_def)
qed

lemma half_no_step: "half_pixel x \<Longrightarrow> flt_to_int x = Some 0"
proof -
  assume h: "half_pixel x"
  then have "rat_trunc (cval x) = 0" by (auto simp: half_pixel_def rat_trunc_def abs_le_iff) linarith+
  then show ?thesis using h by (simp add: flt_to_int_def flt_to_range_def half_pixel_def)
qed

lemma relative_update:
  assumes "resting m" "half_pixel (fst d)" "half_pixel (snd d)"
    "axis_smooth vx vy m = (sx, sy, m1)"
    "d = step_by Mf (curSetup m) (norm1 (fdiv b32 (fneg sx) (maxValX m))) (norm1 (fdiv b32 (fneg sy) (maxValY m))) el"
    "trans_update Mf vx vy True el ux uy m = (dx, dy, m')"
  shows "half_pixel dx \<and> half_pixel dy \<and> resting m' \<and> mk_mouse m' = mk_mouse m"
proof -
  note m1 = smooth_quiet [OF assms(4)]
  define a b where "a = fcvt b32 (fadd b64 (Fin 0) (fst d))" and "b = fcvt b32 (fadd b64 (Fin 0) (snd d))"
  have h: "half_pixel a" "half_pixel b" using accumulate_half assms(2,3) by (simp_all add: a_def b_def)
  have f: "fsub b32 a a = Fin 0" "fsub b32 b b = Fin 0" using h fsub_self by (auto simp: half_pixel_def)
  have st: "axis_step Mf (norm1 (fdiv b32 (fneg sx) (maxValX m1))) (norm1 (fdiv b32 (fneg sy) (maxValY m1))) el m1 = m1\<lparr>accX := a, accY := b\<rparr>"
    using assms(1) unfolding axis_step_def m1 a_def b_def assms(5) by (simp add: resting_def split: prod.splits)
  have "trans_update Mf vx vy True el ux uy m = (a, b, m1\<lparr>accX := Fin 0, accY := Fin 0\<rparr>)"
    using assms(1) by (simp add: trans_update_def assms(4) st Let_def f) (simp add: m1 resting_def)
  then show ?thesis using assms(1,6) h by (auto simp: resting_def m1)
qed

lemma slow_tick_lost:
  assumes "resting m" "slow_tick Mf t m"
  shows "\<exists>m'. updateTimer_activated Mf ctr t m = Some m' \<and> resting m' \<and> mk_mouse m' = mk_mouse m"
proof (cases "\<not> t_running t \<or> recenterFlag m \<and> t_init t < settleTime")
  case True then show ?thesis using assms(1) by (simp add: updateTimer_activated_def)
next
  case False
  define m1 where "m1 = (if recenterFlag m then (lib_do1 MkRecenter m)\<lparr>recenterFlag := False\<rparr> else m)"
  define m2 where "m2 = (case t_pose t of Some (yaw, pitch) \<Rightarrow> m1\<lparr>heading_p := yaw, pitch_p := pitch\<rparr> | None \<Rightarrow> m1)"
  obtain dx dy m3 where u: "trans_update Mf (heading_p m2) (pitch_p m2) True (t_elapsed t) (t_ux t) (t_uy t) m2 = (dx, dy, m3)"
    by (cases "trans_update Mf (heading_p m2) (pitch_p m2) True (t_elapsed t) (t_ux t) (t_uy t) m2")
  have e: "mk_mouse m2 = mk_mouse m" "resting m2" "maxValX m2 = maxValX m" "maxValY m2 = maxValY m" "curSetup m2 = curSetup m" "mk_relative m2"
    "prevX m2 = prevX m" "prevY m2 = prevY m"
    using assms(1) by (simp_all add: m2_def m1_def lib_do1_def resting_def split: option.splits prod.splits)
  have p: "(heading_p m2, pitch_p m2) = (case t_pose t of Some p \<Rightarrow> p | None \<Rightarrow> (heading_p m, pitch_p m))"
    by (simp add: m2_def m1_def lib_do1_def split: option.splits prod.splits)
  obtain sx sy n where s2: "axis_smooth (heading_p m2) (pitch_p m2) m2 = (sx, sy, n)" by (cases "axis_smooth (heading_p m2) (pitch_p m2) m2")
  have s1: "axis_smooth (heading_p m2) (pitch_p m2) m = (sx, sy, m\<lparr>prevX := sx, prevY := sy\<rparr>)"
    using s2 e by (simp add: axis_smooth_def Let_def)
  have d: "tick_motion Mf t m = step_by Mf (curSetup m2) (norm1 (fdiv b32 (fneg sx) (maxValX m2))) (norm1 (fdiv b32 (fneg sy) (maxValY m2))) (t_elapsed t)"
    using e s1 by (simp add: tick_motion_def p [symmetric])
  have r: "half_pixel dx" "half_pixel dy" "resting m3" "mk_mouse m3 = mk_mouse m"
    using relative_update [OF e(2) _ _ s2 d u] assms(2) e(1) by (auto simp: slow_tick_def)
  have "move_cursor ctr dx dy m3 = Some m3" using r half_no_step by (simp add: move_cursor_def resting_def)
  then show ?thesis
    using False u e(6) r assms(1) unfolding updateTimer_activated_def Let_def m1_def [symmetric] m2_def [symmetric] by (simp split: if_splits)
qed

text \<open>A slow movement is lost (\<open>transform.cpp\<close>, \<open>mickey.cpp\<close>). In relative mode the mouse is moved by what a tick adds, and what remains
  below one step is meant to be carried over to the next tick; but the remainder is taken as the difference of the accumulator and
  its own unrounded value, hence zero. However many ticks add half a step each, the mouse does not move at all.\<close>

theorem slow_motion_lost:
  assumes "resting m" "slow_ticks Mf ctr ts m"
  shows "\<exists>m'. mk_run Mf ctr (map UpdTick ts) m = Some m' \<and> mk_mouse m' = mk_mouse m \<and> accX m' = Fin 0 \<and> accY m' = Fin 0"
  using assms
proof (induction ts arbitrary: m)
  case Nil then show ?case by (simp add: resting_def)
next
  case (Cons t ts)
  have u: "upd_timer m" using Cons.prems(1) by (simp add: resting_def)
  obtain m1 where 1: "updateTimer_activated Mf ctr t m = Some m1" "resting m1" "mk_mouse m1 = mk_mouse m"
    using slow_tick_lost [OF Cons.prems(1)] Cons.prems(2) by fastforce
  then show ?case using Cons.IH [OF 1(2)] Cons.prems(2) u by simp
qed

subsection \<open>A range of zero\<close>

text \<open>A calibration that saw only one side (\<open>transform.cpp\<close>). The range is the smaller one of the two sides; when the head was never turned
  to the negative one, it is zero, and when the head is straight the position is zero divided by zero. In absolute mode the
  conversion of the result to a point of the screen is undefined.\<close>

theorem one_sided_calibration:
  assumes "minValX m = Fin 0" "\<not> mk_relative m" "\<not> recenterFlag m" "mk_state m = CALIBRATING" "prevX m = Fin 0"
    "0 \<le> s_smoothing (newSetup m)" "s_smoothing (newSetup m) \<le> 99" "t_running t" "t_pose t = Some (Fin 0, pitch)"
  shows "maxValX (mk_finishCalibration m) = Fin 0 \<and> updateTimer_activated Mf ctr t (mk_finishCalibration m) = None"
proof -
  define m1 where "m1 = mk_finishCalibration m"
  have lo: "lower (Fin 0) (fabs x) = Fin 0" for x by (cases x) (auto simp: lower_def)
  have m1: "maxValX m1 = Fin 0" "\<not> mk_relative m1" "\<not> recenterFlag m1" "mk_state m1 = TRACKING" "\<not> calibrating m1" "prevX m1 = Fin 0"
    "curSetup m1 = newSetup m"
    using assms(1-5)
    by (simp_all add: m1_def mk_finishCalibration_def trans_finishCalibration_def Let_def lo changeState_simps mk_applySettings_def
      trySettings_def axis_applySettings_def)
  define ff where "ff = fcvt b32 (fdiv b64 (flt_of_int b64 (s_smoothing (newSetup m))) (Fin 3))"
  have i: "flt_of_int b64 (s_smoothing (newSetup m)) = Fin (of_int (s_smoothing (newSetup m)))" using assms(6,7) by (intro flt_of_int_b64) simp
  have r: "is_fin ff \<and> 0 \<le> cval ff"
  proof -
    define q :: rat where "q = of_int (s_smoothing (newSetup m)) / 3"
    have q: "0 \<le> q" "\<bar>q\<bar> \<le> 64" using assms(6,7) by (simp_all add: q_def)
    have g: "rval F 64 \<le> 64 \<and> (64 :: rat) < pow2 (emax F + 1)" if F: "F = b32 \<or> F = b64" for F
    proof -
      have "(64 :: rat) = pow2 6" by (simp add: pow2_def)
      moreover have "rval F (pow2 6) = pow2 6" using rval_grid [of 1 F 6] F by auto
      moreover have "pow2 6 < pow2 (emax F + 1)" using F by auto
      ultimately show ?thesis by auto
    qed
    have nn: "is_fin (rnd F x) \<and> 0 \<le> cval (rnd F x) \<and> cval (rnd F x) \<le> 64" if F: "F = b32 \<or> F = b64" and x: "0 \<le> x" "x \<le> 64" for F x
    proof -
      have l: "\<bar>x\<bar> \<le> 64" using x by simp
      have "\<bar>rval F x\<bar> < pow2 (emax F + 1)" using rval_abs_le [OF l, of F] g [OF F] F by auto
      from cval_rnd [OF this] show ?thesis
        using rnd_abs_le [OF l, of F 64] g [OF F] F rval_nonneg [OF x(1), of F] by auto
    qed
    have "is_fin (fdiv b64 (Fin (of_int (s_smoothing (newSetup m)))) (Fin 3)) \<and> 0 \<le> cval (fdiv b64 (Fin (of_int (s_smoothing (newSetup m)))) (Fin 3))
      \<and> cval (fdiv b64 (Fin (of_int (s_smoothing (newSetup m)))) (Fin 3)) \<le> 64"
      using nn [of b64 q] q by (auto simp: fdiv_def q_def signed_zero_def)
    then show ?thesis unfolding ff_def i
      using nn [of b32 "cval (fdiv b64 (Fin (of_int (s_smoothing (newSetup m)))) (Fin 3))"]
      by (cases "fdiv b64 (Fin (of_int (s_smoothing (newSetup m)))) (Fin 3)") auto
  qed
  have st: "ltr_int_nonlinfilt (Fin 0) (Fin 0) ff = Fin 0" using r by (intro nonlinfilt_steady) auto
  obtain sy n where sm: "axis_smooth (Fin 0) pitch (m1\<lparr>heading_p := Fin 0, pitch_p := pitch\<rparr>) = (Fin 0, sy, n)"
    using st by (simp add: axis_smooth_def m1 ff_def Let_def)
  have "norm1 (fdiv b32 (fneg (Fin 0)) (Fin 0)) = NaN" by (simp add: fdiv_def norm1_def)
  moreover have "flt_to_int (fmul b32 x NaN) = None" for x by (simp add: fmul_def flt_to_int_def flt_to_range_def)
  ultimately have "updateTimer_activated Mf ctr t m1 = None"
    using assms(8,9) m1 sm smooth_quiet [OF sm] by (simp add: updateTimer_activated_def trans_update_def move_cursor_def)
  then show ?thesis using m1(1) by (simp add: m1_def)
qed

subsection \<open>A run of the program\<close>

definition mk_demo_setup :: setup_t where
  "mk_demo_setup = \<lparr>s_sensitivity = 0, s_deadzone = 0, s_curvature = 50, s_smoothing = 0, s_stepOnly = True\<rparr>"
definition mk_demo_raw :: mickey where
  "mk_demo_raw = \<lparr>mk_state = STANDBY, upd_timer = False, recenterFlag = True, mk_relative = True, heading_p = Fin 0, pitch_p = Fin 0,
     accX = Fin 0, accY = Fin 0, calibrating = False, maxValX = Fin 0, minValX = Fin 0, maxValY = Fin 0, minValY = Fin 0,
     prevMaxValX = Fin 0, prevMaxValY = Fin 0, prevX = Fin (- 128), prevY = Fin 0, oldSetup = mk_demo_setup, newSetup = mk_demo_setup, curSetup = mk_demo_setup,
     cal_timer = False, calState = CENTER, cal_cntr = 0, cal_shown = False, apl_timer = False, apl_cntr = 0, apl_shown = False,
     g_setup = mk_demo_setup, g_maxX = Fin 0, g_maxY = Fin 0, calDelay = 1, cntrDelay = 1, g_changed = False,
     mk_calls = [], prev_btns = 0, mk_mouse = []\<rparr>"
definition mk_demo :: mickey where "mk_demo = mickey_init mk_demo_raw mk_demo_setup (Fin 128) (Fin 128) 1 1 True"
definition mk_demo_math :: mathf where
  "mk_demo_math = \<lparr>m_expf = (\<lambda>x. x), m_logf = (\<lambda>x. x), m_sinf = (\<lambda>x. Fin 0), m_cosf = (\<lambda>x. Fin (1 / 256)), m_atan2f = (\<lambda>y x. Fin 0)\<rparr>"
definition mk_demo_tick :: tick_in where
  "mk_demo_tick = \<lparr>t_running = True, t_init = 2000, t_pose = Some (Fin (- 128), Fin 0), t_elapsed = 8, t_ux = NaN, t_uy = NaN\<rparr>"

lemma mk_demo_started: "mk_run Mf ctr es mk_demo = Some m \<Longrightarrow> mk_started Mf ctr 1 1 es m"
  unfolding mk_started_def mk_demo_def by (intro exI)

text \<open>The witnesses: a slider is moved and the new value tried, but not kept; a calibration begins while a hot key is pressed.\<close>

lemmas mk_demo_defs = mk_demo_def mk_demo_raw_def mk_demo_setup_def mickey_init_def changeState_def mk_wakeup_def lib_do1_def

theorem unkept_settings_vanish_witness:
  "\<exists>m'. mk_run mk_demo_math (511, 383) [Slider (mk_demo_setup\<lparr>s_sensitivity := 70\<rparr>), ApplyPressed, RevertPressed] mk_demo = Some m' \<and>
     curSetup m' = mk_demo_setup"
proof -
  define es where "es = [Slider (mk_demo_setup\<lparr>s_sensitivity := 70\<rparr>), ApplyPressed, RevertPressed]"
  obtain m' where r: "mk_run mk_demo_math (511, 383) es mk_demo = Some m'" and d: "\<not> dialog_shown m'"
    by (simp add: es_def mk_demo_defs dialog_shown_def slider_changed_def axisChanged_def mk_applySettings_def trySettings_def
      axis_applySettings_def on_RevertButton_pressed_def trans_revert_settled)
  have "mk_started mk_demo_math (511, 383) 1 1 [] mk_demo" by (rule mk_demo_started) simp
  from unkept_settings_vanish [OF this _ _ r _ _ _ _ _ d] have "curSetup m' = curSetup mk_demo"
    by (simp add: es_def mk_demo_defs dialog_shown_def)
  then show ?thesis using r by (auto simp: es_def mk_demo_defs)
qed

lemma mk_demo_calibrating:
  "\<exists>m. mk_run mk_demo_math ctr [CalibratePressed] mk_demo = Some m \<and> cal_shown m \<and> calState m = CENTER \<and> seconds_left m = 2"
  by (simp add: mk_demo_defs dialog_shown_def mk_calibrate_def cal_open_def cal_timeout_def seconds_left_def Let_def)

theorem mickey_states_consistent_witness:
  "\<exists>m. mk_run mk_demo_math (511, 383) [CalibratePressed] mk_demo = Some m \<and> cal_shown m \<and> mk_state m = CALIBRATING \<and> upd_timer m"
proof -
  obtain m where m: "mk_run mk_demo_math (511, 383) [CalibratePressed] mk_demo = Some m" "cal_shown m" using mk_demo_calibrating by blast
  then show ?thesis using mickey_states_consistent [OF mk_demo_started [OF m(1)]] by auto
qed

theorem calibration_ends_witness:
  "\<exists>m m'. mk_run mk_demo_math (511, 383) [CalibratePressed] mk_demo = Some m \<and>
     mk_run mk_demo_math (511, 383) [CalTick, CalTick] m = Some m' \<and> mk_state m' = TRACKING"
proof -
  obtain m where m: "mk_run mk_demo_math (511, 383) [CalibratePressed] mk_demo = Some m" "cal_shown m" "seconds_left m = 2"
    using mk_demo_calibrating by blast
  note e = calibration_ends [OF mk_demo_started [OF m(1)] _ _ _ m(2), simplified]
  obtain m' where r: "mk_run mk_demo_math (511, 383) ([CalTick] @ [CalTick]) m = Some m'" using e m(3) by (auto simp: numeral_2_eq_2)
  then have "mk_state m' = TRACKING" using e m(3) by (elim conjE allE [of _ "[CalTick]"]) auto
  with m r show ?thesis by auto
qed

theorem mouse_stays_on_screen_witness:
  "\<exists>m. mk_run mk_demo_math (screenCenter 1024 768) [Sn4 2] mk_demo = Some m \<and> mk_mouse m = [EV_KEY BTN_LEFT True, EV_SYN] \<and>
     (\<forall>a \<in> set (mk_mouse m). in_bounds 1024 768 a)"
proof -
  obtain m where m: "mk_run mk_demo_math (screenCenter 1024 768) [Sn4 2] mk_demo = Some m" "mk_mouse m = [EV_KEY BTN_LEFT True, EV_SYN]"
    by (simp add: mk_demo_defs sn4_clicked_def clickm_def send_click_def mouse_do_def Let_def)
  from mouse_stays_on_screen [OF _ _ _ _ mk_demo_started [OF m(1)]] m show ?thesis by auto
qed

theorem one_sided_calibration_witness:
  "updateTimer_activated mk_demo_math (511, 383) (mk_demo_tick\<lparr>t_pose := Some (Fin 0, Fin 0)\<rparr>)
     (mk_finishCalibration (mk_demo\<lparr>mk_state := CALIBRATING, mk_relative := False, recenterFlag := False, prevX := Fin 0\<rparr>)) = None"
  by (intro conjunct2 [OF one_sided_calibration [where pitch = "Fin 0"]]) (simp_all add: mk_demo_defs mk_demo_tick_def)

lemma getSpeed_lowest: "getSpeed 0 = Fin 256"
proof -
  have t: "is_fin timeFast \<and> \<bar>cval timeFast\<bar> \<le> 1 / 2" unfolding timeFast_def by (rule rnd_half) simp_all
  have g: "rval b32 8 = 8" "(8 :: rat) < pow2 128"
  proof -
    have "(8 :: rat) = pow2 3" by (simp add: pow2_def)
    moreover have "rval b32 (pow2 3) = pow2 3" using rval_grid [of 1 b32 3] by simp
    moreover have "pow2 3 < pow2 128" by simp
    ultimately show "rval b32 8 = 8" "(8 :: rat) < pow2 128" by simp_all
  qed
  have l: "\<bar>cval timeFast - 4\<bar> \<le> 8"
  proof -
    have "cval timeFast \<le> 1 / 2" "- (1 / 2) \<le> cval timeFast" using t abs_le_D1 [of "cval timeFast" "1 / 2"] abs_le_D2 [of "cval timeFast" "1 / 2"] by auto
    then show ?thesis by (simp add: abs_le_iff)
  qed
  have "is_fin (fsub b32 timeFast timeSlow)"
    using add_cases [of timeFast "fneg timeSlow" b32] t rnd_abs_le [OF l, of b32 8] g by (auto simp: fsub_def timeSlow_def)
  then have "fmul b64 (fsub b32 timeFast timeSlow) (Fin 0) = NegZero \<or> fmul b64 (fsub b32 timeFast timeSlow) (Fin 0) = Fin 0"
    by (cases "fsub b32 timeFast timeSlow") (auto simp: fmul_def signed_zero_def)
  moreover have "fdiv b64 (flt_of_int b64 0) (Fin 100) = Fin 0" by (simp add: flt_of_int_def fdiv_def signed_zero_def)
  ultimately show ?thesis
    by (auto simp: getSpeed_def timeSlow_def screenMax_def fdiv_def rnd_ints Let_def)
qed

lemma mk_demo_slow: "slow_tick mk_demo_math mk_demo_tick mk_demo"
proof -
  have s: "ltr_int_nonlinfilt (Fin (- 128)) (Fin (- 128)) (Fin 0) = Fin (- 128)" "ltr_int_nonlinfilt (Fin 0) (Fin 0) (Fin 0) = Fin 0"
    by (intro nonlinfilt_steady; simp add: rnd_ints)+
  have q: "rat_sqrt b32 1 = 1" using rat_sqrt_square [of 1 b32] by simp
  have m: "axis_smooth (Fin (- 128)) (Fin 0) mk_demo = (Fin (- 128), Fin 0, mk_demo)"
    using s by (simp add: axis_smooth_def Let_def flt_of_int_def fdiv_def signed_zero_def mk_demo_defs)
  have v: "norm1 (fdiv b32 (Fin 128) (Fin 128)) = Fin 1" "norm1 (fdiv b32 NegZero (Fin 128)) = NegZero"
    by (simp_all add: fdiv_def signed_zero_def rnd_ints norm1_def)
  have p: "rnd b32 (1 / 256) = Fin (1 / 256)" using rnd_b32_eval [of "-31" "1 / 256" "2 ^ 23"] by (simp add: pow2_def)
  have z: "fmul b32 (Fin 1) (Fin 1) = Fin 1" "fmul b32 NegZero NegZero = Fin 0" "fadd b32 (Fin 1) (Fin 0) = Fin 1"
    "fmul b32 (Fin 1) (Fin (1 / 256)) = Fin (1 / 256)" "fmul b32 (Fin (1 / 256)) (Fin 256) = Fin 1"
    "fmul b32 (Fin 1) (Fin 0) = Fin 0" "fmul b32 (Fin 0) (Fin 256) = Fin 0"
    by (simp_all add: fmul_def signed_zero_def rnd_ints p)
  have r: "response mk_demo_math (Fin 1) mk_demo_setup = Fin 1"
    by (simp add: response_def mk_demo_setup_def flt_of_int_def fmul_def fdiv_def signed_zero_def Let_def)
  define e where "e = fdiv b64 (flt_of_int b64 8) (Fin 1000)"
  have e: "half_pixel e" using rnd_half [of b64 "8 / 1000"] by (simp add: e_def flt_of_int_def rnd_ints fdiv_def half_pixel_def)
  have "tick_motion mk_demo_math mk_demo_tick mk_demo = (fmul b64 (Fin 1) e, fmul b64 (Fin 0) e)"
    unfolding tick_motion_def
    by (simp add: mk_demo_tick_def m) (simp add: mk_demo_defs step_by_def v z q r [unfolded mk_demo_setup_def mk_demo_math_def] rnd_ints getSpeed_lowest mk_demo_math_def e_def p Let_def)
  then show ?thesis using e mul_cases [of "Fin 1" e b64] rnd_half [of b64 "cval e"]
    by (cases e) (auto simp: slow_tick_def half_pixel_def fmul_def signed_zero_def)
qed

theorem slow_motion_lost_witness:
  "\<exists>m'. mk_run mk_demo_math (511, 383) [UpdTick mk_demo_tick] mk_demo = Some m' \<and> mk_mouse m' = [] \<and> accX m' = Fin 0"
proof -
  have "resting mk_demo" by (simp add: resting_def mk_demo_defs)
  moreover have "slow_ticks mk_demo_math (511, 383) [mk_demo_tick] mk_demo" using mk_demo_slow by (simp split: option.split)
  ultimately show ?thesis using slow_motion_lost [of mk_demo mk_demo_math "(511, 383)" "[mk_demo_tick]"] by (auto simp: mk_demo_defs)
qed

end
