(* ===== verification/Loader.thy ===== *)
theory Loader
  imports Ltlib PrefFile TirPrefs
begin

text \<open>
  \<open>src/linuxtrack.c\<close>: the part of the interface that is linked into an application. It looks for the tracking library, loads it and
  passes the calls on. A function pointer is the path of the library it points into; a call through a pointer into a library that is
  no longer loaded has no result. \<open>dlopen\<close> and \<open>dlclose\<close> count the references to a library. \<open>ld_env\<close> is the surroundings: the
  environment variables, the files, which libraries load and which symbols they have, and whether the log can be opened: the
  code writes to it without checking that.
\<close>

datatype lt_fun = F_init | F_shutdown | F_suspend | F_wakeup | F_recenter | F_get_pose | F_get_pose_full | F_get_tracking_state
  | F_explain | F_get_abs_pose | F_request_frames | F_get_frame | F_notification_on | F_get_notify_pipe | F_wait

record ld_env =
  ld_home :: "string option"
  ld_libs :: "string option"
  ld_file :: "string \<Rightarrow> string option"
  ld_access :: "string \<Rightarrow> bool"
  ld_opens :: "string \<Rightarrow> bool"
  ld_symbol :: "string \<Rightarrow> string \<Rightarrow> bool"
  ld_log :: bool

record loader =
  lib_handle :: "string option"
  funs :: "lt_fun \<Rightarrow> string option"
  refs :: "string \<Rightarrow> nat"

definition loader_init :: loader where
  "loader_init = \<lparr>lib_handle = None, funs = (\<lambda>_. None), refs = (\<lambda>_. 0)\<rparr>"

text \<open>The table: the name of the symbol, the pointer, and whether it is mandatory.\<close>

definition fun_table :: "(string \<times> lt_fun \<times> bool) list" where
  "fun_table = [(''ltr_init'', F_init, True), (''ltr_shutdown'', F_shutdown, True), (''ltr_suspend'', F_suspend, True),
     (''ltr_wakeup'', F_wakeup, True), (''ltr_recenter'', F_recenter, True), (''ltr_get_pose'', F_get_pose, True),
     (''ltr_get_pose_full'', F_get_pose_full, True), (''ltr_get_tracking_state'', F_get_tracking_state, True),
     (''ltr_explain'', F_explain, False), (''ltr_get_abs_pose'', F_get_abs_pose, True), (''ltr_request_frames'', F_request_frames, False),
     (''ltr_get_frame'', F_get_frame, False), (''ltr_notification_on'', F_notification_on, False),
     (''ltr_get_notify_pipe'', F_get_notify_pipe, False), (''ltr_wait'', F_wait, False)]"

definition lib_locations :: "string list" where
  "lib_locations = [''/Frameworks/liblinuxtrack.0.dylib'', ''/lib/linuxtrack/liblinuxtrack.so.0'', ''/lib32/linuxtrack/liblinuxtrack32.so.0'',
     ''/lib/i386-linux-gnu/linuxtrack/liblinuxtrack.so.0'', ''/lib/i386-linux-gnu/linuxtrack/liblinuxtrack32.so.0'',
     ''/lib/x86_64-linux-gnu/linuxtrack/liblinuxtrack.so.0'', ''/lib/liblinuxtrack.so.0'', ''/lib32/liblinuxtrack.so.0'',
     ''/lib32/liblinuxtrack32.so.0'', ''/lib/i386-linux-gnu/liblinuxtrack.so.0'', ''/lib/x86_64-linux-gnu/liblinuxtrack.so.0'']"

definition linuxtrack_log :: "ld_env \<Rightarrow> unit option" where
  "linuxtrack_log E = (if ld_log E then Some () else None)"

subsection \<open>Passing calls on\<close>

text \<open>A call through a pointer: the function's own answer when it is null, else that of the library.\<close>

definition via :: "lt_fun \<Rightarrow> 'r \<Rightarrow> (string \<Rightarrow> 'r) \<Rightarrow> loader \<Rightarrow> 'r option" where
  "via f own lib s = (case funs s f of None \<Rightarrow> Some own | Some p \<Rightarrow> if 0 < refs s p then Some (lib p) else None)"

definition not_initialized :: int where "not_initialized = state_num err_NOT_INITIALIZED"

definition linuxtrack_suspend :: "(string \<Rightarrow> int) \<Rightarrow> loader \<Rightarrow> int option" where "linuxtrack_suspend = via F_suspend not_initialized"
definition linuxtrack_wakeup :: "(string \<Rightarrow> int) \<Rightarrow> loader \<Rightarrow> int option" where "linuxtrack_wakeup = via F_wakeup not_initialized"
definition linuxtrack_recenter :: "(string \<Rightarrow> int) \<Rightarrow> loader \<Rightarrow> int option" where "linuxtrack_recenter = via F_recenter not_initialized"
definition linuxtrack_get_tracking_state :: "(string \<Rightarrow> int) \<Rightarrow> loader \<Rightarrow> int option" where
  "linuxtrack_get_tracking_state = via F_get_tracking_state not_initialized"
definition linuxtrack_request_frames :: "(string \<Rightarrow> int) \<Rightarrow> loader \<Rightarrow> int option" where
  "linuxtrack_request_frames = via F_request_frames not_initialized"
definition linuxtrack_notification_on :: "(string \<Rightarrow> int) \<Rightarrow> loader \<Rightarrow> int option" where
  "linuxtrack_notification_on = via F_notification_on not_initialized"
definition linuxtrack_get_notify_pipe :: "(string \<Rightarrow> int) \<Rightarrow> loader \<Rightarrow> int option" where
  "linuxtrack_get_notify_pipe = via F_get_notify_pipe not_initialized"
definition linuxtrack_wait :: "(string \<Rightarrow> int) \<Rightarrow> loader \<Rightarrow> int option" where "linuxtrack_wait = via F_wait not_initialized"

definition linuxtrack_get_pose :: "(string \<Rightarrow> int \<times> pose_out) \<Rightarrow> loader \<Rightarrow> (int \<times> pose_out) option" where
  "linuxtrack_get_pose = via F_get_pose (0, zero_out)"

definition linuxtrack_get_abs_pose :: "(string \<Rightarrow> int \<times> pose_out) \<Rightarrow> loader \<Rightarrow> (int \<times> pose_out) option" where
  "linuxtrack_get_abs_pose = via F_get_abs_pose (0, zero_out)"

text \<open>The blobs of the caller are cleared, \<open>num_blobs\<close> of them; \<open>blobs_read\<close> is not touched.\<close>

definition linuxtrack_get_pose_full ::
  "(string \<Rightarrow> int \<times> linuxtrack_pose_t \<times> cflt list \<times> int) \<Rightarrow> cflt list \<Rightarrow> int \<Rightarrow> int \<Rightarrow> loader \<Rightarrow> (int \<times> linuxtrack_pose_t \<times> cflt list \<times> int) option" where
  "linuxtrack_get_pose_full lib bl n_blobs blobs_read s =
     (if funs s F_get_pose_full = None \<and> length bl < nat (n_blobs * int BLOB_ELEMENTS) then None
      else via F_get_pose_full (0, zero_pose,
        replicate (nat (n_blobs * int BLOB_ELEMENTS)) (Fin 0) @ drop (nat (n_blobs * int BLOB_ELEMENTS)) bl, blobs_read) lib s)"

definition linuxtrack_get_frame :: "'f \<Rightarrow> (string \<Rightarrow> int \<times> 'f) \<Rightarrow> loader \<Rightarrow> (int \<times> 'f) option" where
  "linuxtrack_get_frame frame = via F_get_frame (not_initialized, frame)"

definition linuxtrack_explain :: "(string \<Rightarrow> string option) \<Rightarrow> linuxtrack_state_type \<Rightarrow> loader \<Rightarrow> string option option" where
  "linuxtrack_explain lib st = via F_explain (case st of
     INITIALIZING \<Rightarrow> Some ''Linuxtrack is initializing.''
   | RUNNING \<Rightarrow> Some ''Linuxtrack is running.''
   | PAUSED \<Rightarrow> Some ''Linuxtrack is paused.''
   | STOPPED \<Rightarrow> Some ''Linuxtrack is stopped.''
   | err_NOT_INITIALIZED \<Rightarrow> Some ''Linuxtrack function was called without proper initialization.''
   | err_SYMBOL_LOOKUP \<Rightarrow> Some ''Internal error (symbol lookup). Please file an issue at http://linuxtrack.eu''
   | err_NO_CONFIG \<Rightarrow> Some (''Linuxtrack config not found. If you have installed Linuxtrack,'' @ [CHR 0x0A] @ ''run ltr_gui and set it up first.'')
   | err_NOT_FOUND \<Rightarrow> Some (''Linuxtrack was removed or relocated. If you relocated it,'' @ [CHR 0x0A] @
       ''run ltr_gui from the new location, save preferences and try again.'')
   | err_PROCESSING_FRAME \<Rightarrow> Some ''Internal error (frame processing). Please file an issue at http://linuxtrack.eu''
   | _ \<Rightarrow> None) lib"

text \<open>Shutting down clears nine of the fifteen pointers before the library is closed.\<close>

definition cleared :: "lt_fun set" where
  "cleared = {F_init, F_shutdown, F_suspend, F_wakeup, F_recenter, F_get_pose, F_get_pose_full, F_get_tracking_state, F_explain}"

definition linuxtrack_shutdown :: "(string \<Rightarrow> int) \<Rightarrow> loader \<Rightarrow> (int \<times> loader) option" where
  "linuxtrack_shutdown lib s = do {
     res \<leftarrow> via F_shutdown not_initialized lib s;
     Some (res, case (funs s F_shutdown, lib_handle s) of
       (Some _, Some h) \<Rightarrow> s\<lparr>lib_handle := None, funs := (\<lambda>f. if f \<in> cleared then None else funs s f), refs := (refs s)(h := refs s h - 1)\<rparr>
     | _ \<Rightarrow> s) }"

subsection \<open>Loading\<close>

text \<open>A missing optional symbol clears its pointer, a missing mandatory one ends the loop.\<close>

fun linuxtrack_load_functions :: "ld_env \<Rightarrow> string \<Rightarrow> (string \<times> lt_fun \<times> bool) list \<Rightarrow> loader \<Rightarrow> (bool \<times> loader) option" where
  "linuxtrack_load_functions E h [] s = Some (True, s)"
| "linuxtrack_load_functions E h ((name, f, mandatory) # fs) s =
     (if ld_symbol E h name then linuxtrack_load_functions E h fs (s\<lparr>funs := (funs s)(f := Some h)\<rparr>)
      else do { _ \<leftarrow> linuxtrack_log E;
        if mandatory then Some (False, s) else linuxtrack_load_functions E h fs (s\<lparr>funs := (funs s)(f := None)\<rparr>) })"

definition construct_name :: "string \<Rightarrow> string \<Rightarrow> string \<Rightarrow> string" where
  "construct_name path sep name = path @ sep @ name"

definition linuxtrack_try_library :: "ld_env \<Rightarrow> string \<Rightarrow> loader \<Rightarrow> (bool \<times> loader) option" where
  "linuxtrack_try_library E path s = do {
     _ \<leftarrow> linuxtrack_log E;
     Some (if ld_access E path \<and> ld_opens E path then (True, s\<lparr>refs := (refs s)(path := refs s path + 1)\<rparr>) else (False, s)) }"

text \<open>\<open>fgets\<close> reads a line up to its end, or 4094 characters of it.\<close>

definition one_line :: "string \<Rightarrow> string" where
  "one_line s = take 4094 (takeWhile not_nl s @ take 1 (dropWhile not_nl s))"

function lines_of :: "string \<Rightarrow> string list" where
  "lines_of s = (if s = [] then [] else one_line s # lines_of (drop (length (one_line s)) s))"
  by pat_completeness auto
termination
  by (relation "measure length") (auto simp: one_line_def neq_Nil_conv)

declare lines_of.simps [simp del]

text \<open>\<open>sscanf\<close> with \<open>%s = "%[^"\n]\<close>, when it converts both.\<close>

definition scan_setting :: "string \<Rightarrow> (string \<times> string) option" where
  "scan_setting l = do {
     let l = dropWhile is_space (takeWhile (\<lambda>c. c \<noteq> CHR 0x00) l);
     let key = takeWhile (\<lambda>c. \<not> is_space c) l;
     l \<leftarrow> scan_char (CHR ''='') (dropWhile is_space (dropWhile (\<lambda>c. \<not> is_space c) l));
     l \<leftarrow> scan_char (CHR 0x22) (dropWhile is_space l);
     let val = takeWhile (\<lambda>c. c \<noteq> CHR 0x22 \<and> not_nl c) l;
     if key = [] \<or> val = [] then None else Some (key, val) }"

fun find_prefix :: "string list \<Rightarrow> string option" where
  "find_prefix [] = None"
| "find_prefix (l # ls) = (case scan_setting l of
     Some (key, val) \<Rightarrow> if strcaseeq key ''prefix'' then Some val else find_prefix ls
   | None \<Rightarrow> find_prefix ls)"

definition linuxtrack_get_prefix :: "ld_env \<Rightarrow> string option option" where
  "linuxtrack_get_prefix E = (case ld_home E of
     None \<Rightarrow> do { _ \<leftarrow> linuxtrack_log E; Some None }
   | Some hdir \<Rightarrow> (case ld_file E (construct_name hdir ''/.config/linuxtrack/linuxtrack1.conf'' []) of
       None \<Rightarrow> Some None
     | Some s \<Rightarrow> Some (find_prefix (lines_of s))))"

text \<open>The parts that \<open>strtok\<close> gives for colons.\<close>

function tokens_of :: "string \<Rightarrow> string list" where
  "tokens_of s = (let t = dropWhile (\<lambda>c. c = CHR '':'') s in
     if t = [] then [] else takeWhile (\<lambda>c. c \<noteq> CHR '':'') t # tokens_of (dropWhile (\<lambda>c. c \<noteq> CHR '':'') t))"
  by pat_completeness auto
termination
proof (relation "measure length")
  fix s t :: string
  assume "t = dropWhile (\<lambda>c. c = CHR '':'') s" "t \<noteq> []"
  then have "length t \<le> length s" "hd t \<noteq> CHR '':''" using hd_dropWhile [of "\<lambda>c. c = CHR '':''" s] by (auto simp: length_dropWhile_le)
  then show "(dropWhile (\<lambda>c. c \<noteq> CHR '':'') t, s) \<in> measure length"
    using \<open>t \<noteq> []\<close> length_dropWhile_le [of "\<lambda>c. c \<noteq> CHR '':''" "tl t"] by (cases t) auto
qed simp

declare tokens_of.simps [simp del]

fun try_all :: "ld_env \<Rightarrow> string list \<Rightarrow> loader \<Rightarrow> (string option \<times> loader) option" where
  "try_all E [] s = Some (None, s)"
| "try_all E (p # ps) s = do {
     (ok, s) \<leftarrow> linuxtrack_try_library E p s;
     if ok then Some (Some p, s) else try_all E ps s }"

text \<open>The library, or the problem.\<close>

definition linuxtrack_find_library :: "ld_env \<Rightarrow> loader \<Rightarrow> ((linuxtrack_state_type + string) \<times> loader) option" where
  "linuxtrack_find_library E s = do {
     (h, s) \<leftarrow> (case ld_libs E of None \<Rightarrow> Some (None, s) | Some lp \<Rightarrow> try_all E (tokens_of lp) s);
     case h of Some p \<Rightarrow> Some (Inr p, s)
     | None \<Rightarrow> do {
         prefix \<leftarrow> linuxtrack_get_prefix E;
         case prefix of None \<Rightarrow> Some (Inl err_NO_CONFIG, s)
         | Some pre \<Rightarrow> do {
             (h, s) \<leftarrow> try_all E (map (construct_name pre ''/../'') lib_locations) s;
             Some (case h of Some p \<Rightarrow> (Inr p, s) | None \<Rightarrow> (Inl err_NOT_FOUND, s)) } } }"

definition linuxtrack_load_library :: "ld_env \<Rightarrow> loader \<Rightarrow> (linuxtrack_state_type \<times> loader) option" where
  "linuxtrack_load_library E s = do {
     (r, s) \<leftarrow> linuxtrack_find_library E s;
     case r of Inl problem \<Rightarrow> do { _ \<leftarrow> linuxtrack_log E; Some (problem, s\<lparr>lib_handle := None\<rparr>) }
     | Inr h \<Rightarrow> do {
         (ok, s) \<leftarrow> linuxtrack_load_functions E h fun_table (s\<lparr>lib_handle := Some h\<rparr>);
         if ok then Some (LINUXTRACK_OK, s) else do { _ \<leftarrow> linuxtrack_log E; Some (err_SYMBOL_LOOKUP, s) } } }"

definition linuxtrack_init :: "ld_env \<Rightarrow> (string \<Rightarrow> int) \<Rightarrow> loader \<Rightarrow> (int \<times> loader) option" where
  "linuxtrack_init E lib s = do {
     (res, s) \<leftarrow> linuxtrack_load_library E s;
     if state_num res < state_num LINUXTRACK_OK then Some (state_num res, s)
     else do {
       p \<leftarrow> funs s F_init;
       r \<leftarrow> via F_init 0 lib s;
       Some (r, s) } }"

subsection \<open>The search\<close>

definition loads :: "ld_env \<Rightarrow> string \<Rightarrow> bool" where
  "loads E p \<longleftrightarrow> ld_access E p \<and> ld_opens E p"

definition opened :: "string \<Rightarrow> loader \<Rightarrow> loader" where
  "opened p s = s\<lparr>refs := (refs s)(p := refs s p + 1)\<rparr>"

text \<open>All places where the library may be, in the order of the search.\<close>

definition candidates :: "ld_env \<Rightarrow> string list" where
  "candidates E = (case ld_libs E of None \<Rightarrow> [] | Some lp \<Rightarrow> tokens_of lp) @
     (case linuxtrack_get_prefix E of Some (Some pre) \<Rightarrow> map (construct_name pre ''/../'') lib_locations | _ \<Rightarrow> [])"

definition complete :: "ld_env \<Rightarrow> string \<Rightarrow> bool" where
  "complete E p \<longleftrightarrow> (\<forall>(name, f, mandatory) \<in> set fun_table. mandatory \<longrightarrow> ld_symbol E p name)"

definition init_result :: "ld_env \<Rightarrow> (string \<Rightarrow> int) \<Rightarrow> int" where
  "init_result E lib = (case find (loads E) (candidates E) of
     Some p \<Rightarrow> if complete E p then lib p else state_num err_SYMBOL_LOOKUP
   | None \<Rightarrow> if linuxtrack_get_prefix E = Some None then state_num err_NO_CONFIG else state_num err_NOT_FOUND)"

lemma try_all_find:
  "ld_log E \<Longrightarrow> try_all E ps s = Some (case find (loads E) ps of None \<Rightarrow> (None, s) | Some p \<Rightarrow> (Some p, opened p s))"
  by (induction ps) (auto simp: linuxtrack_try_library_def linuxtrack_log_def loads_def opened_def)

lemma find_append: "find P (xs @ ys) = (case find P xs of None \<Rightarrow> find P ys | Some x \<Rightarrow> Some x)"
  by (induction xs) auto

lemma prefix_known: "ld_log E \<Longrightarrow> \<exists>r. linuxtrack_get_prefix E = Some r"
  by (auto simp: linuxtrack_get_prefix_def linuxtrack_log_def split: option.split)

lemma find_library_first:
  assumes "ld_log E"
  shows "linuxtrack_find_library E s = Some (case find (loads E) (candidates E) of
    Some p \<Rightarrow> (Inr p, opened p s)
  | None \<Rightarrow> (Inl (if linuxtrack_get_prefix E = Some None then err_NO_CONFIG else err_NOT_FOUND), s))"
proof -
  obtain r where r: "linuxtrack_get_prefix E = Some r" using prefix_known [OF assms] by blast
  show ?thesis
    using r by (auto simp: linuxtrack_find_library_def candidates_def find_append try_all_find [OF assms] split: option.split)
qed

lemma load_functions_result:
  "ld_log E \<Longrightarrow> \<exists>s'. linuxtrack_load_functions E h fs s = Some (\<forall>(name, f, mandatory) \<in> set fs. mandatory \<longrightarrow> ld_symbol E h name, s')"
proof (induction fs arbitrary: s)
  case (Cons x fs)
  obtain name f m where x: "x = (name, f, m)" by (cases x)
  show ?case
  proof (cases "ld_symbol E h name")
    case True then show ?thesis using Cons by (simp add: x)
  next
    case False then show ?thesis using Cons by (cases m) (simp_all add: x linuxtrack_log_def)
  qed
qed simp

lemma load_functions_kept:
  "linuxtrack_load_functions E h fs s = Some (b, s') \<Longrightarrow>
     lib_handle s' = lib_handle s \<and> refs s' = refs s \<and> (funs s' g = funs s g \<or> funs s' g = Some h \<or> funs s' g = None)"
proof (induction E h fs s arbitrary: b s' rule: linuxtrack_load_functions.induct)
  case (2 E h name f m fs s)
  show ?case
  proof (cases "ld_symbol E h name")
    case True then show ?thesis using "2.IH"(1) [OF True] "2.prems" by (auto split: if_splits)
  next
    case False
    then show ?thesis using "2.IH"(2) [OF False _] "2.prems" by (auto simp: bind_eq_Some_conv split: if_splits)
  qed
qed simp

lemma load_functions_symbol:
  "linuxtrack_load_functions E h fs s = Some (True, s') \<Longrightarrow> distinct (map (fst \<circ> snd) fs) \<Longrightarrow>
     funs s' f = (if f \<in> fst ` snd ` set fs then (if \<exists>name m. (name, f, m) \<in> set fs \<and> ld_symbol E h name then Some h else None) else funs s f)"
proof (induction E h fs s arbitrary: s' rule: linuxtrack_load_functions.induct)
  case (2 E h name g m fs s)
  have d: "distinct (map (fst \<circ> snd) fs)" "g \<notin> fst ` snd ` set fs" using "2.prems"(2) by (auto simp: image_image comp_def)
  then have n: "(n, g, b) \<notin> set fs" for n b by (force simp: image_iff)
  show ?case
  proof (cases "ld_symbol E h name")
    case True
    then show ?thesis using "2.IH"(1) [OF True _ d(1)] "2.prems"(1) d(2) n by (cases "f = g") (auto split: if_splits)
  next
    case False
    then have "linuxtrack_load_functions E h fs (s\<lparr>funs := (funs s)(g := None)\<rparr>) = Some (True, s')"
      using "2.prems"(1) by (auto simp: bind_eq_Some_conv split: if_splits)
    then show ?thesis using "2.IH"(2) [OF False _ _ _ d(1)] "2.prems"(1) False d(2) n
      by (cases "f = g") (auto simp: bind_eq_Some_conv split: if_splits)
  qed
qed simp

lemma fun_table_names:
  "distinct (map (fst \<circ> snd) fun_table)" "fst ` snd ` set fun_table = UNIV" "(name, F_init, m) \<in> set fun_table \<longleftrightarrow> name = ''ltr_init'' \<and> m"
proof -
  show "fst ` snd ` set fun_table = UNIV"
  proof (rule UNIV_eq_I [symmetric])
    fix f show "f \<in> fst ` snd ` set fun_table" by (cases f) (simp_all add: fun_table_def)
  qed
qed (simp_all add: fun_table_def)

lemma complete_loaded:
  assumes "linuxtrack_load_functions E p fun_table s = Some (True, s')" "complete E p"
  shows "funs s' f = (if \<exists>name m. (name, f, m) \<in> set fun_table \<and> ld_symbol E p name then Some p else None)"
  using load_functions_symbol [OF assms(1) fun_table_names(1)] fun_table_names(2) by simp

lemma init_outcome:
  assumes "ld_log E"
  shows "\<exists>s'. linuxtrack_init E lib s = Some (init_result E lib, s')"
proof (cases "find (loads E) (candidates E)")
  case None
  then show ?thesis
    by (auto simp: linuxtrack_init_def linuxtrack_load_library_def find_library_first [OF assms] init_result_def linuxtrack_log_def assms)
next
  case (Some p)
  define s1 where "s1 = (opened p s)\<lparr>lib_handle := Some p\<rparr>"
  obtain s2 where l: "linuxtrack_load_functions E p fun_table s1 = Some (complete E p, s2)"
    using load_functions_result [OF assms, of p fun_table s1] by (auto simp: complete_def)
  have r: "refs s2 p > 0" using load_functions_kept [OF l] by (simp add: s1_def opened_def)
  have i: "complete E p \<Longrightarrow> funs s2 F_init = Some p"
    using l complete_loaded [of E p s1 s2 F_init] by (auto simp: complete_def fun_table_names(3)) (auto simp: fun_table_def)
  show ?thesis
    using Some l r i unfolding s1_def
    by (cases "complete E p") (simp_all add: linuxtrack_init_def linuxtrack_load_library_def find_library_first [OF assms] init_result_def
      linuxtrack_log_def assms via_def)
qed

text \<open>C36: The search for the library (\<open>linuxtrack.c\<close>). When its log can be opened, initialising answers what one search through all candidate places in their order
  gives, the places named by the environment before those below the configured prefix: the first one that exists and can be loaded is
  asked, or it is reported to be incomplete; without any, the missing configuration or the missing library is reported. (The comment in the code promises the plain name of the library
  as a third place; there is none.)\<close>

theorem init_asks_first_candidate:
  assumes "ld_log E"
  shows "\<exists>s'. linuxtrack_init E lib s = Some (init_result E lib, s')"
  using assms by (rule init_outcome)

text \<open>What an application can do with the interface, in any surroundings, with any answers of the library.\<close>

inductive ld_step :: "loader \<Rightarrow> loader \<Rightarrow> bool" where
  ld_init: "linuxtrack_init E lib s = Some (r, s') \<Longrightarrow> ld_step s s'"
| ld_shutdown: "linuxtrack_shutdown lib s = Some (r, s') \<Longrightarrow> ld_step s s'"

text \<open>The nine main functions of the interface.\<close>

definition core_funs :: "lt_fun set" where
  "core_funs = {F_init, F_shutdown, F_suspend, F_wakeup, F_recenter, F_get_pose, F_get_pose_full, F_get_tracking_state, F_explain}"

definition core_ok :: "loader \<Rightarrow> bool" where
  "core_ok s \<longleftrightarrow> (\<forall>f \<in> core_funs. \<forall>p. funs s f = Some p \<longrightarrow> 0 < refs s p)"

lemma try_all_refs: "try_all E ps s = Some (r, s') \<Longrightarrow> funs s' = funs s \<and> lib_handle s' = lib_handle s \<and> (\<forall>p. refs s p \<le> refs s' p) \<and> (\<forall>p. r = Some p \<longrightarrow> 0 < refs s' p)"
proof (induction ps arbitrary: s)
  case (Cons q ps)
  show ?case
  proof (cases "loads E q")
    case True then show ?thesis using Cons.prems by (auto simp: linuxtrack_try_library_def bind_eq_Some_conv loads_def)
  next
    case False then show ?thesis using Cons by (auto simp: linuxtrack_try_library_def bind_eq_Some_conv loads_def)
  qed
qed simp

lemma find_library_refs:
  assumes "linuxtrack_find_library E s = Some (r, s')"
  shows "funs s' = funs s \<and> (\<forall>p. refs s p \<le> refs s' p) \<and> (\<forall>p. r = Inr p \<longrightarrow> 0 < refs s' p)"
proof -
  obtain h s1 where 1: "(case ld_libs E of None \<Rightarrow> Some (None, s) | Some lp \<Rightarrow> try_all E (tokens_of lp) s) = Some (h, s1)"
    using assms by (auto simp: linuxtrack_find_library_def bind_eq_Some_conv)
  have k1: "funs s1 = funs s" "\<forall>p. refs s p \<le> refs s1 p" "\<forall>p. h = Some p \<longrightarrow> 0 < refs s1 p"
    using 1 try_all_refs by (auto split: option.splits)
  show ?thesis
  proof (cases h)
    case (Some p) then show ?thesis using assms 1 k1 by (auto simp: linuxtrack_find_library_def)
  next
    case None
    then obtain pr where p: "linuxtrack_get_prefix E = Some pr" using assms 1 by (auto simp: linuxtrack_find_library_def bind_eq_Some_conv)
    show ?thesis
    proof (cases pr)
      case (Some pre)
      then obtain h2 where "try_all E (map (construct_name pre ''/../'') lib_locations) s1 = Some (h2, s')" "\<forall>q. r = Inr q \<longrightarrow> h2 = Some q"
        using assms 1 None p by (auto simp: linuxtrack_find_library_def bind_eq_Some_conv split: option.splits)
      then show ?thesis using try_all_refs k1 by (metis order_trans)
    qed (use assms 1 None p k1 in \<open>auto simp: linuxtrack_find_library_def\<close>)
  qed
qed

lemma load_library_ok:
  assumes "core_ok s" "linuxtrack_load_library E s = Some (res, s')"
  shows "core_ok s'"
proof -
  obtain r s1 where f: "linuxtrack_find_library E s = Some (r, s1)" using assms(2) by (auto simp: linuxtrack_load_library_def bind_eq_Some_conv)
  note k = find_library_refs [OF f]
  have c1: "core_ok s1" using assms(1) k unfolding core_ok_def by (metis less_le_trans)
  show ?thesis
  proof (cases r)
    case (Inl e) then show ?thesis using assms(2) f c1 by (auto simp: linuxtrack_load_library_def bind_eq_Some_conv core_ok_def)
  next
    case (Inr h)
    then obtain b s2 where l: "linuxtrack_load_functions E h fun_table (s1\<lparr>lib_handle := Some h\<rparr>) = Some (b, s2)" "s' = s2"
      using assms(2) f by (auto simp: linuxtrack_load_library_def bind_eq_Some_conv split: if_splits)
    have "0 < refs s1 h" using k Inr by simp
    then show ?thesis using load_functions_kept [OF l(1)] c1 unfolding l(2) core_ok_def by auto (metis option.distinct(1) option.inject)
  qed
qed

lemma ld_step_ok: "ld_step s s' \<Longrightarrow> core_ok s \<Longrightarrow> core_ok s'"
proof (induction rule: ld_step.induct)
  case (ld_init E lib s r s')
  then show ?case using load_library_ok by (auto simp: linuxtrack_init_def bind_eq_Some_conv split: if_splits)
next
  case (ld_shutdown lib s r s')
  then show ?case by (auto simp: linuxtrack_shutdown_def bind_eq_Some_conv core_ok_def core_funs_def cleared_def split: option.splits)
qed

text \<open>C37: Nine functions are safe (\<open>linuxtrack.c\<close>): starting and shutting down, suspending, waking up, recentring, the two calls for the pose, the
  one for the state and the explanation. However often an application starts, with success or without and with different libraries, and shuts
  down, a call of one of them never goes into a library that is not loaded: each is refused, or answered by a library that is.\<close>

theorem core_calls_safe:
  assumes "ld_step\<^sup>*\<^sup>* loader_init s"
    "f \<in> {F_init, F_shutdown, F_suspend, F_wakeup, F_recenter, F_get_pose, F_get_pose_full, F_get_tracking_state, F_explain}"
  shows "via f own lib s = (case funs s f of None \<Rightarrow> Some own | Some p \<Rightarrow> Some (lib p)) \<and> (\<forall>p. funs s f = Some p \<longrightarrow> 0 < refs s p)"
proof -
  have "core_ok loader_init" by (simp add: core_ok_def loader_init_def)
  with assms(1) have "core_ok s" by (induction rule: rtranclp_induct) (auto intro: ld_step_ok)
  moreover have "f \<in> core_funs" using assms(2) by (simp add: core_funs_def)
  ultimately show ?thesis by (auto simp: via_def core_ok_def split: option.split)
qed

text \<open>The other six are not (\<open>linuxtrack.c\<close>). After an application has initialised and shut down, the pose is refused as it
  should be, but a call for the absolute pose, a picture, the notification or waiting goes into the library that has been closed.\<close>

theorem shutdown_leaves_pointers:
  assumes "ld_log E" "find (loads E) (candidates E) = Some p" "\<forall>(name, f, m) \<in> set fun_table. ld_symbol E p name"
  shows "\<exists>s1 s2. linuxtrack_init E lib loader_init = Some (lib p, s1) \<and> linuxtrack_shutdown lib2 s1 = Some (lib2 p, s2) \<and>
    linuxtrack_get_pose lp s2 = Some (0, zero_out) \<and> linuxtrack_get_abs_pose lp s2 = None \<and> linuxtrack_get_frame fr lf s2 = None \<and>
    linuxtrack_wait lw s2 = None"
proof -
  define s1 where "s1 = (opened p loader_init)\<lparr>lib_handle := Some p\<rparr>"
  have c: "complete E p" using assms(3) by (auto simp: complete_def)
  obtain s2 where l: "linuxtrack_load_functions E p fun_table s1 = Some (True, s2)"
    using load_functions_result [OF assms(1), of p fun_table s1] c by (auto simp: complete_def)
  have f: "funs s2 f = Some p" for f
    using complete_loaded [OF l c, of f] fun_table_names(2) assms(3) by (force simp: image_iff)
  have k: "lib_handle s2 = Some p" "refs s2 = (\<lambda>_. 0)(p := 1)"
    using load_functions_kept [OF l] by (auto simp: s1_def opened_def loader_init_def)
  have i: "linuxtrack_init E lib loader_init = Some (lib p, s2)"
    using l f k assms(2) unfolding s1_def
    by (simp add: linuxtrack_init_def linuxtrack_load_library_def find_library_first [OF assms(1)] via_def)
  have "linuxtrack_shutdown lib2 s2 = Some (lib2 p, s2\<lparr>lib_handle := None, funs := (\<lambda>f. if f \<in> cleared then None else Some p), refs := (refs s2)(p := 0)\<rparr>)"
    using f k by (simp add: linuxtrack_shutdown_def via_def fun_eq_iff)
  then show ?thesis using i
    by (auto simp: linuxtrack_get_pose_def linuxtrack_get_abs_pose_def linuxtrack_get_frame_def linuxtrack_wait_def via_def cleared_def)
qed

subsection \<open>The prefix in the preference file\<close>

lemma lines_of_concat:
  assumes "\<forall>l \<in> set ls. \<exists>b. l = b @ [CHR 0x0A] \<and> list_all not_nl b \<and> length b < 4094"
  shows "lines_of (concat ls) = ls"
  using assms
proof (induction ls)
  case Nil then show ?case by (simp add: lines_of.simps)
next
  case (Cons l ls)
  obtain b where b: "l = b @ [CHR 0x0A]" "list_all not_nl b" "length b < 4094" using Cons.prems by auto
  have "one_line (concat (l # ls)) = l"
    using b takeWhile_upto [OF b(2), of "CHR 0x0A" "concat ls"] dropWhile_upto [OF b(2), of "CHR 0x0A" "concat ls"]
    by (simp add: one_line_def not_nl_def)
  moreover have "concat (l # ls) \<noteq> []" using b by simp
  ultimately show ?case using Cons by (subst lines_of.simps) simp
qed

text \<open>The lines of a printed store, and its settings in their order.\<close>

fun item_lines :: "pref_item \<Rightarrow> string list" where
  "item_lines (PSection s) = (CHR ''['' # sec_name s @ CHR '']'' # [CHR 0x0A]) # map print_sec_item (sec_items s) @ [[CHR 0x0A], [CHR 0x0A]]"
| "item_lines (PComment c) = [''###'' @ c @ [CHR 0x0A], [CHR 0x0A]]"

definition print_lines :: "prefs \<Rightarrow> string list" where
  "print_lines p = concat (map item_lines (p_items p)) @ [[CHR 0x0A]]"

lemma print_prefs_lines: "print_prefs p = concat (print_lines p)"
proof -
  have "print_item i @ [CHR 0x0A] = concat (item_lines i)" for i by (cases i) (simp_all add: print_section_def)
  then have "concat (map (\<lambda>i. print_item i @ [CHR 0x0A]) is) = concat (concat (map item_lines is))" for "is" by (induction "is") simp_all
  then show ?thesis by (simp add: print_prefs_def print_lines_def)
qed

fun keyvals :: "section_item list \<Rightarrow> (string \<times> string) list" where
  "keyvals [] = []"
| "keyvals (KeyVal k v # is) = (k, v) # keyvals is"
| "keyvals (SecComment c # is) = keyvals is"

fun all_settings :: "pref_item list \<Rightarrow> (string \<times> string) list" where
  "all_settings [] = []"
| "all_settings (PSection s # is) = keyvals (sec_items s) @ all_settings is"
| "all_settings (PComment c # is) = all_settings is"

text \<open>The value of the first setting of the prefix, if that is how the file goes on.\<close>

fun first_prefix :: "(string \<times> string) list \<Rightarrow> string option" where
  "first_prefix [] = None"
| "first_prefix ((k, v) # kvs) = (if strcaseeq k ''prefix'' then Some v else first_prefix kvs)"

lemma scan_other:
  assumes "scan_setting (c # l) = Some (key, val)" "\<not> is_space c" "c \<noteq> CHR ''p''" "c \<noteq> CHR ''P''"
  shows "\<not> strcaseeq key ''prefix''"
proof -
  have k: "key = takeWhile (\<lambda>c. \<not> is_space c) (dropWhile is_space (takeWhile (\<lambda>c. c \<noteq> CHR 0x00) (c # l)))" "key \<noteq> []"
    using assms(1) by (auto simp: scan_setting_def Let_def bind_eq_Some_conv split: if_splits)
  then have "c \<noteq> CHR 0x00" "hd key = c" using assms(2) by (auto split: if_splits)
  moreover have "lower_char c = CHR ''p'' \<Longrightarrow> c = CHR ''p'' \<or> c = CHR ''P''"
  proof -
    assume l: "lower_char c = CHR ''p''"
    show ?thesis
    proof (cases "65 \<le> (of_char c :: nat) \<and> (of_char c :: nat) \<le> 90")
      case True
      then have "char_of ((of_char c :: nat) + 32) = CHR ''p''" using l by (simp add: lower_char_def Let_def)
      then have "(of_char (char_of ((of_char c :: nat) + 32)) :: nat) = of_char (CHR ''p'')" by simp
      then have "(of_char c :: nat) = 80" using True by (simp add: of_char_of)
      then have "c = char_of (80 :: nat)" using char_of_char [of c] by metis
      then show ?thesis by (simp add: char_of_eq_iff)
    qed (use l in \<open>auto simp: lower_char_def Let_def split: if_splits\<close>)
  qed
  ultimately show ?thesis using assms(3,4) k(2) by (cases key) (auto simp: strcaseeq_def lower_char_def [of "CHR ''p''"])
qed

definition quoted :: "string \<Rightarrow> string" where
  "quoted x = CHR 0x22 # x @ [CHR 0x22]"

definition plain :: "string \<Rightarrow> bool" where
  "plain x \<longleftrightarrow> x \<noteq> [] \<and> list_all (\<lambda>c. c \<noteq> CHR 0x22 \<and> not_nl c \<and> c \<noteq> CHR 0x00) x"

lemma key_char_not_space: "is_key_char c \<Longrightarrow> \<not> is_space c \<and> c \<noteq> CHR 0x00 \<and> c \<noteq> CHR '' ''"
  by (auto simp: is_key_char_def is_digit_def is_space_def)

lemma scan_key:
  assumes "key_ok k" "scan_setting (k @ '' = '' @ v) = Some (key, val)"
  shows "key = k"
proof -
  have k: "list_all (\<lambda>c. \<not> is_space c) k" "list_all (\<lambda>c. c \<noteq> CHR 0x00) k" "k \<noteq> []"
    using assms(1) key_char_not_space by (auto simp: key_ok_def list_all_iff)
  have t: "takeWhile (\<lambda>c. c \<noteq> CHR 0x00) (k @ '' = '' @ v) = k @ CHR '' '' # takeWhile (\<lambda>c. c \<noteq> CHR 0x00) (''= '' @ v)"
    using k(2) by (simp add: takeWhile_append2 list_all_iff)
  have d: "dropWhile is_space (k @ CHR '' '' # w) = k @ CHR '' '' # w" for w using k by (cases k) auto
  have "takeWhile (\<lambda>c. \<not> is_space c) (k @ CHR '' '' # w) = k" for w using takeWhile_upto [OF k(1), of "CHR '' ''"] by (simp add: is_space_def)
  then show ?thesis using assms(2) unfolding scan_setting_def t by (auto simp: d Let_def bind_eq_Some_conv split: if_splits)
qed

lemma scan_quoted:
  assumes "key_ok k" "plain x"
  shows "scan_setting (k @ '' = '' @ quoted x @ [CHR 0x0A]) = Some (k, x)"
proof -
  have k: "list_all (\<lambda>c. \<not> is_space c) k" "list_all (\<lambda>c. c \<noteq> CHR 0x00) k" "k \<noteq> []"
    using assms(1) key_char_not_space by (auto simp: key_ok_def list_all_iff)
  have t: "takeWhile (\<lambda>c. c \<noteq> CHR 0x00) (k @ '' = '' @ quoted x @ [CHR 0x0A]) = k @ CHR '' '' # ''= '' @ quoted x @ [CHR 0x0A]"
    using k(2) assms(2) by (simp add: takeWhile_append2 list_all_iff quoted_def plain_def)
  have d: "dropWhile is_space (k @ CHR '' '' # w) = k @ CHR '' '' # w" for w using k by (cases k) auto
  have w: "takeWhile (\<lambda>c. \<not> is_space c) (k @ CHR '' '' # w) = k" "dropWhile (\<lambda>c. \<not> is_space c) (k @ CHR '' '' # w) = CHR '' '' # w" for w
    using takeWhile_upto [OF k(1), of "CHR '' ''"] dropWhile_upto [OF k(1), of "CHR '' ''"] by (simp_all add: is_space_def)
  have x: "takeWhile (\<lambda>c. c \<noteq> CHR 0x22 \<and> not_nl c) (x @ [CHR 0x22, CHR 0x0A]) = x"
    using assms(2) takeWhile_upto [of "\<lambda>c. c \<noteq> CHR 0x22 \<and> not_nl c" x "CHR 0x22"] by (simp add: plain_def list_all_iff)
  show ?thesis unfolding scan_setting_def t d Let_def w
    using k(3) assms(2) x by (simp add: is_space_def scan_char_def quoted_def plain_def)
qed

lemma scan_mark: "scan_setting (''###'' @ l) = Some (key, val) \<Longrightarrow> \<not> strcaseeq key ''prefix''"
  "scan_setting (CHR ''['' # l) = Some (key, val) \<Longrightarrow> \<not> strcaseeq key ''prefix''"
  using scan_other [of "CHR ''#''" "''##'' @ l"] scan_other [of "CHR ''[''" l] by (auto simp: is_space_def)

lemma scan_empty: "scan_setting [CHR 0x0A] = None"
  by (simp add: scan_setting_def scan_char_def is_space_def)

declare find_prefix.simps(2) [simp del]

lemma find_prefix_skip: "(\<And>key val. scan_setting l = Some (key, val) \<Longrightarrow> \<not> strcaseeq key ''prefix'') \<Longrightarrow> find_prefix (l # ls) = find_prefix ls"
  by (auto simp: find_prefix.simps split: option.split)

lemma find_sec_items:
  assumes "plain x" "first_prefix rest = Some (quoted x) \<Longrightarrow> find_prefix ms = Some x"
  shows "list_all sec_item_ok is \<Longrightarrow> first_prefix (keyvals is @ rest) = Some (quoted x) \<Longrightarrow> find_prefix (map print_sec_item is @ ms) = Some x"
proof (induction "is")
  case Nil then show ?case using assms(2) by simp
next
  case (Cons i "is")
  show ?case
  proof (cases i)
    case (SecComment c)
    have "find_prefix ((''###'' @ c @ [CHR 0x0A]) # map print_sec_item is @ ms) = find_prefix (map print_sec_item is @ ms)"
      by (rule find_prefix_skip) (rule scan_mark(1))
    then show ?thesis using Cons SecComment by simp
  next
    case (KeyVal k v)
    have k: "key_ok k" using Cons.prems(1) KeyVal by simp
    show ?thesis
    proof (cases "strcaseeq k ''prefix''")
      case True
      then have "v = quoted x" using Cons.prems(2) KeyVal by simp
      then show ?thesis using scan_quoted [OF k assms(1)] True KeyVal by (simp add: find_prefix.simps)
    next
      case False
      have "find_prefix ((k @ '' = '' @ v @ [CHR 0x0A]) # map print_sec_item is @ ms) = find_prefix (map print_sec_item is @ ms)"
        by (rule find_prefix_skip) (use False scan_key [OF k] in blast)
      then show ?thesis using Cons KeyVal False by simp
    qed
  qed
qed

lemma find_prefix_newline [simp]: "find_prefix ([CHR 0x0A] # ls) = find_prefix ls"
  by (simp add: scan_empty find_prefix.simps)

lemma find_items:
  assumes "plain x"
  shows "list_all printable_item is \<Longrightarrow> first_prefix (all_settings is) = Some (quoted x) \<Longrightarrow> find_prefix (concat (map item_lines is) @ ms) = Some x"
proof (induction "is")
  case (Cons i "is")
  show ?case
  proof (cases i)
    case (PComment c)
    have "find_prefix ((''###'' @ c @ [CHR 0x0A]) # ls) = find_prefix ls" for ls by (rule find_prefix_skip) (rule scan_mark(1))
    then show ?thesis using Cons PComment by simp
  next
    case (PSection s)
    have h: "find_prefix ((CHR ''['' # l) # ls) = find_prefix ls" for l ls by (rule find_prefix_skip) (rule scan_mark(2))
    have "find_prefix (map print_sec_item (sec_items s) @ [CHR 0x0A] # [CHR 0x0A] # concat (map item_lines is) @ ms) = Some x"
      using Cons PSection by (intro find_sec_items [OF assms, of "all_settings is"]) (simp_all add: printable_def)
    then show ?thesis using PSection h by simp
  qed
qed simp

lemma key_ok_no_nl: "key_ok k \<Longrightarrow> list_all not_nl k"
  using key_char_not_space by (fastforce simp: key_ok_def list_all_iff not_nl_def is_space_def)

lemma sec_item_line: "sec_item_ok i \<Longrightarrow> \<exists>b. print_sec_item i = b @ [CHR 0x0A] \<and> list_all not_nl b"
  using key_ok_no_nl by (cases i) (auto simp: value_ok_def not_nl_def)

lemma item_line:
  assumes "printable_item i" "l \<in> set (item_lines i)"
  shows "\<exists>b. l = b @ [CHR 0x0A] \<and> list_all not_nl b"
proof (cases i)
  case (PComment c)
  then have "l = (''###'' @ c) @ [CHR 0x0A] \<or> l = [] @ [CHR 0x0A]" "list_all not_nl (''###'' @ c)" using assms by (auto simp: not_nl_def)
  then show ?thesis by (metis list.pred_inject(1))
next
  case (PSection s)
  then have p: "name_ok (sec_name s)" "\<forall>i \<in> set (sec_items s). sec_item_ok i" using assms(1) by (auto simp: printable_def list_all_iff)
  from assms(2) PSection consider "l = (CHR ''['' # sec_name s @ [CHR '']'']) @ [CHR 0x0A]" | "l = [] @ [CHR 0x0A]"
    | i' where "i' \<in> set (sec_items s)" "l = print_sec_item i'" by auto
  then show ?thesis
  proof cases
    case 1
    have "list_all not_nl (CHR ''['' # sec_name s @ [CHR '']''])" using p(1) by (auto simp: name_ok_def list_all_iff in_secname_def not_nl_def)
    with 1 show ?thesis by blast
  next
    case 2 then show ?thesis by (metis list.pred_inject(1))
  next
    case 3 then show ?thesis using p(2) sec_item_line by blast
  qed
qed

text \<open>C38: The configured prefix is found (\<open>pref.cpp\<close>, \<open>linuxtrack.c\<close>): when the file is what the preference store prints, the loader, which reads
  it with a parser of its own, finds the value of the first setting with the name of the prefix, in any section and in any case of
  its letters, provided it is written in quotes and no line is longer than the buffer.\<close>

theorem prefix_found:
  assumes "list_all printable_item (p_items p)" "\<forall>l \<in> set (print_lines p). length l \<le> 4094"
    "first_prefix (all_settings (p_items p)) = Some (quoted x)" "plain x"
    "ld_home E = Some hdir" "ld_file E (hdir @ ''/.config/linuxtrack/linuxtrack1.conf'') = Some (print_prefs p)"
  shows "linuxtrack_get_prefix E = Some (Some x)"
proof -
  have "\<exists>b. l = b @ [CHR 0x0A] \<and> list_all not_nl b \<and> length b < 4094" if l: "l \<in> set (print_lines p)" for l
  proof -
    have "l = [] @ [CHR 0x0A] \<or> (\<exists>i \<in> set (p_items p). l \<in> set (item_lines i))" using l by (auto simp: print_lines_def)
    then obtain b where "l = b @ [CHR 0x0A]" "list_all not_nl b" using assms(1) item_line by (metis list_all_iff list.pred_inject(1))
    then show ?thesis using assms(2) l by fastforce
  qed
  then have "lines_of (print_prefs p) = print_lines p" unfolding print_prefs_lines by (intro lines_of_concat) blast
  moreover have "find_prefix (print_lines p) = Some x" unfolding print_lines_def by (rule find_items [OF assms(4,1,3)])
  ultimately show ?thesis using assms(5,6) by (simp add: linuxtrack_get_prefix_def construct_name_def)
qed

subsection \<open>Examples\<close>

definition demo_ld :: ld_env where
  "demo_ld = \<lparr>ld_home = Some ''/h'', ld_libs = Some '':/a:/b'', ld_file = (\<lambda>_. None), ld_access = (\<lambda>_. True), ld_opens = (\<lambda>p. p = ''/b''),
     ld_symbol = (\<lambda>_ _. True), ld_log = True\<rparr>"

lemma demo_ld_first: "find (loads demo_ld) (candidates demo_ld) = Some ''/b''"
  by (simp add: candidates_def demo_ld_def tokens_of.simps loads_def)

theorem init_asks_first_candidate_witness:
  "\<exists>s'. linuxtrack_init demo_ld (\<lambda>p. if p = ''/b'' then 1 else 0) loader_init = Some (1, s')"
  using init_asks_first_candidate [of demo_ld "\<lambda>p. if p = ''/b'' then 1 else 0" loader_init] demo_ld_first
  by (simp add: init_result_def complete_def demo_ld_def)

theorem core_calls_safe_witness:
  "\<exists>s. linuxtrack_init demo_ld (\<lambda>_. 0) loader_init = Some (0, s) \<and> via F_get_pose (0 :: int) (\<lambda>_. 1) s \<noteq> None"
proof -
  obtain s where s: "linuxtrack_init demo_ld (\<lambda>_. 0) loader_init = Some (0, s)"
    using init_outcome [of demo_ld "\<lambda>_. 0" loader_init] demo_ld_first by (auto simp: init_result_def complete_def demo_ld_def)
  then have "ld_step\<^sup>*\<^sup>* loader_init s" by (blast intro: ld_step.intros)
  then show ?thesis using core_calls_safe [of s F_get_pose "0 :: int" "\<lambda>_. 1"] s by (auto split: option.splits)
qed

theorem shutdown_leaves_pointers_witness:
  "\<exists>s1 s2. linuxtrack_init demo_ld (\<lambda>_. 0) loader_init = Some (0, s1) \<and> linuxtrack_shutdown (\<lambda>_. 0) s1 = Some (0, s2) \<and>
     linuxtrack_wait (\<lambda>_. 1) s2 = None"
  using shutdown_leaves_pointers [OF _ demo_ld_first, of "\<lambda>_. 0" "\<lambda>_. 0" "\<lambda>_. (0, zero_out)" "()" "\<lambda>_. (0, ())" "\<lambda>_. 1"]
  by (auto simp: demo_ld_def)

definition demo_pf :: prefs where
  "demo_pf = \<lparr>p_items = [PSection \<lparr>sec_name = ''Global'', sec_items = [KeyVal ''Input'' ''Cam'', KeyVal ''Prefix'' (quoted ''/usr'')], sec_index = []\<rparr>],
     p_index = [], changed_flag = False\<rparr>"

lemma lower_P: "char_of (112 :: nat) = CHR ''p''"
  by (simp add: char_of_eq_iff)

theorem prefix_found_witness:
  "linuxtrack_get_prefix (demo_ld\<lparr>ld_file := (\<lambda>f. if f = ''/h/.config/linuxtrack/linuxtrack1.conf'' then Some (print_prefs demo_pf) else None)\<rparr>) = Some (Some ''/usr'')"
  by (rule prefix_found [where p = demo_pf and hdir = "''/h''"])
    (simp_all add: demo_pf_def demo_ld_def printable_def name_ok_def key_ok_def value_ok_def in_secname_def not_nl_def is_key_char_def is_digit_def is_blank_def
      quoted_def plain_def print_lines_def strcaseeq_def lower_char_def lower_P)

end
