(* ===== verification/GameData.thy ===== *)
theory GameData
  imports CText Frames "HOL-Library.Multiset"
begin

text \<open>
  The list of the games: \<open>src/game_data.c\<close> decrypts the file of the vendor and writes a text file, and
  \<open>src/wine_bridge/client/rest.c\<close> looks a game up in it. The XML library is the parameter \<open>xml\<close>: the elements of the document, with
  the attributes and the text the code asks for, of which each may be missing; printing a missing one has no result. The file that is
  written is opened, and so emptied, before anything is read.
\<close>

subsection \<open>The cipher\<close>

record rc4_state =
  rc_S :: bytes
  rc_i :: u8
  rc_j :: u8

definition secret_key :: bytes where
  "secret_key = [0x0e, 0x9a, 0x63, 0x71, 0x05, 0, 0, 0, 0, 0, 0, 0, 0, 0, 0, 0]"

definition swap_S :: "bytes \<Rightarrow> nat \<Rightarrow> nat \<Rightarrow> bytes" where
  "swap_S S i j = S[i := S ! j, j := S ! i]"

definition ksa_step :: "bytes \<Rightarrow> nat \<Rightarrow> bytes \<times> nat \<Rightarrow> nat \<Rightarrow> bytes \<times> nat" where
  "ksa_step key len Sj i = (case Sj of (S, j) \<Rightarrow>
     let j = (j + unat (S ! i) + unat (key ! (i mod len))) mod 256 in (swap_S S i j, j))"

definition ksa :: "bytes \<Rightarrow> nat \<Rightarrow> rc4_state" where
  "ksa key len = \<lparr>rc_S = fst (foldl (ksa_step key len) (map of_nat [0..<256], 0) [0..<256]), rc_i = 0, rc_j = 0\<rparr>"

definition rc4 :: "rc4_state \<Rightarrow> u8 \<times> rc4_state" where
  "rc4 c = (let i = rc_i c + 1;
                j = rc_j c + rc_S c ! unat i;
                S = swap_S (rc_S c) (unat i) (unat j)
            in (S ! ((unat (S ! unat i) + unat (S ! unat j)) mod 256), \<lparr>rc_S = S, rc_i = i, rc_j = j\<rparr>))"

fun rc4_xor :: "bytes \<Rightarrow> rc4_state \<Rightarrow> bytes" where
  "rc4_xor [] c = []"
| "rc4_xor (b # bs) c = (case rc4 c of (k, c) \<Rightarrow> (b XOR k) # rc4_xor bs c)"

text \<open>The file, if it can be opened; \<open>alloc\<close> says which sizes \<open>malloc\<close> grants.\<close>

definition decrypt_file :: "(nat \<Rightarrow> bool) \<Rightarrow> bytes option \<Rightarrow> bool \<Rightarrow> bytes option" where
  "decrypt_file alloc inp from_update = do {
     bs \<leftarrow> inp;
     (datlen, bs) \<leftarrow> (if from_update
        then if length bs < 20 then None else Some (unat (le32 (take 4 (drop 16 bs))), drop 20 bs)
        else Some (length bs, bs));
     if \<not> alloc (datlen + 1) then None
     else Some (rc4_xor (take datlen bs @ replicate (datlen - length bs) 0) (ksa secret_key 16)) }"

subsection \<open>The text file\<close>

record game =
  g_name :: "string option"
  g_id :: "string option"
  g_app :: "string option option"

definition nl :: string where "nl = [CHR 0x0A]"
definition quote :: string where "quote = [CHR 0x22]"

definition game_line :: "game \<Rightarrow> string option" where
  "game_line g = do {
     gid \<leftarrow> g_id g;
     name \<leftarrow> g_name g;
     (case g_app g of
        None \<Rightarrow> Some (gid @ '' '' @ quote @ name @ quote @ nl)
      | Some app \<Rightarrow> do { t \<leftarrow> app; Some (gid @ '' '' @ quote @ name @ quote @ '' ('' @ t @ '')'' @ nl) }) }"

fun game_lines :: "game list \<Rightarrow> string option" where
  "game_lines [] = Some []"
| "game_lines (g # gs) = do { l \<leftarrow> game_line g; ls \<leftarrow> game_lines gs; Some (l @ ls) }"

text \<open>The result, and the output file when it could be opened. The parser gets the text up to its first zero.\<close>

definition get_game_data ::
  "(string \<Rightarrow> game list option) \<Rightarrow> (nat \<Rightarrow> bool) \<Rightarrow> bool \<Rightarrow> bytes option \<Rightarrow> bool \<Rightarrow> (bool \<times> string option) option" where
  "get_game_data xml alloc can_write inp from_update =
     (if \<not> can_write then Some (False, None)
      else case decrypt_file alloc inp from_update of
        None \<Rightarrow> Some (False, Some [])
      | Some decoded \<Rightarrow> (case xml (map (\<lambda>b. char_of (unat b)) (takeWhile (\<lambda>b. b \<noteq> 0) decoded)) of
          None \<Rightarrow> Some (False, Some [])
        | Some gs \<Rightarrow> map_option (\<lambda>t. (True, Some t)) (game_lines gs)))"

subsection \<open>Looking a game up\<close>

record game_desc =
  gd_name :: "string option"
  gd_encrypted :: bool
  gd_key1 :: u32
  gd_key2 :: u32

definition is_hex :: "char \<Rightarrow> bool" where
  "is_hex c \<longleftrightarrow> is_digit c \<or> 65 \<le> (of_char c :: nat) \<and> (of_char c :: nat) \<le> 70 \<or> 97 \<le> (of_char c :: nat) \<and> (of_char c :: nat) \<le> 102"

definition hex_val :: "char \<Rightarrow> nat" where
  "hex_val c = (let n = of_char c in if n \<le> 57 then n - 48 else if n \<le> 70 then n - 55 else n - 87)"

definition hex_num :: "string \<Rightarrow> nat" where
  "hex_num ds = foldl (\<lambda>n c. 16 * n + hex_val c) 0 ds"

text \<open>\<open>%08x\<close>: at most eight characters, among them a sign and the mark of a hexadecimal number.\<close>

definition scan_hex8 :: "string \<Rightarrow> (u32 \<times> string) option" where
  "scan_hex8 s = (let s = dropWhile is_space s;
       (neg, w) = read_sign (take 8 s);
       w = (case w of z # x # r \<Rightarrow> if z = CHR ''0'' \<and> (x = CHR ''x'' \<or> x = CHR ''X'') then r else w | _ \<Rightarrow> w);
       ds = takeWhile is_hex w
     in if ds = [] then None
        else Some (if neg then - of_nat (hex_num ds) else of_nat (hex_num ds), drop (length (take 8 s) - length w + length ds) s))"

text \<open>\<open>sscanf\<close> of a line: the number, the name when there is one, and the keys: both, none (no bracket, or no key behind it), or
  one only, in which case the line is not used.\<close>

datatype game_keys = NoKeys | OneKey | TwoKeys u32 u32

definition scan_game :: "string \<Rightarrow> (int \<times> string \<times> game_keys) option" where
  "scan_game l = do {
     (i, s) \<leftarrow> scan_int l;
     s \<leftarrow> scan_char (CHR 0x22) (dropWhile is_space s);
     let name = takeWhile (\<lambda>c. c \<noteq> CHR 0x22) s;
     let s = dropWhile (\<lambda>c. c \<noteq> CHR 0x22) s;
     if name = [] then None
     else Some (i, name,
       case Option.bind (scan_char (CHR 0x22) s) (\<lambda>s. Option.bind (scan_char (CHR ''('') (dropWhile is_space s)) scan_hex8) of
         None \<Rightarrow> NoKeys
       | Some (k1, s) \<Rightarrow> (case scan_hex8 s of None \<Rightarrow> OneKey | Some (k2, _) \<Rightarrow> TwoKeys k1 k2)) }"

definition line_of :: "string \<Rightarrow> string" where
  "line_of s = takeWhile (\<lambda>c. c \<noteq> CHR 0x0A) s @ take 1 (dropWhile (\<lambda>c. c \<noteq> CHR 0x0A) s)"

lemma line_of_shorter: "s \<noteq> [] \<Longrightarrow> 0 < length (line_of s)"
  by (cases s) (auto simp: line_of_def)

function look_up :: "int \<Rightarrow> string \<Rightarrow> game_desc option" where
  "look_up n s = (if s = [] then None
     else case scan_game (takeWhile (\<lambda>c. c \<noteq> CHR 0x00) (line_of s)) of
       Some (i, name, NoKeys) \<Rightarrow>
         if i = n then Some \<lparr>gd_name = Some name, gd_encrypted = False, gd_key1 = 0, gd_key2 = 0\<rparr> else look_up n (drop (length (line_of s)) s)
     | Some (i, name, TwoKeys k1 k2) \<Rightarrow>
         if i = n then Some \<lparr>gd_name = Some name, gd_encrypted = True, gd_key1 = k1, gd_key2 = k2\<rparr> else look_up n (drop (length (line_of s)) s)
     | _ \<Rightarrow> look_up n (drop (length (line_of s)) s))"
  by pat_completeness auto
termination
  by (relation "measure (\<lambda>(n, s). length s)") (use line_of_shorter in \<open>auto simp: less_diff_conv2 intro!: diff_less\<close>)

declare look_up.simps [simp del]

text \<open>The home directory, and the file \<open>gamedata.txt\<close> when it can be opened.\<close>

definition game_data_get_desc :: "string option \<Rightarrow> string option \<Rightarrow> int \<Rightarrow> game_desc \<Rightarrow> (bool \<times> game_desc) option" where
  "game_data_get_desc home file n gd = (case home of
     None \<Rightarrow> None
   | Some _ \<Rightarrow> Some (case file of
       None \<Rightarrow> (False, gd)
     | Some s \<Rightarrow> (case look_up n s of None \<Rightarrow> (False, gd\<lparr>gd_name := None\<rparr>) | Some d \<Rightarrow> (True, d))))"

subsection \<open>The cipher is its own inverse\<close>

lemma rc4_xor_length [simp]: "length (rc4_xor bs c) = length bs"
  by (induction bs c rule: rc4_xor.induct) (simp_all split: prod.split)

lemma rc4_xor_twice [simp]: "rc4_xor (rc4_xor bs c) c = bs"
  by (induction bs c rule: rc4_xor.induct) (simp_all add: xor.assoc split: prod.split)

definition permutation :: "bytes \<Rightarrow> bool" where
  "permutation S \<longleftrightarrow> length S = 256 \<and> mset S = mset (map of_nat [0..<256])"

lemma swap_permutation: "permutation S \<Longrightarrow> i < 256 \<Longrightarrow> j < 256 \<Longrightarrow> permutation (swap_S S i j)"
  by (simp add: permutation_def swap_S_def mset_swap)

lemma ksa_permutation: "permutation (rc_S (ksa key len))"
proof -
  have "permutation (fst (foldl (ksa_step key len) (S, j) is))" if "permutation S" "\<forall>i \<in> set is. i < 256" for "is" S j
    using that by (induction "is" arbitrary: S j) (auto simp: ksa_step_def Let_def swap_permutation)
  moreover have "permutation (map of_nat [0..<256])" by (simp add: permutation_def)
  ultimately show ?thesis by (simp add: ksa_def)
qed

lemma rc4_permutation: "permutation (rc_S c) \<Longrightarrow> permutation (rc_S (snd (rc4 c)))"
  using unat_u8_less by (simp add: rc4_def Let_def swap_permutation)

text \<open>The state after a number of bytes.\<close>

fun rc4_after :: "nat \<Rightarrow> rc4_state \<Rightarrow> rc4_state" where
  "rc4_after 0 c = c"
| "rc4_after (Suc n) c = rc4_after n (snd (rc4 c))"

text \<open>The cipher of the game data (\<open>game_data.c\<close>). Decrypting a file that was encrypted with the same key stream gives the plain text
  back, for a file of the program's own and for one of an update, with its header of twenty bytes; and the table of the cipher is
  a permutation of all bytes before and after any number of bytes.\<close>

theorem decrypts_what_was_encrypted:
  assumes "alloc (length plain + 1)" "length head = 16" "length plain < 2 ^ 32"
  shows "decrypt_file alloc (Some (rc4_xor plain (ksa secret_key 16))) False = Some plain \<and>
    decrypt_file alloc (Some (head @ to_le32 (of_nat (length plain)) @ rc4_xor plain (ksa secret_key 16))) True = Some plain \<and>
    permutation (rc_S (rc4_after n (ksa secret_key 16)))"
proof (intro conjI)
  show "decrypt_file alloc (Some (rc4_xor plain (ksa secret_key 16))) False = Some plain"
    using assms by (simp add: decrypt_file_def)
  have "unat (of_nat (length plain) :: u32) = length plain" using assms(3) by (simp add: unsigned_of_nat take_bit_nat_eq_self)
  then show "decrypt_file alloc (Some (head @ to_le32 (of_nat (length plain)) @ rc4_xor plain (ksa secret_key 16))) True = Some plain"
    using assms by (simp add: decrypt_file_def)
  have "permutation (rc_S (rc4_after n c))" if "permutation (rc_S c)" for c
    using that by (induction n arbitrary: c) (simp_all add: rc4_permutation)
  then show "permutation (rc_S (rc4_after n (ksa secret_key 16)))" using ksa_permutation by blast
qed

subsection \<open>What is written is found\<close>

text \<open>A game as the vendor's list has it: a number, a name without quotes, and the sixteen digits of its keys when it has any.\<close>

definition game_ok :: "nat \<Rightarrow> string \<Rightarrow> string option \<Rightarrow> bool" where
  "game_ok i name keys \<longleftrightarrow> i < 2 ^ 31 \<and> name \<noteq> [] \<and> list_all (\<lambda>c. c \<noteq> CHR 0x22 \<and> c \<noteq> CHR 0x0A \<and> c \<noteq> CHR 0x00) name \<and>
     (\<forall>ks. keys = Some ks \<longrightarrow> length ks = 16 \<and> list_all is_hex ks)"

type_synonym entry = "nat \<times> string \<times> string option"

fun entry_game :: "entry \<Rightarrow> game" where
  "entry_game (i, name, keys) = \<lparr>g_name = Some name, g_id = Some (show_nat i), g_app = map_option Some keys\<rparr>"

fun entry_desc :: "entry \<Rightarrow> game_desc" where
  "entry_desc (i, name, None) = \<lparr>gd_name = Some name, gd_encrypted = False, gd_key1 = 0, gd_key2 = 0\<rparr>"
| "entry_desc (i, name, Some ks) =
     \<lparr>gd_name = Some name, gd_encrypted = True, gd_key1 = of_nat (hex_num (take 8 ks)), gd_key2 = of_nat (hex_num (drop 8 ks))\<rparr>"

fun entry_ok :: "entry \<Rightarrow> bool" where
  "entry_ok (i, name, keys) = game_ok i name keys"

lemma hex_plain: "is_hex c \<Longrightarrow> \<not> is_space c \<and> c \<noteq> CHR ''-'' \<and> c \<noteq> CHR ''+'' \<and> c \<noteq> CHR ''x'' \<and> c \<noteq> CHR ''X'' \<and> c \<noteq> CHR 0x0A \<and> c \<noteq> CHR 0x00"
  by (auto simp: is_hex_def is_digit_def is_space_def)

lemma scan_hex8_digits:
  assumes "length ds = 8" "list_all is_hex ds"
  shows "scan_hex8 (ds @ s) = Some (of_nat (hex_num ds), s)"
proof -
  obtain a b r where ds: "ds = a # b # r" using assms(1) by (cases ds rule: list.exhaust; cases "tl ds") auto
  have a: "is_hex a" "is_hex b" using assms(2) ds by auto
  have d: "dropWhile is_space (ds @ s) = ds @ s" "read_sign ds = (False, ds)" using hex_plain [OF a(1)] by (simp_all add: ds read_sign_def)
  have w: "(case ds of z # x # r \<Rightarrow> if z = CHR ''0'' \<and> (x = CHR ''x'' \<or> x = CHR ''X'') then r else ds | _ \<Rightarrow> ds) = ds"
    using hex_plain [OF a(2)] by (simp add: ds)
  have t: "takeWhile is_hex ds = ds" using assms(2) by (simp add: takeWhile_eq_all_conv list_all_iff)
  have ne: "ds \<noteq> []" by (simp add: ds)
  have e: "take 8 (ds @ s) = ds" using assms(1) by simp
  show ?thesis unfolding scan_hex8_def Let_def d(1) e d(2) prod.case w t using ne assms(1) by simp
qed

lemma scan_game_line:
  assumes "entry_ok (i, name, keys)" "game_line (entry_game (i, name, keys)) = Some l"
  shows "scan_game l = Some (int i, name, case keys of None \<Rightarrow> NoKeys | Some ks \<Rightarrow> TwoKeys (of_nat (hex_num (take 8 ks))) (of_nat (hex_num (drop 8 ks))))"
proof -
  have g: "i < 2 ^ 31" "name \<noteq> []" "list_all (\<lambda>c. c \<noteq> CHR 0x22) name" using assms(1) by (auto simp: game_ok_def list_all_iff)
  have q: "takeWhile (\<lambda>c. c \<noteq> CHR 0x22) (name @ CHR 0x22 # s) = name" "dropWhile (\<lambda>c. c \<noteq> CHR 0x22) (name @ CHR 0x22 # s) = CHR 0x22 # s" for s
    using g(3) by (induction name) auto
  have "int i < 2 ^ 31" using g(1) by simp
  then have n: "scan_int (show_nat i @ CHR '' '' # s) = Some (int i, CHR '' '' # s)" for s
    using scan_show_int [of "int i" "CHR '' '' # s"] by (simp add: show_int_def is_digit_def)
  show ?thesis
  proof (cases keys)
    case None
    then have l: "l = show_nat i @ CHR '' '' # CHR 0x22 # name @ CHR 0x22 # nl" using assms(2) by (simp add: game_line_def quote_def)
    show ?thesis unfolding l using n q g(2) None by (simp add: scan_game_def scan_char_def is_space_def nl_def)
  next
    case (Some ks)
    then have k: "length ks = 16" "list_all is_hex ks" using assms(1) by (auto simp: game_ok_def)
    have ts: "take 8 ks @ drop 8 ks @ w = ks @ w" for w by (simp flip: append_assoc)
    have l: "l = show_nat i @ CHR '' '' # CHR 0x22 # name @ CHR 0x22 # CHR '' '' # CHR ''('' # take 8 ks @ drop 8 ks @ '')'' @ nl"
      using assms(2) Some by (simp add: game_line_def quote_def ts)
    have h: "scan_hex8 (take 8 ks @ s) = Some (of_nat (hex_num (take 8 ks)), s)" "scan_hex8 (drop 8 ks @ s) = Some (of_nat (hex_num (drop 8 ks)), s)" for s
      using k by (intro scan_hex8_digits; auto simp: list_all_iff dest: in_set_takeD in_set_dropD)+
    show ?thesis unfolding l using n q g(2) Some h by (simp add: scan_game_def scan_char_def is_space_def)
  qed
qed

lemma game_line_shape:
  assumes "entry_ok e" "game_line (entry_game e) = Some l"
  shows "\<exists>b. l = b @ [CHR 0x0A] \<and> list_all (\<lambda>c. c \<noteq> CHR 0x0A \<and> c \<noteq> CHR 0x00) b"
proof -
  obtain i name keys where e: "e = (i, name, keys)" by (cases e)
  have p: "is_digit c \<Longrightarrow> c \<noteq> CHR 0x0A \<and> c \<noteq> CHR 0x00" for c by (auto simp: is_digit_def)
  have d: "list_all (\<lambda>c. c \<noteq> CHR 0x0A \<and> c \<noteq> CHR 0x00) (show_nat i)" using show_nat_digits [of i] p by (auto simp: list_all_iff)
  have n: "list_all (\<lambda>c. c \<noteq> CHR 0x0A \<and> c \<noteq> CHR 0x00) name" using assms(1) by (auto simp: e game_ok_def list_all_iff)
  show ?thesis
  proof (cases keys)
    case None
    then have "l = (show_nat i @ '' '' @ quote @ name @ quote) @ [CHR 0x0A]" using assms(2) by (simp add: e game_line_def nl_def)
    then show ?thesis using d n by (intro exI [of _ "show_nat i @ '' '' @ quote @ name @ quote"]) (simp add: quote_def)
  next
    case (Some ks)
    then have "list_all (\<lambda>c. c \<noteq> CHR 0x0A \<and> c \<noteq> CHR 0x00) ks" using assms(1) hex_plain by (auto simp: e game_ok_def list_all_iff)
    moreover have "l = (show_nat i @ '' '' @ quote @ name @ quote @ '' ('' @ ks @ '')'') @ [CHR 0x0A]" using assms(2) Some by (simp add: e game_line_def nl_def)
    ultimately show ?thesis using d n
      by (intro exI [of _ "show_nat i @ '' '' @ quote @ name @ quote @ '' ('' @ ks @ '')''"]) (simp add: quote_def)
  qed
qed

lemma look_up_line:
  assumes "entry_ok e" "game_line (entry_game e) = Some l"
  shows "look_up n (l @ s) = (if int (fst e) = n then Some (entry_desc e) else look_up n s)"
proof -
  obtain b where b: "l = b @ [CHR 0x0A]" "list_all (\<lambda>c. c \<noteq> CHR 0x0A \<and> c \<noteq> CHR 0x00) b" using game_line_shape [OF assms] by blast
  have "takeWhile (\<lambda>c. c \<noteq> CHR 0x0A) (b @ CHR 0x0A # s) = b" "dropWhile (\<lambda>c. c \<noteq> CHR 0x0A) (b @ CHR 0x0A # s) = CHR 0x0A # s"
    using b(2) by (induction b) auto
  then have lo: "line_of (l @ s) = l" by (simp add: line_of_def b(1))
  have z: "takeWhile (\<lambda>c. c \<noteq> CHR 0x00) l = l" using b(2) by (simp add: b(1) takeWhile_eq_all_conv list_all_iff)
  obtain i name keys where e: "e = (i, name, keys)" by (cases e)
  note g = scan_game_line [OF assms [unfolded e]]
  have ne: "l \<noteq> []" by (simp add: b(1))
  show ?thesis by (subst look_up.simps) (simp add: lo z g e ne [simplified] split: option.split)
qed

text \<open>C39: What the extractor writes is what a game finds (\<open>game_data.c\<close>, \<open>rest.c\<close>): for a list of games with numbers of their own,
  from the vendor's file as it was encrypted, the text file is written, and looking any of the numbers up gives the game's name and,
  when it has them, its two keys; a number that is not in the list is not found.\<close>

theorem written_games_are_found:
  assumes "list_all entry_ok es" "distinct (map fst es)" "alloc (length plain + 1)" "\<forall>b \<in> set plain. b \<noteq> 0"
    "xml (map (\<lambda>b. char_of (unat b)) plain) = Some (map entry_game es)" "home \<noteq> None"
  shows "\<exists>t. get_game_data xml alloc True (Some (rc4_xor plain (ksa secret_key 16))) False = Some (True, Some t) \<and>
    (\<forall>e \<in> set es. game_data_get_desc home (Some t) (int (fst e)) gd = Some (True, entry_desc e)) \<and>
    (\<forall>n. n \<notin> (int \<circ> fst) ` set es \<longrightarrow> (\<exists>d. game_data_get_desc home (Some t) n gd = Some (False, d)))"
proof -
  have "\<exists>t. game_lines (map entry_game es) = Some t \<and>
      (\<forall>n. look_up n t = map_option entry_desc (find (\<lambda>e. int (fst e) = n) es))" using assms(1)
  proof (induction es)
    case Nil then show ?case by (simp add: look_up.simps)
  next
    case (Cons e es)
    then obtain t where t: "game_lines (map entry_game es) = Some t" "\<And>n. look_up n t = map_option entry_desc (find (\<lambda>e. int (fst e) = n) es)" by auto
    obtain i name keys where e: "e = (i, name, keys)" by (cases e)
    obtain l where l: "game_line (entry_game e) = Some l" by (cases keys) (simp_all add: e game_line_def)
    have "entry_ok e" using Cons.prems by simp
    from look_up_line [OF this l] t l show ?case by simp
  qed
  then obtain t where t: "game_lines (map entry_game es) = Some t" "\<And>n. look_up n t = map_option entry_desc (find (\<lambda>e. int (fst e) = n) es)" by auto
  have p: "decrypt_file alloc (Some (rc4_xor plain (ksa secret_key 16))) False = Some plain" using assms(3) by (simp add: decrypt_file_def)
  have z: "takeWhile (\<lambda>b. b \<noteq> 0) plain = plain" using assms(4) by (simp add: takeWhile_eq_all_conv)
  obtain hd' where h: "home = Some hd'" using assms(6) by blast
  have f: "find (\<lambda>x. int (fst x) = int (fst e)) es = Some e" if "e \<in> set es" for e
    using assms(2) that by (induction es) (auto simp: rev_image_eqI)
  have "find (\<lambda>x. int (fst x) = n) es = None" if "n \<notin> (int \<circ> fst) ` set es" for n
    using that by (force simp: find_None_iff)
  then show ?thesis using t f by (simp add: get_game_data_def p z assms(5) game_data_get_desc_def h)
qed

text \<open>An update that cannot be read leaves an empty file behind.\<close>

lemma failed_update_empties:
  "decrypt_file alloc inp from_update = None \<Longrightarrow> get_game_data xml alloc True inp from_update = Some (False, Some [])"
  by (simp add: get_game_data_def)

text \<open>Examples.\<close>

theorem decrypts_what_was_encrypted_witness:
  "decrypt_file (\<lambda>_. True) (Some (rc4_xor [1, 2, 3] (ksa secret_key 16))) False = Some [1, 2, 3]"
  using decrypts_what_was_encrypted [of "\<lambda>_. True" "[1, 2, 3]" "replicate 16 0" 0] by simp

definition demo_games :: "entry list" where
  "demo_games = [(1001, ''Sim'', None), (2002, ''Race'', Some ''0123456789abcdef'')]"

theorem written_games_are_found_witness:
  "\<forall>gd0. \<exists>t. get_game_data (\<lambda>x. if x = ''A'' then Some (map entry_game demo_games) else None) (\<lambda>_. True) True (Some (rc4_xor [65] (ksa secret_key 16))) False =
     Some (True, Some t) \<and>
    game_data_get_desc (Some ''/h'') (Some t) 2002 gd0 =
      Some (True, \<lparr>gd_name = Some ''Race'', gd_encrypted = True, gd_key1 = 0x01234567, gd_key2 = 0x89abcdef\<rparr>)"
proof -
  have k: "(char_of (65 :: nat) :: char) = CHR ''A''" by (simp add: char_of_eq_iff)
  have h: "hex_num ''01234567'' = 0x01234567" "hex_num ''89abcdef'' = 0x89abcdef" by (simp_all add: hex_num_def hex_val_def Let_def)
  have ok: "list_all entry_ok demo_games" by (simp add: demo_games_def game_ok_def is_hex_def is_digit_def)
  show ?thesis
  proof
    fix gd0
    show "\<exists>t. get_game_data (\<lambda>x. if x = ''A'' then Some (map entry_game demo_games) else None) (\<lambda>_. True) True (Some (rc4_xor [65] (ksa secret_key 16))) False =
        Some (True, Some t) \<and>
      game_data_get_desc (Some ''/h'') (Some t) 2002 gd0 =
        Some (True, \<lparr>gd_name = Some ''Race'', gd_encrypted = True, gd_key1 = 0x01234567, gd_key2 = 0x89abcdef\<rparr>)"
    using written_games_are_found [OF ok, of "\<lambda>_. True" "[65]" "\<lambda>x. if x = ''A'' then Some (map entry_game demo_games) else None" "Some ''/h''" gd0] k h
      by (auto simp: demo_games_def)
  qed
qed

end
