(* ===== verification/NpClient.thy ===== *)
theory NpClient
  imports GameData Pipe
begin

text \<open>
  The Windows side: \<open>src/wine_bridge/client/NPClient_main.c\<close>, the library that a game takes for that of the vendor, the rest of
  \<open>rest.c\<close>, and from \<open>src/wine_bridge/tester/npifc.c\<close> the decoding a game does. A frame is the 68 bytes of the packed structure
  \<open>tir_data_t\<close>, its numbers lowest byte first, its floats as IEEE 754 has them (\<open>nan\<close> is the pattern of a NaN). The arithmetic of
  the checksum is that of 32 bits: the code relies on an \<open>int\<close> that wraps and on arithmetic shifts. What the library calls of
  linuxtrack and of Windows is collected.
\<close>

subsection \<open>Frames\<close>

record tir_data =
  td_status :: u16
  td_frame :: u16
  td_cksum :: u32
  td_roll :: cflt
  td_pitch :: cflt
  td_yaw :: cflt
  td_tx :: cflt
  td_ty :: cflt
  td_tz :: cflt

definition to_le16 :: "u16 \<Rightarrow> bytes" where
  "to_le16 x = [ucast x, ucast (drop_bit 8 x)]"

definition tir_bytes :: "u32 \<Rightarrow> tir_data \<Rightarrow> bytes" where
  "tir_bytes nan d = to_le16 (td_status d) @ to_le16 (td_frame d) @ to_le32 (td_cksum d) @
     concat (map (\<lambda>x. to_le32 (flt_bits nan x)) [td_roll d, td_pitch d, td_yaw d, td_tx d, td_ty d, td_tz d]) @ replicate 36 0"

definition limit_num :: "cflt \<Rightarrow> cflt \<Rightarrow> cflt \<Rightarrow> cflt" where
  "limit_num mn val mx = (if flt_less val mn then mn else if flt_less mx val then mx else val)"

subsection \<open>The checksum\<close>

text \<open>A \<open>short\<close> and a \<open>signed char\<close>, extended with their sign.\<close>

definition short_at :: "bytes \<Rightarrow> nat \<Rightarrow> u32" where
  "short_at bf k = scast (ucast (bf ! k) OR push_bit 8 (ucast (bf ! (k + 1))) :: u16)"

definition schar_at :: "bytes \<Rightarrow> nat \<Rightarrow> u32" where
  "schar_at bf k = scast (bf ! k)"

definition cksum_round :: "u32 \<Rightarrow> bytes \<Rightarrow> u32" where
  "cksum_round c bf =
     (let a0 = short_at bf 0;
          a2 = short_at bf 2;
          c = c + a0;
          a2 = a2 XOR push_bit 5 c;
          a2 = push_bit 11 a2;
          c = c XOR a2
      in c + signed_drop_bit 11 c)"

fun cksum_rounds :: "nat \<Rightarrow> u32 \<Rightarrow> bytes \<Rightarrow> u32 \<times> bytes" where
  "cksum_rounds 0 c bf = (c, bf)"
| "cksum_rounds (Suc n) c bf = cksum_rounds n (cksum_round c bf) (drop 4 bf)"

definition cksum_rest :: "nat \<Rightarrow> u32 \<Rightarrow> bytes \<Rightarrow> u32" where
  "cksum_rest r c bf =
     (if r = 3 then
        let c = c + short_at bf 0; a2 = push_bit 2 (schar_at bf 2) XOR c; c = c XOR push_bit 16 a2 in c + signed_drop_bit 11 c
      else if r = 2 then
        let c = c + short_at bf 0; c = c XOR push_bit 11 c in c + signed_drop_bit 17 c
      else if r = 1 then
        let c = c + schar_at bf 0; c = c XOR push_bit 10 c in c + signed_drop_bit 1 c
      else c)"

definition cksum_end :: "u32 \<Rightarrow> u32" where
  "cksum_end c =
     (let c = c XOR push_bit 3 c;
          c = c + signed_drop_bit 5 c;
          c = c XOR push_bit 4 c;
          c = c + signed_drop_bit 17 c;
          c = c XOR push_bit 25 c
      in c + signed_drop_bit 6 c)"

definition cksum :: "bytes \<Rightarrow> u32" where
  "cksum bf = (if bf = [] then 0
     else case cksum_rounds (length bf div 4) (of_nat (length bf)) bf of (c, bf') \<Rightarrow> cksum_end (cksum_rest (length bf mod 4) c bf'))"

subsection \<open>The encryption\<close>

text \<open>From the last byte down; \<open>sz\<close> is the position after its decrement.\<close>

primrec enhance_loop :: "bytes \<Rightarrow> nat \<Rightarrow> u8 \<Rightarrow> nat \<Rightarrow> bytes \<Rightarrow> bytes" where
  "enhance_loop codetable ptr var 0 bf = bf"
| "enhance_loop codetable ptr var (Suc sz) bf =
     (let tmp = bf ! sz;
          bf = bf[sz := tmp XOR codetable ! ptr XOR var];
          var = var + (of_nat sz + tmp);
          ptr = (if ptr + 1 \<ge> length codetable then ptr + 1 - length codetable else ptr + 1)
      in enhance_loop codetable ptr var sz bf)"

definition enhance :: "bytes \<Rightarrow> bytes \<Rightarrow> bytes" where
  "enhance bf codetable = (if bf = [] \<or> codetable = [] then bf else enhance_loop codetable 0 0x88 (length bf) bf)"

primrec decrypt_loop :: "bytes \<Rightarrow> nat \<Rightarrow> u8 \<Rightarrow> nat \<Rightarrow> bytes \<Rightarrow> bytes" where
  "decrypt_loop codetable ptr var 0 bf = bf"
| "decrypt_loop codetable ptr var (Suc sz) bf =
     (let tmp = bf ! sz;
          bf = bf[sz := tmp XOR codetable ! ptr XOR var];
          var = var + (of_nat sz + bf ! sz);
          ptr = (if ptr + 1 \<ge> length codetable then ptr + 1 - length codetable else ptr + 1)
      in decrypt_loop codetable ptr var sz bf)"

definition decrypt :: "bytes \<Rightarrow> bytes \<Rightarrow> bytes" where
  "decrypt bf codetable = (if bf = [] \<or> codetable = [] then bf else decrypt_loop codetable 0 0x88 (length bf) bf)"

subsection \<open>The library\<close>

datatype np_call = NpInit string | NpSuspend | NpWakeup | NpRecenter | NpShutdown | SharedLock string | RunFile string

record np =
  crypted :: bool
  code_table :: bytes
  np_calls :: "np_call list"

definition np_start :: np where
  "np_start = \<lparr>crypted = False, code_table = replicate 8 0, np_calls = []\<rparr>"

definition np_do :: "np_call \<Rightarrow> np \<Rightarrow> np" where
  "np_do c s = s\<lparr>np_calls := np_calls s @ [c]\<rparr>"

text \<open>The angles are converted in \<open>double\<close>.\<close>

definition np_angle :: "cflt \<Rightarrow> cflt" where
  "np_angle x = fcvt b32 (fmul b64 (fdiv b64 x (Fin 180)) (Fin 16383))"

definition np_trans :: "cflt \<Rightarrow> cflt" where
  "np_trans x = limit_num (Fin (- 16383)) (fmul b32 (Fin 15) x) (Fin 16383)"

text \<open>The frame before its checksum, from what the tracking answers.\<close>

definition np_frame :: "pose_out \<Rightarrow> int \<Rightarrow> tir_data" where
  "np_frame p st = \<lparr>td_status = (if st = state_num RUNNING then 0 else 1), td_frame = ucast (o_counter p), td_cksum = 0,
     td_roll = np_angle (o_roll p), td_pitch = np_angle (fneg (o_pitch p)), td_yaw = np_angle (o_heading p),
     td_tx = fneg (np_trans (o_tx p)), td_ty = np_trans (o_ty p), td_tz = np_trans (o_tz p)\<rparr>"

definition NP_GetData :: "u32 \<Rightarrow> int \<times> pose_out \<Rightarrow> int \<Rightarrow> np \<Rightarrow> int \<times> bytes" where
  "NP_GetData nan res st s =
     (let d = np_frame (snd res) st;
          d = d\<lparr>td_cksum := cksum (tir_bytes nan d)\<rparr>;
          bf = tir_bytes nan d
      in (if 0 \<le> fst res then 0 else 1, if crypted s then enhance bf (code_table s) else bf))"

definition key_table :: "game_desc \<Rightarrow> bytes" where
  "key_table gd = map (\<lambda>k. u8_of_u32 (drop_bit (8 * k) (gd_key1 gd))) [0, 1, 2, 3] @ map (\<lambda>k. u8_of_u32 (drop_bit (8 * k) (gd_key2 gd))) [0, 1, 2, 3]"

text \<open>The game is looked up twice; \<open>init\<close> is what the tracking answers, by the name of the profile.\<close>

definition NP_RegisterProgramProfileID ::
  "string option \<Rightarrow> string option \<Rightarrow> (string \<Rightarrow> int) \<Rightarrow> u16 \<Rightarrow> game_desc \<Rightarrow> np \<Rightarrow> (int \<times> np) option" where
  "NP_RegisterProgramProfileID hm fl init gid gd s = do {
     (found, gd) \<leftarrow> game_data_get_desc hm fl (uint gid) gd;
     (name, s) \<leftarrow> (if found then do {
         (again, gd) \<leftarrow> game_data_get_desc hm fl (uint gid) gd;
         name \<leftarrow> gd_name gd;
         Some (name, if again then s\<lparr>crypted := gd_encrypted gd, code_table := (if gd_encrypted gd then key_table gd else code_table s)\<rparr> else s) }
       else Some (''Default'', s));
     let s = np_do (NpInit name) s;
     Some (if init name < state_num LINUXTRACK_OK then (1, s)
           else (0, np_do NpSuspend (np_do (RunFile ''TrackIR.exe'') (np_do (SharedLock ''NPClient.dll'') s)))) }"

definition NP_ReCenter :: "np \<Rightarrow> int \<times> np" where "NP_ReCenter s = (0, np_do NpRecenter s)"
definition NP_StartDataTransmission :: "np \<Rightarrow> int \<times> np" where "NP_StartDataTransmission s = (0, np_do NpWakeup s)"
definition NP_StopDataTransmission :: "np \<Rightarrow> int \<times> np" where "NP_StopDataTransmission s = (0, np_do NpSuspend s)"
definition NP_QueryVersion :: "int \<times> u16" where "NP_QueryVersion = (0, 0x0500)"
definition np_detach :: "np \<Rightarrow> np" where "np_detach s = np_do NpShutdown s"

text \<open>The two signatures, from files: buffers of 200 bytes.\<close>

definition verse :: "bytes option \<Rightarrow> bytes" where
  "verse f = take 200 (case f of None \<Rightarrow> replicate 200 0 | Some bs \<Rightarrow> bs @ replicate 200 0)"

definition getSomeSeriousPoetry :: "string option \<Rightarrow> bytes option \<Rightarrow> bytes option \<Rightarrow> (bool \<times> bytes \<times> bytes) option" where
  "getSomeSeriousPoetry hm f1 f2 = (case hm of None \<Rightarrow> None
   | Some _ \<Rightarrow> Some (f1 \<noteq> None \<and> f1 \<noteq> Some [] \<and> f2 \<noteq> None \<and> f2 \<noteq> Some [], verse f1, verse f2))"

definition NP_GetSignature :: "string option \<Rightarrow> bytes option \<Rightarrow> bytes option \<Rightarrow> (int \<times> bytes \<times> bytes) option" where
  "NP_GetSignature hm f1 f2 = map_option (\<lambda>(ok, v1, v2). (if ok then 0 else 1, v1, v2)) (getSomeSeriousPoetry hm f1 f2)"

definition getDebugFlag :: "string option \<Rightarrow> char \<Rightarrow> bool" where
  "getDebugFlag flags flag = (case flags of None \<Rightarrow> False | Some s \<Rightarrow> flag \<in> set s)"

subsection \<open>The game's side\<close>

record npifc =
  ni_crypted :: bool
  ni_table :: bytes

definition npifc_start :: npifc where
  "npifc_start = \<lparr>ni_crypted = False, ni_table = replicate 8 0\<rparr>"

text \<open>The first part of \<open>npifc_init\<close>: the keys of the game, taken from the numbers byte by byte.\<close>

fun key_bytes :: "nat \<Rightarrow> u32 \<Rightarrow> bytes" where
  "key_bytes 0 k = []"
| "key_bytes (Suc n) k = u8_of_u32 (k AND 0xff) # key_bytes n (drop_bit 8 k)"

definition npifc_table :: "game_desc \<Rightarrow> bytes" where
  "npifc_table gd = key_bytes 4 (gd_key1 gd) @ key_bytes 4 (gd_key2 gd)"

definition npifc_keys :: "string option \<Rightarrow> string option \<Rightarrow> int \<Rightarrow> game_desc \<Rightarrow> npifc \<Rightarrow> npifc option" where
  "npifc_keys hm fl gid gd n = do {
     (found, gd) \<leftarrow> game_data_get_desc hm fl gid gd;
     Some (if found then n\<lparr>ni_crypted := gd_encrypted gd, ni_table := (if gd_encrypted gd then npifc_table gd else ni_table n)\<rparr> else n) }"

text \<open>The copy of the checksum in \<open>npifc.c\<close>; \<open>a2\<close> is a variable of the whole function there.\<close>

fun ni_loop :: "nat \<Rightarrow> u32 \<Rightarrow> u32 \<Rightarrow> bytes \<Rightarrow> u32 \<times> u32 \<times> bytes" where
  "ni_loop 0 c a2 bf = (c, a2, bf)"
| "ni_loop (Suc n) c a2 bf =
     (let a0 = short_at bf 0;
          a2 = short_at bf 2;
          bf = drop 4 bf;
          c = c + a0;
          a2 = a2 XOR push_bit 5 c;
          a2 = push_bit 11 a2;
          c = c XOR a2;
          c = c + signed_drop_bit 11 c
      in ni_loop n c a2 bf)"

definition ni_switch :: "nat \<Rightarrow> u32 \<Rightarrow> u32 \<Rightarrow> bytes \<Rightarrow> u32 \<times> u32" where
  "ni_switch r c a2 bf =
     (if r = 3 then
        let a0 = short_at bf 0; a2 = schar_at bf 2; c = c + a0; a2 = push_bit 2 a2 XOR c; c = c XOR push_bit 16 a2; a2 = signed_drop_bit 11 c
        in (c, a2)
      else if r = 2 then
        let a2 = short_at bf 0; c = c + a2; c = c XOR push_bit 11 c; a2 = signed_drop_bit 17 c in (c, a2)
      else if r = 1 then
        let a2 = schar_at bf 0; c = c + a2; c = c XOR push_bit 10 c; a2 = signed_drop_bit 1 c in (c, a2)
      else (c, a2))"

definition ni_cksum :: "bytes \<Rightarrow> u32" where
  "ni_cksum bf = (if bf = [] then 0
     else let (c, a2, bf') = ni_loop (length bf div 4) (of_nat (length bf)) 0 bf;
              (c, a2) = ni_switch (length bf mod 4) c a2 bf';
              c = (if length bf mod 4 \<noteq> 0 then c + a2 else c);
              c = c XOR push_bit 3 c;
              c = c + signed_drop_bit 5 c;
              c = c XOR push_bit 4 c;
              c = c + signed_drop_bit 17 c;
              c = c XOR push_bit 25 c;
              c = c + signed_drop_bit 6 c
          in c)"

definition decode_frame :: "bytes \<Rightarrow> bytes \<Rightarrow> int \<times> bytes" where
  "decode_frame codetable td =
     (let td = decrypt td codetable;
          csum = le32 (take 4 (drop 4 td));
          td = take 4 td @ [0, 0, 0, 0] @ drop 8 td
      in (if csum \<noteq> ni_cksum td then - 1 else 0, td))"

definition npifc_getdata :: "npifc \<Rightarrow> int \<times> bytes \<Rightarrow> int \<times> bytes" where
  "npifc_getdata n r = (fst r, if ni_crypted n then snd (decode_frame (ni_table n) (snd r)) else snd r)"

subsection \<open>Properties\<close>

lemma enhance_loop_above: "sz \<le> k \<Longrightarrow> enhance_loop t ptr var sz bf ! k = bf ! k" "length (enhance_loop t ptr var sz bf) = length bf"
  by (induction sz arbitrary: ptr var bf) (simp_all add: Let_def)

lemma decrypt_loop_length [simp]: "length (decrypt_loop t ptr var sz bf) = length bf"
  by (induction sz arbitrary: ptr var bf) (simp_all add: Let_def)

text \<open>Each byte is decrypted before the next lower one is needed, so both loops see the same variable.\<close>

lemma enhance_loop_update: "sz \<le> k \<Longrightarrow> k < length bf \<Longrightarrow> enhance_loop t ptr var sz (bf[k := x]) = (enhance_loop t ptr var sz bf)[k := x]"
proof (induction sz arbitrary: ptr var bf)
  case (Suc sz)
  then have "sz \<noteq> k" by simp
  then have sw: "bf[k := x, sz := v] = bf[sz := v, k := x]" for v by (metis list_update_swap)
  have nth: "bf[k := x] ! sz = bf ! sz" using \<open>sz \<noteq> k\<close> by simp
  show ?case using Suc.IH [of "bf[sz := v]" for v] Suc.prems by (simp add: Let_def nth sw)
qed simp

lemma decrypt_enhance_loop: "sz \<le> length bf \<Longrightarrow> decrypt_loop t ptr var sz (enhance_loop t ptr var sz bf) = bf"
proof (induction sz arbitrary: ptr var bf)
  case (Suc sz)
  define tmp where "tmp = bf ! sz"
  define y where "y = tmp XOR t ! ptr XOR var"
  define p where "p = (if ptr + 1 \<ge> length t then ptr + 1 - length t else ptr + 1)"
  define e where "e = enhance_loop t p (var + (of_nat sz + tmp)) sz bf"
  have l: "length e = length bf" by (simp add: e_def enhance_loop_above)
  have en: "enhance_loop t ptr var (Suc sz) bf = e[sz := y]"
    using Suc.prems by (simp add: Let_def e_def y_def tmp_def p_def enhance_loop_update)
  have x: "y XOR t ! ptr XOR var = tmp" by (simp add: y_def xor.assoc xor.left_commute)
  have "decrypt_loop t ptr var (Suc sz) (e[sz := y]) = decrypt_loop t p (var + (of_nat sz + tmp)) sz (e[sz := tmp])"
    using Suc.prems l x by (simp add: Let_def p_def)
  also have "e[sz := tmp] = e"
  proof -
    have "e ! sz = tmp" unfolding e_def tmp_def by (rule enhance_loop_above(1)) simp
    then show ?thesis using Suc.prems l by (simp add: list_update_same_conv)
  qed
  also have "decrypt_loop t p (var + (of_nat sz + tmp)) sz e = bf" unfolding e_def using Suc by simp
  finally show ?case by (simp only: en)
qed simp

lemma decrypt_enhance [simp]: "decrypt (enhance bf t) t = bf"
proof -
  have "length (enhance_loop t 0 0x88 (length bf) bf) = length bf" by (rule enhance_loop_above)
  then have "bf \<noteq> [] \<Longrightarrow> enhance_loop t 0 0x88 (length bf) bf \<noteq> []" by (metis length_0_conv)
  then show ?thesis using decrypt_enhance_loop [of "length bf" bf t 0 "0x88"] enhance_loop_above(2) by (simp add: decrypt_def enhance_def)
qed

text \<open>The two checksums, and the two ways to take the keys apart, agree.\<close>

lemma ni_loop_rounds: "case ni_loop n c a2 bf of (c', _, bf') \<Rightarrow> cksum_rounds n c bf = (c', bf')"
proof (induction n arbitrary: c a2 bf)
  case (Suc n)
  show ?case using Suc.IH by (simp add: cksum_round_def Let_def)
qed simp

lemma mod4_cases: "(n :: nat) mod 4 = 0 \<or> n mod 4 = 1 \<or> n mod 4 = 2 \<or> n mod 4 = 3"
  by arith

lemma ni_cksum_eq: "ni_cksum bf = cksum bf"
proof -
  obtain c a2 bf' where l: "ni_loop (length bf div 4) (of_nat (length bf)) 0 bf = (c, a2, bf')"
    by (cases "ni_loop (length bf div 4) (of_nat (length bf)) 0 bf") auto
  then have r: "cksum_rounds (length bf div 4) (of_nat (length bf)) bf = (c, bf')"
    using ni_loop_rounds [where n = "length bf div 4" and c = "of_nat (length bf)" and ?a2.0 = 0 and bf = bf] by simp
  show ?thesis using mod4_cases [of "length bf"]
    by (elim disjE) (simp_all add: ni_cksum_def cksum_def l r ni_switch_def cksum_rest_def cksum_end_def Let_def)
qed

lemma key_bytes_table: "npifc_table gd = key_table gd"
proof -
  have m: "(0xff :: u32) = mask 8" by (simp add: mask_eq_exp_minus_1)
  have b: "u8_of_u32 (k AND 0xff) = u8_of_u32 k" for k :: u32
    unfolding u8_of_u32_def m by (rule bit_word_eqI) (auto simp: bit_ucast_iff bit_and_iff bit_mask_iff)
  show ?thesis by (simp add: npifc_table_def key_table_def b numeral_eq_Suc drop_bit_drop_bit)
qed

lemma tir_bytes_length [simp]: "length (tir_bytes nan d) = 68"
  by (simp add: tir_bytes_def to_le16_def)

lemma tir_bytes_cksum: "take 4 (drop 4 (tir_bytes nan d)) = to_le32 (td_cksum d)"
  "take 4 (tir_bytes nan d) @ [0, 0, 0, 0] @ drop 8 (tir_bytes nan d) = tir_bytes nan (d\<lparr>td_cksum := 0\<rparr>)"
proof -
  have z: "to_le32 0 = [0, 0, 0, 0]" by (simp add: to_le32_def u8_of_u32_def)
  show "take 4 (drop 4 (tir_bytes nan d)) = to_le32 (td_cksum d)" by (simp add: tir_bytes_def to_le16_def)
  show "take 4 (tir_bytes nan d) @ [0, 0, 0, 0] @ drop 8 (tir_bytes nan d) = tir_bytes nan (d\<lparr>td_cksum := 0\<rparr>)"
    by (simp add: tir_bytes_def to_le16_def z)
qed

lemma tir_bytes_zeroed: "take 4 (tir_bytes nan d) @ 0 # 0 # 0 # 0 # drop 8 (tir_bytes nan d) = tir_bytes nan (d\<lparr>td_cksum := 0\<rparr>)"
  using tir_bytes_cksum(2) [of nan d] by simp

lemma key_table_twice: "npifc_keys hm fl gid gd n = Some n' \<Longrightarrow> game_data_get_desc hm fl gid gd = Some (True, d) \<Longrightarrow>
  ni_crypted n' = gd_encrypted d \<and> (gd_encrypted d \<longrightarrow> ni_table n' = key_table d)"
  by (auto simp: npifc_keys_def key_bytes_table)

lemma desc_found: "game_data_get_desc hm fl gid gd = Some (True, d) \<Longrightarrow> game_data_get_desc hm fl gid gd' = Some (True, d)"
  by (auto simp: game_data_get_desc_def split: option.splits)

text \<open>C40: A game understands every frame (\<open>NPClient_main.c\<close>, \<open>rest.c\<close>, \<open>npifc.c\<close>). When a game that needs encrypted frames registers itself, and takes its
  keys from the same file, each frame the library then gives, for any pose and state of the tracking, passes the test of the
  checksum in \<open>npifc.c\<close>, which has its own copy of the function and its own way to take the keys apart, and decodes to the bytes of the
  plain frame, its checksum field cleared; for a game without keys the frame is plain at once. The file is the same for both, and
  contains the game.\<close>

theorem game_decodes_frames:
  assumes "game_data_get_desc hm fl (uint gid) gd = Some (True, d)" "NP_RegisterProgramProfileID hm fl init gid gd s = Some (r, s')"
    "npifc_keys hm fl (uint gid) gd n = Some n'"
  shows "if gd_encrypted d
    then decode_frame (ni_table n') (snd (NP_GetData nan res st s')) = (0, tir_bytes nan (np_frame (snd res) st))
    else snd (npifc_getdata n' (NP_GetData nan res st s')) =
      tir_bytes nan ((np_frame (snd res) st)\<lparr>td_cksum := cksum (tir_bytes nan (np_frame (snd res) st))\<rparr>)"
proof -
  have c: "crypted s' = gd_encrypted d" "gd_encrypted d \<Longrightarrow> code_table s' = key_table d"
    using assms(2) desc_found [OF assms(1)]
    by (auto simp: NP_RegisterProgramProfileID_def np_do_def bind_eq_Some_conv Let_def split: if_splits)
  note k = key_table_twice [OF assms(3,1)]
  have f: "(np_frame p st)\<lparr>td_cksum := 0\<rparr> = np_frame p st" for p by (simp add: np_frame_def)
  show ?thesis
    using c k by (simp add: NP_GetData_def Let_def decode_frame_def tir_bytes_cksum tir_bytes_zeroed ni_cksum_eq f npifc_getdata_def le32_to_le32)
qed

text \<open>Example: a game with keys.\<close>

definition demo_file :: string where
  "demo_file = the (game_lines (map entry_game demo_games))"

definition demo_desc :: game_desc where
  "demo_desc = \<lparr>gd_name = Some ''Race'', gd_encrypted = True, gd_key1 = 0x01234567, gd_key2 = 0x89abcdef\<rparr>"

lemma demo_game_found: "game_data_get_desc (Some ''/h'') (Some demo_file) 2002 gd = Some (True, demo_desc)"
proof -
  define a where "a = (1001 :: nat, ''Sim'', None :: string option)"
  define b where "b = (2002 :: nat, ''Race'', Some ''0123456789abcdef'')"
  have ok: "entry_ok a" "entry_ok b" by (simp_all add: a_def b_def game_ok_def is_hex_def is_digit_def)
  obtain l where l: "game_line (entry_game a) = Some l" by (simp add: a_def game_line_def)
  obtain m where m: "game_line (entry_game b) = Some m" by (simp add: b_def game_line_def)
  have f: "demo_file = l @ m @ []" using l m by (simp add: demo_file_def demo_games_def a_def b_def)
  have h: "hex_num ''01234567'' = 0x01234567" "hex_num ''89abcdef'' = 0x89abcdef" by (simp_all add: hex_num_def hex_val_def Let_def)
  have "look_up 2002 demo_file = Some demo_desc"
    unfolding f look_up_line [OF ok(1) l] look_up_line [OF ok(2) m] by (simp add: a_def b_def demo_desc_def h)
  then show ?thesis by (simp add: game_data_get_desc_def)
qed

theorem game_decodes_frames_witness:
  "case (NP_RegisterProgramProfileID (Some ''/h'') (Some demo_file) (\<lambda>_. 0) 2002 demo_desc np_start, npifc_keys (Some ''/h'') (Some demo_file) 2002 demo_desc npifc_start) of
     (Some (r, s), Some n) \<Rightarrow> \<forall>nan res st. decode_frame (ni_table n) (snd (NP_GetData nan res st s)) = (0, tir_bytes nan (np_frame (snd res) st))
   | _ \<Rightarrow> False"
proof -
  note d = demo_game_found
  obtain r s where rs: "NP_RegisterProgramProfileID (Some ''/h'') (Some demo_file) (\<lambda>_. 0) 2002 demo_desc np_start = Some (r, s)"
    by (simp add: NP_RegisterProgramProfileID_def d Let_def demo_desc_def)
  obtain n where n: "npifc_keys (Some ''/h'') (Some demo_file) 2002 demo_desc npifc_start = Some n" by (simp add: npifc_keys_def d)
  have u: "uint (2002 :: u16) = 2002" by simp
  have "gd_encrypted demo_desc" by (simp add: demo_desc_def)
  then show ?thesis
    using game_decodes_frames [of "Some ''/h''" "Some demo_file" 2002, unfolded u, OF d rs n] by (simp add: rs n)
qed

end
