(* ===== verification/Spec2Isabelle.thy ===== *)
theory Spec2Isabelle
  imports Prelude CFloat ListC CalTypes ImageProcess UsbIfc TirPrefs TirHw TirImg TirDriver RunLoop TirLoop ComProc OsModel IpcUtils Ltlib Frames
    CText Pref PrefFile MathUtils PrefGlobal FltRound Axis Pose Tracking SrvComm SrvMaster SrvSlave Pipe DriverPrefs Mickey Loader GameData NpClient
begin

text \<open>
  Verification library for linuxtrack, a head tracker: a camera sees reflectors or diodes on the user's head, and games and other
  applications get the pose of the head. This theory loads all others; each of them opens with a text on what it holds. All files
  named below are under \<open>src/\<close>.

  \<^bold>\<open>The program and its parts.\<close>
  An application links the client stub (\<open>linuxtrack.c\<close>), which finds and loads the client library (\<open>ltlib.c\<close>). The library shares a
  structure in a mapped file with a slave server (\<open>ltr_srv_slave.c\<close>), one for each application, which exchanges messages over fifos
  (\<open>ltr_srv_comm.c\<close>) with the master server (\<open>ltr_srv_master.cpp\<close>). The master owns the camera: it runs the loop of a driver
  (\<open>cal.c\<close>, \<open>runloop.c\<close>). The driver of the TrackIR cameras speaks the protocol of the hardware (\<open>tir_hw.c\<close>), decodes packets into stripes
  (\<open>tir_img.c\<close>), and the image processing (\<open>image_process.c\<close>) makes blobs of them; others have helper processes, which pass blobs through
  shared memory (\<open>com_proc.c\<close>). For every frame the tracking (\<open>tracking.c\<close>, \<open>pose.c\<close>) computes a raw pose, the master broadcasts it, each
  slave applies the axes of the profile of its application (\<open>axis.c\<close>, \<open>spline.c\<close>) and publishes the result. Preferences
  (\<open>pref.cpp\<close>, \<open>pref_global.c\<close>, the driver preferences) are read by all of them. Three more programs consume poses: \<open>ltr_pipe.c\<close>
  passes them on to other programs, \<open>mickey/\<close> moves the mouse with them, and the library in \<open>wine_bridge/client\<close> gives them to Windows games.

  \<^bold>\<open>Conventions.\<close>
  Machine integers are words, so that their arithmetic wraps where the code's does; \<open>int\<close> and \<open>nat\<close> stand for C integers only where no operation
  of the code gets near their limits, or with the conversion written out. Floating point is exact IEEE 754 (\<open>CFloat\<close>): values
  are not-a-number, the infinities, negative zero and rationals, each operation rounds to nearest, ties to even, and \<open>b32\<close>
  and \<open>b64\<close> are the formats; the trigonometric functions are parameters of which at most the range is assumed. A function whose C original may
  do what the language does not define (use of a null or stale pointer, access beyond a buffer, conversion of a float that does not fit)
  or may never return gives an \<open>option\<close>, and \<open>None\<close> means exactly that; errors the code reports are results. Static variables of a file are a
  record, which operations take and return. What is outside the repository (the USB library and the device, POSIX calls, the dynamic linker,
  the clock, windows) is a parameter, in most cases a function of the traffic so far; where a theorem needs something of it, that is a
  hypothesis and the theorem comes with a witness.

  \<^bold>\<open>Basis.\<close>
  \<open>Prelude\<close>: names of the machine types, checked access to byte buffers, shared lemmas and lemma collections.
  \<open>CFloat\<close>, \<open>FltRound\<close>: floating point and the facts about rounding that the bounds rest on (monotone, symmetric, exact on integers
  and on the numbers of the format).
  \<open>CText\<close>: numbers as the C and C++ libraries print and read them, and that reading inverts printing.
  \<open>CalTypes\<close>: \<open>cal.h\<close>.
  \<open>OsModel\<close>: directories, inodes, descriptors, locks and mappings as POSIX documents them.

  \<^bold>\<open>From the camera to blobs.\<close>
  \<open>ListC\<close>: \<open>list.c\<close>, a heap with nodes and pointers; every operation refines the one on a sequence, by a locale that is interpreted on the heap.
  \<open>ImageProcess\<close>: \<open>image_process.c\<close>; joining stripes to preblobs conserves the points, frees all memory, and stays in the bitmap.
  \<open>UsbIfc\<close>: \<open>usb_ifc.h\<close>; the answers are a function of the traffic.
  \<open>TirHw\<close>: \<open>tir_hw.c\<close>, all device families: status, firmware upload (exactly the bytes of the file), initialisation, lights, stop;
  what a camera does is read off the packets it received, those whose transfer succeeded.
  \<open>TirImg\<close>: \<open>tir_img.c\<close>, from packets to stripes for all formats. \<open>TirPrefs\<close>: \<open>tir_driver_prefs.c\<close>. \<open>TirDriver\<close>: \<open>tir_driver.c\<close>.
  \<open>RunLoop\<close>: \<open>cal.c\<close> and \<open>runloop.c\<close> as a step relation of two threads, with its invariant by rule induction and the answer to a request for shutdown
  within eleven steps; the driver is a locale, which \<open>TirLoop\<close> interprets on the TrackIR driver.
  \<open>ComProc\<close>: \<open>com_proc.c\<close>; the shared memory refines a register of ten blobs.

  \<^bold>\<open>Preferences.\<close>
  \<open>Pref\<close>: \<open>pref.cpp\<close>, the store with its indexes; looking up equals a search of the items, and the contract of a store of keys is a locale with two
  interpretations (section, all sections). \<open>PrefFile\<close>: scanner, grammar, printing, reading and saving; a saved file reads back
  unless a percent sign in it, used as a format when the file is logged, makes the reading undefined.
  \<open>PrefGlobal\<close>: \<open>pref_global.c\<close>; its cached switches are a locale with three interpretations. \<open>DriverPrefs\<close>: \<open>wc_driver_prefs.c\<close>, \<open>wii_driver_prefs.c\<close>.

  \<^bold>\<open>From blobs to the pose.\<close>
  \<open>MathUtils\<close>: \<open>math_utils.c\<close>. \<open>Axis\<close>: \<open>axis.c\<close> and \<open>spline.c\<close>; bounds on the value of a curve with every rounding. \<open>Pose\<close>: \<open>pose.c\<close>, models, the order
  of the blobs and the algorithms. \<open>Tracking\<close>: \<open>tracking.c\<close>; recentring, and the ranges of a pose that is passed on.

  \<^bold>\<open>Processes.\<close>
  \<open>IpcUtils\<close>: \<open>ipc_utils.c\<close>; a fifo opened exclusively stays so in any interleaving of system calls, as long as its owner closes no descriptor of the
  lock file (which the code does when it probes its own lock). \<open>Ltlib\<close>: \<open>ltlib.c\<close>.
  \<open>Frames\<close>: \<open>ltlib_int.c\<close> and the picture in \<open>ltlib.c\<close>; a picture read is the one published last. \<open>SrvComm\<close>, \<open>SrvMaster\<close>, \<open>SrvSlave\<close>: the servers; their
  theorems compose client, slave and master: a command reaches the tracker once, a pose reaches the application.

  \<^bold>\<open>Programs at the ends.\<close>
  \<open>Pipe\<close>: \<open>ltr_pipe.c\<close>, options, signals, all formats, the loop. \<open>Mickey\<close>: \<open>mickey.cpp\<close>, \<open>transform.cpp\<close>, \<open>uinput_ifc.c\<close>, as a step relation of user, timers
  and frames; the escape key, which hides a dialog and leaves its timer running, is an event, and what holds only without it says so. \<open>Loader\<close>: \<open>linuxtrack.c\<close>, search, loading and unloading. \<open>GameData\<close>: \<open>game_data.c\<close> and looking games up in \<open>rest.c\<close>. \<open>NpClient\<close>: \<open>NPClient_main.c\<close>, \<open>rest.c\<close>, and the
  decoding in \<open>npifc.c\<close>.

  \<^bold>\<open>Loops and bounds.\<close>
  Loops are structural recursions or have a termination proof; loops that wait for a device or follow a pointer are partial functions
  whose results are proved to exist where a theorem says that the code returns. A few counts are the code's own: 20 rounds of
  the search for the distance in \<open>iter_loop\<close> and of requests for a status, 3 attempts to open a fifo in \<open>open_wr_loop\<close>, 11 attempts of the graphical
  master in \<open>take_fifo\<close>, 99 fifo numbers in \<open>unique_loop\<close>. No bound was added that the code does not have.

  \<^bold>\<open>What is not modelled.\<close>
  The webcam, Wiimote, face tracking and Mac drivers are calls of other libraries; the libusb glue, the loading of drivers, the
  X-Plane plug-ins and the Windows dialogs are glue of the same kind; \<open>qt_gui\<close> is user interface. \<open>tir4_driver.c\<close>, \<open>ltr_server.c\<close>
  and \<open>netcomm.c\<close> with their clients are no longer built. The extractor's search (\<open>hashing.c\<close>) is left out, as are log and help messages
  everywhere, but for the one whose format is the text of the preferences. Threads are interleaved at the steps that lock or call out; weaker memory is not considered. Memory is assumed to be granted
  except where the model says otherwise.
\<close>

end
